(* ===== verification/Py_Float.thy ===== *)
theory Py_Float
  imports Complex_Main "HOL-Library.Log_Nat"
begin

text \<open>
  Python's \<^verbatim>\<open>float\<close>: the binary64 numbers of IEEE 754 with the arithmetic the sources use.
  A finite float is the rational number it denotes; every arithmetic operation is the
  exact rational operation followed by \<open>rnd64\<close>, rounding to the nearest binary64 value,
  ties to even, with gradual underflow; a result of magnitude \<open>2 ^ 1024\<close> or more
  overflows to an infinity. The sign of a zero is not represented: the sources never
  observe it. The lemmas give the rounding laws the components rely on: rounding is
  monotone, odd, exact on binary64 values and never turns a representable gap into zero.
\<close>

section \<open>Rounding rationals to binary64\<close>

datatype pyfloat = Fin rat | PosInf | NegInf | NaN

definition pow2 :: "int \<Rightarrow> rat" where
  "pow2 e = (if 0 \<le> e then 2 ^ nat e else 1 / 2 ^ nat (- e))"

definition ilog2 :: "rat \<Rightarrow> int" where
  "ilog2 q = (case quotient_of q of (n, d) \<Rightarrow>
     (let k = bitlen n - bitlen d in if pow2 k \<le> q then k else k - 1))"

definition round_half_even :: "rat \<Rightarrow> int" where
  "round_half_even q =
     (let f = \<lfloor>q\<rfloor>; r = q - of_int f
      in if r < 1 / 2 then f else if 1 / 2 < r then f + 1
         else if even f then f else f + 1)"

definition ulp_exp :: "rat \<Rightarrow> int" where
  "ulp_exp q = max (ilog2 q - 52) (- 1074)"

definition rnd_pos :: "rat \<Rightarrow> rat" where
  "rnd_pos q = of_int (round_half_even (q / pow2 (ulp_exp q))) * pow2 (ulp_exp q)"

definition rnd64 :: "rat \<Rightarrow> rat" where
  "rnd64 q = (if q = 0 then 0 else if q < 0 then - rnd_pos (- q) else rnd_pos q)"

definition to_float :: "rat \<Rightarrow> pyfloat" where
  "to_float q = (let r = rnd64 q in
     if r \<ge> pow2 1024 then PosInf else if r \<le> - pow2 1024 then NegInf else Fin r)"

definition representable :: "rat \<Rightarrow> bool" where
  "representable q \<longleftrightarrow> rnd64 q = q"

fun is_double :: "pyfloat \<Rightarrow> bool" where
  "is_double (Fin q) \<longleftrightarrow> representable q \<and> \<bar>q\<bar> < pow2 1024"
| "is_double _ \<longleftrightarrow> True"

section \<open>Arithmetic and comparison\<close>

fun fneg :: "pyfloat \<Rightarrow> pyfloat" where
  "fneg (Fin q) = Fin (- q)"
| "fneg PosInf = NegInf"
| "fneg NegInf = PosInf"
| "fneg NaN = NaN"

fun fabs :: "pyfloat \<Rightarrow> pyfloat" where
  "fabs (Fin q) = Fin \<bar>q\<bar>"
| "fabs NaN = NaN"
| "fabs _ = PosInf"

fun fadd :: "pyfloat \<Rightarrow> pyfloat \<Rightarrow> pyfloat" where
  "fadd (Fin a) (Fin b) = to_float (a + b)"
| "fadd NaN _ = NaN"
| "fadd _ NaN = NaN"
| "fadd PosInf NegInf = NaN"
| "fadd NegInf PosInf = NaN"
| "fadd PosInf _ = PosInf"
| "fadd NegInf _ = NegInf"
| "fadd _ y = y"

definition fsub :: "pyfloat \<Rightarrow> pyfloat \<Rightarrow> pyfloat" where
  "fsub a b = fadd a (fneg b)"

definition finf_of_sign :: "rat \<Rightarrow> pyfloat" where
  "finf_of_sign s = (if s = 0 then NaN else if s > 0 then PosInf else NegInf)"

fun fsgn :: "pyfloat \<Rightarrow> rat" where
  "fsgn (Fin q) = sgn q"
| "fsgn PosInf = 1"
| "fsgn NegInf = - 1"
| "fsgn NaN = 0"

fun fmul :: "pyfloat \<Rightarrow> pyfloat \<Rightarrow> pyfloat" where
  "fmul (Fin a) (Fin b) = to_float (a * b)"
| "fmul NaN _ = NaN"
| "fmul _ NaN = NaN"
| "fmul a b = finf_of_sign (fsgn a * fsgn b)"

text \<open>Division; \<open>None\<close> where Python raises \<^verbatim>\<open>ZeroDivisionError\<close>.\<close>

fun fdiv :: "pyfloat \<Rightarrow> pyfloat \<Rightarrow> pyfloat option" where
  "fdiv a (Fin b) =
     (if b = 0 then None
      else Some (case a of Fin q \<Rightarrow> to_float (q / b) | NaN \<Rightarrow> NaN | _ \<Rightarrow> finf_of_sign (fsgn a * sgn b)))"
| "fdiv _ NaN = Some NaN"
| "fdiv (Fin _) _ = Some (Fin 0)"
| "fdiv _ _ = Some NaN"

fun flt :: "pyfloat \<Rightarrow> pyfloat \<Rightarrow> bool" where
  "flt (Fin a) (Fin b) \<longleftrightarrow> a < b"
| "flt NaN _ \<longleftrightarrow> False"
| "flt _ NaN \<longleftrightarrow> False"
| "flt PosInf _ \<longleftrightarrow> False"
| "flt _ NegInf \<longleftrightarrow> False"
| "flt _ _ \<longleftrightarrow> True"

fun feq :: "pyfloat \<Rightarrow> pyfloat \<Rightarrow> bool" where
  "feq NaN _ \<longleftrightarrow> False"
| "feq a b \<longleftrightarrow> a = b"

definition fle :: "pyfloat \<Rightarrow> pyfloat \<Rightarrow> bool" where
  "fle a b \<longleftrightarrow> flt a b \<or> feq a b"

fun is_finite :: "pyfloat \<Rightarrow> bool" where
  "is_finite (Fin _) \<longleftrightarrow> True"
| "is_finite _ \<longleftrightarrow> False"

fun the_rat :: "pyfloat \<Rightarrow> rat" where
  "the_rat (Fin q) = q"
| "the_rat _ = 0"

text \<open>\<^verbatim>\<open>round(x, 10)\<close> on a finite float: the exact value rounded half-even at ten decimals.\<close>

definition round_decimals :: "nat \<Rightarrow> pyfloat \<Rightarrow> pyfloat" where
  "round_decimals k x = (case x of
     Fin q \<Rightarrow> to_float (of_int (round_half_even (q * 10 ^ k)) / 10 ^ k)
   | _ \<Rightarrow> x)"

section \<open>Laws of rounding\<close>

lemma pow2_powi: "pow2 e = 2 powi e"
  by (simp add: pow2_def power_int_def field_simps)

lemma pow2_pos [simp]: "0 < pow2 e"
  by (simp add: pow2_def)

lemma pow2_not_neg [simp]: "\<not> pow2 e < 0" "\<not> pow2 e \<le> 0"
  using pow2_pos [of e] by linarith+

lemma pow2_nonzero [simp]: "pow2 e \<noteq> 0"
  by (simp add: pow2_def)

lemma pow2_add: "pow2 (a + b) = pow2 a * pow2 b"
  by (simp add: pow2_powi power_int_add)

lemma pow2_mono: "a \<le> b \<Longrightarrow> pow2 a \<le> pow2 b"
  by (simp add: pow2_powi power_int_increasing)

lemma pow2_less_iff: "pow2 a < pow2 b \<longleftrightarrow> a < b"
proof
  assume "pow2 a < pow2 b"
  then show "a < b" using pow2_mono [of b a] by (meson leD not_le)
next
  assume "a < b"
  then show "pow2 a < pow2 b" by (simp add: pow2_powi power_int_strict_increasing)
qed

lemma pow2_nat [simp]: "pow2 (int n) = 2 ^ n"
  by (simp add: pow2_def)

lemma ilog2_bounds:
  assumes "0 < q"
  shows "pow2 (ilog2 q) \<le> q" and "q < pow2 (ilog2 q + 1)"
proof -
  obtain n d where nd: "quotient_of q = (n, d)" by (cases "quotient_of q")
  have d: "0 < d" using quotient_of_denom_pos [OF nd] .
  have q: "q = of_int n / of_int d" using quotient_of_div [OF nd] .
  have n: "0 < n" using assms d by (auto simp: q zero_less_divide_iff)
  have bn: "2 ^ nat (bitlen n - 1) \<le> n \<and> n < 2 ^ nat (bitlen n)"
    and bd: "2 ^ nat (bitlen d - 1) \<le> d \<and> d < 2 ^ nat (bitlen d)"
    using bitlen_bounds n d by auto
  have pn: "0 < bitlen n" and pd: "0 < bitlen d"
    using n d by (metis bitlen_eq_zero_iff bitlen_nonneg less_le not_le)+
  have P: "pow2 k = of_int (2 ^ nat k)" if "0 \<le> k" for k
    using that by (simp add: pow2_def)
  have n1: "pow2 (bitlen n - 1) \<le> of_int n" and n2: "of_int n < pow2 (bitlen n)"
    using bn pn by (simp_all only: P of_int_le_iff of_int_less_iff)
  have d1: "pow2 (bitlen d - 1) \<le> of_int d" and d2: "of_int d < pow2 (bitlen d)"
    using bd pd by (simp_all only: P of_int_le_iff of_int_less_iff)
  let ?k = "bitlen n - bitlen d"
  have "q * pow2 (bitlen d - 1) \<le> q * of_int d"
    using d1 assms by (intro mult_left_mono) auto
  also have "\<dots> = of_int n" using d by (simp add: q)
  also have "\<dots> < pow2 (bitlen n)" by (rule n2)
  also have "\<dots> = pow2 (?k + 1) * pow2 (bitlen d - 1)"
    by (simp flip: pow2_add)
  finally have up: "q < pow2 (?k + 1)" by (simp only: mult_less_cancel_right_pos [OF pow2_pos])
  have "pow2 (?k - 1) * pow2 (bitlen d) = pow2 (bitlen n - 1)"
    by (simp flip: pow2_add)
  also have "\<dots> \<le> of_int n" by (rule n1)
  also have "\<dots> = q * of_int d" using d by (simp add: q)
  also have "\<dots> \<le> q * pow2 (bitlen d)"
    using d2 assms by (intro mult_left_mono) auto
  finally have lo: "pow2 (?k - 1) \<le> q" by (simp only: mult_le_cancel_right_pos [OF pow2_pos])
  show "pow2 (ilog2 q) \<le> q" and "q < pow2 (ilog2 q + 1)"
    using lo up by (auto simp: ilog2_def nd Let_def)
qed


lemma ilog2_mono:
  assumes "0 < p" and "p \<le> q"
  shows "ilog2 p \<le> ilog2 q"
proof -
  have "pow2 (ilog2 p) \<le> p" using assms by (simp add: ilog2_bounds)
  also have "\<dots> \<le> q" by (rule assms)
  also have "\<dots> < pow2 (ilog2 q + 1)" using assms by (intro ilog2_bounds) simp
  finally show ?thesis by (simp add: pow2_less_iff)
qed

lemma ilog2_le:
  assumes "0 < q" and "q < pow2 (e + 1)"
  shows "ilog2 q \<le> e"
proof -
  have "pow2 (ilog2 q) < pow2 (e + 1)"
    using ilog2_bounds(1) [OF assms(1)] assms(2) by (rule le_less_trans)
  then show ?thesis by (simp add: pow2_less_iff)
qed

lemma round_half_even_of_int [simp]: "round_half_even (of_int m) = m"
  by (simp add: round_half_even_def)

lemma round_half_even_near: "\<bar>of_int (round_half_even q) - q\<bar> \<le> 1 / 2"
proof -
  have "of_int \<lfloor>q\<rfloor> \<le> q" and "q < of_int \<lfloor>q\<rfloor> + 1" by linarith+
  then show ?thesis
    unfolding round_half_even_def Let_def by (auto simp: abs_le_iff)
qed

lemma round_half_even_mono: "p \<le> q \<Longrightarrow> round_half_even p \<le> round_half_even q"
proof (cases "\<lfloor>p\<rfloor> = \<lfloor>q\<rfloor>")
  case True
  assume "p \<le> q"
  with True show ?thesis by (auto simp: round_half_even_def Let_def)
next
  case False
  assume "p \<le> q"
  with False have "\<lfloor>p\<rfloor> + 1 \<le> \<lfloor>q\<rfloor>" using floor_mono [of p q] by linarith
  then show ?thesis by (auto simp: round_half_even_def Let_def)
qed

lemma round_half_even_ge: "of_int m \<le> q \<Longrightarrow> m \<le> round_half_even q"
  using round_half_even_mono [of "of_int m" q] by simp

lemma round_half_even_le: "q \<le> of_int m \<Longrightarrow> round_half_even q \<le> m"
  using round_half_even_mono [of q "of_int m"] by simp

lemma rnd_pos_le_top:
  assumes "0 < p"
  shows "rnd_pos p \<le> pow2 (ulp_exp p + 53)"
proof -
  let ?e = "ulp_exp p"
  have "p \<le> pow2 (ilog2 p + 1)" using ilog2_bounds(2) [OF assms] by simp
  also have "\<dots> \<le> pow2 (53 + ?e)" by (rule pow2_mono) (simp add: ulp_exp_def)
  finally have "p / pow2 ?e \<le> of_int (2 ^ 53)"
    by (simp only: pow2_add divide_le_eq pow2_pos) (simp add: pow2_def)
  then have "round_half_even (p / pow2 ?e) \<le> 2 ^ 53" by (rule round_half_even_le)
  then have "of_int (round_half_even (p / pow2 ?e)) \<le> (of_int (2 ^ 53) :: rat)"
    by (simp only: of_int_le_iff)
  then have "rnd_pos p \<le> of_int (2 ^ 53) * pow2 ?e"
    unfolding rnd_pos_def by (intro mult_right_mono) (auto simp: less_imp_le)
  then show ?thesis by (simp add: pow2_add pow2_def [of 53] mult.commute)
qed

lemma rnd_pos_ge_bottom:
  assumes "0 < q" and "ulp_exp q = ilog2 q - 52"
  shows "pow2 (ilog2 q) \<le> rnd_pos q"
proof -
  let ?e = "ulp_exp q"
  have "of_int (2 ^ 52) * pow2 ?e = pow2 (ilog2 q)"
    using pow2_add [of 52 ?e] assms(2) by (simp add: pow2_def [of 52])
  also have "\<dots> \<le> q" by (rule ilog2_bounds(1) [OF assms(1)])
  finally have "of_int (2 ^ 52) \<le> q / pow2 ?e" by (simp add: le_divide_eq)
  then have "2 ^ 52 \<le> round_half_even (q / pow2 ?e)" by (rule round_half_even_ge)
  then have "(of_int (2 ^ 52) :: rat) \<le> of_int (round_half_even (q / pow2 ?e))"
    by (simp only: of_int_le_iff)
  then have "of_int (2 ^ 52) * pow2 ?e \<le> rnd_pos q"
    unfolding rnd_pos_def by (intro mult_right_mono) (auto simp: less_imp_le)
  with \<open>of_int (2 ^ 52) * pow2 ?e = pow2 (ilog2 q)\<close> show ?thesis by simp
qed

lemma rnd_pos_mono:
  assumes "0 < p" and "p \<le> q"
  shows "rnd_pos p \<le> rnd_pos q"
proof (cases "ulp_exp p = ulp_exp q")
  case True
  with assms have "round_half_even (p / pow2 (ulp_exp p)) \<le> round_half_even (q / pow2 (ulp_exp q))"
    by (intro round_half_even_mono) (simp add: divide_right_mono less_imp_le)
  with True show ?thesis
    by (simp add: rnd_pos_def mult_right_mono less_imp_le)
next
  case False
  have "ilog2 p \<le> ilog2 q" using assms by (rule ilog2_mono)
  with False have less: "ulp_exp p < ulp_exp q" and eq: "ulp_exp q = ilog2 q - 52"
    by (auto simp: ulp_exp_def max_def split: if_splits)
  have "rnd_pos p \<le> pow2 (ulp_exp p + 53)" by (rule rnd_pos_le_top) fact
  also have "\<dots> \<le> pow2 (ilog2 q)" using less eq by (intro pow2_mono) simp
  also have "\<dots> \<le> rnd_pos q" using assms eq by (intro rnd_pos_ge_bottom) auto
  finally show ?thesis .
qed

lemma rnd_pos_nonneg: "0 < q \<Longrightarrow> 0 \<le> rnd_pos q"
  unfolding rnd_pos_def
  by (intro mult_nonneg_nonneg) (simp_all add: round_half_even_ge less_imp_le)

lemma rnd64_zero [simp]: "rnd64 0 = 0"
  by (simp add: rnd64_def)

lemma rnd64_minus [simp]: "rnd64 (- q) = - rnd64 q"
  by (simp add: rnd64_def)

lemma rnd64_nonneg: "0 \<le> q \<Longrightarrow> 0 \<le> rnd64 q"
  by (auto simp: rnd64_def rnd_pos_nonneg)

lemma rnd64_nonpos: "q \<le> 0 \<Longrightarrow> rnd64 q \<le> 0"
  using rnd64_nonneg [of "- q"] by simp

lemma rnd64_mono: "p \<le> q \<Longrightarrow> rnd64 p \<le> rnd64 q"
proof -
  assume le: "p \<le> q"
  consider "0 < p" | "p \<le> 0" "0 \<le> q" | "q < 0" by linarith
  then show ?thesis
  proof cases
    case 1
    with le show ?thesis by (simp add: rnd64_def rnd_pos_mono)
  next
    case 2
    then show ?thesis using rnd64_nonneg rnd64_nonpos by (meson order_trans)
  next
    case 3
    with le show ?thesis using rnd_pos_mono [of "- q" "- p"] by (simp add: rnd64_def)
  qed
qed

text \<open>A dyadic number with a 53-bit significand above the underflow threshold is exact.\<close>

lemma rnd64_dyadic:
  assumes "\<bar>m\<bar> < 2 ^ 53" and "- 1074 \<le> e"
  shows "rnd64 (of_int m * pow2 e) = of_int m * pow2 e"
proof -
  have pos: "rnd_pos (of_int k * pow2 e) = of_int k * pow2 e" if k: "0 < k" "k < 2 ^ 53" for k :: int
  proof -
    let ?q = "of_int k * pow2 e"
    have "of_int k < (of_int (2 ^ 53) :: rat)" using k by (simp only: of_int_less_iff)
    then have "?q < of_int (2 ^ 53) * pow2 e" by (intro mult_strict_right_mono) auto
    also have "\<dots> = pow2 (e + 52 + 1)" using pow2_add [of 53 e] by (simp add: pow2_def [of 53] ac_simps)
    finally have "ilog2 ?q \<le> e + 52" using k by (intro ilog2_le) auto
    with assms(2) have ue: "ulp_exp ?q \<le> e" by (simp add: ulp_exp_def)
    define u where "u = ulp_exp ?q"
    define d where "d = nat (e - u)"
    have e: "pow2 e = 2 ^ d * pow2 u"
      using ue by (simp add: d_def u_def flip: pow2_add pow2_nat)
    then have "?q / pow2 u = of_int (k * 2 ^ d)" by simp
    then have "rnd_pos ?q = of_int (k * 2 ^ d) * pow2 u"
      by (simp only: rnd_pos_def u_def [symmetric] round_half_even_of_int)
    then show ?thesis by (simp add: e)
  qed
  consider "m = 0" | "0 < m" | "m < 0" by linarith
  then show ?thesis
  proof cases
    case 2
    with pos [of m] assms show ?thesis by (simp add: rnd64_def mult_less_0_iff)
  next
    case 3
    with pos [of "- m"] assms show ?thesis
      by (simp add: rnd64_def mult_less_0_iff)
  qed simp
qed


lemma rnd64_of_int [simp]: "\<bar>m\<bar> < 2 ^ 53 \<Longrightarrow> rnd64 (of_int m) = of_int m"
  using rnd64_dyadic [of m 0] by (simp add: pow2_def)

lemma rnd64_ulp: "\<exists>m. rnd64 q = of_int m * pow2 (- 1074)"
proof -
  have pos: "\<exists>m. rnd_pos r = of_int m * pow2 (- 1074)" for r
  proof -
    define d where "d = nat (ulp_exp r + 1074)"
    have "- 1074 \<le> ulp_exp r" by (simp add: ulp_exp_def)
    then have "pow2 (ulp_exp r) = 2 ^ d * pow2 (- 1074)"
      by (simp add: d_def flip: pow2_add pow2_nat)
    then have "rnd_pos r = of_int (round_half_even (r / pow2 (ulp_exp r)) * 2 ^ d) * pow2 (- 1074)"
      by (simp add: rnd_pos_def)
    then show ?thesis ..
  qed
  then obtain m1 m2 where "rnd_pos q = of_int m1 * pow2 (- 1074)"
    and "rnd_pos (- q) = of_int m2 * pow2 (- 1074)" by metis
  then have "rnd64 q \<in> {of_int 0 * pow2 (- 1074), of_int (- m2) * pow2 (- 1074), of_int m1 * pow2 (- 1074)}"
    by (simp add: rnd64_def)
  then show ?thesis by blast
qed

text \<open>Two distinct floats never have a difference that rounds to zero.\<close>

lemma rnd64_gap:
  assumes "representable p" and "representable q" and "p < q"
  shows "0 < rnd64 (q - p)"
proof -
  obtain m n where "rnd64 p = of_int m * pow2 (- 1074)" and "rnd64 q = of_int n * pow2 (- 1074)"
    using rnd64_ulp by metis
  with assms have p: "p = of_int m * pow2 (- 1074)" and q: "q = of_int n * pow2 (- 1074)"
    by (simp_all add: representable_def)
  with assms(3) have "m < n" by simp
  then have "1 * pow2 (- 1074) \<le> of_int (n - m) * pow2 (- 1074)"
    by (intro mult_right_mono) (simp_all add: less_imp_le)
  then have "pow2 (- 1074) \<le> q - p" by (simp add: p q algebra_simps)
  then have "rnd64 (of_int 1 * pow2 (- 1074)) \<le> rnd64 (q - p)" by (intro rnd64_mono) simp
  then have "pow2 (- 1074) \<le> rnd64 (q - p)" by (simp add: rnd64_dyadic [of 1 "- 1074", simplified])
  then show ?thesis using pow2_pos less_le_trans by blast
qed

lemma rnd64_diff_sign:
  assumes "representable p" and "representable q"
  shows "0 < rnd64 (q - p) \<longleftrightarrow> p < q" and "rnd64 (q - p) < 0 \<longleftrightarrow> q < p"
    and "rnd64 (q - p) = 0 \<longleftrightarrow> p = q"
  using rnd64_gap [OF assms] rnd64_gap [OF assms(2,1)]
    rnd64_minus [of "p - q"] rnd64_nonneg [of "q - p"] rnd64_nonpos [of "q - p"]
  by (cases p q rule: linorder_cases; simp)+

lemma pow2_1024_rnd [simp]: "rnd64 (pow2 1024) = pow2 1024"
  using rnd64_dyadic [of 1 1024] by simp

lemma to_float_Fin:
  assumes "representable q" and "\<bar>q\<bar> < pow2 1024"
  shows "to_float q = Fin q"
  using assms by (simp add: to_float_def representable_def abs_if split: if_splits)

lemma to_float_of_int [simp]: "\<bar>m\<bar> < 2 ^ 53 \<Longrightarrow> to_float (of_int m) = Fin (of_int m)"
proof (rule to_float_Fin)
  assume m: "\<bar>m\<bar> < 2 ^ 53"
  then show "representable (of_int m)" by (simp add: representable_def)
  have "\<bar>of_int m :: rat\<bar> < of_int (2 ^ 53)" using m by (simp only: of_int_abs [symmetric] of_int_less_iff)
  also have "\<dots> \<le> pow2 1024" by (simp add: pow2_def)
  finally show "\<bar>of_int m :: rat\<bar> < pow2 1024" .
qed

text \<open>A dyadic fraction with a small numerator is a float: the certificate is the numerator.\<close>

lemma to_float_exact:
  assumes "q * 2 ^ k = of_int m" and "\<bar>m\<bar> < 2 ^ 53" and "k \<le> 1074"
  shows "to_float q = Fin q"
proof (rule to_float_Fin)
  have q: "q = of_int m * pow2 (- int k)"
    using assms(1) by (cases "k = 0") (simp_all add: pow2_def field_simps)
  then show "representable q"
    using rnd64_dyadic [of m "- int k"] assms by (simp add: representable_def)
  have "\<bar>q\<bar> \<le> \<bar>of_int m\<bar> * 1"
    unfolding q abs_mult by (rule mult_left_mono) (simp_all add: pow2_def)
  also have "\<dots> < of_int (2 ^ 53)" using assms(2) by (simp only: mult_1_right of_int_abs [symmetric] of_int_less_iff)
  also have "\<dots> \<le> pow2 1024" by (simp add: pow2_def)
  finally show "\<bar>q\<bar> < pow2 1024" .
qed

lemma to_float_numeral [simp]: "numeral k < (2 ^ 53 :: int) \<Longrightarrow> to_float (numeral k) = Fin (numeral k)"
  using to_float_of_int [of "numeral k"] by simp

lemma to_float_01 [simp]: "to_float 0 = Fin 0" "to_float 1 = Fin 1"
  using to_float_of_int [of 0] to_float_of_int [of 1] by simp_all

section \<open>Laws of arithmetic and comparison\<close>

lemma flt_irrefl [simp]: "\<not> flt x x"
  by (cases x) auto

lemma flt_trans: "flt x y \<Longrightarrow> flt y z \<Longrightarrow> flt x z"
  by (cases x; cases y; cases z) auto

lemma fle_Fin [simp]: "fle (Fin a) (Fin b) \<longleftrightarrow> a \<le> b"
  by (auto simp: fle_def)

lemma fle_refl: "x \<noteq> NaN \<Longrightarrow> fle x x"
  by (cases x) (auto simp: fle_def)

lemma fle_not_flt: "x \<noteq> NaN \<Longrightarrow> y \<noteq> NaN \<Longrightarrow> fle x y \<longleftrightarrow> \<not> flt y x"
  by (cases x; cases y) (auto simp: fle_def)

lemma is_finite_iff: "is_finite x \<longleftrightarrow> (\<exists>q. x = Fin q)"
  by (cases x) auto

lemma fneg_double: "is_double x \<Longrightarrow> is_double (fneg x)"
  by (cases x) (auto simp: representable_def)

lemma to_float_cases:
  obtains "to_float q = Fin (rnd64 q)" "\<bar>rnd64 q\<bar> < pow2 1024"
  | "to_float q = PosInf" "0 < q" | "to_float q = NegInf" "q < 0"
proof -
  have "0 < q" if "pow2 1024 \<le> rnd64 q"
    using that rnd64_nonpos [of q] pow2_pos [of 1024] by linarith
  moreover have "q < 0" if "rnd64 q \<le> - pow2 1024"
    using that rnd64_nonneg [of q] pow2_pos [of 1024] by linarith
  moreover have "to_float q = Fin (rnd64 q) \<and> \<bar>rnd64 q\<bar> < pow2 1024
      \<or> to_float q = PosInf \<and> pow2 1024 \<le> rnd64 q
      \<or> to_float q = NegInf \<and> rnd64 q \<le> - pow2 1024"
    unfolding to_float_def Let_def by auto
  ultimately show thesis using that by blast
qed

lemma to_float_minus [simp]: "to_float (- q) = fneg (to_float q)"
proof -
  have "\<not> (pow2 1024 \<le> r \<and> pow2 1024 \<le> - r)" for r
    using pow2_pos [of 1024] by linarith
  then show ?thesis by (simp add: to_float_def Let_def)
qed

text \<open>The sign of a float difference is the order of its operands, also under rounding.\<close>

lemma fsub_sign:
  assumes "is_double (Fin a)" and "is_double (Fin b)"
  shows "flt (Fin 0) (fsub (Fin a) (Fin b)) \<longleftrightarrow> b < a"
    and "flt (fsub (Fin a) (Fin b)) (Fin 0) \<longleftrightarrow> a < b"
    and "feq (fsub (Fin a) (Fin b)) (Fin 0) \<longleftrightarrow> a = b"
  using rnd64_diff_sign [of b a] assms
  by (cases "a - b" rule: to_float_cases; auto simp: fsub_def)+

lemma to_float_nonneg: "0 \<le> q \<Longrightarrow> fle (Fin 0) (to_float q)"
  using rnd64_nonneg [of q] by (cases q rule: to_float_cases) (auto simp: fle_def)

lemma to_float_mono: "p \<le> q \<Longrightarrow> fle (to_float p) (to_float q)"
  using rnd64_mono [of p q] pow2_pos [of 1024]
  unfolding to_float_def Let_def by (auto simp: fle_def)

end
