(* ===== verification/Py_Value.thy ===== *)
theory Py_Value
  imports Py_Float "HOL-Library.AList" "HOL-Library.Char_ord" "HOL-Library.List_Lexorder"
begin

text \<open>
  The values the program computes with, and its exceptions. Almost every function of the
  sources takes and returns JSON-like data, so they are modelled over one datatype of
  Python values; a dictionary is an association list in insertion order with distinct
  keys. \<open>py_eq\<close> is Python's \<^verbatim>\<open>==\<close> (numbers compare across \<^verbatim>\<open>bool\<close>, \<^verbatim>\<open>int\<close>
  and \<^verbatim>\<open>float\<close>; dictionaries compare regardless of order), \<open>py_get\<close> is \<^verbatim>\<open>dict.get\<close>.
  Strings are UTF-8 byte strings. A function that may raise returns \<open>exn + 'a\<close>.
  \<open>py_str\<close> and \<open>py_repr\<close> are \<^verbatim>\<open>str\<close> and \<^verbatim>\<open>repr\<close>; \<open>json_text\<close> is the
  compact \<^verbatim>\<open>json.dumps\<close> with sorted keys that every seal of the program hashes.
\<close>

section \<open>Exceptions\<close>

datatype exn =
    ValueError string
  | TypeError string
  | KeyError string
  | IndexError
  | AttributeError
  | OverflowError
  | ZeroDivisionError
  | Custom string "string list"

type_synonym 'a res = "exn + 'a"

fun ebind :: "'a res \<Rightarrow> ('a \<Rightarrow> 'b res) \<Rightarrow> 'b res" where
  "ebind (Inl e) f = Inl e"
| "ebind (Inr x) f = f x"

text \<open>A list comprehension or loop whose body may raise: the first exception wins.\<close>

fun emap :: "('a \<Rightarrow> 'b res) \<Rightarrow> 'a list \<Rightarrow> 'b list res" where
  "emap f [] = Inr []"
| "emap f (x # xs) = ebind (f x) (\<lambda>y. ebind (emap f xs) (\<lambda>ys. Inr (y # ys)))"

fun efold :: "('a \<Rightarrow> 's \<Rightarrow> 's res) \<Rightarrow> 'a list \<Rightarrow> 's \<Rightarrow> 's res" where
  "efold f [] s = Inr s"
| "efold f (x # xs) s = ebind (f x s) (efold f xs)"

section \<open>Values\<close>

datatype pyval =
    PNone
  | PBool bool
  | PInt int
  | PFloat pyfloat
  | PStr string
  | PList "pyval list"
  | PDict "(string \<times> pyval) list"

type_synonym dict = "(string \<times> pyval) list"

fun is_str :: "pyval \<Rightarrow> bool" where
  "is_str (PStr _) \<longleftrightarrow> True"
| "is_str _ \<longleftrightarrow> False"

fun is_bool :: "pyval \<Rightarrow> bool" where
  "is_bool (PBool _) \<longleftrightarrow> True"
| "is_bool _ \<longleftrightarrow> False"

text \<open>\<^verbatim>\<open>isinstance(v, int)\<close>: \<^verbatim>\<open>bool\<close> is a subclass of \<^verbatim>\<open>int\<close>.\<close>

fun is_int :: "pyval \<Rightarrow> bool" where
  "is_int (PInt _) \<longleftrightarrow> True"
| "is_int (PBool _) \<longleftrightarrow> True"
| "is_int _ \<longleftrightarrow> False"

fun is_num :: "pyval \<Rightarrow> bool" where
  "is_num (PInt _) \<longleftrightarrow> True"
| "is_num (PBool _) \<longleftrightarrow> True"
| "is_num (PFloat _) \<longleftrightarrow> True"
| "is_num _ \<longleftrightarrow> False"

fun is_list :: "pyval \<Rightarrow> bool" where
  "is_list (PList _) \<longleftrightarrow> True"
| "is_list _ \<longleftrightarrow> False"

fun is_dict :: "pyval \<Rightarrow> bool" where
  "is_dict (PDict _) \<longleftrightarrow> True"
| "is_dict _ \<longleftrightarrow> False"

fun dict_of :: "pyval \<Rightarrow> dict" where
  "dict_of (PDict d) = d"
| "dict_of _ = []"

fun list_of :: "pyval \<Rightarrow> pyval list" where
  "list_of (PList xs) = xs"
| "list_of _ = []"

fun str_of :: "pyval \<Rightarrow> string" where
  "str_of (PStr s) = s"
| "str_of _ = []"

fun bool_of :: "pyval \<Rightarrow> bool" where
  "bool_of (PBool b) = b"
| "bool_of _ = False"

fun int_of :: "pyval \<Rightarrow> int" where
  "int_of (PInt i) = i"
| "int_of (PBool b) = (if b then 1 else 0)"
| "int_of _ = 0"

fun hashable :: "pyval \<Rightarrow> bool" where
  "hashable (PList _) \<longleftrightarrow> False"
| "hashable (PDict _) \<longleftrightarrow> False"
| "hashable _ \<longleftrightarrow> True"

fun truthy :: "pyval \<Rightarrow> bool" where
  "truthy PNone \<longleftrightarrow> False"
| "truthy (PBool b) \<longleftrightarrow> b"
| "truthy (PInt i) \<longleftrightarrow> i \<noteq> 0"
| "truthy (PFloat x) \<longleftrightarrow> x \<noteq> Fin 0"
| "truthy (PStr s) \<longleftrightarrow> s \<noteq> []"
| "truthy (PList xs) \<longleftrightarrow> xs \<noteq> []"
| "truthy (PDict d) \<longleftrightarrow> d \<noteq> []"

text \<open>The exact number a numeric value denotes; Python compares mixed numbers exactly.\<close>

fun num_val :: "pyval \<Rightarrow> pyfloat" where
  "num_val (PBool b) = Fin (if b then 1 else 0)"
| "num_val (PInt i) = Fin (of_int i)"
| "num_val (PFloat x) = x"
| "num_val _ = NaN"

definition num_lt :: "pyval \<Rightarrow> pyval \<Rightarrow> bool" where
  "num_lt a b \<longleftrightarrow> flt (num_val a) (num_val b)"

definition num_le :: "pyval \<Rightarrow> pyval \<Rightarrow> bool" where
  "num_le a b \<longleftrightarrow> fle (num_val a) (num_val b)"

text \<open>\<^verbatim>\<open>float(n)\<close> of a number: rounding, and \<^verbatim>\<open>OverflowError\<close> for a huge \<^verbatim>\<open>int\<close>.\<close>

definition float_of_int :: "int \<Rightarrow> pyfloat res" where
  "float_of_int i = (let x = to_float (of_int i) in if is_finite x then Inr x else Inl OverflowError)"

fun float_of_num :: "pyval \<Rightarrow> pyfloat res" where
  "float_of_num (PBool b) = Inr (Fin (if b then 1 else 0))"
| "float_of_num (PInt i) = float_of_int i"
| "float_of_num (PFloat x) = Inr x"
| "float_of_num _ = Inl (TypeError ''must be real number'')"

definition math_isfinite :: "pyval \<Rightarrow> bool res" where
  "math_isfinite v = ebind (float_of_num v) (\<lambda>x. Inr (is_finite x))"

fun py_eq :: "pyval \<Rightarrow> pyval \<Rightarrow> bool"
  and py_eq_list :: "pyval list \<Rightarrow> pyval list \<Rightarrow> bool"
  and py_eq_items :: "dict \<Rightarrow> dict \<Rightarrow> bool" where
  "py_eq (PStr s) w \<longleftrightarrow> w = PStr s"
| "py_eq PNone w \<longleftrightarrow> w = PNone"
| "py_eq (PList xs) w \<longleftrightarrow> (case w of PList ys \<Rightarrow> py_eq_list xs ys | _ \<Rightarrow> False)"
| "py_eq (PDict d) w \<longleftrightarrow>
     (case w of PDict e \<Rightarrow> length d = length e \<and> py_eq_items d e | _ \<Rightarrow> False)"
| "py_eq (PBool b) w \<longleftrightarrow> is_num w \<and> feq (num_val (PBool b)) (num_val w)"
| "py_eq (PInt i) w \<longleftrightarrow> is_num w \<and> feq (num_val (PInt i)) (num_val w)"
| "py_eq (PFloat x) w \<longleftrightarrow> is_num w \<and> feq x (num_val w)"
| "py_eq_list [] ys \<longleftrightarrow> ys = []"
| "py_eq_list (x # xs) ys \<longleftrightarrow>
     (case ys of [] \<Rightarrow> False | y # ys' \<Rightarrow> py_eq x y \<and> py_eq_list xs ys')"
| "py_eq_items [] e \<longleftrightarrow> True"
| "py_eq_items ((k, v) # d) e \<longleftrightarrow>
     (case map_of e k of None \<Rightarrow> False | Some w \<Rightarrow> py_eq v w) \<and> py_eq_items d e"

text \<open>
  The order of two values, strict or not: numbers exactly, strings and lists
  lexicographically, anything else raises.
\<close>

fun py_order :: "bool \<Rightarrow> pyval \<Rightarrow> pyval \<Rightarrow> bool res"
  and py_order_list :: "bool \<Rightarrow> pyval list \<Rightarrow> pyval list \<Rightarrow> bool res" where
  "py_order strict (PStr a) w =
     (case w of PStr b \<Rightarrow> Inr (if strict then a < b else a \<le> b) | _ \<Rightarrow> Inl (TypeError ''not supported between instances''))"
| "py_order strict (PList xs) w =
     (case w of PList ys \<Rightarrow> py_order_list strict xs ys | _ \<Rightarrow> Inl (TypeError ''not supported between instances''))"
| "py_order strict v w =
     (if is_num v \<and> is_num w then Inr (if strict then num_lt v w else num_le v w)
      else Inl (TypeError ''not supported between instances''))"
| "py_order_list strict [] ys = Inr (\<not> strict \<or> ys \<noteq> [])"
| "py_order_list strict (x # xs) ys =
     (case ys of [] \<Rightarrow> Inr False
      | y # ys' \<Rightarrow> if py_eq x y then py_order_list strict xs ys' else py_order strict x y)"

abbreviation py_lt :: "pyval \<Rightarrow> pyval \<Rightarrow> bool res" where "py_lt \<equiv> py_order True"
abbreviation py_le :: "pyval \<Rightarrow> pyval \<Rightarrow> bool res" where "py_le \<equiv> py_order False"

definition py_in :: "pyval \<Rightarrow> pyval list \<Rightarrow> bool" where
  "py_in v ws \<longleftrightarrow> (\<exists>w \<in> set ws. py_eq v w)"

text \<open>Membership of a value in a set of strings: an unhashable value raises.\<close>

definition in_strs :: "pyval \<Rightarrow> string list \<Rightarrow> bool res" where
  "in_strs v ss = (if hashable v then Inr (v \<in> PStr ` set ss) else Inl (TypeError ''unhashable type''))"

section \<open>Dictionaries\<close>

definition dget :: "dict \<Rightarrow> string \<Rightarrow> pyval" where
  "dget d k = (case map_of d k of None \<Rightarrow> PNone | Some v \<Rightarrow> v)"

definition dget_or :: "dict \<Rightarrow> string \<Rightarrow> pyval \<Rightarrow> pyval" where
  "dget_or d k v0 = (case map_of d k of None \<Rightarrow> v0 | Some v \<Rightarrow> v)"

definition dhas :: "dict \<Rightarrow> string \<Rightarrow> bool" where
  "dhas d k \<longleftrightarrow> k \<in> fst ` set d"

definition dset :: "string \<Rightarrow> pyval \<Rightarrow> dict \<Rightarrow> dict" where
  "dset k v d = AList.update k v d"

definition dpop :: "string \<Rightarrow> dict \<Rightarrow> dict" where
  "dpop k d = AList.delete k d"

definition keys :: "dict \<Rightarrow> string list" where
  "keys d = map fst d"

fun py_get :: "pyval \<Rightarrow> string \<Rightarrow> pyval res" where
  "py_get (PDict d) k = Inr (dget d k)"
| "py_get _ k = Inl AttributeError"

fun py_index :: "pyval \<Rightarrow> string \<Rightarrow> pyval res" where
  "py_index (PDict d) k = (case map_of d k of None \<Rightarrow> Inl (KeyError k) | Some v \<Rightarrow> Inr v)"
| "py_index _ k = Inl (TypeError ''not subscriptable by string'')"

text \<open>Dictionaries at every level have distinct keys.\<close>

fun wf_val :: "pyval \<Rightarrow> bool"
  and wf_list :: "pyval list \<Rightarrow> bool"
  and wf_items :: "dict \<Rightarrow> bool" where
  "wf_val (PList xs) \<longleftrightarrow> wf_list xs"
| "wf_val (PDict d) \<longleftrightarrow> distinct (keys d) \<and> wf_items d"
| "wf_val (PFloat x) \<longleftrightarrow> is_double x"
| "wf_val _ \<longleftrightarrow> True"
| "wf_list [] \<longleftrightarrow> True"
| "wf_list (x # xs) \<longleftrightarrow> wf_val x \<and> wf_list xs"
| "wf_items [] \<longleftrightarrow> True"
| "wf_items ((k, v) # d) \<longleftrightarrow> wf_val v \<and> wf_items d"


section \<open>Laws\<close>

named_theorems py_simps \<comment> \<open>evaluation of the Python operations on known shapes\<close>

lemma ebind_Inr_iff: "ebind m f = Inr y \<longleftrightarrow> (\<exists>x. m = Inr x \<and> f x = Inr y)"
  by (cases m) auto

lemma ebind_Inl_iff: "ebind m f = Inl e \<longleftrightarrow> m = Inl e \<or> (\<exists>x. m = Inr x \<and> f x = Inl e)"
  by (cases m) auto

lemma ebind_assoc: "ebind (ebind m f) g = ebind m (\<lambda>x. ebind (f x) g)"
  by (cases m) auto

lemma ebind_cong [fundef_cong]:
  "m = m' \<Longrightarrow> (\<And>x. m' = Inr x \<Longrightarrow> f x = f' x) \<Longrightarrow> ebind m f = ebind m' f'"
  by (cases m') auto

lemma emap_length: "emap f xs = Inr ys \<Longrightarrow> length ys = length xs"
  by (induction xs arbitrary: ys) (auto simp: ebind_Inr_iff)

lemma emap_Inr_nth:
  "emap f xs = Inr ys \<Longrightarrow> i < length xs \<Longrightarrow> f (xs ! i) = Inr (ys ! i)"
  by (induction xs arbitrary: ys i) (auto simp: ebind_Inr_iff nth_Cons split: nat.split)

lemma emap_total: "(\<And>x. x \<in> set xs \<Longrightarrow> f x = Inr (g x)) \<Longrightarrow> emap f xs = Inr (map g xs)"
  by (induction xs) auto

lemma efold_inv:
  assumes "efold f xs s = Inr t" and "P s"
    and "\<And>x s t. x \<in> set xs \<Longrightarrow> P s \<Longrightarrow> f x s = Inr t \<Longrightarrow> P t"
  shows "P t"
  using assms by (induction xs arbitrary: s) (auto simp: ebind_Inr_iff)

lemma efold_append: "efold f (xs @ ys) s = ebind (efold f xs s) (efold f ys)"
  by (induction xs arbitrary: s) (auto simp: ebind_assoc intro: ebind_cong)

lemma py_eq_PStr [simp]: "py_eq v (PStr s) \<longleftrightarrow> v = PStr s"
  by (cases v) auto

lemma py_eq_PNone [simp]: "py_eq v PNone \<longleftrightarrow> v = PNone"
  by (cases v) auto

lemma in_strs_PStr [simp]: "in_strs (PStr s) ss = Inr (s \<in> set ss)"
  by (auto simp: in_strs_def)

lemma in_strs_Inr_True: "in_strs v ss = Inr True \<longleftrightarrow> (\<exists>s \<in> set ss. v = PStr s)"
  by (auto simp: in_strs_def split: if_splits)

lemma is_str_iff: "is_str v \<longleftrightarrow> (\<exists>s. v = PStr s)" by (cases v) auto
lemma is_dict_iff: "is_dict v \<longleftrightarrow> (\<exists>d. v = PDict d)" by (cases v) auto
lemma is_list_iff: "is_list v \<longleftrightarrow> (\<exists>xs. v = PList xs)" by (cases v) auto
lemma is_bool_iff: "is_bool v \<longleftrightarrow> (\<exists>b. v = PBool b)" by (cases v) auto

lemma dict_of_is_dict: "is_dict v \<Longrightarrow> PDict (dict_of v) = v" by (cases v) auto
lemma list_of_is_list: "is_list v \<Longrightarrow> PList (list_of v) = v" by (cases v) auto

fun nan_free :: "pyval \<Rightarrow> bool"
  and nan_free_list :: "pyval list \<Rightarrow> bool"
  and nan_free_items :: "dict \<Rightarrow> bool" where
  "nan_free (PList xs) \<longleftrightarrow> nan_free_list xs"
| "nan_free (PDict d) \<longleftrightarrow> nan_free_items d"
| "nan_free (PFloat x) \<longleftrightarrow> x \<noteq> NaN"
| "nan_free _ \<longleftrightarrow> True"
| "nan_free_list [] \<longleftrightarrow> True"
| "nan_free_list (x # xs) \<longleftrightarrow> nan_free x \<and> nan_free_list xs"
| "nan_free_items [] \<longleftrightarrow> True"
| "nan_free_items ((k, v) # d) \<longleftrightarrow> nan_free v \<and> nan_free_items d"

lemma py_eq_items_sub:
  "(\<forall>(k, v) \<in> set d. map_of e k = Some v \<and> py_eq v v) \<Longrightarrow> py_eq_items d e"
  by (induction d) auto

lemma py_eq_refl_aux:
  "wf_val v \<Longrightarrow> nan_free v \<Longrightarrow> py_eq v v"
  "wf_list xs \<Longrightarrow> nan_free_list xs \<Longrightarrow> py_eq_list xs xs"
  "wf_items d \<Longrightarrow> nan_free_items d \<Longrightarrow> (\<forall>(k, v) \<in> set d. py_eq v v)"
proof (induction v and xs and d rule: wf_val_wf_list_wf_items.induct)
  case (2 d)
  then have "distinct (map fst d)" by (simp add: keys_def)
  with 2 show ?case by (auto intro!: py_eq_items_sub)
next
  case (3 x)
  then show ?case by (cases x) auto
qed auto

lemmas py_eq_refl = py_eq_refl_aux(1)

lemma dget_simps [simp, py_simps]:
  "dget [] k = PNone"
  "dget ((k', v) # d) k = (if k = k' then v else dget d k)"
  by (auto simp: dget_def)

lemma dhas_simps [simp, py_simps]:
  "\<not> dhas [] k"
  "dhas ((k', v) # d) k \<longleftrightarrow> k = k' \<or> dhas d k"
  by (auto simp: dhas_def)

lemma map_of_dset [simp]: "map_of (dset k v d) = (map_of d)(k \<mapsto> v)"
  by (simp add: dset_def update_conv')

lemma map_of_dpop [simp]: "map_of (dpop k d) = (map_of d)(k := None)"
  by (simp add: dpop_def delete_conv')

lemma dget_dset [simp]: "dget (dset k v d) k' = (if k' = k then v else dget d k')"
  by (simp add: dget_def)

lemma dget_dpop [simp]: "dget (dpop k d) k' = (if k' = k then PNone else dget d k')"
  by (simp add: dget_def)

lemma dhas_map_of: "dhas d k \<longleftrightarrow> map_of d k \<noteq> None"
  by (simp add: dhas_def map_of_eq_None_iff)

lemma dhas_dset [simp]: "dhas (dset k v d) k' \<longleftrightarrow> k' = k \<or> dhas d k'"
  by (auto simp: dhas_map_of)

lemma dhas_dpop [simp]: "dhas (dpop k d) k' \<longleftrightarrow> k' \<noteq> k \<and> dhas d k'"
  by (auto simp: dhas_map_of)

lemma dget_neq_None: "dget d k \<noteq> PNone \<Longrightarrow> map_of d k = Some (dget d k)"
  by (simp add: dget_def split: option.splits)

lemma map_of_dget: "dhas d k \<Longrightarrow> map_of d k = Some (dget d k)"
  by (auto simp: dhas_map_of dget_def)

lemma set_keys: "k \<in> set (keys d) \<longleftrightarrow> dhas d k"
  by (simp add: keys_def dhas_def)

lemma dpop_dset [simp]: "dpop k (dset k v d) = dpop k d"
  by (simp add: dpop_def dset_def delete_update_same)

lemma dpop_idem [simp]: "dpop k (dpop k d) = dpop k d"
  by (simp add: dpop_def delete_idem)

lemma dpop_absent: "\<not> dhas d k \<Longrightarrow> dpop k d = d"
  by (simp add: dpop_def delete_id dhas_def)

lemma distinct_keys_dset [simp]: "distinct (keys d) \<Longrightarrow> distinct (keys (dset k v d))"
  unfolding keys_def dset_def by (rule distinct_update)

lemma distinct_keys_dpop [simp]: "distinct (keys d) \<Longrightarrow> distinct (keys (dpop k d))"
  unfolding keys_def dpop_def by (rule distinct_delete)

end
