(* ===== verification/Py_Text.thy ===== *)
theory Py_Text
  imports Py_Value "HOL-Library.Word"
begin

text \<open>
  Text the program produces from values: decimal integers, the shortest round-trip
  \<^verbatim>\<open>repr\<close> of floats, \<^verbatim>\<open>str\<close>, the compact sorted-key \<^verbatim>\<open>json.dumps\<close> and the
  SHA-256 digest in hexadecimal. Every seal of the program is the digest of such a JSON
  text. The last section states the contract of a sealed record as a locale that the
  sealing components interpret.
\<close>

unbundle bit_operations_syntax

section \<open>Numbers as text\<close>

fun nat_digits :: "nat \<Rightarrow> string" where
  "nat_digits n = (if n < 10 then [char_of (48 + n)] else nat_digits (n div 10) @ [char_of (48 + n mod 10)])"

declare nat_digits.simps [simp del]

definition int_str :: "int \<Rightarrow> string" where
  "int_str i = (if i < 0 then ''-'' @ nat_digits (nat (- i)) else nat_digits (nat i))"

definition pow10 :: "int \<Rightarrow> rat" where
  "pow10 e = (if 0 \<le> e then 10 ^ nat e else 1 / 10 ^ nat (- e))"

text \<open>The decimal point position: \<open>pow10 (p - 1) \<le> x < pow10 p\<close>.\<close>

definition decpt :: "rat \<Rightarrow> int" where
  "decpt x = (case List.find (\<lambda>p. pow10 (p - 1) \<le> x \<and> x < pow10 p) [-330..320] of
     Some p \<Rightarrow> p | None \<Rightarrow> 0)"

text \<open>An integer of \<open>n\<close> decimal digits that reads back as \<open>x\<close>, the closest one.\<close>

definition digits_try :: "rat \<Rightarrow> nat \<Rightarrow> int option" where
  "digits_try x n =
     (let sc = pow10 (decpt x - int n); lo = \<lfloor>x / sc\<rfloor>; hi = lo + 1;
          ok = (\<lambda>c. rnd64 (of_int c * sc) = x)
      in if ok lo \<and> (\<not> ok hi \<or> x - of_int lo * sc \<le> of_int hi * sc - x) then Some lo
         else if ok hi then Some hi else None)"

definition shortest_digits :: "rat \<Rightarrow> string \<times> int" where
  "shortest_digits x =
     (case List.find (\<lambda>n. digits_try x n \<noteq> None) [1..<18] of
        None \<Rightarrow> ([], 0)
      | Some n \<Rightarrow>
          (let ds = int_str (the (digits_try x n));
               p = decpt x + (int (length ds) - int n)
           in (rev (dropWhile (\<lambda>c. c = CHR ''0'') (rev ds)), p)))"

definition exp_str :: "int \<Rightarrow> string" where
  "exp_str e = (let ds = nat_digits (nat \<bar>e\<bar>) in
     (if e < 0 then ''-'' else ''+'') @ (if length ds < 2 then ''0'' @ ds else ds))"

definition pos_float_repr :: "rat \<Rightarrow> string" where
  "pos_float_repr x = (case shortest_digits x of (ds, p) \<Rightarrow>
     if - 4 < p \<and> p \<le> 16 then
       (if p \<le> 0 then ''0.'' @ replicate (nat (- p)) (CHR ''0'') @ ds
        else if int (length ds) \<le> p then ds @ replicate (nat p - length ds) (CHR ''0'') @ ''.0''
        else take (nat p) ds @ ''.'' @ drop (nat p) ds)
     else (case ds of
         [] \<Rightarrow> []
       | [c] \<Rightarrow> [c] @ ''e'' @ exp_str (p - 1)
       | c # cs \<Rightarrow> [c] @ ''.'' @ cs @ ''e'' @ exp_str (p - 1)))"

fun float_repr :: "pyfloat \<Rightarrow> string" where
  "float_repr (Fin q) =
     (if q = 0 then ''0.0'' else if q < 0 then ''-'' @ pos_float_repr (- q) else pos_float_repr q)"
| "float_repr PosInf = ''inf''"
| "float_repr NegInf = ''-inf''"
| "float_repr NaN = ''nan''"

section \<open>\<^verbatim>\<open>repr\<close> and \<^verbatim>\<open>str\<close>\<close>

definition hex_char :: "nat \<Rightarrow> char" where
  "hex_char n = (if n < 10 then char_of (48 + n) else char_of (87 + n))"

definition repr_char :: "char \<Rightarrow> char \<Rightarrow> string" where
  "repr_char quote c =
     (let n = of_char c :: nat in
      if c = quote \<or> n = 92 then [char_of (92 :: nat), c]
      else if n = 9 then [char_of (92 :: nat), CHR ''t'']
      else if n = 10 then [char_of (92 :: nat), CHR ''n'']
      else if n = 13 then [char_of (92 :: nat), CHR ''r'']
      else if n < 32 \<or> n = 127 then [char_of (92 :: nat), CHR ''x'', hex_char (n div 16), hex_char (n mod 16)]
      else [c])"

definition str_repr :: "string \<Rightarrow> string" where
  "str_repr s =
     (let quote = (if CHR 0x27 \<in> set s \<and> CHR 0x22 \<notin> set s then CHR 0x22 else CHR 0x27)
      in [quote] @ concat (map (repr_char quote) s) @ [quote])"

fun join :: "string \<Rightarrow> string list \<Rightarrow> string" where
  "join sep [] = []"
| "join sep [x] = x"
| "join sep (x # y # ys) = x @ sep @ join sep (y # ys)"

fun py_repr :: "pyval \<Rightarrow> string"
  and repr_list :: "pyval list \<Rightarrow> string list"
  and repr_items :: "dict \<Rightarrow> string list" where
  "py_repr PNone = ''None''"
| "py_repr (PBool b) = (if b then ''True'' else ''False'')"
| "py_repr (PInt i) = int_str i"
| "py_repr (PFloat x) = float_repr x"
| "py_repr (PStr s) = str_repr s"
| "py_repr (PList xs) = ''['' @ join '', '' (repr_list xs) @ '']''"
| "py_repr (PDict d) = ''{'' @ join '', '' (repr_items d) @ ''}''"
| "repr_list [] = []"
| "repr_list (x # xs) = py_repr x # repr_list xs"
| "repr_items [] = []"
| "repr_items ((k, v) # d) = (str_repr k @ '': '' @ py_repr v) # repr_items d"

fun py_str :: "pyval \<Rightarrow> string" where
  "py_str (PStr s) = s"
| "py_str v = py_repr v"

definition is_space :: "char \<Rightarrow> bool" where
  "is_space c \<longleftrightarrow> (let n = of_char c :: nat in (9 \<le> n \<and> n \<le> 13) \<or> (28 \<le> n \<and> n \<le> 32))"

text \<open>\<^verbatim>\<open>str.strip\<close> and \<^verbatim>\<open>str.upper\<close> on ASCII text.\<close>

definition strip :: "string \<Rightarrow> string" where
  "strip s = rev (dropWhile is_space (rev (dropWhile is_space s)))"

definition upper_char :: "char \<Rightarrow> char" where
  "upper_char c = (let n = of_char c :: nat in if 97 \<le> n \<and> n \<le> 122 then char_of (n - 32) else c)"

definition upper :: "string \<Rightarrow> string" where
  "upper s = map upper_char s"

text \<open>\<^verbatim>\<open>int(v)\<close>: truncation of floats, decimal text with a sign and single underscores.\<close>

fun digits_value :: "nat \<Rightarrow> bool \<Rightarrow> string \<Rightarrow> nat option" where
  "digits_value acc seen [] = (if seen then Some acc else None)"
| "digits_value acc seen (c # cs) =
     (let n = of_char c :: nat in
      if 48 \<le> n \<and> n \<le> 57 then digits_value (acc * 10 + (n - 48)) True cs
      else if n = 95 \<and> seen then digits_value acc False cs
      else None)"

definition int_of_text :: "string \<Rightarrow> int option" where
  "int_of_text s =
     (case strip s of
        c # cs \<Rightarrow> if c = CHR ''-'' then map_option (\<lambda>n. - int n) (digits_value 0 False cs)
          else if c = CHR ''+'' then map_option int (digits_value 0 False cs)
          else map_option int (digits_value 0 False (c # cs))
      | [] \<Rightarrow> None)"

fun py_int :: "pyval \<Rightarrow> int res" where
  "py_int (PInt i) = Inr i"
| "py_int (PBool b) = Inr (if b then 1 else 0)"
| "py_int (PFloat (Fin q)) = Inr (if q < 0 then \<lceil>q\<rceil> else \<lfloor>q\<rfloor>)"
| "py_int (PFloat NaN) = Inl (ValueError ''cannot convert float NaN to integer'')"
| "py_int (PFloat _) = Inl OverflowError"
| "py_int (PStr s) = (case int_of_text s of Some i \<Rightarrow> Inr i | None \<Rightarrow> Inl (ValueError ''invalid literal for int()''))"
| "py_int _ = Inl (TypeError ''int() argument'')"

text \<open>\<^verbatim>\<open>float(v)\<close>: decimal text with fraction and exponent, infinities and NaN.\<close>

definition lower_char :: "char \<Rightarrow> char" where
  "lower_char c = (let n = of_char c :: nat in if 65 \<le> n \<and> n \<le> 90 then char_of (n + 32) else c)"

definition lower :: "string \<Rightarrow> string" where
  "lower s = map lower_char s"

definition is_digit :: "char \<Rightarrow> bool" where
  "is_digit c \<longleftrightarrow> (let n = of_char c :: nat in 48 \<le> n \<and> n \<le> 57)"

definition digit_part :: "string \<Rightarrow> nat option" where
  "digit_part s = (if s = [] then Some 0 else digits_value 0 False s)"

definition exponent_part :: "string \<Rightarrow> int option" where
  "exponent_part s =
     (case s of
        [] \<Rightarrow> Some 0
      | c # r \<Rightarrow> if c \<noteq> CHR ''e'' then None
          else (case r of
              [] \<Rightarrow> None
            | d # r' \<Rightarrow> if d = CHR ''-'' then map_option (\<lambda>n. - int n) (digits_value 0 False r')
                else if d = CHR ''+'' then map_option int (digits_value 0 False r')
                else map_option int (digits_value 0 False r)))"

definition decimal_value :: "string \<Rightarrow> rat option" where
  "decimal_value s =
     (let dig = (\<lambda>c. is_digit c \<or> c = CHR ''_''); ip = takeWhile dig s; r = dropWhile dig s;
          dot = (r \<noteq> [] \<and> hd r = CHR ''.''); r1 = (if dot then tl r else r);
          fp = (if dot then takeWhile dig r1 else []); r2 = (if dot then dropWhile dig r1 else r1)
      in if ip = [] \<and> fp = [] then None
         else (case (digit_part ip, digit_part fp, exponent_part r2) of
             (Some i, Some f, Some e) \<Rightarrow> Some ((of_nat i + of_nat f / 10 ^ length (filter is_digit fp)) * pow10 e)
           | _ \<Rightarrow> None))"

definition float_of_text :: "string \<Rightarrow> pyfloat option" where
  "float_of_text s =
     (let t = lower (strip s);
          neg = (t \<noteq> [] \<and> hd t = CHR ''-'');
          u = (if t \<noteq> [] \<and> (hd t = CHR ''-'' \<or> hd t = CHR ''+'') then tl t else t)
      in if u = ''inf'' \<or> u = ''infinity'' then Some (if neg then NegInf else PosInf)
         else if u = ''nan'' then Some NaN
         else map_option (\<lambda>q. to_float (if neg then - q else q)) (decimal_value u))"

fun py_float :: "pyval \<Rightarrow> pyfloat res" where
  "py_float (PStr s) = (case float_of_text s of Some x \<Rightarrow> Inr x | None \<Rightarrow> Inl (ValueError ''could not convert string to float''))"
| "py_float (PBool b) = Inr (Fin (if b then 1 else 0))"
| "py_float (PInt i) = float_of_int i"
| "py_float (PFloat x) = Inr x"
| "py_float _ = Inl (TypeError ''float() argument must be a string or a real number'')"

text \<open>
  The characters of UTF-8 text: a byte with its continuation bytes. \<^verbatim>\<open>len\<close> counts
  characters, and a \<^verbatim>\<open>for\<close> loop over text visits them.
\<close>

definition is_cont :: "char \<Rightarrow> bool" where
  "is_cont c \<longleftrightarrow> (of_char c :: nat) div 64 = 2"

definition str_len :: "string \<Rightarrow> nat" where
  "str_len s = length (filter (\<lambda>c. \<not> is_cont c) s)"

function utf8_chars :: "string \<Rightarrow> string list" where
  "utf8_chars [] = []"
| "utf8_chars (c # cs) = (c # takeWhile is_cont cs) # utf8_chars (dropWhile is_cont cs)"
  by pat_completeness auto
termination
  by (relation "measure length") (auto simp: le_imp_less_Suc length_dropWhile_le)

definition is_len64 :: "pyval \<Rightarrow> bool" where
  "is_len64 v \<longleftrightarrow> is_str v \<and> str_len (str_of v) = 64"

text \<open>The elements a \<^verbatim>\<open>for\<close> loop visits.\<close>

fun py_iter :: "pyval \<Rightarrow> pyval list res" where
  "py_iter (PList xs) = Inr xs"
| "py_iter (PDict d) = Inr (map PStr (keys d))"
| "py_iter (PStr s) = Inr (map PStr (utf8_chars s))"
| "py_iter _ = Inl (TypeError ''object is not iterable'')"

text \<open>\<^verbatim>\<open>sorted(set(xs))\<close>: an unhashable element or an incomparable pair raises.\<close>

fun py_dedup :: "pyval list \<Rightarrow> pyval list \<Rightarrow> pyval list" where
  "py_dedup seen [] = rev seen"
| "py_dedup seen (x # xs) = py_dedup (if py_in x seen then seen else x # seen) xs"

fun py_insert :: "pyval \<Rightarrow> pyval list \<Rightarrow> pyval list res" where
  "py_insert x [] = Inr [x]"
| "py_insert x (y # ys) =
     ebind (py_lt x y) (\<lambda>less. if less then Inr (x # y # ys) else ebind (py_insert x ys) (\<lambda>zs. Inr (y # zs)))"

definition py_sorted :: "pyval list \<Rightarrow> pyval list res" where
  "py_sorted xs = efold py_insert xs []"

definition sorted_set :: "pyval list \<Rightarrow> pyval list res" where
  "sorted_set xs = (if list_all hashable xs then py_sorted (py_dedup [] xs) else Inl (TypeError ''unhashable type''))"

text \<open>\<^verbatim>\<open>v.get(k, default)\<close> on a value that may be no dictionary.\<close>

fun py_get_or :: "pyval \<Rightarrow> string \<Rightarrow> pyval \<Rightarrow> pyval res" where
  "py_get_or (PDict d) k v = Inr (dget_or d k v)"
| "py_get_or _ k v = Inl AttributeError"

definition py_or :: "pyval \<Rightarrow> pyval \<Rightarrow> pyval" where
  "py_or v w = (if truthy v then v else w)"

section \<open>Canonical JSON\<close>

definition json_char :: "char \<Rightarrow> string" where
  "json_char c =
     (let n = of_char c :: nat; bs = char_of (92 :: nat) in
      if n = 34 \<or> n = 92 then [bs, c]
      else if n = 10 then [bs, CHR ''n'']
      else if n = 13 then [bs, CHR ''r'']
      else if n = 9 then [bs, CHR ''t'']
      else if n = 12 then [bs, CHR ''f'']
      else if n = 8 then [bs, CHR ''b'']
      else if n < 32 then [bs, CHR ''u'', CHR ''0'', CHR ''0'', hex_char (n div 16), hex_char (n mod 16)]
      else [c])"

definition json_str :: "string \<Rightarrow> string" where
  "json_str s = [CHR 0x22] @ concat (map json_char s) @ [CHR 0x22]"

fun json_float :: "pyfloat \<Rightarrow> string" where
  "json_float (Fin q) = float_repr (Fin q)"
| "json_float PosInf = ''Infinity''"
| "json_float NegInf = ''-Infinity''"
| "json_float NaN = ''NaN''"

text \<open>\<^verbatim>\<open>json.dumps(v, ensure_ascii=False, sort_keys=True, separators=(",", ":"))\<close>\<close>

fun json_text :: "pyval \<Rightarrow> string"
  and json_list :: "pyval list \<Rightarrow> string list"
  and json_items :: "dict \<Rightarrow> (string \<times> string) list" where
  "json_text PNone = ''null''"
| "json_text (PBool b) = (if b then ''true'' else ''false'')"
| "json_text (PInt i) = int_str i"
| "json_text (PFloat x) = json_float x"
| "json_text (PStr s) = json_str s"
| "json_text (PList xs) = ''['' @ join '','' (json_list xs) @ '']''"
| "json_text (PDict d) =
     ''{'' @ join '','' (map (\<lambda>(k, t). json_str k @ '':'' @ t) (sort_key fst (json_items d))) @ ''}''"
| "json_list [] = []"
| "json_list (x # xs) = json_text x # json_list xs"
| "json_items [] = []"
| "json_items ((k, v) # d) = (k, json_text v) # json_items d"

text \<open>
  What a reader gets back from a value written with sorted keys: the same value with the
  keys of every object in sorted order.
\<close>

fun json_reload :: "pyval \<Rightarrow> pyval"
  and reload_list :: "pyval list \<Rightarrow> pyval list"
  and reload_items :: "dict \<Rightarrow> dict" where
  "json_reload (PList xs) = PList (reload_list xs)"
| "json_reload (PDict d) = PDict (sort_key fst (reload_items d))"
| "json_reload v = v"
| "reload_list [] = []"
| "reload_list (x # xs) = json_reload x # reload_list xs"
| "reload_items [] = []"
| "reload_items ((k, v) # d) = (k, json_reload v) # reload_items d"

definition reload_dict :: "dict \<Rightarrow> dict" where
  "reload_dict d = sort_key fst (reload_items d)"

text \<open>The floats \<^verbatim>\<open>allow_nan=False\<close> refuses.\<close>

fun all_finite :: "pyval \<Rightarrow> bool"
  and all_finite_list :: "pyval list \<Rightarrow> bool"
  and all_finite_items :: "dict \<Rightarrow> bool" where
  "all_finite (PList xs) \<longleftrightarrow> all_finite_list xs"
| "all_finite (PDict d) \<longleftrightarrow> all_finite_items d"
| "all_finite (PFloat x) \<longleftrightarrow> is_finite x"
| "all_finite _ \<longleftrightarrow> True"
| "all_finite_list [] \<longleftrightarrow> True"
| "all_finite_list (x # xs) \<longleftrightarrow> all_finite x \<and> all_finite_list xs"
| "all_finite_items [] \<longleftrightarrow> True"
| "all_finite_items ((k, v) # d) \<longleftrightarrow> all_finite v \<and> all_finite_items d"

definition json_strict :: "pyval \<Rightarrow> string res" where
  "json_strict v = (if all_finite v then Inr (json_text v)
     else Inl (ValueError ''Out of range float values are not JSON compliant''))"

section \<open>SHA-256\<close>

text \<open>
  The constants are, as the standard defines them, the first 32 fractional bits of the cube
  roots of the first 64 primes and of the square roots of the first 8. They are computed
  from that definition, with integer roots found bit by bit.
\<close>

fun int_root :: "nat \<Rightarrow> nat \<Rightarrow> nat \<Rightarrow> nat \<Rightarrow> nat" where
  "int_root k n 0 acc = acc"
| "int_root k n (Suc b) acc =
     int_root k n b (if (acc + 2 ^ b) ^ k \<le> n then acc + 2 ^ b else acc)"

definition small_primes :: "nat list" where
  "small_primes = filter (\<lambda>p. list_all (\<lambda>d. p mod d \<noteq> 0) [2..<p]) [2..<312]"

definition sha_k :: "32 word list" where
  "sha_k = map (\<lambda>p. of_nat (int_root 3 (p * 2 ^ 96) 40 0)) small_primes"

definition sha_h0 :: "32 word list" where
  "sha_h0 = map (\<lambda>p. of_nat (int_root 2 (p * 2 ^ 64) 40 0)) [2, 3, 5, 7, 11, 13, 17, 19]"

definition sha_pad :: "nat list \<Rightarrow> nat list" where
  "sha_pad bs =
     (let n = length bs; z = (119 - n mod 64) mod 64; bits = 8 * n
      in bs @ [128] @ replicate z 0 @ map (\<lambda>i. bits div 256 ^ i mod 256) (rev [0..<8]))"

fun be_words :: "nat list \<Rightarrow> 32 word list" where
  "be_words (a # b # c # d # bs) =
     of_nat (a * 16777216 + b * 65536 + c * 256 + d) # be_words bs"
| "be_words _ = []"

definition sha_sched_step :: "32 word list \<Rightarrow> 32 word list" where
  "sha_sched_step w =
     (let t = length w; w15 = w ! (t - 15); w2 = w ! (t - 2);
          s0 = (word_rotr 7 w15 XOR word_rotr 18 w15) XOR drop_bit 3 w15;
          s1 = (word_rotr 17 w2 XOR word_rotr 19 w2) XOR drop_bit 10 w2
      in w @ [w ! (t - 16) + s0 + w ! (t - 7) + s1])"

definition sha_round :: "32 word list \<Rightarrow> 32 word \<times> 32 word \<Rightarrow> 32 word list" where
  "sha_round st kw = (case st of
     [a, b, c, d, e, f, g, h] \<Rightarrow>
       (let s1 = (word_rotr 6 e XOR word_rotr 11 e) XOR word_rotr 25 e;
            ch = (e AND f) XOR (NOT e AND g);
            t1 = h + s1 + ch + fst kw + snd kw;
            s0 = (word_rotr 2 a XOR word_rotr 13 a) XOR word_rotr 22 a;
            maj = ((a AND b) XOR (a AND c)) XOR (b AND c);
            t2 = s0 + maj
        in [t1 + t2, a, b, c, d + t1, e, f, g])
   | _ \<Rightarrow> st)"

definition sha_block :: "32 word list \<Rightarrow> 32 word list \<Rightarrow> 32 word list" where
  "sha_block hs blk =
     (let w = (sha_sched_step ^^ 48) blk
      in map2 (+) hs (foldl sha_round hs (zip sha_k w)))"

fun sha_blocks :: "nat \<Rightarrow> 32 word list \<Rightarrow> 32 word list \<Rightarrow> 32 word list" where
  "sha_blocks 0 hs ws = hs"
| "sha_blocks (Suc n) hs ws = sha_blocks n (sha_block hs (take 16 ws)) (drop 16 ws)"

definition word_hex :: "32 word \<Rightarrow> string" where
  "word_hex w = map (\<lambda>i. hex_char (unat w div 16 ^ i mod 16)) (rev [0..<8])"

definition sha256_hex :: "string \<Rightarrow> string" where
  "sha256_hex s =
     (let ws = be_words (sha_pad (map of_char s))
      in concat (map word_hex (sha_blocks (length ws div 16) sha_h0 ws)))"

text \<open>\<^verbatim>\<open>hashlib.sha256(json.dumps(v, ...).encode()).hexdigest()\<close>, the canonical hash.\<close>

definition canonical_hash :: "pyval \<Rightarrow> string" where
  "canonical_hash v = sha256_hex (json_text v)"

definition canonical_hash_strict :: "pyval \<Rightarrow> string res" where
  "canonical_hash_strict v = ebind (json_strict v) (\<lambda>t. Inr (sha256_hex t))"

definition is_hex :: "char \<Rightarrow> bool" where
  "is_hex c \<longleftrightarrow> c \<in> set ''0123456789abcdef''"

definition hex64 :: "string \<Rightarrow> bool" where
  "hex64 s \<longleftrightarrow> length s = 64 \<and> list_all is_hex s"


section \<open>Laws of the digest\<close>

lemma hex_char_hex: "n < 16 \<Longrightarrow> is_hex (hex_char n)"
proof -
  assume "n < 16"
  then have "n \<in> set [0..<16]" by simp
  moreover have "list_all (\<lambda>n. is_hex (hex_char n)) [0..<16]"
    by code_simp
  ultimately show ?thesis by (simp add: list_all_iff)
qed

lemma word_hex_length [simp]: "length (word_hex w) = 8"
  by (simp add: word_hex_def)

lemma word_hex_hex [simp]: "list_all is_hex (word_hex w)"
  by (simp add: word_hex_def list_all_iff hex_char_hex)

lemma sha_round_length: "length st = 8 \<Longrightarrow> length (sha_round st kw) = 8"
  by (auto simp: sha_round_def Let_def split: list.splits)

lemma sha_rounds_length: "length st = 8 \<Longrightarrow> length (foldl sha_round st kws) = 8"
  by (induction kws arbitrary: st) (auto simp: sha_round_length)

lemma sha_blocks_length: "length hs = 8 \<Longrightarrow> length (sha_blocks n hs ws) = 8"
  by (induction n arbitrary: hs ws) (auto simp: sha_block_def Let_def sha_rounds_length)

lemma concat_word_hex:
  "length (concat (map word_hex ws)) = 8 * length ws \<and> list_all is_hex (concat (map word_hex ws))"
  by (induction ws) auto

lemma sha_h0_length [simp]: "length sha_h0 = 8"
  by (simp add: sha_h0_def)

text \<open>Every digest is 64 lower-case hexadecimal characters, as the validators demand.\<close>

lemma sha256_hex64: "hex64 (sha256_hex s)"
  unfolding hex64_def sha256_hex_def Let_def
  using concat_word_hex [of "sha_blocks _ sha_h0 _"] sha_blocks_length [of sha_h0]
  by (simp add: sha_h0_length)

lemma canonical_hash_hex64: "hex64 (canonical_hash v)"
  by (simp add: canonical_hash_def sha256_hex64)

lemma canonical_hash_length [simp]: "length (canonical_hash v) = 64"
  using canonical_hash_hex64 [of v] by (simp add: hex64_def)

lemma hex_not_cont: "is_hex c \<Longrightarrow> \<not> is_cont c"
proof -
  have "list_all (\<lambda>c. \<not> is_cont c) ''0123456789abcdef''" by code_simp
  then show "is_hex c \<Longrightarrow> \<not> is_cont c" unfolding is_hex_def list_all_iff by blast
qed

lemma str_len_hex: "list_all is_hex s \<Longrightarrow> str_len s = length s"
  by (simp add: str_len_def list_all_iff hex_not_cont)

lemma hex64_str_len: "hex64 s \<Longrightarrow> str_len s = 64"
  by (simp add: hex64_def str_len_hex)

lemma canonical_hash_str_len [simp]: "str_len (canonical_hash v) = 64"
  by (rule hex64_str_len [OF canonical_hash_hex64])

lemma is_len64_hash: "is_len64 (PStr (canonical_hash v))"
  by (simp add: is_len64_def)

lemma canonical_hash_strict_Inr: "all_finite v \<Longrightarrow> canonical_hash_strict v = Inr (canonical_hash v)"
  by (simp add: canonical_hash_strict_def json_strict_def canonical_hash_def)

lemma canonical_hash_strict_iff:
  "canonical_hash_strict v = Inr h \<longleftrightarrow> all_finite v \<and> h = canonical_hash v"
  by (auto simp: canonical_hash_strict_def json_strict_def canonical_hash_def)

section \<open>Laws of reading back what was written\<close>

lemma reload_items_map: "reload_items d = map (\<lambda>(k, v). (k, json_reload v)) d"
  by (induction d) auto

lemma json_items_map: "json_items d = map (\<lambda>(k, v). (k, json_text v)) d"
  by (induction d) auto

lemma insort_key_map: "(\<And>x. f (g x) = f' x) \<Longrightarrow> insort_key f (g x) (map g xs) = map g (insort_key f' x xs)"
  by (induction xs) auto

lemma sort_key_map: "(\<And>x. f (g x) = f' x) \<Longrightarrow> sort_key f (map g xs) = map g (sort_key f' xs)"
  by (induction xs) (auto simp: insort_key_map)

lemma sort_key_idem: "sort_key f (sort_key f xs) = sort_key f xs"
  by (intro sort_key_id_if_sorted) simp

lemma json_items_sorted: "sort_key fst (json_items (sort_key fst d)) = sort_key fst (json_items d)"
  unfolding json_items_map by (subst (1 2) sort_key_map [where f' = fst]) (auto simp: sort_key_idem)

lemma json_reload_text:
  "json_text (json_reload v) = json_text v"
  "json_list (reload_list xs) = json_list xs"
  "json_items (reload_items d) = json_items d"
  by (induction v and xs and d rule: json_reload_reload_list_reload_items.induct)
    (auto simp: json_items_sorted)

lemma reload_dict_text: "json_text (PDict (reload_dict d)) = json_text (PDict d)"
  using json_reload_text(1) [of "PDict d"] by (simp add: reload_dict_def)

lemma canonical_hash_reload [simp]: "canonical_hash (PDict (reload_dict d)) = canonical_hash (PDict d)"
  by (simp only: canonical_hash_def reload_dict_text)

lemma map_of_filter_key: "map_of d k = map_of (filter (\<lambda>p. fst p = k) d) k"
  by (induction d) auto

lemma map_of_sort_key: "map_of (sort_key fst d) k = map_of d k"
proof -
  have "filter (\<lambda>p. fst p = k) (sort_key fst d) = filter (\<lambda>p. fst p = k) d"
    using sort_key_stable [of fst k d] by simp
  then show ?thesis by (metis map_of_filter_key)
qed

lemma dget_reload [simp]: "dget (reload_dict d) k = json_reload (dget d k)"
proof -
  have "map_of (reload_dict d) k = map_option json_reload (map_of d k)"
    unfolding reload_dict_def map_of_sort_key reload_items_map by (induction d) auto
  then show ?thesis by (auto simp: dget_def split: option.splits)
qed

lemma dhas_reload [simp]: "dhas (reload_dict d) k \<longleftrightarrow> dhas d k"
  by (auto simp: dhas_def reload_dict_def reload_items_map image_iff split: prod.splits) force+

lemma dpop_filter: "dpop k d = filter (\<lambda>p. fst p \<noteq> k) d"
  unfolding dpop_def AList.delete_eq by (rule filter_cong) auto

lemma dpop_reload: "dpop k (reload_dict d) = reload_dict (dpop k d)"
  unfolding dpop_filter reload_dict_def reload_items_map filter_sort
  by (simp add: filter_map comp_def case_prod_beta)

lemma json_reload_simps [simp]:
  "json_reload v = PStr s \<longleftrightarrow> v = PStr s" "json_reload v = PBool b \<longleftrightarrow> v = PBool b"
  "json_reload v = PNone \<longleftrightarrow> v = PNone" "json_reload v = PInt i \<longleftrightarrow> v = PInt i"
  "is_str (json_reload v) = is_str v" "is_dict (json_reload v) = is_dict v" "str_of (json_reload v) = str_of v"
  "is_num (json_reload v) = is_num v" "is_bool (json_reload v) = is_bool v" "num_val (json_reload v) = num_val v"
  "dict_of (json_reload v) = reload_dict (dict_of v)"
  by (cases v; simp add: reload_dict_def)+

lemma py_eq_reload_bool [simp]: "py_eq (json_reload v) (PBool b) = py_eq v (PBool b)"
  by (cases v) auto

section \<open>The contract of a sealed record\<close>

text \<open>
  A record carries, in one field, the digest of everything else. The laws: sealing leaves
  the body alone and stamps its digest. From them: a sealed record verifies, sealing is
  idempotent on what it stamps, and a verified record with the same stamp has the same
  body unless the digest collides.
\<close>

locale sealed_record =
  fixes body :: "'r \<Rightarrow> 'b"
    and stamp :: "'r \<Rightarrow> pyval"
    and digest :: "'b \<Rightarrow> string"
    and seal :: "'r \<Rightarrow> 'r res"
  assumes stamp_seal: "seal r = Inr r' \<Longrightarrow> stamp r' = PStr (digest (body r))"
    and body_seal: "seal r = Inr r' \<Longrightarrow> body r' = body r"
begin

definition verified :: "'r \<Rightarrow> bool" where
  "verified r \<longleftrightarrow> stamp r = PStr (digest (body r))"

lemma seal_verified: "seal r = Inr r' \<Longrightarrow> verified r'"
  by (simp add: verified_def stamp_seal body_seal)

lemma reseal_stamp: "seal r = Inr r' \<Longrightarrow> seal r' = Inr r'' \<Longrightarrow> stamp r'' = stamp r'"
  by (simp add: stamp_seal body_seal)

lemma edit_verified_iff:
  assumes "seal r = Inr r'" and "stamp q = stamp r'"
  shows "verified q \<longleftrightarrow> digest (body q) = digest (body r)"
  using assms stamp_seal [OF assms(1)] by (auto simp: verified_def)

lemma tamper_evident:
  assumes "verified r" and "verified r'" and "stamp r = stamp r'"
    and "digest (body r) = digest (body r') \<Longrightarrow> body r = body r'"
  shows "body r = body r'"
  using assms by (simp add: verified_def)

end

section \<open>The contract of a guarded state machine\<close>

text \<open>
  A component whose operations either raise or return the next state, and an invariant
  every operation keeps. A run stops at the first exception; every state a run reaches
  satisfies the invariant.
\<close>

locale guarded_machine =
  fixes step :: "'e \<Rightarrow> 's \<Rightarrow> 's res"
    and inv :: "'s \<Rightarrow> bool"
  assumes step_inv: "inv s \<Longrightarrow> step e s = Inr t \<Longrightarrow> inv t"
begin

definition run :: "'e list \<Rightarrow> 's \<Rightarrow> 's res" where
  "run es s = efold step es s"

inductive reaches :: "'s \<Rightarrow> 's \<Rightarrow> bool" for s where
  here: "reaches s s"
| more: "reaches s t \<Longrightarrow> step e t = Inr u \<Longrightarrow> reaches s u"

lemma run_inv: "run es s = Inr t \<Longrightarrow> inv s \<Longrightarrow> inv t"
  unfolding run_def by (erule efold_inv) (auto intro: step_inv)

lemma reaches_inv: "reaches s t \<Longrightarrow> inv s \<Longrightarrow> inv t"
  by (induction rule: reaches.induct) (auto intro: step_inv)

lemma run_reaches: "run es s = Inr t \<Longrightarrow> reaches s t"
proof (induction es arbitrary: t rule: rev_induct)
  case Nil
  then show ?case by (simp add: run_def here)
next
  case (snoc e es)
  then obtain u where "run es s = Inr u" and "step e u = Inr t"
    by (auto simp: run_def efold_append ebind_Inr_iff)
  with snoc.IH show ?case by (blast intro: more)
qed

end

end
