(* ===== verification/Level_Engine.thy ===== *)
theory Level_Engine
  imports Py_Text
begin

text \<open>
  The Gate 6A level event state machine (\<^verbatim>\<open>level_event_state_machine.py\<close>): one engine
  watches one price level in one direction and reports approach, raw crossing, acceptance
  or rejection by a window of 5-second closes, retest and re-arming. The engine's fields
  are a record; \<open>on_price\<close> and \<open>on_5s_close\<close> return the next engine and the events
  they pass to the emit callback, in order; \<open>snapshot_state\<close> and \<open>restore_state\<close> are
  the checkpoint. Shown: the flag invariant, the checkpoint round trip, that a restored
  engine always satisfies the invariant, when acceptance is reported, and how often each
  event can occur in a run.
\<close>

section \<open>Data\<close>

datatype direction = UP | DOWN

datatype lstate = FAR | APPROACH | CROSS_RAW | ACCEPTED | REJECTED

datatype event_type =
  Ev_APPROACH | Ev_CROSS_RAW | Ev_ACCEPTED | Ev_REJECTED | Ev_RETEST | Ev_REARMED

type_synonym emission = "event_type \<times> pyfloat \<times> string"

fun direction_str :: "direction \<Rightarrow> string" where
  "direction_str UP = ''UP''"
| "direction_str DOWN = ''DOWN''"

fun state_str :: "lstate \<Rightarrow> string" where
  "state_str FAR = ''FAR''"
| "state_str APPROACH = ''APPROACH''"
| "state_str CROSS_RAW = ''CROSS_RAW''"
| "state_str ACCEPTED = ''ACCEPTED''"
| "state_str REJECTED = ''REJECTED''"

fun event_str :: "event_type \<Rightarrow> string" where
  "event_str Ev_APPROACH = ''APPROACH''"
| "event_str Ev_CROSS_RAW = ''CROSS_RAW''"
| "event_str Ev_ACCEPTED = ''ACCEPTED''"
| "event_str Ev_REJECTED = ''REJECTED''"
| "event_str Ev_RETEST = ''RETEST''"
| "event_str Ev_REARMED = ''REARMED''"

definition parse_direction :: "string \<Rightarrow> direction option" where
  "parse_direction s = (if s = ''UP'' then Some UP else if s = ''DOWN'' then Some DOWN else None)"

definition parse_state :: "string \<Rightarrow> lstate option" where
  "parse_state s =
     (if s = ''FAR'' then Some FAR else if s = ''APPROACH'' then Some APPROACH
      else if s = ''CROSS_RAW'' then Some CROSS_RAW else if s = ''ACCEPTED'' then Some ACCEPTED
      else if s = ''REJECTED'' then Some REJECTED else None)"

definition STATE_SCHEMA_VERSION :: string where
  "STATE_SCHEMA_VERSION = ''CRT_GATE6A_LEVEL_EVENT_STATE_V0.1''"

record engine =
  le_level :: pyfloat
  le_direction :: direction
  le_band_bps :: pyfloat
  le_accept_required :: int
  le_accept_window :: int
  le_last_price :: "pyfloat option"
  le_state :: lstate
  le_cross_active :: bool
  le_accepted :: bool
  le_accepted_departed :: bool
  le_retest_emitted :: bool
  le_closes :: "pyfloat list"

section \<open>Operations\<close>

definition positive_price :: "pyval \<Rightarrow> string \<Rightarrow> pyfloat res" where
  "positive_price v field =
     (if is_bool v \<or> \<not> is_num v then Inl (ValueError (field @ '' must be a positive number''))
      else ebind (math_isfinite v) (\<lambda>fin.
        if \<not> fin \<or> num_le v (PInt 0) then Inl (ValueError (field @ '' must be a positive number''))
        else float_of_num v))"

text \<open>The constructor. \<^verbatim>\<open>emit_callback\<close> is the consumer of the emitted events.\<close>

definition level_engine_init ::
  "pyval \<Rightarrow> pyval \<Rightarrow> pyval \<Rightarrow> pyval \<Rightarrow> pyval \<Rightarrow> engine res" where
  "level_engine_init level direction band required window =
     ebind (in_strs direction [''UP'', ''DOWN'']) (\<lambda>known.
     if \<not> known then Inl (ValueError (''unsupported direction: '' @ py_str direction))
     else if is_bool band \<or> \<not> is_num band
       then Inl (ValueError ''approach_band_bps must be nonnegative'')
     else ebind (math_isfinite band) (\<lambda>fin.
     if \<not> fin \<or> num_lt band (PInt 0)
       then Inl (ValueError ''approach_band_bps must be nonnegative'')
     else (case window of
       PInt w \<Rightarrow>
         if w \<le> 0 then Inl (ValueError ''accept_window must be a positive integer'')
         else (case required of
           PInt r \<Rightarrow>
             if r \<le> 0 \<or> w < r then Inl (ValueError ''accept_required must be within accept_window'')
             else ebind (positive_price level ''level'') (\<lambda>lv.
               ebind (float_of_num band) (\<lambda>b.
               Inr \<lparr>le_level = lv, le_direction = the (parse_direction (str_of direction)),
                    le_band_bps = b, le_accept_required = r, le_accept_window = w,
                    le_last_price = None, le_state = FAR, le_cross_active = False,
                    le_accepted = False, le_accepted_departed = False,
                    le_retest_emitted = False, le_closes = []\<rparr>))
         | _ \<Rightarrow> Inl (ValueError ''accept_required must be within accept_window''))
     | _ \<Rightarrow> Inl (ValueError ''accept_window must be a positive integer''))))"

definition opt_float :: "pyfloat option \<Rightarrow> pyval" where
  "opt_float x = (case x of None \<Rightarrow> PNone | Some p \<Rightarrow> PFloat p)"

definition snapshot_state :: "engine \<Rightarrow> dict" where
  "snapshot_state e =
    [(''schema_version'', PStr STATE_SCHEMA_VERSION),
     (''level'', PFloat (le_level e)),
     (''direction'', PStr (direction_str (le_direction e))),
     (''approach_band_bps'', PFloat (le_band_bps e)),
     (''accept_required'', PInt (le_accept_required e)),
     (''accept_window'', PInt (le_accept_window e)),
     (''last_price'', opt_float (le_last_price e)),
     (''state'', PStr (state_str (le_state e))),
     (''cross_active'', PBool (le_cross_active e)),
     (''accepted'', PBool (le_accepted e)),
     (''accepted_departed'', PBool (le_accepted_departed e)),
     (''retest_emitted'', PBool (le_retest_emitted e)),
     (''closes'', PList (map PFloat (le_closes e)))]"

fun expected_flags :: "lstate \<Rightarrow> bool \<times> bool" where
  "expected_flags FAR = (False, False)"
| "expected_flags APPROACH = (False, False)"
| "expected_flags CROSS_RAW = (True, False)"
| "expected_flags ACCEPTED = (True, True)"
| "expected_flags REJECTED = (False, False)"

fun positive_int :: "pyval \<Rightarrow> bool" where
  "positive_int (PInt i) \<longleftrightarrow> 0 < i"
| "positive_int _ \<longleftrightarrow> False"

text \<open>The first identity field of a checkpoint that differs from the engine's.\<close>

definition identity_mismatch :: "engine \<Rightarrow> dict \<Rightarrow> string option" where
  "identity_mismatch e p =
     map_option fst (List.find (\<lambda>(k, v). \<not> py_eq (dget p k) v)
       [(''level'', PFloat (le_level e)),
        (''direction'', PStr (direction_str (le_direction e))),
        (''approach_band_bps'', PFloat (le_band_bps e)),
        (''accept_required'', PInt (le_accept_required e)),
        (''accept_window'', PInt (le_accept_window e))])"

text \<open>The part of \<^verbatim>\<open>restore_state\<close> before the state fields: shape, schema and identity.\<close>

definition check_identity :: "engine \<Rightarrow> dict \<Rightarrow> unit res" where
  "check_identity e p =
     (if set (keys p) \<noteq> set (keys (snapshot_state e)) then Inl (ValueError ''Gate 6A state fields mismatch'')
      else if dget p ''schema_version'' \<noteq> PStr STATE_SCHEMA_VERSION
        then Inl (ValueError ''Gate 6A state schema mismatch'')
      else ebind (positive_price (dget p ''level'') ''checkpoint_level'') (\<lambda>_.
      (let band = dget p ''approach_band_bps'' in
       if is_bool band \<or> \<not> is_num band then Inl (ValueError ''Gate 6A approach band mismatch'')
       else ebind (math_isfinite band) (\<lambda>fin.
       if \<not> fin \<or> num_lt band (PInt 0) then Inl (ValueError ''Gate 6A approach band mismatch'')
       else if \<not> positive_int (dget p ''accept_required'') \<or> \<not> positive_int (dget p ''accept_window'')
         then Inl (ValueError ''Gate 6A acceptance window mismatch'')
       else (case identity_mismatch e p of
           Some k \<Rightarrow> Inl (ValueError (''Gate 6A state identity mismatch:'' @ k))
         | None \<Rightarrow> Inr ())))))"

definition restore_last_price :: "pyval \<Rightarrow> pyfloat option res" where
  "restore_last_price v =
     (if v = PNone then Inr None else ebind (positive_price v ''last_price'') (\<lambda>x. Inr (Some x)))"

definition restore_state :: "engine \<Rightarrow> pyval \<Rightarrow> engine res" where
  "restore_state e payload =
     (case payload of
       PDict p \<Rightarrow>
         ebind (check_identity e p) (\<lambda>_.
         ebind (restore_last_price (dget p ''last_price'')) (\<lambda>lp.
         ebind (in_strs (dget p ''state'') [''FAR'', ''APPROACH'', ''CROSS_RAW'', ''ACCEPTED'', ''REJECTED'']) (\<lambda>known.
         if \<not> known then Inl (ValueError ''Gate 6A state value mismatch'')
         else (let st = the (parse_state (str_of (dget p ''state''))) in
         if lp = None \<and> st \<noteq> FAR then Inl (ValueError ''Gate 6A state requires last price'')
         else if \<not> list_all (\<lambda>k. is_bool (dget p k)) [''cross_active'', ''accepted'', ''accepted_departed'', ''retest_emitted'']
           then Inl (ValueError ''Gate 6A state boolean mismatch'')
         else (let ca = bool_of (dget p ''cross_active''); ac = bool_of (dget p ''accepted'');
                   ad = bool_of (dget p ''accepted_departed''); re = bool_of (dget p ''retest_emitted'') in
         if (ca, ac) \<noteq> expected_flags st then Inl (ValueError ''Gate 6A state transition flags mismatch'')
         else if ad \<and> \<not> ac then Inl (ValueError ''Gate 6A accepted departure mismatch'')
         else if re \<and> \<not> ad then Inl (ValueError ''Gate 6A retest state mismatch'')
         else if \<not> is_list (dget p ''closes'') \<or> le_accept_window e < int (length (list_of (dget p ''closes'')))
           then Inl (ValueError ''Gate 6A close window mismatch'')
         else ebind (emap (\<lambda>c. positive_price c ''checkpoint_close'') (list_of (dget p ''closes''))) (\<lambda>closes.
         if st = CROSS_RAW \<and> int (length closes) \<ge> le_accept_window e
           then Inl (ValueError ''Gate 6A unresolved close window mismatch'')
         else Inr (e\<lparr>le_last_price := lp, le_state := st, le_cross_active := ca,
                     le_accepted := ac, le_accepted_departed := ad,
                     le_retest_emitted := re, le_closes := closes\<rparr>)))))))
     | _ \<Rightarrow> Inl (ValueError ''Gate 6A state must be an object''))"

definition beyond :: "engine \<Rightarrow> pyfloat \<Rightarrow> bool" where
  "beyond e price = (case le_direction e of UP \<Rightarrow> fle (le_level e) price | DOWN \<Rightarrow> fle price (le_level e))"

definition pre_side :: "engine \<Rightarrow> pyfloat \<Rightarrow> bool" where
  "pre_side e price = (case le_direction e of UP \<Rightarrow> flt price (le_level e) | DOWN \<Rightarrow> flt (le_level e) price)"

definition distance_bps :: "engine \<Rightarrow> pyfloat \<Rightarrow> pyfloat res" where
  "distance_bps e price =
     (case fdiv (fabs (fsub price (le_level e))) (le_level e) of
        None \<Rightarrow> Inl ZeroDivisionError | Some q \<Rightarrow> Inr (fmul q (Fin 10000)))"

definition crossed :: "engine \<Rightarrow> pyfloat option \<Rightarrow> pyfloat \<Rightarrow> bool" where
  "crossed e previous current = (case previous of
     None \<Rightarrow> False
   | Some prev \<Rightarrow> (case le_direction e of
       UP \<Rightarrow> flt prev (le_level e) \<and> fle (le_level e) current
     | DOWN \<Rightarrow> flt (le_level e) prev \<and> fle current (le_level e)))"

text \<open>The first half of \<^verbatim>\<open>on_price\<close>: crossing, approach and re-arming.\<close>

definition price_crossing :: "engine \<Rightarrow> pyfloat \<Rightarrow> pyfloat \<Rightarrow> string \<Rightarrow> engine \<times> emission list" where
  "price_crossing e price distance ts =
     (if crossed e (le_last_price e) price \<and> \<not> le_cross_active e \<and> \<not> le_accepted e then
        (e\<lparr>le_cross_active := True, le_accepted := False, le_accepted_departed := False,
           le_retest_emitted := False, le_closes := [], le_state := CROSS_RAW\<rparr>,
         [(Ev_CROSS_RAW, price, ts)])
      else if \<not> le_cross_active e then
        (if pre_side e price \<and> fle distance (le_band_bps e) \<and> le_state e = FAR then
           (e\<lparr>le_state := APPROACH\<rparr>, [(Ev_APPROACH, price, ts)])
         else if le_state e = REJECTED \<and> pre_side e price \<and> flt (le_band_bps e) distance then
           (e\<lparr>le_state := FAR\<rparr>, [(Ev_REARMED, price, ts)])
         else (e, []))
      else (e, []))"

text \<open>The second half: departure from an accepted level and its single retest.\<close>

definition price_retest :: "engine \<Rightarrow> pyfloat \<Rightarrow> pyfloat \<Rightarrow> string \<Rightarrow> engine \<times> emission list" where
  "price_retest e price distance ts =
     (if le_accepted e then
        (if beyond e price \<and> flt (le_band_bps e) distance then (e\<lparr>le_accepted_departed := True\<rparr>, [])
         else if le_accepted_departed e \<and> beyond e price \<and> fle distance (le_band_bps e)
                 \<and> \<not> le_retest_emitted e
           then (e\<lparr>le_retest_emitted := True\<rparr>, [(Ev_RETEST, price, ts)])
         else (e, []))
      else (e, []))"

definition on_price :: "engine \<Rightarrow> pyval \<Rightarrow> string \<Rightarrow> (engine \<times> emission list) res" where
  "on_price e v ts =
     ebind (positive_price v ''observed_price'') (\<lambda>price.
     ebind (distance_bps e price) (\<lambda>distance.
     (let (e1, evs1) = price_crossing e price distance ts;
          (e2, evs2) = price_retest e1 price distance ts
      in Inr (e2\<lparr>le_last_price := Some price\<rparr>, evs1 @ evs2))))"

text \<open>Appending to a \<^verbatim>\<open>deque(maxlen=w)\<close> drops from the left.\<close>

definition deque_append :: "int \<Rightarrow> 'a list \<Rightarrow> 'a \<Rightarrow> 'a list" where
  "deque_append w xs x = (let ys = xs @ [x] in drop (length ys - nat w) ys)"

definition on_5s_close :: "engine \<Rightarrow> pyval \<Rightarrow> string \<Rightarrow> (engine \<times> emission list) res" where
  "on_5s_close e v ts =
     ebind (positive_price v ''close'') (\<lambda>close.
     if \<not> le_cross_active e \<or> le_accepted e then Inr (e, [])
     else
       (let closes = deque_append (le_accept_window e) (le_closes e) close;
            e1 = e\<lparr>le_closes := closes\<rparr>
        in if int (length closes) < le_accept_window e then Inr (e1, [])
           else if le_accept_required e \<le> int (length (filter (beyond e1) closes)) then
             Inr (e1\<lparr>le_accepted := True, le_state := ACCEPTED\<rparr>, [(Ev_ACCEPTED, close, ts)])
           else
             Inr (e1\<lparr>le_cross_active := False, le_accepted := False, le_state := REJECTED\<rparr>,
                  [(Ev_REJECTED, close, ts)])))"


section \<open>Invariant\<close>

definition pos_fin :: "pyfloat \<Rightarrow> bool" where
  "pos_fin x \<longleftrightarrow> (case x of Fin q \<Rightarrow> 0 < q | _ \<Rightarrow> False)"

text \<open>What the constructor fixes and no operation changes.\<close>

definition engine_params :: "engine \<Rightarrow> bool" where
  "engine_params e \<longleftrightarrow> pos_fin (le_level e) \<and> is_finite (le_band_bps e) \<and> fle (Fin 0) (le_band_bps e)
     \<and> 0 < le_accept_required e \<and> le_accept_required e \<le> le_accept_window e"

definition engine_flags :: "engine \<Rightarrow> bool" where
  "engine_flags e \<longleftrightarrow> (le_cross_active e, le_accepted e) = expected_flags (le_state e)
     \<and> (le_accepted_departed e \<longrightarrow> le_accepted e)
     \<and> (le_retest_emitted e \<longrightarrow> le_accepted_departed e)
     \<and> (le_last_price e = None \<longrightarrow> le_state e = FAR)"

definition engine_window :: "engine \<Rightarrow> bool" where
  "engine_window e \<longleftrightarrow> int (length (le_closes e)) \<le> le_accept_window e
     \<and> (le_state e = CROSS_RAW \<longrightarrow> int (length (le_closes e)) < le_accept_window e)
     \<and> (\<forall>c \<in> set (le_closes e). pos_fin c)
     \<and> (\<forall>p. le_last_price e = Some p \<longrightarrow> pos_fin p)"

definition engine_inv :: "engine \<Rightarrow> bool" where
  "engine_inv e \<longleftrightarrow> engine_params e \<and> engine_flags e \<and> engine_window e"

lemmas engine_inv_defs = engine_inv_def engine_params_def engine_flags_def engine_window_def

lemma engine_inv_flags: "engine_inv e \<Longrightarrow> engine_flags e"
  by (simp add: engine_inv_def)

lemma pos_fin_iff: "pos_fin x \<longleftrightarrow> (\<exists>q. x = Fin q \<and> 0 < q)"
  by (auto simp: pos_fin_def split: pyfloat.splits)

lemma rnd64_pos_int: "0 < i \<Longrightarrow> 0 < rnd64 (of_int i)"
  using rnd64_mono [of 1 "of_int i"] rnd64_of_int [of 1] by simp

lemma float_of_int_pos: "0 < i \<Longrightarrow> float_of_int i = Inr x \<Longrightarrow> pos_fin x"
  using rnd64_pos_int [of i]
  by (auto simp: float_of_int_def to_float_def Let_def pos_fin_def split: if_splits)

lemma positive_price_pos: "positive_price v field = Inr x \<Longrightarrow> pos_fin x"
  by (cases v)
    (auto simp: positive_price_def math_isfinite_def num_le_def ebind_Inr_iff is_finite_iff
      pos_fin_iff not_le dest: float_of_int_pos [unfolded pos_fin_iff, rotated] split: if_splits)

lemma positive_price_PFloat: "pos_fin x \<Longrightarrow> positive_price (PFloat x) field = Inr x"
  by (auto simp: positive_price_def math_isfinite_def num_le_def pos_fin_iff)

lemma emap_positive_price:
  "emap (\<lambda>c. positive_price c field) cs = Inr xs \<Longrightarrow> \<forall>x \<in> set xs. pos_fin x"
  by (induction cs arbitrary: xs) (auto simp: ebind_Inr_iff positive_price_pos)

lemma emap_positive_price_PFloat:
  "\<forall>x \<in> set xs. pos_fin x \<Longrightarrow> emap (\<lambda>c. positive_price c field) (map PFloat xs) = Inr xs"
  by (induction xs) (auto simp: positive_price_PFloat)

lemma distance_bps_total: "pos_fin (le_level e) \<Longrightarrow> \<exists>d. distance_bps e p = Inr d"
  by (auto simp: distance_bps_def pos_fin_iff)

lemma length_deque_append:
  "int (length xs) < w \<Longrightarrow> deque_append w xs x = xs @ [x]"
  by (simp add: deque_append_def)

lemma level_engine_init_inv:
  assumes "level_engine_init level dir band required window = Inr e"
  shows "engine_inv e" and "le_state e = FAR" and "\<not> le_cross_active e" and "le_closes e = []"
    and "\<not> le_accepted e" and "\<not> le_retest_emitted e"
proof -
  from assms obtain w r lv b where
      wr: "window = PInt w" "required = PInt r" "\<not> w \<le> 0" "\<not> r \<le> 0" "\<not> w < r"
    and band: "\<not> is_bool band" "is_num band" "math_isfinite band = Inr True" "\<not> num_lt band (PInt 0)"
    and lv: "positive_price level ''level'' = Inr lv" and b: "float_of_num band = Inr b"
    and e: "e = \<lparr>le_level = lv, le_direction = the (parse_direction (str_of dir)),
                    le_band_bps = b, le_accept_required = r, le_accept_window = w,
                    le_last_price = None, le_state = FAR, le_cross_active = False,
                    le_accepted = False, le_accepted_departed = False,
                    le_retest_emitted = False, le_closes = []\<rparr>"
    by (auto simp: level_engine_init_def ebind_Inr_iff split: if_splits pyval.splits)
  have "is_finite b" using band(3) b by (simp add: math_isfinite_def)
  moreover have "fle (Fin 0) b"
    using band(1,2,4) b \<open>is_finite b\<close>
    by (cases band)
      (auto simp: num_lt_def is_finite_iff float_of_int_def to_float_def Let_def rnd64_nonneg not_less
        split: if_splits)
  ultimately show "engine_inv e"
    using wr positive_price_pos [OF lv] by (auto simp: engine_inv_defs e)
  show "le_state e = FAR" and "\<not> le_cross_active e" and "le_closes e = []"
    and "\<not> le_accepted e" and "\<not> le_retest_emitted e" by (simp_all add: e)
qed

lemma price_crossing_inv:
  assumes "engine_inv e" and "price_crossing e p d ts = (e', evs)"
  shows "engine_params e'" and "engine_window e'"
    and "(le_cross_active e', le_accepted e') = expected_flags (le_state e')
     \<and> (le_accepted_departed e' \<longrightarrow> le_accepted e')
     \<and> (le_retest_emitted e' \<longrightarrow> le_accepted_departed e')"
    and "le_last_price e' = le_last_price e"
  using assms
  by (auto simp: price_crossing_def engine_inv_defs split: if_splits)

lemma price_retest_inv:
  assumes "price_retest e p d ts = (e', evs)" and "engine_params e" and "engine_window e"
    and "(le_cross_active e, le_accepted e) = expected_flags (le_state e)
     \<and> (le_accepted_departed e \<longrightarrow> le_accepted e)
     \<and> (le_retest_emitted e \<longrightarrow> le_accepted_departed e)"
    and "pos_fin p"
  shows "engine_inv (e'\<lparr>le_last_price := Some p\<rparr>)"
  using assms by (auto simp: price_retest_def engine_inv_defs split: if_splits)

lemma on_price_E:
  assumes "on_price e v ts = Inr (e', evs)"
  obtains p d e1 evs1 e2 evs2 where "positive_price v ''observed_price'' = Inr p"
    and "distance_bps e p = Inr d"
    and "price_crossing e p d ts = (e1, evs1)" and "price_retest e1 p d ts = (e2, evs2)"
    and "e' = e2\<lparr>le_last_price := Some p\<rparr>" and "evs = evs1 @ evs2"
proof -
  from assms obtain p d where "positive_price v ''observed_price'' = Inr p"
    and "distance_bps e p = Inr d"
    and eq: "(let (e1, evs1) = price_crossing e p d ts; (e2, evs2) = price_retest e1 p d ts
      in Inr (e2\<lparr>le_last_price := Some p\<rparr>, evs1 @ evs2)) = (Inr (e', evs) :: (engine \<times> emission list) res)"
    unfolding on_price_def ebind_Inr_iff by blast
  then show thesis
    using that by (cases "price_crossing e p d ts"; cases "price_retest (fst (price_crossing e p d ts)) p d ts") auto
qed

lemma on_price_inv:
  assumes "engine_inv e" and "on_price e v ts = Inr (e', evs)"
  shows "engine_inv e'"
  using assms(2)
proof (rule on_price_E)
  fix p d e1 evs1 e2 evs2
  assume p: "positive_price v ''observed_price'' = Inr p"
    and c: "price_crossing e p d ts = (e1, evs1)" and r: "price_retest e1 p d ts = (e2, evs2)"
    and e': "e' = e2\<lparr>le_last_price := Some p\<rparr>"
  from r price_crossing_inv [OF assms(1) c] positive_price_pos [OF p] show ?thesis
    unfolding e' by (intro price_retest_inv) auto
qed

lemma on_5s_close_inv:
  assumes "engine_inv e" and "on_5s_close e v ts = Inr (e', evs)"
  shows "engine_inv e'"
proof (cases "le_cross_active e \<and> \<not> le_accepted e")
  case False
  with assms show ?thesis by (auto simp: on_5s_close_def ebind_Inr_iff split: if_splits)
next
  case True
  with assms(1) have raw: "le_state e = CROSS_RAW" and room: "int (length (le_closes e)) < le_accept_window e"
    by (cases "le_state e"; auto simp: engine_inv_defs)+
  from assms(2) True obtain c where "positive_price v ''close'' = Inr c"
    by (auto simp: on_5s_close_def ebind_Inr_iff)
  moreover from this have "pos_fin c" by (rule positive_price_pos)
  ultimately show ?thesis
    using assms True raw room
    by (auto simp: on_5s_close_def length_deque_append engine_inv_defs Let_def split: if_splits)
qed

section \<open>Runs of one engine\<close>

datatype observation = ObsPrice pyval string | ObsClose pyval string

fun engine_step :: "observation \<Rightarrow> engine \<times> emission list \<Rightarrow> (engine \<times> emission list) res" where
  "engine_step (ObsPrice v ts) (e, tr) = ebind (on_price e v ts) (\<lambda>(e', evs). Inr (e', tr @ evs))"
| "engine_step (ObsClose v ts) (e, tr) = ebind (on_5s_close e v ts) (\<lambda>(e', evs). Inr (e', tr @ evs))"

definition occurrences :: "event_type \<Rightarrow> emission list \<Rightarrow> nat" where
  "occurrences t tr = length (filter (\<lambda>ev. fst ev = t) tr)"

text \<open>
  How often each event can have been reported: a crossing is resolved once, acceptance is
  final, a retest follows an acceptance at most once, and the engine approaches again only
  after it re-armed.
\<close>

definition trace_counts :: "engine \<Rightarrow> emission list \<Rightarrow> bool" where
  "trace_counts e tr \<longleftrightarrow>
     occurrences Ev_CROSS_RAW tr = occurrences Ev_ACCEPTED tr + occurrences Ev_REJECTED tr
          + of_bool (le_state e = CROSS_RAW)
     \<and> occurrences Ev_ACCEPTED tr = of_bool (le_accepted e)
     \<and> occurrences Ev_RETEST tr = of_bool (le_retest_emitted e)
     \<and> occurrences Ev_REARMED tr + of_bool (le_state e = REJECTED) \<le> occurrences Ev_REJECTED tr
     \<and> occurrences Ev_APPROACH tr + of_bool (le_state e = FAR) \<le> 1 + occurrences Ev_REARMED tr"

definition trace_inv :: "engine \<times> emission list \<Rightarrow> bool" where
  "trace_inv s \<longleftrightarrow> engine_inv (fst s) \<and> trace_counts (fst s) (snd s)"

lemma occurrences_append [simp]: "occurrences t (a @ b) = occurrences t a + occurrences t b"
  by (simp add: occurrences_def)

lemma occurrences_simps [simp]:
  "occurrences t [] = 0" "occurrences t (ev # tr) = of_bool (fst ev = t) + occurrences t tr"
  by (simp_all add: occurrences_def)


lemma trace_counts_last_price [simp]: "trace_counts (e\<lparr>le_last_price := p\<rparr>) tr = trace_counts e tr"
  by (simp add: trace_counts_def)

lemma trace_counts_cross:
  "trace_counts e tr \<Longrightarrow> le_state e \<noteq> CROSS_RAW \<Longrightarrow> \<not> le_accepted e \<Longrightarrow> \<not> le_retest_emitted e \<Longrightarrow>
   trace_counts (e\<lparr>le_cross_active := True, le_accepted := False, le_accepted_departed := False,
       le_retest_emitted := False, le_closes := [], le_state := CROSS_RAW\<rparr>) (tr @ [(Ev_CROSS_RAW, p, ts)])"
  by (simp add: trace_counts_def)

lemma trace_counts_approach:
  "trace_counts e tr \<Longrightarrow> le_state e = FAR \<Longrightarrow>
   trace_counts (e\<lparr>le_state := APPROACH\<rparr>) (tr @ [(Ev_APPROACH, p, ts)])"
  by (simp add: trace_counts_def)

lemma trace_counts_rearm:
  "trace_counts e tr \<Longrightarrow> le_state e = REJECTED \<Longrightarrow>
   trace_counts (e\<lparr>le_state := FAR\<rparr>) (tr @ [(Ev_REARMED, p, ts)])"
  by (simp add: trace_counts_def)

lemma inactive_states:
  assumes "engine_flags e" and "\<not> le_cross_active e"
  shows "le_state e \<noteq> CROSS_RAW" and "\<not> le_retest_emitted e"
  using assms by (cases "le_state e"; auto simp: engine_flags_def)+

lemma price_crossing_counts:
  assumes "engine_flags e" and "trace_counts e tr" and "price_crossing e p d ts = (e', evs)"
  shows "trace_counts e' (tr @ evs)"
  using assms(2,3) inactive_states [OF assms(1)]
  by (auto simp: price_crossing_def intro!: trace_counts_cross trace_counts_approach trace_counts_rearm
    split: if_splits)

lemma trace_counts_departed [simp]: "trace_counts (e\<lparr>le_accepted_departed := b\<rparr>) tr = trace_counts e tr"
  by (simp add: trace_counts_def)

lemma trace_counts_closes [simp]: "trace_counts (e\<lparr>le_closes := cs\<rparr>) tr = trace_counts e tr"
  by (simp add: trace_counts_def)

lemma trace_counts_retest:
  "trace_counts e tr \<Longrightarrow> \<not> le_retest_emitted e \<Longrightarrow>
   trace_counts (e\<lparr>le_retest_emitted := True\<rparr>) (tr @ [(Ev_RETEST, p, ts)])"
  by (simp add: trace_counts_def)

lemma trace_counts_accept:
  "trace_counts e tr \<Longrightarrow> le_state e = CROSS_RAW \<Longrightarrow> \<not> le_accepted e \<Longrightarrow>
   trace_counts (e\<lparr>le_accepted := True, le_state := ACCEPTED\<rparr>) (tr @ [(Ev_ACCEPTED, p, ts)])"
  by (simp add: trace_counts_def)

lemma trace_counts_reject:
  "trace_counts e tr \<Longrightarrow> le_state e = CROSS_RAW \<Longrightarrow> \<not> le_accepted e \<Longrightarrow>
   trace_counts (e\<lparr>le_cross_active := False, le_accepted := False, le_state := REJECTED\<rparr>)
     (tr @ [(Ev_REJECTED, p, ts)])"
  by (simp add: trace_counts_def)

lemma price_retest_counts:
  "trace_counts e tr \<Longrightarrow> price_retest e p d ts = (e', evs) \<Longrightarrow> trace_counts e' (tr @ evs)"
  by (auto simp: price_retest_def trace_counts_retest split: if_splits)

lemma on_5s_close_counts:
  assumes "engine_flags e" and "trace_counts e tr" and "on_5s_close e v ts = Inr (e', evs)"
  shows "trace_counts e' (tr @ evs)"
proof (cases "le_cross_active e \<and> \<not> le_accepted e")
  case False
  with assms show ?thesis by (auto simp: on_5s_close_def ebind_Inr_iff split: if_splits)
next
  case True
  then have "le_state e = CROSS_RAW"
    using assms(1) by (cases "le_state e") (auto simp: engine_flags_def)
  with True assms(2,3) show ?thesis
    by (auto simp: on_5s_close_def ebind_Inr_iff Let_def
      intro!: trace_counts_accept trace_counts_reject split: if_splits)
qed

lemma on_price_counts:
  assumes "engine_flags e" and "trace_counts e tr" and "on_price e v ts = Inr (e', evs)"
  shows "trace_counts e' (tr @ evs)"
  using assms(3)
proof (rule on_price_E)
  fix p d e1 evs1 e2 evs2
  assume "price_crossing e p d ts = (e1, evs1)" and "price_retest e1 p d ts = (e2, evs2)"
    and "e' = e2\<lparr>le_last_price := Some p\<rparr>" and "evs = evs1 @ evs2"
  then show ?thesis
    using price_retest_counts price_crossing_counts [OF assms(1,2)] by fastforce
qed

interpretation level_run: guarded_machine engine_step trace_inv
proof
  fix s :: "engine \<times> emission list" and ob t
  assume "trace_inv s" and "engine_step ob s = Inr t"
  then show "trace_inv t"
    by (cases s; cases ob)
      (auto simp: ebind_Inr_iff trace_inv_def intro: on_price_inv on_5s_close_inv
        on_price_counts [OF engine_inv_flags] on_5s_close_counts [OF engine_inv_flags])
qed


section \<open>Checkpoints\<close>

definition same_identity :: "engine \<Rightarrow> engine \<Rightarrow> bool" where
  "same_identity a b \<longleftrightarrow> le_level a = le_level b \<and> le_direction a = le_direction b
     \<and> le_band_bps a = le_band_bps b \<and> le_accept_required a = le_accept_required b
     \<and> le_accept_window a = le_accept_window b"

lemma parse_state_str [simp]: "parse_state (state_str st) = Some st"
  by (cases st) (simp_all add: parse_state_def)

lemma state_str_known: "state_str st \<in> {''FAR'', ''APPROACH'', ''CROSS_RAW'', ''ACCEPTED'', ''REJECTED''}"
  by (cases st) simp_all

lemma snapshot_keys:
  "keys (snapshot_state a) = keys (snapshot_state b)"
  by (simp add: snapshot_state_def keys_def)

lemma snapshot_fields [simp]:
  "dget (snapshot_state e) ''schema_version'' = PStr STATE_SCHEMA_VERSION"
  "dget (snapshot_state e) ''level'' = PFloat (le_level e)"
  "dget (snapshot_state e) ''direction'' = PStr (direction_str (le_direction e))"
  "dget (snapshot_state e) ''approach_band_bps'' = PFloat (le_band_bps e)"
  "dget (snapshot_state e) ''accept_required'' = PInt (le_accept_required e)"
  "dget (snapshot_state e) ''accept_window'' = PInt (le_accept_window e)"
  "dget (snapshot_state e) ''last_price'' = opt_float (le_last_price e)"
  "dget (snapshot_state e) ''state'' = PStr (state_str (le_state e))"
  "dget (snapshot_state e) ''cross_active'' = PBool (le_cross_active e)"
  "dget (snapshot_state e) ''accepted'' = PBool (le_accepted e)"
  "dget (snapshot_state e) ''accepted_departed'' = PBool (le_accepted_departed e)"
  "dget (snapshot_state e) ''retest_emitted'' = PBool (le_retest_emitted e)"
  "dget (snapshot_state e) ''closes'' = PList (map PFloat (le_closes e))"
  by (simp_all add: snapshot_state_def)

lemma feq_finite_refl [simp]: "is_finite x \<Longrightarrow> feq x x"
  by (cases x) auto

lemma pos_fin_finite: "pos_fin x \<Longrightarrow> is_finite x"
  by (auto simp: pos_fin_iff)

lemma check_identity_snapshot:
  assumes "engine_params e" and "same_identity f e"
  shows "check_identity f (snapshot_state e) = Inr ()"
proof -
  have "identity_mismatch f (snapshot_state e) = None"
    using assms by (simp add: identity_mismatch_def same_identity_def engine_params_def pos_fin_finite)
  moreover have "flt (le_band_bps e) (Fin 0) = False"
    using assms(1) by (auto simp: engine_params_def is_finite_iff)
  ultimately show ?thesis
    using assms snapshot_keys [of e f]
    by (simp add: check_identity_def positive_price_PFloat engine_params_def math_isfinite_def num_lt_def Let_def)
qed

lemma restore_last_price_snapshot:
  "\<forall>p. x = Some p \<longrightarrow> pos_fin p \<Longrightarrow> restore_last_price (opt_float x) = Inr x"
  by (cases x) (simp_all add: restore_last_price_def opt_float_def positive_price_PFloat)

lemma restore_snapshot:
  assumes "engine_inv e" and "same_identity f e"
  shows "restore_state f (PDict (snapshot_state e)) = Inr e"
proof -
  have "check_identity f (snapshot_state e) = Inr ()"
    using assms by (intro check_identity_snapshot) (auto simp: engine_inv_def)
  moreover have "restore_last_price (opt_float (le_last_price e)) = Inr (le_last_price e)"
    using assms(1) by (intro restore_last_price_snapshot) (simp add: engine_inv_defs)
  moreover have "emap (\<lambda>c. positive_price c ''checkpoint_close'') (map PFloat (le_closes e)) = Inr (le_closes e)"
    using assms(1) by (intro emap_positive_price_PFloat) (simp add: engine_inv_defs)
  moreover have "f\<lparr>le_last_price := le_last_price e, le_state := le_state e, le_cross_active := le_cross_active e,
        le_accepted := le_accepted e, le_accepted_departed := le_accepted_departed e,
        le_retest_emitted := le_retest_emitted e, le_closes := le_closes e\<rparr> = e"
    using assms(2) by (simp add: same_identity_def)
  ultimately show ?thesis
    using assms state_str_known [of "le_state e"]
    by (auto simp: restore_state_def engine_inv_defs same_identity_def Let_def)
qed

text \<open>A checkpoint taken from an engine in a legal state restores exactly that engine, in any
  engine armed on the same level, direction, band and acceptance window.\<close>

theorem restore_snapshot_roundtrip:
  assumes "engine_inv e" and "same_identity f e"
  shows "restore_state f (PDict (snapshot_state e)) = Inr e"
  using assms by (rule restore_snapshot)

text \<open>A concrete engine and observations for the witnesses: level 128, rising, 2 of 2 closes.\<close>

definition demo_engine :: engine where
  "demo_engine = \<lparr>le_level = Fin 128, le_direction = UP, le_band_bps = Fin 20,
     le_accept_required = 2, le_accept_window = 2, le_last_price = None, le_state = FAR,
     le_cross_active = False, le_accepted = False, le_accepted_departed = False,
     le_retest_emitted = False, le_closes = []\<rparr>"

definition demo_raw :: engine where
  "demo_raw = demo_engine\<lparr>le_last_price := Some (Fin 129), le_state := CROSS_RAW,
     le_cross_active := True, le_closes := [Fin 129]\<rparr>"

lemma positive_price_PInt [simp]:
  "0 < i \<Longrightarrow> i < 2 ^ 53 \<Longrightarrow> positive_price (PInt i) field = Inr (Fin (of_int i))"
  by (simp add: positive_price_def math_isfinite_def num_le_def float_of_int_def Let_def)

lemma demo_engine_init:
  "level_engine_init (PInt 128) (PStr ''UP'') (PInt 20) (PInt 2) (PInt 2) = Inr demo_engine"
  by (simp add: level_engine_init_def math_isfinite_def num_lt_def float_of_int_def Let_def
      parse_direction_def demo_engine_def)

lemma demo_raw_inv: "engine_inv demo_raw"
  by (simp add: engine_inv_defs demo_raw_def demo_engine_def pos_fin_def)

theorem restore_snapshot_roundtrip_witness:
  "engine_inv demo_raw \<and> same_identity demo_engine demo_raw
   \<and> restore_state demo_engine (PDict (snapshot_state demo_raw)) = Inr demo_raw"
proof -
  have s: "same_identity demo_engine demo_raw" by (simp add: same_identity_def demo_raw_def)
  show ?thesis using demo_raw_inv s restore_snapshot_roundtrip [OF demo_raw_inv s] by blast
qed

lemma restore_state_legal:
  assumes "engine_params e" and "restore_state e payload = Inr e'"
  shows "engine_inv e' \<and> same_identity e' e"
proof -
  from assms(2) obtain p where p: "payload = PDict p"
    by (cases payload) (simp_all add: restore_state_def)
  from assms(2) obtain lp closes where
      lp: "restore_last_price (dget p ''last_price'') = Inr lp"
    and cl: "emap (\<lambda>c. positive_price c ''checkpoint_close'') (list_of (dget p ''closes'')) = Inr closes"
    and eqs: "\<not> (lp = None \<and> le_state e' \<noteq> FAR)"
      "(le_cross_active e', le_accepted e') = expected_flags (le_state e')"
      "le_accepted_departed e' \<longrightarrow> le_accepted e'" "le_retest_emitted e' \<longrightarrow> le_accepted_departed e'"
      "int (length (list_of (dget p ''closes''))) \<le> le_accept_window e"
      "\<not> (le_state e' = CROSS_RAW \<and> int (length closes) \<ge> le_accept_window e)"
      "le_last_price e' = lp" "le_closes e' = closes"
    and id: "same_identity e' e"
    unfolding p restore_state_def
    by (auto simp: ebind_Inr_iff Let_def same_identity_def not_less split: if_splits)
  have "\<forall>p. lp = Some p \<longrightarrow> pos_fin p"
    using lp positive_price_pos by (auto simp: restore_last_price_def ebind_Inr_iff split: if_splits)
  moreover have "\<forall>c \<in> set closes. pos_fin c" using cl by (rule emap_positive_price)
  ultimately show ?thesis
    using assms(1) eqs id emap_length [OF cl]
    by (auto simp: engine_inv_defs same_identity_def)
qed

text \<open>C8: Whatever object is offered as a checkpoint, restoring either raises or yields an engine
  in a legal state that still watches the same level: a tampered checkpoint cannot install
  contradictory flags, an overfull close window or a foreign identity.\<close>

theorem restore_state_fails_closed:
  assumes "engine_params e" and "restore_state e payload = Inr e'"
  shows "engine_inv e' \<and> same_identity e' e"
  using assms by (rule restore_state_legal)

theorem restore_state_fails_closed_witness:
  "engine_params demo_engine
   \<and> restore_state demo_engine (PDict (snapshot_state demo_raw)) = Inr demo_raw
   \<and> engine_inv demo_raw \<and> same_identity demo_raw demo_engine"
proof -
  have p: "engine_params demo_engine" by (simp add: engine_params_def demo_engine_def pos_fin_def)
  have s: "same_identity demo_engine demo_raw" by (simp add: same_identity_def demo_raw_def)
  have r: "restore_state demo_engine (PDict (snapshot_state demo_raw)) = Inr demo_raw"
    using demo_raw_inv s by (auto simp: restore_state_def check_identity_snapshot engine_inv_defs
        restore_last_price_def demo_raw_def demo_engine_def opt_float_def positive_price_PFloat pos_fin_def Let_def
        same_identity_def parse_state_def)
  show ?thesis using p r restore_state_fails_closed [OF p r] by blast
qed

text \<open>C2: a raw crossing is decided exactly when the window of 5-second closes is full, and it is
  accepted exactly when at least the required number of those closes lies at or beyond the
  level; until then the engine only collects closes and reports nothing.\<close>

theorem close_window_decides:
  assumes "engine_inv e" and "le_state e = CROSS_RAW" and "positive_price v ''close'' = Inr c"
  shows "\<exists>e'. on_5s_close e v ts = Inr (e',
       if int (length (le_closes e)) + 1 < le_accept_window e then []
       else if le_accept_required e \<le> int (length (filter (beyond e) (le_closes e @ [c])))
         then [(Ev_ACCEPTED, c, ts)] else [(Ev_REJECTED, c, ts)])
     \<and> le_closes e' = le_closes e @ [c]
     \<and> le_state e' = (if int (length (le_closes e)) + 1 < le_accept_window e then CROSS_RAW
         else if le_accept_required e \<le> int (length (filter (beyond e) (le_closes e @ [c])))
         then ACCEPTED else REJECTED)"
proof -
  have b: "beyond (e\<lparr>le_closes := cs\<rparr>) = beyond e" for cs
    by (simp add: beyond_def fun_eq_iff split: direction.split)
  from assms(1,2) have "le_cross_active e" "\<not> le_accepted e"
    and "int (length (le_closes e)) < le_accept_window e"
    by (auto simp: engine_inv_defs)
  with assms(2,3) show ?thesis
    by (auto simp: on_5s_close_def length_deque_append b Let_def)
qed

theorem close_window_decides_witness:
  "engine_inv demo_raw \<and> le_state demo_raw = CROSS_RAW \<and> positive_price (PInt 130) ''close'' = Inr (Fin 130)
   \<and> (\<exists>e'. on_5s_close demo_raw (PInt 130) ''t'' = Inr (e', [(Ev_ACCEPTED, Fin 130, ''t'')])
        \<and> le_state e' = ACCEPTED)"
proof -
  have r: "le_state demo_raw = CROSS_RAW" by (simp add: demo_raw_def)
  have p: "positive_price (PInt 130) ''close'' = Inr (Fin 130)"
    using positive_price_PInt [of 130] by simp
  show ?thesis
    using demo_raw_inv r p close_window_decides [OF demo_raw_inv r p, of "''t''"]
    by (auto simp: demo_raw_def demo_engine_def beyond_def)
qed

text \<open>C1: over every run of a freshly armed engine on LAST prices and 5-second closes: every raw
  crossing is resolved once or still open, a level is accepted at most once and retested at
  most once and only after acceptance, the engine re-arms at most once per rejection and
  approaches again only after re-arming.\<close>

theorem engine_run_event_counts:
  assumes "level_engine_init level dir band required window = Inr e0"
    and "efold engine_step obs (e0, []) = Inr (e, tr)"
  shows "engine_inv e
     \<and> occurrences Ev_CROSS_RAW tr = occurrences Ev_ACCEPTED tr + occurrences Ev_REJECTED tr
          + of_bool (le_state e = CROSS_RAW)
     \<and> occurrences Ev_ACCEPTED tr \<le> 1
     \<and> occurrences Ev_RETEST tr \<le> occurrences Ev_ACCEPTED tr
     \<and> occurrences Ev_REARMED tr \<le> occurrences Ev_REJECTED tr
     \<and> occurrences Ev_APPROACH tr \<le> 1 + occurrences Ev_REARMED tr"
proof -
  have "trace_inv (e0, [])"
    using level_engine_init_inv [OF assms(1)] by (simp add: trace_inv_def trace_counts_def)
  then have t: "trace_inv (e, tr)"
    using assms(2) level_run.run_inv [of obs "(e0, [])"] by (simp add: level_run.run_def)
  then have "le_retest_emitted e \<longrightarrow> le_accepted e" by (simp add: trace_inv_def engine_inv_defs)
  with t show ?thesis by (auto simp: trace_inv_def trace_counts_def)
qed

lemma demo_floats:
  "to_float (1 / 128) = Fin (1 / 128)" "to_float (625 / 8) = Fin (625 / 8)"
  using to_float_exact [of "1/128" 7 1] to_float_exact [of "625/8" 3 625] by simp_all

lemma demo_distance:
  "distance_bps demo_engine (Fin 127) = Inr (Fin (625 / 8))"
  "distance_bps (demo_engine\<lparr>le_last_price := Some (Fin 127)\<rparr>) (Fin 129) = Inr (Fin (625 / 8))"
  by (simp_all add: distance_bps_def demo_engine_def fsub_def demo_floats)

theorem engine_run_event_counts_witness:
  "level_engine_init (PInt 128) (PStr ''UP'') (PInt 20) (PInt 2) (PInt 2) = Inr demo_engine
   \<and> (\<exists>e tr. efold engine_step [ObsPrice (PInt 127) ''a'', ObsPrice (PInt 129) ''b''] (demo_engine, [])
        = Inr (e, tr) \<and> tr = [(Ev_CROSS_RAW, Fin 129, ''b'')]
        \<and> occurrences Ev_CROSS_RAW tr = 1 \<and> occurrences Ev_ACCEPTED tr \<le> 1)"
proof -
  let ?e1 = "demo_engine\<lparr>le_last_price := Some (Fin 127)\<rparr>"
  let ?e2 = "demo_engine\<lparr>le_last_price := Some (Fin 129), le_state := CROSS_RAW, le_cross_active := True\<rparr>"
  have c1: "price_crossing demo_engine (Fin 127) (Fin (625 / 8)) ''a'' = (demo_engine, [])"
    by (simp add: price_crossing_def demo_engine_def crossed_def)
  have c2: "price_crossing ?e1 (Fin 129) (Fin (625 / 8)) ''b'' =
      (?e2\<lparr>le_last_price := Some (Fin 127)\<rparr>, [(Ev_CROSS_RAW, Fin 129, ''b'')])"
    by (simp add: price_crossing_def demo_engine_def crossed_def)
  have t: "price_retest e p d ts = (e, [])" if "\<not> le_accepted e" for e p d ts
    using that by (simp add: price_retest_def)
  have na: "\<not> le_accepted demo_engine" by (simp add: demo_engine_def)
  have 1: "on_price demo_engine (PInt 127) ''a'' = Inr (?e1, [])"
    using positive_price_PInt [of 127] by (simp add: on_price_def demo_distance c1 t [OF na])
  have 2: "on_price ?e1 (PInt 129) ''b'' = Inr (?e2, [(Ev_CROSS_RAW, Fin 129, ''b'')])"
    using positive_price_PInt [of 129] by (simp add: on_price_def demo_distance c2 t na)
  have r: "efold engine_step [ObsPrice (PInt 127) ''a'', ObsPrice (PInt 129) ''b''] (demo_engine, [])
     = Inr (?e2, [(Ev_CROSS_RAW, Fin 129, ''b'')])"
    by (simp add: 1 2)
  show ?thesis
    using demo_engine_init r engine_run_event_counts [OF demo_engine_init r] by auto
qed

end
