(* ===== verification/Commander_Plan.thy ===== *)
theory Commander_Plan
  imports Level_Engine
begin

text \<open>
  The verified Commander Plan and its adapter (\<^verbatim>\<open>commander_plan_adapter.py\<close>) and the IBKR
  observation bridge over it (\<^verbatim>\<open>ibkr_commander_observation.py\<close>). A plan is a JSON object;
  \<open>validate_commander_plan\<close> returns its blockers. The adapter arms one Gate 6A engine per
  plan line and turns what the engines emit into observation-only events. Timestamps:
  \<^verbatim>\<open>datetime.fromisoformat\<close> is the parameter \<open>fromiso\<close> of the definitions that parse
  (every theorem holds for any such parser), an aware \<^verbatim>\<open>datetime\<close> is its UTC time in
  microseconds since the epoch.
\<close>

section \<open>Time\<close>

datatype datetime = Naive int | Aware int

type_synonym iso_parser = "string \<Rightarrow> string + datetime"

definition parse_timestamp :: "iso_parser \<Rightarrow> pyval \<Rightarrow> string + int" where
  "parse_timestamp fromiso v =
     (case v of
       PStr s \<Rightarrow>
         (let normalized = (if s \<noteq> [] \<and> last s = CHR ''Z'' then butlast s @ ''+00:00'' else s)
          in (case fromiso normalized of
              Inl msg \<Rightarrow> Inl msg
            | Inr (Naive _) \<Rightarrow> Inl ''timestamp_missing_timezone''
            | Inr (Aware t) \<Rightarrow> Inr t))
     | _ \<Rightarrow> Inl ''timestamp_not_string'')"

definition pad_left :: "nat \<Rightarrow> string \<Rightarrow> string" where
  "pad_left n s = replicate (n - length s) (CHR ''0'') @ s"

text \<open>The proleptic Gregorian date of a day number counted from 1970-01-01.\<close>

definition civil_of_days :: "int \<Rightarrow> int \<times> int \<times> int" where
  "civil_of_days z0 =
     (let z = z0 + 719468; era = z div 146097; doe = z mod 146097;
          yoe = (doe - doe div 1460 + doe div 36524 - doe div 146096) div 365;
          doy = doe - (365 * yoe + yoe div 4 - yoe div 100);
          mp = (5 * doy + 2) div 153;
          d = doy - (153 * mp + 2) div 5 + 1;
          m = (if mp < 10 then mp + 3 else mp - 9)
      in (yoe + era * 400 + (if m \<le> 2 then 1 else 0), m, d))"

definition iso_z :: "int \<Rightarrow> string" where
  "iso_z t =
     (let us = t mod 1000000; s = t div 1000000; sod = s mod 86400;
          (y, mo, d) = civil_of_days (s div 86400);
          num = (\<lambda>n i. pad_left n (int_str i))
      in num 4 y @ ''-'' @ num 2 mo @ ''-'' @ num 2 d @ ''T'' @ num 2 (sod div 3600) @ '':''
         @ num 2 (sod div 60 mod 60) @ '':'' @ num 2 (sod mod 60)
         @ (if us = 0 then '''' else ''.'' @ num 6 us) @ ''Z'')"

section \<open>The plan\<close>

definition ALLOWED_ASSETS :: "string list" where
  "ALLOWED_ASSETS = [''MSTR'', ''ASST'', ''STRC'', ''SATA'']"

definition ALLOWED_LINE_TYPES :: "string list" where
  "ALLOWED_LINE_TYPES = [''ATTACK'', ''FIRST_DEFENSE'', ''INVALIDATION'', ''HARVEST'']"

definition REQUIRED_TOP_FIELDS :: "string list" where
  "REQUIRED_TOP_FIELDS = [''plan_id'', ''plan_version'', ''plan_mode'', ''generated_at'', ''valid_until'',
     ''asset'', ''source_main_sha'', ''lines'', ''governance'', ''plan_sha'']"

definition REQUIRED_LINE_FIELDS :: "string list" where
  "REQUIRED_LINE_FIELDS = [''line_id'', ''line_type'', ''price'', ''direction'']"

definition REQUIRED_GOVERNANCE :: "(string \<times> string) list" where
  "REQUIRED_GOVERNANCE = [(''action_output'', ''NONE''), (''machine_execution'', ''FORBIDDEN''),
     (''external_action_authority'', ''NONE''), (''capital_decision_authority'', ''USER_ONLY'')]"

definition canonical_plan_payload :: "dict \<Rightarrow> string res" where
  "canonical_plan_payload plan = json_strict (PDict (dpop ''plan_sha'' plan))"

definition calculate_plan_sha :: "dict \<Rightarrow> string res" where
  "calculate_plan_sha plan = ebind (canonical_plan_payload plan) (\<lambda>t. Inr (sha256_hex t))"

definition seal_commander_plan :: "dict \<Rightarrow> dict res" where
  "seal_commander_plan plan =
     ebind (calculate_plan_sha plan) (\<lambda>h. Inr (dset ''plan_sha'' (PStr h) plan))"

definition time_blockers :: "iso_parser \<Rightarrow> int \<Rightarrow> dict \<Rightarrow> string list" where
  "time_blockers fromiso now plan =
     (case parse_timestamp fromiso (dget plan ''generated_at'') of
       Inl msg \<Rightarrow> [''INVALID_TIMESTAMP:'' @ msg]
     | Inr generated_at \<Rightarrow>
         (case parse_timestamp fromiso (dget plan ''valid_until'') of
           Inl msg \<Rightarrow> [''INVALID_TIMESTAMP:'' @ msg]
         | Inr valid_until \<Rightarrow>
             (if generated_at \<ge> valid_until then [''INVALID_TIME_WINDOW''] else [])
             @ (if valid_until \<le> now then [''PLAN_EXPIRED''] else [])))"

definition governance_blockers :: "pyval \<Rightarrow> string list" where
  "governance_blockers g =
     (case g of
       PDict gov \<Rightarrow>
         map (\<lambda>(k, v). ''GOVERNANCE_LOCK_FAIL:'' @ k)
           (filter (\<lambda>(k, v). \<not> py_eq (dget gov k) (PStr v)) REQUIRED_GOVERNANCE)
         @ (let unknown = sort (filter (\<lambda>k. k \<notin> fst ` set REQUIRED_GOVERNANCE) (keys gov))
            in if unknown = [] then [] else [''GOVERNANCE_UNKNOWN_FIELDS:'' @ join '','' unknown])
     | _ \<Rightarrow> [''GOVERNANCE_NOT_OBJECT''])"

record line_scan =
  ls_blockers :: "string list"
  ls_seen_ids :: "string list"
  ls_seen_types :: "string list"

text \<open>The price check of a line; a huge \<^verbatim>\<open>int\<close> overflows in \<^verbatim>\<open>math.isfinite\<close>.\<close>

definition price_invalid :: "pyval \<Rightarrow> bool res" where
  "price_invalid price =
     (if is_bool price \<or> \<not> is_num price then Inr True
      else ebind (math_isfinite price) (\<lambda>fin. Inr (\<not> fin \<or> num_le price (PInt 0))))"

definition scan_line_id :: "nat \<Rightarrow> pyval \<Rightarrow> line_scan \<Rightarrow> line_scan" where
  "scan_line_id index line_id s =
     (if \<not> is_str line_id \<or> strip (str_of line_id) = []
        then s\<lparr>ls_blockers := ls_blockers s @ [''INVALID_LINE_ID:'' @ int_str (int index)]\<rparr>
      else if str_of line_id \<in> set (ls_seen_ids s)
        then s\<lparr>ls_blockers := ls_blockers s @ [''DUPLICATE_LINE_ID:'' @ str_of line_id]\<rparr>
      else s\<lparr>ls_seen_ids := str_of line_id # ls_seen_ids s\<rparr>)"

definition scan_line_type :: "pyval \<Rightarrow> line_scan \<Rightarrow> line_scan" where
  "scan_line_type line_type s =
     (if \<not> is_str line_type \<or> str_of line_type \<notin> set ALLOWED_LINE_TYPES
        then s\<lparr>ls_blockers := ls_blockers s @ [''ILLEGAL_LINE_TYPE:'' @ py_str line_type]\<rparr>
      else if str_of line_type \<in> set (ls_seen_types s)
        then s\<lparr>ls_blockers := ls_blockers s @ [''DUPLICATE_LINE_TYPE:'' @ str_of line_type]\<rparr>
      else s\<lparr>ls_seen_types := str_of line_type # ls_seen_types s\<rparr>)"

definition scan_line :: "nat \<times> pyval \<Rightarrow> line_scan \<Rightarrow> line_scan res" where
  "scan_line ix s =
     (case ix of (index, v) \<Rightarrow>
       (let prefix = ''LINE_'' @ int_str (int index) in
       case v of
         PDict line \<Rightarrow>
           (let missing = sort (filter (\<lambda>k. \<not> dhas line k) REQUIRED_LINE_FIELDS) in
            if missing \<noteq> [] then
              Inr (s\<lparr>ls_blockers := ls_blockers s @ [prefix @ ''_MISSING:'' @ join '','' missing]\<rparr>)
            else
              (let s1 = scan_line_id index (dget line ''line_id'') s;
                   s2 = scan_line_type (dget line ''line_type'') s1;
                   dir = dget line ''direction'';
                   s3 = (if \<not> is_str dir \<or> str_of dir \<notin> {''UP'', ''DOWN''}
                         then s2\<lparr>ls_blockers := ls_blockers s2 @ [''ILLEGAL_DIRECTION:'' @ py_str dir]\<rparr> else s2)
               in ebind (price_invalid (dget line ''price'')) (\<lambda>bad.
                    Inr (if bad then s3\<lparr>ls_blockers := ls_blockers s3
                                 @ [''INVALID_PRICE:'' @ py_str (dget line ''line_id'')]\<rparr> else s3))))
       | _ \<Rightarrow> Inr (s\<lparr>ls_blockers := ls_blockers s @ [prefix @ ''_NOT_OBJECT'']\<rparr>)))"

definition line_blockers :: "pyval \<Rightarrow> string list res" where
  "line_blockers v =
     (case v of
       PList lines \<Rightarrow>
         ebind (efold scan_line (zip [0..<length lines] lines)
                 \<lparr>ls_blockers = [], ls_seen_ids = [], ls_seen_types = []\<rparr>) (\<lambda>s.
           (let missing = sort (filter (\<lambda>t. t \<notin> set (ls_seen_types s)) ALLOWED_LINE_TYPES) in
            Inr (ls_blockers s @ (if missing = [] then [] else [''MISSING_LINE_TYPES:'' @ join '','' missing]))))
     | _ \<Rightarrow> Inr [''LINES_NOT_ARRAY''])"

definition sha_blockers :: "dict \<Rightarrow> string list" where
  "sha_blockers plan =
     (case calculate_plan_sha plan of
       Inl (ValueError msg) \<Rightarrow> [''PLAN_CANONICALIZATION_FAILED:'' @ msg]
     | Inl _ \<Rightarrow> [''PLAN_CANONICALIZATION_FAILED:'']
     | Inr h \<Rightarrow> if py_eq (dget plan ''plan_sha'') (PStr h) then [] else [''PLAN_SHA_MISMATCH''])"

text \<open>The blockers of a plan; the plan is valid when there are none.\<close>

definition validate_commander_plan ::
  "iso_parser \<Rightarrow> pyval \<Rightarrow> string \<Rightarrow> int \<Rightarrow> string list res" where
  "validate_commander_plan fromiso v current_main_sha now =
     (case v of
       PDict plan \<Rightarrow>
         (let missing = sort (filter (\<lambda>k. \<not> dhas plan k) REQUIRED_TOP_FIELDS) in
          if missing \<noteq> [] then Inr [''MISSING_TOP_FIELDS:'' @ join '','' missing]
          else
            (let asset = dget plan ''asset'' in
             ebind (line_blockers (dget plan ''lines'')) (\<lambda>lb.
             Inr ((if py_eq (dget plan ''plan_mode'') (PStr ''OBSERVATION_ONLY'') then [] else [''PLAN_MODE_NOT_OBSERVATION_ONLY''])
               @ (if is_str asset \<and> str_of asset \<in> set ALLOWED_ASSETS then [] else [''UNKNOWN_ASSET:'' @ py_str asset])
               @ (if py_eq (dget plan ''source_main_sha'') (PStr current_main_sha) then [] else [''SOURCE_MAIN_SHA_MISMATCH''])
               @ time_blockers fromiso now plan
               @ governance_blockers (dget plan ''governance'')
               @ lb
               @ sha_blockers plan))))
     | _ \<Rightarrow> Inr [''PLAN_NOT_OBJECT''])"


section \<open>What a valid plan guarantees\<close>

definition line_id :: "dict \<Rightarrow> string" where "line_id line = str_of (dget line ''line_id'')"
definition line_type :: "dict \<Rightarrow> string" where "line_type line = str_of (dget line ''line_type'')"

definition line_ok :: "dict \<Rightarrow> bool" where
  "line_ok line \<longleftrightarrow> (\<forall>k \<in> set REQUIRED_LINE_FIELDS. dhas line k)
     \<and> is_str (dget line ''line_id'') \<and> strip (line_id line) \<noteq> []
     \<and> is_str (dget line ''line_type'') \<and> line_type line \<in> set ALLOWED_LINE_TYPES
     \<and> (dget line ''direction'' = PStr ''UP'' \<or> dget line ''direction'' = PStr ''DOWN'')
     \<and> price_invalid (dget line ''price'') = Inr False"

definition governance_ok :: "pyval \<Rightarrow> bool" where
  "governance_ok g \<longleftrightarrow> (\<exists>gov. g = PDict gov
     \<and> (\<forall>(k, v) \<in> set REQUIRED_GOVERNANCE. dget gov k = PStr v)
     \<and> set (keys gov) \<subseteq> fst ` set REQUIRED_GOVERNANCE)"

definition lines_ok :: "dict list \<Rightarrow> bool" where
  "lines_ok ls \<longleftrightarrow> list_all line_ok ls \<and> distinct (map line_id ls) \<and> distinct (map line_type ls)
     \<and> set (map line_type ls) = set ALLOWED_LINE_TYPES"

definition window_ok :: "iso_parser \<Rightarrow> int \<Rightarrow> dict \<Rightarrow> bool" where
  "window_ok fromiso now plan \<longleftrightarrow> (\<exists>generated_at valid_until.
     parse_timestamp fromiso (dget plan ''generated_at'') = Inr generated_at
     \<and> parse_timestamp fromiso (dget plan ''valid_until'') = Inr valid_until
     \<and> generated_at < valid_until \<and> now < valid_until)"

definition sealed_ok :: "dict \<Rightarrow> bool" where
  "sealed_ok plan \<longleftrightarrow> all_finite (PDict (dpop ''plan_sha'' plan))
     \<and> dget plan ''plan_sha'' = PStr (canonical_hash (PDict (dpop ''plan_sha'' plan)))"

definition plan_ok :: "iso_parser \<Rightarrow> string \<Rightarrow> int \<Rightarrow> dict \<Rightarrow> bool" where
  "plan_ok fromiso current_main_sha now plan \<longleftrightarrow>
     (\<forall>k \<in> set REQUIRED_TOP_FIELDS. dhas plan k)
     \<and> dget plan ''plan_mode'' = PStr ''OBSERVATION_ONLY''
     \<and> (\<exists>s \<in> set ALLOWED_ASSETS. dget plan ''asset'' = PStr s)
     \<and> dget plan ''source_main_sha'' = PStr current_main_sha
     \<and> window_ok fromiso now plan
     \<and> governance_ok (dget plan ''governance'')
     \<and> (\<exists>ls. dget plan ''lines'' = PList (map PDict ls) \<and> lines_ok ls)
     \<and> sealed_ok plan"

lemma sort_Nil_iff [simp]: "sort xs = [] \<longleftrightarrow> xs = []"
  by (metis length_0_conv length_sort)

lemma governance_blockers_Nil: "governance_blockers g = [] \<longleftrightarrow> governance_ok g"
proof (cases g)
  case (PDict gov)
  have "governance_blockers g = [] \<longleftrightarrow>
      filter (\<lambda>(k, v). \<not> py_eq (dget gov k) (PStr v)) REQUIRED_GOVERNANCE = []
      \<and> filter (\<lambda>k. k \<notin> fst ` set REQUIRED_GOVERNANCE) (keys gov) = []"
    by (simp add: PDict governance_blockers_def Let_def)
  also have "\<dots> \<longleftrightarrow> (\<forall>(k, v) \<in> set REQUIRED_GOVERNANCE. dget gov k = PStr v)
      \<and> set (keys gov) \<subseteq> fst ` set REQUIRED_GOVERNANCE"
    unfolding filter_empty_conv by (simp add: case_prod_beta subset_eq)
  finally show ?thesis by (simp add: PDict governance_ok_def)
qed (simp_all add: governance_blockers_def governance_ok_def)

lemma scan_line_id_ok:
  assumes "ls_blockers (scan_line_id i v s) = []"
  shows "ls_blockers s = []" and "is_str v \<and> strip (str_of v) \<noteq> [] \<and> str_of v \<notin> set (ls_seen_ids s)"
    and "scan_line_id i v s = s\<lparr>ls_seen_ids := str_of v # ls_seen_ids s\<rparr>"
  using assms by (auto simp: scan_line_id_def split: if_splits)

lemma scan_line_type_ok:
  assumes "ls_blockers (scan_line_type v s) = []"
  shows "ls_blockers s = []"
    and "is_str v \<and> str_of v \<in> set ALLOWED_LINE_TYPES \<and> str_of v \<notin> set (ls_seen_types s)"
    and "scan_line_type v s = s\<lparr>ls_seen_types := str_of v # ls_seen_types s\<rparr>"
  using assms by (auto simp: scan_line_type_def split: if_splits)

lemma scan_line_ok:
  assumes "scan_line (i, v) s = Inr t" and "ls_blockers t = []"
  obtains line where "v = PDict line" "line_ok line" "ls_blockers s = []"
    "line_id line \<notin> set (ls_seen_ids s)" "line_type line \<notin> set (ls_seen_types s)"
    "t = s\<lparr>ls_seen_ids := line_id line # ls_seen_ids s, ls_seen_types := line_type line # ls_seen_types s\<rparr>"
proof -
  from assms obtain line where v: "v = PDict line"
    by (cases v) (auto simp: scan_line_def Let_def)
  define s1 where "s1 = scan_line_id i (dget line ''line_id'') s"
  define s2 where "s2 = scan_line_type (dget line ''line_type'') s1"
  from assms have fields: "\<forall>k \<in> set REQUIRED_LINE_FIELDS. dhas line k"
    by (auto simp: v scan_line_def Let_def filter_empty_conv split: if_splits)
  then have missing: "filter (\<lambda>k. \<not> dhas line k) REQUIRED_LINE_FIELDS = []" by (simp add: filter_empty_conv)
  define d where "d = dget line ''direction''"
  define s3 where "s3 = (if \<not> is_str d \<or> str_of d \<notin> {''UP'', ''DOWN''}
      then s2\<lparr>ls_blockers := ls_blockers s2 @ [''ILLEGAL_DIRECTION:'' @ py_str d]\<rparr> else s2)"
  from assms(1) obtain bad where bad: "price_invalid (dget line ''price'') = Inr bad"
    and t': "t = (if bad then s3\<lparr>ls_blockers := ls_blockers s3
               @ [''INVALID_PRICE:'' @ py_str (dget line ''line_id'')]\<rparr> else s3)"
    unfolding scan_line_def Let_def v s1_def [symmetric] s2_def [symmetric] d_def [symmetric] prod.case pyval.case
      s3_def [symmetric] missing sort_key_simps if_False not_not ebind_Inr_iff
    by (auto simp: ebind_Inr_iff)
  have nb: "\<not> bad" using assms(2) t' by (cases bad) simp_all
  with bad have price: "price_invalid (dget line ''price'') = Inr False" by simp
  from nb t' have t3: "t = s3" by simp
  with assms(2) have dok: "is_str d \<and> str_of d \<in> {''UP'', ''DOWN''}" by (cases "is_str d \<and> str_of d \<in> {''UP'', ''DOWN''}") (simp_all add: s3_def)
  with t3 have t: "t = s2" by (simp add: s3_def)
  from dok have dir: "dget line ''direction'' = PStr ''UP'' \<or> dget line ''direction'' = PStr ''DOWN''"
    by (cases d) (auto simp: d_def)
  have b2: "ls_blockers (scan_line_type (dget line ''line_type'') s1) = []" using assms(2) t s2_def by simp
  note ty = scan_line_type_ok [OF b2]
  have b1: "ls_blockers (scan_line_id i (dget line ''line_id'') s) = []" using ty(1) s1_def by simp
  note id = scan_line_id_ok [OF b1]
  have s1: "s1 = s\<lparr>ls_seen_ids := line_id line # ls_seen_ids s\<rparr>" using id(3) by (simp add: s1_def line_id_def)
  show thesis
  proof (rule that [of line])
    show "line_ok line" using fields dir price id(2) ty(2) by (simp add: line_ok_def line_id_def line_type_def)
    show "t = s\<lparr>ls_seen_ids := line_id line # ls_seen_ids s, ls_seen_types := line_type line # ls_seen_types s\<rparr>"
      using ty(3) by (simp add: t s2_def s1 line_type_def)
  qed (use v id ty in \<open>simp_all add: line_id_def line_type_def s1\<close>)
qed

lemma efold_scan_ok:
  assumes "efold scan_line ixs s = Inr t" and "ls_blockers t = []"
  shows "\<exists>ls. map snd ixs = map PDict ls \<and> ls_blockers s = [] \<and> list_all line_ok ls
    \<and> ls_seen_ids t = rev (map line_id ls) @ ls_seen_ids s
    \<and> ls_seen_types t = rev (map line_type ls) @ ls_seen_types s
    \<and> (distinct (ls_seen_ids s) \<longrightarrow> distinct (ls_seen_ids t))
    \<and> (distinct (ls_seen_types s) \<longrightarrow> distinct (ls_seen_types t))"
  using assms
proof (induction ixs arbitrary: s)
  case Nil
  then show ?case by simp
next
  case (Cons ix ixs)
  obtain i v where ix: "ix = (i, v)" by (cases ix)
  from Cons.prems(1) obtain u where u: "scan_line (i, v) s = Inr u" and rest: "efold scan_line ixs u = Inr t"
    by (auto simp: ix ebind_Inr_iff)
  from Cons.IH [OF rest Cons.prems(2)] obtain ls where ls: "map snd ixs = map PDict ls" "ls_blockers u = []"
    "list_all line_ok ls" "ls_seen_ids t = rev (map line_id ls) @ ls_seen_ids u"
    "ls_seen_types t = rev (map line_type ls) @ ls_seen_types u"
    "distinct (ls_seen_ids u) \<longrightarrow> distinct (ls_seen_ids t)"
    "distinct (ls_seen_types u) \<longrightarrow> distinct (ls_seen_types t)" by blast
  from scan_line_ok [OF u ls(2)] obtain line where l: "v = PDict line" "line_ok line" "ls_blockers s = []"
    "line_id line \<notin> set (ls_seen_ids s)" "line_type line \<notin> set (ls_seen_types s)"
    "u = s\<lparr>ls_seen_ids := line_id line # ls_seen_ids s, ls_seen_types := line_type line # ls_seen_types s\<rparr>" .
  show ?case
    by (rule exI [of _ "line # ls"]) (use ls l in \<open>auto simp: ix\<close>)
qed

lemma line_blockers_Nil:
  assumes "line_blockers v = Inr []"
  shows "\<exists>ls. v = PList (map PDict ls) \<and> lines_ok ls"
proof -
  let ?s0 = "\<lparr>ls_blockers = [], ls_seen_ids = [], ls_seen_types = []\<rparr>"
  from assms obtain xs t where v: "v = PList xs"
    and t: "efold scan_line (zip [0..<length xs] xs) ?s0 = Inr t" and b: "ls_blockers t = []"
    and miss: "filter (\<lambda>ty. ty \<notin> set (ls_seen_types t)) ALLOWED_LINE_TYPES = []"
    by (cases v) (auto simp: line_blockers_def ebind_Inr_iff Let_def split: if_splits)
  from efold_scan_ok [OF t b] obtain ls where ls: "xs = map PDict ls" "list_all line_ok ls"
    "ls_seen_ids t = rev (map line_id ls)" "ls_seen_types t = rev (map line_type ls)"
    "distinct (ls_seen_ids t)" "distinct (ls_seen_types t)" by auto
  moreover from ls(2) have "set (map line_type ls) \<subseteq> set ALLOWED_LINE_TYPES"
    by (auto simp: list_all_iff line_ok_def)
  moreover from miss have "set ALLOWED_LINE_TYPES \<subseteq> set (map line_type ls)"
    by (auto simp: filter_empty_conv ls(4))
  ultimately show ?thesis by (auto simp: v lines_ok_def)
qed

lemma calculate_plan_sha_Inr:
  "calculate_plan_sha plan = Inr h \<longleftrightarrow>
   all_finite (PDict (dpop ''plan_sha'' plan)) \<and> h = canonical_hash (PDict (dpop ''plan_sha'' plan))"
  by (auto simp: calculate_plan_sha_def canonical_plan_payload_def json_strict_def canonical_hash_def)

lemma sha_blockers_Nil: "sha_blockers plan = [] \<longleftrightarrow> sealed_ok plan"
  by (auto simp: sha_blockers_def sealed_ok_def calculate_plan_sha_Inr split: sum.splits exn.splits)
    (auto simp: calculate_plan_sha_def canonical_plan_payload_def json_strict_def split: if_splits)

lemma time_blockers_Nil: "time_blockers fromiso now plan = [] \<longleftrightarrow> window_ok fromiso now plan"
  by (auto simp: time_blockers_def window_ok_def split: sum.splits if_splits)

lemma scan_line_accepts:
  assumes "line_ok line" "line_id line \<notin> set (ls_seen_ids s)" "line_type line \<notin> set (ls_seen_types s)"
  shows "scan_line (i, PDict line) s = Inr (s\<lparr>ls_seen_ids := line_id line # ls_seen_ids s,
           ls_seen_types := line_type line # ls_seen_types s\<rparr>)"
proof -
  have missing: "filter (\<lambda>k. \<not> dhas line k) REQUIRED_LINE_FIELDS = []"
    using assms(1) by (simp add: line_ok_def filter_empty_conv)
  have dir: "is_str (dget line ''direction'') \<and> str_of (dget line ''direction'') \<in> {''UP'', ''DOWN''}"
    using assms(1) by (auto simp: line_ok_def)
  show ?thesis using assms dir
    by (simp add: scan_line_def Let_def missing scan_line_id_def scan_line_type_def line_ok_def line_id_def line_type_def)
qed

lemma efold_scan_accepts:
  assumes "list_all line_ok ls" "length is = length ls"
    "distinct (map line_id ls @ ls_seen_ids s)" "distinct (map line_type ls @ ls_seen_types s)"
  shows "efold scan_line (zip is (map PDict ls)) s =
    Inr (s\<lparr>ls_seen_ids := rev (map line_id ls) @ ls_seen_ids s, ls_seen_types := rev (map line_type ls) @ ls_seen_types s\<rparr>)"
  using assms
proof (induction ls arbitrary: s "is")
  case Nil
  then show ?case by simp
next
  case (Cons line ls)
  then obtain i js where "is": "is = i # js" by (cases "is") auto
  let ?u = "s\<lparr>ls_seen_ids := line_id line # ls_seen_ids s, ls_seen_types := line_type line # ls_seen_types s\<rparr>"
  have "scan_line (i, PDict line) s = Inr ?u" using Cons.prems by (intro scan_line_accepts) auto
  moreover have "efold scan_line (zip js (map PDict ls)) ?u =
      Inr (?u\<lparr>ls_seen_ids := rev (map line_id ls) @ ls_seen_ids ?u, ls_seen_types := rev (map line_type ls) @ ls_seen_types ?u\<rparr>)"
    using Cons.prems by (intro Cons.IH) (auto simp: "is")
  ultimately show ?case by (simp add: "is")
qed

lemma line_blockers_iff: "line_blockers v = Inr [] \<longleftrightarrow> (\<exists>ls. v = PList (map PDict ls) \<and> lines_ok ls)"
proof (rule iffI)
  assume "line_blockers v = Inr []"
  then show "\<exists>ls. v = PList (map PDict ls) \<and> lines_ok ls" by (rule line_blockers_Nil)
next
  assume "\<exists>ls. v = PList (map PDict ls) \<and> lines_ok ls"
  then obtain ls where v: "v = PList (map PDict ls)" and ok: "lines_ok ls" by blast
  let ?s0 = "\<lparr>ls_blockers = [], ls_seen_ids = [], ls_seen_types = []\<rparr>"
  have "efold scan_line (zip [0..<length ls] (map PDict ls)) ?s0 =
      Inr (?s0\<lparr>ls_seen_ids := rev (map line_id ls) @ ls_seen_ids ?s0, ls_seen_types := rev (map line_type ls) @ ls_seen_types ?s0\<rparr>)"
    using ok by (intro efold_scan_accepts) (simp_all add: lines_ok_def)
  moreover have "filter (\<lambda>t. t \<notin> line_type ` set ls) ALLOWED_LINE_TYPES = []"
    using ok by (simp add: filter_empty_conv lines_ok_def)
  ultimately show "line_blockers v = Inr []" by (simp add: line_blockers_def v Let_def)
qed

lemma validate_commander_plan_plan_ok:
  "validate_commander_plan fromiso v sha now = Inr [] \<longleftrightarrow> (\<exists>plan. v = PDict plan \<and> plan_ok fromiso sha now plan)"
proof (cases v)
  case (PDict plan)
  have missing: "(filter (\<lambda>k. \<not> dhas plan k) REQUIRED_TOP_FIELDS = []) \<longleftrightarrow> (\<forall>k \<in> set REQUIRED_TOP_FIELDS. dhas plan k)"
    by (simp add: filter_empty_conv)
  have ex: "(\<exists>plan'. PDict plan = PDict plan' \<and> plan_ok fromiso sha now plan') \<longleftrightarrow> plan_ok fromiso sha now plan" by simp
  show ?thesis
    unfolding PDict ex validate_commander_plan_def plan_ok_def line_blockers_iff [symmetric] Let_def
    by (auto simp: missing is_str_iff ebind_Inr_iff governance_blockers_Nil sha_blockers_Nil time_blockers_Nil)
qed (simp_all add: validate_commander_plan_def)

text \<open>C3: the validator passes exactly the plans that are locked to observation: every required
  field present, mode OBSERVATION_ONLY, a known asset, the current main SHA, an open time window,
  governance of exactly the four required fields, one line of each line type with distinct
  identifiers, legal directions and positive finite prices, and a seal that is the digest of the
  rest of the plan.\<close>

theorem validate_commander_plan_iff:
  "validate_commander_plan fromiso v sha now = Inr [] \<longleftrightarrow> (\<exists>plan. v = PDict plan \<and> plan_ok fromiso sha now plan)"
  by (rule validate_commander_plan_plan_ok)

section \<open>The seal of a plan\<close>

interpretation plan_seal: sealed_record "dpop ''plan_sha''" "\<lambda>plan. dget plan ''plan_sha''"
  "\<lambda>b. canonical_hash (PDict b)" seal_commander_plan
  by unfold_locales
    (auto simp: seal_commander_plan_def ebind_Inr_iff calculate_plan_sha_Inr)

lemma sealed_ok_verified:
  "sealed_ok plan \<longleftrightarrow> all_finite (PDict (dpop ''plan_sha'' plan)) \<and> plan_seal.verified plan"
  by (simp add: sealed_ok_def plan_seal.verified_def)

text \<open>C4: sealing a plan makes its seal check pass, and a plan edited afterwards under the same
  seal is blocked as a mismatch unless the digests of the two bodies coincide.\<close>

theorem sealed_plan_tamper_evident:
  assumes "seal_commander_plan plan = Inr sealed" and "dget edited ''plan_sha'' = dget sealed ''plan_sha''"
    and "all_finite (PDict (dpop ''plan_sha'' edited))"
  shows "sha_blockers sealed = [] \<and> sha_blockers edited =
    (if canonical_hash (PDict (dpop ''plan_sha'' edited)) = canonical_hash (PDict (dpop ''plan_sha'' plan))
     then [] else [''PLAN_SHA_MISMATCH''])"
proof -
  let ?h = "canonical_hash (PDict (dpop ''plan_sha'' edited))"
  from assms(1) have fin: "all_finite (PDict (dpop ''plan_sha'' plan))"
    by (auto simp: seal_commander_plan_def ebind_Inr_iff calculate_plan_sha_Inr)
  have "sha_blockers sealed = []"
    using plan_seal.seal_verified [OF assms(1)] plan_seal.body_seal [OF assms(1)] fin
    by (simp add: sha_blockers_Nil sealed_ok_verified)
  moreover have c: "calculate_plan_sha edited = Inr ?h" using assms(3) by (simp add: calculate_plan_sha_Inr)
  have "sha_blockers edited = (if dget edited ''plan_sha'' = PStr ?h then [] else [''PLAN_SHA_MISMATCH''])"
    unfolding sha_blockers_def c by simp
  moreover have "dget edited ''plan_sha'' = PStr ?h \<longleftrightarrow> ?h = canonical_hash (PDict (dpop ''plan_sha'' plan))"
    using plan_seal.edit_verified_iff [OF assms(1,2)] by (simp add: plan_seal.verified_def)
  ultimately show ?thesis by simp
qed

definition demo_plan_body :: dict where
  "demo_plan_body = [(''plan_id'', PStr ''P1''), (''asset'', PStr ''MSTR'')]"

lemma dpop_demo_plan_body: "dpop ''plan_sha'' demo_plan_body = demo_plan_body"
  by (simp add: dpop_absent demo_plan_body_def)

lemma seal_demo_plan_body:
  "seal_commander_plan demo_plan_body =
     Inr (dset ''plan_sha'' (PStr (canonical_hash (PDict demo_plan_body))) demo_plan_body)"
  using calculate_plan_sha_Inr [of demo_plan_body "canonical_hash (PDict demo_plan_body)"]
  by (simp add: seal_commander_plan_def dpop_demo_plan_body) (simp add: demo_plan_body_def)

theorem sealed_plan_tamper_evident_witness:
  "sha_blockers (dset ''plan_sha'' (PStr (canonical_hash (PDict demo_plan_body))) demo_plan_body) = []"
  using sealed_plan_tamper_evident [OF seal_demo_plan_body refl]
  by (simp add: dpop_demo_plan_body) (simp add: demo_plan_body_def)

end
