(* ===== verification/Commander_Adapter.thy ===== *)
theory Commander_Adapter
  imports Commander_Plan
begin

text \<open>
  The adapter that arms a verified plan (\<^verbatim>\<open>CommanderPlanAdapter\<close>) and the IBKR bridge over
  it. The adapter's state is the plan, the observation mode, one engine per line and the
  events so far; the current channel is set only while an observation is dispatched, so it
  is an argument of the emitter. An operation that raises has no successor state.
\<close>

section \<open>The adapter\<close>

datatype ts_arg = TsStr string | TsTime datetime

record adapter =
  ad_plan :: dict
  ad_mode :: string
  ad_engines :: "engine list"
  ad_events :: "pyval list"

definition TEST_ONLY :: string where "TEST_ONLY = ''TEST_ONLY''"
definition SIMULATION_ONLY :: string where "SIMULATION_ONLY = ''SIMULATION_ONLY''"
definition IBKR_LIVE :: string where "IBKR_LIVE = ''IBKR_LIVE''"
definition VERIFIED_COMMANDER_PLAN :: string where "VERIFIED_COMMANDER_PLAN = ''VERIFIED_COMMANDER_PLAN''"
definition GATE6A_CHECKPOINT_SCHEMA_VERSION :: string where
  "GATE6A_CHECKPOINT_SCHEMA_VERSION = ''CRT_COMMANDER_GATE6A_STATE_V0.1''"

definition plan_lines :: "dict \<Rightarrow> dict list" where
  "plan_lines plan = map dict_of (list_of (dget plan ''lines''))"

definition offline_blockers :: "dict \<Rightarrow> string list" where
  "offline_blockers plan =
     (if py_eq (dget plan ''price_classification'') (PStr TEST_ONLY) then [] else [''OFFLINE_PLAN_NOT_TEST_ONLY''])
     @ map (\<lambda>line. ''OFFLINE_LINE_NOT_TEST_ONLY:'' @ py_str (dget line ''line_id''))
         (filter (\<lambda>line. \<not> py_eq (dget line ''price_classification'') (PStr TEST_ONLY)) (plan_lines plan))"

text \<open>The Gate 6A defaults: a band of 20 bps, 3 of 4 closes.\<close>

definition arm_line :: "dict \<Rightarrow> engine res" where
  "arm_line line = level_engine_init (dget line ''price'') (dget line ''direction'') (PInt 20) (PInt 3) (PInt 4)"

definition gate6a_state :: "adapter \<Rightarrow> dict" where
  "gate6a_state a =
    [(''schema_version'', PStr GATE6A_CHECKPOINT_SCHEMA_VERSION),
     (''plan_sha'', dget (ad_plan a) ''plan_sha''),
     (''asset'', dget (ad_plan a) ''asset''),
     (''lines'', PDict (map (\<lambda>(line, e). (str_of (dget line ''line_id''), PDict (snapshot_state e)))
        (zip (plan_lines (ad_plan a)) (ad_engines a))))]"

definition restore_gate6a_state :: "adapter \<Rightarrow> pyval \<Rightarrow> adapter res" where
  "restore_gate6a_state a payload =
     (case payload of
       PDict p \<Rightarrow>
         if set (keys p) \<noteq> {''schema_version'', ''plan_sha'', ''asset'', ''lines''}
           then Inl (ValueError ''Commander Gate 6A state fields mismatch'')
         else if \<not> py_eq (dget p ''schema_version'') (PStr GATE6A_CHECKPOINT_SCHEMA_VERSION)
           then Inl (ValueError ''Commander Gate 6A state schema mismatch'')
         else if \<not> py_eq (dget p ''plan_sha'') (dget (ad_plan a) ''plan_sha'')
           then Inl (ValueError ''Commander Gate 6A state plan mismatch'')
         else if \<not> py_eq (dget p ''asset'') (dget (ad_plan a) ''asset'')
           then Inl (ValueError ''Commander Gate 6A state asset mismatch'')
         else (case dget p ''lines'' of
           PDict ls \<Rightarrow>
             if set (keys ls) \<noteq> (\<lambda>line. str_of (dget line ''line_id'')) ` set (plan_lines (ad_plan a))
               then Inl (ValueError ''Commander Gate 6A line identity mismatch'')
             else ebind (emap (\<lambda>(line, e). restore_state e (dget ls (str_of (dget line ''line_id''))))
                     (zip (plan_lines (ad_plan a)) (ad_engines a))) (\<lambda>es. Inr (a\<lparr>ad_engines := es\<rparr>))
         | _ \<Rightarrow> Inl (ValueError ''Commander Gate 6A line state unavailable''))
     | _ \<Rightarrow> Inl (ValueError ''Commander Gate 6A state must be an object''))"

definition adapter_init ::
  "iso_parser \<Rightarrow> pyval \<Rightarrow> string \<Rightarrow> int \<Rightarrow> string \<Rightarrow> pyval option \<Rightarrow> adapter res" where
  "adapter_init fromiso plan current_main_sha now mode gate6a =
     ebind (validate_commander_plan fromiso plan current_main_sha now) (\<lambda>blockers.
     if blockers \<noteq> [] then Inl (Custom ''CommanderPlanBlocked'' blockers)
     else if mode \<notin> {TEST_ONLY, IBKR_LIVE} then Inl (ValueError (''unsupported observation_mode: '' @ mode))
     else if mode = TEST_ONLY \<and> offline_blockers (dict_of plan) \<noteq> []
       then Inl (Custom ''CommanderPlanBlocked'' (offline_blockers (dict_of plan)))
     else ebind (emap arm_line (plan_lines (dict_of plan))) (\<lambda>es.
       (let a = \<lparr>ad_plan = dict_of plan, ad_mode = mode, ad_engines = es, ad_events = []\<rparr>
        in case gate6a of None \<Rightarrow> Inr a | Some st \<Rightarrow> restore_gate6a_state a st)))"

definition arm_offline :: "iso_parser \<Rightarrow> pyval \<Rightarrow> string \<Rightarrow> int \<Rightarrow> pyval option \<Rightarrow> adapter res" where
  "arm_offline fromiso plan sha now gate6a = adapter_init fromiso plan sha now TEST_ONLY gate6a"

definition arm_live :: "iso_parser \<Rightarrow> pyval \<Rightarrow> string \<Rightarrow> int \<Rightarrow> pyval option \<Rightarrow> adapter res" where
  "arm_live fromiso plan sha now gate6a = adapter_init fromiso plan sha now IBKR_LIVE gate6a"

definition level_classification :: "dict \<Rightarrow> dict \<Rightarrow> pyval" where
  "level_classification plan line = dget_or line ''price_classification''
     (dget_or plan ''price_classification'' (PStr VERIFIED_COMMANDER_PLAN))"

text \<open>The emitter of one line: the event an engine's report becomes.\<close>

definition emit_event :: "dict \<Rightarrow> string \<Rightarrow> string \<Rightarrow> dict \<Rightarrow> emission \<Rightarrow> pyval res" where
  "emit_event plan mode channel line em =
     (case em of (et, price, ts) \<Rightarrow>
       (let lc = level_classification plan line in
        ebind (if hashable lc then Inr (lc = PStr TEST_ONLY \<or> mode = TEST_ONLY)
               else Inl (TypeError ''unhashable type'')) (\<lambda>test.
        ebind (float_of_num (dget line ''price'')) (\<lambda>level.
        (let combined = (if test then TEST_ONLY
               else if py_eq lc (PStr SIMULATION_ONLY) then ''SEALED_SIMULATION_X_IBKR_LIVE''
               else ''VERIFIED_PLAN_X_IBKR_LIVE'')
         in Inr (PDict [
           (''plan_id'', dget plan ''plan_id''),
           (''plan_sha'', dget plan ''plan_sha''),
           (''asset'', dget plan ''asset''),
           (''line_id'', dget line ''line_id''),
           (''line_type'', dget line ''line_type''),
           (''level_price'', PFloat level),
           (''observed_price'', PFloat price),
           (''event_type'', PStr (event_str et)),
           (''timestamp'', PStr ts),
           (''observation_channel'', PStr channel),
           (''event_purpose'', PStr ''WAKE_GPT_REANALYSIS_ONLY''),
           (''price_classification'', PStr combined),
           (''level_price_classification'', lc),
           (''observed_price_classification'', PStr mode),
           (''engineering_parameters'', PStr TEST_ONLY),
           (''price_reaching_is_not_action_trigger'', PBool True),
           (''action_output'', PStr ''NONE''),
           (''machine_execution'', PStr ''FORBIDDEN''),
           (''external_action_authority'', PStr ''NONE''),
           (''capital_decision_authority'', PStr ''USER_ONLY''),
           (''production'', PStr ''NOT_APPROVED'')]))))))"

definition observation_ts :: "iso_parser \<Rightarrow> ts_arg \<Rightarrow> string res" where
  "observation_ts fromiso ts =
     (case ts of
       TsStr s \<Rightarrow> (case parse_timestamp fromiso (PStr s) of
           Inl msg \<Rightarrow> Inl (ValueError msg) | Inr t \<Rightarrow> Inr (iso_z t))
     | TsTime (Aware t) \<Rightarrow> Inr (iso_z t)
     | TsTime (Naive _) \<Rightarrow> Inl (ValueError ''timestamp_missing_timezone''))"

definition check_observation ::
  "iso_parser \<Rightarrow> adapter \<Rightarrow> pyval \<Rightarrow> ts_arg \<Rightarrow> string \<Rightarrow> (pyfloat \<times> string) res" where
  "check_observation fromiso a price ts mode =
     (if mode \<noteq> ad_mode a then Inl (ValueError (''ADAPTER_MODE_MISMATCH:'' @ ad_mode a @ '':'' @ mode))
      else ebind (positive_price price ''observed_price'') (\<lambda>p.
        ebind (observation_ts fromiso ts) (\<lambda>t. Inr (p, t))))"

text \<open>One engine consumes the observation; its reports become events of its line.\<close>

definition dispatch_line ::
  "dict \<Rightarrow> string \<Rightarrow> string \<Rightarrow> pyfloat \<Rightarrow> string \<Rightarrow> bool \<Rightarrow> dict \<times> engine \<Rightarrow> (engine \<times> pyval list) res" where
  "dispatch_line plan mode channel price ts confirm le =
     (case le of (line, e) \<Rightarrow>
       ebind (on_price e (PFloat price) ts) (\<lambda>(e1, ems1).
       ebind (emap (emit_event plan mode channel line) ems1) (\<lambda>evs1.
       if \<not> confirm then Inr (e1, evs1)
       else ebind (on_5s_close e1 (PFloat price) ts) (\<lambda>(e2, ems2).
         ebind (emap (emit_event plan mode channel line) ems2) (\<lambda>evs2.
         Inr (e2, evs1 @ evs2))))))"

definition dispatch_to_engines ::
  "adapter \<Rightarrow> string \<Rightarrow> pyfloat \<Rightarrow> string \<Rightarrow> bool \<Rightarrow> adapter res" where
  "dispatch_to_engines a channel price ts confirm =
     ebind (emap (dispatch_line (ad_plan a) (ad_mode a) channel price ts confirm)
              (zip (plan_lines (ad_plan a)) (ad_engines a))) (\<lambda>rs.
       Inr (a\<lparr>ad_engines := map fst rs, ad_events := ad_events a @ concat (map snd rs)\<rparr>))"

definition on_test_last :: "iso_parser \<Rightarrow> adapter \<Rightarrow> pyval \<Rightarrow> ts_arg \<Rightarrow> string \<Rightarrow> adapter res" where
  "on_test_last fromiso a price ts classification =
     (if classification \<noteq> TEST_ONLY then Inl (ValueError ''GATE_6C2_OFFLINE_REQUIRES_TEST_ONLY'')
      else ebind (check_observation fromiso a price ts classification) (\<lambda>(p, t).
        dispatch_to_engines a ''TEST_LAST'' p t False))"

definition on_test_5s_close :: "iso_parser \<Rightarrow> adapter \<Rightarrow> pyval \<Rightarrow> ts_arg \<Rightarrow> string \<Rightarrow> adapter res" where
  "on_test_5s_close fromiso a price ts classification =
     (if classification \<noteq> TEST_ONLY then Inl (ValueError ''GATE_6C2_OFFLINE_REQUIRES_TEST_ONLY'')
      else ebind (check_observation fromiso a price ts classification) (\<lambda>(p, t).
        dispatch_to_engines a ''TEST_5S_CLOSE'' p t True))"

definition on_live_last :: "iso_parser \<Rightarrow> adapter \<Rightarrow> pyval \<Rightarrow> ts_arg \<Rightarrow> adapter res" where
  "on_live_last fromiso a price ts =
     ebind (check_observation fromiso a price ts IBKR_LIVE) (\<lambda>(p, t).
       dispatch_to_engines a ''IBKR_LAST'' p t False)"

definition on_live_5s_close :: "iso_parser \<Rightarrow> adapter \<Rightarrow> pyval \<Rightarrow> ts_arg \<Rightarrow> adapter res" where
  "on_live_5s_close fromiso a price ts =
     ebind (check_observation fromiso a price ts IBKR_LIVE) (\<lambda>(p, t).
       dispatch_to_engines a ''IBKR_5S_CLOSE'' p t True)"

section \<open>The IBKR bridge\<close>

definition ASSET_ORDER :: "string list" where
  "ASSET_ORDER = [''MSTR'', ''ASST'', ''STRC'', ''SATA'']"

text \<open>
  \<^verbatim>\<open>datetime.fromtimestamp(value / 1000, tz=utc)\<close>: the float quotient, its fraction
  rounded to microseconds, and the years \<^verbatim>\<open>datetime\<close> can hold.
\<close>

definition utc_from_ms :: "pyval \<Rightarrow> int res" where
  "utc_from_ms v =
     (case v of
       PInt i \<Rightarrow>
         if i \<le> 0 then Inl (ValueError ''observed_at_ms must be a positive integer'')
         else (case to_float (of_int i / 1000) of
           Fin q \<Rightarrow>
             (let s = \<lfloor>q\<rfloor>; us = round_half_even (rnd64 ((q - of_int s) * 1000000))
              in if s \<ge> 253402300800 then Inl (ValueError ''year is out of range'')
                 else Inr (s * 1000000 + us))
         | _ \<Rightarrow> Inl OverflowError)
     | _ \<Rightarrow> Inl (ValueError ''observed_at_ms must be a positive integer''))"

definition assert_live_market_data_types :: "pyval \<Rightarrow> unit res" where
  "assert_live_market_data_types m =
     (case m of
       PNone \<Rightarrow> Inr ()
     | PDict d \<Rightarrow>
         if keys d \<noteq> ASSET_ORDER then Inl (ValueError ''IBKR market data type proof asset order mismatch'')
         else if list_ex (\<lambda>asset. \<not> py_eq (dget d asset) (PInt 1)) ASSET_ORDER
           then Inl (ValueError ''IBKR observation market data is not fully live'')
         else Inr ()
     | _ \<Rightarrow> Inl (ValueError ''IBKR market data type proof must be an object''))"

definition EVENT_REQUIRED :: "string list" where
  "EVENT_REQUIRED = [''plan_id'', ''plan_sha'', ''asset'', ''line_id'', ''line_type'', ''level_price'',
     ''observed_price'', ''event_type'', ''timestamp'']"

definition EVENT_GOVERNANCE :: "(string \<times> pyval) list" where
  "EVENT_GOVERNANCE = [(''action_output'', PStr ''NONE''), (''machine_execution'', PStr ''FORBIDDEN''),
     (''external_action_authority'', PStr ''NONE''), (''capital_decision_authority'', PStr ''USER_ONLY''),
     (''price_reaching_is_not_action_trigger'', PBool True),
     (''event_purpose'', PStr ''WAKE_GPT_REANALYSIS_ONLY'')]"

definition commander_event_id :: "dict \<Rightarrow> string res" where
  "commander_event_id ev =
     (let missing = sort (filter (\<lambda>k. \<not> dhas ev k) EVENT_REQUIRED) in
      if missing \<noteq> [] then Inl (ValueError (''commander event fields missing: '' @ join '','' missing))
      else (case List.find (\<lambda>(k, v). \<not> py_eq (dget ev k) v) EVENT_GOVERNANCE of
          Some (k, v) \<Rightarrow> Inl (ValueError (''commander event '' @ k @ '' must remain '' @ py_repr v))
        | None \<Rightarrow> canonical_hash_strict (PDict ev)))"

definition build_commander_reanalysis_wake :: "pyval \<Rightarrow> dict res" where
  "build_commander_reanalysis_wake event =
     (case event of
       PDict ev \<Rightarrow>
         ebind (commander_event_id ev) (\<lambda>eid.
         (let reason = ''COMMANDER_LEVEL_OBSERVATION:'' @ eid in
          Inr [(''state'', PStr ''REANALYSIS_REQUESTED''),
            (''reason'', PStr reason),
            (''metric'', PStr ''commander_level_event''),
            (''input_family'', PStr ''COMMANDER_PLAN_OBSERVATION''),
            (''current_value'', dget ev ''observed_price''),
            (''previous_value'', PNone),
            (''percent_change'', PNone),
            (''historical_percentile'', PNone),
            (''baseline_count'', PInt 0),
            (''wake_sources'', PList [PStr ''COMMANDER_PLAN_OBSERVATION'']),
            (''wake_reasons'', PList [PStr reason]),
            (''analyst_reanalysis_requested'', PBool True),
            (''commander_event_id'', PStr eid),
            (''commander_event'', PDict ev),
            (''event_purpose'', PStr ''WAKE_GPT_REANALYSIS_ONLY''),
            (''price_reaching_is_not_action_trigger'', PBool True),
            (''action_output'', PStr ''NONE''),
            (''machine_execution'', PStr ''FORBIDDEN''),
            (''external_action_authority'', PStr ''NONE''),
            (''external_action_performed'', PBool False),
            (''capital_decision_authority'', PStr ''USER_ONLY''),
            (''production'', PStr ''NOT_APPROVED'')]))
     | _ \<Rightarrow> Inl (ValueError ''commander event must be an object''))"

record bridge =
  br_adapter :: adapter
  br_last_count :: nat
  br_close_count :: nat
  br_ignored_count :: nat

definition bridge_init :: "adapter \<Rightarrow> bridge res" where
  "bridge_init a =
     (if ad_mode a \<noteq> IBKR_LIVE then Inl (ValueError ''IBKR bridge requires an IBKR_LIVE adapter'')
      else Inr \<lparr>br_adapter = a, br_last_count = 0, br_close_count = 0, br_ignored_count = 0\<rparr>)"

definition bridge_arm :: "iso_parser \<Rightarrow> pyval \<Rightarrow> string \<Rightarrow> int \<Rightarrow> pyval option \<Rightarrow> bridge res" where
  "bridge_arm fromiso plan sha now gate6a = ebind (arm_live fromiso plan sha now gate6a) bridge_init"

definition latest_reanalysis_wake :: "bridge \<Rightarrow> dict option res" where
  "latest_reanalysis_wake b =
     (if ad_events (br_adapter b) = [] then Inr None
      else ebind (build_commander_reanalysis_wake (last (ad_events (br_adapter b)))) (\<lambda>w. Inr (Some w)))"

definition on_ibkr_last ::
  "iso_parser \<Rightarrow> bridge \<Rightarrow> pyval \<Rightarrow> pyval \<Rightarrow> pyval \<Rightarrow> pyval \<Rightarrow> bridge res" where
  "on_ibkr_last fromiso b asset price at_ms mdt =
     ebind (assert_live_market_data_types mdt) (\<lambda>_.
     if \<not> py_eq asset (dget (ad_plan (br_adapter b)) ''asset'')
       then Inr (b\<lparr>br_ignored_count := br_ignored_count b + 1\<rparr>)
     else ebind (utc_from_ms at_ms) (\<lambda>t.
       ebind (on_live_last fromiso (br_adapter b) price (TsTime (Aware t))) (\<lambda>a.
       Inr (b\<lparr>br_adapter := a, br_last_count := br_last_count b + 1\<rparr>))))"

definition on_ibkr_5s_close ::
  "iso_parser \<Rightarrow> bridge \<Rightarrow> pyval \<Rightarrow> pyval \<Rightarrow> pyval \<Rightarrow> pyval \<Rightarrow> bridge res" where
  "on_ibkr_5s_close fromiso b asset price at_ms mdt =
     ebind (assert_live_market_data_types mdt) (\<lambda>_.
     if \<not> py_eq asset (dget (ad_plan (br_adapter b)) ''asset'')
       then Inr (b\<lparr>br_ignored_count := br_ignored_count b + 1\<rparr>)
     else ebind (utc_from_ms at_ms) (\<lambda>t.
       ebind (on_live_5s_close fromiso (br_adapter b) price (TsTime (Aware t))) (\<lambda>a.
       Inr (b\<lparr>br_adapter := a, br_close_count := br_close_count b + 1\<rparr>))))"

definition gate_summary :: "bridge \<Rightarrow> dict" where
  "gate_summary b =
    [(''gate'', PStr ''GATE_6C3''),
     (''state'', PStr ''ARMED_OBSERVATION_ONLY''),
     (''asset'', dget (ad_plan (br_adapter b)) ''asset''),
     (''last_observation_count'', PInt (int (br_last_count b))),
     (''bar_close_observation_count'', PInt (int (br_close_count b))),
     (''ignored_asset_observation_count'', PInt (int (br_ignored_count b))),
     (''observation_event_count'', PInt (int (length (ad_events (br_adapter b))))),
     (''reanalysis_wake_ready'', PBool (ad_events (br_adapter b) \<noteq> [])),
     (''event_purpose'', PStr ''WAKE_GPT_REANALYSIS_ONLY''),
     (''price_reaching_is_not_action_trigger'', PBool True),
     (''action_output'', PStr ''NONE''),
     (''machine_execution'', PStr ''FORBIDDEN''),
     (''external_action_authority'', PStr ''NONE''),
     (''capital_decision_authority'', PStr ''USER_ONLY''),
     (''production'', PStr ''NOT_APPROVED'')]"

section \<open>What the engines keep\<close>

lemma same_identity_refl [simp]: "same_identity e e"
  by (simp add: same_identity_def)

lemma on_price_reports:
  assumes "on_price e v ts = Inr (e', ems)"
  shows "same_identity e' e"
    and "\<forall>em \<in> set ems. positive_price v ''observed_price'' = Inr (fst (snd em)) \<and> snd (snd em) = ts"
  using assms
  by (auto elim!: on_price_E simp: price_crossing_def price_retest_def same_identity_def split: if_splits)

lemma on_5s_close_reports:
  assumes "on_5s_close e v ts = Inr (e', ems)"
  shows "same_identity e' e"
    and "\<forall>em \<in> set ems. positive_price v ''close'' = Inr (fst (snd em)) \<and> snd (snd em) = ts"
  using assms by (auto simp: on_5s_close_def ebind_Inr_iff same_identity_def Let_def split: if_splits)

lemma on_price_total:
  assumes "engine_inv e" and "pos_fin p"
  shows "\<exists>e' ems. on_price e (PFloat p) ts = Inr (e', ems)"
proof -
  from assms(1) obtain d where "distance_bps e p = Inr d"
    using distance_bps_total [of e p] by (auto simp: engine_inv_defs)
  then show ?thesis
    by (simp add: on_price_def positive_price_PFloat [OF assms(2)] case_prod_beta Let_def)
qed

lemma on_5s_close_total:
  assumes "pos_fin p"
  shows "\<exists>e' ems. on_5s_close e (PFloat p) ts = Inr (e', ems)"
  by (simp add: on_5s_close_def positive_price_PFloat [OF assms] Let_def)

section \<open>The invariant of an armed adapter\<close>

definition armed_engine :: "dict \<Rightarrow> engine \<Rightarrow> bool" where
  "armed_engine line e \<longleftrightarrow> engine_inv e \<and> (\<exists>e0. arm_line line = Inr e0 \<and> same_identity e e0)"

definition event_locked :: "dict \<Rightarrow> string \<Rightarrow> pyval \<Rightarrow> bool" where
  "event_locked plan mode v \<longleftrightarrow> (\<exists>ev. v = PDict ev
     \<and> (\<forall>(k, x) \<in> set EVENT_GOVERNANCE. dget ev k = x) \<and> (\<forall>k \<in> set EVENT_REQUIRED. dhas ev k)
     \<and> dget ev ''production'' = PStr ''NOT_APPROVED''
     \<and> dget ev ''plan_sha'' = dget plan ''plan_sha'' \<and> dget ev ''asset'' = dget plan ''asset''
     \<and> (\<exists>line \<in> set (plan_lines plan). dget ev ''line_id'' = dget line ''line_id''
          \<and> dget ev ''line_type'' = dget line ''line_type'')
     \<and> (\<exists>p. dget ev ''observed_price'' = PFloat p \<and> pos_fin p)
     \<and> (mode = TEST_ONLY \<longrightarrow> dget ev ''price_classification'' = PStr TEST_ONLY)
     \<and> all_finite v)"

definition plan_armable :: "dict \<Rightarrow> bool" where
  "plan_armable plan \<longleftrightarrow> sealed_ok plan \<and> is_str (dget plan ''asset'') \<and> lines_ok (plan_lines plan)
     \<and> dget plan ''lines'' = PList (map PDict (plan_lines plan))"

definition adapter_inv :: "adapter \<Rightarrow> bool" where
  "adapter_inv a \<longleftrightarrow> plan_armable (ad_plan a)
     \<and> list_all2 armed_engine (plan_lines (ad_plan a)) (ad_engines a)
     \<and> list_all (event_locked (ad_plan a) (ad_mode a)) (ad_events a)"

lemma all_finite_items_map_of: "all_finite_items d \<Longrightarrow> map_of d k = Some v \<Longrightarrow> all_finite v"
  by (induction d) (auto split: if_splits)

lemma all_finite_dget: "all_finite (PDict d) \<Longrightarrow> all_finite (dget d k)"
  by (auto simp: dget_def split: option.splits dest: all_finite_items_map_of)

lemma all_finite_dget_or: "all_finite (PDict d) \<Longrightarrow> all_finite v \<Longrightarrow> all_finite (dget_or d k v)"
  by (auto simp: dget_or_def split: option.splits dest: all_finite_items_map_of)

lemma all_finite_list_mem: "all_finite_list xs \<Longrightarrow> x \<in> set xs \<Longrightarrow> all_finite x"
  by (induction xs) auto

lemma plan_field_finite: "plan_armable plan \<Longrightarrow> all_finite (dget plan k)"
  using all_finite_dget [of "dpop ''plan_sha'' plan" k]
  by (cases "k = ''plan_sha''") (simp_all add: plan_armable_def sealed_ok_def)

lemma plan_field_or_finite: "plan_armable plan \<Longrightarrow> all_finite v \<Longrightarrow> all_finite (dget_or plan k v)"
  using plan_field_finite [of plan k] by (simp add: dget_def dget_or_def split: option.splits)

lemma plan_line_finite:
  assumes "plan_armable plan" and "line \<in> set (plan_lines plan)"
  shows "all_finite (PDict line)"
proof -
  have "all_finite (dget plan ''lines'')" using assms(1) by (rule plan_field_finite)
  then have "all_finite_list (map PDict (plan_lines plan))" using assms(1) by (simp add: plan_armable_def)
  then show ?thesis by (rule all_finite_list_mem) (simp add: assms(2))
qed

lemma float_of_num_finite_line:
  assumes "price_invalid v = Inr False"
  shows "\<exists>x. positive_price v field = Inr x \<and> float_of_num v = Inr x"
proof -
  from assms have v: "\<not> is_bool v" "is_num v" "math_isfinite v = Inr True" "\<not> num_le v (PInt 0)"
    by (auto simp: price_invalid_def ebind_Inr_iff split: if_splits)
  then obtain x where "float_of_num v = Inr x" by (auto simp: math_isfinite_def ebind_Inr_iff)
  with v show ?thesis by (simp add: positive_price_def)
qed

lemma arm_line_total:
  assumes "line_ok line"
  shows "\<exists>e. arm_line line = Inr e \<and> float_of_num (dget line ''price'') = Inr (le_level e)
    \<and> PStr (direction_str (le_direction e)) = dget line ''direction'' \<and> le_last_price e = None
    \<and> le_band_bps e = Fin 20 \<and> le_accept_required e = 3 \<and> le_accept_window e = 4"
proof -
  from assms have dir: "dget line ''direction'' = PStr ''UP'' \<or> dget line ''direction'' = PStr ''DOWN''"
    and pr: "price_invalid (dget line ''price'') = Inr False" by (simp_all add: line_ok_def)
  from float_of_num_finite_line [OF pr, of "''level''"] obtain x
    where "positive_price (dget line ''price'') ''level'' = Inr x" "float_of_num (dget line ''price'') = Inr x" by blast
  with dir show ?thesis
    by (auto simp: arm_line_def level_engine_init_def math_isfinite_def num_lt_def float_of_int_def Let_def
        parse_direction_def)
qed

lemma arm_line_armed: "arm_line line = Inr e \<Longrightarrow> armed_engine line e"
  using level_engine_init_inv(1) by (auto simp: armed_engine_def arm_line_def)

lemma emit_event_locked:
  assumes "plan_armable plan" and "line \<in> set (plan_lines plan)" and "pos_fin p"
    and "emit_event plan mode channel line (et, p, ts) = Inr ev"
  shows "event_locked plan mode ev"
proof -
  from assms(4) obtain level where lv: "float_of_num (dget line ''price'') = Inr level"
    by (auto simp: emit_event_def Let_def ebind_Inr_iff split: if_splits)
  have "line_ok line" using assms(1,2) by (auto simp: plan_armable_def lines_ok_def list_all_iff)
  then have "is_finite level"
    using float_of_num_finite_line [of "dget line ''price''" "''x''"] positive_price_pos lv pos_fin_finite
    by (fastforce simp: line_ok_def)
  moreover have "all_finite (level_classification plan line)"
    unfolding level_classification_def
    by (rule all_finite_dget_or [OF plan_line_finite [OF assms(1,2)]], rule plan_field_or_finite [OF assms(1)]) simp
  moreover have "all_finite (dget line k)" for k using plan_line_finite [OF assms(1,2)] by (rule all_finite_dget)
  moreover have "all_finite (dget plan k)" for k using assms(1) by (rule plan_field_finite)
  ultimately show ?thesis
    using assms(2,3,4) lv
    by (auto simp: emit_event_def Let_def ebind_Inr_iff event_locked_def EVENT_GOVERNANCE_def EVENT_REQUIRED_def
        pos_fin_finite split: if_splits)
qed

lemma emap_emit_locked:
  assumes "plan_armable plan" and "line \<in> set (plan_lines plan)"
    and "\<forall>em \<in> set ems. pos_fin (fst (snd em))"
    and "emap (emit_event plan mode channel line) ems = Inr evs"
  shows "list_all (event_locked plan mode) evs"
  using assms(3,4)
proof (induction ems arbitrary: evs)
  case (Cons em ems)
  then obtain ev evs' where "evs = ev # evs'" "emit_event plan mode channel line em = Inr ev"
    "emap (emit_event plan mode channel line) ems = Inr evs'" by (auto simp: ebind_Inr_iff)
  with Cons emit_event_locked [OF assms(1,2), of "fst (snd em)" mode channel "fst em" "snd (snd em)"]
  show ?case by simp
qed simp

lemma dispatch_line_ok:
  assumes "plan_armable plan" and "line \<in> set (plan_lines plan)" and "pos_fin p" and "armed_engine line e"
    and "dispatch_line plan mode channel p ts confirm (line, e) = Inr (e', evs)"
  shows "armed_engine line e' \<and> list_all (event_locked plan mode) evs"
proof -
  from assms(5) obtain e1 ems1 evs1 where 1: "on_price e (PFloat p) ts = Inr (e1, ems1)"
    and v1: "emap (emit_event plan mode channel line) ems1 = Inr evs1"
    and rest: "\<not> confirm \<and> e' = e1 \<and> evs = evs1
      \<or> (\<exists>ems2 evs2. on_5s_close e1 (PFloat p) ts = Inr (e', ems2)
          \<and> emap (emit_event plan mode channel line) ems2 = Inr evs2 \<and> evs = evs1 @ evs2)"
    by (auto simp: dispatch_line_def ebind_Inr_iff split: if_splits)
  have a1: "armed_engine line e1"
    using assms(4) on_price_inv [OF _ 1] on_price_reports(1) [OF 1]
    by (auto simp: armed_engine_def same_identity_def)
  have l1: "list_all (event_locked plan mode) evs1"
    using on_price_reports(2) [OF 1] assms(3)
    by (intro emap_emit_locked [OF assms(1,2) _ v1]) (auto simp: positive_price_PFloat)
  from rest show ?thesis
  proof (elim disjE exE conjE)
    fix ems2 evs2
    assume 2: "on_5s_close e1 (PFloat p) ts = Inr (e', ems2)"
      and v2: "emap (emit_event plan mode channel line) ems2 = Inr evs2" and evs: "evs = evs1 @ evs2"
    have "armed_engine line e'"
      using a1 on_5s_close_inv [OF _ 2] on_5s_close_reports(1) [OF 2]
      by (auto simp: armed_engine_def same_identity_def)
    moreover have "list_all (event_locked plan mode) evs2"
      using on_5s_close_reports(2) [OF 2] assms(3)
      by (intro emap_emit_locked [OF assms(1,2) _ v2]) (auto simp: positive_price_PFloat)
    ultimately show ?thesis using l1 evs by simp
  qed (use a1 l1 in simp)
qed

lemma dispatch_lines_ok:
  assumes "plan_armable plan" and "pos_fin p" and "set ls \<subseteq> set (plan_lines plan)" and "list_all2 armed_engine ls es"
    and "emap (dispatch_line plan mode channel p ts confirm) (zip ls es) = Inr rs"
  shows "list_all2 armed_engine ls (map fst rs) \<and> list_all (event_locked plan mode) (concat (map snd rs))"
  using assms(4,3,5)
proof (induction arbitrary: rs rule: list_all2_induct)
  case (Cons line ls e es)
  then obtain e' evs rs' where rs: "rs = (e', evs) # rs'"
    and 1: "dispatch_line plan mode channel p ts confirm (line, e) = Inr (e', evs)"
    and 2: "emap (dispatch_line plan mode channel p ts confirm) (zip ls es) = Inr rs'"
    by (auto simp: ebind_Inr_iff)
  from Cons.prems have "line \<in> set (plan_lines plan)" "set ls \<subseteq> set (plan_lines plan)" by auto
  with Cons.IH [OF _ 2] dispatch_line_ok [OF assms(1) _ assms(2) Cons.hyps(1) 1] show ?case by (simp add: rs)
qed simp

lemma dispatch_to_engines_inv:
  assumes "adapter_inv a" and "pos_fin p" and "dispatch_to_engines a channel p ts confirm = Inr a'"
  shows "adapter_inv a' \<and> ad_plan a' = ad_plan a \<and> ad_mode a' = ad_mode a"
  using assms dispatch_lines_ok [of "ad_plan a" p "plan_lines (ad_plan a)" "ad_engines a"]
  by (fastforce simp: dispatch_to_engines_def adapter_inv_def ebind_Inr_iff)

section \<open>Runs of an adapter\<close>

datatype adapter_obs =
    TestLast pyval ts_arg string
  | TestClose pyval ts_arg string
  | LiveLast pyval ts_arg
  | LiveClose pyval ts_arg

fun adapter_step :: "iso_parser \<Rightarrow> adapter_obs \<Rightarrow> adapter \<Rightarrow> adapter res" where
  "adapter_step fromiso (TestLast price ts cls) a = on_test_last fromiso a price ts cls"
| "adapter_step fromiso (TestClose price ts cls) a = on_test_5s_close fromiso a price ts cls"
| "adapter_step fromiso (LiveLast price ts) a = on_live_last fromiso a price ts"
| "adapter_step fromiso (LiveClose price ts) a = on_live_5s_close fromiso a price ts"

lemma check_observation_Inr:
  "check_observation fromiso a price ts mode = Inr (p, t) \<longleftrightarrow>
     mode = ad_mode a \<and> positive_price price ''observed_price'' = Inr p \<and> observation_ts fromiso ts = Inr t"
  by (auto simp: check_observation_def ebind_Inr_iff)

lemma adapter_step_dispatches:
  assumes "adapter_step fromiso ob a = Inr a'"
  shows "\<exists>channel p t confirm. pos_fin p \<and> dispatch_to_engines a channel p t confirm = Inr a'"
  using assms positive_price_pos
  by (cases ob)
    (auto simp: on_test_last_def on_test_5s_close_def on_live_last_def on_live_5s_close_def
      ebind_Inr_iff check_observation_Inr split: if_splits; metis)+

definition adapter_locked :: "dict \<Rightarrow> string \<Rightarrow> adapter \<Rightarrow> bool" where
  "adapter_locked plan mode a \<longleftrightarrow> adapter_inv a \<and> ad_plan a = plan \<and> ad_mode a = mode"

interpretation adapter_run: guarded_machine "adapter_step fromiso" "adapter_locked plan mode"
  for fromiso plan mode
proof unfold_locales
  fix a ob a'
  assume "adapter_locked plan mode a" and "adapter_step fromiso ob a = Inr a'"
  then show "adapter_locked plan mode a'"
    using adapter_step_dispatches dispatch_to_engines_inv by (metis adapter_locked_def)
qed

lemma plan_lines_map: "dget plan ''lines'' = PList (map PDict ls) \<Longrightarrow> plan_lines plan = ls"
  by (simp add: plan_lines_def comp_def)

lemma plan_ok_armable: "plan_ok fromiso sha now plan \<Longrightarrow> plan_armable plan"
  by (auto simp: plan_ok_def plan_armable_def plan_lines_map)

lemma lines_ok_length:
  assumes "lines_ok ls"
  shows "length ls = 4"
proof -
  from assms have "length ls = card (set (map line_type ls))"
    by (metis lines_ok_def distinct_card length_map)
  also have "\<dots> = 4" using assms by (simp add: lines_ok_def ALLOWED_LINE_TYPES_def)
  finally show ?thesis .
qed

lemma validated_plan_ok:
  assumes "validate_commander_plan fromiso v sha now = Inr []"
  obtains plan where "v = PDict plan" "plan_ok fromiso sha now plan"
  using assms validate_commander_plan_plan_ok by blast

lemma arm_lines_total:
  assumes "list_all line_ok ls"
  shows "\<exists>es. emap arm_line ls = Inr es \<and> list_all2 (\<lambda>line e. arm_line line = Inr e) ls es"
  using assms
proof (induction ls)
  case (Cons line ls)
  with arm_line_total [of line] show ?case by auto
qed simp

lemma emap_arm_line_armed: "emap arm_line ls = Inr es \<Longrightarrow> list_all2 armed_engine ls es"
  by (induction ls arbitrary: es) (auto simp: ebind_Inr_iff arm_line_armed)

lemma emap_restore_armed:
  assumes "list_all2 armed_engine ls es" and "emap (\<lambda>(line, e). restore_state e (f line)) (zip ls es) = Inr es'"
  shows "list_all2 armed_engine ls es'"
  using assms
proof (induction arbitrary: es' rule: list_all2_induct)
  case (Cons line ls e es)
  then obtain e' es'' where es': "es' = e' # es''" and r: "restore_state e (f line) = Inr e'"
    and m: "emap (\<lambda>(line, e). restore_state e (f line)) (zip ls es) = Inr es''" by (auto simp: ebind_Inr_iff)
  from Cons.hyps(1) have "engine_params e" by (simp add: armed_engine_def engine_inv_def)
  from restore_state_legal [OF this r] Cons.hyps(1) have "armed_engine line e'"
    by (auto simp: armed_engine_def same_identity_def)
  with Cons.IH [OF m] show ?case by (simp add: es')
qed simp

lemma restore_gate6a_inv:
  assumes "adapter_inv a" and "restore_gate6a_state a payload = Inr a'"
  shows "adapter_inv a' \<and> ad_plan a' = ad_plan a \<and> ad_mode a' = ad_mode a \<and> ad_events a' = ad_events a"
proof -
  from assms(2) obtain f es where "emap (\<lambda>(line, e). restore_state e (f line)) (zip (plan_lines (ad_plan a)) (ad_engines a)) = Inr es"
    and a': "a' = a\<lparr>ad_engines := es\<rparr>"
    by (auto simp: restore_gate6a_state_def ebind_Inr_iff split: pyval.splits if_splits)
  from emap_restore_armed [OF _ this(1)] assms(1) show ?thesis by (simp add: a' adapter_inv_def)
qed

lemma adapter_init_locked:
  assumes "adapter_init fromiso v sha now mode gate6a = Inr a"
  shows "\<exists>plan. v = PDict plan \<and> plan_ok fromiso sha now plan \<and> adapter_locked plan mode a
    \<and> ad_events a = [] \<and> mode \<in> {TEST_ONLY, IBKR_LIVE}"
proof -
  from assms have val: "validate_commander_plan fromiso v sha now = Inr []" and mode: "mode \<in> {TEST_ONLY, IBKR_LIVE}"
    by (auto simp: adapter_init_def ebind_Inr_iff split: if_splits)
  from val obtain plan where v: "v = PDict plan" and ok: "plan_ok fromiso sha now plan" by (rule validated_plan_ok)
  from assms obtain es where es: "emap arm_line (plan_lines plan) = Inr es"
    and rest: "(case gate6a of None \<Rightarrow> Inr \<lparr>ad_plan = plan, ad_mode = mode, ad_engines = es, ad_events = []\<rparr>
      | Some st \<Rightarrow> restore_gate6a_state \<lparr>ad_plan = plan, ad_mode = mode, ad_engines = es, ad_events = []\<rparr> st) = Inr a"
    by (auto simp: adapter_init_def v ebind_Inr_iff Let_def split: if_splits)
  have "adapter_inv \<lparr>ad_plan = plan, ad_mode = mode, ad_engines = es, ad_events = []\<rparr>"
    using ok es by (simp add: adapter_inv_def plan_ok_armable emap_arm_line_armed)
  with rest restore_gate6a_inv have "adapter_locked plan mode a \<and> ad_events a = []"
    by (fastforce simp: adapter_locked_def split: option.splits)
  with v ok mode show ?thesis by blast
qed

lemma event_locked_wake:
  assumes "event_locked plan mode v"
  shows "\<exists>ev. v = PDict ev \<and> commander_event_id ev = Inr (canonical_hash v)"
proof -
  from assms obtain ev where v: "v = PDict ev" and gov: "\<forall>(k, x) \<in> set EVENT_GOVERNANCE. dget ev k = x"
    and req: "\<forall>k \<in> set EVENT_REQUIRED. dhas ev k" and fin: "all_finite v" by (auto simp: event_locked_def)
  from req have missing: "filter (\<lambda>k. \<not> dhas ev k) EVENT_REQUIRED = []" by (simp add: filter_empty_conv)
  from gov have find: "List.find (\<lambda>(k, x). \<not> py_eq (dget ev k) x) EVENT_GOVERNANCE = None"
    by (simp add: EVENT_GOVERNANCE_def)
  show ?thesis
    using v fin by (simp add: commander_event_id_def missing find canonical_hash_strict_Inr Let_def)
qed

text \<open>C5: whatever an armed adapter observes, and whatever checkpoint it was restored from, every
  event it has recorded names the verified plan and one of its lines, keeps the observation-only
  governance fields, is marked TEST_ONLY under a TEST_ONLY adapter, and is accepted by the
  projection to a reanalysis wake, whose identifier is the digest of the event.\<close>

theorem adapter_run_events_locked:
  assumes "adapter_init fromiso v sha now mode gate6a = Inr a0"
    and "efold (adapter_step fromiso) obs a0 = Inr a" and "event \<in> set (ad_events a)"
  shows "\<exists>plan w. v = PDict plan \<and> ad_plan a = plan \<and> event_locked plan mode event
    \<and> build_commander_reanalysis_wake event = Inr w
    \<and> dget w ''commander_event_id'' = PStr (canonical_hash event) \<and> dget w ''commander_event'' = event
    \<and> dget w ''action_output'' = PStr ''NONE'' \<and> dget w ''machine_execution'' = PStr ''FORBIDDEN''"
proof -
  from adapter_init_locked [OF assms(1)] obtain plan where v: "v = PDict plan" and l0: "adapter_locked plan mode a0"
    by blast
  have "adapter_locked plan mode a"
    using assms(2) l0 adapter_run.run_inv by (simp add: adapter_run.run_def)
  then have l: "event_locked plan mode event" and p: "ad_plan a = plan"
    using assms(3) by (auto simp: adapter_locked_def adapter_inv_def list_all_iff)
  from event_locked_wake [OF l] obtain ev where "event = PDict ev" "commander_event_id ev = Inr (canonical_hash event)"
    by blast
  then show ?thesis using v l p by (simp add: build_commander_reanalysis_wake_def Let_def)
qed

text \<open>A plan the validator passes can be armed for live observation, and arming it builds
  exactly four fresh Gate 6A engines, one per line in plan order, each at the line's price and
  direction with a 20 bps band and a 3-of-4 close window.\<close>

theorem arm_live_builds_four_engines:
  assumes "validate_commander_plan fromiso (PDict plan) sha now = Inr []"
  shows "\<exists>a. arm_live fromiso (PDict plan) sha now None = Inr a \<and> ad_plan a = plan \<and> ad_events a = []
    \<and> length (ad_engines a) = 4
    \<and> list_all2 (\<lambda>line e. float_of_num (dget line ''price'') = Inr (le_level e)
        \<and> PStr (direction_str (le_direction e)) = dget line ''direction''
        \<and> le_band_bps e = Fin 20 \<and> le_accept_required e = 3 \<and> le_accept_window e = 4
        \<and> le_state e = FAR \<and> le_last_price e = None) (plan_lines plan) (ad_engines a)"
proof -
  from assms have arm: "plan_armable plan" by (rule validated_plan_ok) (simp add: plan_ok_armable)
  then have lok: "lines_ok (plan_lines plan)" by (simp add: plan_armable_def)
  then have ls: "list_all line_ok (plan_lines plan)" "length (plan_lines plan) = 4"
    using lines_ok_length by (simp_all add: lines_ok_def)
  from arm_lines_total [OF ls(1)] obtain es where es: "emap arm_line (plan_lines plan) = Inr es"
    and each: "list_all2 (\<lambda>line e. arm_line line = Inr e) (plan_lines plan) es" by blast
  have "list_all2 (\<lambda>line e. float_of_num (dget line ''price'') = Inr (le_level e)
        \<and> PStr (direction_str (le_direction e)) = dget line ''direction''
        \<and> le_band_bps e = Fin 20 \<and> le_accept_required e = 3 \<and> le_accept_window e = 4
        \<and> le_state e = FAR \<and> le_last_price e = None) (plan_lines plan) es"
    using each
  proof (rule list.rel_mono_strong)
    fix line e assume "line \<in> set (plan_lines plan)" and e: "arm_line line = Inr e"
    with ls(1) have "line_ok line" by (simp add: list_all_iff)
    from arm_line_total [OF this] e level_engine_init_inv(2) [OF e [unfolded arm_line_def]]
    show "float_of_num (dget line ''price'') = Inr (le_level e)
        \<and> PStr (direction_str (le_direction e)) = dget line ''direction''
        \<and> le_band_bps e = Fin 20 \<and> le_accept_required e = 3 \<and> le_accept_window e = 4
        \<and> le_state e = FAR \<and> le_last_price e = None" by auto
  qed
  moreover have "arm_live fromiso (PDict plan) sha now None =
      Inr \<lparr>ad_plan = plan, ad_mode = IBKR_LIVE, ad_engines = es, ad_events = []\<rparr>"
    by (simp add: arm_live_def adapter_init_def assms es IBKR_LIVE_def TEST_ONLY_def)
  ultimately show ?thesis
    using ls(2) emap_length [OF es]
    by (intro exI [of _ "\<lparr>ad_plan = plan, ad_mode = IBKR_LIVE, ad_engines = es, ad_events = []\<rparr>"]) simp
qed

section \<open>Checkpoints of an adapter\<close>

lemma map_of_zip_line_ids:
  assumes "distinct (map line_id ls)" and "length es = length ls" and "i < length ls"
  shows "dget (map (\<lambda>(line, e). (line_id line, PDict (snapshot_state e))) (zip ls es)) (line_id (ls ! i))
    = PDict (snapshot_state (es ! i))"
proof -
  have eq: "map (\<lambda>(line, e). (line_id line, PDict (snapshot_state e))) (zip ls es)
      = zip (map line_id ls) (map (\<lambda>e. PDict (snapshot_state e)) es)"
    by (simp add: zip_map1 zip_map2 case_prod_beta)
  show ?thesis
    unfolding eq dget_def using assms map_of_zip_nth [of "map line_id ls" "map (\<lambda>e. PDict (snapshot_state e)) es" i]
    by simp
qed

lemma emap_nthI:
  assumes "length ys = length xs" and "\<And>i. i < length xs \<Longrightarrow> f (xs ! i) = Inr (ys ! i)"
  shows "emap f xs = Inr ys"
  using assms
proof (induction xs arbitrary: ys)
  case (Cons x xs)
  then obtain y ys' where ys: "ys = y # ys'" "length ys' = length xs" by (cases ys) auto
  have "f x = Inr y" using Cons.prems(2) [of 0] ys by simp
  moreover have "emap f xs = Inr ys'" using Cons.prems(2) [of "Suc i" for i] ys by (intro Cons.IH) auto
  ultimately show ?case by (simp add: ys)
qed simp

lemma keys_line_dict:
  "length es = length ls \<Longrightarrow>
   set (keys (map (\<lambda>(line, e). (line_id line, PDict (snapshot_state e))) (zip ls es))) = line_id ` set ls"
  by (simp add: keys_def comp_def case_prod_beta) (metis image_image map_fst_zip set_map)

lemma restore_checkpoint:
  assumes "adapter_inv a" and "adapter_inv b" and "ad_plan b = ad_plan a"
  shows "restore_gate6a_state b (PDict (gate6a_state a)) = Inr (b\<lparr>ad_engines := ad_engines a\<rparr>)"
proof -
  let ?ls = "plan_lines (ad_plan a)"
  let ?d = "map (\<lambda>(line, e). (line_id line, PDict (snapshot_state e))) (zip ?ls (ad_engines a))"
  from assms have armed: "list_all2 armed_engine ?ls (ad_engines a)" "list_all2 armed_engine ?ls (ad_engines b)"
    and arm: "plan_armable (ad_plan a)" by (simp_all add: adapter_inv_def)
  have len: "length (ad_engines a) = length ?ls" "length (ad_engines b) = length ?ls"
    using armed [THEN list_all2_lengthD] by simp_all
  have dist: "distinct (map line_id ?ls)" using arm by (simp add: plan_armable_def lines_ok_def)
  have "emap (\<lambda>(line, e). restore_state e (dget ?d (line_id line))) (zip ?ls (ad_engines b)) = Inr (ad_engines a)"
  proof (rule emap_nthI)
    fix i assume "i < length (zip ?ls (ad_engines b))"
    then have i: "i < length ?ls" by simp
    with armed len have "armed_engine (?ls ! i) (ad_engines a ! i)" "armed_engine (?ls ! i) (ad_engines b ! i)"
      by (simp_all add: list_all2_conv_all_nth)
    then have "engine_inv (ad_engines a ! i)" "same_identity (ad_engines b ! i) (ad_engines a ! i)"
      by (auto simp: armed_engine_def same_identity_def)
    from restore_snapshot [OF this]
    show "(case zip ?ls (ad_engines b) ! i of (line, e) \<Rightarrow> restore_state e (dget ?d (line_id line))) = Inr (ad_engines a ! i)"
      using i len map_of_zip_line_ids [OF dist len(1) i] by simp
  qed (simp add: len)
  moreover have "set (keys ?d) = line_id ` set ?ls" by (rule keys_line_dict [OF len(1)])
  moreover obtain s h where "dget (ad_plan a) ''asset'' = PStr s" "dget (ad_plan a) ''plan_sha'' = PStr h"
    using arm by (auto simp: plan_armable_def sealed_ok_def is_str_iff)
  ultimately show ?thesis
    unfolding gate6a_state_def line_id_def [symmetric]
    by (simp add: restore_gate6a_state_def assms(3) line_id_def [symmetric] keys_def [where d = "_ # _"])
qed

text \<open>C6: the checkpoint of an armed adapter restores its engines exactly, in any adapter armed
  on the same plan, whatever that adapter has observed since.\<close>

theorem adapter_checkpoint_roundtrip:
  assumes "adapter_inv a" and "adapter_inv b" and "ad_plan b = ad_plan a"
  shows "restore_gate6a_state b (PDict (gate6a_state a)) = Inr (b\<lparr>ad_engines := ad_engines a\<rparr>)"
  using assms by (rule restore_checkpoint)

section \<open>Observations that cannot raise\<close>

lemma emit_event_total:
  assumes "line_ok line"
  shows "(\<exists>ev. emit_event plan mode channel line em = Inr ev) \<longleftrightarrow> hashable (level_classification plan line)"
proof -
  from assms obtain x where "float_of_num (dget line ''price'') = Inr x"
    using float_of_num_finite_line by (fastforce simp: line_ok_def)
  then show ?thesis by (cases em) (simp add: emit_event_def Let_def)
qed

lemma emap_exists: "(\<And>x. x \<in> set xs \<Longrightarrow> \<exists>y. f x = Inr y) \<Longrightarrow> \<exists>ys. emap f xs = Inr ys"
  by (induction xs) force+

lemma dispatch_line_total:
  assumes "line_ok line" and "armed_engine line e" and "pos_fin p" and "hashable (level_classification plan line)"
  shows "\<exists>r. dispatch_line plan mode channel p ts confirm (line, e) = Inr r"
proof -
  have ev: "\<exists>evs. emap (emit_event plan mode channel line) ems = Inr evs" for ems
    using emit_event_total [OF assms(1)] assms(4) by (intro emap_exists) blast
  from assms(2) have "engine_inv e" by (simp add: armed_engine_def)
  from on_price_total [OF this assms(3), of ts] obtain e1 ems1 where 1: "on_price e (PFloat p) ts = Inr (e1, ems1)" by blast
  from on_5s_close_total [OF assms(3)] obtain e2 ems2 where 2: "on_5s_close e1 (PFloat p) ts = Inr (e2, ems2)" by blast
  from ev [of ems1] ev [of ems2] show ?thesis by (auto simp: dispatch_line_def 1 2)
qed

lemma dispatch_to_engines_total:
  assumes "adapter_inv a" and "pos_fin p"
    and "\<forall>line \<in> set (plan_lines (ad_plan a)). hashable (level_classification (ad_plan a) line)"
  shows "\<exists>a'. dispatch_to_engines a channel p ts confirm = Inr a'"
proof -
  have "\<exists>rs. emap (dispatch_line (ad_plan a) (ad_mode a) channel p ts confirm)
      (zip (plan_lines (ad_plan a)) (ad_engines a)) = Inr rs"
  proof (rule emap_exists)
    fix le assume "le \<in> set (zip (plan_lines (ad_plan a)) (ad_engines a))"
    moreover obtain line e where le: "le = (line, e)" by (cases le)
    ultimately have "line \<in> set (plan_lines (ad_plan a))" "armed_engine line e"
      using assms(1) by (auto simp: adapter_inv_def list_all2_iff dest: set_zip_leftD)
    moreover from this have "line_ok line"
      using assms(1) by (auto simp: adapter_inv_def plan_armable_def lines_ok_def list_all_iff)
    ultimately show "\<exists>r. dispatch_line (ad_plan a) (ad_mode a) channel p ts confirm le = Inr r"
      using assms(2,3) unfolding le by (intro dispatch_line_total) simp_all
  qed
  then show ?thesis by (auto simp: dispatch_to_engines_def)
qed

text \<open>C7: an armed live adapter never raises on a well-formed observation: if every line has a
  hashable price classification, any positive finite price with a readable time is consumed by
  all engines, both as a LAST price and as a 5-second close, and earlier events are kept.\<close>

theorem live_observation_accepted:
  assumes "adapter_init fromiso (PDict plan) sha now IBKR_LIVE gate6a = Inr a0"
    and "efold (adapter_step fromiso) obs a0 = Inr a"
    and "\<forall>line \<in> set (plan_lines plan). hashable (level_classification plan line)"
    and "positive_price price ''observed_price'' = Inr p" and "observation_ts fromiso ts = Inr t"
  shows "\<exists>b c new. on_live_last fromiso a price ts = Inr b \<and> on_live_5s_close fromiso a price ts = Inr c
    \<and> length (ad_engines b) = 4 \<and> length (ad_engines c) = 4 \<and> ad_events b = ad_events a @ new"
proof -
  have l0: "adapter_locked plan IBKR_LIVE a0" using adapter_init_locked [OF assms(1)] by auto
  have l: "adapter_locked plan IBKR_LIVE a" using assms(2) l0 adapter_run.run_inv by (simp add: adapter_run.run_def)
  then have inv: "adapter_inv a" and pl: "ad_plan a = plan" and mode: "ad_mode a = IBKR_LIVE"
    by (simp_all add: adapter_locked_def)
  have chk: "check_observation fromiso a price ts IBKR_LIVE = Inr (p, t)"
    using assms(4,5) mode by (simp add: check_observation_Inr)
  have pf: "pos_fin p" using assms(4) by (rule positive_price_pos)
  have tot: "\<exists>a'. dispatch_to_engines a ch p t cf = Inr a'" for ch cf
    using dispatch_to_engines_total [OF inv pf] assms(3) pl by simp
  obtain b where b: "dispatch_to_engines a ''IBKR_LAST'' p t False = Inr b" using tot by blast
  obtain c where c: "dispatch_to_engines a ''IBKR_5S_CLOSE'' p t True = Inr c" using tot by blast
  have four: "length (ad_engines x) = 4" if "adapter_inv x" for x
    using that lines_ok_length by (auto simp: adapter_inv_def plan_armable_def dest!: list_all2_lengthD)
  from b obtain new where "ad_events b = ad_events a @ new"
    by (auto simp: dispatch_to_engines_def ebind_Inr_iff)
  moreover have "on_live_last fromiso a price ts = Inr b" "on_live_5s_close fromiso a price ts = Inr c"
    by (simp_all add: on_live_last_def on_live_5s_close_def chk b c)
  ultimately show ?thesis
    using four dispatch_to_engines_inv [OF inv pf b] dispatch_to_engines_inv [OF inv pf c] by blast
qed

section \<open>The bridge\<close>

datatype bridge_obs = IbkrLast pyval pyval pyval pyval | IbkrClose pyval pyval pyval pyval

fun bridge_step :: "iso_parser \<Rightarrow> bridge_obs \<Rightarrow> bridge \<Rightarrow> bridge res" where
  "bridge_step fromiso (IbkrLast asset price ms mdt) b = on_ibkr_last fromiso b asset price ms mdt"
| "bridge_step fromiso (IbkrClose asset price ms mdt) b = on_ibkr_5s_close fromiso b asset price ms mdt"

fun obs_asset :: "bridge_obs \<Rightarrow> pyval" where
  "obs_asset (IbkrLast asset _ _ _) = asset"
| "obs_asset (IbkrClose asset _ _ _) = asset"

definition bridge_inv :: "dict \<Rightarrow> bridge \<Rightarrow> bool" where
  "bridge_inv plan b \<longleftrightarrow> adapter_locked plan IBKR_LIVE (br_adapter b)"

lemma bridge_step_cases:
  assumes "bridge_step fromiso ob b = Inr b'"
  shows "(\<not> py_eq (obs_asset ob) (dget (ad_plan (br_adapter b)) ''asset'')
        \<and> b' = b\<lparr>br_ignored_count := br_ignored_count b + 1\<rparr>)
    \<or> (py_eq (obs_asset ob) (dget (ad_plan (br_adapter b)) ''asset'')
        \<and> (\<exists>ao a. adapter_step fromiso ao (br_adapter b) = Inr a
            \<and> (b' = b\<lparr>br_adapter := a, br_last_count := br_last_count b + 1\<rparr>
               \<or> b' = b\<lparr>br_adapter := a, br_close_count := br_close_count b + 1\<rparr>)))"
proof (cases ob)
  case (IbkrLast asset price ms mdt)
  show ?thesis
  proof (cases "py_eq asset (dget (ad_plan (br_adapter b)) ''asset'')")
    case True
    with assms obtain t a where "on_live_last fromiso (br_adapter b) price (TsTime (Aware t)) = Inr a"
      "b' = b\<lparr>br_adapter := a, br_last_count := br_last_count b + 1\<rparr>"
      by (auto simp: IbkrLast on_ibkr_last_def ebind_Inr_iff)
    with True show ?thesis by (intro disjI2) (auto simp: IbkrLast intro: exI [of _ "LiveLast price (TsTime (Aware t))"])
  qed (use assms in \<open>auto simp: IbkrLast on_ibkr_last_def ebind_Inr_iff\<close>)
next
  case (IbkrClose asset price ms mdt)
  show ?thesis
  proof (cases "py_eq asset (dget (ad_plan (br_adapter b)) ''asset'')")
    case True
    with assms obtain t a where "on_live_5s_close fromiso (br_adapter b) price (TsTime (Aware t)) = Inr a"
      "b' = b\<lparr>br_adapter := a, br_close_count := br_close_count b + 1\<rparr>"
      by (auto simp: IbkrClose on_ibkr_5s_close_def ebind_Inr_iff)
    with True show ?thesis by (intro disjI2) (auto simp: IbkrClose intro: exI [of _ "LiveClose price (TsTime (Aware t))"])
  qed (use assms in \<open>auto simp: IbkrClose on_ibkr_5s_close_def ebind_Inr_iff\<close>)
qed

interpretation bridge_run: guarded_machine "bridge_step fromiso" "bridge_inv plan" for fromiso plan
proof unfold_locales
  fix b ob b'
  assume "bridge_inv plan b" and "bridge_step fromiso ob b = Inr b'"
  then show "bridge_inv plan b'"
    using bridge_step_cases adapter_run.step_inv by (fastforce simp: bridge_inv_def)
qed

lemma bridge_run_counts:
  assumes "efold (bridge_step fromiso) obs b = Inr b'" and "bridge_inv plan b"
  shows "br_ignored_count b' = br_ignored_count b
      + length (filter (\<lambda>ob. \<not> py_eq (obs_asset ob) (dget plan ''asset'')) obs)
    \<and> br_last_count b' + br_close_count b' = br_last_count b + br_close_count b
      + length (filter (\<lambda>ob. py_eq (obs_asset ob) (dget plan ''asset'')) obs)
    \<and> ((\<forall>ob \<in> set obs. \<not> py_eq (obs_asset ob) (dget plan ''asset'')) \<longrightarrow> br_adapter b' = br_adapter b)"
  using assms
proof (induction obs arbitrary: b)
  case (Cons ob obs)
  then obtain c where c: "bridge_step fromiso ob b = Inr c" and rest: "efold (bridge_step fromiso) obs c = Inr b'"
    by (auto simp: ebind_Inr_iff)
  have "bridge_inv plan c" using bridge_run.step_inv [OF Cons.prems(2) c] .
  from Cons.IH [OF rest this] bridge_step_cases [OF c] Cons.prems(2) show ?case
    by (auto simp: bridge_inv_def adapter_locked_def)
qed simp

text \<open>The bridge accounts for every observation of a run: those of another asset are counted
  as ignored and touch neither engines nor events, every other one is counted once as a LAST or a
  close; the wake it offers at the end is built from the newest event, when there is one.\<close>

theorem bridge_run_accounts:
  assumes "bridge_arm fromiso (PDict plan) sha now gate6a = Inr b0"
    and "efold (bridge_step fromiso) obs b0 = Inr b"
  shows "br_ignored_count b = length (filter (\<lambda>ob. \<not> py_eq (obs_asset ob) (dget plan ''asset'')) obs)
    \<and> br_last_count b + br_close_count b + br_ignored_count b = length obs
    \<and> ((\<forall>ob \<in> set obs. \<not> py_eq (obs_asset ob) (dget plan ''asset'')) \<longrightarrow> br_adapter b = br_adapter b0)
    \<and> (\<exists>w. latest_reanalysis_wake b = Inr w \<and> (w = None \<longleftrightarrow> ad_events (br_adapter b) = []))"
proof -
  from assms(1) obtain a0 where "adapter_init fromiso (PDict plan) sha now IBKR_LIVE gate6a = Inr a0"
    and b0: "b0 = \<lparr>br_adapter = a0, br_last_count = 0, br_close_count = 0, br_ignored_count = 0\<rparr>"
    by (auto simp: bridge_arm_def arm_live_def bridge_init_def ebind_Inr_iff split: if_splits)
  from adapter_init_locked [OF this(1)] have i0: "bridge_inv plan b0" by (auto simp: b0 bridge_inv_def)
  have inv: "bridge_inv plan b" using assms(2) i0 bridge_run.run_inv by (simp add: bridge_run.run_def)
  have "\<exists>w. latest_reanalysis_wake b = Inr w \<and> (w = None \<longleftrightarrow> ad_events (br_adapter b) = [])"
  proof (cases "ad_events (br_adapter b) = []")
    case False
    then have "event_locked plan IBKR_LIVE (last (ad_events (br_adapter b)))"
      using inv by (auto simp: bridge_inv_def adapter_locked_def adapter_inv_def list_all_iff)
    from event_locked_wake [OF this] False show ?thesis
      by (auto simp: latest_reanalysis_wake_def build_commander_reanalysis_wake_def Let_def)
  qed (simp add: latest_reanalysis_wake_def)
  then show ?thesis
    using bridge_run_counts [OF assms(2) i0] sum_length_filter_compl [of "\<lambda>ob. py_eq (obs_asset ob) (dget plan ''asset'')" obs]
    by (simp add: b0)
qed

section \<open>A concrete plan\<close>

text \<open>Four lines at level 128, a time parser that knows two instants, and two LAST prices that
  cross the level.\<close>

definition demo_line :: "string \<Rightarrow> dict" where
  "demo_line t = [(''line_id'', PStr t), (''line_type'', PStr t), (''price'', PInt 128), (''direction'', PStr ''UP'')]"

definition demo_body :: dict where
  "demo_body = [(''plan_id'', PStr ''P1''), (''plan_version'', PInt 1), (''plan_mode'', PStr ''OBSERVATION_ONLY''),
     (''generated_at'', PStr ''A''), (''valid_until'', PStr ''B''), (''asset'', PStr ''MSTR''),
     (''source_main_sha'', PStr ''S''), (''lines'', PList (map (\<lambda>t. PDict (demo_line t)) ALLOWED_LINE_TYPES)),
     (''governance'', PDict (map (\<lambda>(k, v). (k, PStr v)) REQUIRED_GOVERNANCE))]"

definition demo_plan :: dict where
  "demo_plan = demo_body @ [(''plan_sha'', PStr (canonical_hash (PDict demo_body)))]"

definition demo_iso :: iso_parser where
  "demo_iso s = Inr (Aware (if s = ''A'' then 0 else 10))"

lemma demo_fields [simp]:
  "dget demo_plan ''plan_id'' = PStr ''P1''" "dget demo_plan ''plan_mode'' = PStr ''OBSERVATION_ONLY''"
  "dget demo_plan ''generated_at'' = PStr ''A''" "dget demo_plan ''valid_until'' = PStr ''B''"
  "dget demo_plan ''asset'' = PStr ''MSTR''" "dget demo_plan ''source_main_sha'' = PStr ''S''"
  "dget demo_plan ''lines'' = PList (map PDict (map demo_line ALLOWED_LINE_TYPES))"
  "dget demo_plan ''governance'' = PDict (map (\<lambda>(k, v). (k, PStr v)) REQUIRED_GOVERNANCE)"
  "dget demo_plan ''plan_sha'' = PStr (canonical_hash (PDict demo_body))"
  by (simp_all add: demo_plan_def demo_body_def)

lemma demo_dpop [simp]: "dpop ''plan_sha'' demo_plan = demo_body"
  by (simp add: demo_plan_def demo_body_def dpop_def AList.delete_eq)

lemma plan_lines_demo [simp]: "plan_lines demo_plan = map demo_line ALLOWED_LINE_TYPES"
  by (rule plan_lines_map) simp

lemma line_ok_demo: "t \<in> set ALLOWED_LINE_TYPES \<Longrightarrow> line_ok (demo_line t)"
  by (auto simp: line_ok_def REQUIRED_LINE_FIELDS_def demo_line_def ALLOWED_LINE_TYPES_def price_invalid_def
      math_isfinite_def float_of_int_def num_le_def line_id_def line_type_def strip_def is_space_def Let_def)

lemma demo_plan_ok: "plan_ok demo_iso ''S'' 5 demo_plan"
proof -
  have ids: "line_id (demo_line t) = t" "line_type (demo_line t) = t" for t
    by (simp_all add: line_id_def line_type_def demo_line_def)
  have "lines_ok (map demo_line ALLOWED_LINE_TYPES)"
    using line_ok_demo by (auto simp: lines_ok_def list_all_iff ids comp_def) (simp_all add: ALLOWED_LINE_TYPES_def)
  moreover have "sealed_ok demo_plan"
    by (simp add: sealed_ok_def) (simp add: demo_body_def demo_line_def ALLOWED_LINE_TYPES_def REQUIRED_GOVERNANCE_def)
  moreover have "governance_ok (dget demo_plan ''governance'')"
    by (simp add: governance_ok_def REQUIRED_GOVERNANCE_def keys_def)
  moreover have "window_ok demo_iso 5 demo_plan"
    by (simp add: window_ok_def parse_timestamp_def demo_iso_def)
  moreover have "\<forall>k \<in> set REQUIRED_TOP_FIELDS. dhas demo_plan k"
    by (simp add: REQUIRED_TOP_FIELDS_def demo_plan_def demo_body_def)
  ultimately show ?thesis
    by (simp add: plan_ok_def ALLOWED_ASSETS_def) (intro exI [of _ "map demo_line ALLOWED_LINE_TYPES"], simp)
qed

lemma demo_validates: "validate_commander_plan demo_iso (PDict demo_plan) ''S'' 5 = Inr []"
  using demo_plan_ok by (simp add: validate_commander_plan_plan_ok)

definition demo_level :: engine where
  "demo_level = demo_engine\<lparr>le_accept_required := 3, le_accept_window := 4\<rparr>"

definition demo_adapter :: adapter where
  "demo_adapter = \<lparr>ad_plan = demo_plan, ad_mode = IBKR_LIVE, ad_engines = replicate 4 demo_level, ad_events = []\<rparr>"

lemma arm_line_demo: "arm_line (demo_line t) = Inr demo_level"
  using positive_price_PInt [of 128 "''level''"]
  by (simp add: arm_line_def demo_line_def level_engine_init_def math_isfinite_def num_lt_def float_of_int_def Let_def
      parse_direction_def demo_level_def demo_engine_def)

lemma demo_armed: "adapter_init demo_iso (PDict demo_plan) ''S'' 5 IBKR_LIVE None = Inr demo_adapter"
proof -
  have "emap arm_line (map demo_line ALLOWED_LINE_TYPES) = Inr (replicate 4 demo_level)"
    by (simp add: ALLOWED_LINE_TYPES_def arm_line_demo numeral_eq_Suc)
  then show ?thesis
    by (simp add: adapter_init_def demo_validates IBKR_LIVE_def TEST_ONLY_def demo_adapter_def Let_def)
qed

theorem arm_live_builds_four_engines_witness:
  "validate_commander_plan demo_iso (PDict demo_plan) ''S'' 5 = Inr []
   \<and> (\<exists>a. arm_live demo_iso (PDict demo_plan) ''S'' 5 None = Inr a \<and> length (ad_engines a) = 4)"
  using demo_validates arm_live_builds_four_engines [OF demo_validates] by blast

lemma demo_level_distance:
  "distance_bps demo_level (Fin 127) = Inr (Fin (625 / 8))"
  "distance_bps (demo_level\<lparr>le_last_price := x\<rparr>) (Fin 129) = Inr (Fin (625 / 8))"
  by (simp_all add: distance_bps_def demo_level_def demo_engine_def fsub_def demo_floats)

definition demo_before :: engine where "demo_before = demo_level\<lparr>le_last_price := Some (Fin 127)\<rparr>"
definition demo_crossed :: engine where
  "demo_crossed = demo_level\<lparr>le_last_price := Some (Fin 129), le_state := CROSS_RAW, le_cross_active := True\<rparr>"

lemma demo_on_price:
  "on_price demo_level (PFloat (Fin 127)) ts = Inr (demo_before, [])"
  "on_price demo_before (PFloat (Fin 129)) ts = Inr (demo_crossed, [(Ev_CROSS_RAW, Fin 129, ts)])"
proof -
  have "price_crossing demo_level (Fin 127) (Fin (625 / 8)) ts = (demo_level, [])"
    by (simp add: price_crossing_def demo_level_def demo_engine_def crossed_def)
  then show "on_price demo_level (PFloat (Fin 127)) ts = Inr (demo_before, [])"
    by (simp add: on_price_def positive_price_PFloat pos_fin_def demo_level_distance price_retest_def demo_before_def)
      (simp add: demo_level_def demo_engine_def)
  have "price_crossing demo_before (Fin 129) (Fin (625 / 8)) ts =
      (demo_crossed\<lparr>le_last_price := Some (Fin 127)\<rparr>, [(Ev_CROSS_RAW, Fin 129, ts)])"
    by (simp add: price_crossing_def demo_before_def demo_crossed_def demo_level_def demo_engine_def crossed_def)
  then show "on_price demo_before (PFloat (Fin 129)) ts = Inr (demo_crossed, [(Ev_CROSS_RAW, Fin 129, ts)])"
    by (simp add: on_price_def positive_price_PFloat pos_fin_def demo_level_distance price_retest_def
        demo_before_def demo_crossed_def) (simp add: demo_level_def demo_engine_def)
qed

definition demo_event :: "string \<Rightarrow> pyval" where
  "demo_event t = the (case emit_event demo_plan IBKR_LIVE ''IBKR_LAST'' (demo_line t) (Ev_CROSS_RAW, Fin 129, iso_z 1000000)
     of Inr ev \<Rightarrow> Some ev | Inl _ \<Rightarrow> None)"

lemma demo_hashable: "hashable (level_classification demo_plan (demo_line t))"
  by (simp add: level_classification_def dget_or_def demo_line_def demo_plan_def demo_body_def)

lemma demo_emit:
  "t \<in> set ALLOWED_LINE_TYPES \<Longrightarrow>
   emit_event demo_plan IBKR_LIVE ''IBKR_LAST'' (demo_line t) (Ev_CROSS_RAW, Fin 129, iso_z 1000000) = Inr (demo_event t)"
  using emit_event_total [OF line_ok_demo, of t demo_plan IBKR_LIVE "''IBKR_LAST''" "(Ev_CROSS_RAW, Fin 129, iso_z 1000000)"]
    demo_hashable
  by (auto simp: demo_event_def)

lemma demo_dispatch:
  "emap (dispatch_line demo_plan IBKR_LIVE ''IBKR_LAST'' (Fin 127) ts False)
     (zip (map demo_line ALLOWED_LINE_TYPES) (replicate 4 demo_level)) = Inr (replicate 4 (demo_before, []))"
  "emap (dispatch_line demo_plan IBKR_LIVE ''IBKR_LAST'' (Fin 129) (iso_z 1000000) False)
     (zip (map demo_line ALLOWED_LINE_TYPES) (replicate 4 demo_before)) =
   Inr (map (\<lambda>t. (demo_crossed, [demo_event t])) ALLOWED_LINE_TYPES)"
  using demo_emit
  by (simp_all add: ALLOWED_LINE_TYPES_def numeral_eq_Suc dispatch_line_def demo_on_price)

definition demo_obs :: "adapter_obs list" where
  "demo_obs = [LiveLast (PInt 127) (TsTime (Aware 6)), LiveLast (PInt 129) (TsTime (Aware 1000000))]"

definition demo_final :: adapter where
  "demo_final = demo_adapter\<lparr>ad_engines := replicate 4 demo_crossed, ad_events := map demo_event ALLOWED_LINE_TYPES\<rparr>"

lemma demo_run: "efold (adapter_step demo_iso) demo_obs demo_adapter = Inr demo_final"
proof -
  have "check_observation demo_iso a (PInt 127) (TsTime (Aware 6)) IBKR_LIVE = Inr (Fin 127, iso_z 6)"
    "check_observation demo_iso a (PInt 129) (TsTime (Aware 1000000)) IBKR_LIVE = Inr (Fin 129, iso_z 1000000)"
    if "ad_mode a = IBKR_LIVE" for a
    using that positive_price_PInt [of 127] positive_price_PInt [of 129]
    by (simp_all add: check_observation_def observation_ts_def)
  then show ?thesis
    by (simp add: demo_obs_def on_live_last_def dispatch_to_engines_def demo_adapter_def demo_dispatch demo_final_def
        map_replicate_const comp_def) (simp add: ALLOWED_LINE_TYPES_def numeral_eq_Suc)
qed

theorem adapter_run_events_locked_witness:
  "adapter_init demo_iso (PDict demo_plan) ''S'' 5 IBKR_LIVE None = Inr demo_adapter
   \<and> efold (adapter_step demo_iso) demo_obs demo_adapter = Inr demo_final
   \<and> demo_event ''ATTACK'' \<in> set (ad_events demo_final)
   \<and> event_locked demo_plan IBKR_LIVE (demo_event ''ATTACK'')"
proof -
  have e: "demo_event ''ATTACK'' \<in> set (ad_events demo_final)"
    by (simp add: demo_final_def ALLOWED_LINE_TYPES_def)
  show ?thesis using demo_armed demo_run e adapter_run_events_locked [OF demo_armed demo_run e] by blast
qed

lemma demo_inv: "adapter_inv demo_adapter" "adapter_inv demo_final"
proof -
  have l: "adapter_locked demo_plan IBKR_LIVE demo_adapter" using adapter_init_locked [OF demo_armed] by auto
  then show "adapter_inv demo_adapter" by (simp add: adapter_locked_def)
  show "adapter_inv demo_final"
    using l demo_run adapter_run.run_inv [of demo_iso demo_obs demo_adapter demo_final demo_plan IBKR_LIVE]
    by (simp add: adapter_run.run_def adapter_locked_def)
qed

theorem adapter_checkpoint_roundtrip_witness:
  "adapter_inv demo_final \<and> adapter_inv demo_adapter
   \<and> restore_gate6a_state demo_adapter (PDict (gate6a_state demo_final)) =
     Inr (demo_adapter\<lparr>ad_engines := replicate 4 demo_crossed\<rparr>)"
proof -
  have p: "ad_plan demo_adapter = ad_plan demo_final" by (simp add: demo_final_def)
  show ?thesis
    using demo_inv adapter_checkpoint_roundtrip [OF demo_inv(2,1) p] by (simp add: demo_final_def)
qed

theorem live_observation_accepted_witness:
  "\<exists>b. on_live_last demo_iso demo_final (PInt 130) (TsTime (Aware 8)) = Inr b \<and> length (ad_engines b) = 4"
proof -
  have h: "\<forall>line \<in> set (plan_lines demo_plan). hashable (level_classification demo_plan line)"
    using demo_hashable by auto
  have p: "positive_price (PInt 130) ''observed_price'' = Inr (Fin 130)" using positive_price_PInt [of 130] by simp
  have t: "observation_ts demo_iso (TsTime (Aware 8)) = Inr (iso_z 8)" by (simp add: observation_ts_def)
  show ?thesis using live_observation_accepted [OF demo_armed demo_run h p t] by blast
qed

theorem bridge_run_accounts_witness:
  "\<exists>b0 b. bridge_arm demo_iso (PDict demo_plan) ''S'' 5 None = Inr b0
     \<and> efold (bridge_step demo_iso) [IbkrLast (PStr ''ASST'') (PInt 127) (PInt 1) PNone] b0 = Inr b
     \<and> br_ignored_count b = 1 \<and> br_adapter b = br_adapter b0"
proof -
  let ?b0 = "\<lparr>br_adapter = demo_adapter, br_last_count = 0, br_close_count = 0, br_ignored_count = 0\<rparr>"
  let ?obs = "[IbkrLast (PStr ''ASST'') (PInt 127) (PInt 1) PNone]"
  have m: "ad_mode demo_adapter = IBKR_LIVE" and pl: "ad_plan demo_adapter = demo_plan" by (simp_all add: demo_adapter_def)
  have b0: "bridge_arm demo_iso (PDict demo_plan) ''S'' 5 None = Inr ?b0"
    by (simp add: bridge_arm_def arm_live_def demo_armed bridge_init_def m)
  have b: "efold (bridge_step demo_iso) ?obs ?b0 = Inr (?b0\<lparr>br_ignored_count := 1\<rparr>)"
    by (simp add: on_ibkr_last_def assert_live_market_data_types_def pl)
  show ?thesis using b0 b bridge_run_accounts [OF b0 b] by auto
qed

end
