(* ===== verification/Bridge_Outbox.thy ===== *)
theory Bridge_Outbox
  imports Py_Text
begin

text \<open>
  The local bridge outbox (\<^verbatim>\<open>gpt_bridge_outbox.py\<close>). A directory of JSON records is an
  association list from file stems to what a reader gets: \<open>None\<close> for text that is not JSON.
  Writing goes through a temporary file and \<^verbatim>\<open>os.link\<close>, so a record appears whole or not at
  all; between the existence check and the link another process may create the target,
  which is the argument \<open>race\<close>.
\<close>

section \<open>Directories of JSON records\<close>

type_synonym json_dir = "(string \<times> pyval option) list"

definition file_exists :: "json_dir \<Rightarrow> string \<Rightarrow> bool" where
  "file_exists dir stem \<longleftrightarrow> map_of dir stem \<noteq> None"

definition put_file :: "string \<Rightarrow> pyval option \<Rightarrow> json_dir \<Rightarrow> json_dir" where
  "put_file stem v dir = AList.update stem v dir"

definition race_in :: "pyval option option \<Rightarrow> string \<Rightarrow> json_dir \<Rightarrow> json_dir" where
  "race_in race stem dir = (case race of None \<Rightarrow> dir | Some v \<Rightarrow> put_file stem v dir)"

lemma map_of_put_file [simp]: "map_of (put_file stem v dir) s = (if s = stem then Some v else map_of dir s)"
  by (simp add: put_file_def update_conv')

section \<open>The payload contract\<close>

definition OUTBOX_SCHEMA_VERSION :: string where "OUTBOX_SCHEMA_VERSION = ''CRT_LOCAL_BRIDGE_OUTBOX_V0.1''"
definition BRIDGE_SCHEMA_VERSION :: string where "BRIDGE_SCHEMA_VERSION = ''CRT_MINIMIZED_BRIDGE_PAYLOAD_V0.1''"
definition BRIDGE_PRIVACY_CONTRACT_VERSION :: string where
  "BRIDGE_PRIVACY_CONTRACT_VERSION = ''CRT_BRIDGE_PAYLOAD_PRIVACY_CONTRACT_V0.1''"

definition required_authority :: "(string \<times> pyval) list" where
  "required_authority = [(''production'', PStr ''NOT_APPROVED''), (''trading_authority'', PStr ''NONE''),
     (''external_action_authority'', PStr ''NONE''), (''external_action_performed'', PBool False),
     (''transport_authority'', PStr ''NONE''), (''transport_performed'', PBool False),
     (''action_output'', PStr ''NONE'')]"

definition required_privacy :: "(string \<times> pyval) list" where
  "required_privacy = [(''mode'', PStr ''MINIMIZED_ALLOWLIST_ONLY''),
     (''raw_private_context_included'', PBool False), (''full_private_profile_included'', PBool False),
     (''filesystem_paths_included'', PBool False), (''broker_or_account_identifiers_included'', PBool False),
     (''credentials_or_secrets_included'', PBool False), (''transport_selected'', PBool False)]"

text \<open>The first required field of an object that differs.\<close>

definition first_mismatch :: "(string \<times> pyval) list \<Rightarrow> dict \<Rightarrow> (string \<times> pyval) option" where
  "first_mismatch required d = List.find (\<lambda>(k, v). \<not> py_eq (dget d k) v) required"

definition validate_bridge_payload :: "pyval \<Rightarrow> (string \<times> string) res" where
  "validate_bridge_payload v =
     (case v of
       PDict payload \<Rightarrow>
         (let event = dget payload ''event''; event_id = dget (dict_of event) ''event_id'';
              payload_hash = dget payload ''bridge_payload_hash'';
              authority = dget payload ''authority''; privacy = dget payload ''privacy'' in
          if \<not> py_eq (dget payload ''schema_version'') (PStr BRIDGE_SCHEMA_VERSION)
            then Inl (ValueError ''Bridge payload schema mismatch'')
          else if \<not> py_eq (dget payload ''privacy_contract_version'') (PStr BRIDGE_PRIVACY_CONTRACT_VERSION)
            then Inl (ValueError ''Bridge privacy contract mismatch'')
          else if \<not> py_eq (dget payload ''state'') (PStr ''BRIDGE_PAYLOAD_READY_LOCAL_ONLY'')
            then Inl (ValueError ''Bridge payload is not local-only ready'')
          else if \<not> is_dict event then Inl (ValueError ''Bridge event unavailable'')
          else if \<not> is_str event_id \<or> \<not> hex64 (str_of event_id)
            then Inl (ValueError ''Bridge event_id must be a 64-char hex hash'')
          else if \<not> is_str payload_hash \<or> \<not> hex64 (str_of payload_hash)
            then Inl (ValueError ''Bridge payload hash unavailable'')
          else if canonical_hash (PDict (dpop ''bridge_payload_hash'' payload)) \<noteq> str_of payload_hash
            then Inl (ValueError ''Bridge payload hash mismatch'')
          else if \<not> is_dict authority then Inl (ValueError ''Bridge authority unavailable'')
          else (case first_mismatch required_authority (dict_of authority) of
              Some (k, x) \<Rightarrow> Inl (ValueError (''Bridge authority '' @ k @ '' must remain '' @ py_repr x))
            | None \<Rightarrow>
              if \<not> is_dict privacy then Inl (ValueError ''Bridge privacy metadata unavailable'')
              else (case first_mismatch required_privacy (dict_of privacy) of
                  Some (k, x) \<Rightarrow> Inl (ValueError (''Bridge privacy '' @ k @ '' must remain '' @ py_repr x))
                | None \<Rightarrow> Inr (str_of event_id, str_of payload_hash))))
     | _ \<Rightarrow> Inl (ValueError ''Bridge payload must be an object''))"

section \<open>Enqueueing\<close>

definition read_existing :: "json_dir \<Rightarrow> string \<Rightarrow> pyval res" where
  "read_existing dir stem =
     (case map_of dir stem of
       Some (Some v) \<Rightarrow> if is_dict v then Inr v else Inl (ValueError ''Existing bridge outbox record is not an object'')
     | _ \<Rightarrow> Inl (ValueError ''Existing bridge outbox record is unreadable''))"

definition outbox_result :: "string \<Rightarrow> string \<Rightarrow> string \<Rightarrow> dict" where
  "outbox_result st event_id payload_hash =
     [(''schema_version'', PStr OUTBOX_SCHEMA_VERSION), (''state'', PStr st),
      (''event_id'', PStr event_id), (''bridge_payload_hash'', PStr payload_hash)]"

text \<open>The record already under the target name; \<open>who\<close> is the prefix of the messages.\<close>

definition check_duplicate :: "string \<Rightarrow> string \<Rightarrow> json_dir \<Rightarrow> string \<Rightarrow> string \<Rightarrow> dict res" where
  "check_duplicate identity_msg conflict_msg dir event_id payload_hash =
     ebind (read_existing dir event_id) (\<lambda>existing.
     ebind (validate_bridge_payload existing) (\<lambda>(existing_event_id, existing_hash).
     if existing_event_id \<noteq> event_id then Inl (ValueError identity_msg)
     else if existing_hash \<noteq> payload_hash then Inl (ValueError conflict_msg)
     else Inr (outbox_result ''DUPLICATE_SKIPPED'' event_id payload_hash)))"

definition enqueue_bridge_payload ::
  "pyval option option \<Rightarrow> json_dir \<Rightarrow> pyval \<Rightarrow> dict res \<times> json_dir" where
  "enqueue_bridge_payload race dir payload =
     (case validate_bridge_payload payload of
       Inl e \<Rightarrow> (Inl e, dir)
     | Inr (event_id, payload_hash) \<Rightarrow>
         if file_exists dir event_id then
           (check_duplicate ''Existing outbox event identity mismatch''
              ''Existing outbox event conflicts with new bridge payload'' dir event_id payload_hash, dir)
         else
           (let dir1 = race_in race event_id dir in
            if file_exists dir1 event_id then
              (check_duplicate ''Concurrent outbox event identity mismatch''
                 ''Concurrent outbox event conflict'' dir1 event_id payload_hash, dir1)
            else
              (let dir2 = put_file event_id (Some (json_reload payload)) dir1 in
               (ebind (read_existing dir2 event_id) (\<lambda>stored.
                ebind (validate_bridge_payload stored) (\<lambda>(stored_event_id, stored_hash).
                if stored_event_id \<noteq> event_id \<or> stored_hash \<noteq> payload_hash
                  then Inl (ValueError ''Bridge outbox post-write validation failed'')
                else Inr (outbox_result ''OUTBOX_ENQUEUED'' event_id payload_hash))), dir2))))"

section \<open>What a valid payload is\<close>

definition authority_locked :: "dict \<Rightarrow> bool" where
  "authority_locked d \<longleftrightarrow> (\<forall>(k, v) \<in> set required_authority. py_eq (dget d k) v)"

definition privacy_locked :: "dict \<Rightarrow> bool" where
  "privacy_locked d \<longleftrightarrow> (\<forall>(k, v) \<in> set required_privacy. py_eq (dget d k) v)"

definition payload_ok :: "dict \<Rightarrow> string \<Rightarrow> string \<Rightarrow> bool" where
  "payload_ok p event_id payload_hash \<longleftrightarrow>
     dget p ''schema_version'' = PStr BRIDGE_SCHEMA_VERSION
     \<and> dget p ''privacy_contract_version'' = PStr BRIDGE_PRIVACY_CONTRACT_VERSION
     \<and> dget p ''state'' = PStr ''BRIDGE_PAYLOAD_READY_LOCAL_ONLY''
     \<and> is_dict (dget p ''event'') \<and> dget (dict_of (dget p ''event'')) ''event_id'' = PStr event_id \<and> hex64 event_id
     \<and> dget p ''bridge_payload_hash'' = PStr payload_hash
     \<and> payload_hash = canonical_hash (PDict (dpop ''bridge_payload_hash'' p))
     \<and> is_dict (dget p ''authority'') \<and> authority_locked (dict_of (dget p ''authority''))
     \<and> is_dict (dget p ''privacy'') \<and> privacy_locked (dict_of (dget p ''privacy''))"

lemma first_mismatch_None: "first_mismatch req d = None \<longleftrightarrow> (\<forall>(k, v) \<in> set req. py_eq (dget d k) v)"
  by (auto simp: first_mismatch_def find_None_iff)

lemma validate_bridge_payload_iff:
  "validate_bridge_payload v = Inr (eid, h) \<longleftrightarrow> (\<exists>p. v = PDict p \<and> payload_ok p eid h)"
proof (cases v)
  case (PDict p)
  have ex: "(\<exists>q. PDict p = PDict q \<and> payload_ok q eid h) \<longleftrightarrow> payload_ok p eid h" by simp
  have "validate_bridge_payload (PDict p) = Inr (eid, h) \<Longrightarrow> payload_ok p eid h"
    by (simp add: validate_bridge_payload_def Let_def split: if_splits option.splits)
      (auto simp: payload_ok_def first_mismatch_None authority_locked_def privacy_locked_def is_str_iff)
  moreover have "payload_ok p eid h \<Longrightarrow> validate_bridge_payload (PDict p) = Inr (eid, h)"
    using canonical_hash_hex64 [of "PDict (dpop ''bridge_payload_hash'' p)"]
      first_mismatch_None [of required_authority "dict_of (dget p ''authority'')"]
      first_mismatch_None [of required_privacy "dict_of (dget p ''privacy'')"]
    by (simp add: validate_bridge_payload_def payload_ok_def authority_locked_def privacy_locked_def Let_def)
  ultimately show ?thesis unfolding PDict ex by blast
qed (simp_all add: validate_bridge_payload_def)

lemma authority_locked_reload: "authority_locked (reload_dict d) = authority_locked d"
  by (simp add: authority_locked_def required_authority_def)

lemma privacy_locked_reload: "privacy_locked (reload_dict d) = privacy_locked d"
  by (simp add: privacy_locked_def required_privacy_def)

lemma payload_ok_reload [simp]: "payload_ok (reload_dict p) eid h = payload_ok p eid h"
  by (simp add: payload_ok_def dpop_reload authority_locked_reload privacy_locked_reload)

lemma json_reload_PDict: "json_reload (PDict d) = PDict (reload_dict d)"
  by (simp add: reload_dict_def)

lemma validate_reload:
  assumes "validate_bridge_payload v = Inr (eid, h)"
  shows "validate_bridge_payload (json_reload v) = Inr (eid, h)"
  using assms unfolding validate_bridge_payload_iff by (auto simp: json_reload_PDict simp del: json_reload.simps)

section \<open>The outbox never loses or changes a record\<close>

definition record_ok :: "string \<Rightarrow> pyval option \<Rightarrow> bool" where
  "record_ok stem v \<longleftrightarrow> (\<exists>p h. v = Some (PDict p) \<and> payload_ok p stem h)"

definition outbox_ok :: "json_dir \<Rightarrow> bool" where
  "outbox_ok dir \<longleftrightarrow> (\<forall>stem v. map_of dir stem = Some v \<longrightarrow> record_ok stem v)"

lemma read_existing_Inr: "read_existing dir stem = Inr v \<longleftrightarrow> map_of dir stem = Some (Some v) \<and> is_dict v"
  by (auto simp: read_existing_def split: option.splits if_splits)

lemma file_exists_put [simp]: "file_exists (put_file stem v dir) s \<longleftrightarrow> s = stem \<or> file_exists dir s"
  by (simp add: file_exists_def)

lemma stored_payload:
  assumes "validate_bridge_payload payload = Inr (eid, h)"
  shows "read_existing (put_file eid (Some (json_reload payload)) dir) eid = Inr (json_reload payload)"
    and "record_ok eid (Some (json_reload payload))"
  using assms validate_reload [OF assms]
  by (auto simp: read_existing_Inr record_ok_def validate_bridge_payload_iff)

lemma enqueue_fresh:
  assumes "validate_bridge_payload payload = Inr (eid, h)" and "\<not> file_exists dir eid"
  shows "enqueue_bridge_payload None dir payload =
    (Inr (outbox_result ''OUTBOX_ENQUEUED'' eid h), put_file eid (Some (json_reload payload)) dir)"
  using assms stored_payload [OF assms(1)] validate_reload [OF assms(1)]
  by (simp add: enqueue_bridge_payload_def race_in_def Let_def)

lemma check_duplicate_Inr:
  "check_duplicate m1 m2 dir eid h = Inr r \<longleftrightarrow>
     (\<exists>p. map_of dir eid = Some (Some (PDict p)) \<and> payload_ok p eid h \<and> r = outbox_result ''DUPLICATE_SKIPPED'' eid h)"
  by (auto simp: check_duplicate_def ebind_Inr_iff read_existing_Inr validate_bridge_payload_iff split: if_splits)

lemma enqueue_duplicate:
  assumes "validate_bridge_payload payload = Inr (eid, h)"
    and "map_of dir eid = Some (Some (PDict p))" and "payload_ok p eid h"
  shows "enqueue_bridge_payload race dir payload = (Inr (outbox_result ''DUPLICATE_SKIPPED'' eid h), dir)"
proof -
  have "check_duplicate m1 m2 dir eid h = Inr (outbox_result ''DUPLICATE_SKIPPED'' eid h)" for m1 m2
    using assms(2,3) by (simp add: check_duplicate_Inr)
  with assms show ?thesis by (simp add: enqueue_bridge_payload_def file_exists_def)
qed

lemma enqueue_cases:
  assumes "enqueue_bridge_payload race dir payload = (r, dir')"
  shows "dir' = dir \<or> (\<exists>eid h. validate_bridge_payload payload = Inr (eid, h) \<and> \<not> file_exists dir eid
    \<and> (dir' = put_file eid (Some (json_reload payload)) dir \<or> (\<exists>v. race = Some v \<and> dir' = put_file eid v dir)))"
proof (cases "validate_bridge_payload payload")
  case (Inr x)
  then show ?thesis
    using assms by (cases x) (auto simp: enqueue_bridge_payload_def race_in_def Let_def split: if_splits option.splits)
qed (use assms in \<open>simp add: enqueue_bridge_payload_def\<close>)

text \<open>Enqueueing a valid payload of a new event stores it, passes the post-write check and
  reports it enqueued; enqueueing it again reports a duplicate and writes nothing.\<close>

theorem enqueue_then_duplicate:
  assumes "validate_bridge_payload payload = Inr (eid, h)" and "\<not> file_exists dir eid"
  shows "\<exists>dir'. enqueue_bridge_payload None dir payload = (Inr (outbox_result ''OUTBOX_ENQUEUED'' eid h), dir')
    \<and> file_exists dir' eid \<and> (\<forall>s. s \<noteq> eid \<longrightarrow> map_of dir' s = map_of dir s)
    \<and> enqueue_bridge_payload race dir' payload = (Inr (outbox_result ''DUPLICATE_SKIPPED'' eid h), dir')"
proof -
  let ?dir = "put_file eid (Some (json_reload payload)) dir"
  from validate_reload [OF assms(1)] obtain p where "json_reload payload = PDict p" "payload_ok p eid h"
    by (auto simp: validate_bridge_payload_iff)
  then have "enqueue_bridge_payload race ?dir payload = (Inr (outbox_result ''DUPLICATE_SKIPPED'' eid h), ?dir)"
    by (intro enqueue_duplicate [OF assms(1)]) auto
  with enqueue_fresh [OF assms] show ?thesis by auto
qed

definition enqueue_all :: "(pyval option option \<times> pyval) list \<Rightarrow> json_dir \<Rightarrow> json_dir" where
  "enqueue_all reqs dir = foldl (\<lambda>d (race, payload). snd (enqueue_bridge_payload race d payload)) dir reqs"

lemma enqueue_all_append [simp]:
  "enqueue_all [] dir = dir"
  "enqueue_all ((race, payload) # reqs) dir = enqueue_all reqs (snd (enqueue_bridge_payload race dir payload))"
  "enqueue_all (before @ after) dir = enqueue_all after (enqueue_all before dir)"
  by (simp_all add: enqueue_all_def)

definition valid_races :: "(pyval option option \<times> pyval) list \<Rightarrow> bool" where
  "valid_races reqs \<longleftrightarrow> (\<forall>(race, payload) \<in> set reqs. \<forall>v eid h. race = Some v \<longrightarrow>
      validate_bridge_payload payload = Inr (eid, h) \<longrightarrow> record_ok eid v)"

lemma enqueue_all_keeps:
  assumes "outbox_ok dir" and "valid_races reqs"
  shows "outbox_ok (enqueue_all reqs dir) \<and> (\<forall>stem v. map_of dir stem = Some v \<longrightarrow> map_of (enqueue_all reqs dir) stem = Some v)"
  using assms
proof (induction reqs arbitrary: dir)
  case (Cons req reqs)
  obtain race payload where req: "req = (race, payload)" by (cases req)
  obtain r d1 where d1: "enqueue_bridge_payload race dir payload = (r, d1)" by (cases "enqueue_bridge_payload race dir payload")
  have valid: "\<forall>v eid h. race = Some v \<longrightarrow> validate_bridge_payload payload = Inr (eid, h) \<longrightarrow> record_ok eid v" "valid_races reqs"
    using Cons.prems(2) by (auto simp: valid_races_def req)
  have "outbox_ok d1 \<and> (\<forall>stem v. map_of dir stem = Some v \<longrightarrow> map_of d1 stem = Some v)"
    using enqueue_cases [OF d1] Cons.prems(1) valid(1) stored_payload(2) [of payload]
    by (auto simp: outbox_ok_def file_exists_def split: if_splits)
  with Cons.IH [of d1] valid(2) show ?case by (simp add: req d1)
qed simp

text \<open>The record another process links between the check and the link is the one that stays.\<close>

lemma enqueue_raced:
  assumes "validate_bridge_payload payload = Inr (eid, h)" and "\<not> file_exists dir eid"
  shows "map_of (snd (enqueue_bridge_payload (Some w) dir payload)) eid = Some w"
  using assms by (simp add: enqueue_bridge_payload_def race_in_def Let_def)

text \<open>C11: whatever sequence of payloads is enqueued, whatever valid records other processes link
  in between, every record of the outbox stays a valid payload under its own event identifier, and
  no record once present is changed, removed or replaced: neither one that was there at the start, nor one
  another process links in the window between an enqueue's check and its own link.\<close>

theorem outbox_records_immutable:
  assumes "outbox_ok dir" and "valid_races reqs"
  shows "outbox_ok (enqueue_all reqs dir) \<and> (\<forall>stem v. map_of dir stem = Some v \<longrightarrow> map_of (enqueue_all reqs dir) stem = Some v)
    \<and> (\<forall>before payload after eid h w. reqs = before @ (Some w, payload) # after \<longrightarrow> validate_bridge_payload payload = Inr (eid, h) \<longrightarrow>
        \<not> file_exists (enqueue_all before dir) eid \<longrightarrow> map_of (enqueue_all reqs dir) eid = Some w)"
proof -
  have "map_of (enqueue_all reqs dir) eid = Some w"
    if reqs: "reqs = before @ (Some w, payload) # after" and v: "validate_bridge_payload payload = Inr (eid, h)"
      and fresh: "\<not> file_exists (enqueue_all before dir) eid" for before payload after eid h w
  proof -
    have "valid_races before" "valid_races (after)" "valid_races [(Some w, payload)]"
      using assms(2) by (auto simp: valid_races_def reqs)
    moreover from this have "outbox_ok (enqueue_all before dir)" using enqueue_all_keeps [OF assms(1)] by blast
    ultimately have "outbox_ok (enqueue_all [(Some w, payload)] (enqueue_all before dir))" using enqueue_all_keeps by blast
    then show ?thesis
      using enqueue_all_keeps [OF _ \<open>valid_races after\<close>] enqueue_raced [OF v fresh, of w] by (simp add: reqs)
  qed
  then show ?thesis using enqueue_all_keeps [OF assms] by blast
qed

text \<open>A success report means the outbox now holds a valid payload of that event with exactly
  the reported payload hash, also when another process won the race to create the file.\<close>

theorem enqueue_success_means_stored:
  assumes "enqueue_bridge_payload race dir payload = (Inr r, dir')"
  shows "\<exists>eid h p. validate_bridge_payload payload = Inr (eid, h) \<and> map_of dir' eid = Some (Some (PDict p))
    \<and> payload_ok p eid h \<and> dget r ''event_id'' = PStr eid \<and> dget r ''bridge_payload_hash'' = PStr h"
proof (cases "validate_bridge_payload payload")
  case (Inr x)
  obtain eid h where x: "x = (eid, h)" by (cases x)
  show ?thesis
  proof (cases "file_exists dir eid \<or> file_exists (race_in race eid dir) eid")
    case True
    then obtain m1 m2 where "check_duplicate m1 m2 dir' eid h = Inr r"
      using assms Inr x by (auto simp: enqueue_bridge_payload_def Let_def split: if_splits)
    then show ?thesis using Inr x by (auto simp: check_duplicate_Inr outbox_result_def)
  next
    case False
    then have "dir' = put_file eid (Some (json_reload payload)) (race_in race eid dir)"
      using assms Inr x by (simp add: enqueue_bridge_payload_def Let_def)
    moreover have "r = outbox_result ''OUTBOX_ENQUEUED'' eid h"
      using assms Inr x False by (auto simp: enqueue_bridge_payload_def Let_def ebind_Inr_iff split: if_splits)
    ultimately show ?thesis using Inr x stored_payload(2) [of payload eid h] validate_reload [of payload eid h]
      by (auto simp: validate_bridge_payload_iff outbox_result_def)
  qed
qed (use assms in \<open>simp add: enqueue_bridge_payload_def\<close>)

section \<open>A concrete payload\<close>

definition demo_event_id :: string where "demo_event_id = replicate 64 (CHR ''a'')"

definition demo_payload_body :: dict where
  "demo_payload_body = [(''schema_version'', PStr BRIDGE_SCHEMA_VERSION),
     (''privacy_contract_version'', PStr BRIDGE_PRIVACY_CONTRACT_VERSION),
     (''state'', PStr ''BRIDGE_PAYLOAD_READY_LOCAL_ONLY''),
     (''event'', PDict [(''event_id'', PStr demo_event_id)]),
     (''authority'', PDict required_authority), (''privacy'', PDict required_privacy)]"

definition demo_payload_hash :: string where "demo_payload_hash = canonical_hash (PDict demo_payload_body)"

definition demo_payload :: dict where
  "demo_payload = demo_payload_body @ [(''bridge_payload_hash'', PStr demo_payload_hash)]"

lemma hex64_demo: "hex64 demo_event_id"
  by (simp add: hex64_def demo_event_id_def list_all_iff is_hex_def)

lemma dpop_demo_payload: "dpop ''bridge_payload_hash'' demo_payload = demo_payload_body"
  by (simp add: dpop_filter demo_payload_def demo_payload_body_def)

lemma demo_payload_ok: "payload_ok demo_payload demo_event_id demo_payload_hash"
  unfolding payload_ok_def dpop_demo_payload
  by (simp add: demo_payload_hash_def hex64_demo)
    (simp add: demo_payload_def demo_payload_hash_def demo_payload_body_def authority_locked_def privacy_locked_def
      required_authority_def required_privacy_def)

lemma demo_payload_validates: "validate_bridge_payload (PDict demo_payload) = Inr (demo_event_id, demo_payload_hash)"
  using demo_payload_ok by (simp add: validate_bridge_payload_iff)

theorem enqueue_then_duplicate_witness:
  "\<exists>dir'. enqueue_bridge_payload None [] (PDict demo_payload) =
       (Inr (outbox_result ''OUTBOX_ENQUEUED'' demo_event_id demo_payload_hash), dir')
     \<and> enqueue_bridge_payload None dir' (PDict demo_payload) =
       (Inr (outbox_result ''DUPLICATE_SKIPPED'' demo_event_id demo_payload_hash), dir')"
proof -
  have "\<not> file_exists [] demo_event_id" by (simp add: file_exists_def)
  from enqueue_then_duplicate [OF demo_payload_validates this, of None] show ?thesis by blast
qed

text \<open>Two enqueues, the first beaten by another process: the other's record stays.\<close>

theorem outbox_records_immutable_witness:
  "map_of (enqueue_all [(Some (Some (PDict demo_payload)), PDict demo_payload), (None, PDict demo_payload)] []) demo_event_id
     = Some (Some (PDict demo_payload))"
proof -
  let ?w = "Some (PDict demo_payload)"
  let ?reqs = "[(Some ?w, PDict demo_payload), (None, PDict demo_payload)]"
  have "outbox_ok []" by (simp add: outbox_ok_def)
  moreover have "valid_races ?reqs"
    using demo_payload_ok by (auto simp: valid_races_def record_ok_def demo_payload_validates)
  ultimately have "\<forall>before payload after eid h w. ?reqs = before @ (Some w, payload) # after \<longrightarrow>
      validate_bridge_payload payload = Inr (eid, h) \<longrightarrow> \<not> file_exists (enqueue_all before []) eid \<longrightarrow>
      map_of (enqueue_all ?reqs []) eid = Some w"
    using outbox_records_immutable by blast
  from this [rule_format, of "[]" ?w "PDict demo_payload" "[(None, PDict demo_payload)]", OF _ demo_payload_validates]
  show ?thesis by (simp add: file_exists_def)
qed

theorem enqueue_success_means_stored_witness:
  "\<exists>p. map_of (put_file demo_event_id (Some (json_reload (PDict demo_payload))) []) demo_event_id = Some (Some (PDict p))
     \<and> payload_ok p demo_event_id demo_payload_hash"
proof -
  have n: "\<not> file_exists [] demo_event_id" by (simp add: file_exists_def)
  from enqueue_success_means_stored [OF enqueue_fresh [OF demo_payload_validates n]]
  show ?thesis by (auto simp: demo_payload_validates)
qed

end
