(* ===== verification/Transport_Boundary.thy ===== *)
theory Transport_Boundary
  imports Bridge_Outbox
begin

text \<open>
  The delivery state of one bridge event (\<^verbatim>\<open>gpt_transport_boundary.py\<close>): a sealed JSON record
  that moves between PENDING, CLAIMED, RETRYABLE and DELIVERED. The claim token of
  \<^verbatim>\<open>secrets.token_hex(32)\<close> is an argument. The OS lock of \<^verbatim>\<open>delivery_lock\<close> serialises the
  callers of the operations below; it has no state of its own.
\<close>

section \<open>Sealed states\<close>

definition BOUNDARY_SCHEMA_VERSION :: string where "BOUNDARY_SCHEMA_VERSION = ''CRT_GPT_TRANSPORT_BOUNDARY_V0.1''"
definition PENDING_REASON :: string where "PENDING_REASON = ''TRANSPORT_NOT_CONFIGURED''"
definition VALID_STATES :: "string list" where "VALID_STATES = [''PENDING'', ''CLAIMED'', ''RETRYABLE'', ''DELIVERED'']"

definition boundary_body :: "dict \<Rightarrow> dict" where
  "boundary_body state = dpop ''boundary_state_hash'' state"

definition seal_state :: "dict \<Rightarrow> dict" where
  "seal_state state = dset ''boundary_state_hash'' (PStr (canonical_hash (PDict (boundary_body state)))) (boundary_body state)"

text \<open>The part of \<^verbatim>\<open>_validate_state\<close> that ties the claim and the receipt to the state.\<close>

definition check_claim_receipt :: "string \<Rightarrow> pyval \<Rightarrow> pyval \<Rightarrow> unit res" where
  "check_claim_receipt delivery_state claim receipt =
     (if delivery_state \<in> {''PENDING'', ''RETRYABLE''} \<and> claim \<noteq> PNone
        then Inl (ValueError ''Unclaimed state must not retain a claim'')
      else if delivery_state \<in> {''PENDING'', ''RETRYABLE''} \<and> receipt \<noteq> PNone
        then Inl (ValueError ''Undelivered state must not retain a receipt'')
      else if delivery_state = ''CLAIMED'' then
        (if \<not> is_dict claim then Inl (ValueError ''Claimed state requires claim metadata'')
         else if receipt \<noteq> PNone then Inl (ValueError ''Claimed state must not retain a receipt'')
         else (case List.find (\<lambda>k. \<not> dhas (dict_of claim) k) [''claim_token'', ''adapter_id'', ''claimed_at_ms'', ''expires_at_ms''] of
             Some k \<Rightarrow> Inl (ValueError (''Claim metadata missing '' @ k))
           | None \<Rightarrow>
               ebind (py_le (dget (dict_of claim) ''expires_at_ms'') (dget (dict_of claim) ''claimed_at_ms'')) (\<lambda>late.
               if late then Inl (ValueError ''Claim expiry must be after claim time'') else Inr ())))
      else if delivery_state = ''DELIVERED'' then
        (if claim \<noteq> PNone then Inl (ValueError ''Delivered state must clear claim metadata'')
         else if \<not> is_dict receipt \<or> \<not> truthy receipt then Inl (ValueError ''Delivered state requires a receipt'')
         else Inr ())
      else Inr ())"

definition validate_state :: "pyval \<Rightarrow> dict res" where
  "validate_state v =
     (case v of
       PDict state \<Rightarrow>
         if \<not> py_eq (dget state ''schema_version'') (PStr BOUNDARY_SCHEMA_VERSION)
           then Inl (ValueError ''Transport boundary schema mismatch'')
         else ebind (in_strs (dget state ''state'') VALID_STATES) (\<lambda>known.
         if \<not> known then Inl (ValueError ''Transport boundary state is invalid'')
         else if \<not> is_len64 (dget state ''event_id'') then Inl (ValueError ''Transport boundary event_id is invalid'')
         else if \<not> is_len64 (dget state ''bridge_payload_hash'')
           then Inl (ValueError ''Transport boundary payload hash is invalid'')
         else if \<not> py_eq (dget state ''production'') (PStr ''NOT_APPROVED'')
           then Inl (ValueError ''Production approval must remain NOT_APPROVED'')
         else if \<not> py_eq (dget state ''external_action_authority'') (PStr ''NONE'')
           then Inl (ValueError ''External Action Authority must remain NONE'')
         else if \<not> py_eq (dget state ''action_output'') (PStr ''NONE'')
           then Inl (ValueError ''Action output must remain NONE'')
         else if \<not> is_len64 (dget state ''boundary_state_hash'')
           then Inl (ValueError ''Transport boundary state hash unavailable'')
         else if canonical_hash (PDict (boundary_body state)) \<noteq> str_of (dget state ''boundary_state_hash'')
           then Inl (ValueError ''Transport boundary state hash mismatch'')
         else ebind (check_claim_receipt (str_of (dget state ''state'')) (dget state ''claim'') (dget state ''receipt''))
           (\<lambda>_. Inr state))
     | _ \<Rightarrow> Inl (ValueError ''Transport boundary state must be an object''))"

section \<open>Operations\<close>

definition build_pending_state :: "pyval \<Rightarrow> dict res" where
  "build_pending_state payload =
     ebind (validate_bridge_payload payload) (\<lambda>(event_id, payload_hash).
     Inr (seal_state [
       (''schema_version'', PStr BOUNDARY_SCHEMA_VERSION),
       (''state'', PStr ''PENDING''),
       (''reason'', PStr PENDING_REASON),
       (''event_id'', PStr event_id),
       (''bridge_payload_hash'', PStr payload_hash),
       (''attempt_count'', PInt 0),
       (''claim'', PNone),
       (''receipt'', PNone),
       (''adapter_selected'', PBool False),
       (''production'', PStr ''NOT_APPROVED''),
       (''external_action_authority'', PStr ''NONE''),
       (''action_output'', PStr ''NONE'')]))"

definition read_json :: "json_dir \<Rightarrow> string \<Rightarrow> pyval res" where
  "read_json dir stem =
     (case map_of dir stem of
       Some (Some v) \<Rightarrow> if is_dict v then Inr v else Inl (ValueError (''JSON record is not an object: '' @ stem @ ''.json''))
     | _ \<Rightarrow> Inl (ValueError (''Unreadable JSON record: '' @ stem @ ''.json'')))"

definition persist_boundary_state :: "json_dir \<Rightarrow> dict \<Rightarrow> json_dir res" where
  "persist_boundary_state dir state =
     ebind (validate_state (PDict state)) (\<lambda>s.
     Inr (put_file (str_of (dget s ''event_id'')) (Some (json_reload (PDict s))) dir))"

definition boundary_result :: "string \<Rightarrow> string \<Rightarrow> string \<Rightarrow> pyval \<Rightarrow> dict" where
  "boundary_result st event_id payload_hash delivery_state =
     [(''state'', PStr st), (''event_id'', PStr event_id),
      (''bridge_payload_hash'', PStr payload_hash), (''delivery_state'', delivery_state)]"

definition existing_boundary :: "string \<Rightarrow> string \<Rightarrow> string \<Rightarrow> json_dir \<Rightarrow> string \<Rightarrow> string \<Rightarrow> dict res" where
  "existing_boundary result identity_msg conflict_msg dir event_id payload_hash =
     ebind (read_json dir event_id) (\<lambda>v.
     ebind (validate_state v) (\<lambda>existing.
     if dget existing ''event_id'' \<noteq> PStr event_id then Inl (ValueError identity_msg)
     else if dget existing ''bridge_payload_hash'' \<noteq> PStr payload_hash then Inl (ValueError conflict_msg)
     else Inr (boundary_result result event_id payload_hash (dget existing ''state''))))"

definition ensure_pending_boundary_state ::
  "pyval option option \<Rightarrow> json_dir \<Rightarrow> pyval \<Rightarrow> dict res \<times> json_dir" where
  "ensure_pending_boundary_state race dir payload =
     (case build_pending_state payload of
       Inl e \<Rightarrow> (Inl e, dir)
     | Inr pending \<Rightarrow>
         (let event_id = str_of (dget pending ''event_id''); payload_hash = str_of (dget pending ''bridge_payload_hash'') in
          if file_exists dir event_id then
            (existing_boundary ''BOUNDARY_EXISTS'' ''Existing boundary event identity mismatch''
               ''Existing boundary event conflicts with outbox payload'' dir event_id payload_hash, dir)
          else
            (let dir1 = race_in race event_id dir in
             if file_exists dir1 event_id then
               (existing_boundary ''BOUNDARY_EXISTS'' ''Concurrent boundary event identity mismatch''
                  ''Concurrent boundary event conflict'' dir1 event_id payload_hash, dir1)
             else
               (let dir2 = put_file event_id (Some (json_reload (PDict pending))) dir1 in
                (existing_boundary ''BOUNDARY_PENDING_CREATED'' ''Boundary post-write identity mismatch''
                   ''Boundary post-write payload hash mismatch'' dir2 event_id payload_hash, dir2)))))"

text \<open>One record of the sync loop; the counters and results so far are threaded.\<close>

record sync_acc =
  sa_created :: nat
  sa_existing :: nat
  sa_events :: "dict list"

fun sync_loop :: "json_dir \<Rightarrow> string list \<Rightarrow> json_dir \<Rightarrow> sync_acc \<Rightarrow> sync_acc res \<times> json_dir" where
  "sync_loop outbox [] dir acc = (Inr acc, dir)"
| "sync_loop outbox (stem # stems) dir acc =
     (case ebind (read_json outbox stem) (\<lambda>payload. ebind (validate_bridge_payload payload) (\<lambda>(event_id, _).
        if stem \<noteq> event_id then Inl (ValueError ''Outbox filename does not match semantic event_id'') else Inr payload)) of
       Inl e \<Rightarrow> (Inl e, dir)
     | Inr payload \<Rightarrow>
         (case ensure_pending_boundary_state None dir payload of
           (Inl e, dir1) \<Rightarrow> (Inl e, dir1)
         | (Inr result, dir1) \<Rightarrow>
             (let acc1 = acc\<lparr>sa_events := sa_events acc @ [result]\<rparr> in
              sync_loop outbox stems dir1
                (if py_eq (dget result ''state'') (PStr ''BOUNDARY_PENDING_CREATED'')
                 then acc1\<lparr>sa_created := sa_created acc + 1\<rparr>
                 else acc1\<lparr>sa_existing := sa_existing acc + 1\<rparr>))))"

definition sync_result :: "sync_acc \<Rightarrow> dict" where
  "sync_result acc =
     [(''schema_version'', PStr BOUNDARY_SCHEMA_VERSION),
      (''state'', PStr ''SYNC_COMPLETE''),
      (''created'', PInt (int (sa_created acc))),
      (''existing'', PInt (int (sa_existing acc))),
      (''events'', PList (map PDict (sa_events acc))),
      (''transport_configured'', PBool False),
      (''transport_performed'', PBool False)]"

definition sync_transport_boundary :: "json_dir option \<Rightarrow> json_dir \<Rightarrow> dict res \<times> json_dir" where
  "sync_transport_boundary outbox dir =
     (case outbox of
       None \<Rightarrow> (Inr (sync_result \<lparr>sa_created = 0, sa_existing = 0, sa_events = []\<rparr>), dir)
     | Some files \<Rightarrow>
         (case sync_loop files (sort_key (\<lambda>stem. stem @ ''.json'') (map fst files)) dir \<lparr>sa_created = 0, sa_existing = 0, sa_events = []\<rparr> of
           (r, dir') \<Rightarrow> (ebind r (\<lambda>acc. Inr (sync_result acc)), dir')))"

definition claim_delivery ::
  "string \<Rightarrow> dict \<Rightarrow> pyval \<Rightarrow> int \<Rightarrow> int \<Rightarrow> bool \<Rightarrow> dict res" where
  "claim_delivery token state adapter_id now_ms lease_ms adapter_selected =
     ebind (validate_state (PDict state)) (\<lambda>current.
     if \<not> adapter_selected then Inl (ValueError ''Transport adapter is not selected'')
     else if \<not> is_str adapter_id \<or> strip (str_of adapter_id) = [] then Inl (ValueError ''Adapter id is required'')
     else if lease_ms \<le> 0 then Inl (ValueError ''Claim lease must be positive'')
     else if dget current ''state'' = PStr ''DELIVERED'' then Inl (ValueError ''Delivered event cannot be claimed again'')
     else ebind (if dget current ''state'' = PStr ''CLAIMED''
                 then py_lt (PInt now_ms) (dget (dict_of (dget current ''claim'')) ''expires_at_ms'') else Inr False) (\<lambda>held.
     if held then Inl (ValueError ''Transport boundary event is already claimed'')
     else ebind (py_int (dget_or current ''attempt_count'' (PInt 0))) (\<lambda>n.
     (let claimed =
        dset ''adapter_selected'' (PBool True)
       (dset ''receipt'' PNone
       (dset ''claim'' (PDict [(''claim_token'', PStr token), (''adapter_id'', PStr (strip (str_of adapter_id))),
           (''claimed_at_ms'', PInt now_ms), (''expires_at_ms'', PInt (now_ms + lease_ms))])
       (dset ''attempt_count'' (PInt (n + 1))
       (dset ''reason'' (PStr ''ADAPTER_CLAIMED'')
       (dset ''state'' (PStr ''CLAIMED'') current)))))
      in validate_state (PDict (seal_state claimed))))))"

definition mark_retryable :: "dict \<Rightarrow> pyval \<Rightarrow> pyval \<Rightarrow> dict res" where
  "mark_retryable state claim_token reason =
     ebind (validate_state (PDict state)) (\<lambda>current.
     if dget current ''state'' \<noteq> PStr ''CLAIMED'' then Inl (ValueError ''Only a claimed event can become retryable'')
     else if \<not> py_eq (dget (dict_of (dget current ''claim'')) ''claim_token'') claim_token
       then Inl (ValueError ''Claim token mismatch'')
     else if \<not> is_str reason \<or> strip (str_of reason) = [] then Inl (ValueError ''Retry reason is required'')
     else
     (let retryable =
        dset ''adapter_selected'' (PBool False)
       (dset ''receipt'' PNone
       (dset ''claim'' PNone
       (dset ''reason'' (PStr (strip (str_of reason)))
       (dset ''state'' (PStr ''RETRYABLE'') current))))
      in validate_state (PDict (seal_state retryable))))"

definition mark_delivered :: "dict \<Rightarrow> pyval \<Rightarrow> pyval \<Rightarrow> dict res" where
  "mark_delivered state claim_token receipt =
     ebind (validate_state (PDict state)) (\<lambda>current.
     if dget current ''state'' \<noteq> PStr ''CLAIMED'' then Inl (ValueError ''Only a claimed event can become delivered'')
     else if \<not> py_eq (dget (dict_of (dget current ''claim'')) ''claim_token'') claim_token
       then Inl (ValueError ''Claim token mismatch'')
     else if \<not> is_dict receipt \<or> \<not> truthy receipt then Inl (ValueError ''Delivery receipt is required'')
     else
     (let delivered =
        dset ''adapter_selected'' (PBool True)
       (dset ''receipt'' receipt
       (dset ''claim'' PNone
       (dset ''reason'' (PStr ''DELIVERY_RECEIPT_RECORDED'')
       (dset ''state'' (PStr ''DELIVERED'') current))))
      in validate_state (PDict (seal_state delivered))))"

section \<open>Valid states\<close>

interpretation boundary_seal: sealed_record boundary_body "\<lambda>s. dget s ''boundary_state_hash''"
  "\<lambda>b. canonical_hash (PDict b)" "\<lambda>s. Inr (seal_state s)"
  by unfold_locales (auto simp: seal_state_def boundary_body_def)

definition state_locked :: "dict \<Rightarrow> bool" where
  "state_locked s \<longleftrightarrow> dget s ''schema_version'' = PStr BOUNDARY_SCHEMA_VERSION
     \<and> is_len64 (dget s ''event_id'') \<and> is_len64 (dget s ''bridge_payload_hash'')
     \<and> dget s ''production'' = PStr ''NOT_APPROVED'' \<and> dget s ''external_action_authority'' = PStr ''NONE''
     \<and> dget s ''action_output'' = PStr ''NONE''"

definition state_ok :: "dict \<Rightarrow> bool" where
  "state_ok s \<longleftrightarrow> state_locked s \<and> boundary_seal.verified s
     \<and> (\<exists>st \<in> set VALID_STATES. dget s ''state'' = PStr st
          \<and> check_claim_receipt st (dget s ''claim'') (dget s ''receipt'') = Inr ())"

lemma validate_state_iff: "validate_state v = Inr s \<longleftrightarrow> v = PDict s \<and> state_ok s"
proof
  assume a: "validate_state v = Inr s"
  then obtain d where v: "v = PDict d" by (cases v) (simp_all add: validate_state_def)
  from a have "in_strs (dget d ''state'') VALID_STATES = Inr True" and "s = d" and "state_locked d"
    and "is_len64 (dget d ''boundary_state_hash'')"
    and "canonical_hash (PDict (boundary_body d)) = str_of (dget d ''boundary_state_hash'')"
    and "check_claim_receipt (str_of (dget d ''state'')) (dget d ''claim'') (dget d ''receipt'') = Inr ()"
    unfolding v validate_state_def state_locked_def by (auto simp: ebind_Inr_iff split: if_splits)
  then show "v = PDict s \<and> state_ok s"
    by (auto simp: v state_ok_def boundary_seal.verified_def in_strs_Inr_True is_len64_def is_str_iff)
next
  assume a: "v = PDict s \<and> state_ok s"
  then obtain st where "st \<in> set VALID_STATES" "dget s ''state'' = PStr st"
    "check_claim_receipt st (dget s ''claim'') (dget s ''receipt'') = Inr ()" by (auto simp: state_ok_def)
  with a show "validate_state v = Inr s"
    by (simp add: validate_state_def state_ok_def state_locked_def boundary_seal.verified_def is_len64_hash)
qed

lemma dget_seal_state [simp]: "k \<noteq> ''boundary_state_hash'' \<Longrightarrow> dget (seal_state s) k = dget s k"
  by (simp add: seal_state_def boundary_body_def)

lemma dhas_seal_state [simp]: "k \<noteq> ''boundary_state_hash'' \<Longrightarrow> dhas (seal_state s) k = dhas s k"
  by (simp add: seal_state_def boundary_body_def)

lemma state_ok_sealed:
  "state_ok (seal_state s) \<longleftrightarrow> state_locked s
     \<and> (\<exists>st \<in> set VALID_STATES. dget s ''state'' = PStr st
          \<and> check_claim_receipt st (dget s ''claim'') (dget s ''receipt'') = Inr ())"
  using boundary_seal.seal_verified [of s] by (simp add: state_ok_def state_locked_def)

lemma boundary_body_reload: "boundary_body (reload_dict s) = reload_dict (boundary_body s)"
  by (simp add: boundary_body_def dpop_reload)

section \<open>The life cycle\<close>

datatype boundary_op =
    Claim string pyval int int bool
  | Retry pyval pyval
  | Deliver pyval pyval

fun boundary_step :: "boundary_op \<Rightarrow> dict \<Rightarrow> dict res" where
  "boundary_step (Claim token adapter now lease selected) s = claim_delivery token s adapter now lease selected"
| "boundary_step (Retry token reason) s = mark_retryable s token reason"
| "boundary_step (Deliver token receipt) s = mark_delivered s token receipt"

text \<open>
  The abstract life cycle with the number of attempts: a claim is a token and an expiry, a
  delivery is the digest of its receipt.
\<close>

datatype phase = Pending | Claimed string int | Retryable | Delivered string

fun spec_step :: "boundary_op \<Rightarrow> phase \<times> int \<Rightarrow> (phase \<times> int) option" where
  "spec_step (Claim token adapter now lease selected) (ph, n) =
     (if selected \<and> is_str adapter \<and> strip (str_of adapter) \<noteq> [] \<and> 0 < lease
         \<and> (case ph of Delivered _ \<Rightarrow> False | Claimed _ expires \<Rightarrow> expires \<le> now | _ \<Rightarrow> True)
      then Some (Claimed token (now + lease), n + 1) else None)"
| "spec_step (Retry token reason) (ph, n) =
     (case ph of
       Claimed t _ \<Rightarrow> if token = PStr t \<and> is_str reason \<and> strip (str_of reason) \<noteq> [] then Some (Retryable, n) else None
     | _ \<Rightarrow> None)"
| "spec_step (Deliver token receipt) (ph, n) =
     (case ph of
       Claimed t _ \<Rightarrow> if token = PStr t \<and> is_dict receipt \<and> truthy receipt then Some (Delivered (canonical_hash receipt), n) else None
     | _ \<Rightarrow> None)"

text \<open>What a state record says of the life cycle, for records the operations produce.\<close>

definition claim_dict :: "string \<Rightarrow> string \<Rightarrow> int \<Rightarrow> int \<Rightarrow> dict" where
  "claim_dict token adapter claimed expires =
     [(''claim_token'', PStr token), (''adapter_id'', PStr adapter), (''claimed_at_ms'', PInt claimed), (''expires_at_ms'', PInt expires)]"

definition claim_says :: "pyval \<Rightarrow> string \<Rightarrow> int \<Rightarrow> int \<Rightarrow> bool" where
  "claim_says v t c e \<longleftrightarrow> is_dict v \<and> dget (dict_of v) ''claim_token'' = PStr t
     \<and> dget (dict_of v) ''claimed_at_ms'' = PInt c \<and> dget (dict_of v) ''expires_at_ms'' = PInt e"

definition represents :: "dict \<Rightarrow> phase \<times> int \<Rightarrow> bool" where
  "represents s x \<longleftrightarrow> state_ok s \<and> dget_or s ''attempt_count'' (PInt 0) = PInt (snd x)
     \<and> (case fst x of
         Pending \<Rightarrow> dget s ''state'' = PStr ''PENDING''
       | Retryable \<Rightarrow> dget s ''state'' = PStr ''RETRYABLE''
       | Delivered r \<Rightarrow> dget s ''state'' = PStr ''DELIVERED'' \<and> canonical_hash (dget s ''receipt'') = r
       | Claimed t e \<Rightarrow> dget s ''state'' = PStr ''CLAIMED''
           \<and> (\<exists>c. claim_says (dget s ''claim'') t c e \<and> c < e))"

lemma dget_or_Cons [simp]: "dget_or ((k', v) # d) k w = (if k = k' then v else dget_or d k w)"
  by (simp add: dget_or_def)

lemma dget_or_dset [simp]: "dget_or (dset k v d) k' w = (if k' = k then v else dget_or d k' w)"
  by (simp add: dget_or_def)

lemma dget_or_seal [simp]: "k \<noteq> ''boundary_state_hash'' \<Longrightarrow> dget_or (seal_state s) k w = dget_or s k w"
  by (simp add: dget_or_def seal_state_def boundary_body_def)

lemma check_claimed:
  "c < e \<Longrightarrow> check_claim_receipt ''CLAIMED'' (PDict (claim_dict t a c e)) PNone = Inr ()"
  by (simp add: check_claim_receipt_def claim_dict_def num_le_def)

lemma check_retryable: "check_claim_receipt ''RETRYABLE'' PNone PNone = Inr ()"
  by (simp add: check_claim_receipt_def)

lemma check_delivered: "r \<noteq> [] \<Longrightarrow> check_claim_receipt ''DELIVERED'' PNone (PDict r) = Inr ()"
  by (simp add: check_claim_receipt_def)

lemmas boundary_ops_defs = claim_delivery_def mark_retryable_def mark_delivered_def

text \<open>Each operation is the step of the life cycle: it succeeds exactly when the step exists.\<close>

lemma claim_refines:
  assumes "represents s (ph, n)"
  shows "(\<exists>s'. claim_delivery token s adapter now lease selected = Inr s'
      \<and> (\<exists>y. spec_step (Claim token adapter now lease selected) (ph, n) = Some y \<and> represents s' y
          \<and> dget s' ''event_id'' = dget s ''event_id'' \<and> dget s' ''bridge_payload_hash'' = dget s ''bridge_payload_hash''))
    \<or> (\<exists>m. claim_delivery token s adapter now lease selected = Inl (ValueError m)
        \<and> spec_step (Claim token adapter now lease selected) (ph, n) = None)"
proof -
  from assms have ok: "state_ok s" "state_locked s" and n: "dget_or s ''attempt_count'' (PInt 0) = PInt n"
    by (simp_all add: represents_def state_ok_def)
  have val: "validate_state (PDict s) = Inr s" using ok by (simp add: validate_state_iff)
  let ?held = "if dget s ''state'' = PStr ''CLAIMED''
      then py_lt (PInt now) (dget (dict_of (dget s ''claim'')) ''expires_at_ms'') else Inr False"
  have held: "?held = Inr (case ph of Claimed _ e \<Rightarrow> now < e | _ \<Rightarrow> False)"
    using assms by (auto simp: represents_def claim_says_def num_lt_def split: phase.splits)
  have del: "dget s ''state'' = PStr ''DELIVERED'' \<longleftrightarrow> (\<exists>r. ph = Delivered r)"
    using assms by (auto simp: represents_def split: phase.splits)
  let ?c = "dset ''adapter_selected'' (PBool True) (dset ''receipt'' PNone
       (dset ''claim'' (PDict (claim_dict token (strip (str_of adapter)) now (now + lease)))
       (dset ''attempt_count'' (PInt (n + 1)) (dset ''reason'' (PStr ''ADAPTER_CLAIMED'') (dset ''state'' (PStr ''CLAIMED'') s)))))"
  have out: "validate_state (PDict (seal_state ?c)) = Inr (seal_state ?c)" if "0 < lease"
    using ok(2) check_claimed [of now "now + lease"] that
    by (simp add: validate_state_iff state_ok_sealed state_locked_def VALID_STATES_def)
  then have rep: "represents (seal_state ?c) (Claimed token (now + lease), n + 1)" if "0 < lease"
    using that
    by (simp add: represents_def validate_state_iff)
      (intro exI [of _ now], simp add: claim_says_def claim_dict_def)
  show ?thesis
  proof (cases "spec_step (Claim token adapter now lease selected) (ph, n)")
    case None
    then show ?thesis unfolding claim_delivery_def val ebind.simps held
      using del by (cases ph) (auto split: if_splits)
  next
    case (Some y)
    then have g: "selected" "is_str adapter" "strip (str_of adapter) \<noteq> []" "0 < lease"
      and y: "y = (Claimed token (now + lease), n + 1)" and nd: "\<nexists>r. ph = Delivered r"
      and nh: "(case ph of Claimed _ e \<Rightarrow> now < e | _ \<Rightarrow> False) = False"
      by (auto split: if_splits phase.splits)
    have "claim_delivery token s adapter now lease selected = Inr (seal_state ?c)"
      unfolding claim_delivery_def val ebind.simps held nh using g nd n del out [OF g(4)]
      by (simp add: claim_dict_def)
    then show ?thesis using Some y rep [OF g(4)] by simp
  qed
qed

lemma claimed_phase:
  assumes "represents s (ph, n)"
  shows "dget s ''state'' = PStr ''CLAIMED'' \<longleftrightarrow> (\<exists>t e. ph = Claimed t e)"
    and "ph = Claimed t e \<Longrightarrow> dget (dict_of (dget s ''claim'')) ''claim_token'' = PStr t"
  using assms by (auto simp: represents_def claim_says_def split: phase.splits)

lemma retry_refines:
  assumes "represents s (ph, n)"
  shows "(\<exists>s'. mark_retryable s token reason = Inr s'
      \<and> (\<exists>y. spec_step (Retry token reason) (ph, n) = Some y \<and> represents s' y
          \<and> dget s' ''event_id'' = dget s ''event_id'' \<and> dget s' ''bridge_payload_hash'' = dget s ''bridge_payload_hash''))
    \<or> (\<exists>m. mark_retryable s token reason = Inl (ValueError m) \<and> spec_step (Retry token reason) (ph, n) = None)"
proof -
  from assms have ok: "state_ok s" "state_locked s" and n: "dget_or s ''attempt_count'' (PInt 0) = PInt n"
    by (simp_all add: represents_def state_ok_def)
  have val: "validate_state (PDict s) = Inr s" using ok by (simp add: validate_state_iff)
  let ?r = "dset ''adapter_selected'' (PBool False) (dset ''receipt'' PNone (dset ''claim'' PNone
       (dset ''reason'' (PStr (strip (str_of reason))) (dset ''state'' (PStr ''RETRYABLE'') s))))"
  have out: "validate_state (PDict (seal_state ?r)) = Inr (seal_state ?r)"
    using ok(2) check_retryable by (simp add: validate_state_iff state_ok_sealed state_locked_def VALID_STATES_def)
  then have rep: "represents (seal_state ?r) (Retryable, n)" using n by (simp add: represents_def validate_state_iff)
  show ?thesis
  proof (cases ph)
    case (Claimed t e)
    with claimed_phase [OF assms] out rep show ?thesis by (auto simp: mark_retryable_def val)
  qed (use claimed_phase(1) [OF assms] in \<open>simp_all add: mark_retryable_def val\<close>)
qed

lemma deliver_refines:
  assumes "represents s (ph, n)"
  shows "(\<exists>s'. mark_delivered s token receipt = Inr s'
      \<and> (\<exists>y. spec_step (Deliver token receipt) (ph, n) = Some y \<and> represents s' y
          \<and> dget s' ''event_id'' = dget s ''event_id'' \<and> dget s' ''bridge_payload_hash'' = dget s ''bridge_payload_hash''))
    \<or> (\<exists>m. mark_delivered s token receipt = Inl (ValueError m) \<and> spec_step (Deliver token receipt) (ph, n) = None)"
proof -
  from assms have ok: "state_ok s" "state_locked s" and n: "dget_or s ''attempt_count'' (PInt 0) = PInt n"
    by (simp_all add: represents_def state_ok_def)
  have val: "validate_state (PDict s) = Inr s" using ok by (simp add: validate_state_iff)
  let ?r = "dset ''adapter_selected'' (PBool True) (dset ''receipt'' receipt (dset ''claim'' PNone
       (dset ''reason'' (PStr ''DELIVERY_RECEIPT_RECORDED'') (dset ''state'' (PStr ''DELIVERED'') s))))"
  have out: "validate_state (PDict (seal_state ?r)) = Inr (seal_state ?r)"
    and rep: "represents (seal_state ?r) (Delivered (canonical_hash receipt), n)" if "is_dict receipt" "truthy receipt"
  proof -
    from that obtain d where d: "receipt = PDict d" "d \<noteq> []" by (cases receipt) auto
    show "validate_state (PDict (seal_state ?r)) = Inr (seal_state ?r)"
      using ok(2) check_delivered [OF d(2)] d by (simp add: validate_state_iff state_ok_sealed state_locked_def VALID_STATES_def)
    then show "represents (seal_state ?r) (Delivered (canonical_hash receipt), n)"
      using n d by (simp add: represents_def validate_state_iff)
  qed
  show ?thesis
  proof (cases ph)
    case (Claimed t e)
    with claimed_phase [OF assms] out rep show ?thesis
      by (cases "token = PStr t \<and> is_dict receipt \<and> truthy receipt") (auto simp: mark_delivered_def val)
  qed (use claimed_phase(1) [OF assms] in \<open>simp_all add: mark_delivered_def val\<close>)
qed

lemma boundary_refines:
  assumes "represents s x"
  shows "(\<exists>s' y. boundary_step op s = Inr s' \<and> spec_step op x = Some y \<and> represents s' y
      \<and> dget s' ''event_id'' = dget s ''event_id'' \<and> dget s' ''bridge_payload_hash'' = dget s ''bridge_payload_hash'')
    \<or> (\<exists>m. boundary_step op s = Inl (ValueError m) \<and> spec_step op x = None)"
proof -
  obtain ph n where x: "x = (ph, n)" by (cases x)
  note r = assms [unfolded x]
  show ?thesis
  proof (cases op)
    case (Claim token adapter now lease selected)
    show ?thesis using claim_refines [OF r, of token adapter now lease selected] unfolding x Claim boundary_step.simps by blast
  next
    case (Retry token reason)
    show ?thesis using retry_refines [OF r, of token reason] unfolding x Retry boundary_step.simps by blast
  next
    case (Deliver token receipt)
    show ?thesis using deliver_refines [OF r, of token receipt] unfolding x Deliver boundary_step.simps by blast
  qed
qed

text \<open>C9: the sealed state records implement the delivery life cycle: on a record that represents
  an abstract state, every operation succeeds exactly when the abstract step exists, with a record
  that represents the successor and keeps the event and payload identity; otherwise it raises a
  value error (the final re-validation of the sealed record never fails).\<close>

theorem boundary_refines_lifecycle:
  assumes "represents s x"
  shows "(\<exists>s' y. boundary_step op s = Inr s' \<and> spec_step op x = Some y \<and> represents s' y
      \<and> dget s' ''event_id'' = dget s ''event_id'' \<and> dget s' ''bridge_payload_hash'' = dget s ''bridge_payload_hash'')
    \<or> (\<exists>m. boundary_step op s = Inl (ValueError m) \<and> spec_step op x = None)"
  using assms by (rule boundary_refines)

section \<open>Runs of the life cycle\<close>

fun is_claim :: "boundary_op \<Rightarrow> bool" where
  "is_claim (Claim _ _ _ _ _) \<longleftrightarrow> True"
| "is_claim _ \<longleftrightarrow> False"

fun is_deliver :: "boundary_op \<Rightarrow> bool" where
  "is_deliver (Deliver _ _) \<longleftrightarrow> True"
| "is_deliver _ \<longleftrightarrow> False"

definition represented :: "pyval \<Rightarrow> pyval \<Rightarrow> dict \<Rightarrow> bool" where
  "represented event_id payload_hash s \<longleftrightarrow> (\<exists>x. represents s x)
     \<and> dget s ''event_id'' = event_id \<and> dget s ''bridge_payload_hash'' = payload_hash"

interpretation boundary_run: guarded_machine boundary_step "represented event_id payload_hash"
  for event_id payload_hash
proof unfold_locales
  fix s op t
  assume "represented event_id payload_hash s" and "boundary_step op s = Inr t"
  then show "represented event_id payload_hash t"
    using boundary_refines [of s _ op] by (fastforce simp: represented_def)
qed

lemma build_pending_represents:
  assumes "build_pending_state payload = Inr s"
  shows "represents s (Pending, 0)"
    and "\<exists>eid h. validate_bridge_payload payload = Inr (eid, h)
      \<and> dget s ''event_id'' = PStr eid \<and> dget s ''bridge_payload_hash'' = PStr h"
proof -
  from assms obtain eid h where v: "validate_bridge_payload payload = Inr (eid, h)"
    by (auto simp: build_pending_state_def ebind_Inr_iff)
  then have len: "str_len eid = 64" "str_len h = 64" by (auto simp: validate_bridge_payload_iff payload_ok_def hex64_str_len)
  from assms v show "represents s (Pending, 0)"
    by (simp add: build_pending_state_def, elim subst)
      (simp add: represents_def state_ok_sealed state_locked_def VALID_STATES_def is_len64_def
        len check_claim_receipt_def)
  show "\<exists>eid h. validate_bridge_payload payload = Inr (eid, h)
      \<and> dget s ''event_id'' = PStr eid \<and> dget s ''bridge_payload_hash'' = PStr h"
    using assms v by (auto simp: build_pending_state_def)
qed

lemma run_counts:
  assumes "represents s0 (Pending, 0)" and "efold boundary_step ops s0 = Inr s"
  shows "\<exists>ph. represents s (ph, int (length (filter is_claim ops)))
    \<and> length (filter is_deliver ops) = of_bool (\<exists>r. ph = Delivered r)
    \<and> (\<forall>op \<in> set (butlast ops). \<not> is_deliver op)"
  using assms(2)
proof (induction ops arbitrary: s rule: rev_induct)
  case Nil
  then show ?case using assms(1) by (intro exI [of _ Pending]) auto
next
  case (snoc op ops)
  then obtain t where t: "efold boundary_step ops s0 = Inr t" and st: "boundary_step op t = Inr s"
    by (auto simp: efold_append ebind_Inr_iff)
  from snoc.IH [OF t] obtain ph where ph: "represents t (ph, int (length (filter is_claim ops)))"
    "length (filter is_deliver ops) = of_bool (\<exists>r. ph = Delivered r)" by blast
  from boundary_refines [OF ph(1), of op] st obtain y where
    y: "spec_step op (ph, int (length (filter is_claim ops))) = Some y" "represents s y" by auto
  have nd: "\<nexists>r. ph = Delivered r" using y(1) by (cases op) (auto split: if_splits)
  then have "filter is_deliver ops = []" using ph(2) by simp
  then have none: "\<forall>op \<in> set ops. \<not> is_deliver op" by (simp add: filter_empty_conv)
  have "snd y = int (length (filter is_claim (ops @ [op])))" "(\<exists>r. fst y = Delivered r) \<longleftrightarrow> is_deliver op"
    using y(1) by (cases op; auto split: if_splits phase.splits)+
  moreover from this(1) y(2) have "represents s (fst y, int (length (filter is_claim (ops @ [op]))))"
    by (metis prod.collapse)
  moreover have "length (filter is_deliver (ops @ [op])) = of_bool (is_deliver op)" using none by (simp add: filter_False)
  ultimately show ?case using none by (intro exI [of _ "fst y"]) (simp del: filter_append)
qed

text \<open>Over every run of claims, retries and deliveries from the pending record of an event:
  the attempt counter is the number of claims, at most one delivery succeeds and it is the last
  operation of the run, and the event and payload identity never change.\<close>

theorem delivery_run_counts:
  assumes "build_pending_state payload = Inr s0" and "efold boundary_step ops s0 = Inr s"
  shows "dget_or s ''attempt_count'' (PInt 0) = PInt (int (length (filter is_claim ops)))
    \<and> length (filter is_deliver ops) = of_bool (dget s ''state'' = PStr ''DELIVERED'')
    \<and> (\<forall>op \<in> set (butlast ops). \<not> is_deliver op)
    \<and> dget s ''event_id'' = dget s0 ''event_id''
    \<and> dget s ''bridge_payload_hash'' = dget s0 ''bridge_payload_hash''"
proof -
  from build_pending_represents(1) [OF assms(1)] have r0: "represents s0 (Pending, 0)" .
  from run_counts [OF this assms(2)] obtain ph where ph: "represents s (ph, int (length (filter is_claim ops)))"
    "length (filter is_deliver ops) = of_bool (\<exists>r. ph = Delivered r)" "\<forall>op \<in> set (butlast ops). \<not> is_deliver op" by blast
  have "(dget s ''state'' = PStr ''DELIVERED'') \<longleftrightarrow> (\<exists>r. ph = Delivered r)"
    using ph(1) by (auto simp: represents_def split: phase.splits)
  moreover have "represented (dget s0 ''event_id'') (dget s0 ''bridge_payload_hash'') s"
    using boundary_run.run_inv [of ops s0 s] assms(2) r0 by (auto simp: boundary_run.run_def represented_def)
  ultimately show ?thesis using ph by (simp add: represents_def represented_def)
qed

text \<open>C10: a claim is exclusive: while its lease lasts no adapter can claim the event, and once
  another token has taken over an expired claim the first holder can neither deliver nor give the
  event back.\<close>

theorem claim_is_exclusive:
  assumes "represents s (Claimed t expires, n)"
  shows "(now < expires \<longrightarrow> (\<exists>m. claim_delivery t' s adapter now lease selected = Inl (ValueError m)))
    \<and> (\<forall>s'. claim_delivery t' s adapter now lease selected = Inr s' \<and> t' \<noteq> t \<longrightarrow>
        (\<exists>m. mark_delivered s' (PStr t) receipt = Inl (ValueError m))
        \<and> (\<exists>m. mark_retryable s' (PStr t) reason = Inl (ValueError m)))"
proof (intro conjI allI impI)
  assume "now < expires"
  then show "\<exists>m. claim_delivery t' s adapter now lease selected = Inl (ValueError m)"
    using boundary_refines [OF assms, of "Claim t' adapter now lease selected"] by auto
next
  fix s' assume c: "claim_delivery t' s adapter now lease selected = Inr s' \<and> t' \<noteq> t"
  then have s': "represents s' (Claimed t' (now + lease), n + 1)"
    using boundary_refines [OF assms, of "Claim t' adapter now lease selected"] by (auto split: if_splits)
  show "\<exists>m. mark_delivered s' (PStr t) receipt = Inl (ValueError m)"
    using boundary_refines [OF s', of "Deliver (PStr t) receipt"] c by auto
  show "\<exists>m. mark_retryable s' (PStr t) reason = Inl (ValueError m)"
    using boundary_refines [OF s', of "Retry (PStr t) reason"] c by auto
qed

section \<open>States on disk\<close>

lemma sort_key_Nil_iff: "sort_key f xs = [] \<longleftrightarrow> xs = []"
  by (metis length_0_conv length_sort)

lemma reload_list_map: "reload_list xs = map json_reload xs"
  by (induction xs) auto

lemma truthy_reload [simp]: "truthy (json_reload v) = truthy v"
  by (cases v) (simp_all add: reload_items_map reload_list_map sort_key_Nil_iff)

lemma claim_says_reload [simp]: "claim_says (json_reload v) t c e = claim_says v t c e"
  by (auto simp: claim_says_def)

lemma canonical_hash_json_reload [simp]: "canonical_hash (json_reload v) = canonical_hash v"
  by (simp add: canonical_hash_def json_reload_text)

lemma dget_or_reload [simp]: "dget_or (reload_dict d) k (PInt i) = json_reload (dget_or d k (PInt i))"
proof -
  have "map_of (reload_dict d) k = map_option json_reload (map_of d k)"
    unfolding reload_dict_def map_of_sort_key reload_items_map by (induction d) auto
  then show ?thesis by (auto simp: dget_or_def split: option.splits)
qed

lemma state_locked_reload [simp]: "state_locked (reload_dict s) = state_locked s"
  by (simp add: state_locked_def is_len64_def)

lemma verified_reload [simp]: "boundary_seal.verified (reload_dict s) = boundary_seal.verified s"
  by (simp add: boundary_seal.verified_def boundary_body_reload)

lemma check_receipt_reload:
  assumes "st = ''CLAIMED'' \<Longrightarrow> claim_says claim t c e"
  shows "check_claim_receipt st (json_reload claim) (json_reload receipt) = check_claim_receipt st claim receipt"
proof (cases "st = ''CLAIMED''")
  case True
  then show ?thesis using assms [OF True] by (simp add: check_claim_receipt_def claim_says_def)
next
  case False
  then show ?thesis unfolding check_claim_receipt_def by simp
qed

lemma represents_reload:
  assumes "represents s x"
  shows "represents (reload_dict s) x"
proof -
  obtain ph n where x: "x = (ph, n)" by (cases x)
  from assms obtain st where st: "st \<in> set VALID_STATES" "dget s ''state'' = PStr st"
    "check_claim_receipt st (dget s ''claim'') (dget s ''receipt'') = Inr ()"
    by (auto simp: represents_def state_ok_def)
  have "\<exists>t c e. st = ''CLAIMED'' \<longrightarrow> claim_says (dget s ''claim'') t c e"
    using assms st(2) unfolding x represents_def by (cases ph) auto
  then have "check_claim_receipt st (json_reload (dget s ''claim'')) (json_reload (dget s ''receipt'')) = Inr ()"
    using st(3) check_receipt_reload by metis
  with assms st have "state_ok (reload_dict s)" by (auto simp: represents_def state_ok_def)
  with assms show ?thesis unfolding x represents_def by (cases ph) simp_all
qed

lemma represents_valid: "represents s x \<Longrightarrow> validate_state (PDict s) = Inr s"
  by (simp add: validate_state_iff represents_def)

lemma read_json_put [simp]:
  "read_json (put_file stem (Some (PDict d)) dir) stem = Inr (PDict d)"
  by (simp add: read_json_def)

text \<open>A persisted state survives the disk: persisting a record of the life cycle succeeds,
  touches only the file of its event, and what is read back validates and represents the same
  state of the life cycle.\<close>

theorem persisted_state_survives:
  assumes "represents s x" and "dget s ''event_id'' = PStr eid"
  shows "\<exists>dir' s'. persist_boundary_state dir s = Inr dir'
    \<and> (\<forall>stem. stem \<noteq> eid \<longrightarrow> map_of dir' stem = map_of dir stem)
    \<and> ebind (read_json dir' eid) validate_state = Inr s' \<and> represents s' x"
proof -
  let ?dir = "put_file eid (Some (PDict (reload_dict s))) dir"
  have "persist_boundary_state dir s = Inr ?dir"
    using represents_valid [OF assms(1)] assms(2) by (simp add: persist_boundary_state_def json_reload_PDict del: json_reload.simps(2))
  moreover have "ebind (read_json ?dir eid) validate_state = Inr (reload_dict s)"
    using represents_valid [OF represents_reload [OF assms(1)]] by simp
  ultimately show ?thesis using represents_reload [OF assms(1)] by auto
qed

section \<open>Mirroring the outbox\<close>

lemma ensure_pending_fresh:
  assumes "validate_bridge_payload payload = Inr (eid, h)" and "\<not> file_exists dir eid"
  shows "\<exists>s. represents s (Pending, 0) \<and> dget s ''event_id'' = PStr eid \<and> dget s ''bridge_payload_hash'' = PStr h
    \<and> ensure_pending_boundary_state None dir payload =
      (Inr (boundary_result ''BOUNDARY_PENDING_CREATED'' eid h (PStr ''PENDING'')), put_file eid (Some (PDict s)) dir)"
proof -
  from assms(1) obtain s where s: "build_pending_state payload = Inr s"
    by (simp add: build_pending_state_def)
  have r: "represents (reload_dict s) (Pending, 0)" using build_pending_represents(1) [OF s] by (rule represents_reload)
  have ids: "dget s ''event_id'' = PStr eid" "dget s ''bridge_payload_hash'' = PStr h"
    using build_pending_represents(2) [OF s] assms(1) by auto
  have st: "dget s ''state'' = PStr ''PENDING''" using build_pending_represents(1) [OF s] by (simp add: represents_def)
  have "ensure_pending_boundary_state None dir payload =
      (Inr (boundary_result ''BOUNDARY_PENDING_CREATED'' eid h (PStr ''PENDING'')), put_file eid (Some (PDict (reload_dict s))) dir)"
    using assms(2) represents_valid [OF r]
    by (simp add: ensure_pending_boundary_state_def s ids st race_in_def existing_boundary_def json_reload_PDict Let_def
        del: json_reload.simps(2))
  then show ?thesis using r ids by (intro exI [of _ "reload_dict s"]) auto
qed

lemma ensure_pending_keeps:
  assumes "ensure_pending_boundary_state None dir payload = (r, dir')" and "map_of dir stem = Some v"
  shows "map_of dir' stem = Some v"
  using assms
  by (auto simp: ensure_pending_boundary_state_def race_in_def file_exists_def Let_def split: sum.splits if_splits)

definition mirrored :: "json_dir \<Rightarrow> json_dir \<Rightarrow> string \<Rightarrow> bool" where
  "mirrored outbox dir stem \<longleftrightarrow> (\<exists>p h s. map_of outbox stem = Some (Some (PDict p)) \<and> payload_ok p stem h
     \<and> map_of dir stem = Some (Some (PDict s)) \<and> state_ok s
     \<and> dget s ''event_id'' = PStr stem \<and> dget s ''bridge_payload_hash'' = PStr h)"

lemma payload_ok_hash: "payload_ok p eid h \<Longrightarrow> payload_ok p eid' h' \<Longrightarrow> h' = h"
  unfolding payload_ok_def by metis

lemma ensure_pending_existing:
  assumes "validate_bridge_payload payload = Inr (stem, h)" and "map_of dir stem = Some (Some (PDict s))"
    and "state_ok s" "dget s ''event_id'' = PStr stem" "dget s ''bridge_payload_hash'' = PStr h"
  shows "ensure_pending_boundary_state None dir payload = (Inr (boundary_result ''BOUNDARY_EXISTS'' stem h (dget s ''state'')), dir)"
proof -
  obtain q where q: "build_pending_state payload = Inr q" using assms(1) by (simp add: build_pending_state_def)
  have "dget q ''event_id'' = PStr stem" "dget q ''bridge_payload_hash'' = PStr h"
    using build_pending_represents(2) [OF q] assms(1) by auto
  moreover have "validate_state (PDict s) = Inr s" using assms(3) by (simp add: validate_state_iff)
  ultimately show ?thesis
    using assms by (simp add: ensure_pending_boundary_state_def q file_exists_def existing_boundary_def read_json_def)
qed

lemma sync_loop_mirrors:
  assumes "\<forall>stem \<in> set stems. \<exists>p h. map_of outbox stem = Some (Some (PDict p)) \<and> payload_ok p stem h"
    and "distinct stems" and "\<forall>stem \<in> set stems. file_exists dir stem \<longrightarrow> mirrored outbox dir stem"
  shows "\<exists>acc' dir'. sync_loop outbox stems dir acc = (Inr acc', dir')
    \<and> sa_created acc' = sa_created acc + length (filter (\<lambda>stem. \<not> file_exists dir stem) stems)
    \<and> sa_existing acc' = sa_existing acc + length (filter (file_exists dir) stems)
    \<and> (\<forall>stem \<in> set stems. mirrored outbox dir' stem)
    \<and> (\<forall>stem v. map_of dir stem = Some v \<longrightarrow> map_of dir' stem = Some v)"
  using assms
proof (induction stems arbitrary: dir acc)
  case (Cons stem stems)
  from Cons.prems(1) obtain p h where p: "map_of outbox stem = Some (Some (PDict p))" and ok: "payload_ok p stem h" by auto
  have val: "validate_bridge_payload (PDict p) = Inr (stem, h)" using ok by (simp add: validate_bridge_payload_iff)
  have rd: "read_json outbox stem = Inr (PDict p)" using p by (simp add: read_json_def)
  let ?ex = "file_exists dir stem"
  obtain r d1 where e: "ensure_pending_boundary_state None dir (PDict p) = (Inr r, d1)"
    and created: "dget r ''state'' = PStr ''BOUNDARY_PENDING_CREATED'' \<longleftrightarrow> \<not> ?ex"
    and m: "mirrored outbox d1 stem" and other: "\<forall>t. t \<noteq> stem \<longrightarrow> map_of d1 t = map_of dir t"
  proof (cases ?ex)
    case True
    then have mir: "mirrored outbox dir stem" using Cons.prems(3) by simp
    then obtain p' h' s where s': "map_of outbox stem = Some (Some (PDict p'))" "payload_ok p' stem h'"
      and s: "map_of dir stem = Some (Some (PDict s))" "state_ok s"
      "dget s ''event_id'' = PStr stem" "dget s ''bridge_payload_hash'' = PStr h'" unfolding mirrored_def by blast
    have "h' = h" using p ok s' payload_ok_hash [OF ok] by simp
    note s = s [unfolded this]
    show ?thesis by (rule that [OF ensure_pending_existing [OF val s]]) (use True mir in \<open>simp_all add: boundary_result_def\<close>)
  next
    case False
    from ensure_pending_fresh [OF val False] obtain s where s: "represents s (Pending, 0)"
      "dget s ''event_id'' = PStr stem" "dget s ''bridge_payload_hash'' = PStr h"
      and e: "ensure_pending_boundary_state None dir (PDict p) =
        (Inr (boundary_result ''BOUNDARY_PENDING_CREATED'' stem h (PStr ''PENDING'')), put_file stem (Some (PDict s)) dir)"
      by (elim exE conjE) (rule that)
    have "mirrored outbox (put_file stem (Some (PDict s)) dir) stem"
      using p ok s by (auto simp: mirrored_def represents_def)
    then show ?thesis by (intro that [OF e]) (use False in \<open>simp_all add: boundary_result_def\<close>)
  qed
  have fe: "file_exists d1 t = file_exists dir t" if "t \<noteq> stem" for t using other that by (simp add: file_exists_def)
  have ne: "t \<noteq> stem" if "t \<in> set stems" for t using that Cons.prems(2) by auto
  have mono: "map_of dir t = Some v \<Longrightarrow> map_of d1 t = Some v" for t v using ensure_pending_keeps [OF e] .
  let ?acc = "acc\<lparr>sa_events := sa_events acc @ [r]\<rparr>"
  define acc1 where
    "acc1 = (if ?ex then ?acc\<lparr>sa_existing := sa_existing acc + 1\<rparr> else ?acc\<lparr>sa_created := sa_created acc + 1\<rparr>)"
  have step: "sync_loop outbox (stem # stems) dir acc = sync_loop outbox stems d1 acc1"
    using created by (simp add: rd val e acc1_def Let_def)
  have acc1: "sa_created acc1 = sa_created acc + of_bool (\<not> ?ex)" "sa_existing acc1 = sa_existing acc + of_bool ?ex"
    by (simp_all add: acc1_def)
  have filt: "filter (file_exists d1) stems = filter (file_exists dir) stems"
    "filter (\<lambda>t. \<not> file_exists d1 t) stems = filter (\<lambda>t. \<not> file_exists dir t) stems"
    using fe ne by (auto intro!: filter_cong)
  have prem3: "\<forall>t \<in> set stems. file_exists d1 t \<longrightarrow> mirrored outbox d1 t"
  proof (intro ballI impI)
    fix t assume t: "t \<in> set stems" "file_exists d1 t"
    then have "mirrored outbox dir t" using Cons.prems(3) fe [OF ne [OF t(1)]] by simp
    then show "mirrored outbox d1 t" using other ne [OF t(1)] by (simp add: mirrored_def)
  qed
  have prem1: "\<forall>t \<in> set stems. \<exists>p h. map_of outbox t = Some (Some (PDict p)) \<and> payload_ok p t h" and prem2: "distinct stems"
    using Cons.prems(1,2) by simp_all
  from Cons.IH [OF prem1 prem2 prem3, of acc1] obtain acc' dir' where
    ih: "sync_loop outbox stems d1 acc1 = (Inr acc', dir')"
      "sa_created acc' = sa_created acc1 + length (filter (\<lambda>t. \<not> file_exists d1 t) stems)"
      "sa_existing acc' = sa_existing acc1 + length (filter (file_exists d1) stems)"
      "\<forall>t \<in> set stems. mirrored outbox dir' t" "\<forall>t v. map_of d1 t = Some v \<longrightarrow> map_of dir' t = Some v"
    by (elim exE conjE) (rule that)
  have "mirrored outbox dir' stem" using m ih(5) unfolding mirrored_def by blast
  moreover have "sa_created acc' = sa_created acc + length (filter (\<lambda>t. \<not> file_exists dir t) (stem # stems))"
    "sa_existing acc' = sa_existing acc + length (filter (file_exists dir) (stem # stems))"
    using ih(2,3) filt acc1 by simp_all
  moreover have "\<forall>t v. map_of dir t = Some v \<longrightarrow> map_of dir' t = Some v" using ih(5) mono by blast
  ultimately show ?case unfolding step using ih(1,4) by simp
qed simp

text \<open>Synchronising a sound outbox with a boundary directory whose states match it succeeds,
  counts every event once as created or existing, leaves every existing delivery state untouched,
  and afterwards every outbox event has a valid boundary state with its identity and payload hash.\<close>

theorem sync_mirrors_outbox:
  assumes "outbox_ok outbox" and "distinct (map fst outbox)"
    and "\<forall>stem \<in> set (map fst outbox). file_exists dir stem \<longrightarrow> mirrored outbox dir stem"
  shows "\<exists>r dir' created existing. sync_transport_boundary (Some outbox) dir = (Inr r, dir')
    \<and> dget r ''created'' = PInt (int created) \<and> dget r ''existing'' = PInt (int existing)
    \<and> created + existing = length outbox
    \<and> (\<forall>stem \<in> set (map fst outbox). mirrored outbox dir' stem)
    \<and> (\<forall>stem v. map_of dir stem = Some v \<longrightarrow> map_of dir' stem = Some v)"
proof -
  let ?stems = "sort_key (\<lambda>stem. stem @ ''.json'') (map fst outbox)"
  let ?acc = "\<lparr>sa_created = 0, sa_existing = 0, sa_events = []\<rparr>"
  have "\<forall>stem \<in> set ?stems. \<exists>p h. map_of outbox stem = Some (Some (PDict p)) \<and> payload_ok p stem h"
  proof
    fix stem assume "stem \<in> set ?stems"
    then obtain v where v: "map_of outbox stem = Some v" by (auto dest: weak_map_of_SomeI)
    then have "record_ok stem v" using assms(1) by (simp add: outbox_ok_def)
    with v show "\<exists>p h. map_of outbox stem = Some (Some (PDict p)) \<and> payload_ok p stem h" by (auto simp: record_ok_def)
  qed
  from sync_loop_mirrors [OF this, of dir ?acc] assms(2,3) obtain acc' dir' where
    l: "sync_loop outbox ?stems dir ?acc = (Inr acc', dir')"
      "sa_created acc' = length (filter (\<lambda>stem. \<not> file_exists dir stem) ?stems)"
      "sa_existing acc' = length (filter (file_exists dir) ?stems)"
      "\<forall>stem \<in> set (map fst outbox). mirrored outbox dir' stem" "\<forall>stem v. map_of dir stem = Some v \<longrightarrow> map_of dir' stem = Some v"
    by auto
  have "sa_created acc' + sa_existing acc' = length outbox"
    using l(2,3) sum_length_filter_compl [of "file_exists dir" ?stems] by simp
  with l show ?thesis
    by (intro exI [of _ "sync_result acc'"] exI [of _ dir'] exI [of _ "sa_created acc'"] exI [of _ "sa_existing acc'"])
      (simp add: sync_transport_boundary_def sync_result_def)
qed

section \<open>Concrete runs\<close>

definition demo_ops :: "boundary_op list" where
  "demo_ops = [Claim ''t1'' (PStr ''A'') 100 50 True, Retry (PStr ''t1'') (PStr ''later''),
     Claim ''t2'' (PStr ''A'') 200 50 True, Deliver (PStr ''t2'') (PDict [(''id'', PStr ''r'')])]"

lemma spec_run_refines:
  assumes "represents s x" and "spec_step op x = Some y"
  shows "\<exists>s'. boundary_step op s = Inr s' \<and> represents s' y"
  using boundary_refines [OF assms(1), of op] assms(2) by auto

lemma strip_demo: "strip ''A'' = ''A''" "strip ''later'' = ''later''"
  by (simp_all add: strip_def is_space_def Let_def)

lemma demo_pending: "\<exists>s0. build_pending_state (PDict demo_payload) = Inr s0"
  by (simp add: build_pending_state_def demo_payload_validates)

lemma demo_ops_run:
  assumes "represents s0 (Pending, 0)"
  shows "\<exists>s. efold boundary_step demo_ops s0 = Inr s"
proof -
  obtain s1 where 1: "boundary_step (Claim ''t1'' (PStr ''A'') 100 50 True) s0 = Inr s1" "represents s1 (Claimed ''t1'' 150, 1)"
    using spec_run_refines [OF assms, of "Claim ''t1'' (PStr ''A'') 100 50 True"] by (auto simp: strip_demo)
  obtain s2 where 2: "boundary_step (Retry (PStr ''t1'') (PStr ''later'')) s1 = Inr s2" "represents s2 (Retryable, 1)"
    using spec_run_refines [OF 1(2), of "Retry (PStr ''t1'') (PStr ''later'')"] by (auto simp: strip_demo)
  obtain s3 where 3: "boundary_step (Claim ''t2'' (PStr ''A'') 200 50 True) s2 = Inr s3" "represents s3 (Claimed ''t2'' 250, 2)"
    using spec_run_refines [OF 2(2), of "Claim ''t2'' (PStr ''A'') 200 50 True"] by (auto simp: strip_demo)
  obtain s4 where 4: "boundary_step (Deliver (PStr ''t2'') (PDict [(''id'', PStr ''r'')])) s3 = Inr s4"
    using spec_run_refines [OF 3(2), of "Deliver (PStr ''t2'') (PDict [(''id'', PStr ''r'')])"] by auto
  show ?thesis by (simp add: demo_ops_def 1(1) 2(1) 3(1) 4 del: boundary_step.simps)
qed

theorem boundary_refines_lifecycle_witness:
  "\<exists>s s'. build_pending_state (PDict demo_payload) = Inr s \<and> represents s (Pending, 0)
     \<and> claim_delivery ''t1'' s (PStr ''A'') 100 50 True = Inr s' \<and> represents s' (Claimed ''t1'' 150, 1)"
proof -
  obtain s where s: "build_pending_state (PDict demo_payload) = Inr s" using demo_pending by blast
  note r = build_pending_represents(1) [OF s]
  show ?thesis using s r boundary_refines_lifecycle [OF r, of "Claim ''t1'' (PStr ''A'') 100 50 True"]
    by (auto simp: strip_demo)
qed

theorem delivery_run_counts_witness:
  "\<exists>s0 s. build_pending_state (PDict demo_payload) = Inr s0 \<and> efold boundary_step demo_ops s0 = Inr s
     \<and> dget s ''state'' = PStr ''DELIVERED'' \<and> dget_or s ''attempt_count'' (PInt 0) = PInt 2"
proof -
  obtain s0 where s0: "build_pending_state (PDict demo_payload) = Inr s0" using demo_pending by blast
  obtain s where s: "efold boundary_step demo_ops s0 = Inr s"
    using demo_ops_run [OF build_pending_represents(1) [OF s0]] by blast
  have c: "length (filter is_claim demo_ops) = 2" "length (filter is_deliver demo_ops) = 1" by (simp_all add: demo_ops_def)
  have "length (filter is_deliver demo_ops) = of_bool (dget s ''state'' = PStr ''DELIVERED'')"
    using delivery_run_counts [OF s0 s] by blast
  then have "dget s ''state'' = PStr ''DELIVERED''" using c(2) by (cases "dget s ''state'' = PStr ''DELIVERED''") simp_all
  then show ?thesis using s0 s delivery_run_counts [OF s0 s] c(1) by auto
qed

theorem claim_is_exclusive_witness:
  "\<exists>s. represents s (Claimed ''t1'' 150, 1) \<and> (\<exists>m. claim_delivery ''t2'' s (PStr ''B'') 149 50 True = Inl (ValueError m))"
proof -
  obtain s0 where s0: "build_pending_state (PDict demo_payload) = Inr s0" using demo_pending by blast
  obtain s where s: "represents s (Claimed ''t1'' 150, 1)"
    using spec_run_refines [OF build_pending_represents(1) [OF s0], of "Claim ''t1'' (PStr ''A'') 100 50 True"]
    by (auto simp: strip_demo)
  show ?thesis using s claim_is_exclusive [OF s, of 149 "''t2''" "PStr ''B''" 50 True] by auto
qed

theorem persisted_state_survives_witness:
  "\<exists>s dir'. build_pending_state (PDict demo_payload) = Inr s \<and> persist_boundary_state [] s = Inr dir'
     \<and> (\<exists>s'. ebind (read_json dir' demo_event_id) validate_state = Inr s' \<and> represents s' (Pending, 0))"
proof -
  obtain s where s: "build_pending_state (PDict demo_payload) = Inr s" using demo_pending by blast
  have "dget s ''event_id'' = PStr demo_event_id"
    using build_pending_represents(2) [OF s] by (auto simp: demo_payload_validates)
  from s persisted_state_survives [OF build_pending_represents(1) [OF s] this, of "[]"] show ?thesis by blast
qed

theorem sync_mirrors_outbox_witness:
  "\<exists>r dir'. sync_transport_boundary (Some [(demo_event_id, Some (PDict demo_payload))]) [] = (Inr r, dir')
     \<and> mirrored [(demo_event_id, Some (PDict demo_payload))] dir' demo_event_id"
proof -
  let ?o = "[(demo_event_id, Some (PDict demo_payload))]"
  have o: "outbox_ok ?o" using demo_payload_ok by (auto simp: outbox_ok_def record_ok_def)
  have d: "distinct (map fst ?o)" by simp
  have m: "\<forall>stem \<in> set (map fst ?o). file_exists [] stem \<longrightarrow> mirrored ?o [] stem" by (simp add: file_exists_def)
  show ?thesis using sync_mirrors_outbox [OF o d m] by auto
qed

end
