(* ===== verification/Plan_Drift.thy ===== *)
theory Plan_Drift
  imports Py_Text
begin

text \<open>
  The drift check of active capital plans (\<^verbatim>\<open>plan_drift.py\<close>): every validity condition of a
  pending tranche is bound to one source value and compared; the verdict counts satisfied,
  violated and blocked conditions. The nested loops are folds over accumulators that carry
  the counters the code carries.
\<close>

section \<open>Sources\<close>

definition SUPPORTED_OPERATORS :: "string list" where
  "SUPPORTED_OPERATORS = [''LT'', ''LTE'', ''GT'', ''GTE'', ''EQ'', ''NE'']"






section \<open>Conditions\<close>

text \<open>\<^verbatim>\<open>None\<close> is the inner \<open>None\<close>; an \<^verbatim>\<open>int\<close> too large for a float raises.\<close>

definition finite_number :: "pyval \<Rightarrow> pyfloat option res" where
  "finite_number v =
     (if is_bool v then Inr None
      else (case py_float v of
          Inl (TypeError _) \<Rightarrow> Inr None
        | Inl (ValueError _) \<Rightarrow> Inr None
        | Inl e \<Rightarrow> Inl e
        | Inr x \<Rightarrow> Inr (if is_finite x then Some x else None)))"

definition verdict :: "bool \<Rightarrow> string" where
  "verdict b = (if b then ''SATISFIED'' else ''VIOLATED'')"

definition evaluate_condition :: "pyval \<Rightarrow> string \<Rightarrow> pyval \<Rightarrow> string res" where
  "evaluate_condition current op target =
     (let operator = upper op in
      if operator \<notin> set SUPPORTED_OPERATORS then Inr ''BLOCKED_OPERATOR_UNSUPPORTED''
      else if operator = ''EQ'' then Inr (verdict (py_eq current target))
      else if operator = ''NE'' then Inr (verdict (\<not> py_eq current target))
      else ebind (finite_number current) (\<lambda>left. ebind (finite_number target) (\<lambda>right.
        Inr (case (left, right) of
           (Some l, Some r) \<Rightarrow>
             verdict (if operator = ''LT'' then flt l r else if operator = ''LTE'' then fle l r
                      else if operator = ''GT'' then flt r l else fle r l)
         | _ \<Rightarrow> ''BLOCKED_NOT_COMPARABLE''))))"


section \<open>Plans\<close>














section \<open>A reference for the verdict\<close>






















text \<open>Comparisons are decided or blocked, never both: on values that are finite numbers a
  strict comparison is satisfied exactly when its opposite is violated, equality and inequality
  are opposite on all values, and a comparison with a value that is no finite number is blocked.\<close>

theorem condition_operators_opposite:
  assumes "finite_number v = Inr (Some x)" and "finite_number w = Inr (Some y)"
  shows "(evaluate_condition v ''LT'' w = Inr ''SATISFIED'' \<longleftrightarrow> evaluate_condition v ''GTE'' w = Inr ''VIOLATED'')
    \<and> (evaluate_condition v ''GT'' w = Inr ''SATISFIED'' \<longleftrightarrow> evaluate_condition v ''LTE'' w = Inr ''VIOLATED'')
    \<and> (evaluate_condition v ''LT'' w = Inr ''SATISFIED'' \<longleftrightarrow> evaluate_condition w ''GT'' v = Inr ''SATISFIED'')
    \<and> (evaluate_condition u ''EQ'' t = Inr ''SATISFIED'' \<longleftrightarrow> evaluate_condition u ''NE'' t = Inr ''VIOLATED'')
    \<and> (finite_number u = Inr None \<longrightarrow> evaluate_condition u ''LT'' w = Inr ''BLOCKED_NOT_COMPARABLE'')"
proof -
  have up: "upper ''LT'' = ''LT''" "upper ''GTE'' = ''GTE''" "upper ''GT'' = ''GT''" "upper ''LTE'' = ''LTE''"
    "upper ''EQ'' = ''EQ''" "upper ''NE'' = ''NE''" by (simp_all add: upper_def upper_char_def)
  have fin: "is_finite x" "is_finite y"
    using assms by (auto simp: finite_number_def split: if_splits sum.splits exn.splits)
  then obtain p q where "x = Fin p" "y = Fin q" by (auto simp: is_finite_iff)
  with assms show ?thesis
    by (simp add: evaluate_condition_def up SUPPORTED_OPERATORS_def verdict_def not_less not_le)
qed

theorem condition_operators_opposite_witness:
  "finite_number (PInt 1) = Inr (Some (Fin 1)) \<and> finite_number (PInt 2) = Inr (Some (Fin 2))
   \<and> (evaluate_condition (PInt 1) ''LT'' (PInt 2) = Inr ''SATISFIED''
      \<longleftrightarrow> evaluate_condition (PInt 1) ''GTE'' (PInt 2) = Inr ''VIOLATED'')"
proof -
  have a: "finite_number (PInt 1) = Inr (Some (Fin 1))" by (simp add: finite_number_def float_of_int_def Let_def)
  have b: "finite_number (PInt 2) = Inr (Some (Fin 2))" by (simp add: finite_number_def float_of_int_def Let_def)
  show ?thesis using a b condition_operators_opposite [OF a b] by blast
qed







end
