(* ===== verification/Run_Ledger.thy ===== *)
theory Run_Ledger
  imports Py_Text
begin

text \<open>
  Hash-chained append-only ledgers. The first section states the contract of a chain as a
  locale; the Live Shadow run ledger (\<^verbatim>\<open>run_ledger.py\<close>) and the post-seal maturity ledger
  (\<^verbatim>\<open>maturity_tracker.py\<close>) interpret it. A ledger file is the list of its non-blank lines as a
  JSON reader sees them (\<open>None\<close> for a line that is no JSON) and whether its last line is torn.
\<close>

section \<open>The contract of a hash chain\<close>

locale hash_chain =
  fixes body :: "'r \<Rightarrow> 'b"
    and prev :: "'r \<Rightarrow> string"
    and stamp :: "'r \<Rightarrow> string"
    and digest :: "'r \<Rightarrow> string"
  assumes body_prev: "body r = body r' \<Longrightarrow> prev r = prev r'"
begin

fun chained :: "string \<Rightarrow> 'r list \<Rightarrow> bool" where
  "chained h [] \<longleftrightarrow> True"
| "chained h (r # rs) \<longleftrightarrow> prev r = h \<and> stamp r = digest r \<and> chained (stamp r) rs"

fun head :: "string \<Rightarrow> 'r list \<Rightarrow> string" where
  "head h [] = h"
| "head h (r # rs) = head (stamp r) rs"

lemma head_append [simp]: "head h (rs @ ss) = head (head h rs) ss"
  by (induction rs arbitrary: h) auto

lemma chained_append: "chained h (rs @ ss) \<longleftrightarrow> chained h rs \<and> chained (head h rs) ss"
  by (induction rs arbitrary: h) auto

lemma head_snoc: "rs \<noteq> [] \<Longrightarrow> head h rs = stamp (last rs)"
  by (induction rs arbitrary: h) auto

text \<open>Two chains of the same length with the same head carry the same bodies, unless two
  different bodies of theirs have the same digest.\<close>

lemma chain_determined:
  assumes "chained h rs" and "chained h ss" and "length rs = length ss" and "head h rs = head h ss"
    and "\<And>r s. r \<in> set rs \<Longrightarrow> s \<in> set ss \<Longrightarrow> digest r = digest s \<Longrightarrow> body r = body s"
  shows "map body rs = map body ss"
  using assms
proof (induction rs arbitrary: ss rule: rev_induct)
  case (snoc r rs)
  then obtain s ss' where ss: "ss = ss' @ [s]" by (cases ss rule: rev_cases) auto
  from snoc.prems have stamps: "stamp r = digest r" "stamp s = digest s" "stamp r = stamp s"
    by (simp_all add: ss chained_append)
  then have bodies: "body r = body s" using snoc.prems(5) [of r s] by (simp add: ss)
  have "map body rs = map body ss'"
  proof (rule snoc.IH)
    show "head h rs = head h ss'" using snoc.prems(1,2) body_prev [OF bodies] by (simp add: ss chained_append)
  qed (use snoc.prems in \<open>auto simp: ss chained_append\<close>)
  with bodies show ?case by (simp add: ss)
qed simp

text \<open>Nor can chains of different lengths have the same head, unless a record's digest is the
  value the chains start from.\<close>

lemma chain_length:
  assumes "chained h rs" and "chained h ss" and "head h rs = head h ss"
    and "\<And>r s. r \<in> set rs \<Longrightarrow> s \<in> set ss \<Longrightarrow> digest r = digest s \<Longrightarrow> body r = body s"
    and "h \<notin> digest ` (set rs \<union> set ss)"
  shows "length rs = length ss"
  using assms
proof (induction rs arbitrary: ss rule: rev_induct)
  case Nil
  then show ?case by (cases ss rule: rev_cases) (auto simp: chained_append)
next
  case (snoc r rs)
  have r: "chained h rs" "prev r = head h rs" "stamp r = digest r" "digest r \<noteq> h"
    using snoc.prems(1,5) by (simp_all add: chained_append) blast
  show ?case
  proof (cases ss rule: rev_cases)
    case Nil
    with snoc.prems(3) r(3,4) show ?thesis by simp
  next
    case tail: (snoc ss' s)
    have s: "chained h ss'" "prev s = head h ss'" "stamp s = digest s" "stamp r = stamp s"
      using snoc.prems(2,3) by (simp_all add: tail chained_append)
    then have "body r = body s" using r(3) snoc.prems(4) [of r s] by (simp add: tail)
    then have "prev r = prev s" by (rule body_prev)
    with r(2) s(2) have heads: "head h rs = head h ss'" by simp
    have "length rs = length ss'"
    proof (rule snoc.IH [OF r(1) s(1) heads])
      fix a b assume "a \<in> set rs" "b \<in> set ss'" "digest a = digest b"
      then show "body a = body b" using snoc.prems(4) [of a b] by (simp add: tail)
    next
      show "h \<notin> digest ` (set rs \<union> set ss')" using snoc.prems(5) by (simp add: tail)
    qed
    then show ?thesis by (simp add: tail)
  qed
qed

end

section \<open>The run ledger\<close>

definition LEDGER_SCHEMA_VERSION :: string where "LEDGER_SCHEMA_VERSION = ''CRT_RUN_LEDGER_RECORD_V1''"
definition GENESIS_HASH :: string where "GENESIS_HASH = replicate 64 (CHR ''0'')"
definition EXTERNAL_ACTION_AUTHORITY :: string where "EXTERNAL_ACTION_AUTHORITY = ''NONE''"

record ledger_file =
  lf_torn :: bool
  lf_lines :: "pyval option list"

record ledger_validation =
  lv_valid :: bool
  lv_record_count :: nat
  lv_last_sequence :: int
  lv_head_hash :: string
  lv_errors :: "string list"

definition raw_lines :: "ledger_file \<Rightarrow> pyval option list res" where
  "raw_lines f = (if lf_torn f then Inl (Custom ''RunLedgerError'' [''ledger does not end with newline; possible torn append''])
     else Inr (lf_lines f))"

definition parse_row :: "nat \<times> pyval option \<Rightarrow> dict res" where
  "parse_row x = (case x of (index, line) \<Rightarrow>
     (case line of
       None \<Rightarrow> Inl (Custom ''RunLedgerError'' [''invalid JSON at ledger line '' @ int_str (int index)])
     | Some (PDict row) \<Rightarrow> Inr row
     | Some _ \<Rightarrow> Inl (Custom ''RunLedgerError'' [''ledger line '' @ int_str (int index) @ '' is not an object''])))"

definition records :: "ledger_file \<Rightarrow> dict list res" where
  "records f = ebind (raw_lines f) (\<lambda>ls. emap parse_row (zip [1..<length ls + 1] ls))"

definition body_for_hash :: "dict \<Rightarrow> dict" where
  "body_for_hash r = filter (\<lambda>(k, _). k \<noteq> ''record_hash'') r"

definition compute_record_hash :: "dict \<Rightarrow> string" where
  "compute_record_hash r = canonical_hash (PDict (body_for_hash r))"

text \<open>What the validation loop carries from row to row.\<close>

record chain_scan =
  cs_errors :: "string list"
  cs_previous :: string
  cs_seen_hashes :: "string list"
  cs_seen_keys :: "(int \<times> string) list"
  cs_last_sequence :: int

definition line_msg :: "nat \<Rightarrow> string \<Rightarrow> string" where
  "line_msg n msg = ''line '' @ int_str (int n) @ '': '' @ msg"

text \<open>The field checks of a row, in the order of the code.\<close>

definition row_errors :: "nat \<Rightarrow> string \<Rightarrow> dict \<Rightarrow> string list" where
  "row_errors n previous row =
     (let sequence = dget row ''sequence'' in
      (if py_eq sequence (PInt (int n)) then [] else [line_msg n (''sequence '' @ py_repr sequence @ '' is not contiguous'')])
    @ (if py_eq (dget row ''schema_version'') (PStr LEDGER_SCHEMA_VERSION) then [] else [line_msg n ''wrong schema_version''])
    @ (if py_eq (dget row ''prev_record_hash'') (PStr previous) then [] else [line_msg n ''previous hash mismatch''])
    @ (if py_eq (dget row ''external_action_authority'') (PStr EXTERNAL_ACTION_AUTHORITY) then []
       else [line_msg n ''external action authority is not NONE''])
    @ (if dget row ''external_action_performed'' = PBool False then []
       else [line_msg n ''external_action_performed must be false''])
    @ (if py_eq (dget row ''record_hash'') (PStr (compute_record_hash row)) then []
       else [line_msg n ''record hash mismatch'']))"

definition scan_hash :: "nat \<Rightarrow> pyval \<Rightarrow> chain_scan \<Rightarrow> chain_scan" where
  "scan_hash n stored s =
     (if is_str stored then
        s\<lparr>cs_errors := cs_errors s @ (if str_of stored \<in> set (cs_seen_hashes s) then [line_msg n ''duplicate record hash''] else []),
          cs_seen_hashes := str_of stored # cs_seen_hashes s, cs_previous := str_of stored\<rparr>
      else s)"

definition snapshot_key :: "dict \<Rightarrow> (int \<times> string) res" where
  "snapshot_key payload =
     ebind (py_int (dget_or payload ''as_of_ms'' (PInt (- 1)))) (\<lambda>ms.
     Inr (ms, py_str (dget payload ''snapshot_hash'')))"

definition scan_snapshot :: "nat \<Rightarrow> dict \<Rightarrow> chain_scan \<Rightarrow> chain_scan res" where
  "scan_snapshot n row s =
     (if \<not> py_eq (dget row ''record_type'') (PStr ''SNAPSHOT'') then Inr s
      else if \<not> is_dict (dget row ''payload'')
        then Inr (s\<lparr>cs_errors := cs_errors s @ [line_msg n ''snapshot payload missing'']\<rparr>)
      else ebind (snapshot_key (dict_of (dget row ''payload''))) (\<lambda>key.
        Inr (s\<lparr>cs_errors := cs_errors s @ (if key \<in> set (cs_seen_keys s) then [line_msg n ''duplicate snapshot ledger key''] else []),
               cs_seen_keys := key # cs_seen_keys s\<rparr>)))"

definition scan_row :: "nat \<times> dict \<Rightarrow> chain_scan \<Rightarrow> chain_scan res" where
  "scan_row x s = (case x of (n, row) \<Rightarrow>
     ebind (scan_snapshot n row
        (scan_hash n (dget row ''record_hash'') (s\<lparr>cs_errors := cs_errors s @ row_errors n (cs_previous s) row\<rparr>))) (\<lambda>s'.
     Inr (if is_int (dget row ''sequence'') \<or> is_bool (dget row ''sequence'')
          then s'\<lparr>cs_last_sequence := int_of (dget row ''sequence'')\<rparr> else s')))"

definition scan_start :: chain_scan where
  "scan_start = \<lparr>cs_errors = [], cs_previous = GENESIS_HASH, cs_seen_hashes = [], cs_seen_keys = [], cs_last_sequence = 0\<rparr>"

definition ledger_validate :: "string option \<Rightarrow> ledger_file \<Rightarrow> ledger_validation res" where
  "ledger_validate expected_head f =
     (case records f of
       Inl (Custom _ msgs) \<Rightarrow> Inr \<lparr>lv_valid = False, lv_record_count = 0, lv_last_sequence = 0,
          lv_head_hash = GENESIS_HASH, lv_errors = [join ''; '' msgs]\<rparr>
     | Inl e \<Rightarrow> Inl e
     | Inr rows \<Rightarrow>
         ebind (efold scan_row (zip [1..<length rows + 1] rows) scan_start) (\<lambda>s.
         (let errors = cs_errors s @ (case expected_head of
                Some h \<Rightarrow> if cs_previous s \<noteq> h then [''ledger head hash does not match retained checkpoint''] else []
              | None \<Rightarrow> [])
          in Inr \<lparr>lv_valid = (errors = []), lv_record_count = length rows, lv_last_sequence = cs_last_sequence s,
                  lv_head_hash = cs_previous s, lv_errors = errors\<rparr>)))"

section \<open>Appending\<close>

text \<open>The record \<^verbatim>\<open>append\<close> writes; \<open>run_id\<close> is the caller's or a fresh UUID.\<close>

definition new_record :: "nat \<Rightarrow> string \<Rightarrow> dict \<Rightarrow> int \<Rightarrow> string \<Rightarrow> pyval \<Rightarrow> dict" where
  "new_record count record_type payload now run_id previous =
     (let r = [(''schema_version'', PStr LEDGER_SCHEMA_VERSION),
        (''sequence'', PInt (int count + 1)),
        (''record_type'', PStr record_type),
        (''run_id'', PStr run_id),
        (''observed_ms'', PInt now),
        (''prev_record_hash'', previous),
        (''external_action_authority'', PStr EXTERNAL_ACTION_AUTHORITY),
        (''external_action_performed'', PBool False),
        (''payload'', PDict payload)]
      in r @ [(''record_hash'', PStr (compute_record_hash r))])"

definition last_record :: "ledger_file \<Rightarrow> dict option res" where
  "last_record f = ebind (records f) (\<lambda>rows. Inr (if rows = [] then None else Some (last rows)))"

text \<open>An append to a file whose last line is torn glues the new line to the torn one.\<close>

definition complete_lines :: "ledger_file \<Rightarrow> pyval option list" where
  "complete_lines f = (if lf_torn f then butlast (lf_lines f) else lf_lines f)"

definition write_line :: "dict \<Rightarrow> ledger_file \<Rightarrow> ledger_file" where
  "write_line r f = f\<lparr>lf_torn := False,
     lf_lines := complete_lines f @ [if lf_torn f then None else Some (PDict (reload_dict r))]\<rparr>"

text \<open>A process that dies inside the write leaves part of its line: no JSON and no newline behind it.\<close>

definition torn_append :: "ledger_file \<Rightarrow> ledger_file" where
  "torn_append f = f\<lparr>lf_torn := True, lf_lines := complete_lines f @ [None]\<rparr>"

text \<open>The record \<^verbatim>\<open>append\<close> is about to write, from the file as it finds it; then the whole of it.\<close>

definition append_record :: "string \<Rightarrow> dict \<Rightarrow> int \<Rightarrow> string \<Rightarrow> ledger_file \<Rightarrow> dict res" where
  "append_record record_type payload now run_id f =
     ebind (ledger_validate None f) (\<lambda>current.
     if \<not> lv_valid current
     then Inl (Custom ''RunLedgerError'' [''refusing append to invalid ledger: '' @ join ''; '' (lv_errors current)])
     else ebind (last_record f) (\<lambda>previous.
       ebind (case previous of None \<Rightarrow> Inr (PStr GENESIS_HASH) | Some r \<Rightarrow> py_index (PDict r) ''record_hash'') (\<lambda>prev_hash.
       Inr (new_record (lv_record_count current) record_type payload now run_id prev_hash))))"

definition ledger_append ::
  "string \<Rightarrow> dict \<Rightarrow> int \<Rightarrow> string \<Rightarrow> ledger_file \<Rightarrow> dict res \<times> ledger_file" where
  "ledger_append record_type payload now run_id f =
     (case append_record record_type payload now run_id f of
       Inl e \<Rightarrow> (Inl e, f)
     | Inr r \<Rightarrow>
         (let f' = write_line r f in
          (ebind (ledger_validate None f') (\<lambda>post.
             if lv_valid post then Inr r
             else Inl (Custom ''RunLedgerError'' [''ledger failed validation after append: '' @ join ''; '' (lv_errors post)])), f')))"

definition SNAPSHOT_SCHEMA_VERSION :: string where "SNAPSHOT_SCHEMA_VERSION = ''CRT_LIQ_AGGREGATE_SNAPSHOT_V1''"

definition verify_snapshot :: "pyval \<Rightarrow> unit res" where
  "verify_snapshot v =
     (let err = (\<lambda>m. Inl (Custom ''SnapshotCorruption'' [m])); snapshot = dict_of v;
          expected = dget snapshot ''snapshot_hash'' in
      if \<not> is_dict v then err ''snapshot must be an object''
      else if \<not> is_str expected \<or> str_len (str_of expected) \<noteq> 64 then err ''snapshot_hash missing or invalid''
      else if canonical_hash (PDict (dpop ''snapshot_hash'' snapshot)) \<noteq> str_of expected then err ''snapshot hash mismatch''
      else if \<not> py_eq (dget snapshot ''schema_version'') (PStr SNAPSHOT_SCHEMA_VERSION) then err ''snapshot schema mismatch''
      else if \<not> py_eq (dget snapshot ''external_action_authority'') (PStr ''NONE'')
        then err ''snapshot cannot have external action authority''
      else Inr ())"

definition is_snapshot_of :: "int \<Rightarrow> string \<Rightarrow> dict \<Rightarrow> bool" where
  "is_snapshot_of as_of_ms snapshot_hash row \<longleftrightarrow>
     py_eq (dget row ''record_type'') (PStr ''SNAPSHOT'') \<and> is_dict (dget row ''payload'')
     \<and> py_eq (dget (dict_of (dget row ''payload'')) ''as_of_ms'') (PInt as_of_ms)
     \<and> py_eq (dget (dict_of (dget row ''payload'')) ''snapshot_hash'') (PStr snapshot_hash)"

definition snapshot_exists :: "int \<Rightarrow> string \<Rightarrow> ledger_file \<Rightarrow> dict option res" where
  "snapshot_exists as_of_ms snapshot_hash f =
     ebind (records f) (\<lambda>rows. Inr (List.find (is_snapshot_of as_of_ms snapshot_hash) (rev rows)))"

definition snapshot_payload ::
  "dict \<Rightarrow> int \<Rightarrow> string \<Rightarrow> string \<Rightarrow> string \<Rightarrow> int \<Rightarrow> string \<Rightarrow> dict res" where
  "snapshot_payload snapshot as_of_ms snapshot_hash registry_hash archive_path elapsed_ms process_run_id =
     ebind (py_index (PDict snapshot) ''coverage_ratio'') (\<lambda>c. ebind (py_float c) (\<lambda>coverage.
     ebind (py_index (PDict snapshot) ''quality_state'') (\<lambda>quality.
     ebind (py_iter (dget_or snapshot ''blocked_reasons'' (PList []))) (\<lambda>blocked.
     ebind (py_index (PDict snapshot) ''event_set_hash'') (\<lambda>events.
     ebind (py_index (PDict snapshot) ''connection_set_hash'') (\<lambda>connections.
     Inr [(''as_of_ms'', PInt as_of_ms), (''registry_hash'', PStr registry_hash),
          (''snapshot_hash'', PStr snapshot_hash), (''archive_path'', PStr archive_path),
          (''coverage_ratio'', PFloat coverage), (''quality_state'', quality),
          (''blocked_reasons'', PList blocked), (''elapsed_ms'', PInt elapsed_ms),
          (''event_set_hash'', events), (''connection_set_hash'', connections),
          (''process_run_id'', PStr process_run_id)]))))))"

definition append_snapshot ::
  "pyval \<Rightarrow> string \<Rightarrow> string \<Rightarrow> int \<Rightarrow> string \<Rightarrow> int option \<Rightarrow> string \<Rightarrow> ledger_file \<Rightarrow> dict res \<times> ledger_file" where
  "append_snapshot snapshot registry_hash archive_path elapsed_ms process_run_id observed_ms uuid f =
     (case ebind (verify_snapshot snapshot) (\<lambda>_. ebind (py_index snapshot ''as_of_ms'') (\<lambda>v. ebind (py_int v) (\<lambda>as_of_ms.
        ebind (py_index snapshot ''snapshot_hash'') (\<lambda>h.
        ebind (snapshot_exists as_of_ms (py_str h) f) (\<lambda>existing. Inr (as_of_ms, py_str h, existing)))))) of
       Inl e \<Rightarrow> (Inl e, f)
     | Inr (as_of_ms, snapshot_hash, Some row) \<Rightarrow>
         (ebind (py_index (PDict row) ''record_hash'') (\<lambda>h. ebind (py_index (PDict row) ''sequence'') (\<lambda>sq.
            Inr [(''append_status'', PStr ''DUPLICATE_SKIPPED''), (''existing_record_hash'', h), (''existing_sequence'', sq)])), f)
     | Inr (as_of_ms, snapshot_hash, None) \<Rightarrow>
         (case snapshot_payload (dict_of snapshot) as_of_ms snapshot_hash registry_hash archive_path elapsed_ms process_run_id of
            Inl e \<Rightarrow> (Inl e, f)
          | Inr payload \<Rightarrow>
              (case ledger_append ''SNAPSHOT'' payload (case observed_ms of Some ms \<Rightarrow> ms | None \<Rightarrow> as_of_ms) uuid f of
                 (r, f') \<Rightarrow> (ebind r (\<lambda>rec. Inr (dset ''append_status'' (PStr ''APPENDED'') rec)), f'))))"

definition append_process_event ::
  "string \<Rightarrow> string \<Rightarrow> dict \<Rightarrow> int \<Rightarrow> string \<Rightarrow> ledger_file \<Rightarrow> dict res \<times> ledger_file" where
  "append_process_event event process_run_id details now uuid f =
     ledger_append ''PROCESS_EVENT''
       [(''event'', PStr event), (''process_run_id'', PStr process_run_id), (''details'', PDict details)] now uuid f"

definition iter_type :: "string \<Rightarrow> ledger_file \<Rightarrow> dict list res" where
  "iter_type record_type f =
     ebind (records f) (\<lambda>rows. Inr (filter (\<lambda>row. py_eq (dget row ''record_type'') (PStr record_type)) rows))"

text \<open>The records among the lines of a file, readable as a whole or not.\<close>

definition ledger_rows :: "ledger_file \<Rightarrow> dict list" where
  "ledger_rows f = concat (map (\<lambda>l. case l of Some (PDict row) \<Rightarrow> [row] | _ \<Rightarrow> []) (lf_lines f))"

lemma records_rows:
  assumes "records f = Inr rows"
  shows "ledger_rows f = rows"
proof -
  have e: "emap parse_row xs = Inr rs \<Longrightarrow> concat (map (\<lambda>l. case l of Some (PDict row) \<Rightarrow> [row] | _ \<Rightarrow> []) (map snd xs)) = rs" for xs rs
  proof (induction xs arbitrary: rs)
    case (Cons x xs)
    then obtain r rs' where "parse_row x = Inr r" "emap parse_row xs = Inr rs'" "rs = r # rs'" by (auto simp: ebind_Inr_iff)
    moreover from this have "snd x = Some (PDict r)"
      by (cases x) (auto simp: parse_row_def split: option.splits pyval.splits)
    ultimately show ?case using Cons.IH [of rs'] by simp
  qed simp
  from assms have "emap parse_row (zip [1..<length (lf_lines f) + 1] (lf_lines f)) = Inr rows"
    by (auto simp: records_def raw_lines_def split: if_splits)
  from e [OF this] show ?thesis by (simp add: ledger_rows_def del: upt_Suc)
qed

lemma rows_complete: "\<exists>rest. ledger_rows f = concat (map (\<lambda>l. case l of Some (PDict row) \<Rightarrow> [row] | _ \<Rightarrow> []) (complete_lines f)) @ rest"
proof (cases "lf_torn f \<and> lf_lines f \<noteq> []")
  case True
  then have "lf_lines f = complete_lines f @ [last (lf_lines f)]" by (simp add: complete_lines_def)
  then show ?thesis unfolding ledger_rows_def by (metis concat_append map_append)
qed (auto simp: complete_lines_def ledger_rows_def)

text \<open>A line written to a torn file, or torn itself, at most takes the last record away.\<close>

lemma rows_write:
  "if lf_torn f then \<exists>rest. ledger_rows f = ledger_rows (write_line r f) @ rest
   else ledger_rows (write_line r f) = ledger_rows f @ [reload_dict r]"
  using rows_complete [of f] by (auto simp: ledger_rows_def write_line_def complete_lines_def)

lemma rows_torn: "\<exists>rest. ledger_rows f = ledger_rows (torn_append f) @ rest"
  using rows_complete [of f] by (auto simp: ledger_rows_def torn_append_def)

lemma torn_ledger:
  assumes "lf_torn f"
  shows "records f = Inl (Custom ''RunLedgerError'' [''ledger does not end with newline; possible torn append''])"
    "\<exists>v. ledger_validate e f = Inr v \<and> \<not> lv_valid v"
    "\<exists>m. ledger_append ty p now uid f = (Inl (Custom ''RunLedgerError'' m), f)"
proof -
  show r: "records f = Inl (Custom ''RunLedgerError'' [''ledger does not end with newline; possible torn append''])"
    using assms by (simp add: records_def raw_lines_def)
  have v: "\<exists>v. ledger_validate e' f = Inr v \<and> \<not> lv_valid v" for e' by (simp add: ledger_validate_def r)
  then show "\<exists>v. ledger_validate e f = Inr v \<and> \<not> lv_valid v" .
  from v [of None] obtain v where "ledger_validate None f = Inr v" "\<not> lv_valid v" by blast
  then show "\<exists>m. ledger_append ty p now uid f = (Inl (Custom ''RunLedgerError'' m), f)" by (simp add: ledger_append_def append_record_def)
qed

section \<open>A valid ledger is a hash chain\<close>

abbreviation row_prev :: "dict \<Rightarrow> string" where "row_prev r \<equiv> str_of (dget r ''prev_record_hash'')"
abbreviation row_stamp :: "dict \<Rightarrow> string" where "row_stamp r \<equiv> str_of (dget r ''record_hash'')"

lemma body_for_hash_dpop: "body_for_hash r = dpop ''record_hash'' r"
  unfolding body_for_hash_def dpop_filter by (rule filter_cong) auto

text \<open>What a record says, whatever the order of its keys.\<close>

definition row_content :: "dict \<Rightarrow> dict" where
  "row_content r = reload_dict (body_for_hash r)"

interpretation ledger: hash_chain row_content row_prev row_stamp compute_record_hash
proof unfold_locales
  fix r r' assume "row_content r = row_content r'"
  then have "str_of (dget (row_content r) ''prev_record_hash'') = str_of (dget (row_content r') ''prev_record_hash'')" by simp
  then show "row_prev r = row_prev r'" by (simp add: row_content_def body_for_hash_dpop)
qed

definition row_locked :: "nat \<Rightarrow> dict \<Rightarrow> bool" where
  "row_locked n r \<longleftrightarrow> py_eq (dget r ''sequence'') (PInt (int n)) \<and> dget r ''schema_version'' = PStr LEDGER_SCHEMA_VERSION
     \<and> is_str (dget r ''prev_record_hash'') \<and> is_str (dget r ''record_hash'')
     \<and> dget r ''external_action_authority'' = PStr ''NONE'' \<and> dget r ''external_action_performed'' = PBool False"

lemma row_errors_Nil:
  "row_errors n previous row = [] \<longleftrightarrow> row_locked n row \<and> row_prev row = previous \<and> row_stamp row = compute_record_hash row"
  by (auto simp: row_errors_def row_locked_def Let_def EXTERNAL_ACTION_AUTHORITY_def is_str_iff)

lemma scan_hash_errors: "cs_errors (scan_hash n v s) = [] \<Longrightarrow> cs_errors s = [] \<and> (is_str v \<longrightarrow> str_of v \<notin> set (cs_seen_hashes s))"
  by (auto simp: scan_hash_def split: if_splits)

lemma scan_hash_str:
  "is_str v \<Longrightarrow> cs_previous (scan_hash n v s) = str_of v" "is_str v \<Longrightarrow> cs_seen_hashes (scan_hash n v s) = str_of v # cs_seen_hashes s"
  by (simp_all add: scan_hash_def)

lemma scan_snapshot_Inr:
  assumes "scan_snapshot n row s = Inr t"
  shows "cs_previous t = cs_previous s" "cs_seen_hashes t = cs_seen_hashes s" "cs_errors t = [] \<Longrightarrow> cs_errors s = []"
  using assms by (auto simp: scan_snapshot_def ebind_Inr_iff split: if_splits)

lemma scan_row_ok:
  assumes "scan_row (n, row) s = Inr t" and "cs_errors t = []"
  shows "cs_errors s = []" and "row_locked n row" and "row_prev row = cs_previous s"
    and "row_stamp row = compute_record_hash row" and "row_stamp row \<notin> set (cs_seen_hashes s)"
    and "cs_previous t = row_stamp row" and "cs_seen_hashes t = row_stamp row # cs_seen_hashes s"
proof -
  let ?s1 = "s\<lparr>cs_errors := cs_errors s @ row_errors n (cs_previous s) row\<rparr>"
  let ?s2 = "scan_hash n (dget row ''record_hash'') ?s1"
  from assms(1) obtain u where u: "scan_snapshot n row ?s2 = Inr u"
    and t: "t = (if is_int (dget row ''sequence'') \<or> is_bool (dget row ''sequence'')
          then u\<lparr>cs_last_sequence := int_of (dget row ''sequence'')\<rparr> else u)"
    by (auto simp: scan_row_def ebind_Inr_iff)
  have tu: "cs_errors t = cs_errors u" "cs_previous t = cs_previous u" "cs_seen_hashes t = cs_seen_hashes u" by (simp_all add: t)
  note e2 = scan_snapshot_Inr(3) [OF u]
  from assms(2) tu e2 have "cs_errors ?s2 = []" by simp
  from scan_hash_errors [OF this] have e1: "cs_errors ?s1 = []" and fresh: "is_str (dget row ''record_hash'') \<longrightarrow> row_stamp row \<notin> set (cs_seen_hashes ?s1)"
    by simp_all
  from e1 show "cs_errors s = []" by simp
  from e1 have "row_errors n (cs_previous s) row = []" by simp
  then have locked: "row_locked n row" and "row_prev row = cs_previous s" "row_stamp row = compute_record_hash row"
    by (simp_all add: row_errors_Nil)
  then show "row_locked n row" "row_prev row = cs_previous s" "row_stamp row = compute_record_hash row" by simp_all
  from locked have str: "is_str (dget row ''record_hash'')" by (simp add: row_locked_def)
  with fresh show "row_stamp row \<notin> set (cs_seen_hashes s)" by simp
  show "cs_previous t = row_stamp row" "cs_seen_hashes t = row_stamp row # cs_seen_hashes s"
    using tu scan_snapshot_Inr(1,2) [OF u] scan_hash_str [OF str] by simp_all
qed

lemma scan_rows_chained:
  assumes "efold scan_row (zip [k..<k + length rows] rows) s = Inr t" and "cs_errors t = []"
  shows "cs_errors s = [] \<and> ledger.chained (cs_previous s) rows \<and> cs_previous t = ledger.head (cs_previous s) rows
    \<and> (\<forall>i < length rows. row_locked (k + i) (rows ! i))
    \<and> distinct (map row_stamp rows) \<and> set (map row_stamp rows) \<inter> set (cs_seen_hashes s) = {}
    \<and> set (cs_seen_hashes t) = set (map row_stamp rows) \<union> set (cs_seen_hashes s)"
  using assms(1)
proof (induction rows arbitrary: k s)
  case Nil
  then show ?case using assms(2) by simp
next
  case (Cons row rows)
  have up: "[k..<k + length (row # rows)] = k # [Suc k..<Suc k + length rows]" by (simp add: upt_rec)
  from Cons.prems obtain u where u: "scan_row (k, row) s = Inr u"
    and rest: "efold scan_row (zip [Suc k..<Suc k + length rows] rows) u = Inr t"
    unfolding up by (auto simp: ebind_Inr_iff)
  note ih = Cons.IH [OF rest]
  then have "cs_errors u = []" by simp
  note r = scan_row_ok [OF u this]
  have idx: "\<forall>i < length (row # rows). row_locked (k + i) ((row # rows) ! i)"
  proof (intro allI impI)
    fix i assume "i < length (row # rows)"
    then show "row_locked (k + i) ((row # rows) ! i)" using r(2) ih by (cases i) auto
  qed
  show ?case using ih r idx by auto
qed

lemma ledger_valid_chain:
  assumes "ledger_validate e f = Inr v" and "lv_valid v"
  obtains rows t where "records f = Inr rows" "lv_record_count v = length rows" "lv_head_hash v = ledger.head GENESIS_HASH rows"
    "ledger.chained GENESIS_HASH rows" "distinct (map row_stamp rows)" "\<forall>i < length rows. row_locked (i + 1) (rows ! i)"
    "efold scan_row (zip [1..<length rows + 1] rows) scan_start = Inr t" "cs_errors t = []"
    "\<And>h. e = Some h \<Longrightarrow> h = ledger.head GENESIS_HASH rows"
proof -
  from assms obtain rows where rows: "records f = Inr rows"
    by (auto simp: ledger_validate_def split: sum.splits exn.splits)
  with assms(1) obtain t where t: "efold scan_row (zip [1..<length rows + 1] rows) scan_start = Inr t"
    and v: "v = \<lparr>lv_valid = (lv_errors v = []), lv_record_count = length rows, lv_last_sequence = cs_last_sequence t,
              lv_head_hash = cs_previous t, lv_errors = lv_errors v\<rparr>"
    and errs: "lv_errors v = cs_errors t @ (case e of
                Some h \<Rightarrow> if cs_previous t \<noteq> h then [''ledger head hash does not match retained checkpoint''] else [] | None \<Rightarrow> [])"
    by (auto simp: ledger_validate_def ebind_Inr_iff Let_def)
  from assms(2) v have "lv_errors v = []" by (metis ledger_validation.select_convs(1))
  with errs have e: "cs_errors t = []" "\<And>h. e = Some h \<Longrightarrow> h = cs_previous t" by (auto split: if_splits)
  have "[1..<length rows + 1] = [1..<1 + length rows]" by simp
  from scan_rows_chained [OF t [unfolded this] e(1)] have c: "ledger.chained GENESIS_HASH rows" "cs_previous t = ledger.head GENESIS_HASH rows"
    "\<forall>i < length rows. row_locked (1 + i) (rows ! i)" "distinct (map row_stamp rows)" by (simp_all add: scan_start_def)
  show thesis
  proof (rule that [OF rows _ _ c(1) c(4) _ t e(1)])
    show "lv_record_count v = length rows" by (subst v) simp
    show "lv_head_hash v = ledger.head GENESIS_HASH rows" by (subst v) (simp add: c(2))
    show "\<forall>i < length rows. row_locked (i + 1) (rows ! i)" using c(3) by simp
    show "\<And>h. e = Some h \<Longrightarrow> h = ledger.head GENESIS_HASH rows" using e(2) c(2) by simp
  qed
qed

section \<open>What the ledger guarantees\<close>

text \<open>C13: a retained head hash pins the whole ledger: two files that both validate against the
  same head with the same number of records carry the same record contents, unless two records
  among them with different contents have the same SHA-256 digest.\<close>

theorem ledger_tamper_evident:
  assumes "ledger_validate (Some h) f = Inr v" "lv_valid v" "ledger_validate (Some h) g = Inr w" "lv_valid w"
    and "lv_record_count v = lv_record_count w" and "records f = Inr rows" "records g = Inr rows'"
    and "\<And>r r'. r \<in> set rows \<Longrightarrow> r' \<in> set rows' \<Longrightarrow> compute_record_hash r = compute_record_hash r' \<Longrightarrow>
      row_content r = row_content r'"
  shows "map row_content rows = map row_content rows'"
proof -
  from assms(1,2) obtain fr where f: "records f = Inr fr" "lv_record_count v = length fr" "ledger.chained GENESIS_HASH fr"
    "h = ledger.head GENESIS_HASH fr" by (rule ledger_valid_chain) blast
  from assms(3,4) obtain gr where g: "records g = Inr gr" "lv_record_count w = length gr" "ledger.chained GENESIS_HASH gr"
    "h = ledger.head GENESIS_HASH gr" by (rule ledger_valid_chain) blast
  from f(1) g(1) assms(6,7) have eq: "fr = rows" "gr = rows'" by simp_all
  show ?thesis
    using f g assms(5,8) unfolding eq by (intro ledger.chain_determined [of GENESIS_HASH]) auto
qed

lemma numbered_snoc: "zip [1..<length (xs @ [x]) + 1] (xs @ [x]) = zip [1..<length xs + 1] xs @ [(length xs + 1, x)]"
proof -
  have "[1..<length (xs @ [x]) + 1] = [1..<length xs + 1] @ [length xs + 1]"
    by (simp add: upt_Suc_append del: upt_Suc)
  then show ?thesis by (simp only:) (simp del: upt_Suc)
qed

lemma records_take:
  assumes "records f = Inr rows"
  shows "records (f\<lparr>lf_lines := take k (lf_lines f)\<rparr>) = Inr (take k rows)"
proof -
  have split: "emap p (xs @ ys) = ebind (emap p xs) (\<lambda>a. ebind (emap p ys) (\<lambda>b. Inr (a @ b)))" for p :: "nat \<times> pyval option \<Rightarrow> dict res" and xs ys
    by (induction xs) (simp_all add: ebind_assoc, cases "emap p ys", simp_all)
  from assms have torn: "\<not> lf_torn f" and m: "emap parse_row (zip [1..<length (lf_lines f) + 1] (lf_lines f)) = Inr rows"
    by (auto simp: records_def raw_lines_def split: if_splits)
  let ?z = "zip [1..<length (lf_lines f) + 1] (lf_lines f)"
  have tz: "take k ?z = zip [1..<length (take k (lf_lines f)) + 1] (take k (lf_lines f))"
    by (cases "k \<le> length (lf_lines f)") (simp_all add: take_zip take_upt min_def)
  from m have "emap parse_row (take k ?z @ drop k ?z) = Inr rows" by simp
  then obtain a b where a: "emap parse_row (take k ?z) = Inr a" "rows = a @ b"
    unfolding split by (auto simp: ebind_Inr_iff)
  have la: "length a = length (take k ?z)" using a(1) by (rule emap_length)
  have lr: "length rows = length ?z" using m by (rule emap_length)
  have "take k rows = a" using a(2) la lr by (cases "k \<le> length ?z") (auto simp del: upt_Suc)
  then show ?thesis using a(1) [unfolded tz] torn by (simp add: records_def raw_lines_def del: upt_Suc)
qed

lemma head_take_distinct:
  assumes "distinct (map row_stamp rows)" and "k < length rows" and "g \<notin> set (map row_stamp rows)"
  shows "ledger.head g (take k rows) \<noteq> ledger.head g rows"
proof -
  have full: "ledger.head g rows = row_stamp (rows ! (length rows - 1))"
    using assms(2) ledger.head_snoc [of rows g] by (cases rows rule: rev_cases) (auto simp: nth_append)
  show ?thesis
  proof (cases k)
    case 0
    have "rows ! (length rows - 1) \<in> set rows" using assms(2) by simp
    then show ?thesis using assms(3) full 0 by auto
  next
    case (Suc j)
    have "ledger.head g (take k rows) = row_stamp (rows ! j)"
      using assms(2) Suc ledger.head_snoc [of "take k rows" g] by (simp add: take_Suc_conv_app_nth)
    moreover have "row_stamp (rows ! j) \<noteq> row_stamp (rows ! (length rows - 1))"
      using nth_eq_iff_index_eq [OF assms(1), of j "length rows - 1"] assms(2) Suc by simp
    ultimately show ?thesis using full by simp
  qed
qed

text \<open>Truncation is detected: when records are cut from the tail of a valid ledger, a
  validation of the rest against the retained head reports it invalid, unless a record's own
  digest is the all-zero genesis value.\<close>

theorem ledger_truncation_detected:
  assumes "ledger_validate None f = Inr v" "lv_valid v" "k < lv_record_count v" and "records f = Inr rows"
    and "ledger_validate (Some (lv_head_hash v)) (f\<lparr>lf_lines := take k (lf_lines f)\<rparr>) = Inr w"
  shows "\<not> lv_valid w \<or> GENESIS_HASH \<in> set (map row_stamp rows)"
proof (rule ccontr)
  assume "\<not> ?thesis"
  then have valid: "lv_valid w" and zero: "GENESIS_HASH \<notin> set (map row_stamp rows)" by auto
  from assms(1,2) obtain fr where f: "records f = Inr fr" "lv_record_count v = length fr"
    "lv_head_hash v = ledger.head GENESIS_HASH fr" "distinct (map row_stamp fr)" by (rule ledger_valid_chain) blast
  with assms(4) have eq: "fr = rows" by simp
  from assms(5) valid obtain gr where g: "records (f\<lparr>lf_lines := take k (lf_lines f)\<rparr>) = Inr gr"
    "lv_head_hash v = ledger.head GENESIS_HASH gr" by (rule ledger_valid_chain) blast
  have "gr = take k rows" using g(1) records_take [OF assms(4), of k] by simp
  then show False
    using head_take_distinct [of rows k GENESIS_HASH] f g(2) assms(3) zero unfolding eq by simp
qed

lemma emap_snoc: "emap p (xs @ [x]) = ebind (emap p xs) (\<lambda>a. ebind (p x) (\<lambda>y. Inr (a @ [y])))"
  by (induction xs) (simp_all add: ebind_assoc)

lemma records_write:
  assumes "records f = Inr rows"
  shows "records (write_line r f) = Inr (rows @ [reload_dict r])"
proof -
  from assms have torn: "\<not> lf_torn f" and m: "emap parse_row (zip [1..<length (lf_lines f) + 1] (lf_lines f)) = Inr rows"
    by (auto simp: records_def raw_lines_def split: if_splits)
  have "emap parse_row (zip [1..<length (lf_lines f @ [l]) + 1] (lf_lines f @ [l])) =
      ebind (parse_row (length (lf_lines f) + 1, l)) (\<lambda>y. Inr (rows @ [y]))" for l
    unfolding numbered_snoc emap_snoc m by simp
  then show ?thesis using torn by (simp add: records_def raw_lines_def write_line_def complete_lines_def parse_row_def del: upt_Suc)
qed

lemma compute_hash_reload [simp]: "compute_record_hash (reload_dict r) = compute_record_hash r"
  by (simp add: compute_record_hash_def body_for_hash_dpop dpop_reload)

lemma new_record_fields:
  fixes n ty p now uid prev
  defines "r \<equiv> new_record n ty p now uid (PStr prev)"
  shows "dget r ''sequence'' = PInt (int n + 1)" "dget r ''schema_version'' = PStr LEDGER_SCHEMA_VERSION"
    "dget r ''prev_record_hash'' = PStr prev" "dget r ''external_action_authority'' = PStr EXTERNAL_ACTION_AUTHORITY"
    "dget r ''external_action_performed'' = PBool False" "dget r ''record_type'' = PStr ty"
    "dget r ''record_hash'' = PStr (compute_record_hash r)"
proof -
  have "body_for_hash (xs @ [(''record_hash'', v)]) = xs" if "\<forall>(k, w) \<in> set xs. k \<noteq> ''record_hash''" for xs v
    using that by (auto simp: body_for_hash_def filter_id_conv)
  then show "dget r ''record_hash'' = PStr (compute_record_hash r)"
    by (simp add: r_def new_record_def Let_def compute_record_hash_def) (simp add: body_for_hash_def)
qed (simp_all add: r_def new_record_def Let_def)

lemma efold_snoc: "efold g (xs @ [x]) s = ebind (efold g xs s) (g x)"
proof (induction xs arbitrary: s)
  case Nil
  then show ?case by (cases "g x s") simp_all
next
  case (Cons a xs)
  then show ?case by (cases "g a s") simp_all
qed

text \<open>The ledger keys of the snapshot records, which no later snapshot record may repeat.\<close>

definition row_keys :: "dict \<Rightarrow> (int \<times> string) list" where
  "row_keys row = (if py_eq (dget row ''record_type'') (PStr ''SNAPSHOT'') \<and> is_dict (dget row ''payload'')
     then (case snapshot_key (dict_of (dget row ''payload'')) of Inr key \<Rightarrow> [key] | Inl _ \<Rightarrow> []) else [])"

definition ledger_keys :: "dict list \<Rightarrow> (int \<times> string) list" where
  "ledger_keys rows = concat (map row_keys rows)"

lemma scan_snapshot_keys:
  assumes t: "scan_snapshot n row s = Inr t"
  shows "set (cs_seen_keys t) = set (cs_seen_keys s) \<union> set (row_keys row)"
proof (cases "py_eq (dget row ''record_type'') (PStr ''SNAPSHOT'') \<and> is_dict (dget row ''payload'')")
  case True
  with t show ?thesis
    by (cases "snapshot_key (dict_of (dget row ''payload''))") (auto simp: scan_snapshot_def row_keys_def)
next
  case False
  with t show ?thesis
    by (cases "py_eq (dget row ''record_type'') (PStr ''SNAPSHOT'')") (auto simp: scan_snapshot_def row_keys_def)
qed

lemma scan_row_keys:
  assumes "scan_row x s = Inr t"
  shows "set (cs_seen_keys t) = set (cs_seen_keys s) \<union> set (row_keys (snd x))"
proof -
  obtain n row where x: "x = (n, row)" by (cases x)
  from assms obtain u where
    "scan_snapshot n row (scan_hash n (dget row ''record_hash'') (s\<lparr>cs_errors := cs_errors s @ row_errors n (cs_previous s) row\<rparr>)) = Inr u"
    and "t = (if is_int (dget row ''sequence'') \<or> is_bool (dget row ''sequence'')
          then u\<lparr>cs_last_sequence := int_of (dget row ''sequence'')\<rparr> else u)"
    by (auto simp: x scan_row_def ebind_Inr_iff)
  then show ?thesis using scan_snapshot_keys by (auto simp: x scan_hash_def split: if_splits)
qed

lemma scan_keys:
  "efold scan_row xs s = Inr t \<Longrightarrow> set (cs_seen_keys t) = set (cs_seen_keys s) \<union> set (ledger_keys (map snd xs))"
proof (induction xs arbitrary: s)
  case (Cons x xs)
  then obtain u where u: "scan_row x s = Inr u" "efold scan_row xs u = Inr t" by (auto simp: ebind_Inr_iff)
  show ?case using Cons.IH [OF u(2)] scan_row_keys [OF u(1)] by (auto simp: ledger_keys_def)
qed (simp add: ledger_keys_def)

text \<open>Whether a record of this type and payload may follow these rows: its digest is new, and a
  snapshot record has a ledger key and no row has it.\<close>

definition may_follow :: "dict list \<Rightarrow> string \<Rightarrow> dict \<Rightarrow> dict \<Rightarrow> bool" where
  "may_follow rows ty p r \<longleftrightarrow> compute_record_hash r \<notin> set (map row_stamp rows)
     \<and> (ty = ''SNAPSHOT'' \<longrightarrow> (\<exists>key. snapshot_key (reload_dict p) = Inr key \<and> key \<notin> set (ledger_keys rows)))"

lemma new_record_payload: "dget (new_record n ty p now uid prev) ''payload'' = PDict p"
  by (simp add: new_record_def Let_def)

lemma scan_new_row_iff:
  fixes n ty p now uid
  assumes "cs_errors t = []" and "set (cs_seen_hashes t) = set (map row_stamp rows)" and "set (cs_seen_keys t) = set (ledger_keys rows)"
  defines "r \<equiv> new_record n ty p now uid (PStr (cs_previous t))"
  shows "may_follow rows ty p r \<longleftrightarrow> (\<exists>u. scan_row (n + 1, reload_dict r) t = Inr u \<and> cs_errors u = [] \<and> cs_previous u = compute_record_hash r)"
    and "scan_row (n + 1, reload_dict r) t = Inr u \<Longrightarrow> cs_previous u = compute_record_hash r"
proof -
  note fields = new_record_fields [where n = n and ty = ty and p = p and now = now and uid = uid and prev = "cs_previous t", folded r_def]
  have payload: "dget (reload_dict r) ''payload'' = json_reload (PDict p)" by (simp add: r_def new_record_payload)
  have errs: "row_errors (n + 1) (cs_previous t) (reload_dict r) = []"
    by (simp add: row_errors_Nil row_locked_def fields EXTERNAL_ACTION_AUTHORITY_def)
  define s where "s = scan_hash (n + 1) (PStr (compute_record_hash r)) t"
  have s: "cs_errors s = [] \<longleftrightarrow> compute_record_hash r \<notin> set (map row_stamp rows)" "cs_previous s = compute_record_hash r"
      "set (cs_seen_keys s) = set (ledger_keys rows)"
    using assms(1-3) by (simp_all add: s_def scan_hash_def)
  have nums: "is_int (dget (reload_dict r) ''sequence'')" "dget (reload_dict r) ''record_hash'' = PStr (compute_record_hash r)"
      "py_eq (dget (reload_dict r) ''record_type'') (PStr ''SNAPSHOT'') \<longleftrightarrow> ty = ''SNAPSHOT''"
    by (simp_all add: fields)
  have t: "t\<lparr>cs_errors := cs_errors t\<rparr> = t" by simp
  have scan: "scan_row (n + 1, reload_dict r) t = ebind (scan_snapshot (n + 1) (reload_dict r) s)
      (\<lambda>u. Inr (u\<lparr>cs_last_sequence := int_of (dget (reload_dict r) ''sequence'')\<rparr>))"
    unfolding scan_row_def prod.case errs append_Nil2 nums(2) t s_def [symmetric] by (simp only: nums(1) simp_thms if_True)
  have dict: "is_dict (json_reload (PDict p))" "dict_of (json_reload (PDict p)) = reload_dict p" by (simp_all add: reload_dict_def)
  have snap: "scan_snapshot (n + 1) (reload_dict r) s = (if ty \<noteq> ''SNAPSHOT'' then Inr s
      else ebind (snapshot_key (reload_dict p)) (\<lambda>key. Inr (s\<lparr>cs_errors := cs_errors s @
          (if key \<in> set (cs_seen_keys s) then [line_msg (n + 1) ''duplicate snapshot ledger key''] else []),
        cs_seen_keys := key # cs_seen_keys s\<rparr>)))"
    unfolding scan_snapshot_def nums(3) payload dict(2) using dict(1) by simp
  show "scan_row (n + 1, reload_dict r) t = Inr u \<Longrightarrow> cs_previous u = compute_record_hash r"
    unfolding scan snap using s(2) by (auto simp: ebind_Inr_iff split: if_splits)
  show "may_follow rows ty p r \<longleftrightarrow> (\<exists>u. scan_row (n + 1, reload_dict r) t = Inr u \<and> cs_errors u = [] \<and> cs_previous u = compute_record_hash r)"
  proof (cases "ty = ''SNAPSHOT''")
    case False
    then show ?thesis unfolding scan snap may_follow_def using s(1,2) by simp
  next
    case True
    then show ?thesis unfolding scan snap may_follow_def using s by (cases "snapshot_key (reload_dict p)") simp_all
  qed
qed

lemma prepared_record:
  assumes "ledger_validate None f = Inr v" "lv_valid v" "records f = Inr rows"
  shows "append_record ty p now uid f = Inr (new_record (length rows) ty p now uid (PStr (lv_head_hash v)))"
proof -
  from assms(1,2) obtain fr where fr: "records f = Inr fr" "lv_record_count v = length fr"
    "lv_head_hash v = ledger.head GENESIS_HASH fr" "\<forall>i < length fr. row_locked (i + 1) (fr ! i)"
    by (rule ledger_valid_chain) blast
  with assms(3) have eq: "fr = rows" by simp
  note f = fr [unfolded eq]
  show ?thesis
  proof (cases "rows = []")
    case True
    then show ?thesis using assms(1,2) f by (simp add: append_record_def last_record_def)
  next
    case False
    then have "row_locked (length rows) (last rows)" using f(4) by (cases rows rule: rev_cases) (auto simp: nth_append)
    then obtain x where x: "dget (last rows) ''record_hash'' = PStr x" by (auto simp: row_locked_def is_str_iff)
    then have "map_of (last rows) ''record_hash'' = Some (PStr x)" by (auto simp: dget_def split: option.splits)
    then show ?thesis using False assms(1,2) f x ledger.head_snoc [OF False, of GENESIS_HASH]
      by (simp add: append_record_def last_record_def)
  qed
qed

lemma append_record_Inr:
  assumes "append_record ty p now uid f = Inr r"
  obtains v rows where "ledger_validate None f = Inr v" "lv_valid v" "records f = Inr rows"
    "r = new_record (length rows) ty p now uid (PStr (lv_head_hash v))"
proof -
  from assms obtain v where v: "ledger_validate None f = Inr v" "lv_valid v"
    by (auto simp: append_record_def ebind_Inr_iff split: if_splits)
  from v obtain rows where rows: "records f = Inr rows" by (rule ledger_valid_chain) blast
  from that [OF v rows] assms prepared_record [OF v rows, of ty p now uid] show thesis by simp
qed

lemma validate_scanned:
  assumes "records f = Inr rows"
  shows "ledger_validate None f = ebind (efold scan_row (zip [1..<length rows + 1] rows) scan_start) (\<lambda>s.
     Inr \<lparr>lv_valid = (cs_errors s = []), lv_record_count = length rows, lv_last_sequence = cs_last_sequence s,
          lv_head_hash = cs_previous s, lv_errors = cs_errors s\<rparr>)"
  unfolding ledger_validate_def assms sum.case by (simp add: Let_def)

lemma appended:
  fixes ty p now uid
  assumes "ledger_validate None f = Inr v" "lv_valid v" "records f = Inr rows"
    and "ledger_append ty p now uid f = (res, f')"
  defines "r \<equiv> new_record (length rows) ty p now uid (PStr (lv_head_hash v))"
  shows "f' = write_line r f"
    and "may_follow rows ty p r \<Longrightarrow> res = Inr r \<and> (\<exists>w. ledger_validate None f' = Inr w \<and> lv_valid w
      \<and> lv_record_count w = lv_record_count v + 1 \<and> lv_head_hash w = compute_record_hash r)"
    and "\<not> may_follow rows ty p r \<Longrightarrow> (\<nexists>x. res = Inr x) \<and> (\<nexists>w. ledger_validate None f' = Inr w \<and> lv_valid w)"
proof -
  from assms(1,2) obtain fr t where fr: "records f = Inr fr" "lv_record_count v = length fr"
    "lv_head_hash v = ledger.head GENESIS_HASH fr" "efold scan_row (zip [1..<length fr + 1] fr) scan_start = Inr t" "cs_errors t = []"
    "\<forall>i < length fr. row_locked (i + 1) (fr ! i)"
    by (rule ledger_valid_chain) blast
  with assms(3) have eq: "fr = rows" by simp
  note f = fr [unfolded eq]
  have u1: "[1..<length rows + 1] = [1..<1 + length rows]" by simp
  from scan_rows_chained [OF f(4) [unfolded u1] f(5)] have
    prev: "cs_previous t = lv_head_hash v" and seen: "set (cs_seen_hashes t) = set (map row_stamp rows)"
    using f(3) by (simp_all add: scan_start_def)
  have keys: "set (cs_seen_keys t) = set (ledger_keys rows)"
    using scan_keys [OF f(4)] by (simp add: scan_start_def del: upt_Suc)
  note step = scan_new_row_iff [OF f(5) seen keys, where n = "length rows" and ty = ty and p = p and now = now and uid = uid, unfolded prev, folded r_def]
  have recs: "records (write_line r f) = Inr (rows @ [reload_dict r])" using records_write [OF f(1)] .
  have scan: "efold scan_row (zip [1..<length (rows @ [reload_dict r]) + 1] (rows @ [reload_dict r])) scan_start
      = scan_row (length rows + 1, reload_dict r) t"
    unfolding numbered_snoc by (simp only: efold_snoc f(4) ebind.simps)
  note val = validate_scanned [OF recs, unfolded scan]
  have app: "ledger_append ty p now uid f = (ebind (ledger_validate None (write_line r f)) (\<lambda>post. if lv_valid post then Inr r
      else Inl (Custom ''RunLedgerError'' [''ledger failed validation after append: '' @ join ''; '' (lv_errors post)])), write_line r f)"
    unfolding ledger_append_def prepared_record [OF assms(1-3)] r_def by (simp add: Let_def)
  note result = trans [OF app [symmetric] assms(4), unfolded prod.inject]
  note res = result [THEN conjunct2, symmetric] result [THEN conjunct1, symmetric]
  show "f' = write_line r f" by (rule res(1))
  show "may_follow rows ty p r \<Longrightarrow> res = Inr r \<and> (\<exists>w. ledger_validate None f' = Inr w \<and> lv_valid w
      \<and> lv_record_count w = lv_record_count v + 1 \<and> lv_head_hash w = compute_record_hash r)"
    using step(1) f(2) by (auto simp: res val)
  show "\<not> may_follow rows ty p r \<Longrightarrow> (\<nexists>x. res = Inr x) \<and> (\<nexists>w. ledger_validate None f' = Inr w \<and> lv_valid w)"
    using step by (auto simp: res val ebind_Inr_iff)
qed

lemma append_keeps_valid:
  assumes "ledger_validate None f = Inr v" "lv_valid v" "records f = Inr rows" and "record_type \<noteq> ''SNAPSHOT''"
    and "compute_record_hash (new_record (length rows) record_type p now uid (PStr (lv_head_hash v))) \<notin> set (map row_stamp rows)"
  shows "\<exists>r f' v'. ledger_append record_type p now uid f = (Inr r, f') \<and> records f' = Inr (rows @ [reload_dict r])
    \<and> ledger_validate None f' = Inr v' \<and> lv_valid v' \<and> lv_record_count v' = lv_record_count v + 1
    \<and> lv_head_hash v' = compute_record_hash r \<and> dget r ''record_hash'' = PStr (compute_record_hash r)"
proof -
  let ?r = "new_record (length rows) record_type p now uid (PStr (lv_head_hash v))"
  obtain res f' where a: "ledger_append record_type p now uid f = (res, f')" by fastforce
  have "may_follow rows record_type p ?r" using assms(4,5) by (simp add: may_follow_def)
  from appended(2) [OF assms(1-3) a this] appended(1) [OF assms(1-3) a] show ?thesis
    using a records_write [OF assms(3), of ?r] new_record_fields(7) [of "length rows" record_type p now uid "lv_head_hash v"]
    by blast
qed

text \<open>C14: appending a record, snapshot or other, to a valid ledger writes exactly that record
  behind the earlier ones. The append succeeds exactly when the new record's digest is not among
  the digests of the ledger and, for a snapshot, its payload has a ledger key (time and snapshot
  hash) that no snapshot record of the ledger has. Then the ledger validates again with one
  record more and the new digest as its head. Otherwise the append raises after the write, and
  the ledger it leaves behind does not validate.\<close>

theorem append_keeps_ledger_valid:
  assumes "ledger_validate None f = Inr v" "lv_valid v" "records f = Inr rows"
    and "ledger_append ty p now uid f = (res, f')"
    and "r = new_record (length rows) ty p now uid (PStr (lv_head_hash v))"
  shows "records f' = Inr (rows @ [reload_dict r])
    \<and> (if may_follow rows ty p r
       then res = Inr r \<and> (\<exists>w. ledger_validate None f' = Inr w \<and> lv_valid w
         \<and> lv_record_count w = lv_record_count v + 1 \<and> lv_head_hash w = compute_record_hash r)
       else (\<nexists>x. res = Inr x) \<and> (\<nexists>w. ledger_validate None f' = Inr w \<and> lv_valid w))"
  using appended [OF assms(1-4), folded assms(5)] records_write [OF assms(3), of r] by simp

text \<open>The ledger is append-only: an append, successful or not, leaves every existing line in
  place and adds at most one, and on a ledger that does not validate it writes nothing and raises.\<close>

theorem append_is_append_only:
  assumes "ledger_append record_type p now uid f = (res, f')"
  shows "lf_torn f' = lf_torn f \<and> (f' = f \<or> (\<exists>line. lf_lines f' = lf_lines f @ [line]))
    \<and> (\<forall>v. ledger_validate None f = Inr v \<and> \<not> lv_valid v \<longrightarrow> f' = f \<and> (\<exists>m. res = Inl (Custom ''RunLedgerError'' m)))"
proof (cases "append_record record_type p now uid f")
  case (Inl e)
  then show ?thesis using assms by (auto simp: ledger_append_def append_record_def)
next
  case (Inr r)
  then obtain v rows where v: "ledger_validate None f = Inr v" "lv_valid v" "records f = Inr rows" by (rule append_record_Inr)
  then have "\<not> lf_torn f" by (auto simp: records_def raw_lines_def)
  then show ?thesis using assms v Inr by (auto simp: ledger_append_def write_line_def complete_lines_def Let_def)
qed

section \<open>A concrete ledger\<close>

definition empty_ledger :: ledger_file where "empty_ledger = \<lparr>lf_torn = False, lf_lines = []\<rparr>"

definition empty_validation :: ledger_validation where
  "empty_validation = \<lparr>lv_valid = True, lv_record_count = 0, lv_last_sequence = 0, lv_head_hash = GENESIS_HASH, lv_errors = []\<rparr>"

lemma validate_empty: "ledger_validate None empty_ledger = Inr empty_validation" "lv_valid empty_validation" "records empty_ledger = Inr []"
  by (simp_all add: ledger_validate_def records_def raw_lines_def empty_ledger_def scan_start_def empty_validation_def Let_def)

lemma demo_ledger:
  "\<exists>r f v. ledger_append ''PROCESS_EVENT'' [] 7 ''u'' empty_ledger = (Inr r, f) \<and> records f = Inr [reload_dict r]
     \<and> ledger_validate None f = Inr v \<and> lv_valid v \<and> lv_record_count v = 1 \<and> f = write_line r empty_ledger"
proof -
  have ty: "''PROCESS_EVENT'' \<noteq> ''SNAPSHOT''" by simp
  have fresh: "compute_record_hash (new_record (length ([]::dict list)) ''PROCESS_EVENT'' [] 7 ''u'' (PStr (lv_head_hash empty_validation)))
      \<notin> set (map row_stamp [])" by simp
  from append_keeps_valid [OF validate_empty ty fresh] obtain r f v where
    a: "ledger_append ''PROCESS_EVENT'' [] 7 ''u'' empty_ledger = (Inr r, f)" "records f = Inr ([] @ [reload_dict r])"
      "ledger_validate None f = Inr v" "lv_valid v" "lv_record_count v = lv_record_count empty_validation + 1" by blast
  have "f = write_line r empty_ledger"
    using a(1) by (auto simp: ledger_append_def Let_def ebind_Inr_iff split: sum.splits if_splits)
  with a show ?thesis by (auto simp: empty_validation_def)
qed

definition demo_snapshot :: dict where
  "demo_snapshot = [(''as_of_ms'', PInt 5), (''snapshot_hash'', PStr ''aa'')]"

lemma demo_snapshot_key: "snapshot_key (reload_dict demo_snapshot) = Inr (5, ''aa'')"
proof -
  have "dget_or d k v0 = (if dhas d k then dget d k else v0)" for d k v0
  proof (cases "map_of d k")
    case (Some v)
    then have "dhas d k" using map_of_SomeD [OF Some] by (force simp: dhas_def)
    with Some show ?thesis by (simp add: dget_or_def dget_def)
  next
    case None
    then have "\<not> dhas d k" by (simp add: dhas_def map_of_eq_None_iff)
    with None show ?thesis by (simp add: dget_or_def)
  qed
  then have "dget_or (reload_dict demo_snapshot) ''as_of_ms'' (PInt (- 1)) = json_reload (PInt 5)"
    by (simp only: dhas_reload dget_reload) (simp add: demo_snapshot_def dhas_def)
  then show ?thesis by (simp add: snapshot_key_def demo_snapshot_def)
qed

theorem append_keeps_ledger_valid_witness:
  "\<exists>r f v. ledger_append ''SNAPSHOT'' demo_snapshot 7 ''u'' empty_ledger = (Inr r, f) \<and> records f = Inr [reload_dict r]
     \<and> ledger_validate None f = Inr v \<and> lv_valid v \<and> lv_record_count v = 1"
proof -
  obtain res f where a: "ledger_append ''SNAPSHOT'' demo_snapshot 7 ''u'' empty_ledger = (res, f)" by fastforce
  have "may_follow [] ''SNAPSHOT'' demo_snapshot r" for r by (simp add: may_follow_def ledger_keys_def demo_snapshot_key)
  with append_keeps_ledger_valid [OF validate_empty a refl] a show ?thesis by (auto simp: empty_validation_def)
qed

theorem append_is_append_only_witness:
  "\<exists>r f. ledger_append ''PROCESS_EVENT'' [] 7 ''u'' empty_ledger = (Inr r, f) \<and> \<not> lf_torn f"
proof -
  obtain r f where a: "ledger_append ''PROCESS_EVENT'' [] 7 ''u'' empty_ledger = (Inr r, f)" using demo_ledger by blast
  show ?thesis using a append_is_append_only [OF a] by (auto simp: empty_ledger_def)
qed

theorem ledger_tamper_evident_witness:
  "\<exists>f v rows. ledger_validate (Some (lv_head_hash v)) f = Inr v \<and> lv_valid v \<and> lv_record_count v = 1
     \<and> records f = Inr rows \<and> map row_content rows = map row_content rows"
proof -
  obtain r f v where f: "ledger_validate None f = Inr v" "lv_valid v" "lv_record_count v = 1" "records f = Inr [reload_dict r]"
    using demo_ledger by blast
  have h: "ledger_validate (Some (lv_head_hash v)) f = Inr v"
    using f(1,2) unfolding ledger_validate_def f(4) sum.case by (auto simp: ebind_Inr_iff Let_def)
  have "map row_content [reload_dict r] = map row_content [reload_dict r]"
    by (rule ledger_tamper_evident [OF h f(2) h f(2) refl f(4) f(4)]) simp
  then show ?thesis using f(2-4) h by blast
qed

theorem ledger_truncation_detected_witness:
  "\<exists>f v rows w. ledger_validate None f = Inr v \<and> lv_valid v \<and> 0 < lv_record_count v \<and> records f = Inr rows
     \<and> ledger_validate (Some (lv_head_hash v)) (f\<lparr>lf_lines := take 0 (lf_lines f)\<rparr>) = Inr w
     \<and> (\<not> lv_valid w \<or> GENESIS_HASH \<in> set (map row_stamp rows))"
proof -
  obtain r f v where f: "ledger_validate None f = Inr v" "lv_valid v" "lv_record_count v = 1" "records f = Inr [reload_dict r]"
      and fw: "f = write_line r empty_ledger" using demo_ledger by blast
  have k: "0 < lv_record_count v" using f(3) by simp
  obtain w where w: "ledger_validate (Some (lv_head_hash v)) (f\<lparr>lf_lines := take 0 (lf_lines f)\<rparr>) = Inr w"
    by (simp add: fw write_line_def complete_lines_def empty_ledger_def ledger_validate_def records_def raw_lines_def scan_start_def Let_def)
  show ?thesis using f(1,2,4) k w ledger_truncation_detected [OF f(1,2) k f(4) w] by blast
qed

end
