(* ===== verification/Maturity_Ledger.thy ===== *)
theory Maturity_Ledger
  imports Run_Ledger
begin

text \<open>
  The post-seal maturity ledger (\<^verbatim>\<open>maturity_tracker.py\<close>): one chained record per evidence
  pack, a qualification of the pack, and a status file rewritten atomically after each
  attempt. The state is the ledger's lines and the status written last.
\<close>

section \<open>Records\<close>

definition MATURITY_SCHEMA_VERSION :: string where "MATURITY_SCHEMA_VERSION = ''CRT_POST_SEAL_MATURITY_ATTEMPT_V1''"
definition STATUS_SCHEMA_VERSION :: string where "STATUS_SCHEMA_VERSION = ''CRT_POST_SEAL_MATURITY_STATUS_V1''"
definition TARGET_RUNS :: int where "TARGET_RUNS = 20"

definition parse_maturity_line :: "pyval option \<Rightarrow> dict res" where
  "parse_maturity_line line =
     (case line of
       None \<Rightarrow> Inl (ValueError ''invalid JSON'')
     | Some (PDict row) \<Rightarrow> Inr row
     | Some _ \<Rightarrow> Inl (ValueError ''maturity ledger row must be an object''))"

definition check_maturity_row :: "nat \<times> dict \<Rightarrow> string \<Rightarrow> string res" where
  "check_maturity_row x previous = (case x of (index, row) \<Rightarrow>
     if \<not> py_eq (dget row ''sequence'') (PInt (int index)) \<or> \<not> py_eq (dget row ''previous_record_hash'') (PStr previous)
       then Inl (ValueError ''maturity ledger chain is invalid'')
     else if \<not> py_eq (dget row ''record_hash'') (PStr (compute_record_hash row))
       then Inl (ValueError ''maturity ledger record hash mismatch'')
     else Inr (py_str (dget row ''record_hash'')))"

definition load_records :: "pyval option list \<Rightarrow> dict list res" where
  "load_records ls =
     ebind (emap parse_maturity_line ls) (\<lambda>rows.
     ebind (efold check_maturity_row (zip [1..<length rows + 1] rows) GENESIS_HASH) (\<lambda>_. Inr rows))"

section \<open>Qualification\<close>

definition layer_reasons :: "pyval \<Rightarrow> pyval list res" where
  "layer_reasons six_layer =
     ebind (py_get_or six_layer ''state'' PNone) (\<lambda>st.
     if py_eq st (PStr ''COMPLETE_DIRECTIONAL'') then Inr []
     else ebind (py_get_or six_layer ''blocked_reasons'' (PList [])) (\<lambda>b.
       py_iter (py_or b (PList [PStr ''SIX_LAYER_EVIDENCE_NOT_COMPLETE'']))))"

definition model_reason :: "pyval \<Rightarrow> string \<Rightarrow> pyval list res" where
  "model_reason model fallback =
     ebind (py_get_or model ''state'' PNone) (\<lambda>st.
     if py_eq st (PStr ''VALID_VERIFIED_EXECUTABLE'') then Inr []
     else ebind (py_get_or model ''reason'' PNone) (\<lambda>r. Inr [PStr (py_str (py_or r (PStr fallback)))]))"

definition authority_reasons :: "pyval \<Rightarrow> pyval list res" where
  "authority_reasons authority =
     ebind (py_get_or authority ''external_action_authority'' PNone) (\<lambda>a.
     ebind (py_get_or authority ''external_action_performed'' PNone) (\<lambda>p.
     Inr (if \<not> py_eq a (PStr ''NONE'') \<or> p \<noteq> PBool False then [PStr ''EXTERNAL_ACTION_BOUNDARY_INVALID''] else [])))"

definition qualification :: "dict \<Rightarrow> (bool \<times> pyval list) res" where
  "qualification pack =
     (let r0 = (if py_eq (dget pack ''pack_state'') (PStr ''READY_FOR_ANALYST'') then []
                else [PStr (''PACK_'' @ py_str (dget_or pack ''pack_state'' (PStr ''UNKNOWN'')))]);
          model = dget_or pack ''model_status'' (PDict []) in
      ebind (py_get_or model ''six_layer_evidence'' (PDict [])) (\<lambda>six_layer.
      ebind (py_get_or model ''locked_formal_scoring'' (PDict [])) (\<lambda>scoring.
      ebind (py_get_or model ''btc_season_router'' (PDict [])) (\<lambda>router.
      ebind (layer_reasons six_layer) (\<lambda>r1.
      ebind (model_reason scoring ''FORMAL_SCORING_NOT_VERIFIED'') (\<lambda>r2.
      ebind (model_reason router ''BTC_SEASON_ROUTER_NOT_VERIFIED'') (\<lambda>r3.
      ebind (authority_reasons (dget_or pack ''authority'' (PDict []))) (\<lambda>r4.
      (let reasons = r0 @ r1 @ r2 @ r3 @ r4 in
       ebind (sorted_set reasons) (\<lambda>sorted. Inr (reasons = [], sorted)))))))))))"

section \<open>Attempts\<close>

definition maturity_record :: "nat \<Rightarrow> int \<Rightarrow> string \<Rightarrow> bool \<Rightarrow> pyval list \<Rightarrow> pyval \<Rightarrow> dict" where
  "maturity_record count observed_at_ms pack_hash qualified reasons previous =
     (let body = [(''schema_version'', PStr MATURITY_SCHEMA_VERSION),
        (''sequence'', PInt (int count + 1)),
        (''observed_at_ms'', PInt observed_at_ms),
        (''evidence_pack_hash'', PStr pack_hash),
        (''qualified'', PBool qualified),
        (''blocked_reasons'', PList reasons),
        (''previous_record_hash'', previous),
        (''external_action_authority'', PStr ''NONE''),
        (''external_action_performed'', PBool False),
        (''action_output'', PStr ''NONE'')]
      in body @ [(''record_hash'', PStr (canonical_hash (PDict body)))])"

definition maturity_status :: "dict list \<Rightarrow> dict" where
  "maturity_status rows =
     (let n = int (length (filter (\<lambda>row. dget row ''qualified'' = PBool True) rows));
          body = [(''schema_version'', PStr STATUS_SCHEMA_VERSION),
            (''qualified_runs'', PInt n),
            (''target_runs'', PInt TARGET_RUNS),
            (''remaining_runs'', PInt (max 0 (TARGET_RUNS - n))),
            (''maturity_state'', PStr (if TARGET_RUNS \<le> n then ''TARGET_REACHED'' else ''ACCUMULATING'')),
            (''attempt_count'', PInt (int (length rows))),
            (''latest_attempt'', if rows = [] then PNone else PDict (last rows)),
            (''external_action_authority'', PStr ''NONE''),
            (''external_action_performed'', PBool False),
            (''action_output'', PStr ''NONE'')]
      in body @ [(''status_hash'', PStr (canonical_hash (PDict body)))])"

definition record_maturity_attempt ::
  "pyval option list \<Rightarrow> dict \<Rightarrow> int \<Rightarrow> (dict \<times> pyval option list) res" where
  "record_maturity_attempt ls pack observed_at_ms =
     ebind (load_records ls) (\<lambda>rows.
     (let pack_hash = dget pack ''evidence_pack_hash'' in
      if \<not> is_str pack_hash \<or> str_len (str_of pack_hash) \<noteq> 64 then Inl (ValueError ''evidence_pack_hash invalid'')
      else if list_ex (\<lambda>row. py_eq (dget row ''evidence_pack_hash'') pack_hash) rows then Inr (maturity_status rows, ls)
      else ebind (qualification pack) (\<lambda>(qualified, reasons).
        ebind (if rows = [] then Inr (PStr GENESIS_HASH) else py_index (PDict (last rows)) ''record_hash'') (\<lambda>previous.
        (let r = maturity_record (length rows) observed_at_ms (str_of pack_hash) qualified reasons previous in
         Inr (maturity_status (rows @ [r]), ls @ [Some (PDict (reload_dict r))]))))))"

section \<open>The chain\<close>

abbreviation maturity_prev :: "dict \<Rightarrow> string" where "maturity_prev r \<equiv> str_of (dget r ''previous_record_hash'')"

interpretation maturity: hash_chain row_content maturity_prev row_stamp compute_record_hash
proof unfold_locales
  fix r r' assume "row_content r = row_content r'"
  then have "str_of (dget (row_content r) ''previous_record_hash'') = str_of (dget (row_content r') ''previous_record_hash'')" by simp
  then show "maturity_prev r = maturity_prev r'" by (simp add: row_content_def body_for_hash_dpop)
qed

definition maturity_row_ok :: "nat \<Rightarrow> dict \<Rightarrow> bool" where
  "maturity_row_ok n r \<longleftrightarrow> py_eq (dget r ''sequence'') (PInt (int n))
     \<and> is_str (dget r ''previous_record_hash'') \<and> dget r ''record_hash'' = PStr (compute_record_hash r)"

lemma check_maturity_row_Inr:
  "check_maturity_row (n, r) previous = Inr h \<longleftrightarrow>
     maturity_row_ok n r \<and> maturity_prev r = previous \<and> h = compute_record_hash r"
  by (auto simp: check_maturity_row_def maturity_row_ok_def is_str_iff)

lemma check_rows_Inr:
  "efold check_maturity_row (zip [k..<k + length rows] rows) g = Inr h \<longleftrightarrow>
     maturity.chained g rows \<and> h = maturity.head g rows \<and> (\<forall>i < length rows. maturity_row_ok (k + i) (rows ! i))"
proof (induction rows arbitrary: k g)
  case (Cons r rows)
  have up: "[k..<k + length (r # rows)] = k # [Suc k..<Suc k + length rows]" by (simp add: upt_rec)
  have all: "(\<forall>i < length (r # rows). maturity_row_ok (k + i) ((r # rows) ! i)) \<longleftrightarrow>
      maturity_row_ok k r \<and> (\<forall>i < length rows. maturity_row_ok (Suc k + i) (rows ! i))"
    by (auto simp: nth_Cons less_Suc_eq_0_disj split: nat.splits)
  have stamp: "maturity_row_ok k r \<Longrightarrow> row_stamp r = compute_record_hash r" by (simp add: maturity_row_ok_def)
  show ?case
    unfolding up all zip_Cons_Cons efold.simps ebind_Inr_iff check_maturity_row_Inr Cons.IH using stamp by auto
qed auto

lemma load_records_Inr:
  "load_records ls = Inr rows \<longleftrightarrow> emap parse_maturity_line ls = Inr rows
     \<and> maturity.chained GENESIS_HASH rows \<and> (\<forall>i < length rows. maturity_row_ok (i + 1) (rows ! i))"
proof -
  have "[1..<length rows + 1] = [1..<1 + length rows]" by simp
  then show ?thesis
    using check_rows_Inr [of 1 rows GENESIS_HASH]
    by (auto simp: load_records_def ebind_Inr_iff simp del: upt_Suc)
qed

lemma maturity_record_fields:
  fixes n t h q rs p
  defines "r \<equiv> maturity_record n t h q rs (PStr p)"
  shows "dget r ''sequence'' = PInt (int n + 1)" "dget r ''previous_record_hash'' = PStr p"
    "dget r ''evidence_pack_hash'' = PStr h" "dget r ''qualified'' = PBool q"
    "dget r ''record_hash'' = PStr (compute_record_hash r)"
  by (simp_all add: r_def maturity_record_def Let_def compute_record_hash_def body_for_hash_def)

lemma load_append:
  fixes t h q rs
  assumes "load_records ls = Inr rows" and "p = maturity.head GENESIS_HASH rows"
  defines "r \<equiv> maturity_record (length rows) t h q rs (PStr p)"
  shows "load_records (ls @ [Some (PDict (reload_dict r))]) = Inr (rows @ [reload_dict r])"
proof -
  note f = maturity_record_fields [where n = "length rows" and t = t and h = h and q = q and rs = rs and p = p, folded r_def]
  have "maturity_row_ok (length rows + 1) (reload_dict r)" by (simp add: maturity_row_ok_def f)
  moreover have "maturity.chained GENESIS_HASH (rows @ [reload_dict r])"
    using assms(1,2) by (simp add: load_records_Inr maturity.chained_append f)
  moreover have "emap parse_maturity_line (ls @ [Some (PDict (reload_dict r))]) = Inr (rows @ [reload_dict r])"
    using assms(1) by (simp add: load_records_Inr emap_snoc parse_maturity_line_def)
  ultimately show ?thesis
    using assms(1) by (auto simp: load_records_Inr nth_append less_Suc_eq)
qed

lemma last_hash:
  assumes "load_records ls = Inr rows"
  shows "(if rows = [] then Inr (PStr GENESIS_HASH) else py_index (PDict (last rows)) ''record_hash'')
    = Inr (PStr (maturity.head GENESIS_HASH rows))"
proof (cases "rows = []")
  case False
  then have "maturity_row_ok (length rows) (last rows)"
    using assms by (cases rows rule: rev_cases) (auto simp: load_records_Inr nth_append)
  then have "dget (last rows) ''record_hash'' = PStr (row_stamp (last rows))" by (simp add: maturity_row_ok_def)
  then have "map_of (last rows) ''record_hash'' = Some (PStr (row_stamp (last rows)))"
    by (auto simp: dget_def split: option.splits)
  then show ?thesis using False maturity.head_snoc [OF False] by simp
qed simp

lemma attempt_cases:
  assumes "load_records ls = Inr rows" and "record_maturity_attempt ls pack t = Inr (st, ls')"
  obtains (seen) "ls' = ls" "st = maturity_status rows" "list_ex (\<lambda>row. py_eq (dget row ''evidence_pack_hash'') (dget pack ''evidence_pack_hash'')) rows"
      "is_str (dget pack ''evidence_pack_hash'')" "str_len (str_of (dget pack ''evidence_pack_hash'')) = 64"
  | (fresh) r q rs where "r = maturity_record (length rows) t (str_of (dget pack ''evidence_pack_hash'')) q rs (PStr (maturity.head GENESIS_HASH rows))"
      "qualification pack = Inr (q, rs)" "st = maturity_status (rows @ [r])" "ls' = ls @ [Some (PDict (reload_dict r))]"
      "load_records ls' = Inr (rows @ [reload_dict r])"
      "\<not> list_ex (\<lambda>row. py_eq (dget row ''evidence_pack_hash'') (dget pack ''evidence_pack_hash'')) rows"
      "is_str (dget pack ''evidence_pack_hash'')" "str_len (str_of (dget pack ''evidence_pack_hash'')) = 64"
proof -
  let ?h = "dget pack ''evidence_pack_hash''"
  have h: "is_str ?h" "str_len (str_of ?h) = 64"
    using assms by (auto simp: record_maturity_attempt_def Let_def split: if_splits)
  show thesis
  proof (cases "list_ex (\<lambda>row. py_eq (dget row ''evidence_pack_hash'') ?h) rows")
    case True
    then show ?thesis using assms h seen by (simp add: record_maturity_attempt_def Let_def)
  next
    case False
    with assms h obtain q rs where q: "qualification pack = Inr (q, rs)"
      and st: "st = maturity_status (rows @ [maturity_record (length rows) t (str_of ?h) q rs (PStr (maturity.head GENESIS_HASH rows))])"
      and ls: "ls' = ls @ [Some (PDict (reload_dict (maturity_record (length rows) t (str_of ?h) q rs (PStr (maturity.head GENESIS_HASH rows)))))]"
      unfolding record_maturity_attempt_def Let_def assms(1) ebind.simps last_hash [OF assms(1)]
      by (auto simp: ebind_Inr_iff)
    show ?thesis by (rule fresh [OF refl q st ls _ False h]) (simp add: ls load_append [OF assms(1) refl])
  qed
qed




section \<open>What the maturity ledger guarantees\<close>


text \<open>Recording an attempt is idempotent: when an attempt succeeds, repeating it with the same
  pack at any time writes nothing more and reports the same counts.\<close>

theorem maturity_attempt_idempotent:
  assumes "record_maturity_attempt ls pack t = Inr (st, ls')"
  shows "\<exists>st'. record_maturity_attempt ls' pack t' = Inr (st', ls')
    \<and> dget st' ''qualified_runs'' = dget st ''qualified_runs''
    \<and> dget st' ''attempt_count'' = dget st ''attempt_count''
    \<and> dget st' ''maturity_state'' = dget st ''maturity_state''"
proof -
  from assms obtain rows where rows: "load_records ls = Inr rows"
    by (auto simp: record_maturity_attempt_def ebind_Inr_iff)
  from rows assms show ?thesis
  proof (cases rule: attempt_cases)
    case seen
    then show ?thesis using rows by (simp add: record_maturity_attempt_def Let_def)
  next
    case (fresh r q rs)
    let ?rows = "rows @ [reload_dict r]"
    have "list_ex (\<lambda>row. py_eq (dget row ''evidence_pack_hash'') (dget pack ''evidence_pack_hash'')) ?rows"
      using fresh(7) by (auto simp: fresh(1) maturity_record_fields is_str_iff)
    then have "record_maturity_attempt ls' pack t' = Inr (maturity_status ?rows, ls')"
      using fresh(5,7,8) by (simp add: record_maturity_attempt_def Let_def)
    moreover have "filter (\<lambda>row. dget row ''qualified'' = PBool True) [reload_dict r] = [] \<longleftrightarrow>
        filter (\<lambda>row. dget row ''qualified'' = PBool True) [r] = []" by simp
    ultimately show ?thesis
      by (intro exI [of _ "maturity_status ?rows"]) (simp add: fresh(3) maturity_status_def Let_def)
  qed
qed

lemma sorted_set_Nil: "sorted_set [] = Inr []"
  by (simp add: sorted_set_def py_sorted_def)

lemma py_iter_truthy: "truthy v \<Longrightarrow> py_iter v \<noteq> Inr []"
proof (cases v)
  case (PStr s)
  then show "truthy v \<Longrightarrow> py_iter v \<noteq> Inr []" by (cases s) auto
qed (auto simp: keys_def)

lemma layer_reasons_Nil:
  assumes "layer_reasons v = Inr []"
  shows "\<exists>d. v = PDict d \<and> dget_or d ''state'' PNone = PStr ''COMPLETE_DIRECTIONAL''"
  using assms py_iter_truthy
  by (cases v) (auto simp: layer_reasons_def py_or_def split: if_splits)

text \<open>A pack qualifies only when it is complete: ready for the analyst, with directional
  six-layer evidence, verified formal scoring and season router, and no external action; and the
  status declares the target reached exactly when twenty records are qualified.\<close>

theorem maturity_needs_complete_pack:
  assumes "qualification pack = Inr (True, rs)"
  shows "rs = [] \<and> dget pack ''pack_state'' = PStr ''READY_FOR_ANALYST''
    \<and> (\<exists>model six_layer scoring router authority.
        dget_or pack ''model_status'' (PDict []) = PDict model \<and> dget_or pack ''authority'' (PDict []) = PDict authority
        \<and> dget_or model ''six_layer_evidence'' (PDict []) = PDict six_layer
        \<and> dget_or six_layer ''state'' PNone = PStr ''COMPLETE_DIRECTIONAL''
        \<and> dget_or model ''locked_formal_scoring'' (PDict []) = PDict scoring
        \<and> dget_or model ''btc_season_router'' (PDict []) = PDict router
        \<and> dget_or scoring ''state'' PNone = PStr ''VALID_VERIFIED_EXECUTABLE''
        \<and> dget_or router ''state'' PNone = PStr ''VALID_VERIFIED_EXECUTABLE''
        \<and> dget_or authority ''external_action_authority'' PNone = PStr ''NONE''
        \<and> dget_or authority ''external_action_performed'' PNone = PBool False)
    \<and> (dget (maturity_status rows) ''maturity_state'' = PStr ''TARGET_REACHED'' \<longleftrightarrow>
        20 \<le> length (filter (\<lambda>row. dget row ''qualified'' = PBool True) rows))"
proof -
  have get: "\<exists>d. v = PDict d \<and> x = dget_or d k w" if "py_get_or v k w = Inr x" for v k w x
    using that by (cases v) auto
  from assms obtain six scoring router r1 r2 r3 r4 where
      m: "py_get_or (dget_or pack ''model_status'' (PDict [])) ''six_layer_evidence'' (PDict []) = Inr six"
        "py_get_or (dget_or pack ''model_status'' (PDict [])) ''locked_formal_scoring'' (PDict []) = Inr scoring"
        "py_get_or (dget_or pack ''model_status'' (PDict [])) ''btc_season_router'' (PDict []) = Inr router"
    and r: "layer_reasons six = Inr r1" "model_reason scoring ''FORMAL_SCORING_NOT_VERIFIED'' = Inr r2"
        "model_reason router ''BTC_SEASON_ROUTER_NOT_VERIFIED'' = Inr r3"
        "authority_reasons (dget_or pack ''authority'' (PDict [])) = Inr r4"
    and nil: "(if py_eq (dget pack ''pack_state'') (PStr ''READY_FOR_ANALYST'') then []
        else [PStr (''PACK_'' @ py_str (dget_or pack ''pack_state'' (PStr ''UNKNOWN'')))]) @ r1 @ r2 @ r3 @ r4 = []"
    and rs: "sorted_set ((if py_eq (dget pack ''pack_state'') (PStr ''READY_FOR_ANALYST'') then []
        else [PStr (''PACK_'' @ py_str (dget_or pack ''pack_state'' (PStr ''UNKNOWN'')))]) @ r1 @ r2 @ r3 @ r4) = Inr rs"
    unfolding qualification_def Let_def ebind_Inr_iff by blast
  from rs nil have "rs = []" by (simp only: sorted_set_Nil) simp
  from nil have state: "dget pack ''pack_state'' = PStr ''READY_FOR_ANALYST''" by (simp split: if_splits)
  from nil have empty: "r1 = []" "r2 = []" "r3 = []" "r4 = []" by simp_all
  have valid: "\<exists>d. v = PDict d \<and> dget_or d ''state'' PNone = PStr ''VALID_VERIFIED_EXECUTABLE''"
    if "model_reason v fb = Inr []" for v fb
    using that by (cases v) (auto simp: model_reason_def ebind_Inr_iff split: if_splits)
  have auth: "\<exists>d. v = PDict d \<and> dget_or d ''external_action_authority'' PNone = PStr ''NONE''
      \<and> dget_or d ''external_action_performed'' PNone = PBool False" if "authority_reasons v = Inr []" for v
    using that by (cases v) (auto simp: authority_reasons_def split: if_splits)
  obtain model where model: "dget_or pack ''model_status'' (PDict []) = PDict model" using get [OF m(1)] by blast
  obtain sl where sl: "six = PDict sl" "dget_or sl ''state'' PNone = PStr ''COMPLETE_DIRECTIONAL''"
    using layer_reasons_Nil r(1) empty(1) by blast
  obtain sc where sc: "scoring = PDict sc" "dget_or sc ''state'' PNone = PStr ''VALID_VERIFIED_EXECUTABLE''"
    using valid r(2) empty(2) by blast
  obtain ro where ro: "router = PDict ro" "dget_or ro ''state'' PNone = PStr ''VALID_VERIFIED_EXECUTABLE''"
    using valid r(3) empty(3) by blast
  obtain au where au: "dget_or pack ''authority'' (PDict []) = PDict au" "dget_or au ''external_action_authority'' PNone = PStr ''NONE''"
      "dget_or au ''external_action_performed'' PNone = PBool False"
    using auth r(4) empty(4) by blast
  have fields: "dget_or model ''six_layer_evidence'' (PDict []) = PDict sl"
      "dget_or model ''locked_formal_scoring'' (PDict []) = PDict sc" "dget_or model ''btc_season_router'' (PDict []) = PDict ro"
    using m sl(1) sc(1) ro(1) unfolding model by simp_all
  have "dget (maturity_status rows) ''maturity_state'' = PStr ''TARGET_REACHED'' \<longleftrightarrow>
      20 \<le> length (filter (\<lambda>row. dget row ''qualified'' = PBool True) rows)"
    by (simp add: maturity_status_def TARGET_RUNS_def Let_def)
  with \<open>rs = []\<close> state model fields sl(2) sc(2) ro(2) au show ?thesis by blast
qed

section \<open>A concrete pack\<close>

definition demo_pack :: dict where
  "demo_pack = [(''pack_state'', PStr ''READY_FOR_ANALYST''), (''evidence_pack_hash'', PStr (replicate 64 (CHR ''b''))),
     (''model_status'', PDict [(''six_layer_evidence'', PDict [(''state'', PStr ''COMPLETE_DIRECTIONAL'')]),
        (''locked_formal_scoring'', PDict [(''state'', PStr ''VALID_VERIFIED_EXECUTABLE'')]),
        (''btc_season_router'', PDict [(''state'', PStr ''VALID_VERIFIED_EXECUTABLE'')])]),
     (''authority'', PDict [(''external_action_authority'', PStr ''NONE''), (''external_action_performed'', PBool False)])]"

lemma demo_qualifies: "qualification demo_pack = Inr (True, [])"
  by (simp add: qualification_def demo_pack_def dget_or_def layer_reasons_def model_reason_def authority_reasons_def
      sorted_set_Nil Let_def)

lemma load_empty: "load_records [] = Inr []"
  by (simp add: load_records_Inr)

lemma demo_attempt: "\<exists>st ls. record_maturity_attempt [] demo_pack 5 = Inr (st, ls)"
  by (simp add: record_maturity_attempt_def load_empty demo_qualifies Let_def)
    (simp add: demo_pack_def str_len_def is_cont_def)


theorem maturity_attempt_idempotent_witness:
  "\<exists>st ls st'. record_maturity_attempt [] demo_pack 5 = Inr (st, ls) \<and> record_maturity_attempt ls demo_pack 6 = Inr (st', ls)"
proof -
  obtain st ls where a: "record_maturity_attempt [] demo_pack 5 = Inr (st, ls)" using demo_attempt by blast
  show ?thesis using a maturity_attempt_idempotent [OF a, of 6] by blast
qed

theorem maturity_needs_complete_pack_witness:
  "qualification demo_pack = Inr (True, []) \<and> dget demo_pack ''pack_state'' = PStr ''READY_FOR_ANALYST''"
  using demo_qualifies maturity_needs_complete_pack [OF demo_qualifies] by blast

end
