(* ===== verification/Py_Decimal.thy ===== *)
theory Py_Decimal
  imports Py_Text
begin

text \<open>
  \<^verbatim>\<open>decimal.Decimal\<close> under its default context: values are rationals, the operations
  round half to even at 28 significant digits, and \<^verbatim>\<open>quantize\<close> raises beyond them. The laws say
  that rounding is monotone, keeps signs and is exact on 28-digit values.
\<close>

section \<open>Values and operations\<close>

definition digits_num :: "string \<Rightarrow> int" where
  "digits_num ds = foldl (\<lambda>n c. 10 * n + (of_char c - 48)) 0 ds"

text \<open>\<^verbatim>\<open>Decimal(str(x))\<close> of a finite float: the decimal its \<^verbatim>\<open>repr\<close> spells.\<close>

definition pos_decimal :: "rat \<Rightarrow> rat" where
  "pos_decimal x = (case shortest_digits x of (ds, p) \<Rightarrow> of_int (digits_num ds) * pow10 (p - int (length ds)))"

fun dec_of_float :: "pyfloat \<Rightarrow> rat" where
  "dec_of_float (Fin q) = (if q = 0 then 0 else if q < 0 then - pos_decimal (- q) else pos_decimal q)"
| "dec_of_float _ = 0"

text \<open>The number of digits before the decimal point, negative for leading zeros after it.\<close>

definition dec_point :: "rat \<Rightarrow> int" where
  "dec_point q = (if 1 \<le> q then int (length (nat_digits (nat \<lfloor>q\<rfloor>)))
     else 1 - int (length (nat_digits (nat (\<lceil>1 / q\<rceil> - 1)))))"

definition dec_round_pos :: "rat \<Rightarrow> rat" where
  "dec_round_pos q = (let sc = pow10 (dec_point q - 28) in of_int (round_half_even (q / sc)) * sc)"

definition dec_round :: "rat \<Rightarrow> rat" where
  "dec_round q = (if q = 0 then 0 else if q < 0 then - dec_round_pos (- q) else dec_round_pos q)"

definition dec_add :: "rat \<Rightarrow> rat \<Rightarrow> rat" where "dec_add a b = dec_round (a + b)"
definition dec_sub :: "rat \<Rightarrow> rat \<Rightarrow> rat" where "dec_sub a b = dec_round (a - b)"
definition dec_mul :: "rat \<Rightarrow> rat \<Rightarrow> rat" where "dec_mul a b = dec_round (a * b)"

text \<open>\<^verbatim>\<open>quantize(Decimal("0.01"), ROUND_FLOOR)\<close>: more than 28 digits raise.\<close>

definition quantize_cents :: "rat \<Rightarrow> rat res" where
  "quantize_cents q = (let c = \<lfloor>q * 100\<rfloor> in
     if 10 ^ 28 \<le> \<bar>c\<bar> then Inl (Custom ''InvalidOperation'' []) else Inr (of_int c / 100))"

section \<open>Laws\<close>

lemma pow10_powi: "pow10 e = 10 powi e"
  by (simp add: pow10_def power_int_def field_simps)

lemma pow10_pos [simp]: "0 < pow10 e"
  by (simp add: pow10_powi)

lemma pow10_nonzero [simp]: "pow10 e \<noteq> 0"
  by (simp add: pow10_powi)

lemma pow10_add: "pow10 (a + b) = pow10 a * pow10 b"
  by (simp add: pow10_powi power_int_add)

lemma pow10_nat [simp]: "pow10 (int n) = 10 ^ n"
  by (simp add: pow10_def)

lemma pow10_mono: "a \<le> b \<Longrightarrow> pow10 a \<le> pow10 b"
  by (simp add: pow10_powi power_int_increasing)

lemma pow10_less_iff: "pow10 a < pow10 b \<longleftrightarrow> a < b"
proof
  assume "pow10 a < pow10 b"
  then show "a < b" using pow10_mono [of b a] by linarith
next
  assume "a < b"
  then have "pow10 (a + 1) \<le> pow10 b" by (intro pow10_mono) simp
  then have "pow10 a * 10 \<le> pow10 b" by (simp add: pow10_add pow10_def [of 1])
  moreover have "0 < pow10 a" by simp
  ultimately show "pow10 a < pow10 b" by linarith
qed

lemma nat_digits_length_Suc: "10 \<le> n \<Longrightarrow> length (nat_digits n) = Suc (length (nat_digits (n div 10)))"
  by (subst nat_digits.simps) simp

lemma nat_digits_bounds:
  assumes "0 < n"
  shows "10 ^ (length (nat_digits n) - 1) \<le> n \<and> n < 10 ^ length (nat_digits n) \<and> 0 < length (nat_digits n)"
  using assms
proof (induction n rule: less_induct)
  case (less n)
  show ?case
  proof (cases "n < 10")
    case True
    then show ?thesis using less.prems by (simp add: nat_digits.simps [of n])
  next
    case False
    then have "n div 10 < n" and "0 < n div 10" by auto
    from less.IH [OF this] have
      ih: "10 ^ (length (nat_digits (n div 10)) - 1) \<le> n div 10" "n div 10 < 10 ^ length (nat_digits (n div 10))"
        "0 < length (nat_digits (n div 10))" by simp_all
    obtain k where k: "length (nat_digits (n div 10)) = Suc k" using ih(3) by (cases "length (nat_digits (n div 10))") auto
    have len: "length (nat_digits n) = Suc (Suc k)" using nat_digits_length_Suc [of n] False k by simp
    have "10 * 10 ^ k \<le> n" using ih(1) k by simp
    moreover have "n < 10 * (10 * 10 ^ k)" using ih(2) k by simp
    ultimately show ?thesis by (simp add: len)
  qed
qed

lemma dec_point_bounds:
  assumes "0 < q"
  shows "pow10 (dec_point q - 1) \<le> q" and "q < pow10 (dec_point q)"
proof -
  have "pow10 (dec_point q - 1) \<le> q \<and> q < pow10 (dec_point q)"
  proof (cases "1 \<le> q")
    case True
    define n where "n = nat \<lfloor>q\<rfloor>"
    have fl: "(of_nat n :: rat) = of_int \<lfloor>q\<rfloor>" and "0 < n" using True by (simp_all add: n_def)
    obtain k where k: "length (nat_digits n) = Suc k" "10 ^ k \<le> n" "n < 10 ^ Suc k"
      using nat_digits_bounds [OF \<open>0 < n\<close>] by (cases "length (nat_digits n)") auto
    have p: "dec_point q = int (Suc k)" using True k(1) by (simp add: dec_point_def n_def)
    have "(10 :: rat) ^ k \<le> of_nat n" using k(2) by (metis of_nat_le_iff of_nat_numeral of_nat_power)
    also have "\<dots> \<le> q" by (simp add: fl)
    finally have lo: "10 ^ k \<le> q" .
    have "of_nat (Suc n) \<le> (of_nat (10 ^ Suc k) :: rat)" using k(3) by (simp only: of_nat_le_iff Suc_le_eq)
    then have "of_nat n + 1 \<le> (10 :: rat) ^ Suc k" by simp
    moreover have "q < of_nat n + 1" unfolding fl by linarith
    ultimately have "q < 10 ^ Suc k" by linarith
    with lo show ?thesis unfolding p using pow10_nat [of k] pow10_nat [of "Suc k"] by simp
  next
    case False
    define n where "n = nat (\<lceil>1 / q\<rceil> - 1)"
    have "1 < 1 / q" using False assms by simp
    then have "2 \<le> \<lceil>1 / q\<rceil>" by linarith
    then have "int n = \<lceil>1 / q\<rceil> - 1" and "0 < n" unfolding n_def by linarith+
    then have fl: "(of_nat n :: rat) = of_int \<lceil>1 / q\<rceil> - 1" by (metis of_int_1 of_int_diff of_int_of_nat_eq)
    obtain k where k: "length (nat_digits n) = Suc k" "10 ^ k \<le> n" "n < 10 ^ Suc k"
      using nat_digits_bounds [OF \<open>0 < n\<close>] by (cases "length (nat_digits n)") auto
    have p: "dec_point q = - int k" using False k(1) by (simp add: dec_point_def n_def)
    have "(10 :: rat) ^ k \<le> of_nat n" using k(2) by (metis of_nat_le_iff of_nat_numeral of_nat_power)
    also have "\<dots> < 1 / q" unfolding fl by linarith
    finally have hi: "q < 1 / 10 ^ k" using assms by (simp add: field_simps)
    have "of_nat (Suc n) \<le> (of_nat (10 ^ Suc k) :: rat)" using k(3) by (simp only: of_nat_le_iff Suc_le_eq)
    then have "of_nat n + 1 \<le> (10 :: rat) ^ Suc k" by simp
    moreover have "1 / q \<le> of_nat n + 1" unfolding fl by linarith
    ultimately have "1 / q \<le> 10 ^ Suc k" by linarith
    then have lo: "1 / 10 ^ Suc k \<le> q" using assms by (simp add: field_simps)
    have "pow10 (- int k - 1) = 1 / 10 ^ Suc k" "pow10 (- int k) = 1 / 10 ^ k"
      by (simp_all add: pow10_powi power_int_minus power_int_diff divide_simps)
    with lo hi show ?thesis unfolding p by simp
  qed
  then show "pow10 (dec_point q - 1) \<le> q" and "q < pow10 (dec_point q)" by simp_all
qed

lemma dec_point_mono:
  assumes "0 < p" and "p \<le> q"
  shows "dec_point p \<le> dec_point q"
proof -
  have "pow10 (dec_point p - 1) \<le> p" using assms by (intro dec_point_bounds)
  also have "\<dots> \<le> q" by fact
  also have "\<dots> < pow10 (dec_point q)" using assms by (intro dec_point_bounds) simp
  finally show ?thesis by (simp add: pow10_less_iff)
qed

lemma dec_round_pos_le:
  assumes "0 < p"
  shows "dec_round_pos p \<le> pow10 (dec_point p)"
proof -
  let ?sc = "pow10 (dec_point p - 28)"
  have top: "pow10 (dec_point p) = of_int (10 ^ 28) * ?sc" using pow10_add [of 28 "dec_point p - 28"] by (simp add: pow10_def [of 28])
  then have "p / ?sc \<le> of_int (10 ^ 28)" using dec_point_bounds(2) [OF assms] by (simp add: divide_le_eq less_imp_le)
  then have "round_half_even (p / ?sc) \<le> 10 ^ 28" by (rule round_half_even_le)
  then have "of_int (round_half_even (p / ?sc)) \<le> (of_int (10 ^ 28) :: rat)" by (simp only: of_int_le_iff)
  then show ?thesis unfolding dec_round_pos_def Let_def top by (intro mult_right_mono) (auto simp: less_imp_le)
qed

lemma dec_round_pos_ge:
  assumes "0 < q"
  shows "pow10 (dec_point q - 1) \<le> dec_round_pos q"
proof -
  let ?sc = "pow10 (dec_point q - 28)"
  have bot: "pow10 (dec_point q - 1) = of_int (10 ^ 27) * ?sc" using pow10_add [of 27 "dec_point q - 28"] by (simp add: pow10_def [of 27])
  then have "of_int (10 ^ 27) \<le> q / ?sc" using dec_point_bounds(1) [OF assms] by (simp add: le_divide_eq)
  then have "10 ^ 27 \<le> round_half_even (q / ?sc)" by (rule round_half_even_ge)
  then have "(of_int (10 ^ 27) :: rat) \<le> of_int (round_half_even (q / ?sc))" by (simp only: of_int_le_iff)
  then show ?thesis unfolding dec_round_pos_def Let_def bot by (intro mult_right_mono) (auto simp: less_imp_le)
qed

lemma dec_round_pos_mono:
  assumes "0 < p" and "p \<le> q"
  shows "dec_round_pos p \<le> dec_round_pos q"
proof (cases "dec_point p = dec_point q")
  case True
  with assms have "round_half_even (p / pow10 (dec_point p - 28)) \<le> round_half_even (q / pow10 (dec_point q - 28))"
    by (intro round_half_even_mono) (simp add: divide_right_mono less_imp_le)
  with True show ?thesis by (simp add: dec_round_pos_def Let_def mult_right_mono less_imp_le)
next
  case False
  with dec_point_mono [OF assms] have less: "dec_point p \<le> dec_point q - 1" by simp
  have "dec_round_pos p \<le> pow10 (dec_point p)" by (rule dec_round_pos_le) fact
  also have "\<dots> \<le> pow10 (dec_point q - 1)" using less by (rule pow10_mono)
  also have "\<dots> \<le> dec_round_pos q" using assms by (intro dec_round_pos_ge) simp
  finally show ?thesis .
qed

lemma dec_round_zero [simp]: "dec_round 0 = 0"
  by (simp add: dec_round_def)

lemma dec_round_nonneg: "0 \<le> q \<Longrightarrow> 0 \<le> dec_round q"
  using dec_round_pos_ge [of q] pow10_pos [of "dec_point q - 1"]
  by (cases "q = 0") (simp_all add: dec_round_def del: pow10_pos)

lemma dec_round_nonpos: "q \<le> 0 \<Longrightarrow> dec_round q \<le> 0"
  using dec_round_nonneg [of "- q"] by (auto simp: dec_round_def)

lemma dec_round_mono: "p \<le> q \<Longrightarrow> dec_round p \<le> dec_round q"
proof -
  assume le: "p \<le> q"
  consider "0 < p" | "p \<le> 0" "0 \<le> q" | "q < 0" by linarith
  then show ?thesis
  proof cases
    case 1
    with le show ?thesis by (simp add: dec_round_def dec_round_pos_mono)
  next
    case 2
    then show ?thesis using dec_round_nonneg dec_round_nonpos by (meson order_trans)
  next
    case 3
    with le show ?thesis using dec_round_pos_mono [of "- q" "- p"] by (simp add: dec_round_def)
  qed
qed

text \<open>A value of at most 28 digits is exact, so rounding twice is rounding once.\<close>

lemma dec_round_pos_exact:
  assumes "0 < m" and "m < 10 ^ 28"
  shows "dec_round_pos (of_int m * pow10 e) = of_int m * pow10 e"
proof -
  define q where "q = of_int m * pow10 e"
  define p where "p = dec_point q"
  have pos: "0 < q" using assms by (simp add: q_def)
  have "(of_int m :: rat) < of_int (10 ^ 28)" using assms(2) by (simp only: of_int_less_iff)
  then have "q < of_int (10 ^ 28) * pow10 e" unfolding q_def by (rule mult_strict_right_mono) simp
  also have "\<dots> = pow10 (28 + e)" by (simp add: pow10_add pow10_def [of 28])
  finally have "pow10 (p - 1) < pow10 (28 + e)" using dec_point_bounds(1) [OF pos] by (simp add: p_def)
  then have "p - 28 \<le> e" by (simp add: pow10_less_iff)
  then obtain k where e: "e = int k + (p - 28)" by (metis add.commute zle_iff_zadd)
  have "q = of_int (m * 10 ^ k) * pow10 (p - 28)" unfolding q_def by (subst e) (simp add: pow10_add)
  then have "q / pow10 (p - 28) = of_int (m * 10 ^ k)" by (metis nonzero_mult_div_cancel_right pow10_nonzero)
  then have "dec_round_pos q = of_int (m * 10 ^ k) * pow10 (p - 28)" unfolding dec_round_pos_def Let_def p_def
    by (simp only: round_half_even_of_int)
  then have "dec_round_pos q = q" using \<open>q = of_int (m * 10 ^ k) * pow10 (p - 28)\<close> by (simp only:)
  then show ?thesis by (simp only: q_def)
qed

lemma dec_round_pos_idem: "0 < q \<Longrightarrow> dec_round_pos (dec_round_pos q) = dec_round_pos q"
proof -
  assume q: "0 < q"
  define m where "m = round_half_even (q / pow10 (dec_point q - 28))"
  have r: "dec_round_pos q = of_int m * pow10 (dec_point q - 28)" by (simp add: dec_round_pos_def Let_def m_def)
  have "0 < dec_round_pos q" using dec_round_pos_ge [OF q] pow10_pos [of "dec_point q - 1"] by linarith
  then have m0: "0 < m" using zero_less_mult_pos2 [of "of_int m" "pow10 (dec_point q - 28)"] by (simp add: r)
  have "of_int m * pow10 (dec_point q - 28) \<le> of_int (10 ^ 28) * pow10 (dec_point q - 28)"
    using dec_round_pos_le [OF q] pow10_add [of 28 "dec_point q - 28"] by (simp add: r pow10_def [of 28])
  then have "(of_int m :: rat) \<le> of_int (10 ^ 28)" by (simp only: mult_le_cancel_right_pos pow10_pos)
  then have "m \<le> 10 ^ 28" by (simp only: of_int_le_iff)
  then consider "m < 10 ^ 28" | "m = 10 ^ 28" by linarith
  then show ?thesis
  proof cases
    case 1
    with m0 show ?thesis unfolding r by (rule dec_round_pos_exact)
  next
    case 2
    have "dec_round_pos q = of_int 1 * pow10 (dec_point q)"
      using pow10_add [of 28 "dec_point q - 28"] by (simp add: r 2 pow10_def [of 28])
    then show ?thesis using dec_round_pos_exact [of 1 "dec_point q"] by simp
  qed
qed

lemma dec_round_idem [simp]: "dec_round (dec_round q) = dec_round q"
  using dec_round_pos_idem [of q] dec_round_pos_idem [of "- q"] dec_round_pos_ge [of q] dec_round_pos_ge [of "- q"]
    pow10_pos [of "dec_point q - 1"] pow10_pos [of "dec_point (- q) - 1"]
  by (cases q "0 :: rat" rule: linorder_cases) (simp_all add: dec_round_def del: pow10_pos)

lemma dec_sub_le: "0 \<le> b \<Longrightarrow> dec_sub a b \<le> dec_round a"
  by (simp add: dec_sub_def dec_round_mono)

lemma dec_add_nonneg: "0 \<le> a \<Longrightarrow> 0 \<le> b \<Longrightarrow> 0 \<le> dec_add a b"
  by (simp add: dec_add_def dec_round_nonneg)

lemma dec_mul_nonneg: "0 \<le> a \<Longrightarrow> 0 \<le> b \<Longrightarrow> 0 \<le> dec_mul a b"
  by (simp add: dec_mul_def dec_round_nonneg)

lemma quantize_cents_Inr:
  assumes "quantize_cents q = Inr b"
  shows "b \<le> q" and "0 \<le> q \<Longrightarrow> 0 \<le> b" and "\<exists>c. b = of_int c / 100"
proof -
  from assms have b: "b = of_int \<lfloor>q * 100\<rfloor> / 100" by (simp add: quantize_cents_def Let_def split: if_splits)
  have "of_int \<lfloor>q * 100\<rfloor> \<le> q * 100" by simp
  then show "b \<le> q" unfolding b by simp
  show "0 \<le> b" if "0 \<le> q" unfolding b using that by simp
  show "\<exists>c. b = of_int c / 100" unfolding b by blast
qed

text \<open>The decimal of a float has the float's sign.\<close>

lemma nat_digits_chars: "c \<in> set (nat_digits n) \<Longrightarrow> 48 \<le> (of_char c :: int)"
proof (induction n rule: nat_digits.induct)
  case (1 n)
  have digit: "48 \<le> (of_char (char_of (48 + m) :: char) :: int)" if "m < 10" for m :: nat
  proof -
    have "of_char (char_of (48 + m) :: char) = (48 + m :: nat)" using that by (simp add: of_char_of take_bit_eq_mod)
    then have "(of_char (char_of (48 + m) :: char) :: int) = int (48 + m)" by (metis of_nat_of_char)
    then show ?thesis by simp
  qed
  from "1.prems" show ?case
    by (subst (asm) nat_digits.simps) (auto simp: "1.IH" digit split: if_splits)
qed

lemma digits_num_nonneg: "(\<And>c. c \<in> set ds \<Longrightarrow> 48 \<le> (of_char c :: int)) \<Longrightarrow> 0 \<le> digits_num ds"
proof -
  have "0 \<le> foldl (\<lambda>n c. 10 * n + (of_char c - 48)) n ds" if "0 \<le> (n :: int)" "\<forall>c \<in> set ds. 48 \<le> (of_char c :: int)" for n ds
    using that by (induction ds arbitrary: n) simp_all
  then show "(\<And>c. c \<in> set ds \<Longrightarrow> 48 \<le> (of_char c :: int)) \<Longrightarrow> 0 \<le> digits_num ds" by (simp add: digits_num_def)
qed

lemma digits_try_nonneg: "0 < x \<Longrightarrow> digits_try x n = Some c \<Longrightarrow> 0 \<le> c"
proof -
  assume "0 < x" and c: "digits_try x n = Some c"
  then have "0 \<le> x / pow10 (decpt x - int n)" by (simp add: less_imp_le)
  then have "0 \<le> \<lfloor>x / pow10 (decpt x - int n)\<rfloor>" by simp
  moreover have "c = \<lfloor>x / pow10 (decpt x - int n)\<rfloor> \<or> c = \<lfloor>x / pow10 (decpt x - int n)\<rfloor> + 1"
    using c unfolding digits_try_def Let_def by (simp only: split: if_split_asm) simp_all
  ultimately show "0 \<le> c" by linarith
qed

lemma shortest_digits_chars:
  assumes "0 < x" and "shortest_digits x = (ds, p)" and "c \<in> set ds"
  shows "48 \<le> (of_char c :: int)"
proof -
  obtain n where n: "List.find (\<lambda>n. digits_try x n \<noteq> None) [1..<18] = Some n"
    using assms(2,3) by (auto simp: shortest_digits_def split: option.splits)
  then have "digits_try x n \<noteq> None" by (auto simp: find_Some_iff)
  then obtain k where k: "digits_try x n = Some k" by blast
  have "c \<in> set (int_str k)"
    using assms(2,3) n k by (auto simp: shortest_digits_def Let_def) (metis set_dropWhileD set_rev)
  then show ?thesis using digits_try_nonneg [OF assms(1) k] by (auto simp: int_str_def dest: nat_digits_chars)
qed

lemma pos_decimal_nonneg: "0 < x \<Longrightarrow> 0 \<le> pos_decimal x"
proof -
  assume x: "0 < x"
  obtain ds p where sd: "shortest_digits x = (ds, p)" by fastforce
  have "0 \<le> digits_num ds" using shortest_digits_chars [OF x sd] by (rule digits_num_nonneg)
  then show ?thesis by (simp add: pos_decimal_def sd less_imp_le)
qed

lemma dec_of_float_nonneg: "\<not> flt x (Fin 0) \<Longrightarrow> 0 \<le> dec_of_float x"
  by (cases x) (auto simp: pos_decimal_nonneg)

text \<open>The decimal of a one-digit multiple of a power of ten, such as 2 or 900, is the number itself.\<close>

lemma find_unique:
  assumes "P p" and "\<And>r. P r \<Longrightarrow> p = r" and "p \<in> set xs"
  shows "List.find P xs = Some p"
  using assms(3)
proof (induction xs)
  case (Cons x xs)
  have "P x = (x = p)" using assms(1,2) by metis
  with Cons show ?case by auto
qed simp

lemma decpt_unique:
  assumes "pow10 (p - 1) \<le> x" and "x < pow10 p" and "p \<in> {-330..320}"
  shows "decpt x = p"
proof -
  have unique: "p = r" if "pow10 (r - 1) \<le> x \<and> x < pow10 r" for r
  proof -
    have "pow10 (r - 1) < pow10 p" "pow10 (p - 1) < pow10 r" using that assms by linarith+
    then show ?thesis by (simp add: pow10_less_iff)
  qed
  define xs :: "int list" where "xs = [-330..320]"
  have "p \<in> set xs" using assms(3) unfolding xs_def set_upto .
  with conjI [OF assms(1,2)] unique have "List.find (\<lambda>p. pow10 (p - 1) \<le> x \<and> x < pow10 p) xs = Some p"
    by (rule find_unique [where P = "\<lambda>p. pow10 (p - 1) \<le> x \<and> x < pow10 p"])
  then show ?thesis unfolding decpt_def xs_def [symmetric] by (simp only: option.case)
qed

lemma dec_of_float_digit:
  assumes "0 < d" and "d < 10" and "k \<le> 15" and x_def: "x = of_int d * 10 ^ k"
  shows "dec_of_float (Fin x) = x"
proof -
  have dr: "1 \<le> (of_int d :: rat)" "of_int d < (10 :: rat)" using assms(1,2) by simp_all
  have "(1 :: rat) * 10 ^ k \<le> of_int d * 10 ^ k" "of_int d * 10 ^ k < (10 :: rat) * 10 ^ k"
    using dr by (intro mult_right_mono mult_strict_right_mono; simp)+
  then have dp: "decpt x = int (Suc k)"
    using assms(3) pow10_nat [of k] pow10_nat [of "Suc k"] by (intro decpt_unique) (simp_all add: x_def)
  have sc: "pow10 (decpt x - int 1) = 10 ^ k" by (simp add: dp)
  have "(10 :: int) ^ k \<le> 10 ^ 15" using assms(3) by (intro power_increasing) auto
  then have "d * 10 ^ k \<le> 9 * 10 ^ 15" using assms(1,2) by (intro mult_mono) auto
  then have "rnd64 (of_int (d * 10 ^ k)) = of_int (d * 10 ^ k)" using assms(1) by (intro rnd64_of_int) simp
  then have exact: "rnd64 (of_int d * 10 ^ k) = x" by (simp add: x_def)
  have fl: "\<lfloor>x / 10 ^ k\<rfloor> = d" by (simp add: x_def)
  have tr: "digits_try x 1 = Some d" unfolding digits_try_def Let_def sc fl exact by (simp add: x_def)
  have "[1..<18] = 1 # [Suc 1..<18]" by (rule upt_conv_Cons) simp
  then have find: "List.find (\<lambda>n. digits_try x n \<noteq> None) [1..<18] = Some 1" using tr by (simp only: find.simps) simp
  have ds: "int_str d = [char_of (48 + nat d)]" using assms(1,2) by (simp add: int_str_def nat_digits.simps)
  have "of_char (char_of (48 + nat d) :: char) = (48 + nat d :: nat)" using assms(1,2) by (simp add: of_char_of take_bit_eq_mod)
  then have "(of_char (char_of (48 + nat d) :: char) :: int) = int (48 + nat d)" by (metis of_nat_of_char)
  moreover have of_char_Char_48: "of_char (CHR ''0'') = (48 :: int)" by simp
  ultimately have c: "of_char (char_of (48 + nat d) :: char) = (48 + d :: int)" using assms(1) by simp
  have "char_of (48 + nat d) \<noteq> CHR ''0''" using assms(1) c of_char_Char_48 by (metis add.right_neutral add_left_cancel less_irrefl)
  then have "shortest_digits x = ([char_of (48 + nat d)], int (Suc k))"
    unfolding shortest_digits_def find option.case Let_def tr option.sel ds by (simp add: dp)
  moreover have "0 < x" using assms(1) by (simp add: x_def)
  ultimately show ?thesis by (simp add: pos_decimal_def digits_num_def c x_def)
qed

end
