(* ===== verification/Broker_Capital.thy ===== *)
theory Broker_Capital
  imports Py_Decimal
begin

text \<open>
  Read-only broker observations and their reconciliation with the user's confirmed intent
  (\<^verbatim>\<open>broker_capital_observation.py\<close>): the allowlisting seal, the validation of a sealed
  observation at a given time, the split of legacy and full-decision intents and the cash
  budget. The open orders are scanned as the code scans them, up to the first order it cannot resolve.
\<close>

section \<open>Fields\<close>

definition BROKER_SCHEMA :: string where "BROKER_SCHEMA = ''CRT_BROKER_CAPITAL_OBSERVATION_V0.1''"
definition SOCKET_SOURCE :: string where "SOCKET_SOURCE = ''IBKR_TWS_SOCKET_API''"
definition CONNECTED_SOURCE :: string where "CONNECTED_SOURCE = ''IBKR_CONNECTED_ACCOUNT_INTERFACE''"
definition MAX_AGE_MS :: int where "MAX_AGE_MS = 300000"
definition MAX_SNAPSHOT_SPAN_MS :: int where "MAX_SNAPSHOT_SPAN_MS = 30000"

definition BLOCKED_BROKER_REASONS :: "string list" where
  "BLOCKED_BROKER_REASONS = [
     ''BROKER_OBSERVATION_MISSING'', ''BROKER_OBSERVATION_INVALID'',
     ''BROKER_PROOF_HASH_INVALID'', ''BROKER_AUTHORITY_INVALID'',
     ''BROKER_ACCOUNT_SCOPE_UNCONFIRMED'', ''BROKER_ACCOUNT_NOT_READY'',
     ''BROKER_OBSERVATION_CLOCK_INVALID'', ''UNRECOGNIZED_BROKER_SOURCE'',
     ''UNSUPPORTED_POSITION_SCOPE'', ''AMBIGUOUS_DUPLICATE_POSITION'',
     ''INVALID_CAPITAL_NUMBER'', ''INVALID_CAPITAL_ASSET'', ''IDENTIFIER_NOT_ASSET'',
     ''INVALID_AVERAGE_COST'', ''INVALID_POSITION_COST_BASIS'', ''UNSUPPORTED_ORDER_SCOPE'',
     ''BROKER_CAPTURE_INCOMPLETE'', ''BROKER_CAPTURE_SOURCE_CONFLICT'',
     ''BROKER_ACCOUNT_SNAPSHOT_UNQUALIFIED'', ''BROKER_POSITION_CONFLICT'',
     ''BROKER_CASH_SOURCE_CONFLICT'', ''BROKER_CONNECT_UNAVAILABLE'', ''BROKER_SDK_UNAVAILABLE'']"

definition capital_number :: "pyval \<Rightarrow> pyfloat res" where
  "capital_number v =
     (if is_bool v then Inl (ValueError ''INVALID_CAPITAL_NUMBER'')
      else ebind (py_float v) (\<lambda>x. if is_finite x then Inr x else Inl (ValueError ''INVALID_CAPITAL_NUMBER'')))"

definition is_upper :: "char \<Rightarrow> bool" where
  "is_upper c \<longleftrightarrow> (let n = of_char c :: nat in 65 \<le> n \<and> n \<le> 90)"

text \<open>\<^verbatim>\<open>[A-Z][A-Z0-9.-]{0,14}\<close> and \<^verbatim>\<open>[A-Z]{1,2}\d{7,}\<close>\<close>

definition symbol_shape :: "string \<Rightarrow> bool" where
  "symbol_shape s \<longleftrightarrow> s \<noteq> [] \<and> is_upper (hd s) \<and> length s \<le> 15
     \<and> list_all (\<lambda>c. is_upper c \<or> is_digit c \<or> c = CHR ''.'' \<or> c = CHR ''-'') s"

definition identifier_shape :: "string \<Rightarrow> bool" where
  "identifier_shape s \<longleftrightarrow> (let l = takeWhile is_upper s; r = dropWhile is_upper s in
     1 \<le> length l \<and> length l \<le> 2 \<and> 7 \<le> length r \<and> list_all is_digit r)"

definition capital_symbol :: "pyval \<Rightarrow> string res" where
  "capital_symbol v =
     (if \<not> is_str v \<or> \<not> symbol_shape (str_of v) then Inl (ValueError ''INVALID_CAPITAL_ASSET'')
      else if identifier_shape (str_of v) then Inl (ValueError ''IDENTIFIER_NOT_ASSET'')
      else Inr (str_of v))"

section \<open>Default \<^verbatim>\<open>json.dumps\<close> as a sort key\<close>

text \<open>The code points of UTF-8 text, and their escapes under \<^verbatim>\<open>ensure_ascii\<close>.\<close>

fun utf8_points :: "nat list \<Rightarrow> nat list" where
  "utf8_points [] = []"
| "utf8_points (a # bs) =
     (if a < 128 then a # utf8_points bs
      else if a < 224 then
        (case bs of b # r \<Rightarrow> ((a - 192) * 64 + (b - 128)) # utf8_points r | [] \<Rightarrow> [])
      else if a < 240 then
        (case bs of b # c # r \<Rightarrow> ((a - 224) * 4096 + (b - 128) * 64 + (c - 128)) # utf8_points r | _ \<Rightarrow> [])
      else
        (case bs of b # c # d # r \<Rightarrow>
             ((a - 240) * 262144 + (b - 128) * 4096 + (c - 128) * 64 + (d - 128)) # utf8_points r
         | _ \<Rightarrow> []))"

definition u_escape :: "nat \<Rightarrow> string" where
  "u_escape n = [char_of (92 :: nat), CHR ''u'', hex_char (n div 4096 mod 16), hex_char (n div 256 mod 16),
     hex_char (n div 16 mod 16), hex_char (n mod 16)]"

definition ascii_point :: "nat \<Rightarrow> string" where
  "ascii_point n =
     (if n < 127 then json_char (char_of n)
      else if n < 65536 then u_escape n
      else u_escape (55296 + (n - 65536) div 1024) @ u_escape (56320 + (n - 65536) mod 1024))"

definition ascii_str :: "string \<Rightarrow> string" where
  "ascii_str s = [CHR 0x22] @ concat (map ascii_point (utf8_points (map of_char s))) @ [CHR 0x22]"

fun json_default :: "pyval \<Rightarrow> string"
  and json_default_list :: "pyval list \<Rightarrow> string list"
  and json_default_items :: "dict \<Rightarrow> (string \<times> string) list" where
  "json_default (PStr s) = ascii_str s"
| "json_default (PList xs) = ''['' @ join '', '' (json_default_list xs) @ '']''"
| "json_default (PDict d) =
     ''{'' @ join '', '' (map (\<lambda>(k, t). ascii_str k @ '': '' @ t) (sort_key fst (json_default_items d))) @ ''}''"
| "json_default v = json_text v"
| "json_default_list [] = []"
| "json_default_list (x # xs) = json_default x # json_default_list xs"
| "json_default_items [] = []"
| "json_default_items ((k, v) # d) = (k, json_default v) # json_default_items d"

section \<open>The seal\<close>

definition SCOPE_KEYS :: "string list" where
  "SCOPE_KEYS = [''account_count'', ''same_account_verified'', ''account_ready'',
     ''positions_complete'', ''funds_complete'', ''orders_complete'']"

definition FUND_KEYS :: "string list" where
  "FUND_KEYS = [''cash_usd'', ''available_funds_usd'', ''settled_cash_usd'']"

definition opt_number :: "pyval \<Rightarrow> pyval res" where
  "opt_number v = (if v = PNone then Inr PNone else ebind (capital_number v) (\<lambda>x. Inr (PFloat x)))"

definition seal_holding :: "pyval \<Rightarrow> dict res" where
  "seal_holding row =
     ebind (py_index row ''asset'') (\<lambda>a. ebind (capital_symbol a) (\<lambda>asset.
     ebind (py_index row ''quantity'') (\<lambda>q. ebind (capital_number q) (\<lambda>quantity.
     ebind (py_get row ''currency'') (\<lambda>currency. ebind (py_get row ''security_type'') (\<lambda>security_type.
     ebind (py_index row ''average_cost_usd'') (\<lambda>c. ebind (capital_number c) (\<lambda>cost.
     if \<not> py_eq currency (PStr ''USD'') \<or> \<not> py_eq security_type (PStr ''STK'')
       then Inl (ValueError ''UNSUPPORTED_POSITION_SCOPE'')
     else if flt cost (Fin 0) then Inl (ValueError ''INVALID_AVERAGE_COST'')
     else if \<not> is_finite (fmul quantity cost) then Inl (ValueError ''INVALID_POSITION_COST_BASIS'')
     else Inr [(''asset'', PStr asset), (''quantity'', PFloat quantity), (''currency'', currency),
               (''security_type'', security_type), (''average_cost_usd'', PFloat cost)]))))))))"

definition seal_order :: "pyval \<Rightarrow> dict res" where
  "seal_order row =
     ebind (py_index row ''asset'') (\<lambda>a. ebind (capital_symbol a) (\<lambda>asset.
     ebind (py_get row ''side'') (\<lambda>side. ebind (py_get row ''currency'') (\<lambda>currency.
     ebind (py_get row ''order_type'') (\<lambda>order_type.
     ebind (py_index row ''quantity'') (\<lambda>q. ebind (capital_number q) (\<lambda>quantity.
     ebind (py_get row ''filled_quantity'') (\<lambda>f. ebind (opt_number f) (\<lambda>filled.
     ebind (py_get row ''remaining_quantity'') (\<lambda>r. ebind (opt_number r) (\<lambda>remaining.
     ebind (py_get row ''limit_price_usd'') (\<lambda>l. ebind (opt_number l) (\<lambda>limit.
     ebind (in_strs side [''BUY'', ''SELL'']) (\<lambda>known.
     if \<not> known \<or> \<not> py_eq currency (PStr ''USD'') then Inl (ValueError ''UNSUPPORTED_ORDER_SCOPE'')
     else Inr [(''asset'', PStr asset), (''side'', side), (''currency'', currency), (''order_type'', order_type),
               (''quantity'', PFloat quantity), (''filled_quantity'', filled),
               (''remaining_quantity'', remaining), (''limit_price_usd'', limit)]))))))))))))))"

definition row_asset :: "dict \<Rightarrow> string" where
  "row_asset row = str_of (dget row ''asset'')"

definition broker_body ::
  "pyval \<Rightarrow> int \<Rightarrow> int \<Rightarrow> bool \<Rightarrow> dict \<Rightarrow> dict list \<Rightarrow> dict \<Rightarrow> dict list \<Rightarrow> dict" where
  "broker_body source observed started automatic scope holdings funds orders =
     [(''schema_version'', PStr BROKER_SCHEMA), (''source'', source),
      (''observed_at_ms'', PInt observed), (''started_at_ms'', PInt started),
      (''automatic_local_refresh'', PBool automatic), (''scope'', PDict scope),
      (''holdings'', PList (map PDict holdings)), (''funds'', PDict funds),
      (''open_orders'', PList (map PDict orders)),
      (''action_output'', PStr ''NONE''), (''external_action_authority'', PStr ''NONE''),
      (''external_action_performed'', PBool False)]"

definition seal_broker_observation :: "dict \<Rightarrow> dict res" where
  "seal_broker_observation capture =
     ebind (in_strs (dget capture ''source'') [SOCKET_SOURCE, CONNECTED_SOURCE]) (\<lambda>known.
     if \<not> known then Inl (ValueError ''UNRECOGNIZED_BROKER_SOURCE'')
     else
     ebind (py_index (PDict capture) ''observed_at_ms'') (\<lambda>o1. ebind (py_int o1) (\<lambda>observed.
     ebind (py_index (PDict capture) ''started_at_ms'') (\<lambda>s1. ebind (py_int s1) (\<lambda>started.
     ebind (emap (\<lambda>k. ebind (py_get (dget_or capture ''scope'' (PDict [])) k) (\<lambda>v. Inr (k, v))) SCOPE_KEYS) (\<lambda>scope.
     ebind (ebind (py_iter (dget_or capture ''holdings'' (PList []))) (emap seal_holding)) (\<lambda>hs.
     (let holdings = sort_key row_asset hs in
      if \<not> distinct (map row_asset holdings) then Inl (ValueError ''AMBIGUOUS_DUPLICATE_POSITION'')
      else
      ebind (emap (\<lambda>k. ebind (py_get (dget_or capture ''funds'' (PDict [])) k) (\<lambda>v.
               ebind (opt_number v) (\<lambda>x. Inr (k, x)))) FUND_KEYS) (\<lambda>funds.
      ebind (ebind (py_iter (dget_or capture ''open_orders'' (PList []))) (emap seal_order)) (\<lambda>os.
      (let automatic = (dget capture ''source'' = PStr SOCKET_SOURCE \<and> dget capture ''automatic_local_refresh'' = PBool True);
           result = broker_body (dget capture ''source'') observed started automatic scope holdings funds
             (sort_key (\<lambda>row. json_default (PDict row)) os)
       in ebind (canonical_hash_strict (PDict result)) (\<lambda>h. Inr (result @ [(''observation_hash'', PStr h)])))))))))))))"

section \<open>Validation\<close>

fun exn_text :: "exn \<Rightarrow> string" where
  "exn_text (ValueError m) = m"
| "exn_text (TypeError m) = m"
| "exn_text (KeyError k) = str_repr k"
| "exn_text _ = []"

fun observation_error :: "exn \<Rightarrow> bool" where
  "observation_error (ValueError _) \<longleftrightarrow> True"
| "observation_error (TypeError _) \<longleftrightarrow> True"
| "observation_error (KeyError _) \<longleftrightarrow> True"
| "observation_error OverflowError \<longleftrightarrow> True"
| "observation_error AttributeError \<longleftrightarrow> True"
| "observation_error _ \<longleftrightarrow> False"

definition check_result :: "string \<Rightarrow> string \<Rightarrow> dict" where
  "check_result st reason = [(''state'', PStr st), (''reason'', PStr reason)]"

text \<open>The clock of a sealed observation, and how complete it is.\<close>

definition clock_invalid :: "int \<Rightarrow> int \<Rightarrow> int \<Rightarrow> bool" where
  "clock_invalid start stop at_ms \<longleftrightarrow> start \<le> 0 \<or> stop < start \<or> at_ms < stop \<or> MAX_SNAPSHOT_SPAN_MS < stop - start"

definition observation_grade :: "dict \<Rightarrow> int \<Rightarrow> string \<times> string" where
  "observation_grade clean at_ms =
     (let scope = dict_of (dget clean ''scope''); funds = dict_of (dget clean ''funds'') in
      if MAX_AGE_MS < at_ms - int_of (dget clean ''observed_at_ms'') then (''STALE'', ''BROKER_OBSERVATION_EXPIRED'')
      else if \<not> list_all (\<lambda>k. dget scope k = PBool True) [''positions_complete'', ''funds_complete'', ''orders_complete'']
        then (''PARTIAL'', ''BROKER_SNAPSHOT_INCOMPLETE'')
      else if list_ex (\<lambda>k. dget funds k = PNone) [''cash_usd'', ''available_funds_usd'']
        then (''PARTIAL'', ''BROKER_ANALYSIS_FUNDS_MISSING'')
      else (''AVAILABLE'', ''BROKER_OBSERVATION_VALID''))"

definition check_broker_observation :: "dict \<Rightarrow> int \<Rightarrow> dict res" where
  "check_broker_observation observation at_ms =
     ebind (seal_broker_observation observation) (\<lambda>clean.
     (let scope = dict_of (dget clean ''scope'');
          start = int_of (dget clean ''started_at_ms''); stop = int_of (dget clean ''observed_at_ms'') in
      if \<not> py_eq (dget observation ''schema_version'') (PStr BROKER_SCHEMA)
         \<or> \<not> py_eq (dget clean ''observation_hash'') (dget observation ''observation_hash'')
        then Inl (ValueError ''BROKER_PROOF_HASH_INVALID'')
      else if \<not> py_eq (dget observation ''action_output'') (PStr ''NONE'')
         \<or> \<not> py_eq (dget observation ''external_action_authority'') (PStr ''NONE'')
         \<or> dget observation ''external_action_performed'' \<noteq> PBool False
        then Inl (ValueError ''BROKER_AUTHORITY_INVALID'')
      else if dget scope ''account_count'' \<noteq> PInt 1 \<or> dget scope ''same_account_verified'' \<noteq> PBool True
        then Inl (ValueError ''BROKER_ACCOUNT_SCOPE_UNCONFIRMED'')
      else if dget scope ''account_ready'' \<noteq> PBool True then Inl (ValueError ''BROKER_ACCOUNT_NOT_READY'')
      else if clock_invalid start stop at_ms then Inl (ValueError ''BROKER_OBSERVATION_CLOCK_INVALID'')
      else (case observation_grade clean at_ms of (st, reason) \<Rightarrow>
        Inr (check_result st reason @ [(''observation'', PDict clean)]))))"

definition validate_broker_observation :: "pyval \<Rightarrow> int \<Rightarrow> dict res" where
  "validate_broker_observation v at_ms =
     (if \<not> is_dict v then Inr (check_result ''BLOCKED'' ''BROKER_OBSERVATION_MISSING'')
      else if dget (dict_of v) ''capture_failed'' = PBool True then
        ebind (in_strs (dget (dict_of v) ''reason'') BLOCKED_BROKER_REASONS) (\<lambda>known.
        Inr (check_result ''BLOCKED'' (if known then str_of (dget (dict_of v) ''reason'') else ''BROKER_OBSERVATION_INVALID'')))
      else (case check_broker_observation (dict_of v) at_ms of
          Inr result \<Rightarrow> Inr result
        | Inl e \<Rightarrow> if observation_error e
            then Inr (check_result ''BLOCKED'' (if exn_text e \<in> set BLOCKED_BROKER_REASONS then exn_text e else ''BROKER_OBSERVATION_INVALID''))
            else Inl e))"

section \<open>Intents\<close>

definition LEGACY_KEYS :: "string list" where
  "LEGACY_KEYS = [''source'', ''confirmed_at_ms'', ''reserved_usd'', ''plan_policy'', ''asset_roles'']"

definition FULL_KEYS :: "string list" where
  "FULL_KEYS = [''version'', ''source'', ''confirmed_at_ms'', ''reserved_usd'', ''no_leverage'']"

definition restrict_keys :: "string list \<Rightarrow> dict \<Rightarrow> dict" where
  "restrict_keys ks d = map (\<lambda>k. (k, dget d k)) (filter (dhas d) ks)"

definition adapt_capital_intent :: "pyval \<Rightarrow> pyval \<Rightarrow> dict" where
  "adapt_capital_intent intent decision_intent =
     (let legacy = (if is_dict intent then PDict (restrict_keys LEGACY_KEYS (dict_of intent)) else PNone);
          supplied = (if decision_intent \<noteq> PNone then decision_intent else intent);
          complete = (is_dict supplied \<and> list_all (dhas (dict_of supplied)) FULL_KEYS);
          full = restrict_keys FULL_KEYS (dict_of supplied);
          mismatch = (is_dict intent \<and> list_ex (\<lambda>k. \<not> dhas (dict_of intent) k \<or> \<not> py_eq (dget (dict_of intent) k) (dget full k))
             [''source'', ''confirmed_at_ms'', ''reserved_usd'']);
          blockers =
            (if complete then
               (if \<not> is_str (dget full ''version'') \<or> strip (str_of (dget full ''version'')) = []
                then [''FULL_DECISION_INTENT_VERSION_UNCONFIRMED''] else [])
             @ (if \<not> py_eq (dget full ''source'') (PStr ''USER_CONFIRMED'') \<or> dget full ''no_leverage'' \<noteq> PBool True
                then [''FULL_DECISION_INTENT_PERMISSION_UNCONFIRMED''] else [])
             @ (if mismatch then [''CAPITAL_INTENT_IDENTITY_MISMATCH''] else [])
             else [''FULL_DECISION_INTENT_UNCONFIRMED''])
      in [(''reconciliation_intent'', legacy),
          (''full_decision_intent'', if complete \<and> \<not> mismatch then PDict full else PNone),
          (''state'', PStr (if blockers = [] then ''AVAILABLE'' else ''BLOCKED'')),
          (''blockers'', PList (map PStr blockers))])"

definition role_shape :: "pyval \<Rightarrow> bool" where
  "role_shape v \<longleftrightarrow> is_str v \<and> 1 \<le> length (str_of v) \<and> length (str_of v) \<le> 64
     \<and> list_all (\<lambda>c. is_upper c \<or> c = CHR ''_'') (str_of v)"

definition safe_role :: "string \<times> pyval \<Rightarrow> (string \<times> pyval) res" where
  "safe_role x = (case x of (asset, role) \<Rightarrow>
     if \<not> role_shape role then Inl (ValueError ''CAPITAL_ROLE_INVALID'')
     else ebind (capital_symbol (PStr asset)) (\<lambda>a. Inr (a, role)))"

text \<open>The confirmed intent and its reserve.\<close>

definition confirm_intent :: "pyval \<Rightarrow> int \<Rightarrow> (dict \<times> pyfloat) res" where
  "confirm_intent v at_ms =
     (let intent = dict_of v in
      if \<not> is_dict v \<or> \<not> py_eq (dget intent ''source'') (PStr ''USER_CONFIRMED'')
        then Inl (ValueError ''CAPITAL_INTENT_UNCONFIRMED'')
      else ebind (py_index v ''confirmed_at_ms'') (\<lambda>c. ebind (py_int c) (\<lambda>confirmed_at.
        if at_ms < confirmed_at \<or> confirmed_at \<le> 0 then Inl (ValueError ''CAPITAL_INTENT_CLOCK_INVALID'')
        else ebind (py_index v ''reserved_usd'') (\<lambda>r. ebind (capital_number r) (\<lambda>reserve.
          if flt reserve (Fin 0) \<or> \<not> py_eq (dget intent ''plan_policy'') (PStr ''CANCEL_ALL_NO_REPLACEMENT'')
            then Inl (ValueError ''CAPITAL_INTENT_INVALID'')
          else (let roles = dget_or intent ''asset_roles'' (PDict []) in
            if \<not> is_dict roles then Inl (ValueError ''CAPITAL_INTENT_INVALID'')
            else ebind (emap safe_role (dict_of roles)) (\<lambda>safe_roles.
              Inr ([(''source'', PStr ''USER_CONFIRMED''), (''confirmed_at_ms'', PInt confirmed_at),
                    (''reserved_usd'', PFloat reserve), (''plan_policy'', PStr ''CANCEL_ALL_NO_REPLACEMENT''),
                    (''asset_roles'', PDict safe_roles)], reserve))))))))"

fun intent_error :: "exn \<Rightarrow> bool" where
  "intent_error (ValueError _) \<longleftrightarrow> True"
| "intent_error (TypeError _) \<longleftrightarrow> True"
| "intent_error (KeyError _) \<longleftrightarrow> True"
| "intent_error OverflowError \<longleftrightarrow> True"
| "intent_error _ \<longleftrightarrow> False"

section \<open>Open orders\<close>

fun opt_float :: "pyval \<Rightarrow> pyfloat option" where
  "opt_float (PFloat x) = Some x"
| "opt_float _ = None"

definition fmin :: "pyfloat \<Rightarrow> pyfloat \<Rightarrow> pyfloat" where
  "fmin a b = (if flt b a then b else a)"

text \<open>\<^verbatim>\<open>math.isclose(a, b, rel_tol=0, abs_tol=1e-8)\<close>\<close>

definition isclose8 :: "pyfloat \<Rightarrow> pyfloat \<Rightarrow> bool" where
  "isclose8 a b \<longleftrightarrow> feq a b \<or> (is_finite a \<and> is_finite b \<and> fle (fabs (fsub b a)) (to_float (1 / 10 ^ 8)))"

definition order_aligned :: "dict \<Rightarrow> bool" where
  "order_aligned row \<longleftrightarrow>
     (case (opt_float (dget row ''filled_quantity''), opt_float (dget row ''remaining_quantity''), opt_float (dget row ''quantity'')) of
        (Some filled, Some remaining, Some tot) \<Rightarrow>
          \<not> flt (fmin (fmin filled remaining) tot) (Fin 0) \<and> isclose8 (fadd filled remaining) tot
      | _ \<Rightarrow> False)"

definition remaining_of :: "dict \<Rightarrow> pyfloat" where
  "remaining_of row = (case opt_float (dget row ''remaining_quantity'') of Some x \<Rightarrow> x | None \<Rightarrow> NaN)"

definition limit_of :: "dict \<Rightarrow> pyfloat option" where
  "limit_of row = (if dget row ''order_type'' = PStr ''LMT''
     then (case opt_float (dget row ''limit_price_usd'') of Some l \<Rightarrow> if fle l (Fin 0) then None else Some l | None \<Rightarrow> None)
     else None)"

text \<open>The scan stops at the first order it cannot resolve; \<open>None\<close> is an unresolved commitment.\<close>

fun scan_orders :: "dict list \<Rightarrow> rat \<Rightarrow> (string \<times> pyfloat) list \<Rightarrow> string list \<times> rat option \<times> (string \<times> pyfloat) list" where
  "scan_orders [] commitment selling = ([], Some commitment, selling)"
| "scan_orders (row # rows) commitment selling =
     (if \<not> order_aligned row then ([''OPEN_ORDER_FILL_ALIGNMENT_UNRESOLVED''], None, selling)
      else if dget row ''side'' = PStr ''BUY'' then
        (case limit_of row of
           None \<Rightarrow> ([''OPEN_ORDER_CASH_COMMITMENT_UNRESOLVED''], None, selling)
         | Some l \<Rightarrow> scan_orders rows
             (dec_add commitment (dec_mul (dec_of_float (remaining_of row)) (dec_of_float l))) selling)
      else scan_orders rows commitment
        (AList.update (row_asset row)
          (fadd (case map_of selling (row_asset row) of Some x \<Rightarrow> x | None \<Rightarrow> Fin 0) (remaining_of row)) selling))"

section \<open>Reconciliation\<close>

definition fmax0 :: "pyfloat \<Rightarrow> pyfloat" where
  "fmax0 x = (if flt (Fin 0) x then x else Fin 0)"

definition sold :: "(string \<times> pyfloat) list \<Rightarrow> string \<Rightarrow> pyfloat" where
  "sold selling asset = (case map_of selling asset of Some x \<Rightarrow> x | None \<Rightarrow> Fin 0)"

definition holding_quantity :: "dict \<Rightarrow> pyfloat" where
  "holding_quantity h = (case opt_float (dget h ''quantity'') of Some x \<Rightarrow> x | None \<Rightarrow> NaN)"

definition position_rows :: "bool \<Rightarrow> (string \<times> pyfloat) list \<Rightarrow> dict list \<Rightarrow> dict" where
  "position_rows resolved selling holdings =
     map (\<lambda>h. (row_asset h, if resolved then PFloat (fmax0 (fsub (holding_quantity h) (sold selling (row_asset h)))) else PNone)) holdings"

definition position_limits :: "(string \<times> pyfloat) list \<Rightarrow> dict list \<Rightarrow> string list" where
  "position_limits selling holdings =
     concat (map (\<lambda>h. if flt (holding_quantity h) (Fin 0)
         \<or> flt (fmax0 (holding_quantity h)) (sold selling (row_asset h))
       then [''SHORT_OR_SELL_EXCESS_REQUIRES_FINANCING_RECHECK''] else []) holdings)"

definition reconciliation ::
  "string \<Rightarrow> string \<Rightarrow> pyval \<Rightarrow> pyval \<Rightarrow> pyval \<Rightarrow> pyval \<Rightarrow> string list \<Rightarrow> dict \<Rightarrow> dict" where
  "reconciliation st reason broker user budget commitment limitations positions =
     [(''state'', PStr st), (''reason'', PStr reason), (''broker_observed'', broker), (''user_confirmed'', user),
      (''analysis_cash_budget_usd'', budget), (''open_order_cash_commitment_usd'', commitment),
      (''execution_limitations'', PList (map PStr limitations)), (''position_available_quantities'', PDict positions),
      (''scope'', PStr ''IBKR_SINGLE_ACCOUNT_USD_ONLY''), (''action_output'', PStr ''NONE''),
      (''external_action_authority'', PStr ''NONE''), (''external_action_performed'', PBool False)]"

definition fund :: "dict \<Rightarrow> string \<Rightarrow> pyval" where
  "fund clean k = dget (dict_of (dget clean ''funds'')) k"

definition fund_dec :: "dict \<Rightarrow> string \<Rightarrow> rat" where
  "fund_dec clean k = dec_of_float (case opt_float (fund clean k) of Some x \<Rightarrow> x | None \<Rightarrow> NaN)"

text \<open>The budget: committed orders reduce cash but not the broker's available funds.\<close>

definition cash_budget :: "dict \<Rightarrow> rat \<Rightarrow> pyfloat \<Rightarrow> pyfloat res" where
  "cash_budget clean commitment reserve =
     ebind (quantize_cents (max 0 (dec_sub
        (min (dec_sub (fund_dec clean ''cash_usd'') commitment) (fund_dec clean ''available_funds_usd''))
        (dec_of_float reserve)))) (\<lambda>b. Inr (to_float b))"

definition reconcile_clean ::
  "dict \<Rightarrow> string \<Rightarrow> string \<Rightarrow> string \<Rightarrow> pyval \<Rightarrow> pyfloat option \<Rightarrow> string list \<Rightarrow> dict res" where
  "reconcile_clean clean checked_state st reason user reserve limits0 =
     (let scope = dict_of (dget clean ''scope'');
          holdings = map dict_of (list_of (dget clean ''holdings''));
          orders = map dict_of (list_of (dget clean ''open_orders''));
          roles = dict_of (dget (dict_of user) ''asset_roles'');
          limits1 = (if fund clean ''settled_cash_usd'' = PNone then [''SETTLEMENT_DEPENDENT_EXECUTION_REQUIRES_EVIDENCE''] else [])
            @ (if list_ex (\<lambda>h. \<not> dhas roles (row_asset h)) holdings then [''ASSET_ROLES_NOT_RECONFIRMED''] else [])
      in case scan_orders orders 0 [] of (limits2, commitment, selling) \<Rightarrow>
        (let resolved = (commitment \<noteq> None \<and> checked_state \<noteq> ''STALE''
               \<and> dget scope ''positions_complete'' = PBool True \<and> dget scope ''orders_complete'' = PBool True);
             positions = position_rows resolved selling holdings;
             limits = limits0 @ limits1 @ limits2 @ position_limits selling holdings;
             limits' = limits @ (if orders \<noteq> [] then [''ORDER_FEES_AND_FINANCING_REQUIRE_EXECUTION_RECHECK''] else [])
         in if checked_state \<noteq> ''AVAILABLE'' then Inr (reconciliation st reason (PDict clean) user PNone PNone limits positions)
            else (case commitment of
                None \<Rightarrow> Inr (reconciliation ''PARTIAL'' ''OPEN_ORDER_OCCUPANCY_UNRESOLVED'' (PDict clean) user PNone PNone limits' positions)
              | Some c \<Rightarrow>
                  (case reserve of
                     None \<Rightarrow> Inr (reconciliation st reason (PDict clean) user PNone (PFloat (to_float c)) limits' positions)
                   | Some r \<Rightarrow> ebind (cash_budget clean c r) (\<lambda>b.
                       Inr (reconciliation st reason (PDict clean) user (PFloat b) (PFloat (to_float c)) limits' positions))))))"

definition reconcile_capital :: "pyval \<Rightarrow> pyval \<Rightarrow> int \<Rightarrow> dict res" where
  "reconcile_capital observation intent at_ms =
     ebind (validate_broker_observation observation at_ms) (\<lambda>checked.
     (let clean = dget checked ''observation''; checked_state = str_of (dget checked ''state'');
          checked_reason = str_of (dget checked ''reason'') in
      ebind (case confirm_intent intent at_ms of
          Inr (user, reserve) \<Rightarrow> Inr (checked_state, checked_reason, PDict user, Some reserve, [])
        | Inl e \<Rightarrow> if \<not> intent_error e then Inl e
            else if checked_state = ''AVAILABLE''
              then Inr (''PARTIAL'', ''CAPITAL_INTENT_UNCONFIRMED'', PNone, None, [''CAPITAL_INTENT_UNCONFIRMED''])
            else Inr (checked_state, checked_reason, PNone, None, [''CAPITAL_INTENT_UNCONFIRMED'']))
        (\<lambda>(st, reason, user, reserve, limits).
        (let limits0 = limits @ [''NO_TRADE_OR_FINANCING_AUTHORIZATION''] in
         if clean = PNone then Inr (reconciliation st reason PNone user PNone PNone limits0 [])
         else reconcile_clean (dict_of clean) checked_state st reason user reserve limits0))))"

section \<open>What a seal keeps\<close>

lemma capital_symbol_Inr: "capital_symbol v = Inr s \<longleftrightarrow> v = PStr s \<and> symbol_shape s \<and> \<not> identifier_shape s"
  by (cases v) (auto simp: capital_symbol_def)

lemma capital_number_Inr: "capital_number v = Inr x \<Longrightarrow> is_finite x"
  by (auto simp: capital_number_def ebind_Inr_iff split: if_splits)

lemma capital_number_PFloat: "is_finite x \<Longrightarrow> capital_number (PFloat x) = Inr x"
  by (simp add: capital_number_def)

lemma capital_number_again: "capital_number v = Inr x \<Longrightarrow> capital_number (PFloat x) = Inr x"
  by (simp add: capital_number_PFloat capital_number_Inr)

lemma opt_number_again: "opt_number v = Inr w \<Longrightarrow> opt_number w = Inr w"
  by (auto simp: opt_number_def ebind_Inr_iff capital_number_again split: if_splits)

lemma seal_holding_E:
  assumes "seal_holding row = Inr h"
  obtains asset quantity cost where
    "h = [(''asset'', PStr asset), (''quantity'', PFloat quantity), (''currency'', PStr ''USD''),
          (''security_type'', PStr ''STK''), (''average_cost_usd'', PFloat cost)]"
    "capital_symbol (PStr asset) = Inr asset" "capital_number (PFloat quantity) = Inr quantity"
    "capital_number (PFloat cost) = Inr cost" "\<not> flt cost (Fin 0)" "is_finite (fmul quantity cost)"
proof -
  from assms obtain a asset q quantity c cost where f: "capital_symbol a = Inr asset" "capital_number q = Inr quantity"
    "capital_number c = Inr cost"
    and h: "\<not> flt cost (Fin 0)" "is_finite (fmul quantity cost)"
    "h = [(''asset'', PStr asset), (''quantity'', PFloat quantity), (''currency'', PStr ''USD''),
          (''security_type'', PStr ''STK''), (''average_cost_usd'', PFloat cost)]"
    unfolding seal_holding_def ebind_Inr_iff by (auto split: if_splits)
  have "capital_symbol (PStr asset) = Inr asset" using f(1) by (simp add: capital_symbol_Inr)
  then show thesis using that [OF h(3) _ capital_number_again [OF f(2)] capital_number_again [OF f(3)] h(1,2)] by simp
qed

lemma seal_holding_again: "seal_holding row = Inr h \<Longrightarrow> seal_holding (PDict h) = Inr h"
  by (erule seal_holding_E) (simp add: seal_holding_def)

lemma seal_order_E:
  assumes "seal_order row = Inr r"
  obtains asset side order_type quantity filled remaining limit where
    "r = [(''asset'', PStr asset), (''side'', PStr side), (''currency'', PStr ''USD''), (''order_type'', order_type),
          (''quantity'', PFloat quantity), (''filled_quantity'', filled),
          (''remaining_quantity'', remaining), (''limit_price_usd'', limit)]"
    "side \<in> {''BUY'', ''SELL''}" "capital_symbol (PStr asset) = Inr asset" "capital_number (PFloat quantity) = Inr quantity"
    "opt_number filled = Inr filled" "opt_number remaining = Inr remaining" "opt_number limit = Inr limit"
proof -
  from assms obtain a asset sd side order_type q quantity f filled m remaining l limit where
    f: "capital_symbol a = Inr asset" "capital_number q = Inr quantity" "opt_number f = Inr filled"
      "opt_number m = Inr remaining" "opt_number l = Inr limit"
    and sd: "in_strs side [''BUY'', ''SELL''] = Inr True"
    and r: "r = [(''asset'', PStr asset), (''side'', side), (''currency'', PStr ''USD''), (''order_type'', order_type),
          (''quantity'', PFloat quantity), (''filled_quantity'', filled),
          (''remaining_quantity'', remaining), (''limit_price_usd'', limit)]"
    unfolding seal_order_def ebind_Inr_iff
    apply (elim exE conjE)
    apply (simp split: if_splits)
    by (metis (no_types, lifting))
  obtain s where s: "s \<in> {''BUY'', ''SELL''}" "side = PStr s" using sd by (auto simp: in_strs_Inr_True)
  have "capital_symbol (PStr asset) = Inr asset" using f(1) by (simp add: capital_symbol_Inr)
  then show thesis
    using that [OF r [unfolded s(2)] s(1) _ capital_number_again [OF f(2)] opt_number_again [OF f(3)] opt_number_again [OF f(4)] opt_number_again [OF f(5)]]
    by simp
qed

lemma seal_order_again: "seal_order row = Inr r \<Longrightarrow> seal_order (PDict r) = Inr r"
  by (erule seal_order_E) (auto simp: seal_order_def)

lemma emap_Inr_all: "emap f xs = Inr ys \<Longrightarrow> y \<in> set ys \<Longrightarrow> \<exists>x \<in> set xs. f x = Inr y"
  by (induction xs arbitrary: ys) (auto simp: ebind_Inr_iff)

lemma emap_fixed: "(\<And>y. y \<in> set ys \<Longrightarrow> f (g y) = Inr y) \<Longrightarrow> emap f (map g ys) = Inr ys"
  by (induction ys) auto

lemma emap_keys: "emap f ks = Inr d \<Longrightarrow> (\<And>k y. f k = Inr y \<Longrightarrow> fst y = k) \<Longrightarrow> keys d = ks"
  by (induction ks arbitrary: d) (auto simp: ebind_Inr_iff keys_def)

definition scope_again :: "dict \<Rightarrow> bool" where
  "scope_again scope \<longleftrightarrow> emap (\<lambda>k. ebind (py_get (PDict scope) k) (\<lambda>v. Inr (k, v))) SCOPE_KEYS = Inr scope"

definition funds_again :: "dict \<Rightarrow> bool" where
  "funds_again funds \<longleftrightarrow> emap (\<lambda>k. ebind (py_get (PDict funds) k) (\<lambda>v. ebind (opt_number v) (\<lambda>x. Inr (k, x)))) FUND_KEYS = Inr funds"

lemma scope_keys_again:
  assumes "emap (\<lambda>k. ebind (py_get w k) (\<lambda>v. Inr (k, v))) SCOPE_KEYS = Inr scope"
  shows "scope_again scope"
proof -
  from assms obtain d where "w = PDict d" by (cases w) (auto simp: SCOPE_KEYS_def)
  with assms show ?thesis by (auto simp: scope_again_def SCOPE_KEYS_def)
qed

lemma fund_keys_again:
  assumes "emap (\<lambda>k. ebind (py_get w k) (\<lambda>v. ebind (opt_number v) (\<lambda>x. Inr (k, x)))) FUND_KEYS = Inr funds"
  shows "funds_again funds"
proof -
  from assms obtain d where "w = PDict d" by (cases w) (auto simp: FUND_KEYS_def)
  with assms obtain a b c where funds: "funds = [(''cash_usd'', a), (''available_funds_usd'', b), (''settled_cash_usd'', c)]"
    and "opt_number (dget d ''cash_usd'') = Inr a" "opt_number (dget d ''available_funds_usd'') = Inr b"
      "opt_number (dget d ''settled_cash_usd'') = Inr c"
    by (auto simp: FUND_KEYS_def ebind_Inr_iff)
  then have "opt_number a = Inr a" "opt_number b = Inr b" "opt_number c = Inr c" by (blast intro: opt_number_again)+
  then show ?thesis by (simp add: funds funds_again_def FUND_KEYS_def)
qed

lemma guard_Inr: "(if b then Inl e else m) = Inr y \<longleftrightarrow> \<not> b \<and> m = Inr y" for m :: "'a res"
  by simp

text \<open>The shape of a sealed observation.\<close>

lemma seal_broker_E:
  assumes "seal_broker_observation capture = Inr s"
  obtains source observed started automatic scope hs funds os where
    "s = broker_body (PStr source) observed started automatic scope (sort_key row_asset hs) funds
         (sort_key (\<lambda>row. json_default (PDict row)) os)
       @ [(''observation_hash'', PStr (canonical_hash (PDict (broker_body (PStr source) observed started automatic scope
            (sort_key row_asset hs) funds (sort_key (\<lambda>row. json_default (PDict row)) os)))))]"
    "source \<in> {SOCKET_SOURCE, CONNECTED_SOURCE}" "automatic \<longrightarrow> source = SOCKET_SOURCE"
    "scope_again scope" "funds_again funds" "distinct (map row_asset (sort_key row_asset hs))"
    "\<And>h. h \<in> set hs \<Longrightarrow> seal_holding (PDict h) = Inr h" "\<And>r. r \<in> set os \<Longrightarrow> seal_order (PDict r) = Inr r"
    "all_finite (PDict (broker_body (PStr source) observed started automatic scope
        (sort_key row_asset hs) funds (sort_key (\<lambda>row. json_default (PDict row)) os)))"
proof -
  from assms obtain known o1 observed s1 started scope hrows hs funds orows os h where
    known: "in_strs (dget capture ''source'') [SOCKET_SOURCE, CONNECTED_SOURCE] = Inr known" known
    and scope: "emap (\<lambda>k. ebind (py_get (dget_or capture ''scope'' (PDict [])) k) (\<lambda>v. Inr (k, v))) SCOPE_KEYS = Inr scope"
    and hs: "emap seal_holding hrows = Inr hs"
    and d: "distinct (map row_asset (sort_key row_asset hs))"
    and funds: "emap (\<lambda>k. ebind (py_get (dget_or capture ''funds'' (PDict [])) k) (\<lambda>v.
               ebind (opt_number v) (\<lambda>x. Inr (k, x)))) FUND_KEYS = Inr funds"
    and os: "emap seal_order orows = Inr os"
    and s: "canonical_hash_strict (PDict (broker_body (dget capture ''source'') observed started
        (dget capture ''source'' = PStr SOCKET_SOURCE \<and> dget capture ''automatic_local_refresh'' = PBool True) scope
        (sort_key row_asset hs) funds (sort_key (\<lambda>row. json_default (PDict row)) os))) = Inr h"
      "Inr (broker_body (dget capture ''source'') observed started
          (dget capture ''source'' = PStr SOCKET_SOURCE \<and> dget capture ''automatic_local_refresh'' = PBool True) scope
          (sort_key row_asset hs) funds (sort_key (\<lambda>row. json_default (PDict row)) os) @ [(''observation_hash'', PStr h)]) = (Inr s :: dict res)"
    unfolding seal_broker_observation_def ebind_Inr_iff Let_def guard_Inr not_not
    by (elim exE conjE) (rule that; assumption)
  from known obtain src where src: "dget capture ''source'' = PStr src" "src \<in> {SOCKET_SOURCE, CONNECTED_SOURCE}"
    by (auto simp: in_strs_Inr_True)
  have sealed: "\<And>h. h \<in> set hs \<Longrightarrow> seal_holding (PDict h) = Inr h" "\<And>r. r \<in> set os \<Longrightarrow> seal_order (PDict r) = Inr r"
    using emap_Inr_all [OF hs] emap_Inr_all [OF os] seal_holding_again seal_order_again by blast+
  let ?auto = "dget capture ''source'' = PStr SOCKET_SOURCE \<and> dget capture ''automatic_local_refresh'' = PBool True"
  show thesis
    by (rule that [where automatic = ?auto and observed = observed and started = started,
          OF _ src(2) _ scope_keys_again [OF scope] fund_keys_again [OF funds] d sealed])
      (use s src in \<open>auto simp: canonical_hash_strict_iff\<close>)
qed

lemma broker_body_fields:
  fixes src ob st au sc hs fs os
  defines "b \<equiv> broker_body src ob st au sc hs fs os"
  shows "dget (b @ x) ''source'' = src" "py_index (PDict (b @ x)) ''observed_at_ms'' = Inr (PInt ob)"
    "py_index (PDict (b @ x)) ''started_at_ms'' = Inr (PInt st)" "dget (b @ x) ''automatic_local_refresh'' = PBool au"
    "dget_or (b @ x) ''scope'' v = PDict sc" "dget_or (b @ x) ''holdings'' v = PList (map PDict hs)"
    "dget_or (b @ x) ''funds'' v = PDict fs" "dget_or (b @ x) ''open_orders'' v = PList (map PDict os)"
    "dget (b @ x) ''scope'' = PDict sc" "dget (b @ x) ''funds'' = PDict fs" "dget (b @ x) ''observed_at_ms'' = PInt ob"
    "dget (b @ x) ''started_at_ms'' = PInt st" "dget (b @ x) ''schema_version'' = PStr BROKER_SCHEMA"
    "dget (b @ x) ''open_orders'' = PList (map PDict os)" "dget (b @ x) ''holdings'' = PList (map PDict hs)"
    "dget (b @ x) ''action_output'' = PStr ''NONE''" "dget (b @ x) ''external_action_authority'' = PStr ''NONE''"
    "dget (b @ x) ''external_action_performed'' = PBool False" "dget (b @ x) ''capture_failed'' = dget x ''capture_failed''"
    "dget (b @ x) ''observation_hash'' = dget x ''observation_hash''"
    "keys (b @ x) = [''schema_version'', ''source'', ''observed_at_ms'', ''started_at_ms'', ''automatic_local_refresh'',
       ''scope'', ''holdings'', ''funds'', ''open_orders'', ''action_output'', ''external_action_authority'',
       ''external_action_performed''] @ keys x"
  unfolding b_def broker_body_def by (simp_all add: dget_or_def keys_def)

lemma seal_again:
  assumes "seal_broker_observation capture = Inr s"
  shows "seal_broker_observation s = Inr s"
  using assms
proof (rule seal_broker_E)
  fix source observed started automatic scope hs funds os
  let ?hs = "sort_key row_asset hs" and ?os = "sort_key (\<lambda>row. json_default (PDict row)) os"
  let ?b = "broker_body (PStr source) observed started automatic scope ?hs funds ?os"
  assume s: "s = ?b @ [(''observation_hash'', PStr (canonical_hash (PDict ?b)))]"
    and src: "source \<in> {SOCKET_SOURCE, CONNECTED_SOURCE}" "automatic \<longrightarrow> source = SOCKET_SOURCE"
    and parts: "scope_again scope" "funds_again funds" and d: "distinct (map row_asset ?hs)"
    and hs: "\<And>h. h \<in> set hs \<Longrightarrow> seal_holding (PDict h) = Inr h" and os: "\<And>r. r \<in> set os \<Longrightarrow> seal_order (PDict r) = Inr r"
    and fin: "all_finite (PDict ?b)"
  have "emap seal_holding (map PDict ?hs) = Inr ?hs" "emap seal_order (map PDict ?os) = Inr ?os"
    by (rule emap_fixed; simp add: hs os)+
  moreover have "in_strs (PStr source) [SOCKET_SOURCE, CONNECTED_SOURCE] = Inr True" using src(1) by simp
  moreover have "(PStr source = PStr SOCKET_SOURCE \<and> PBool automatic = PBool True) = automatic" using src(2) by auto
  ultimately show ?thesis
    using parts d fin unfolding seal_broker_observation_def s broker_body_fields scope_again_def funds_again_def
    by (simp add: canonical_hash_strict_Inr sort_key_idem Let_def)
qed

section \<open>Correctness of seal and validation\<close>

text \<open>A sealed observation carries the allowlisted fields and nothing else - no account or order
  identifier of the capture survives - and sealing it again returns the very same record, so its
  proof hash checks.\<close>

theorem sealed_observation_allowlisted:
  assumes "seal_broker_observation capture = Inr s"
  shows "seal_broker_observation s = Inr s
    \<and> keys s = [''schema_version'', ''source'', ''observed_at_ms'', ''started_at_ms'', ''automatic_local_refresh'',
        ''scope'', ''holdings'', ''funds'', ''open_orders'', ''action_output'', ''external_action_authority'',
        ''external_action_performed'', ''observation_hash'']
    \<and> (\<forall>h \<in> set (list_of (dget s ''holdings'')). keys (dict_of h) =
        [''asset'', ''quantity'', ''currency'', ''security_type'', ''average_cost_usd''])
    \<and> (\<forall>r \<in> set (list_of (dget s ''open_orders'')). keys (dict_of r) =
        [''asset'', ''side'', ''currency'', ''order_type'', ''quantity'', ''filled_quantity'', ''remaining_quantity'', ''limit_price_usd''])
    \<and> keys (dict_of (dget s ''scope'')) = SCOPE_KEYS \<and> keys (dict_of (dget s ''funds'')) = FUND_KEYS"
proof -
  have sub: "keys h = [''asset'', ''quantity'', ''currency'', ''security_type'', ''average_cost_usd'']"
    if "seal_holding (PDict h) = Inr h" for h using that by (rule seal_holding_E) (simp add: keys_def)
  have sub': "keys r = [''asset'', ''side'', ''currency'', ''order_type'', ''quantity'', ''filled_quantity'',
      ''remaining_quantity'', ''limit_price_usd'']" if "seal_order (PDict r) = Inr r" for r
    using that by (rule seal_order_E) (simp add: keys_def)
  have sk: "keys scope = SCOPE_KEYS" if "scope_again scope" for scope
    using that unfolding scope_again_def by (rule emap_keys) (auto simp: ebind_Inr_iff)
  have fk: "keys funds = FUND_KEYS" if "funds_again funds" for funds
    using that unfolding funds_again_def by (rule emap_keys) (auto simp: ebind_Inr_iff)
  have hash_key: "keys [(''observation_hash'', v)] = [''observation_hash'']" for v by (simp add: keys_def)
  show ?thesis
  proof (intro conjI seal_again [OF assms])
  qed (rule seal_broker_E [OF assms]; simp add: broker_body_fields sub sub' sk fk hash_key)+
qed

definition usable_capture :: "dict \<Rightarrow> bool" where
  "usable_capture s \<longleftrightarrow> (let scope = dict_of (dget s ''scope'') in
     dget scope ''account_count'' = PInt 1
     \<and> list_all (\<lambda>k. dget scope k = PBool True) [''same_account_verified'', ''account_ready'', ''positions_complete'', ''funds_complete'', ''orders_complete'']
     \<and> fund s ''cash_usd'' \<noteq> PNone \<and> fund s ''available_funds_usd'' \<noteq> PNone
     \<and> 0 < int_of (dget s ''started_at_ms'') \<and> int_of (dget s ''started_at_ms'') \<le> int_of (dget s ''observed_at_ms'')
     \<and> int_of (dget s ''observed_at_ms'') - int_of (dget s ''started_at_ms'') \<le> 30000)"

lemma check_sealed:
  assumes "seal_broker_observation capture = Inr s"
  shows "validate_broker_observation (PDict s) at_ms =
    (case check_broker_observation s at_ms of Inr result \<Rightarrow> Inr result
     | Inl e \<Rightarrow> if observation_error e
         then Inr (check_result ''BLOCKED'' (if exn_text e \<in> set BLOCKED_BROKER_REASONS then exn_text e else ''BROKER_OBSERVATION_INVALID''))
         else Inl e)"
    "dget s ''schema_version'' = PStr BROKER_SCHEMA" "is_str (dget s ''observation_hash'')"
    "dget s ''action_output'' = PStr ''NONE''" "dget s ''external_action_authority'' = PStr ''NONE''"
    "dget s ''external_action_performed'' = PBool False"
  using assms by (rule seal_broker_E; simp add: validate_broker_observation_def broker_body_fields)+

lemma sealed_lifetime:
  assumes "seal_broker_observation capture = Inr s" and "usable_capture s"
  defines "taken \<equiv> int_of (dget s ''observed_at_ms'')"
  shows "validate_broker_observation (PDict s) at_ms =
    Inr (if at_ms < taken then check_result ''BLOCKED'' ''BROKER_OBSERVATION_CLOCK_INVALID''
         else (if at_ms \<le> taken + 300000 then check_result ''AVAILABLE'' ''BROKER_OBSERVATION_VALID''
               else check_result ''STALE'' ''BROKER_OBSERVATION_EXPIRED'') @ [(''observation'', PDict s)])"
proof -
  note s = check_sealed [OF assms(1)]
  have hash: "py_eq (dget s ''observation_hash'') (dget s ''observation_hash'')" using s(3) by (cases "dget s ''observation_hash''") auto
  have "check_broker_observation s at_ms = (if at_ms < taken then Inl (ValueError ''BROKER_OBSERVATION_CLOCK_INVALID'')
      else Inr ((if at_ms \<le> taken + 300000 then check_result ''AVAILABLE'' ''BROKER_OBSERVATION_VALID''
               else check_result ''STALE'' ''BROKER_OBSERVATION_EXPIRED'') @ [(''observation'', PDict s)]))"
    using assms(2) hash unfolding check_broker_observation_def seal_again [OF assms(1)] ebind.simps Let_def
    by (simp add: s usable_capture_def Let_def clock_invalid_def observation_grade_def MAX_AGE_MS_def MAX_SNAPSHOT_SPAN_MS_def
        fund_def taken_def)
  then show ?thesis unfolding s(1) by (simp add: BLOCKED_BROKER_REASONS_def)
qed

text \<open>A sealed, complete observation of one account is usable exactly from the moment it was
  taken until five minutes later: before it the validation blocks on the clock, afterwards the
  observation is stale.\<close>

theorem observation_lifetime:
  assumes "seal_broker_observation capture = Inr s" and "usable_capture s"
  defines "taken \<equiv> int_of (dget s ''observed_at_ms'')"
  shows "validate_broker_observation (PDict s) at_ms =
    Inr (if at_ms < taken then check_result ''BLOCKED'' ''BROKER_OBSERVATION_CLOCK_INVALID''
         else (if at_ms \<le> taken + 300000 then check_result ''AVAILABLE'' ''BROKER_OBSERVATION_VALID''
               else check_result ''STALE'' ''BROKER_OBSERVATION_EXPIRED'') @ [(''observation'', PDict s)])"
  using assms(1,2) unfolding taken_def by (rule sealed_lifetime)

text \<open>An adapted intent is available only with an explicit, user-confirmed no-leverage permission.\<close>

lemma adapt_available:
  assumes "dget (adapt_capital_intent intent decision) ''state'' = PStr ''AVAILABLE''"
  shows "\<exists>full. dget (adapt_capital_intent intent decision) ''full_decision_intent'' = PDict full
    \<and> dget full ''source'' = PStr ''USER_CONFIRMED'' \<and> dget full ''no_leverage'' = PBool True"
  using assms by (auto simp: adapt_capital_intent_def Let_def split: if_splits)

section \<open>The cash budget\<close>

lemma order_aligned_remaining: "order_aligned row \<Longrightarrow> \<not> flt (remaining_of row) (Fin 0)"
proof -
  assume a: "order_aligned row"
  then obtain f r t where v: "opt_float (dget row ''remaining_quantity'') = Some r"
    and m: "\<not> flt (fmin (fmin f r) t) (Fin 0)" and c: "isclose8 (fadd f r) t"
    by (auto simp: order_aligned_def split: option.splits)
  have "\<not> flt r (Fin 0)" using m c by (cases f; cases r; cases t) (auto simp: fmin_def isclose8_def split: if_splits)
  then show ?thesis by (simp add: remaining_of_def v)
qed

lemma limit_of_positive: "limit_of row = Some l \<Longrightarrow> \<not> flt l (Fin 0)"
  by (auto simp: limit_of_def fle_def split: if_splits option.splits)

lemma scan_orders_resolved:
  assumes "scan_orders rows c selling = (l, Some c', selling')" and "0 \<le> c"
  shows "0 \<le> c' \<and> list_all order_aligned rows \<and> l = []"
  using assms
proof (induction rows c selling rule: scan_orders.induct)
  case (2 row rows c selling)
  from "2.prems"(1) have al: "order_aligned row" by (auto split: if_splits)
  show ?case
  proof (cases "dget row ''side'' = PStr ''BUY''")
    case True
    with "2.prems"(1) al obtain x where x: "limit_of row = Some x" by (auto split: option.splits)
    have "0 \<le> dec_add c (dec_mul (dec_of_float (remaining_of row)) (dec_of_float x))"
      using "2.prems"(2) order_aligned_remaining [OF al] limit_of_positive [OF x]
      by (intro dec_add_nonneg dec_mul_nonneg dec_of_float_nonneg)
    then show ?thesis using "2.IH"(1) [of x] "2.prems"(1) True al x by simp
  next
    case False
    then show ?thesis using "2.IH"(2) "2.prems" al by simp
  qed
qed simp

lemma reconciliation_fields:
  "dget (reconciliation st rs br us bu co li po) ''state'' = PStr st"
  "dget (reconciliation st rs br us bu co li po) ''broker_observed'' = br"
  "dget (reconciliation st rs br us bu co li po) ''user_confirmed'' = us"
  "dget (reconciliation st rs br us bu co li po) ''analysis_cash_budget_usd'' = bu"
  by (simp_all add: reconciliation_def)

lemma reconcile_clean_budget:
  assumes "reconcile_clean clean cs st reason user reserve ls = Inr r" and "dget r ''analysis_cash_budget_usd'' = PFloat b"
  obtains l c selling rv where "cs = ''AVAILABLE''" "scan_orders (map dict_of (list_of (dget clean ''open_orders''))) 0 [] = (l, Some c, selling)"
    "reserve = Some rv" "cash_budget clean c rv = Inr b" "dget r ''state'' = PStr st"
    "dget r ''broker_observed'' = PDict clean" "dget r ''user_confirmed'' = user"
proof -
  obtain l c selling where sc: "scan_orders (map dict_of (list_of (dget clean ''open_orders''))) 0 [] = (l, c, selling)"
    by (metis prod_cases3)
  note e = assms(1) [unfolded reconcile_clean_def Let_def sc prod.case]
  show thesis
  proof (cases "cs = ''AVAILABLE'' \<and> c \<noteq> None \<and> reserve \<noteq> None")
    case True
    then obtain c0 rv where c: "c = Some c0" "reserve = Some rv" "cs = ''AVAILABLE''" by auto
    from e c obtain b' where b': "cash_budget clean c0 rv = Inr b'" and r: "dget r ''analysis_cash_budget_usd'' = PFloat b'"
        "dget r ''state'' = PStr st" "dget r ''broker_observed'' = PDict clean" "dget r ''user_confirmed'' = user"
      by (auto simp: ebind_Inr_iff reconciliation_fields)
    show thesis using that [OF c(3) _ c(2) _ r(2-4)] sc c b' r(1) assms(2) by simp
  next
    case False
    then have "dget r ''analysis_cash_budget_usd'' = PNone"
      using e by (auto simp: reconciliation_fields split: if_splits option.splits)
    then show thesis using assms(2) by simp
  qed
qed

lemma validate_available:
  assumes "validate_broker_observation v at_ms = Inr checked" and "str_of (dget checked ''state'') = ''AVAILABLE''"
  obtains ob clean where "v = PDict ob" "seal_broker_observation ob = Inr clean"
    "checked = check_result ''AVAILABLE'' ''BROKER_OBSERVATION_VALID'' @ [(''observation'', PDict clean)]"
    "observation_grade clean at_ms = (''AVAILABLE'', ''BROKER_OBSERVATION_VALID'')"
proof -
  from assms obtain ob where v: "v = PDict ob"
    by (cases v) (auto simp: validate_broker_observation_def check_result_def)
  from assms have "check_broker_observation ob at_ms = Inr checked"
    by (auto simp: v validate_broker_observation_def check_result_def ebind_Inr_iff split: if_splits sum.splits)
  then have "\<exists>clean. seal_broker_observation ob = Inr clean \<and> (case observation_grade clean at_ms of (st, reason) \<Rightarrow>
      Inr (check_result st reason @ [(''observation'', PDict clean)])) = (Inr checked :: dict res)"
    unfolding check_broker_observation_def ebind_Inr_iff Let_def guard_Inr by blast
  then obtain clean where s: "seal_broker_observation ob = Inr clean" and k: "(case observation_grade clean at_ms of (st, reason) \<Rightarrow>
      Inr (check_result st reason @ [(''observation'', PDict clean)])) = (Inr checked :: dict res)" by blast
  obtain st rs where g: "observation_grade clean at_ms = (st, rs)" by fastforce
  then have c: "checked = check_result st rs @ [(''observation'', PDict clean)]" using k by simp
  have "st = ''AVAILABLE''" using assms(2) by (simp add: c check_result_def)
  moreover have "rs = ''BROKER_OBSERVATION_VALID''" using g calculation by (auto simp: observation_grade_def Let_def split: if_splits)
  ultimately show thesis using that v s g c by simp
qed

lemma fund_available:
  assumes "seal_broker_observation ob = Inr clean" and "observation_grade clean at_ms = (''AVAILABLE'', rs)"
    and "k \<in> {''cash_usd'', ''available_funds_usd''}"
  obtains x where "fund clean k = PFloat x"
proof -
  have "fund clean k \<noteq> PNone" using assms(2,3) by (auto simp: observation_grade_def fund_def Let_def split: if_splits)
  moreover have "opt_number (fund clean k) = Inr (fund clean k)"
    using assms(1)
  proof (rule seal_broker_E)
    fix source observed started automatic scope hs funds os
    let ?hs = "sort_key row_asset hs" and ?os = "sort_key (\<lambda>row. json_default (PDict row)) os"
    let ?b = "broker_body (PStr source) observed started automatic scope ?hs funds ?os"
    assume s: "clean = ?b @ [(''observation_hash'', PStr (canonical_hash (PDict ?b)))]" and f: "funds_again funds"
    have "opt_number (dget funds k) = Inr (dget funds k)" using f assms(3)
      by (auto simp: funds_again_def FUND_KEYS_def ebind_Inr_iff)
    then show ?thesis by (simp only: s fund_def broker_body_fields dict_of.simps)
  qed
  ultimately obtain x where "PFloat x = fund clean k" by (auto simp: opt_number_def ebind_Inr_iff)
  then show thesis using that by metis
qed

text \<open>C16: a cash budget is granted only on an available observation of the broker, an intent the user
  confirmed and open orders whose fills all align; it is a whole number of cents, never negative,
  and exceeds neither the observed cash nor the observed available funds.\<close>

theorem budget_within_funds:
  assumes "reconcile_capital observation intent at_ms = Inr r" and "dget r ''analysis_cash_budget_usd'' = PFloat b"
  shows "\<exists>clean user reserve cash available q.
    validate_broker_observation observation at_ms
      = Inr (check_result ''AVAILABLE'' ''BROKER_OBSERVATION_VALID'' @ [(''observation'', PDict clean)])
    \<and> confirm_intent intent at_ms = Inr (user, reserve)
    \<and> dget r ''state'' = PStr ''AVAILABLE'' \<and> dget r ''broker_observed'' = PDict clean \<and> dget r ''user_confirmed'' = PDict user
    \<and> list_all order_aligned (map dict_of (list_of (dget clean ''open_orders'')))
    \<and> fund clean ''cash_usd'' = PFloat cash \<and> fund clean ''available_funds_usd'' = PFloat available
    \<and> b = to_float q \<and> 0 \<le> q \<and> (\<exists>cents. q = of_int cents / 100)
    \<and> q \<le> max 0 (dec_round (dec_of_float cash)) \<and> q \<le> max 0 (dec_round (dec_of_float available))"
proof -
  from assms(1) obtain checked where ck: "validate_broker_observation observation at_ms = Inr checked"
    by (auto simp: reconcile_capital_def ebind_Inr_iff)
  let ?st = "str_of (dget checked ''state'')" and ?rs = "str_of (dget checked ''reason'')"
  let ?c = "dget checked ''observation''" and ?l = "[''NO_TRADE_OR_FINANCING_AUTHORIZATION'']"
  note e = assms(1) [unfolded reconcile_capital_def ck ebind.simps Let_def]
  obtain user reserve where ui: "confirm_intent intent at_ms = Inr (user, reserve)"
    and rc: "reconcile_clean (dict_of ?c) ?st ?st ?rs (PDict user) (Some reserve) ?l = Inr r"
  proof (cases "confirm_intent intent at_ms")
    case (Inl x)
    obtain st us ls where "(if ?c = PNone then Inr (reconciliation st us PNone PNone PNone PNone ls [])
        else reconcile_clean (dict_of ?c) ?st st us PNone None ls) = Inr r"
      using e unfolding Inl by (auto split: if_splits)
    then have False using assms(2)
      by (auto simp: reconciliation_fields split: if_splits elim: reconcile_clean_budget)
    then show thesis ..
  next
    case (Inr x)
    then obtain user reserve where x: "confirm_intent intent at_ms = Inr (user, reserve)" by (cases x) auto
    from e have "?c \<noteq> PNone" using assms(2) by (auto simp: x reconciliation_fields)
    then show thesis using that [OF x] e by (simp add: x)
  qed
  from rc assms(2) obtain l c selling rv where av: "?st = ''AVAILABLE''" and rv: "Some reserve = Some rv"
    and sc: "scan_orders (map dict_of (list_of (dget (dict_of ?c) ''open_orders''))) 0 [] = (l, Some c, selling)"
    and cb: "cash_budget (dict_of ?c) c rv = Inr b"
    and r: "dget r ''state'' = PStr ?st" "dget r ''broker_observed'' = PDict (dict_of ?c)" "dget r ''user_confirmed'' = PDict user"
    by (rule reconcile_clean_budget)
  obtain ob clean where cl: "seal_broker_observation ob = Inr clean"
    "checked = check_result ''AVAILABLE'' ''BROKER_OBSERVATION_VALID'' @ [(''observation'', PDict clean)]"
    "observation_grade clean at_ms = (''AVAILABLE'', ''BROKER_OBSERVATION_VALID'')"
    using validate_available [OF ck av] by metis
  have c: "dict_of ?c = clean" by (simp add: cl(2) check_result_def)
  obtain cash available where funds: "fund clean ''cash_usd'' = PFloat cash" "fund clean ''available_funds_usd'' = PFloat available"
    using fund_available [OF cl(1,3)] by (metis insertI1 insertI2 singletonI)
  have res: "0 \<le> dec_of_float rv" using ui rv
    by (intro dec_of_float_nonneg) (auto simp: confirm_intent_def Let_def ebind_Inr_iff guard_Inr)
  define m where "m = min (dec_sub (dec_of_float cash) c) (dec_of_float available)"
  from cb obtain q where q: "quantize_cents (max 0 (dec_sub m (dec_of_float rv))) = Inr q" and b: "b = to_float q"
    by (auto simp: c cash_budget_def fund_dec_def funds m_def ebind_Inr_iff)
  note resolved = scan_orders_resolved [OF sc order_refl]
  have "q \<le> max 0 (dec_sub m (dec_of_float rv))" by (rule quantize_cents_Inr(1) [OF q])
  also have "\<dots> \<le> max 0 (dec_round m)" using dec_sub_le [OF res, of m] by simp
  finally have le: "q \<le> max 0 (dec_round m)" .
  have "m \<le> dec_round (dec_of_float cash)" using dec_sub_le [of c "dec_of_float cash"] resolved by (simp add: m_def)
  then have "q \<le> max 0 (dec_round (dec_of_float cash))" 
    using le dec_round_mono [of m "dec_round (dec_of_float cash)"] by (simp add: max_def split: if_splits)
  moreover have "q \<le> max 0 (dec_round (dec_of_float available))"
    using le dec_round_mono [of m "dec_of_float available"] by (simp add: m_def)
  moreover have "0 \<le> q" "\<exists>cents. q = of_int cents / 100" using quantize_cents_Inr(2,3) [OF q] by simp_all
  moreover have "dget r ''state'' = PStr ''AVAILABLE''" "dget r ''broker_observed'' = PDict clean" using r av c by simp_all
  moreover have "list_all order_aligned (map dict_of (list_of (dget clean ''open_orders'')))" using resolved by (simp only: c)
  ultimately show ?thesis using ck [unfolded cl(2)] ui r(3) funds b
    by (intro exI [of _ clean] exI [of _ user] exI [of _ reserve] exI [of _ cash] exI [of _ available] exI [of _ q] conjI)
qed

section \<open>A concrete capture\<close>

definition demo_capture :: dict where
  "demo_capture = [(''source'', PStr SOCKET_SOURCE), (''account_id'', PStr ''U1234567''), (''observed_at_ms'', PInt 1000000),
     (''started_at_ms'', PInt 999000), (''automatic_local_refresh'', PBool True),
     (''scope'', PDict [(''account_count'', PInt 1), (''same_account_verified'', PBool True), (''account_ready'', PBool True),
        (''positions_complete'', PBool True), (''funds_complete'', PBool True), (''orders_complete'', PBool True)]),
     (''holdings'', PList [PDict [(''asset'', PStr ''MSTR''), (''quantity'', PInt 10), (''currency'', PStr ''USD''),
        (''security_type'', PStr ''STK''), (''average_cost_usd'', PInt 300), (''account_id'', PStr ''U1234567'')]]),
     (''funds'', PDict [(''cash_usd'', PInt 1000), (''available_funds_usd'', PInt 900)]),
     (''open_orders'', PList [PDict [(''asset'', PStr ''MSTR''), (''side'', PStr ''BUY''), (''currency'', PStr ''USD''),
        (''order_type'', PStr ''LMT''), (''quantity'', PInt 2), (''filled_quantity'', PInt 0), (''remaining_quantity'', PInt 2),
        (''limit_price_usd'', PInt 100), (''order_id'', PInt 77)]])]"

definition demo_body :: dict where
  "demo_body = broker_body (PStr SOCKET_SOURCE) 1000000 999000 True
     [(''account_count'', PInt 1), (''same_account_verified'', PBool True), (''account_ready'', PBool True),
      (''positions_complete'', PBool True), (''funds_complete'', PBool True), (''orders_complete'', PBool True)]
     [[(''asset'', PStr ''MSTR''), (''quantity'', PFloat (Fin 10)), (''currency'', PStr ''USD''),
       (''security_type'', PStr ''STK''), (''average_cost_usd'', PFloat (Fin 300))]]
     [(''cash_usd'', PFloat (Fin 1000)), (''available_funds_usd'', PFloat (Fin 900)), (''settled_cash_usd'', PNone)]
     [[(''asset'', PStr ''MSTR''), (''side'', PStr ''BUY''), (''currency'', PStr ''USD''), (''order_type'', PStr ''LMT''),
       (''quantity'', PFloat (Fin 2)), (''filled_quantity'', PFloat (Fin 0)), (''remaining_quantity'', PFloat (Fin 2)),
       (''limit_price_usd'', PFloat (Fin 100))]]"

definition demo_observation :: dict where
  "demo_observation = demo_body @ [(''observation_hash'', PStr (canonical_hash (PDict demo_body)))]"

lemma demo_symbol: "capital_symbol (PStr ''MSTR'') = Inr ''MSTR''"
  by code_simp

lemma demo_number: "(numeral n :: int) < 2 ^ 53 \<Longrightarrow> capital_number (PInt (numeral n)) = Inr (Fin (numeral n))"
  "capital_number (PInt 0) = Inr (Fin 0)"
  by (simp_all add: capital_number_def float_of_int_def)

lemma demo_seal: "seal_broker_observation demo_capture = Inr demo_observation"
  unfolding demo_observation_def
  by (simp add: seal_broker_observation_def demo_capture_def SCOPE_KEYS_def FUND_KEYS_def dget_or_def seal_holding_def
        seal_order_def opt_number_def demo_symbol demo_number Let_def canonical_hash_strict_Inr
        demo_body_def broker_body_def)

lemma demo_usable: "usable_capture demo_observation"
  by (simp add: usable_capture_def demo_observation_def demo_body_def broker_body_fields fund_def Let_def)

theorem sealed_observation_allowlisted_witness:
  "seal_broker_observation demo_capture = Inr demo_observation \<and> dhas demo_capture ''account_id''
   \<and> \<not> dhas demo_observation ''account_id''"
proof -
  have "''account_id'' \<notin> set (keys demo_observation)"
    using sealed_observation_allowlisted [OF demo_seal] by simp
  then show ?thesis by (simp add: demo_seal set_keys) (simp add: demo_capture_def)
qed

theorem observation_lifetime_witness:
  "usable_capture demo_observation \<and> validate_broker_observation (PDict demo_observation) 1300000
     = Inr (check_result ''AVAILABLE'' ''BROKER_OBSERVATION_VALID'' @ [(''observation'', PDict demo_observation)])"
proof -
  have "int_of (dget demo_observation ''observed_at_ms'') = 1000000" by (simp add: demo_observation_def demo_body_def broker_body_fields)
  then show ?thesis using demo_usable observation_lifetime [OF demo_seal demo_usable, of 1300000] by simp
qed

definition demo_intent :: dict where
  "demo_intent = [(''source'', PStr ''USER_CONFIRMED''), (''confirmed_at_ms'', PInt 1000), (''reserved_usd'', PInt 100),
     (''plan_policy'', PStr ''CANCEL_ALL_NO_REPLACEMENT''), (''asset_roles'', PDict [(''MSTR'', PStr ''CORE'')])]"

lemma demo_decimals: "dec_of_float (Fin 1000) = 1000" "dec_of_float (Fin 900) = 900" "dec_of_float (Fin 100) = 100" "dec_of_float (Fin 2) = 2"
  using dec_of_float_digit [of 1 3 1000] dec_of_float_digit [of 9 2 900] dec_of_float_digit [of 1 2 100] dec_of_float_digit [of 2 0 2]
  by simp_all

lemma demo_confirmed: "\<exists>user. confirm_intent (PDict demo_intent) 1300000 = Inr (user, Fin 100)"
proof -
  have "role_shape (PStr ''CORE'')" by code_simp
  then show ?thesis by (simp add: confirm_intent_def demo_intent_def demo_number dget_or_def safe_role_def demo_symbol Let_def)
qed

lemma demo_amounts: "dec_add 0 (dec_mul 2 100) = 200" "dec_sub 1000 200 = 800" "dec_sub 800 100 = 700" "quantize_cents 700 = Inr 700"
  by code_simp+

lemma demo_checked:
  "validate_broker_observation (PDict demo_observation) 1300000
     = Inr (check_result ''AVAILABLE'' ''BROKER_OBSERVATION_VALID'' @ [(''observation'', PDict demo_observation)])"
proof -
  have "int_of (dget demo_observation ''observed_at_ms'') = 1000000" by (simp add: demo_observation_def demo_body_def broker_body_fields)
  then show ?thesis using sealed_lifetime [OF demo_seal demo_usable, of 1300000] by simp
qed

lemma demo_cash: "cash_budget demo_observation 200 (Fin 100) = Inr (Fin 700)"
  by (simp add: cash_budget_def fund_dec_def fund_def demo_observation_def demo_body_def broker_body_fields demo_decimals demo_amounts del: dec_of_float.simps)

lemma demo_orders: "scan_orders (map dict_of (list_of (dget demo_observation ''open_orders''))) 0 [] = ([], Some 200, [])"
proof -
  have "order_aligned [(''asset'', PStr ''MSTR''), (''side'', PStr ''BUY''), (''currency'', PStr ''USD''), (''order_type'', PStr ''LMT''),
       (''quantity'', PFloat (Fin 2)), (''filled_quantity'', PFloat (Fin 0)), (''remaining_quantity'', PFloat (Fin 2)),
       (''limit_price_usd'', PFloat (Fin 100))]"
    by (simp add: order_aligned_def fmin_def isclose8_def)
  then show ?thesis
    by (simp add: demo_observation_def demo_body_def broker_body_fields limit_of_def remaining_of_def demo_decimals demo_amounts del: dec_of_float.simps)
qed

lemma demo_reconciles:
  assumes "confirm_intent v 1300000 = Inr (user, Fin 100)"
  shows "\<exists>limits. reconcile_capital (PDict demo_observation) v 1300000 =
    Inr (reconciliation ''AVAILABLE'' ''BROKER_OBSERVATION_VALID'' (PDict demo_observation) (PDict user) (PFloat (Fin 700)) (PFloat (Fin 200))
      limits [(''MSTR'', PFloat (Fin 10))])"
proof -
  let ?ck = "check_result ''AVAILABLE'' ''BROKER_OBSERVATION_VALID'' @ [(''observation'', PDict demo_observation)]"
  have ck: "dget ?ck ''observation'' = PDict demo_observation" "dget ?ck ''state'' = PStr ''AVAILABLE''"
    "dget ?ck ''reason'' = PStr ''BROKER_OBSERVATION_VALID''"
    by (simp_all add: check_result_def)
  have rows: "position_rows True [] (map dict_of (list_of (dget demo_observation ''holdings''))) = [(''MSTR'', PFloat (Fin 10))]"
    and scope: "dget (dict_of (dget demo_observation ''scope'')) ''positions_complete'' = PBool True"
      "dget (dict_of (dget demo_observation ''scope'')) ''orders_complete'' = PBool True"
    by (simp_all add: position_rows_def row_asset_def holding_quantity_def sold_def fmax0_def fsub_def
        demo_observation_def demo_body_def broker_body_fields)
  show ?thesis
    unfolding reconcile_capital_def demo_checked ebind.simps Let_def ck assms sum.case prod.case dict_of.simps
    by (simp add: reconcile_clean_def demo_orders demo_cash rows scope Let_def, blast?)
qed

theorem budget_within_funds_witness:
  "\<exists>r. reconcile_capital (PDict demo_observation) (PDict demo_intent) 1300000 = Inr r
     \<and> dget r ''analysis_cash_budget_usd'' = PFloat (Fin 700) \<and> dget r ''state'' = PStr ''AVAILABLE''"
proof -
  obtain user where u: "confirm_intent (PDict demo_intent) 1300000 = Inr (user, Fin 100)" using demo_confirmed by blast
  obtain r where r: "reconcile_capital (PDict demo_observation) (PDict demo_intent) 1300000 = Inr r"
    "dget r ''analysis_cash_budget_usd'' = PFloat (Fin 700)"
    using demo_reconciles [OF u] by (auto simp: reconciliation_fields)
  show ?thesis using r budget_within_funds [OF r] by blast
qed

end
