(* ===== verification/Notification_Boundary.thy ===== *)
theory Notification_Boundary
  imports Transport_Boundary Broker_Capital
begin

text \<open>
  The durable notification of one delivered response (\<^verbatim>\<open>gpt_notification_boundary.py\<close>): a
  sealed JSON record that moves from PENDING through CLAIMED to DELIVERED or
  RECONCILIATION_REQUIRED. A notification file is what a JSON reader gets from it. The presenter
  (a popup) and the random claim token are arguments; a process that dies after claiming leaves
  the claimed record behind. The rendering and the re-validation of a capital recommendation
  (\<^verbatim>\<open>capital_decision_closure.py\<close>) are arguments too, unconstrained in every theorem.
\<close>

section \<open>Receipts and states\<close>

definition NOTIFICATION_SCHEMA_VERSION :: string where
  "NOTIFICATION_SCHEMA_VERSION = ''CRT_GPT_NOTIFICATION_BOUNDARY_V0.1''"
definition NOTIFICATION_STATES :: "string list" where
  "NOTIFICATION_STATES = [''PENDING'', ''CLAIMED'', ''DELIVERED'', ''RECONCILIATION_REQUIRED'']"

text \<open>\<^verbatim>\<open>len\<close> of a value.\<close>

fun py_len :: "pyval \<Rightarrow> nat res" where
  "py_len (PStr s) = Inr (str_len s)"
| "py_len (PList xs) = Inr (length xs)"
| "py_len (PDict d) = Inr (length d)"
| "py_len _ = Inl (TypeError ''object has no len()'')"

definition notification_id :: "pyval \<Rightarrow> pyval \<Rightarrow> string res" where
  "notification_id event_id receipt_hash =
     ebind (py_len event_id) (\<lambda>n.
     ebind (if n \<noteq> 64 then Inr True else ebind (py_len receipt_hash) (\<lambda>m. Inr (m \<noteq> 64))) (\<lambda>bad.
     if bad then Inl (ValueError ''invalid notification identity input'')
     else Inr (canonical_hash (PDict [(''event_id'', event_id), (''receipt_hash'', receipt_hash)]))))"

definition RECEIPT_HASH_FIELDS :: "string list" where
  "RECEIPT_HASH_FIELDS = [''event_id'', ''bridge_payload_hash'', ''request_hash'', ''response_hash'', ''receipt_hash'']"

text \<open>\<open>render\<close> is \<^verbatim>\<open>capital_decision_closure.render\<close>.\<close>

definition validate_receipt :: "(pyval \<Rightarrow> string res) \<Rightarrow> dict \<Rightarrow> dict res" where
  "validate_receipt render receipt =
     (if \<not> py_eq (dget receipt ''state'') (PStr ''RESPONSES_DELIVERY_RECEIPT_READY'') then Inl (ValueError ''receipt not ready'')
      else if \<not> py_eq (dget receipt ''production'') (PStr ''NOT_APPROVED'') then Inl (ValueError ''production lock changed'')
      else if \<not> py_eq (dget receipt ''external_action_authority'') (PStr ''NONE'') then Inl (ValueError ''EAA lock changed'')
      else if \<not> py_eq (dget receipt ''action_output'') (PStr ''NONE'') then Inl (ValueError ''action output changed'')
      else (case List.find (\<lambda>k. \<not> is_len64 (dget receipt k)) RECEIPT_HASH_FIELDS of
          Some k \<Rightarrow> Inl (ValueError (''invalid receipt field: '' @ k))
        | None \<Rightarrow>
          if \<not> truthy (dget receipt ''response_id'') then Inl (ValueError ''missing response_id'')
          else if \<not> is_str (dget receipt ''output_text'') then Inl (ValueError ''missing output_text'')
          else if canonical_hash (PDict (dpop ''receipt_hash'' receipt)) \<noteq> str_of (dget receipt ''receipt_hash'')
            then Inl (ValueError ''receipt hash mismatch'')
          else if dhas receipt ''capital_validation'' then
            ebind (render (dget receipt ''capital_validation'')) (\<lambda>t.
            if dget receipt ''output_text'' \<noteq> PStr t then Inl (ValueError ''capital presentation mismatch'') else Inr receipt)
          else Inr receipt))"

definition notification_seal :: "dict \<Rightarrow> dict" where
  "notification_seal state = (let body = dpop ''notification_state_hash'' state
     in dset ''notification_state_hash'' (PStr (canonical_hash (PDict body))) body)"

definition validate_notification :: "pyval \<Rightarrow> dict res" where
  "validate_notification v =
     (case v of
       PDict state \<Rightarrow>
         if \<not> py_eq (dget state ''schema_version'') (PStr NOTIFICATION_SCHEMA_VERSION) then Inl (ValueError ''schema mismatch'')
         else ebind (in_strs (dget state ''state'') NOTIFICATION_STATES) (\<lambda>known.
         if \<not> known then Inl (ValueError ''invalid state'')
         else
         ebind (py_index v ''notification_id'') (\<lambda>nid.
         ebind (py_index v ''event_id'') (\<lambda>eid. ebind (py_index v ''receipt_hash'') (\<lambda>rh.
         ebind (notification_id eid rh) (\<lambda>expected_id.
         if \<not> py_eq nid (PStr expected_id) then Inl (ValueError ''notification identity mismatch'')
         else
         ebind (py_index v ''notification_state_hash'') (\<lambda>expected.
         if \<not> py_eq (PStr (canonical_hash (PDict (dpop ''notification_state_hash'' state)))) expected
           then Inl (ValueError ''notification state hash mismatch'')
         else Inr state))))))
     | _ \<Rightarrow> Inl AttributeError)"

definition pending_body :: "string \<Rightarrow> dict \<Rightarrow> dict" where
  "pending_body nid receipt =
     [(''schema_version'', PStr NOTIFICATION_SCHEMA_VERSION), (''state'', PStr ''PENDING''),
      (''notification_id'', PStr nid), (''event_id'', dget receipt ''event_id''),
      (''receipt_hash'', dget receipt ''receipt_hash''), (''bridge_payload_hash'', dget receipt ''bridge_payload_hash''),
      (''request_hash'', dget receipt ''request_hash''), (''response_id'', dget receipt ''response_id''),
      (''response_hash'', dget receipt ''response_hash''), (''output_text'', dget receipt ''output_text'')]
     @ (if dhas receipt ''capital_validation'' then [(''capital_validation'', dget receipt ''capital_validation'')] else [])
     @ [(''attempt_count'', PInt 0), (''claim_token'', PNone), (''presentation'', PNone),
        (''production'', PStr ''NOT_APPROVED''), (''external_action_authority'', PStr ''NONE''), (''action_output'', PStr ''NONE'')]"

definition build_pending :: "(pyval \<Rightarrow> string res) \<Rightarrow> dict \<Rightarrow> dict res" where
  "build_pending render receipt =
     ebind (validate_receipt render receipt) (\<lambda>r.
     ebind (notification_id (dget r ''event_id'') (dget r ''receipt_hash'')) (\<lambda>nid.
     Inr (notification_seal (pending_body nid r))))"

section \<open>The notification file\<close>

definition write_atomic :: "dict \<Rightarrow> pyval option \<Rightarrow> pyval option res" where
  "write_atomic state file = ebind (validate_notification (PDict state)) (\<lambda>s. Inr (Some (json_reload (PDict s))))"

definition read_notification :: "pyval option \<Rightarrow> dict res" where
  "read_notification file = (case file of
     None \<Rightarrow> Inl (ValueError ''invalid JSON'')
   | Some v \<Rightarrow> validate_notification v)"

definition ensure_result :: "string \<Rightarrow> pyval \<Rightarrow> pyval \<Rightarrow> dict" where
  "ensure_result st nid delivery_state =
     [(''state'', PStr st), (''notification_id'', nid), (''delivery_state'', delivery_state)]"

definition ensure_pending_unlocked ::
  "(pyval \<Rightarrow> string res) \<Rightarrow> json_dir \<Rightarrow> dict \<Rightarrow> dict res \<times> json_dir" where
  "ensure_pending_unlocked render dir receipt =
     (case build_pending render receipt of
       Inl e \<Rightarrow> (Inl e, dir)
     | Inr pending \<Rightarrow>
         (let nid = str_of (dget pending ''notification_id'') in
          case map_of dir nid of
            Some file \<Rightarrow>
              (ebind (read_notification file) (\<lambda>existing.
               if \<not> py_eq (dget existing ''receipt_hash'') (dget pending ''receipt_hash'')
                 then Inl (ValueError ''notification conflict'')
               else ebind (py_index (PDict existing) ''output_text'') (\<lambda>text.
               if \<not> py_eq text (dget pending ''output_text'') then Inl (ValueError ''notification conflict'')
               else Inr (ensure_result ''EXISTS'' (dget existing ''notification_id'') (dget existing ''state'')))), dir)
          | None \<Rightarrow>
              (case write_atomic pending None of
                Inl e \<Rightarrow> (Inl e, dir)
              | Inr file \<Rightarrow> (Inr (ensure_result ''CREATED'' (PStr nid) (PStr ''PENDING'')), put_file nid file dir))))"

text \<open>The process lock around it: \<open>acquired\<close> is what the OS lock granted.\<close>

definition ensure_pending ::
  "(pyval \<Rightarrow> string res) \<Rightarrow> bool \<Rightarrow> json_dir \<Rightarrow> dict \<Rightarrow> dict res \<times> json_dir" where
  "ensure_pending render acquired dir receipt =
     (case build_pending render receipt of
       Inl e \<Rightarrow> (Inl e, dir)
     | Inr pending \<Rightarrow>
         if \<not> acquired then (Inr (ensure_result ''BUSY'' (dget pending ''notification_id'') PNone), dir)
         else ensure_pending_unlocked render dir receipt)"

section \<open>Binding a notification to its receipt\<close>

definition BOUND_FIELDS :: "string list" where
  "BOUND_FIELDS = [''notification_id'', ''event_id'', ''receipt_hash'', ''bridge_payload_hash'', ''request_hash'',
     ''response_id'', ''response_hash'', ''output_text'']"

definition assert_notification_binds_receipt :: "(pyval \<Rightarrow> string res) \<Rightarrow> dict \<Rightarrow> dict \<Rightarrow> unit res" where
  "assert_notification_binds_receipt render notification receipt =
     ebind (build_pending render receipt) (\<lambda>expected.
     ebind (efold (\<lambda>k _. ebind (py_index (PDict notification) k) (\<lambda>v. ebind (py_index (PDict expected) k) (\<lambda>w.
         if \<not> py_eq v w then Inl (ValueError ''notification does not bind validated GPT delivery'') else Inr ()))) BOUND_FIELDS ()) (\<lambda>_.
     if \<not> py_eq (dget notification ''capital_validation'') (dget expected ''capital_validation'')
       then Inl (ValueError ''capital notification does not bind validated delivery'') else Inr ()))"

lemma py_index_Inr: "py_index (PDict d) k = Inr v \<longleftrightarrow> dhas d k \<and> dget d k = v"
  by (auto simp: dhas_map_of dget_def split: option.splits)

lemma efold_unit: "efold (\<lambda>k _. f k) ks () = Inr u \<longleftrightarrow> (\<forall>k \<in> set ks. f k = Inr ())"
  by (induction ks) (auto simp: ebind_Inr_iff)

text \<open>A notification that binds a receipt carries the receipt's text.\<close>

lemma bound_text:
  assumes "assert_notification_binds_receipt render notification receipt = Inr ()"
  shows "\<exists>s. build_pending render receipt = Inr s \<and> (\<forall>k \<in> set BOUND_FIELDS. dhas notification k \<and> py_eq (dget notification k) (dget s k))"
  using assms unfolding assert_notification_binds_receipt_def ebind_Inr_iff efold_unit
  by (elim exE conjE) (simp only: py_index_Inr guard_Inr not_not, blast)

section \<open>Presenting\<close>

fun py_succ :: "pyval \<Rightarrow> pyval res" where
  "py_succ (PInt i) = Inr (PInt (i + 1))"
| "py_succ (PBool b) = Inr (PInt (if b then 2 else 1))"
| "py_succ (PFloat x) = Inr (PFloat (fadd x (Fin 1)))"
| "py_succ _ = Inl (TypeError ''unsupported operand type(s) for +'')"

definition present_result :: "string \<Rightarrow> bool \<Rightarrow> dict" where
  "present_result st performed = [(''state'', PStr st), (''presentation_performed'', PBool performed)]"

definition claim_notification :: "string \<Rightarrow> dict \<Rightarrow> dict res" where
  "claim_notification token current =
     ebind (py_index (PDict current) ''attempt_count'') (\<lambda>n. ebind (py_succ n) (\<lambda>n'.
     Inr (notification_seal (dset ''claim_token'' (PStr token) (dset ''attempt_count'' n' (dset ''state'' (PStr ''CLAIMED'') current))))))"

definition block_notification :: "dict \<Rightarrow> dict" where
  "block_notification s =
     notification_seal (dset ''claim_token'' PNone (dset ''state'' (PStr ''RECONCILIATION_REQUIRED'') s))"

definition deliver_notification :: "int \<Rightarrow> int \<Rightarrow> dict \<Rightarrow> dict" where
  "deliver_notification answer now_ms s =
     notification_seal (dset ''presentation''
        (PDict [(''channel'', PStr ''WSCRIPT_POPUP''), (''result'', PInt answer), (''presented_at_ms'', PInt now_ms)])
       (dset ''claim_token'' PNone (dset ''state'' (PStr ''DELIVERED'') s)))"

text \<open>
  What happens once the capital gate is passed: the process dies before it claims the
  notification; or, between the claim and the final write, the popup answers, it raises, or the
  process dies, before or after the popup was shown.
\<close>

datatype outcome = Answer int | Raised | Died bool | Died_unclaimed

text \<open>The outcome of a run: its report if it survived, the file it leaves, the texts it presented.
  First what follows the claim, given the text of the record, if it has one.\<close>

definition present_end ::
  "int \<Rightarrow> outcome \<Rightarrow> pyval option \<Rightarrow> dict \<Rightarrow> pyval option \<Rightarrow> dict res option \<times> pyval option \<times> pyval list" where
  "present_end now_ms popup text claimed file1 =
     (let shown = (case (text, popup) of (Some t, Answer _) \<Rightarrow> [t] | (Some t, Raised) \<Rightarrow> [t]
            | (Some t, Died True) \<Rightarrow> [t] | _ \<Rightarrow> []);
          block = (case write_atomic (block_notification claimed) file1 of
              Inl e \<Rightarrow> (Some (Inl e), file1, shown)
            | Inr file2 \<Rightarrow> (Some (Inr (present_result ''RECONCILIATION_REQUIRED'' True)), file2, shown)) in
      case popup of
        Died _ \<Rightarrow> (None, file1, shown)
      | Died_unclaimed \<Rightarrow> (None, file1, shown)
      | Raised \<Rightarrow> block
      | Answer answer \<Rightarrow>
          if text = None \<or> answer \<notin> {1, - 1} then block
          else (case write_atomic (deliver_notification answer now_ms claimed) file1 of
              Inl e \<Rightarrow> (Some (Inl e), file1, shown)
            | Inr file2 \<Rightarrow> (Some (Inr (present_result ''DELIVERED'' True @ [(''result'', PInt answer)])), file2, shown)))"

definition present_unlocked ::
  "string \<Rightarrow> int \<Rightarrow> outcome \<Rightarrow> pyval option \<Rightarrow> dict res option \<times> pyval option \<times> pyval list" where
  "present_unlocked token now_ms popup file =
     (if popup = Died_unclaimed then (None, file, []) else
      case read_notification file of
       Inl e \<Rightarrow> (Some (Inl e), file, [])
     | Inr current \<Rightarrow>
         if dget current ''state'' = PStr ''DELIVERED'' then (Some (Inr (present_result ''ALREADY_DELIVERED'' False)), file, [])
         else if dget current ''state'' = PStr ''RECONCILIATION_REQUIRED''
           then (Some (Inr (present_result ''RECONCILIATION_REQUIRED'' False)), file, [])
         else if dget current ''state'' = PStr ''CLAIMED'' then
           (case write_atomic (block_notification current) file of
             Inl e \<Rightarrow> (Some (Inl e), file, [])
           | Inr file' \<Rightarrow> (Some (Inr (present_result ''RECONCILIATION_REQUIRED'' False)), file', []))
         else (case ebind (claim_notification token current) (\<lambda>claimed.
               ebind (write_atomic claimed file) (\<lambda>file'. Inr (claimed, file'))) of
             Inl e \<Rightarrow> (Some (Inl e), file, [])
           | Inr (claimed, file1) \<Rightarrow>
               present_end now_ms popup (map_of current ''output_text'') claimed file1))"

section \<open>Capital recommendations\<close>

text \<open>Non-ASCII text of the program, as its UTF-8 bytes.\<close>

definition utf8 :: "nat list \<Rightarrow> string" where
  "utf8 bs = map char_of bs"

definition current_message :: string where
  "current_message = utf8 [230, 156, 172, 232, 179, 135, 230, 156, 172, 229, 187, 186, 232, 173, 176, 228, 187, 141, 233, 160, 136, 228,
       190, 157, 229, 142, 159, 229, 165, 145, 231, 180, 132, 229, 143, 138, 230, 156, 137, 230, 149, 136, 230, 156,
       159, 233, 169, 151, 232, 173, 137, 227, 128, 130]"

definition not_current_message :: "string \<Rightarrow> string \<Rightarrow> string" where
  "not_current_message st reason =
     utf8 [230, 156, 172, 230, 172, 161, 232, 179, 135, 230, 156, 172, 232, 179, 135, 230, 150, 153, 231, 130, 186, 32] @ st
   @ utf8 [239, 188, 136, 232, 179, 135, 230, 150, 153, 232, 179, 135, 230, 160, 188, 239, 188, 137, 239, 188, 140, 229,
       142, 159, 229, 155, 160, 239, 188, 154] @ reason
   @ utf8 [227, 128, 130, 230, 173, 164, 232, 136, 138, 232, 179, 135, 230, 156, 172, 229, 187, 186, 232, 173, 176, 228,
       184, 141, 229, 190, 151, 228, 189, 156, 231, 130, 186, 231, 149, 182, 229, 137, 141, 229, 144, 136, 230, 160,
       188, 229, 187, 186, 232, 173, 176, 228, 189, 191, 231, 148, 168, 239, 188, 155, 231, 173, 137, 229, 190, 133,
       232, 163, 156, 233, 189, 138, 232, 173, 137, 230, 147, 154, 228, 184, 166, 233, 135, 141, 230, 150, 176, 233,
       169, 151, 232, 173, 137, 239, 188, 140, 230, 178, 146, 230, 156, 137, 228, 186, 164, 230, 152, 147, 230, 140,
       135, 228, 187, 164, 227, 128, 130]"

definition blocked_qualification :: "string \<Rightarrow> dict" where
  "blocked_qualification reason = [(''state'', PStr ''BLOCKED''), (''reason'', PStr reason)]"

text \<open>The guarded part of \<^verbatim>\<open>_current_capital_qualification\<close>.\<close>

definition qualify_pack :: "dict \<Rightarrow> int \<Rightarrow> dict res" where
  "qualify_pack pack at_ms =
     ebind (canonical_hash_strict (PDict (dpop ''evidence_pack_hash'' pack))) (\<lambda>h.
     if \<not> py_eq (PStr h) (dget pack ''evidence_pack_hash'') then Inl (ValueError ''CURRENT_CAPITAL_EVIDENCE_HASH_INVALID'')
     else ebind (py_index (PDict pack) ''generated_at_ms'') (\<lambda>generated.
     if (case generated of PInt g \<Rightarrow> \<not> (0 < g \<and> g \<le> at_ms) | _ \<Rightarrow> True)
       then Inl (ValueError ''CURRENT_CAPITAL_EVIDENCE_CLOCK_INVALID'')
     else ebind (py_index (PDict pack) ''private_context'') (\<lambda>private. ebind (py_index private ''profile'') (\<lambda>profile.
     ebind (py_index profile ''capital_reconciliation'') (\<lambda>rec.
     ebind (py_get rec ''broker_observed'') (\<lambda>observed.
     ebind (if observed = PNone \<and> dget (dict_of rec) ''state'' = PStr ''BLOCKED''
            then in_strs (dget (dict_of rec) ''reason'') BLOCKED_BROKER_REASONS else Inr False) (\<lambda>failed.
     (let observation = (if failed then PDict [(''capture_failed'', PBool True), (''reason'', dget (dict_of rec) ''reason'')] else observed);
          intent = dget (dict_of rec) ''user_confirmed'' in
      ebind (reconcile_capital observation intent (int_of generated)) (\<lambda>then_rec.
      if \<not> py_eq (PDict then_rec) rec then Inl (ValueError ''CURRENT_CAPITAL_RECONCILIATION_MISMATCH'')
      else ebind (reconcile_capital observation intent at_ms) (\<lambda>checked.
      ebind (canonical_hash_strict (dget checked ''broker_observed'')) (\<lambda>snapshot.
      Inr [(''state'', dget checked ''state''), (''reason'', dget checked ''reason''),
           (''evidence_pack_hash'', dget pack ''evidence_pack_hash''), (''capital_snapshot_hash'', PStr snapshot),
           (''broker_observed'', dget checked ''broker_observed''), (''user_confirmed'', dget checked ''user_confirmed''),
           (''full_decision_intent'', dget (dict_of profile) ''full_decision_intent'')])))))))))))"

definition current_capital_qualification :: "pyval \<Rightarrow> int \<Rightarrow> dict res" where
  "current_capital_qualification pack at_ms =
     (if \<not> is_dict pack then Inr (blocked_qualification ''CURRENT_CAPITAL_STATE_REQUIRED'')
      else (case qualify_pack (dict_of pack) at_ms of
          Inr q \<Rightarrow> Inr q
        | Inl (ValueError m) \<Rightarrow> Inr (blocked_qualification m)
        | Inl (KeyError _) \<Rightarrow> Inr (blocked_qualification ''CURRENT_CAPITAL_STATE_INVALID'')
        | Inl (TypeError _) \<Rightarrow> Inr (blocked_qualification ''CURRENT_CAPITAL_STATE_INVALID'')
        | Inl AttributeError \<Rightarrow> Inr (blocked_qualification ''CURRENT_CAPITAL_STATE_INVALID'')
        | Inl e \<Rightarrow> Inl e))"

definition qualification_status :: "dict \<Rightarrow> bool \<Rightarrow> bool \<Rightarrow> dict" where
  "qualification_status q is_current invalidated =
     (let status = [(''state'', dget q ''state''), (''reason'', dget q ''reason''),
        (''recommendation_state'', PStr (if is_current then ''CURRENT'' else ''NOT_CURRENT'')),
        (''invalidated'', PBool invalidated),
        (''message'', PStr (if is_current then current_message
           else not_current_message (py_str (dget q ''state'')) (py_str (dget q ''reason''))))]
      in status @ [(''status_hash'', PStr (canonical_hash (PDict status)))])"

definition record_capital_qualification ::
  "dict \<Rightarrow> dict \<Rightarrow> bool \<Rightarrow> bool \<Rightarrow> pyval option \<Rightarrow> pyval option res" where
  "record_capital_qualification current q is_current invalidated file =
     (let status = PDict (qualification_status q is_current invalidated) in
      if py_eq (dget current ''current_qualification'') status then Inr file
      else write_atomic (notification_seal (dset ''current_qualification'' status current)) file)"

definition facts :: "string list \<Rightarrow> pyval \<Rightarrow> pyval" where
  "facts clocks v = (case v of PDict d \<Rightarrow> PDict (filter (\<lambda>(k, _). k \<notin> set clocks) d) | _ \<Rightarrow> v)"

definition OBSERVATION_CLOCKS :: "string list" where
  "OBSERVATION_CLOCKS = [''observed_at_ms'', ''started_at_ms'', ''observation_hash'']"

text \<open>A fresh qualified pack cannot lend its status to a different source.\<close>

definition superseded :: "dict \<Rightarrow> dict \<Rightarrow> bool" where
  "superseded q src =
     (let intent = dget src ''user_intent'' in
      \<not> py_eq (facts OBSERVATION_CLOCKS (dget q ''broker_observed'')) (facts OBSERVATION_CLOCKS (dget src ''broker_observation''))
      \<or> \<not> py_eq (facts [''confirmed_at_ms''] (dget q ''full_decision_intent'')) (facts [''confirmed_at_ms''] intent)
      \<or> (is_dict intent \<and> \<not> py_eq (dget (dict_of (dget q ''user_confirmed'')) ''reserved_usd'') (dget (dict_of intent) ''reserved_usd'')))"

fun presentation_error :: "exn \<Rightarrow> bool" where
  "presentation_error (ValueError _) \<longleftrightarrow> True"
| "presentation_error (KeyError _) \<longleftrightarrow> True"
| "presentation_error (TypeError _) \<longleftrightarrow> True"
| "presentation_error _ \<longleftrightarrow> False"

definition not_current_result :: "pyval \<Rightarrow> dict" where
  "not_current_result reason = [(''state'', PStr ''CAPITAL_RECOMMENDATION_NOT_CURRENT''), (''reason'', reason),
     (''presentation_performed'', PBool False)]"

definition refuse_capital :: "dict \<Rightarrow> dict \<Rightarrow> pyval option \<Rightarrow> dict option res \<times> pyval option" where
  "refuse_capital current q file =
     (case record_capital_qualification current q False True file of
       Inl e \<Rightarrow> (Inl e, file)
     | Inr file' \<Rightarrow> (Inr (Some (not_current_result (dget q ''reason''))), file'))"

text \<open>The checks of a recommendation against the source of its event.\<close>

definition source_gate ::
  "(pyval \<Rightarrow> string res) \<Rightarrow> (pyval \<Rightarrow> dict \<Rightarrow> int \<Rightarrow> unit res) \<Rightarrow> dict \<Rightarrow> dict \<Rightarrow> int \<Rightarrow> dict \<Rightarrow> pyval option
     \<Rightarrow> dict option res \<times> pyval option" where
  "source_gate render recheck src q at_ms current file =
     (let validated = dget current ''capital_validation'' in
      case ebind (py_get validated ''capital_snapshot_hash'') (\<lambda>h. ebind (py_get validated ''evidence_lineage'') (\<lambda>l.
          ebind (py_get (dget_or current ''current_qualification'' (PDict [])) ''invalidated'') (\<lambda>i.
          Inr (py_eq h (dget q ''capital_snapshot_hash'') \<and> py_eq l (dget q ''evidence_pack_hash''), i = PBool True)))) of
        Inl e \<Rightarrow> (Inl e, file)
      | Inr (belongs, before) \<Rightarrow>
          (let stale = (dget q ''state'' = PStr ''AVAILABLE'' \<and> superseded q src);
               q1 = (if stale then dset ''reason'' (PStr ''CAPITAL_RECOMMENDATION_SUPERSEDED'') q else q);
               invalid = (before \<or> stale);
               q2 = (if invalid \<and> dget q1 ''state'' = PStr ''AVAILABLE''
                        \<and> dget q1 ''reason'' \<noteq> PStr ''CAPITAL_RECOMMENDATION_SUPERSEDED''
                     then dset ''reason'' (PStr ''CAPITAL_RECOMMENDATION_REJUDGMENT_REQUIRED'') q1 else q1) in
           if (dget q1 ''state'' \<noteq> PStr ''AVAILABLE'' \<and> \<not> belongs) \<or> invalid then refuse_capital current q2 file
           else (case ebind (recheck validated src at_ms) (\<lambda>_.
                 ebind (py_index (PDict current) ''output_text'') (\<lambda>text. ebind (render validated) (\<lambda>t.
                 if \<not> py_eq text (PStr t) then Inl (ValueError ''capital presentation mismatch'') else Inr ()))) of
               Inl e \<Rightarrow> if presentation_error e then refuse_capital current (dset ''reason'' (PStr (exn_text e)) q1) file
                 else (Inl e, file)
             | Inr _ \<Rightarrow> (case record_capital_qualification current q1 True False file of
                   Inl e \<Rightarrow> (Inl e, file)
                 | Inr file' \<Rightarrow> (Inr None, file')))))"

text \<open>
  The capital gate of \<^verbatim>\<open>present\<close>: a report that ends the call, or \<open>None\<close> when presenting may
  go on. \<open>recheck\<close> is \<^verbatim>\<open>capital_decision_closure.assert_current\<close>.
\<close>

definition capital_gate ::
  "(pyval \<Rightarrow> string res) \<Rightarrow> (pyval \<Rightarrow> dict \<Rightarrow> int \<Rightarrow> unit res) \<Rightarrow> dict option \<Rightarrow> pyval \<Rightarrow> int \<Rightarrow> dict \<Rightarrow> pyval option
     \<Rightarrow> dict option res \<times> pyval option" where
  "capital_gate render recheck source pack at_ms current file =
     (case current_capital_qualification pack at_ms of
       Inl e \<Rightarrow> (Inl e, file)
     | Inr q \<Rightarrow>
         if pack = PNone then (Inr (Some (present_result ''CURRENT_CAPITAL_STATE_REQUIRED'' False)), file)
         else (case source of
             None \<Rightarrow>
               if dget q ''state'' \<noteq> PStr ''AVAILABLE'' then refuse_capital current q file
               else (Inr (Some (present_result ''CURRENT_CAPITAL_SOURCE_REQUIRED'' False)), file)
           | Some src \<Rightarrow> source_gate render recheck src q at_ms current file))"

text \<open>
  \<^verbatim>\<open>present\<close> reads the record before it asks for the lock. \<open>present_locked\<close> is what it does from
  there on: \<open>current\<close> is the record it read, \<open>file\<close> what is on disk once the lock is granted.
  \<open>present\<close> is a call that nobody interrupts between the two.
\<close>

definition present_locked ::
  "(pyval \<Rightarrow> string res) \<Rightarrow> (pyval \<Rightarrow> dict \<Rightarrow> int \<Rightarrow> unit res) \<Rightarrow> bool \<Rightarrow> dict option \<Rightarrow> pyval
     \<Rightarrow> string \<Rightarrow> int \<Rightarrow> outcome \<Rightarrow> dict \<Rightarrow> pyval option \<Rightarrow> dict res option \<times> pyval option \<times> pyval list" where
  "present_locked render recheck acquired source pack token now_ms popup current file =
     (if \<not> acquired then (Some (Inr (present_result ''BUSY'' False)), file, [])
      else if dhas current ''capital_validation'' then
        (case capital_gate render recheck source pack now_ms current file of
          (Inl e, file') \<Rightarrow> (Some (Inl e), file', [])
        | (Inr (Some r), file') \<Rightarrow> (Some (Inr r), file', [])
        | (Inr None, file') \<Rightarrow> present_unlocked token now_ms popup file')
      else present_unlocked token now_ms popup file)"

definition present ::
  "(pyval \<Rightarrow> string res) \<Rightarrow> (pyval \<Rightarrow> dict \<Rightarrow> int \<Rightarrow> unit res) \<Rightarrow> bool \<Rightarrow> dict option \<Rightarrow> pyval
     \<Rightarrow> string \<Rightarrow> int \<Rightarrow> outcome \<Rightarrow> pyval option \<Rightarrow> dict res option \<times> pyval option \<times> pyval list" where
  "present render recheck acquired source pack token now_ms popup file =
     (case read_notification file of
       Inl e \<Rightarrow> (Some (Inl e), file, [])
     | Inr current \<Rightarrow> present_locked render recheck acquired source pack token now_ms popup current file)"

section \<open>Valid notifications\<close>

interpretation notification: sealed_record "dpop ''notification_state_hash''" "\<lambda>s. dget s ''notification_state_hash''"
  "\<lambda>b. canonical_hash (PDict b)" "\<lambda>s. Inr (notification_seal s)"
  by unfold_locales (auto simp: notification_seal_def Let_def)

definition notification_ok :: "dict \<Rightarrow> bool" where
  "notification_ok s \<longleftrightarrow> dget s ''schema_version'' = PStr NOTIFICATION_SCHEMA_VERSION
     \<and> (\<exists>st \<in> set NOTIFICATION_STATES. dget s ''state'' = PStr st)
     \<and> dhas s ''event_id'' \<and> dhas s ''receipt_hash''
     \<and> (\<exists>nid. notification_id (dget s ''event_id'') (dget s ''receipt_hash'') = Inr nid \<and> dget s ''notification_id'' = PStr nid)
     \<and> notification.verified s"

lemma dget_PStr_dhas: "dget d k = PStr s \<Longrightarrow> dhas d k"
  by (auto simp: dget_def dhas_map_of split: option.splits)

lemma validate_notification_iff: "validate_notification v = Inr s \<longleftrightarrow> v = PDict s \<and> notification_ok s"
proof
  assume a: "validate_notification v = Inr s"
  then obtain d where v: "v = PDict d" by (cases v) (simp_all add: validate_notification_def)
  from a show "v = PDict s \<and> notification_ok s"
    unfolding v validate_notification_def pyval.case guard_Inr ebind_Inr_iff py_index_Inr
    by (auto simp: notification_ok_def notification.verified_def in_strs_Inr_True dest: sym)
next
  assume "v = PDict s \<and> notification_ok s"
  then obtain st nid where v: "v = PDict s" and st: "st \<in> set NOTIFICATION_STATES" "dget s ''state'' = PStr st"
    and f: "dget s ''schema_version'' = PStr NOTIFICATION_SCHEMA_VERSION" "dhas s ''event_id''" "dhas s ''receipt_hash''"
      "notification_id (dget s ''event_id'') (dget s ''receipt_hash'') = Inr nid" "dget s ''notification_id'' = PStr nid"
      "dget s ''notification_state_hash'' = PStr (canonical_hash (PDict (dpop ''notification_state_hash'' s)))"
    by (auto simp: notification_ok_def notification.verified_def)
  have "py_index (PDict s) ''notification_id'' = Inr (PStr nid)" "py_index (PDict s) ''event_id'' = Inr (dget s ''event_id'')"
    "py_index (PDict s) ''receipt_hash'' = Inr (dget s ''receipt_hash'')"
    "py_index (PDict s) ''notification_state_hash'' = Inr (dget s ''notification_state_hash'')"
    using f by (simp_all only: py_index_Inr dget_PStr_dhas simp_thms)
  then show "validate_notification v = Inr s"
    by (simp add: validate_notification_def v st f del: py_index.simps)
qed

lemma dget_notification_seal [simp]: "k \<noteq> ''notification_state_hash'' \<Longrightarrow> dget (notification_seal s) k = dget s k"
  by (simp add: notification_seal_def Let_def)

lemma dhas_notification_seal [simp]: "k \<noteq> ''notification_state_hash'' \<Longrightarrow> dhas (notification_seal s) k = dhas s k"
  by (simp add: notification_seal_def Let_def)

lemma py_len_reload [simp]: "py_len (json_reload v) = py_len v"
  by (cases v) (simp_all add: reload_list_map reload_items_map)

lemma json_text_reload_items: "json_text (PDict [(a, json_reload v), (b, json_reload w)]) = json_text (PDict [(a, v), (b, w)])"
  by (simp add: json_reload_text)

lemma notification_id_reload [simp]: "notification_id (json_reload e) (json_reload r) = notification_id e r"
proof -
  have "canonical_hash (PDict [(a, json_reload e), (b, json_reload r)]) = canonical_hash (PDict [(a, e), (b, r)])" for a b
    by (simp only: canonical_hash_def json_text_reload_items)
  then show ?thesis unfolding notification_id_def py_len_reload by (simp only:)
qed

lemma notification_ok_reload [simp]: "notification_ok (reload_dict s) = notification_ok s"
  by (simp add: notification_ok_def notification.verified_def dpop_reload)

lemma write_then_read:
  assumes "write_atomic s file = Inr file'"
  shows "read_notification file' = Inr (reload_dict s)" and "notification_ok s"
proof -
  from assms have ok: "notification_ok s" and f: "file' = Some (PDict (reload_dict s))"
    by (auto simp: write_atomic_def ebind_Inr_iff validate_notification_iff reload_dict_def)
  then show "notification_ok s" "read_notification file' = Inr (reload_dict s)"
    by (simp_all add: read_notification_def validate_notification_iff)
qed

section \<open>At most one presentation\<close>

text \<open>The record on file is valid, carries the text \<open>t\<close>, is a capital recommendation when \<open>c\<close> holds, and
  its state tells what was shown.\<close>

definition tells :: "bool \<Rightarrow> string \<Rightarrow> pyval option \<Rightarrow> pyval list \<Rightarrow> bool" where
  "tells c t file shown \<longleftrightarrow> (\<exists>s st. read_notification file = Inr s \<and> dget s ''state'' = PStr st \<and> dget s ''output_text'' = PStr t
     \<and> dhas s ''capital_validation'' = c \<and> shown \<in> {[], [PStr t]} \<and> (st = ''PENDING'' \<longrightarrow> shown = []) \<and> (st = ''DELIVERED'' \<longrightarrow> shown = [PStr t]))"

lemma tells_written:
  assumes "write_atomic s file = Inr file'" and "dget s ''state'' = PStr st" and "dget s ''output_text'' = PStr t"
    and "dhas s ''capital_validation'' = c" and "shown \<in> {[], [PStr t]}" and "st = ''PENDING'' \<Longrightarrow> shown = []" and "st = ''DELIVERED'' \<Longrightarrow> shown = [PStr t]"
  shows "tells c t file' shown"
  using assms write_then_read(1) [OF assms(1)] by (auto simp: tells_def)

lemma block_fields:
  "dget (block_notification s) ''state'' = PStr ''RECONCILIATION_REQUIRED''"
  "dget (block_notification s) ''output_text'' = dget s ''output_text''"
  "dhas (block_notification s) ''capital_validation'' = dhas s ''capital_validation''"
  by (simp_all add: block_notification_def)

lemma deliver_fields:
  "dget (deliver_notification a n s) ''state'' = PStr ''DELIVERED''"
  "dget (deliver_notification a n s) ''output_text'' = dget s ''output_text''"
  "dhas (deliver_notification a n s) ''capital_validation'' = dhas s ''capital_validation''"
  by (simp_all add: deliver_notification_def)

lemma claim_fields:
  assumes "claim_notification token s = Inr c"
  shows "dget c ''state'' = PStr ''CLAIMED''" and "dget c ''output_text'' = dget s ''output_text''"
    and "dhas c ''capital_validation'' = dhas s ''capital_validation''"
  using assms by (auto simp: claim_notification_def ebind_Inr_iff)

lemma read_notification_ok: "read_notification file = Inr s \<Longrightarrow> notification_ok s"
  by (auto simp: read_notification_def validate_notification_iff split: option.splits)

lemma present_claimed_tells:
  assumes "write_atomic claimed file = Inr file1" and "dget claimed ''state'' = PStr ''CLAIMED''"
    and t: "dget claimed ''output_text'' = PStr t" and "dhas claimed ''capital_validation'' = c"
  shows "tells c t file1 []" and "tells c t file1 [PStr t]"
    and "write_atomic (block_notification claimed) file1 = Inr file2 \<Longrightarrow> tells c t file2 [PStr t]"
    and "write_atomic (deliver_notification a n claimed) file1 = Inr file2 \<Longrightarrow> tells c t file2 [PStr t]"
  using assms by (auto elim!: tells_written simp: block_fields deliver_fields)

lemma present_end_tells:
  assumes told: "tells c t file1 []" "tells c t file1 [PStr t]"
    and block: "\<And>file2. write_atomic (block_notification claimed) file1 = Inr file2 \<Longrightarrow> tells c t file2 [PStr t]"
    and deliver: "\<And>a n file2. write_atomic (deliver_notification a n claimed) file1 = Inr file2 \<Longrightarrow> tells c t file2 [PStr t]"
    and e: "present_end now_ms popup (Some (PStr t)) claimed file1 = (r, file', new)"
  shows "tells c t file' new"
proof -
  let ?b = "write_atomic (block_notification claimed) file1"
  show ?thesis
  proof (cases popup)
    case (Answer a)
    let ?d = "write_atomic (deliver_notification a now_ms claimed) file1"
    show ?thesis
    proof (cases "a \<in> {1, - 1}")
      case True
      then show ?thesis using e told deliver by (cases ?d) (auto simp: present_end_def Answer)
    next
      case False
      then show ?thesis using e told block by (cases ?b) (auto simp: present_end_def Answer)
    qed
  next
    case Raised
    then show ?thesis using e told block by (cases ?b) (auto simp: present_end_def)
  next
    case (Died seen)
    then show ?thesis using e told by (cases seen) (auto simp: present_end_def)
  next
    case Died_unclaimed
    then show ?thesis using e told by (auto simp: present_end_def)
  qed
qed

lemma present_unlocked_tells:
  assumes "tells c t file shown" and "present_unlocked token now_ms popup file = (r, file', new)"
  shows "tells c t file' (shown @ new)"
proof -
  from assms(1) obtain s st where s: "read_notification file = Inr s" "dget s ''state'' = PStr st" "dget s ''output_text'' = PStr t"
    and cv: "dhas s ''capital_validation'' = c" and sh: "shown \<in> {[], [PStr t]}" "st = ''PENDING'' \<Longrightarrow> shown = []" "st = ''DELIVERED'' \<Longrightarrow> shown = [PStr t]"
    by (auto simp: tells_def)
  have tx: "map_of s ''output_text'' = Some (PStr t)" using s(3) by (simp add: dget_neq_None)
  show ?thesis
  proof (cases "popup = Died_unclaimed")
    case True
    then show ?thesis using assms by (simp add: present_unlocked_def)
  next
    case alive: False
    note e = assms(2) [unfolded present_unlocked_def if_not_P [OF alive] s(1) sum.case]
    have "st \<in> set NOTIFICATION_STATES" using read_notification_ok [OF s(1)] s(2) by (auto simp: notification_ok_def)
    then consider "st = ''DELIVERED''" | "st = ''RECONCILIATION_REQUIRED''" | "st = ''CLAIMED''" | "st = ''PENDING''"
      by (auto simp: NOTIFICATION_STATES_def)
    then show ?thesis
    proof cases
      case 3
      show ?thesis
      proof (cases "write_atomic (block_notification s) file")
        case (Inr f)
        then have "tells c t f shown" using sh s(3) cv by (auto elim!: tells_written simp: block_fields)
        then show ?thesis using e Inr 3 s(2) by simp
      qed (use e 3 s(2) assms(1) in auto)
    next
      case 4
      then have none: "shown = []" using sh by blast
      show ?thesis
      proof (cases "ebind (claim_notification token s) (\<lambda>claimed. ebind (write_atomic claimed file) (\<lambda>file'. Inr (claimed, file')))")
        case (Inl x)
        then show ?thesis using e 4 s(2) assms(1) by simp
      next
        case (Inr x)
        then obtain d f where x: "x = (d, f)" "claim_notification token s = Inr d" "write_atomic d file = Inr f"
          by (auto simp: ebind_Inr_iff)
        have d: "dget d ''state'' = PStr ''CLAIMED''" "dget d ''output_text'' = PStr t" "dhas d ''capital_validation'' = c"
          using claim_fields [OF x(2)] s(3) cv by simp_all
        note told = present_claimed_tells [OF x(3) d]
        have e: "present_end now_ms popup (Some (PStr t)) d f = (r, file', new)"
          using e unfolding Inr x(1) 4 s(2) tx by simp
        show ?thesis using present_end_tells [OF told e] by (simp add: none)
      qed
    qed (use e s(2) assms(1) in auto)
  qed
qed

lemma record_tells:
  assumes "tells c t file shown" and "read_notification file = Inr s" and "record_capital_qualification s q cur i file = Inr file'"
  shows "tells c t file' shown"
proof (cases "py_eq (dget s ''current_qualification'') (PDict (qualification_status q cur i))")
  case False
  then have "write_atomic (notification_seal (dset ''current_qualification'' (PDict (qualification_status q cur i)) s)) file = Inr file'"
    using assms(3) by (simp add: record_capital_qualification_def)
  moreover obtain st where "dget s ''state'' = PStr st" "dget s ''output_text'' = PStr t"
    "dhas s ''capital_validation'' = c" "shown \<in> {[], [PStr t]}"
    "st = ''PENDING'' \<Longrightarrow> shown = []" "st = ''DELIVERED'' \<Longrightarrow> shown = [PStr t]"
    using assms(1,2) unfolding tells_def by auto
  ultimately show ?thesis using tells_written [of "notification_seal (dset ''current_qualification'' (PDict (qualification_status q cur i)) s)" "file" file' st t c shown]
    by simp
qed (use assms in \<open>simp add: record_capital_qualification_def\<close>)

lemma refuse_tells:
  assumes "tells c t file shown" and "read_notification file = Inr s"
  shows "tells c t (snd (refuse_capital s q file)) shown"
  using assms record_tells [OF assms] by (auto simp: refuse_capital_def split: sum.splits)

lemma source_gate_cases:
  assumes "source_gate render recheck src q at_ms s file = (r, file')"
  obtains (same) "file' = file" "r \<noteq> Inr None"
  | (refused) q' where "refuse_capital s q' file = (r, file')"
  | (passed) q' where "r = Inr None" "record_capital_qualification s q' True False file = Inr file'"
      "recheck (dget s ''capital_validation'') src at_ms = Inr ()"
proof -
  let ?v = "dget s ''capital_validation''"
  let ?b = "ebind (py_get ?v ''capital_snapshot_hash'') (\<lambda>h. ebind (py_get ?v ''evidence_lineage'') (\<lambda>l.
      ebind (py_get (dget_or s ''current_qualification'' (PDict [])) ''invalidated'') (\<lambda>i.
      Inr (py_eq h (dget q ''capital_snapshot_hash'') \<and> py_eq l (dget q ''evidence_pack_hash''), i = PBool True))))"
  let ?c = "ebind (recheck ?v src at_ms) (\<lambda>_. ebind (py_index (PDict s) ''output_text'') (\<lambda>text. ebind (render ?v) (\<lambda>t.
      if \<not> py_eq text (PStr t) then Inl (ValueError ''capital presentation mismatch'') else Inr ())))"
  note a = assms [unfolded source_gate_def Let_def]
  show thesis
  proof (cases ?b)
    case (Inl e)
    then have "file' = file \<and> r = Inl e" using a by simp
    then show thesis using same by simp
  next
    case (Inr x)
    then obtain belongs before where x: "?b = Inr (belongs, before)" by (cases x) simp
    note a' = a [unfolded x sum.case prod.case]
    obtain cond q1 q2 where q: "(if cond then refuse_capital s q2 file
        else (case ?c of
            Inl e \<Rightarrow> if presentation_error e then refuse_capital s (dset ''reason'' (PStr (exn_text e)) q1) file else (Inl e, file)
          | Inr _ \<Rightarrow> (case record_capital_qualification s q1 True False file of
                Inl e \<Rightarrow> (Inl e, file) | Inr file' \<Rightarrow> (Inr None, file')))) = (r, file')"
      using a' by (rule that)
    show thesis
    proof (cases cond)
      case True
      then show thesis using q refused [of q2] by simp
    next
      case False
      note q' = q [unfolded if_not_P [OF False]]
      show thesis
      proof (cases ?c)
        case (Inl e)
        note q'' = q' [unfolded Inl sum.case]
        show thesis
        proof (cases "presentation_error e")
          case True
          then show thesis using q'' refused by simp
        next
          case False
          then have "file' = file \<and> r = Inl e" using q'' by simp
          then show thesis using same by simp
        qed
      next
        case (Inr u)
        note q'' = q' [unfolded Inr sum.case]
        from Inr have ok: "recheck ?v src at_ms = Inr ()" by (auto simp: ebind_Inr_iff)
        show thesis
        proof (cases "record_capital_qualification s q1 True False file")
          case (Inl e)
          then have "file' = file \<and> r = Inl e" using q'' by simp
          then show thesis using same by simp
        next
          case (Inr f)
          then have "r = Inr None" "record_capital_qualification s q1 True False file = Inr file'" using q'' by simp_all
          then show thesis using ok by (rule passed)
        qed
      qed
    qed
  qed
qed

lemma gate_cases:
  assumes "capital_gate render recheck source pack at_ms s file = (r, file')"
  obtains (same) "file' = file" "r \<noteq> Inr None"
  | (refused) q where "refuse_capital s q file = (r, file')"
  | (passed) q where "r = Inr None" "record_capital_qualification s q True False file = Inr file'"
      "\<exists>src. source = Some src \<and> recheck (dget s ''capital_validation'') src at_ms = Inr ()"
proof (cases "current_capital_qualification pack at_ms")
  case (Inl e)
  then show ?thesis using assms same by (auto simp: capital_gate_def)
next
  case (Inr q)
  note a = assms [unfolded capital_gate_def Inr sum.case]
  consider (none) "pack = PNone" | (nosource) "pack \<noteq> PNone" "source = None" | (src) src where "pack \<noteq> PNone" "source = Some src"
    by (cases source) auto
  then show ?thesis
  proof cases
    case none
    then show ?thesis using a same by auto
  next
    case nosource
    show ?thesis
    proof (cases "dget q ''state'' = PStr ''AVAILABLE''")
      case True
      then have "file' = file \<and> r \<noteq> Inr None" using a nosource by auto
      then show ?thesis using same by blast
    next
      case False
      then have "refuse_capital s q file = (r, file')" using a nosource by simp
      then show ?thesis by (rule refused)
    qed
  next
    case src
    then have "source_gate render recheck src q at_ms s file = (r, file')" using a by simp
    then show ?thesis by (cases rule: source_gate_cases) (use same refused passed src in blast)+
  qed
qed

lemma present_locked_tells:
  assumes "tells c t file shown" and "read_notification file = Inr s \<or> \<not> dhas s ''capital_validation''"
    and "present_locked render recheck acquired source pack token now_ms popup s file = (r, file', new)"
  shows "tells c t file' (shown @ new)"
proof -
  note e = assms(3) [unfolded present_locked_def]
  show ?thesis
  proof (cases "acquired \<and> dhas s ''capital_validation''")
    case False
    then show ?thesis using e assms(1) present_unlocked_tells [OF assms(1)] by (auto split: if_splits)
  next
    case True
    with assms(2) have s: "read_notification file = Inr s" by simp
    obtain g file1 where g: "capital_gate render recheck source pack now_ms s file = (g, file1)" by fastforce
    have told: "tells c t file1 shown"
      using g
    proof (cases rule: gate_cases)
      case (refused q)
      then show ?thesis using refuse_tells [OF assms(1) s, of q] by (metis snd_conv)
    qed (use assms(1) record_tells [OF assms(1) s] in auto)
    show ?thesis
      using e True told present_unlocked_tells [OF told] unfolding g by (auto split: sum.splits option.splits)
  qed
qed

text \<open>One call of \<^verbatim>\<open>present\<close>: what the lock granted, the current capital source and evidence pack,
  the claim token, the clock and the outcome of the popup.\<close>

record present_call =
  pc_acquired :: bool
  pc_source :: "dict option"
  pc_pack :: pyval
  pc_token :: string
  pc_now_ms :: int
  pc_popup :: outcome

abbreviation locked_call :: "(pyval \<Rightarrow> string res) \<Rightarrow> (pyval \<Rightarrow> dict \<Rightarrow> int \<Rightarrow> unit res) \<Rightarrow> present_call
    \<Rightarrow> dict \<Rightarrow> pyval option \<Rightarrow> dict res option \<times> pyval option \<times> pyval list" where
  "locked_call render recheck c \<equiv>
     present_locked render recheck (pc_acquired c) (pc_source c) (pc_pack c) (pc_token c) (pc_now_ms c) (pc_popup c)"

text \<open>
  Processes presenting one notification: its file, the records that calls have read and not yet
  entered the lock with, and the texts shown so far. A call reads the file, and at any later time
  runs its locked part with the record it read; the locked parts exclude each other. With
  \<open>stale = False\<close> a call about a capital recommendation enters only while the record it read is
  still the one on file; ordinary notifications are not restricted.
\<close>

record popup_world =
  pw_file :: "pyval option"
  pw_readers :: "dict list"
  pw_shown :: "pyval list"

inductive presenting ::
  "bool \<Rightarrow> (pyval \<Rightarrow> string res) \<Rightarrow> (pyval \<Rightarrow> dict \<Rightarrow> int \<Rightarrow> unit res) \<Rightarrow> popup_world \<Rightarrow> popup_world \<Rightarrow> bool"
  for stale :: bool and render :: "pyval \<Rightarrow> string res" and recheck :: "pyval \<Rightarrow> dict \<Rightarrow> int \<Rightarrow> unit res" where
  reading: "read_notification (pw_file w) = Inr s \<Longrightarrow>
     presenting stale render recheck w (w\<lparr>pw_readers := s # pw_readers w\<rparr>)"
| locking: "s \<in> set (pw_readers w) \<Longrightarrow> stale \<or> \<not> dhas s ''capital_validation'' \<or> read_notification (pw_file w) = Inr s \<Longrightarrow>
     locked_call render recheck c s (pw_file w) = (r, file', new) \<Longrightarrow>
     presenting stale render recheck w \<lparr>pw_file = file', pw_readers = remove1 s (pw_readers w), pw_shown = pw_shown w @ new\<rparr>"

definition popup_start :: "dict \<Rightarrow> popup_world" where
  "popup_start s = \<lparr>pw_file = Some (json_reload (PDict s)), pw_readers = [], pw_shown = []\<rparr>"

lemma pending_fields:
  assumes "build_pending render receipt = Inr s"
  shows "notification_ok s" "dget s ''state'' = PStr ''PENDING''" "dget s ''output_text'' = dget receipt ''output_text''"
    "is_str (dget receipt ''output_text'')" "dget s ''attempt_count'' = PInt 0"
    "dhas s ''capital_validation'' = dhas receipt ''capital_validation''" "dget s ''receipt_hash'' = dget receipt ''receipt_hash''"
    "dget s ''event_id'' = dget receipt ''event_id''" "validate_receipt render receipt = Inr receipt"
proof -
  from assms obtain r nid where v: "validate_receipt render receipt = Inr r"
    and n: "notification_id (dget r ''event_id'') (dget r ''receipt_hash'') = Inr nid" and s: "s = notification_seal (pending_body nid r)"
    by (auto simp: build_pending_def ebind_Inr_iff)
  have r: "r = receipt" and "is_str (dget receipt ''output_text'')"
    using v by (auto simp: validate_receipt_def ebind_Inr_iff split: if_splits option.splits)
  have d: "dhas (pending_body nid r) ''capital_validation'' = dhas receipt ''capital_validation''"
    by (cases "dhas receipt ''capital_validation''") (simp_all add: pending_body_def r)
  have sealed: "notification.verified s" using notification.seal_verified [of "pending_body nid r" s] by (simp add: s)
  show "notification_ok s" using n sealed
    by (auto simp: notification_ok_def s pending_body_def NOTIFICATION_STATES_def)
  show "dget s ''state'' = PStr ''PENDING''" "dget s ''output_text'' = dget receipt ''output_text''"
    "dget s ''receipt_hash'' = dget receipt ''receipt_hash''" "dget s ''event_id'' = dget receipt ''event_id''"
    by (simp_all add: s pending_body_def r)
  show "dget s ''attempt_count'' = PInt 0" by (cases "dhas r ''capital_validation''") (simp_all add: s pending_body_def)
  show "dhas s ''capital_validation'' = dhas receipt ''capital_validation''" using d by (simp add: s)
  show "is_str (dget receipt ''output_text'')" by fact
  show "validate_receipt render receipt = Inr receipt" using v by (simp add: r)
qed

lemma read_pending:
  assumes "build_pending render receipt = Inr s"
  shows "read_notification (Some (json_reload (PDict s))) = Inr (reload_dict s)"
  using pending_fields(1) [OF assms] by (simp add: read_notification_def validate_notification_iff flip: reload_dict_def)

lemma pending_tells:
  assumes "build_pending render receipt = Inr s" and "dget receipt ''output_text'' = PStr t"
  shows "tells (dhas receipt ''capital_validation'') t (Some (json_reload (PDict s))) []"
proof -
  note f = pending_fields [OF assms(1)]
  show ?thesis using read_pending [OF assms(1)] f(2,3,6) assms(2) by (auto simp: tells_def)
qed

definition world_tells :: "bool \<Rightarrow> string \<Rightarrow> popup_world \<Rightarrow> bool" where
  "world_tells c t w \<longleftrightarrow> tells c t (pw_file w) (pw_shown w) \<and> (\<forall>s \<in> set (pw_readers w). dhas s ''capital_validation'' = c)"

lemma presenting_tells:
  assumes "presenting stale render recheck w w'" and "stale \<longrightarrow> \<not> c" and "world_tells c t w"
  shows "world_tells c t w'"
  using assms(1)
proof cases
  case (reading s)
  then show ?thesis using assms(3) by (auto simp: world_tells_def tells_def)
next
  case (locking s call r file' new)
  have told: "tells c t (pw_file w) (pw_shown w)" and readers: "\<forall>s \<in> set (pw_readers w). dhas s ''capital_validation'' = c"
    using assms(3) by (simp_all add: world_tells_def)
  have "read_notification (pw_file w) = Inr s \<or> \<not> dhas s ''capital_validation''"
    using locking(2,3) readers assms(2) by auto
  from present_locked_tells [OF told this locking(4)] show ?thesis
    using readers notin_set_remove1 by (auto simp: world_tells_def locking(1))
qed

lemma presenting_run_tells:
  assumes "(presenting stale render recheck)\<^sup>*\<^sup>* w w'" and "stale \<longrightarrow> \<not> c" and "world_tells c t w"
  shows "world_tells c t w'"
  using assms(1,3) by induction (auto intro: presenting_tells [OF _ assms(2)])

text \<open>C17: a response is presented to the user at most once. However many calls present a freshly
  created notification, interleaved in any way between their read of the record and their locked
  part - locked out, gated, answered, raising, or dying before the claim or with or without the
  popup shown - the popup shows at most one text, the one of the receipt; a notification still
  pending was never shown, and one marked delivered was shown. For a capital recommendation this
  supposes that no call enters the lock with a record that is no longer the one on file.\<close>

theorem presented_at_most_once:
  assumes "build_pending render receipt = Inr s"
    and "(presenting stale render recheck)\<^sup>*\<^sup>* (popup_start s) w"
    and "stale \<longrightarrow> \<not> dhas receipt ''capital_validation''"
  shows "\<exists>s' st. read_notification (pw_file w) = Inr s' \<and> dget s' ''state'' = PStr st
    \<and> length (pw_shown w) \<le> 1 \<and> set (pw_shown w) \<subseteq> {dget receipt ''output_text''}
    \<and> (st = ''PENDING'' \<longrightarrow> pw_shown w = []) \<and> (st = ''DELIVERED'' \<longrightarrow> pw_shown w = [dget receipt ''output_text''])"
proof -
  obtain t where t: "dget receipt ''output_text'' = PStr t" using pending_fields(4) [OF assms(1)] by (auto simp: is_str_iff)
  have "world_tells (dhas receipt ''capital_validation'') t (popup_start s)"
    using pending_tells [OF assms(1) t] by (simp add: world_tells_def popup_start_def)
  from presenting_run_tells [OF assms(2,3) this] show ?thesis by (auto simp: world_tells_def tells_def t)
qed

text \<open>C18: a capital recommendation is shown only after it was found current: the caller held the lock
  and supplied the event's capital source and an evidence pack, and the re-validation of the
  recommendation against that source at the present time succeeded.\<close>

theorem capital_presented_only_if_current:
  assumes "present render recheck acquired source pack token now_ms popup file = (r, file', shown)" and "shown \<noteq> []"
    and "read_notification file = Inr s" and "dhas s ''capital_validation''"
  shows "acquired \<and> pack \<noteq> PNone
    \<and> (\<exists>src. source = Some src \<and> recheck (dget s ''capital_validation'') src now_ms = Inr ())"
proof -
  note e = assms(1) [unfolded present_def assms(3) sum.case present_locked_def]
  obtain g file1 where g: "capital_gate render recheck source pack now_ms s file = (g, file1)" by fastforce
  have acq: acquired using e assms(2) by (auto split: if_splits)
  have none: "g = Inr None" using e acq assms(2,4) unfolding g by (auto split: sum.splits option.splits)
  have "pack \<noteq> PNone" using g none by (auto simp: capital_gate_def split: sum.splits)
  moreover have "\<exists>src. source = Some src \<and> recheck (dget s ''capital_validation'') src now_ms = Inr ()"
    using g
  proof (cases rule: gate_cases)
    case (refused q)
    then show ?thesis using none by (auto simp: refuse_capital_def split: sum.splits)
  qed (use none in auto)
  ultimately show ?thesis using acq by blast
qed

lemma write_atomic_ok:
  assumes "notification_ok s"
  shows "write_atomic s file = Inr (Some (json_reload (PDict s)))"
proof -
  have "validate_notification (PDict s) = Inr s" using assms by (simp add: validate_notification_iff)
  then show ?thesis by (simp add: write_atomic_def del: json_reload.simps)
qed

lemma notification_ok_seal:
  assumes "dget s ''schema_version'' = PStr NOTIFICATION_SCHEMA_VERSION" and "dget s ''state'' = PStr st" and "st \<in> set NOTIFICATION_STATES"
    and "dhas s ''event_id''" and "dhas s ''receipt_hash''"
    and "notification_id (dget s ''event_id'') (dget s ''receipt_hash'') = Inr nid" and "dget s ''notification_id'' = PStr nid"
  shows "notification_ok (notification_seal s)"
  using assms notification.seal_verified [of s "notification_seal s"] by (auto simp: notification_ok_def)

lemma unlocked_delivers:
  assumes "read_notification f0 = Inr s" and "dget s ''state'' = PStr ''PENDING''" and t: "dget s ''output_text'' = PStr t"
    and n: "dget s ''attempt_count'' = PInt 0" and "answer \<in> {1, - 1}"
  shows "\<exists>f1 s'. present_unlocked token now_ms (Answer answer) f0
      = (Some (Inr (present_result ''DELIVERED'' True @ [(''result'', PInt answer)])), f1, [PStr t])
    \<and> read_notification f1 = Inr s' \<and> dget s' ''state'' = PStr ''DELIVERED'' \<and> dget s' ''attempt_count'' = PInt 1"
proof -
  have ok: "notification_ok s" by (rule read_notification_ok) fact
  then obtain nid where nid: "notification_id (dget s ''event_id'') (dget s ''receipt_hash'') = Inr nid"
      "dget s ''notification_id'' = PStr nid" by (auto simp: notification_ok_def)
  have tx: "map_of s ''output_text'' = Some (PStr t)" using t by (simp add: dget_neq_None)
  define c where "c = notification_seal (dset ''claim_token'' (PStr token) (dset ''attempt_count'' (PInt 1) (dset ''state'' (PStr ''CLAIMED'') s)))"
  define d where "d = deliver_notification answer now_ms c"
  have claim: "claim_notification token s = Inr c"
    using n dget_neq_None [of s "''attempt_count''"] by (simp add: claim_notification_def c_def)
  have okc: "notification_ok c" unfolding c_def
    using ok nid by (intro notification_ok_seal) (auto simp: notification_ok_def NOTIFICATION_STATES_def)
  have okd: "notification_ok d" unfolding d_def deliver_notification_def
    using ok nid by (intro notification_ok_seal) (auto simp: notification_ok_def NOTIFICATION_STATES_def c_def)
  have "present_unlocked token now_ms (Answer answer) f0
      = (Some (Inr (present_result ''DELIVERED'' True @ [(''result'', PInt answer)])), Some (json_reload (PDict d)), [PStr t])"
    using assms(2,5) unfolding present_unlocked_def assms(1) sum.case claim ebind.simps write_atomic_ok [OF okc] tx
    by (simp add: present_end_def write_atomic_ok [OF okd] Let_def d_def [symmetric] del: json_reload.simps)
  moreover have "read_notification (Some (json_reload (PDict d))) = Inr (reload_dict d)"
    using okd by (simp add: read_notification_def validate_notification_iff flip: reload_dict_def)
  moreover have "dget (reload_dict d) ''state'' = PStr ''DELIVERED''" "dget (reload_dict d) ''attempt_count'' = PInt 1"
    by (simp_all add: d_def deliver_notification_def c_def)
  ultimately show ?thesis by blast
qed

text \<open>An ordinary pending notification is delivered when the lock is granted and the popup answers:
  the call succeeds, the popup shows exactly the receipt's text and the file is marked delivered.\<close>

theorem pending_notification_delivers:
  assumes "build_pending render receipt = Inr s" and "\<not> dhas receipt ''capital_validation''" and "answer \<in> {1, - 1}"
  shows "\<exists>file' s'. present render recheck True source pack token now_ms (Answer answer) (Some (json_reload (PDict s)))
      = (Some (Inr (present_result ''DELIVERED'' True @ [(''result'', PInt answer)])), file', [dget receipt ''output_text''])
    \<and> read_notification file' = Inr s' \<and> dget s' ''state'' = PStr ''DELIVERED'' \<and> dget s' ''attempt_count'' = PInt 1"
proof -
  note f = pending_fields [OF assms(1)]
  obtain t where t: "dget receipt ''output_text'' = PStr t" using f(4) by (auto simp: is_str_iff)
  have "present render recheck True source pack token now_ms (Answer answer) (Some (json_reload (PDict s)))
      = present_unlocked token now_ms (Answer answer) (Some (json_reload (PDict s)))"
    using assms(2) f(6) unfolding present_def read_pending [OF assms(1)] sum.case present_locked_def by simp
  then show ?thesis
    using unlocked_delivers [OF read_pending [OF assms(1)], of t answer token now_ms] f(2,3,5) t assms(3) by simp
qed

text \<open>Creating a notification never touches another file, and an existing one stays as it is.\<close>

lemma ensure_pending_keeps_files:
  assumes "map_of dir nid = Some file"
  shows "map_of (snd (ensure_pending render acquired dir receipt)) nid = Some file"
  using assms
  by (auto simp: ensure_pending_def ensure_pending_unlocked_def Let_def split: sum.splits option.splits)

section \<open>A concrete receipt\<close>

definition demo_receipt_body :: dict where
  "demo_receipt_body = [(''state'', PStr ''RESPONSES_DELIVERY_RECEIPT_READY''),
     (''event_id'', PStr (replicate 64 (CHR ''a''))), (''bridge_payload_hash'', PStr (replicate 64 (CHR ''b''))),
     (''request_hash'', PStr (replicate 64 (CHR ''c''))), (''response_id'', PStr ''resp_1''),
     (''response_hash'', PStr (replicate 64 (CHR ''d''))), (''output_text'', PStr ''Wait.''),
     (''production'', PStr ''NOT_APPROVED''), (''external_action_authority'', PStr ''NONE''), (''action_output'', PStr ''NONE'')]"

definition demo_receipt :: dict where
  "demo_receipt = demo_receipt_body @ [(''receipt_hash'', PStr (canonical_hash (PDict demo_receipt_body)))]"

lemma str_len_replicate [simp]: "\<not> is_cont c \<Longrightarrow> str_len (replicate n c) = n"
  by (simp add: str_len_def)

lemma demo_not_cont: "\<not> is_cont (CHR ''a'')" "\<not> is_cont (CHR ''b'')" "\<not> is_cont (CHR ''c'')" "\<not> is_cont (CHR ''d'')"
  by (simp_all add: is_cont_def)

lemma demo_receipt_fields:
  "dget demo_receipt ''state'' = PStr ''RESPONSES_DELIVERY_RECEIPT_READY''" "dget demo_receipt ''production'' = PStr ''NOT_APPROVED''"
  "dget demo_receipt ''external_action_authority'' = PStr ''NONE''" "dget demo_receipt ''action_output'' = PStr ''NONE''"
  "dget demo_receipt ''event_id'' = PStr (replicate 64 (CHR ''a''))" "dget demo_receipt ''bridge_payload_hash'' = PStr (replicate 64 (CHR ''b''))"
  "dget demo_receipt ''request_hash'' = PStr (replicate 64 (CHR ''c''))" "dget demo_receipt ''response_hash'' = PStr (replicate 64 (CHR ''d''))"
  "dget demo_receipt ''receipt_hash'' = PStr (canonical_hash (PDict demo_receipt_body))"
  "dget demo_receipt ''response_id'' = PStr ''resp_1''" "dget demo_receipt ''output_text'' = PStr ''Wait.''"
  "dhas demo_receipt ''capital_validation'' = False" "dpop ''receipt_hash'' demo_receipt = demo_receipt_body"
  by (simp_all add: demo_receipt_def demo_receipt_body_def dpop_filter)

lemma demo_build: "\<exists>s. build_pending render demo_receipt = Inr s"
proof -
  have "validate_receipt render demo_receipt = Inr demo_receipt"
    by (simp add: validate_receipt_def demo_receipt_fields RECEIPT_HASH_FIELDS_def is_len64_def demo_not_cont)
  then show ?thesis
    by (simp add: build_pending_def demo_receipt_fields notification_id_def demo_not_cont)
qed

definition demo_call :: "outcome \<Rightarrow> present_call" where
  "demo_call popup = \<lparr>pc_acquired = True, pc_source = None, pc_pack = PNone, pc_token = ''t'', pc_now_ms = 1000, pc_popup = popup\<rparr>"

definition demo_render :: "pyval \<Rightarrow> string res" where
  "demo_render v = Inr ''Wait.''"

definition demo_recheck :: "pyval \<Rightarrow> dict \<Rightarrow> int \<Rightarrow> unit res" where
  "demo_recheck v src at_ms = (if at_ms \<le> 2000 then Inr () else Inl (ValueError ''RECOMMENDATION_EXPIRED''))"

theorem pending_notification_delivers_witness:
  "\<exists>s f1 s'. build_pending demo_render demo_receipt = Inr s
    \<and> present demo_render demo_recheck True None PNone ''t'' 1000 (Answer 1) (Some (json_reload (PDict s)))
        = (Some (Inr (present_result ''DELIVERED'' True @ [(''result'', PInt 1)])), f1, [PStr ''Wait.''])
    \<and> read_notification f1 = Inr s' \<and> dget s' ''state'' = PStr ''DELIVERED''"
proof -
  obtain s where s: "build_pending demo_render demo_receipt = Inr s" using demo_build by blast
  show ?thesis
    using s pending_notification_delivers [OF s, of 1 demo_recheck None PNone "''t''" 1000] by (auto simp: demo_receipt_fields)
qed

text \<open>Two calls that both read the record before either enters the lock.\<close>

lemma two_calls:
  assumes read: "read_notification (Some (json_reload (PDict s))) = Inr x"
    and "stale \<or> \<not> dhas x ''capital_validation''"
    and "locked_call render recheck c1 x (Some (json_reload (PDict s))) = (r1, f1, new1)" and "locked_call render recheck c2 x f1 = (r2, f2, new2)"
  shows "(presenting stale render recheck)\<^sup>*\<^sup>* (popup_start s) \<lparr>pw_file = f2, pw_readers = [], pw_shown = new1 @ new2\<rparr>"
proof -
  let ?f0 = "Some (json_reload (PDict s))"
  have a: "presenting stale render recheck (popup_start s) \<lparr>pw_file = ?f0, pw_readers = [x], pw_shown = []\<rparr>"
    using presenting.reading [of "popup_start s" x stale render recheck] read by (simp add: popup_start_def)
  have b: "presenting stale render recheck \<lparr>pw_file = ?f0, pw_readers = [x], pw_shown = []\<rparr> \<lparr>pw_file = ?f0, pw_readers = [x, x], pw_shown = []\<rparr>"
    using presenting.reading [of "\<lparr>pw_file = ?f0, pw_readers = [x], pw_shown = []\<rparr>" x stale render recheck] read by simp
  have c: "presenting stale render recheck \<lparr>pw_file = ?f0, pw_readers = [x, x], pw_shown = []\<rparr> \<lparr>pw_file = f1, pw_readers = [x], pw_shown = new1\<rparr>"
    using presenting.locking [of x "\<lparr>pw_file = ?f0, pw_readers = [x, x], pw_shown = []\<rparr>" stale render recheck c1 r1 f1 new1] assms(1-3) by simp
  have d: "presenting stale render recheck \<lparr>pw_file = f1, pw_readers = [x], pw_shown = new1\<rparr> \<lparr>pw_file = f2, pw_readers = [], pw_shown = new1 @ new2\<rparr>"
    using presenting.locking [of x "\<lparr>pw_file = f1, pw_readers = [x], pw_shown = new1\<rparr>" stale render recheck c2 r2 f2 new2] assms(2,4) by auto
  show ?thesis using a b c d by (meson rtranclp.rtrancl_into_rtrancl rtranclp.rtrancl_refl)
qed

theorem presented_at_most_once_witness:
  "\<exists>s w. build_pending demo_render demo_receipt = Inr s
    \<and> (presenting True demo_render demo_recheck)\<^sup>*\<^sup>* (popup_start s) w \<and> pw_shown w = [PStr ''Wait.''] \<and> length (pw_shown w) \<le> 1"
proof -
  obtain s where s: "build_pending demo_render demo_receipt = Inr s" using demo_build by blast
  note f = pending_fields [OF s]
  let ?s = "reload_dict s"
  have ord: "\<not> dhas ?s ''capital_validation''" using f(6) by (simp add: demo_receipt_fields)
  have "\<exists>f1 s'. present_unlocked ''t'' 1000 (Answer 1) (Some (json_reload (PDict s)))
      = (Some (Inr (present_result ''DELIVERED'' True @ [(''result'', PInt 1)])), f1, [PStr ''Wait.''])
    \<and> read_notification f1 = Inr s' \<and> dget s' ''state'' = PStr ''DELIVERED'' \<and> dget s' ''attempt_count'' = PInt 1"
    by (rule unlocked_delivers [OF read_pending [OF s]]) (use f(2,3,5) in \<open>simp_all add: demo_receipt_fields\<close>)
  then obtain f1 s' where u: "present_unlocked ''t'' 1000 (Answer 1) (Some (json_reload (PDict s)))
      = (Some (Inr (present_result ''DELIVERED'' True @ [(''result'', PInt 1)])), f1, [PStr ''Wait.''])"
    and s': "read_notification f1 = Inr s'" "dget s' ''state'' = PStr ''DELIVERED''" by blast
  have c1: "locked_call demo_render demo_recheck (demo_call (Answer 1)) ?s (Some (json_reload (PDict s)))
      = (Some (Inr (present_result ''DELIVERED'' True @ [(''result'', PInt 1)])), f1, [PStr ''Wait.''])"
    using ord u by (simp add: present_locked_def demo_call_def del: json_reload.simps)
  have c2: "locked_call demo_render demo_recheck (demo_call (Answer 1)) ?s f1 = (Some (Inr (present_result ''ALREADY_DELIVERED'' False)), f1, [])"
    using ord s' by (simp add: present_locked_def present_unlocked_def demo_call_def)
  have run: "(presenting True demo_render demo_recheck)\<^sup>*\<^sup>* (popup_start s) \<lparr>pw_file = f1, pw_readers = [], pw_shown = [PStr ''Wait.''] @ []\<rparr>"
    by (rule two_calls [OF read_pending [OF s] _ c1 c2]) simp
  have cap: "True \<longrightarrow> \<not> dhas demo_receipt ''capital_validation''" by (simp add: demo_receipt_fields)
  let ?w = "\<lparr>pw_file = f1, pw_readers = [], pw_shown = [PStr ''Wait.''] @ []\<rparr>"
  have "length (pw_shown ?w) \<le> 1" using presented_at_most_once [OF s run cap] by blast
  then show ?thesis using s run by (intro exI [of _ s] exI [of _ ?w] conjI) simp_all
qed

text \<open>The same receipt for a recommendation, found current against its source.\<close>

definition capital_receipt :: dict where
  "capital_receipt = (let body = demo_receipt_body @ [(''capital_validation'', PDict [])]
     in body @ [(''receipt_hash'', PStr (canonical_hash (PDict body)))])"

lemma capital_receipt_fields:
  "dget capital_receipt ''state'' = PStr ''RESPONSES_DELIVERY_RECEIPT_READY''" "dget capital_receipt ''production'' = PStr ''NOT_APPROVED''"
  "dget capital_receipt ''external_action_authority'' = PStr ''NONE''" "dget capital_receipt ''action_output'' = PStr ''NONE''"
  "dget capital_receipt ''event_id'' = PStr (replicate 64 (CHR ''a''))" "dget capital_receipt ''bridge_payload_hash'' = PStr (replicate 64 (CHR ''b''))"
  "dget capital_receipt ''request_hash'' = PStr (replicate 64 (CHR ''c''))" "dget capital_receipt ''response_hash'' = PStr (replicate 64 (CHR ''d''))"
  "dget capital_receipt ''receipt_hash'' = PStr (canonical_hash (PDict (demo_receipt_body @ [(''capital_validation'', PDict [])])))"
  "dget capital_receipt ''response_id'' = PStr ''resp_1''" "dget capital_receipt ''output_text'' = PStr ''Wait.''"
  "dget capital_receipt ''capital_validation'' = PDict []" "dhas capital_receipt ''capital_validation''"
  "dpop ''receipt_hash'' capital_receipt = demo_receipt_body @ [(''capital_validation'', PDict [])]"
  by (simp_all add: capital_receipt_def demo_receipt_body_def dpop_filter Let_def)

lemma capital_build: "\<exists>s. build_pending demo_render capital_receipt = Inr s \<and> dget s ''capital_validation'' = PDict [] \<and> \<not> dhas s ''current_qualification''"
proof -
  have v: "validate_receipt demo_render capital_receipt = Inr capital_receipt"
    by (simp add: validate_receipt_def capital_receipt_fields RECEIPT_HASH_FIELDS_def is_len64_def demo_not_cont demo_render_def)
  show ?thesis
    by (simp add: build_pending_def v capital_receipt_fields notification_id_def demo_not_cont pending_body_def)
qed

lemma demo_unqualified: "current_capital_qualification (PDict []) 1000 = Inr (blocked_qualification ''CURRENT_CAPITAL_EVIDENCE_HASH_INVALID'')"
  by (simp add: current_capital_qualification_def qualify_pack_def canonical_hash_strict_Inr dpop_def)

lemma notification_ok_requalified:
  assumes "notification_ok s"
  shows "notification_ok (notification_seal (dset ''current_qualification'' q s))"
proof -
  from assms obtain st nid where "dget s ''state'' = PStr st" "st \<in> set NOTIFICATION_STATES"
    "notification_id (dget s ''event_id'') (dget s ''receipt_hash'') = Inr nid" "dget s ''notification_id'' = PStr nid"
    by (auto simp: notification_ok_def)
  with assms show ?thesis by (intro notification_ok_seal) (auto simp: notification_ok_def)
qed

lemma demo_gate_passes:
  assumes "notification_ok s" and "dget s ''capital_validation'' = PDict []" and "\<not> dhas s ''current_qualification''"
    and "dget s ''output_text'' = PStr ''Wait.''"
  shows "\<exists>q. capital_gate demo_render demo_recheck (Some []) (PDict []) 1000 s f0 = (Inr None, Some (json_reload (PDict (notification_seal (dset ''current_qualification'' q s)))))"
proof -
  have d: "dget_or s ''current_qualification'' (PDict []) = PDict []" "dget s ''current_qualification'' = PNone"
    using assms(3) by (simp_all add: dget_or_def dget_def dhas_map_of)
  have tx: "py_index (PDict s) ''output_text'' = Inr (PStr ''Wait.'')" using assms(4) dget_PStr_dhas [OF assms(4)] by (simp only: py_index_Inr)
  have ok: "notification_ok (notification_seal (dset ''current_qualification'' q s))" for q
    by (rule notification_ok_requalified) fact
  let ?q = "blocked_qualification ''CURRENT_CAPITAL_EVIDENCE_HASH_INVALID''"
  have "source_gate demo_render demo_recheck [] ?q 1000 s f0
      = (Inr None, Some (json_reload (PDict (notification_seal (dset ''current_qualification'' (PDict (qualification_status ?q True False)) s)))))"
    unfolding source_gate_def assms(2) d(1) Let_def tx
    by (simp add: demo_recheck_def demo_render_def record_capital_qualification_def d(2) write_atomic_ok [OF ok] blocked_qualification_def
        del: json_reload.simps)
  then show ?thesis unfolding capital_gate_def demo_unqualified by auto
qed

lemma capital_call_shows:
  assumes "build_pending demo_render capital_receipt = Inr s"
  shows "\<exists>f1. present_locked demo_render demo_recheck True (Some []) (PDict []) ''t'' 1000 (Answer 1) (reload_dict s) f0
    = (Some (Inr (present_result ''DELIVERED'' True @ [(''result'', PInt 1)])), f1, [PStr ''Wait.''])"
proof -
  from capital_build assms have cv: "dget s ''capital_validation'' = PDict []" and cq: "\<not> dhas s ''current_qualification''" by auto
  note f = pending_fields [OF assms]
  let ?s = "reload_dict s"
  have cvs: "dget ?s ''capital_validation'' = PDict []" "\<not> dhas ?s ''current_qualification''" "dhas ?s ''capital_validation''"
    "dget ?s ''output_text'' = PStr ''Wait.''" "notification_ok ?s"
    using cv cq f(1,3,6) by (simp_all add: capital_receipt_fields)
  obtain q where g: "capital_gate demo_render demo_recheck (Some []) (PDict []) 1000 ?s f0
      = (Inr None, Some (json_reload (PDict (notification_seal (dset ''current_qualification'' q ?s)))))"
    using demo_gate_passes [OF cvs(5,1,2,4)] by blast
  let ?s1 = "notification_seal (dset ''current_qualification'' q ?s)"
  have ok1: "notification_ok ?s1" by (rule notification_ok_requalified) fact
  have rd1: "read_notification (Some (json_reload (PDict ?s1))) = Inr (reload_dict ?s1)"
    using ok1 by (simp add: read_notification_def validate_notification_iff flip: reload_dict_def)
  have "\<exists>f1 s'. present_unlocked ''t'' 1000 (Answer 1) (Some (json_reload (PDict ?s1)))
      = (Some (Inr (present_result ''DELIVERED'' True @ [(''result'', PInt 1)])), f1, [PStr ''Wait.''])
    \<and> read_notification f1 = Inr s' \<and> dget s' ''state'' = PStr ''DELIVERED'' \<and> dget s' ''attempt_count'' = PInt 1"
    by (rule unlocked_delivers [OF rd1]) (use f(2,5) cvs(4) in simp_all)
  then show ?thesis unfolding present_locked_def using cvs(3) g by (auto simp del: json_reload.simps)
qed

theorem capital_presented_only_if_current_witness:
  "\<exists>s r f1. build_pending demo_render capital_receipt = Inr s
    \<and> present demo_render demo_recheck True (Some []) (PDict []) ''t'' 1000 (Answer 1) (Some (json_reload (PDict s))) = (r, f1, [PStr ''Wait.''])
    \<and> demo_recheck (dget (reload_dict s) ''capital_validation'') [] 1000 = Inr ()"
proof -
  obtain s where s: "build_pending demo_render capital_receipt = Inr s" using capital_build by blast
  have cap: "dhas (reload_dict s) ''capital_validation''" using pending_fields(6) [OF s] by (simp add: capital_receipt_fields)
  obtain f1 where p: "present demo_render demo_recheck True (Some []) (PDict []) ''t'' 1000 (Answer 1) (Some (json_reload (PDict s)))
      = (Some (Inr (present_result ''DELIVERED'' True @ [(''result'', PInt 1)])), f1, [PStr ''Wait.''])"
    using capital_call_shows [OF s] unfolding present_def read_pending [OF s] sum.case by blast
  show ?thesis using s p capital_presented_only_if_current [OF p _ read_pending [OF s] cap] by auto
qed

text \<open>The restriction of the first property is needed: two calls about one capital recommendation that
  both read it pending show its popup twice, because the second writes the pending record it read
  back over the delivered one.\<close>

theorem stale_read_presents_twice:
  "\<exists>s w. build_pending demo_render capital_receipt = Inr s
    \<and> (presenting True demo_render demo_recheck)\<^sup>*\<^sup>* (popup_start s) w \<and> pw_shown w = [PStr ''Wait.'', PStr ''Wait.'']"
proof -
  obtain s where s: "build_pending demo_render capital_receipt = Inr s" using capital_build by blast
  let ?c = "\<lparr>pc_acquired = True, pc_source = Some [], pc_pack = PDict [], pc_token = ''t'', pc_now_ms = 1000, pc_popup = Answer 1\<rparr>"
  let ?r = "Some (Inr (present_result ''DELIVERED'' True @ [(''result'', PInt 1)]))"
  have call: "\<exists>f1. locked_call demo_render demo_recheck ?c (reload_dict s) f0 = (?r, f1, [PStr ''Wait.''])" for f0
    using capital_call_shows [OF s] by simp
  obtain f1 where c1: "locked_call demo_render demo_recheck ?c (reload_dict s) (Some (json_reload (PDict s))) = (?r, f1, [PStr ''Wait.''])"
    using call by blast
  obtain f2 where c2: "locked_call demo_render demo_recheck ?c (reload_dict s) f1 = (?r, f2, [PStr ''Wait.''])" using call by blast
  have "(presenting True demo_render demo_recheck)\<^sup>*\<^sup>* (popup_start s) \<lparr>pw_file = f2, pw_readers = [], pw_shown = [PStr ''Wait.''] @ [PStr ''Wait.'']\<rparr>"
    by (rule two_calls [OF read_pending [OF s] _ c1 c2]) simp
  with s show ?thesis by (intro exI [of _ s] exI conjI) (assumption, assumption, simp)
qed

end
