(* ===== verification/Posture_Gate.thy ===== *)
theory Posture_Gate
  imports Py_Text
begin

text \<open>
  The research evaluation of pre-classified control-transfer evidence
  (\<^verbatim>\<open>btc_transition_research_eval.py\<close>) and the gate that turns an evaluation into posture
  constraints (\<^verbatim>\<open>deployment_posture_research_gate.py\<close>). The gate recomputes the evaluation from
  its own observations and accepts only an equal one.
\<close>

section \<open>The evaluator\<close>

definition EVIDENCE_SCHEMA_VERSION :: string where "EVIDENCE_SCHEMA_VERSION = ''CRT_BTC_CONTROL_TRANSFER_EVIDENCE_V0.1''"
definition RESULT_SCHEMA_VERSION :: string where "RESULT_SCHEMA_VERSION = ''CRT_BTC_CONTROL_TRANSFER_RESEARCH_EVAL_V0.1''"
definition OBSERVATION_STATES :: "string list" where
  "OBSERVATION_STATES = [''CONFIRMED'', ''NOT_CONFIRMED'', ''NOT_OBSERVED'', ''REJECTED'', ''UNAVAILABLE'']"
definition SEQUENCE :: "string list" where
  "SEQUENCE = [''meaningful_breakout'', ''meaningful_pullback'', ''higher_low'', ''reattack'', ''prior_control_high_break'']"
definition AUTHORITY_FIELDS :: "string list" where
  "AUTHORITY_FIELDS = [''formal_model_authority'', ''formal_weight_authority'', ''formal_threshold_authority'',
     ''season_transition_authority'', ''external_action_authority'']"

definition research_result :: "string \<Rightarrow> string \<Rightarrow> string \<Rightarrow> dict \<Rightarrow> dict" where
  "research_result st reason research_state observations =
     [(''schema_version'', PStr RESULT_SCHEMA_VERSION), (''state'', PStr st), (''reason'', PStr reason),
      (''research_state'', PStr research_state), (''observations'', PDict observations),
      (''control_transfer_loop_closed'', PBool (research_state = ''CONTROL_TRANSFER_CANDIDATE'')),
      (''formal_season'', PNone), (''formal_model_authority'', PStr ''NONE''), (''formal_weight_authority'', PStr ''NONE''),
      (''formal_threshold_authority'', PStr ''NONE''), (''season_transition_authority'', PStr ''NONE''),
      (''machine_may_determine_btc_season'', PBool False), (''machine_may_confirm_bull_transition'', PBool False),
      (''analyst_judgment_required'', PBool True), (''action_output'', PStr ''NONE''),
      (''external_action_authority'', PStr ''NONE''), (''external_action_performed'', PBool False)]"

definition unavailable_evidence :: "string \<Rightarrow> dict" where
  "unavailable_evidence reason = research_result ''NOT_AVAILABLE'' reason ''TRANSITION_UNRESOLVED'' []"

definition blocked_evidence :: "string \<Rightarrow> dict" where
  "blocked_evidence reason = research_result ''BLOCKED'' reason ''TRANSITION_UNRESOLVED'' []"

text \<open>The first observation of the sequence that is missing or unknown.\<close>

fun first_invalid :: "dict \<Rightarrow> string list \<Rightarrow> string option res" where
  "first_invalid raw [] = Inr None"
| "first_invalid raw (f # fs) =
     ebind (in_strs (dget raw f) OBSERVATION_STATES) (\<lambda>ok. if ok then first_invalid raw fs else Inr (Some f))"

definition confirmed :: "dict \<Rightarrow> string \<Rightarrow> bool" where
  "confirmed obs field \<longleftrightarrow> dget obs field = PStr ''CONFIRMED''"

text \<open>The first step confirmed before the one it needs.\<close>

definition first_contradiction :: "dict \<Rightarrow> (string \<times> string) option" where
  "first_contradiction obs =
     List.find (\<lambda>(field, prerequisite). confirmed obs field \<and> \<not> confirmed obs prerequisite) (zip (tl SEQUENCE) SEQUENCE)"

definition classify_observations :: "dict \<Rightarrow> string \<times> string" where
  "classify_observations obs =
     (let breakout = confirmed obs ''meaningful_breakout'' in
      if dget obs ''invalidating_lower_low'' = PStr ''OBSERVED'' then
        (if breakout then (''POST_BREAKOUT_LOWER_LOW_REJECTED_CONTROL_TRANSFER'', ''FALSE_POSITIVE_REJECTED'')
         else (''LOWER_LOW_WITHOUT_CONFIRMED_CONTROL_TRANSFER_BREAKOUT'', ''BEAR_CONTROL_RETAINED''))
      else if \<not> breakout then (''MEANINGFUL_BREAKOUT_NOT_CONFIRMED'', ''TRANSITION_UNRESOLVED'')
      else if \<not> confirmed obs ''meaningful_pullback'' then
        (''BREAKOUT_OBSERVED_BUT_DEFENSIVE_PULLBACK_NOT_TESTED'', ''ATTACK_STRENGTHENED_DEFENSE_PENDING'')
      else if \<not> confirmed obs ''higher_low'' then (''PULLBACK_OBSERVED_BUT_HIGHER_LOW_NOT_CONFIRMED'', ''DEFENSE_UNRESOLVED'')
      else if \<not> confirmed obs ''reattack'' \<or> \<not> confirmed obs ''prior_control_high_break'' then
        (''HIGHER_LOW_HELD_BUT_REATTACK_CONTROL_BREAK_PENDING'', ''DEFENSE_HELD_REATTACK_PENDING'')
      else (''BREAKOUT_PULLBACK_HIGHER_LOW_REATTACK_LOOP_CLOSED'', ''CONTROL_TRANSFER_CANDIDATE''))"

definition normal_observations :: "dict \<Rightarrow> dict" where
  "normal_observations raw = map (\<lambda>f. (f, dget raw f)) (SEQUENCE @ [''invalidating_lower_low''])"

definition evaluate_observations :: "dict \<Rightarrow> dict res" where
  "evaluate_observations raw =
     ebind (first_invalid raw SEQUENCE) (\<lambda>bad. case bad of
       Some f \<Rightarrow> Inr (blocked_evidence (''CONTROL_TRANSFER_OBSERVATION_INVALID:'' @ f))
     | None \<Rightarrow>
         ebind (in_strs (dget raw ''invalidating_lower_low'') [''OBSERVED'', ''NOT_OBSERVED'', ''UNAVAILABLE'']) (\<lambda>ok.
         if \<not> ok then Inr (blocked_evidence ''CONTROL_TRANSFER_OBSERVATION_INVALID:invalidating_lower_low'')
         else (let obs = normal_observations raw in
           case first_contradiction obs of
             Some (f, p) \<Rightarrow> Inr (blocked_evidence (''CONTROL_TRANSFER_SEQUENCE_CONTRADICTION:'' @ f @ ''_BEFORE_'' @ p))
           | None \<Rightarrow> (case classify_observations obs of (reason, research_state) \<Rightarrow>
               Inr (research_result ''READY_FOR_ANALYST'' reason research_state obs)))))"

definition evaluate_control_transfer_evidence :: "pyval \<Rightarrow> dict res" where
  "evaluate_control_transfer_evidence v =
     (let evidence = dict_of v; authority = dget evidence ''authority''; raw = dget evidence ''observations'' in
      if \<not> is_dict v then Inr (unavailable_evidence ''CONTROL_TRANSFER_EVIDENCE_NOT_AVAILABLE'')
      else if \<not> py_eq (dget evidence ''schema_version'') (PStr EVIDENCE_SCHEMA_VERSION)
        then Inr (blocked_evidence ''CONTROL_TRANSFER_EVIDENCE_SCHEMA_MISMATCH'')
      else if \<not> is_dict authority then Inr (blocked_evidence ''CONTROL_TRANSFER_AUTHORITY_MISSING'')
      else (case List.find (\<lambda>f. \<not> py_eq (dget (dict_of authority) f) (PStr ''NONE'')) AUTHORITY_FIELDS of
          Some f \<Rightarrow> Inr (blocked_evidence (''CONTROL_TRANSFER_'' @ upper f @ ''_MUST_BE_NONE''))
        | None \<Rightarrow>
            if dget (dict_of authority) ''external_action_performed'' \<noteq> PBool False
              then Inr (blocked_evidence ''CONTROL_TRANSFER_EXTERNAL_ACTION_PERFORMED_MUST_BE_FALSE'')
            else if \<not> is_dict raw then Inr (blocked_evidence ''CONTROL_TRANSFER_OBSERVATIONS_MISSING'')
            else evaluate_observations (dict_of raw)))"

section \<open>The gate\<close>

definition GATE_SCHEMA_VERSION :: string where "GATE_SCHEMA_VERSION = ''CRT_DEPLOYMENT_POSTURE_RESEARCH_GATE_V0.1''"

definition POSTURES :: "(string \<times> string \<times> string) list" where
  "POSTURES = [
     (''TRANSITION_UNRESOLVED'', ''NONE'', ''NO_UPGRADE_FROM_TRANSITION_RESEARCH''),
     (''ATTACK_STRENGTHENED_DEFENSE_PENDING'', ''SCOUT'', ''REVIEW_CANDIDATE''),
     (''DEFENSE_UNRESOLVED'', ''SCOUT'', ''HOLD_OR_REVIEW_ONLY_NO_UPGRADE''),
     (''DEFENSE_HELD_REATTACK_PENDING'', ''BRIDGEHEAD'', ''REVIEW_CANDIDATE''),
     (''CONTROL_TRANSFER_CANDIDATE'', ''REINFORCEMENT'', ''REVIEW_CANDIDATE_TRANSITION_PREREQUISITE_MET''),
     (''FALSE_POSITIVE_REJECTED'', ''NONE'', ''FREEZE_UPGRADES_AND_REANALYZE''),
     (''BEAR_CONTROL_RETAINED'', ''NONE'', ''BLOCK_TRANSITION_JUSTIFIED_UPGRADE'')]"

definition DOWNSTREAM_GATES :: "string list" where
  "DOWNSTREAM_GATES = [''EXISTING_BTC_DECISION_SUPPORT'', ''QUALIFIED_COMMANDER_ATTACK_AND_DEFENSE_LINES'',
     ''LATEST_CAPITAL_STATE'', ''ACTIVE_CAPITAL_PLAN_AND_AVAILABLE_TRANCHE'', ''BULL_FOUNDATION'', ''INDEPENDENT_EVIDENCE'',
     ''ASSET_ROLE_INTEGRITY'', ''DECISION_ASYMMETRY'', ''ASSET_SPECIFIC_FACTS'', ''GPT_ANALYST_JUDGMENT'', ''USER_DECISION'']"

definition posture_result :: "string \<Rightarrow> string option \<Rightarrow> dict" where
  "posture_result reason research_state =
     (case (case Option.bind research_state (map_of POSTURES) of
              Some p \<Rightarrow> p | None \<Rightarrow> (''NONE'', ''POSTURE_TRANSLATION_BLOCKED'')) of (candidate, effect) \<Rightarrow>
     [(''schema_version'', PStr GATE_SCHEMA_VERSION),
      (''state'', PStr (if research_state = None then ''POSTURE_TRANSLATION_BLOCKED'' else ''READY_FOR_ANALYST'')),
      (''reason'', PStr reason),
      (''research_state'', case research_state of None \<Rightarrow> PNone | Some s \<Rightarrow> PStr s),
      (''scope'', PStr ''TRANSITION_RESEARCH_ONLY''), (''eligibility_level'', PStr ''RESEARCH_POSTURE_CANDIDATE''),
      (''posture_candidate'', PStr candidate), (''posture_effect'', PStr effect),
      (''required_downstream_gates'', PList (map PStr DOWNSTREAM_GATES)),
      (''final_eligibility'', PStr ''NOT_DETERMINED''), (''plan_invalidation'', PStr ''UNRESOLVED''), (''formal_season'', PNone)]
     @ map (\<lambda>f. (f, PStr ''NONE'')) AUTHORITY_FIELDS
     @ [(''action_output'', PStr ''NONE''), (''external_action_performed'', PBool False),
        (''capital_decision_authority'', PStr ''USER_ONLY''), (''machine_execution'', PStr ''FORBIDDEN''),
        (''machine_may_execute_trade'', PBool False), (''machine_may_determine_btc_season'', PBool False),
        (''machine_may_confirm_bull_transition'', PBool False), (''analyst_judgment_required'', PBool True),
        (''production'', PStr ''NOT_APPROVED'')])"

definition LOCKED_FLAGS :: "(string \<times> pyval) list" where
  "LOCKED_FLAGS = [(''formal_season'', PNone), (''external_action_performed'', PBool False),
     (''machine_may_determine_btc_season'', PBool False), (''machine_may_confirm_bull_transition'', PBool False),
     (''analyst_judgment_required'', PBool True)]"

definition gate_evidence :: "dict \<Rightarrow> dict" where
  "gate_evidence observations =
     [(''schema_version'', PStr EVIDENCE_SCHEMA_VERSION),
      (''authority'', PDict (map (\<lambda>f. (f, PStr ''NONE'')) AUTHORITY_FIELDS @ [(''external_action_performed'', PBool False)])),
      (''observations'', PDict observations)]"

definition translate_research_state :: "pyval \<Rightarrow> dict res" where
  "translate_research_state v =
     (let ev = dict_of v; rs = dget ev ''research_state''; obs = dget ev ''observations''; refuse = (\<lambda>reason. Inr (posture_result reason None)) in
      if \<not> is_dict v then refuse ''RESEARCH_EVALUATION_NOT_OBJECT''
      else if \<not> py_eq (dget ev ''schema_version'') (PStr RESULT_SCHEMA_VERSION) then refuse ''RESEARCH_EVALUATION_SCHEMA_MISMATCH''
      else if \<not> py_eq (dget ev ''state'') (PStr ''READY_FOR_ANALYST'') then refuse ''RESEARCH_EVALUATION_NOT_READY''
      else (case List.find (\<lambda>f. \<not> py_eq (dget ev f) (PStr ''NONE'')) (AUTHORITY_FIELDS @ [''action_output'']) of
          Some f \<Rightarrow> refuse (''AUTHORITY_VIOLATION:'' @ f)
        | None \<Rightarrow>
          (case List.find (\<lambda>(f, x). \<not> dhas ev f \<or> dget ev f \<noteq> x) LOCKED_FLAGS of
            Some (f, x) \<Rightarrow> refuse (''AUTHORITY_VIOLATION:'' @ f)
          | None \<Rightarrow>
            if \<not> is_str rs \<or> map_of POSTURES (str_of rs) = None then refuse ''UNKNOWN_RESEARCH_STATE''
            else if dget ev ''control_transfer_loop_closed'' \<noteq> PBool (rs = PStr ''CONTROL_TRANSFER_CANDIDATE'')
              then refuse ''CONTROL_TRANSFER_LOOP_CONTRADICTION''
            else if \<not> is_dict obs \<or> \<not> list_all (\<lambda>(k, x). is_str x) (dict_of obs) then refuse ''INVALID_CLASSIFIED_OBSERVATIONS''
            else ebind (evaluate_control_transfer_evidence (PDict (gate_evidence (dict_of obs)))) (\<lambda>canonical.
              if \<not> py_eq (PDict canonical) v then refuse ''RESEARCH_EVALUATION_CONTRACT_MISMATCH''
              else Inr (posture_result ''RESEARCH_POSTURE_REQUIRES_DOWNSTREAM_REVIEW'' (Some (str_of rs)))))))"

section \<open>What the gate accepts\<close>

lemma find_Nones: "List.find P xs = None \<longleftrightarrow> (\<forall>x \<in> set xs. \<not> P x)"
  by (auto simp: find_None_iff)

lemma first_invalid_None: "first_invalid raw fs = Inr None \<longleftrightarrow> (\<forall>f \<in> set fs. \<exists>s \<in> set OBSERVATION_STATES. dget raw f = PStr s)"
  by (induction fs) (auto simp: ebind_Inr_iff in_strs_Inr_True split: if_splits)

lemma map_of_map_keys: "map_of (map (\<lambda>f. (f, g f)) fs) k = (if k \<in> set fs then Some (g k) else None)"
  by (induction fs) auto

lemma dget_map: "k \<in> set fs \<Longrightarrow> dget (map (\<lambda>f. (f, g f)) fs) k = g k"
  by (simp add: dget_def map_of_map_keys)

lemma dget_normal: "f \<in> set (SEQUENCE @ [''invalidating_lower_low'']) \<Longrightarrow> dget (normal_observations raw) f = dget raw f"
  unfolding normal_observations_def by (rule dget_map)

lemma normal_again: "normal_observations (normal_observations raw) = normal_observations raw"
  unfolding normal_observations_def by (rule map_cong [OF refl]) (simp only: dget_map)

definition well_classified :: "dict \<Rightarrow> bool" where
  "well_classified raw \<longleftrightarrow> (\<forall>f \<in> set SEQUENCE. \<exists>s \<in> set OBSERVATION_STATES. dget raw f = PStr s)
     \<and> (\<exists>s \<in> set [''OBSERVED'', ''NOT_OBSERVED'', ''UNAVAILABLE'']. dget raw ''invalidating_lower_low'' = PStr s)
     \<and> first_contradiction (normal_observations raw) = None"

definition ready_result :: "dict \<Rightarrow> dict" where
  "ready_result obs = research_result ''READY_FOR_ANALYST'' (fst (classify_observations obs)) (snd (classify_observations obs)) obs"

lemma evaluate_well_classified:
  assumes "well_classified raw"
  shows "evaluate_observations raw = Inr (ready_result (normal_observations raw))"
proof -
  have "first_invalid raw SEQUENCE = Inr None"
    "in_strs (dget raw ''invalidating_lower_low'') [''OBSERVED'', ''NOT_OBSERVED'', ''UNAVAILABLE''] = Inr True"
    "first_contradiction (normal_observations raw) = None"
    using assms unfolding well_classified_def first_invalid_None in_strs_Inr_True by blast+
  then show ?thesis
    unfolding evaluate_observations_def ready_result_def Let_def by (simp split: prod.split)
qed

lemma evaluate_observations_Inr:
  assumes "evaluate_observations raw = Inr e"
  shows "(\<exists>r. e = blocked_evidence r) \<or> well_classified raw"
proof -
  obtain bad where bad: "first_invalid raw SEQUENCE = Inr bad"
    using assms by (auto simp only: evaluate_observations_def ebind_Inr_iff)
  show ?thesis
  proof (cases bad)
    case (Some f)
    then show ?thesis using assms bad by (auto simp: evaluate_observations_def)
  next
    case None
    then obtain ok where ok: "in_strs (dget raw ''invalidating_lower_low'') [''OBSERVED'', ''NOT_OBSERVED'', ''UNAVAILABLE''] = Inr ok"
      using assms bad by (auto simp only: evaluate_observations_def ebind_Inr_iff ebind.simps option.case)
    show ?thesis
    proof (cases "ok \<and> first_contradiction (normal_observations raw) = None")
      case True
      have "in_strs (dget raw ''invalidating_lower_low'') [''OBSERVED'', ''NOT_OBSERVED'', ''UNAVAILABLE''] = Inr True"
        using ok True by (simp only: simp_thms)
      with True bad None show ?thesis
        unfolding well_classified_def by (auto simp only: first_invalid_None in_strs_Inr_True)
    next
      case False
      with assms bad None ok show ?thesis
        by (cases ok) (auto simp: evaluate_observations_def Let_def)
    qed
  qed
qed

lemma blocked_not_ready: "dget (blocked_evidence r) ''state'' \<noteq> PStr ''READY_FOR_ANALYST''"
  by (simp add: blocked_evidence_def research_result_def)

lemma evaluate_observations_ready:
  "evaluate_observations raw = Inr e \<and> dget e ''state'' = PStr ''READY_FOR_ANALYST'' \<longleftrightarrow>
     well_classified raw \<and> e = ready_result (normal_observations raw)"
  using evaluate_observations_Inr [of raw e] evaluate_well_classified [of raw] blocked_not_ready
  by (auto simp: ready_result_def research_result_def)

lemma evaluate_gate_evidence:
  "evaluate_control_transfer_evidence (PDict (gate_evidence obs)) = evaluate_observations obs"
  by (simp add: evaluate_control_transfer_evidence_def gate_evidence_def AUTHORITY_FIELDS_def)

lemma evaluate_ready:
  assumes "evaluate_control_transfer_evidence v = Inr e" and "dget e ''state'' = PStr ''READY_FOR_ANALYST''"
  obtains raw where "evaluate_observations raw = Inr e"
  using assms
  by (auto simp: evaluate_control_transfer_evidence_def Let_def unavailable_evidence_def blocked_evidence_def research_result_def
      split: if_splits option.splits)

lemma classify_known: "map_of POSTURES (snd (classify_observations obs)) \<noteq> None"
  by (simp add: classify_observations_def Let_def POSTURES_def)

lemma py_eq_items_get: "py_eq_items a b \<Longrightarrow> dhas a k \<Longrightarrow> py_eq (dget a k) (dget b k)"
proof (induction a)
  case (Cons p a)
  then show ?case by (cases p) (auto simp: dget_def [of b] split: option.splits)
qed simp

lemma py_eq_dict_get: "py_eq (PDict a) v \<Longrightarrow> dhas a k \<Longrightarrow> py_eq (dget a k) (dget (dict_of v) k)"
  by (cases v) (auto simp: py_eq_items_get)

lemma py_eq_from_PStr: "py_eq (PStr s) v \<Longrightarrow> v = PStr s"
  by simp

lemma well_classified_normal: "well_classified raw \<Longrightarrow> well_classified (normal_observations raw)"
  by (auto simp: well_classified_def normal_again dget_normal)

lemma normal_observations_strings:
  assumes "well_classified raw" and "(k, x) \<in> set (normal_observations raw)"
  shows "is_str x"
  using assms unfolding normal_observations_def well_classified_def by (auto simp: is_str_iff)

lemma distinct_normal: "distinct (keys (normal_observations raw))"
  by (simp add: normal_observations_def keys_def SEQUENCE_def)

lemma wf_strings: "(\<And>k x. (k, x) \<in> set d \<Longrightarrow> is_str x) \<Longrightarrow> wf_items d \<and> nan_free_items d"
proof (induction d)
  case (Cons p d)
  then show ?case by (cases p) (fastforce simp: is_str_iff)
qed simp

lemma ready_result_reflexive:
  assumes "well_classified raw"
  shows "py_eq (PDict (ready_result (normal_observations raw))) (PDict (ready_result (normal_observations raw)))"
proof -
  have "wf_items (normal_observations raw) \<and> nan_free_items (normal_observations raw)"
    using normal_observations_strings [OF assms] by (rule wf_strings)
  then show ?thesis
    by (intro py_eq_refl) (simp_all add: ready_result_def research_result_def keys_def distinct_normal [unfolded keys_def])
qed

lemma ready_fields:
  "dget (ready_result obs) ''schema_version'' = PStr RESULT_SCHEMA_VERSION"
  "dget (ready_result obs) ''state'' = PStr ''READY_FOR_ANALYST''"
  "dget (ready_result obs) ''research_state'' = PStr (snd (classify_observations obs))"
  "dget (ready_result obs) ''observations'' = PDict obs"
  "dget (ready_result obs) ''control_transfer_loop_closed'' = PBool (snd (classify_observations obs) = ''CONTROL_TRANSFER_CANDIDATE'')"
  "List.find (\<lambda>f. dget (ready_result obs) f \<noteq> PStr ''NONE'') (AUTHORITY_FIELDS @ [''action_output'']) = None"
  "List.find (\<lambda>(f, x). \<not> dhas (ready_result obs) f \<or> dget (ready_result obs) f \<noteq> x) LOCKED_FLAGS = None"
  by (simp_all add: ready_result_def research_result_def AUTHORITY_FIELDS_def LOCKED_FLAGS_def)

lemma translate_ready_result:
  assumes "well_classified raw"
  shows "translate_research_state (PDict (ready_result (normal_observations raw)))
    = Inr (posture_result ''RESEARCH_POSTURE_REQUIRES_DOWNSTREAM_REVIEW'' (Some (snd (classify_observations (normal_observations raw)))))"
proof -
  have strs: "list_all (\<lambda>(k, x). is_str x) (normal_observations raw)"
    using normal_observations_strings [OF assms] by (auto simp: list_all_iff)
  have eval: "evaluate_observations (normal_observations raw) = Inr (ready_result (normal_observations raw))"
    using evaluate_well_classified [OF well_classified_normal [OF assms]] by (simp add: normal_again)
  show ?thesis
    unfolding translate_research_state_def Let_def dict_of.simps ready_fields is_dict.simps is_str.simps str_of.simps evaluate_gate_evidence
      option.case py_eq_PStr eval ebind.simps
    by (simp add: strs classify_known ready_result_reflexive [OF assms] del: py_eq.simps)
qed

lemma translate_Inr:
  assumes "translate_research_state v = Inr r"
  shows "(\<exists>reason. r = posture_result reason None) \<or>
    (\<exists>raw. well_classified raw \<and> dget (dict_of v) ''observations'' = PDict raw \<and> is_dict v
       \<and> py_eq (PDict (ready_result (normal_observations raw))) v
       \<and> r = posture_result ''RESEARCH_POSTURE_REQUIRES_DOWNSTREAM_REVIEW'' (Some (snd (classify_observations (normal_observations raw)))))"
proof (rule disjCI)
  let ?obs = "dict_of (dget (dict_of v) ''observations'')"
  assume no: "\<not> (\<exists>raw. well_classified raw \<and> dget (dict_of v) ''observations'' = PDict raw \<and> is_dict v
       \<and> py_eq (PDict (ready_result (normal_observations raw))) v
       \<and> r = posture_result ''RESEARCH_POSTURE_REQUIRES_DOWNSTREAM_REVIEW'' (Some (snd (classify_observations (normal_observations raw)))))"
  show "\<exists>reason. r = posture_result reason None"
  proof (rule ccontr)
    assume acc: "\<not> ?thesis"
    obtain e where v: "is_dict v" and ready: "dget (dict_of v) ''state'' = PStr ''READY_FOR_ANALYST''"
      and obs: "is_dict (dget (dict_of v) ''observations'')" and str: "is_str (dget (dict_of v) ''research_state'')"
      and e: "evaluate_observations ?obs = Inr e" and eq: "py_eq (PDict e) v"
      and r: "r = posture_result ''RESEARCH_POSTURE_REQUIRES_DOWNSTREAM_REVIEW'' (Some (str_of (dget (dict_of v) ''research_state'')))"
      using assms acc unfolding translate_research_state_def Let_def evaluate_gate_evidence
      by (auto simp: ebind_Inr_iff split: if_splits option.splits simp del: py_eq.simps(4))
    have "dhas e ''state''"
      using evaluate_observations_Inr [OF e] evaluate_well_classified e
      by (auto simp: ready_result_def blocked_evidence_def research_result_def)
    then have "dget e ''state'' = PStr ''READY_FOR_ANALYST''"
      using py_eq_dict_get [OF eq, of "''state''"] ready by simp
    then have wc: "well_classified ?obs" and res: "e = ready_result (normal_observations ?obs)"
      using e evaluate_observations_ready by blast+
    have "dhas e ''research_state''" by (simp add: res ready_result_def research_result_def)
    from py_eq_dict_get [OF eq this] have "dget (dict_of v) ''research_state'' = PStr (snd (classify_observations (normal_observations ?obs)))"
      unfolding res ready_fields by (rule py_eq_from_PStr)
    with no wc res eq v r obs show False by (auto simp: is_dict_iff [of "dget _ _"])
  qed
qed

lemma posture_locks:
  "dget (posture_result reason rs) ''final_eligibility'' = PStr ''NOT_DETERMINED''"
  "dget (posture_result reason rs) ''capital_decision_authority'' = PStr ''USER_ONLY''"
  "dget (posture_result reason rs) ''machine_execution'' = PStr ''FORBIDDEN''"
  "dget (posture_result reason rs) ''machine_may_execute_trade'' = PBool False"
  "dget (posture_result reason rs) ''external_action_performed'' = PBool False"
  by (simp_all add: posture_result_def AUTHORITY_FIELDS_def split: prod.split)

lemma posture_candidate:
  "dget (posture_result reason rs) ''posture_candidate''
     = PStr (case Option.bind rs (map_of POSTURES) of Some p \<Rightarrow> fst p | None \<Rightarrow> ''NONE'')"
  by (cases "Option.bind rs (map_of POSTURES)") (simp_all add: posture_result_def split: prod.split)

lemma classify_control_transfer:
  assumes "snd (classify_observations obs) = ''CONTROL_TRANSFER_CANDIDATE''"
  shows "(\<forall>f \<in> set SEQUENCE. confirmed obs f) \<and> dget obs ''invalidating_lower_low'' \<noteq> PStr ''OBSERVED''"
  using assms by (simp add: classify_observations_def Let_def SEQUENCE_def split: if_splits)

lemma reinforcement_state: "map_of POSTURES s = Some (''REINFORCEMENT'', eff) \<Longrightarrow> s = ''CONTROL_TRANSFER_CANDIDATE''"
  by (simp add: POSTURES_def split: if_splits)

lemma first_invalid_total: "(\<And>f. f \<in> set fs \<Longrightarrow> hashable (dget raw f)) \<Longrightarrow> \<exists>b. first_invalid raw fs = Inr b"
  by (induction fs) (auto simp: in_strs_def)

lemma evaluate_observations_total:
  assumes "\<And>f. hashable (dget raw f)"
  shows "\<exists>e. evaluate_observations raw = Inr e"
proof -
  obtain b where "first_invalid raw SEQUENCE = Inr b" using first_invalid_total assms by blast
  then show ?thesis using assms
    by (auto simp: evaluate_observations_def in_strs_def Let_def split: option.splits prod.splits)
qed

lemma strings_hashable: "list_all (\<lambda>(k, x). is_str x) d \<Longrightarrow> hashable (dget d f)"
  by (induction d) (auto simp: is_str_iff)

lemma translate_total: "\<exists>r. translate_research_state v = Inr r"
proof (cases "list_all (\<lambda>(k, x). is_str x) (dict_of (dget (dict_of v) ''observations''))")
  case True
  then obtain e where "evaluate_observations (dict_of (dget (dict_of v) ''observations'')) = Inr e"
    using evaluate_observations_total strings_hashable by blast
  then show ?thesis unfolding translate_research_state_def Let_def evaluate_gate_evidence
    by (auto split: option.split)
next
  case False
  then show ?thesis unfolding translate_research_state_def Let_def by (auto split: option.split)
qed

definition POSTURE_CANDIDATES :: "string list" where
  "POSTURE_CANDIDATES = [''NONE'', ''SCOUT'', ''BRIDGEHEAD'', ''REINFORCEMENT'']"

definition posture_typed :: "dict \<Rightarrow> bool" where
  "posture_typed r \<longleftrightarrow> wf_val (PDict r)
     \<and> (\<exists>c \<in> set POSTURE_CANDIDATES. dget r ''posture_candidate'' = PStr c)
     \<and> (dget r ''research_state'' = PNone \<and> dget r ''state'' = PStr ''POSTURE_TRANSLATION_BLOCKED''
          \<and> dget r ''posture_candidate'' = PStr ''NONE''
        \<or> (\<exists>s. dget r ''research_state'' = PStr s \<and> map_of POSTURES s \<noteq> None \<and> dget r ''state'' = PStr ''READY_FOR_ANALYST''))"

lemma postures_range: "map_of POSTURES s = Some p \<Longrightarrow> fst p \<in> set POSTURE_CANDIDATES"
  by (auto simp: POSTURES_def POSTURE_CANDIDATES_def split: if_splits)

lemma wf_items_strs: "wf_list (map PStr ss)"
  by (induction ss) auto

lemma posture_result_wf: "wf_val (PDict (posture_result reason rs))"
  by (auto simp: posture_result_def keys_def AUTHORITY_FIELDS_def wf_items_strs split: prod.split option.split)

lemma posture_state_fields:
  "dget (posture_result reason None) ''research_state'' = PNone"
  "dget (posture_result reason None) ''state'' = PStr ''POSTURE_TRANSLATION_BLOCKED''"
  "dget (posture_result reason (Some s)) ''research_state'' = PStr s"
  "dget (posture_result reason (Some s)) ''state'' = PStr ''READY_FOR_ANALYST''"
  by (simp_all add: posture_result_def split: prod.split)

lemma posture_result_typed:
  assumes "rs = None \<or> map_of POSTURES (the rs) \<noteq> None"
  shows "posture_typed (posture_result reason rs)"
proof (cases rs)
  case None
  then show ?thesis
    unfolding posture_typed_def by (simp only: posture_result_wf posture_candidate posture_state_fields) (simp add: POSTURE_CANDIDATES_def)
next
  case (Some s)
  then obtain p where "map_of POSTURES s = Some p" using assms by auto
  then show ?thesis
    unfolding posture_typed_def Some by (simp only: posture_result_wf posture_candidate posture_state_fields) (simp add: postures_range)
qed

section \<open>Properties\<close>

text \<open>C21: The gate is total on every value: it never raises, and what it returns is a well-formed
  posture: one of the four candidates, blocked with no research state and no candidate, or ready
  with a research state of the table.\<close>

theorem gate_total_and_typed: "\<exists>r. translate_research_state v = Inr r \<and> posture_typed r"
proof -
  obtain r where "translate_research_state v = Inr r" using translate_total by blast
  moreover from translate_Inr [OF this] have "posture_typed r"
    using classify_known by (auto intro!: posture_result_typed)
  ultimately show ?thesis by blast
qed

text \<open>C19: The gate accepts what the evaluator produces: every evaluation that is ready for the
  analyst, from whatever evidence, is translated into the posture of its own research state.\<close>

theorem gate_accepts_evaluator_results:
  assumes "evaluate_control_transfer_evidence v = Inr e" and "dget e ''state'' = PStr ''READY_FOR_ANALYST''"
  shows "translate_research_state (PDict e)
    = Inr (posture_result ''RESEARCH_POSTURE_REQUIRES_DOWNSTREAM_REVIEW'' (Some (str_of (dget e ''research_state''))))"
proof -
  obtain raw where "evaluate_observations raw = Inr e" using assms by (rule evaluate_ready)
  with assms(2) have "well_classified raw" "e = ready_result (normal_observations raw)"
    using evaluate_observations_ready by blast+
  then show ?thesis by (simp add: translate_ready_result ready_fields)
qed

definition closed_loop_evidence :: dict where
  "closed_loop_evidence = gate_evidence (map (\<lambda>f. (f, PStr ''CONFIRMED'')) SEQUENCE @ [(''invalidating_lower_low'', PStr ''NOT_OBSERVED'')])"

lemma closed_loop_evaluates:
  "\<exists>e. evaluate_control_transfer_evidence (PDict closed_loop_evidence) = Inr e \<and> dget e ''state'' = PStr ''READY_FOR_ANALYST''
     \<and> dget e ''research_state'' = PStr ''CONTROL_TRANSFER_CANDIDATE''"
  unfolding closed_loop_evidence_def evaluate_gate_evidence
  by (simp add: evaluate_observations_def SEQUENCE_def OBSERVATION_STATES_def normal_observations_def Let_def
      first_contradiction_def confirmed_def classify_observations_def research_result_def)

theorem gate_accepts_evaluator_results_witness:
  "\<exists>e. evaluate_control_transfer_evidence (PDict closed_loop_evidence) = Inr e \<and> translate_research_state (PDict e)
    = Inr (posture_result ''RESEARCH_POSTURE_REQUIRES_DOWNSTREAM_REVIEW'' (Some ''CONTROL_TRANSFER_CANDIDATE''))"
  using closed_loop_evaluates gate_accepts_evaluator_results [of "PDict closed_loop_evidence"] by fastforce

text \<open>C20: Whatever the gate is given, its result decides nothing and lets no machine act, and it names
  the reinforcement posture only for an evaluation whose observations confirm all five steps of the
  control transfer with no invalidating lower low.\<close>

theorem reinforcement_needs_closed_loop:
  assumes "translate_research_state v = Inr r"
  shows "dget r ''final_eligibility'' = PStr ''NOT_DETERMINED'' \<and> dget r ''machine_may_execute_trade'' = PBool False
      \<and> dget r ''machine_execution'' = PStr ''FORBIDDEN'' \<and> dget r ''capital_decision_authority'' = PStr ''USER_ONLY''
      \<and> (dget r ''posture_candidate'' = PStr ''REINFORCEMENT'' \<longrightarrow>
          (\<exists>raw. dget (dict_of v) ''observations'' = PDict raw \<and> (\<forall>f \<in> set SEQUENCE. dget raw f = PStr ''CONFIRMED'')
             \<and> dget raw ''invalidating_lower_low'' \<noteq> PStr ''OBSERVED''))"
proof -
  consider reason where "r = posture_result reason None"
    | raw where "dget (dict_of v) ''observations'' = PDict raw"
        "r = posture_result ''RESEARCH_POSTURE_REQUIRES_DOWNSTREAM_REVIEW'' (Some (snd (classify_observations (normal_observations raw))))"
    using translate_Inr [OF assms] by blast
  then show ?thesis
  proof cases
    case (2 raw)
    have "(\<forall>f \<in> set SEQUENCE. dget raw f = PStr ''CONFIRMED'') \<and> dget raw ''invalidating_lower_low'' \<noteq> PStr ''OBSERVED''"
      if c: "dget r ''posture_candidate'' = PStr ''REINFORCEMENT''"
    proof -
      have "snd (classify_observations (normal_observations raw)) = ''CONTROL_TRANSFER_CANDIDATE''"
        using c unfolding 2(2) posture_candidate by (auto split: option.splits intro: reinforcement_state)
      from classify_control_transfer [OF this] show ?thesis by (simp add: confirmed_def dget_normal)
    qed
    with 2 show ?thesis by (simp add: posture_locks)
  qed (simp add: posture_locks posture_candidate)
qed

theorem reinforcement_needs_closed_loop_witness:
  "\<exists>e r. evaluate_control_transfer_evidence (PDict closed_loop_evidence) = Inr e \<and> translate_research_state (PDict e) = Inr r
     \<and> dget r ''posture_candidate'' = PStr ''REINFORCEMENT'' \<and> dget r ''machine_may_execute_trade'' = PBool False
     \<and> (\<exists>raw. dget e ''observations'' = PDict raw \<and> dget raw ''higher_low'' = PStr ''CONFIRMED'')"
proof -
  obtain e raw where e: "evaluate_control_transfer_evidence (PDict closed_loop_evidence) = Inr e"
    "dget e ''state'' = PStr ''READY_FOR_ANALYST''" "dget e ''research_state'' = PStr ''CONTROL_TRANSFER_CANDIDATE''"
    and raw: "evaluate_observations raw = Inr e"
    using closed_loop_evaluates evaluate_ready by metis
  then have wc: "well_classified raw" "e = ready_result (normal_observations raw)"
    using evaluate_observations_ready by blast+
  define r where "r = posture_result ''RESEARCH_POSTURE_REQUIRES_DOWNSTREAM_REVIEW'' (Some ''CONTROL_TRANSFER_CANDIDATE'')"
  have t: "translate_research_state (PDict e) = Inr r"
    using translate_ready_result [OF wc(1)] e(3) unfolding wc(2) ready_fields r_def by simp
  have c: "dget r ''posture_candidate'' = PStr ''REINFORCEMENT''" by (simp add: r_def posture_candidate POSTURES_def)
  from reinforcement_needs_closed_loop [OF t] c e(1) t show ?thesis by (auto simp: SEQUENCE_def)
qed

end
