(* ===== verification/Liquidation_Store.thy ===== *)
theory Liquidation_Store
  imports Run_Ledger Commander_Plan
begin

text \<open>
  The liquidation store of \<^verbatim>\<open>liquidation_aggregator.py\<close>: normalisation of exchange
  forceOrder payloads, and the store of events, connection sessions and anomalies. A database
  table is the list of its rows in insertion order; its integer columns hold 64-bit values, and a
  wider one is refused when it is bound. The append-only JSONL files are lists of lines, each with
  the date that names its file. The exceptions of the interpreter itself carry abbreviated texts,
  and one class stands for every exception of a date out of range. The clock and a fresh session id
  are arguments.
\<close>

section \<open>Normalising a payload\<close>

definition STORE_SCHEMA_VERSION :: string where "STORE_SCHEMA_VERSION = ''CRT_LIQ_STORE_V1''"
definition EVENT_SCHEMA_VERSION :: string where "EVENT_SCHEMA_VERSION = ''CRT_LIQ_EVENT_V1''"
definition FUTURE_CLOCK_SKEW_MS :: int where "FUTURE_CLOCK_SKEW_MS = 300000"

definition liq_error :: "string \<Rightarrow> 'a res" where
  "liq_error m = Inl (Custom ''LiquidationError'' [m])"

definition unfilled_order :: exn where
  "unfilled_order = Custom ''_UnfilledOrder'' [''zero executed quantity; order snapshot excluded from trade notional'']"

definition liq_finite :: "pyval \<Rightarrow> string \<Rightarrow> bool \<Rightarrow> pyfloat res" where
  "liq_finite v field positive =
     (if v = PNone \<or> is_bool v then liq_error (field @ '' missing or invalid'')
      else (case py_float v of
          Inl (TypeError _) \<Rightarrow> liq_error (field @ '' not numeric'')
        | Inl (ValueError _) \<Rightarrow> liq_error (field @ '' not numeric'')
        | Inl e \<Rightarrow> Inl e
        | Inr x \<Rightarrow>
            if \<not> is_finite x then liq_error (field @ '' not finite'')
            else if positive \<and> fle x (Fin 0) then liq_error (field @ '' must be positive'')
            else Inr x))"

definition timestamp_ms :: "pyval \<Rightarrow> string \<Rightarrow> int res" where
  "timestamp_ms v field =
     ebind (liq_finite v field True) (\<lambda>x. ebind (py_int (PFloat x)) (\<lambda>n.
     if n < 1000000000000 then liq_error (field @ '' is not millisecond Unix time'') else Inr n))"

definition unwrap_force_order :: "pyval \<Rightarrow> dict res" where
  "unwrap_force_order v =
     (if \<not> is_dict v then liq_error ''forceOrder payload must be an object''
      else (let inner = dget (dict_of v) ''data''; row = (if is_dict inner then dict_of inner else dict_of v) in
        if \<not> py_eq (dget row ''e'') (PStr ''forceOrder'') then liq_error ''event type must be forceOrder''
        else if \<not> is_dict (dget row ''o'') then liq_error ''forceOrder order object missing''
        else Inr row))"

record liq_event =
  ev_hash :: string
  ev_time :: int
  ev_trade :: int
  ev_received :: int
  ev_symbol :: string
  ev_side :: string
  ev_liq_side :: string
  ev_price :: pyfloat
  ev_quantity :: pyfloat
  ev_notional :: pyfloat
  ev_out_of_order :: bool
  ev_raw :: dict

definition as_record :: "liq_event \<Rightarrow> dict" where
  "as_record ev =
     [(''schema_version'', PStr EVENT_SCHEMA_VERSION), (''event_hash'', PStr (ev_hash ev)),
      (''event_time_ms'', PInt (ev_time ev)), (''trade_time_ms'', PInt (ev_trade ev)),
      (''received_ms'', PInt (ev_received ev)), (''symbol'', PStr (ev_symbol ev)),
      (''order_side'', PStr (ev_side ev)), (''liquidation_side'', PStr (ev_liq_side ev)),
      (''price'', PFloat (ev_price ev)), (''filled_quantity'', PFloat (ev_quantity ev)),
      (''notional_usd'', PFloat (ev_notional ev)), (''out_of_order'', PBool (ev_out_of_order ev)),
      (''raw_payload'', PDict (ev_raw ev))]"

text \<open>The evidence of execution: the cumulative quantity, or else the last one.\<close>

definition fill_of :: "dict \<Rightarrow> string \<Rightarrow> pyfloat option res" where
  "fill_of order field =
     (if dhas order field then
        ebind (liq_finite (dget order field) (''o.'' @ field) False) (\<lambda>x.
        if flt x (Fin 0) then liq_error (''o.'' @ field @ '' must be nonnegative'') else Inr (Some x))
      else Inr None)"

definition fill_quantity :: "pyfloat option \<Rightarrow> pyfloat option \<Rightarrow> pyfloat res" where
  "fill_quantity z l =
     (case (z, l) of
       (None, None) \<Rightarrow> liq_error ''no executed quantity evidence available''
     | (Some a, Some b) \<Rightarrow>
         if flt a b then liq_error ''last filled quantity exceeds cumulative filled quantity'' else Inr a
     | (Some a, None) \<Rightarrow> Inr a
     | (None, Some b) \<Rightarrow> Inr b)"

definition executed_quantity :: "dict \<Rightarrow> pyfloat res" where
  "executed_quantity order =
     ebind (fill_of order ''z'') (\<lambda>z. ebind (fill_of order ''l'') (\<lambda>l. ebind (fill_quantity z l) (\<lambda>q.
     if feq q (Fin 0) then
       ebind (in_strs (dget order ''X'') [''NEW'', ''EXPIRED'', ''CANCELED'', ''PENDING_CANCEL'', ''REJECTED'']) (\<lambda>unfilled.
       if unfilled then Inl unfilled_order
       else liq_error ''zero executed quantity inconsistent with execution status'')
     else Inr q)))"

definition normalize_force_order :: "pyval \<Rightarrow> int \<Rightarrow> int option \<Rightarrow> liq_event res" where
  "normalize_force_order payload received_ms last_event_time_ms =
     ebind (unwrap_force_order payload) (\<lambda>row.
     (let order = dict_of (dget row ''o'') in
      if \<not> py_eq (dget order ''s'') (PStr ''BTCUSDT'') then liq_error ''forceOrder symbol must be BTCUSDT''
      else ebind (in_strs (dget order ''S'') [''BUY'', ''SELL'']) (\<lambda>known.
      if \<not> known then liq_error ''forceOrder side must be BUY or SELL''
      else ebind (timestamp_ms (dget row ''E'') ''E'') (\<lambda>event_time_ms.
      ebind (timestamp_ms (dget order ''T'') ''o.T'') (\<lambda>trade_time_ms.
      if received_ms + FUTURE_CLOCK_SKEW_MS < event_time_ms then liq_error ''event clock is implausibly in the future''
      else if received_ms + FUTURE_CLOCK_SKEW_MS < trade_time_ms then liq_error ''trade clock is implausibly in the future''
      else ebind (executed_quantity order) (\<lambda>quantity.
      ebind (liq_finite (dget order ''ap'') ''o.ap'' True) (\<lambda>price.
      ebind (liq_finite (PFloat (fmul price quantity)) ''executed quote notional'' True) (\<lambda>notional.
      Inr \<lparr>ev_hash = canonical_hash (PDict row), ev_time = event_time_ms, ev_trade = trade_time_ms,
           ev_received = received_ms, ev_symbol = str_of (dget order ''s''), ev_side = str_of (dget order ''S''),
           ev_liq_side = (if dget order ''S'' = PStr ''SELL'' then ''LONG'' else ''SHORT''),
           ev_price = price, ev_quantity = quantity, ev_notional = notional,
           ev_out_of_order = (case last_event_time_ms of None \<Rightarrow> False | Some t \<Rightarrow> event_time_ms < t),
           ev_raw = row\<rparr>))))))))"

section \<open>The store\<close>

record session =
  ss_id :: string
  ss_opened :: int
  ss_heartbeat :: int
  ss_closed :: "int option"
  ss_reason :: "string option"
  ss_reconnect :: int

record anomaly =
  an_type :: string
  an_observed :: int
  an_hash :: "string option"
  an_details :: string

type_synonym jsonl = "(string \<times> string) list"

record liq_store =
  st_events :: "liq_event list"
  st_sessions :: "session list"
  st_anomalies :: "anomaly list"
  st_raw_events :: jsonl
  st_raw_connections :: jsonl

definition empty_store :: liq_store where
  "empty_store = \<lparr>st_events = [], st_sessions = [], st_anomalies = [], st_raw_events = [], st_raw_connections = []\<rparr>"

text \<open>Binding integers to the statements of the database.\<close>

definition sql_ints :: "int list \<Rightarrow> unit res" where
  "sql_ints is = (if list_all (\<lambda>i. - (2 ^ 63) \<le> i \<and> i < 2 ^ 63) is then Inr () else Inl OverflowError)"

definition utc_date :: "int \<Rightarrow> string res" where
  "utc_date ms =
     (if - 62135596800000 \<le> ms \<and> ms < 253402300800000 then
        (case civil_of_days (ms div 86400000) of (y, m, d) \<Rightarrow>
          Inr (pad_left 4 (int_str y) @ ''-'' @ pad_left 2 (int_str m) @ ''-'' @ pad_left 2 (int_str d)))
      else Inl (ValueError ''year is out of range''))"

definition latest_event_time_ms :: "liq_store \<Rightarrow> int option" where
  "latest_event_time_ms st = (case map ev_time (st_events st) of [] \<Rightarrow> None | t # ts \<Rightarrow> Some (foldl max t ts))"

definition record_anomaly :: "string \<Rightarrow> int \<Rightarrow> string option \<Rightarrow> dict \<Rightarrow> liq_store \<Rightarrow> liq_store res" where
  "record_anomaly ty observed_ms h details st =
     ebind (sql_ints [observed_ms]) (\<lambda>_.
     Inr (st\<lparr>st_anomalies := st_anomalies st @ [\<lparr>an_type = ty, an_observed = observed_ms, an_hash = h,
                 an_details = json_text (PDict details)\<rparr>]\<rparr>))"

fun exn_class :: "exn \<Rightarrow> string" where
  "exn_class (ValueError _) = ''ValueError''"
| "exn_class (TypeError _) = ''TypeError''"
| "exn_class (KeyError _) = ''KeyError''"
| "exn_class IndexError = ''IndexError''"
| "exn_class AttributeError = ''AttributeError''"
| "exn_class OverflowError = ''OverflowError''"
| "exn_class ZeroDivisionError = ''ZeroDivisionError''"
| "exn_class (Custom c _) = c"

fun exn_str :: "exn \<Rightarrow> string" where
  "exn_str (ValueError m) = m"
| "exn_str (TypeError m) = m"
| "exn_str (KeyError k) = str_repr k"
| "exn_str (Custom _ ms) = join ''; '' ms"
| "exn_str _ = []"

definition ingest_anomaly :: "pyval \<Rightarrow> exn \<Rightarrow> string \<times> dict" where
  "ingest_anomaly payload e =
     (if e = unfilled_order then (''UNFILLED_ORDER_EXCLUDED'', [(''error'', PStr (exn_str e)), (''payload'', payload)])
      else (''INVALID_OR_CLOCK_ANOMALY'', [(''error'', PStr (exn_class e @ '': '' @ exn_str e)), (''payload'', payload)]))"

definition insert_event :: "liq_event \<Rightarrow> liq_store \<Rightarrow> bool res \<times> liq_store" where
  "insert_event ev st =
     (if ev_hash ev \<in> set (map ev_hash (st_events st)) then (Inr False, st)
      else (case utc_date (ev_time ev) of
          Inl e \<Rightarrow> (Inl e, st)
        | Inr day \<Rightarrow>
            (let st1 = st\<lparr>st_raw_events := st_raw_events st @ [(day, json_text (PDict (as_record ev)))]\<rparr> in
             case sql_ints [ev_time ev, ev_trade ev, ev_received ev] of
               Inl e \<Rightarrow> (Inl e, st1)
             | Inr _ \<Rightarrow> (Inr True, st1\<lparr>st_events := st_events st @ [ev]\<rparr>))))"

definition ingest_force_order :: "int \<Rightarrow> pyval \<Rightarrow> liq_store \<Rightarrow> bool res \<times> liq_store" where
  "ingest_force_order received payload st =
     (case normalize_force_order payload received (latest_event_time_ms st) of
       Inl e \<Rightarrow>
         (case ingest_anomaly payload e of (ty, details) \<Rightarrow>
          case record_anomaly ty received (if is_dict payload then Some (canonical_hash payload) else None) details st of
            Inl x \<Rightarrow> (Inl x, st)
          | Inr st' \<Rightarrow> (Inr False, st'))
     | Inr ev \<Rightarrow> insert_event ev st)"

section \<open>Sessions\<close>

definition find_session :: "string \<Rightarrow> liq_store \<Rightarrow> session option" where
  "find_session sid st = List.find (\<lambda>s. ss_id s = sid) (st_sessions st)"

definition update_session :: "string \<Rightarrow> (session \<Rightarrow> session) \<Rightarrow> liq_store \<Rightarrow> liq_store" where
  "update_session sid f st = st\<lparr>st_sessions := map (\<lambda>s. if ss_id s = sid then f s else s) (st_sessions st)\<rparr>"

definition begin_session :: "int \<Rightarrow> int \<Rightarrow> string option \<Rightarrow> string \<Rightarrow> liq_store \<Rightarrow> (string \<times> liq_store) res" where
  "begin_session opened reconnect_index session_id fresh st =
     (let sid = (case session_id of None \<Rightarrow> fresh | Some s \<Rightarrow> if s = [] then fresh else s) in
      ebind (sql_ints [opened, reconnect_index]) (\<lambda>_.
      if sid \<in> set (map ss_id (st_sessions st)) then Inl (Custom ''IntegrityError'' [''UNIQUE constraint failed: sessions.session_id''])
      else Inr (sid, st\<lparr>st_sessions := st_sessions st @ [\<lparr>ss_id = sid, ss_opened = opened, ss_heartbeat = opened,
                   ss_closed = None, ss_reason = None, ss_reconnect = reconnect_index\<rparr>]\<rparr>)))"

definition touch_session :: "string \<Rightarrow> int \<Rightarrow> liq_store \<Rightarrow> liq_store res" where
  "touch_session sid heartbeat st =
     (case find_session sid st of
       None \<Rightarrow> liq_error (''unknown session_id: '' @ sid)
     | Some s \<Rightarrow>
         if ss_closed s \<noteq> None then liq_error (''cannot heartbeat closed session: '' @ sid)
         else if heartbeat < ss_opened s then liq_error ''heartbeat before session open''
         else if heartbeat < ss_heartbeat s then liq_error ''heartbeat moved backwards''
         else ebind (sql_ints [heartbeat]) (\<lambda>_.
           Inr (update_session sid (\<lambda>s. s\<lparr>ss_heartbeat := heartbeat\<rparr>) st)))"

definition connection_record :: "session \<Rightarrow> int \<Rightarrow> string \<Rightarrow> dict" where
  "connection_record s closed_ms reason =
     [(''schema_version'', PStr ''CRT_LIQ_CONNECTION_INTERVAL_V1''), (''session_id'', PStr (ss_id s)),
      (''opened_ms'', PInt (ss_opened s)), (''closed_ms'', PInt closed_ms), (''close_reason'', PStr reason),
      (''reconnect_index'', PInt (ss_reconnect s))]"

definition append_connection :: "session \<Rightarrow> int \<Rightarrow> string \<Rightarrow> liq_store \<Rightarrow> unit res \<times> liq_store" where
  "append_connection s closed_ms reason st =
     (case utc_date closed_ms of
       Inl e \<Rightarrow> (Inl e, st)
     | Inr day \<Rightarrow> (Inr (), st\<lparr>st_raw_connections :=
           st_raw_connections st @ [(day, json_text (PDict (connection_record s closed_ms reason)))]\<rparr>))"

definition close_row :: "string \<Rightarrow> int \<Rightarrow> string \<Rightarrow> liq_store \<Rightarrow> liq_store" where
  "close_row sid closed_ms reason = update_session sid (\<lambda>s. s\<lparr>ss_closed := Some closed_ms, ss_reason := Some reason\<rparr>)"

text \<open>
  Recovery closes every open session at its last heartbeat in one transaction: an exception rolls
  the table back but not the lines already appended.
\<close>

fun recover_rows :: "session list \<Rightarrow> liq_store \<Rightarrow> unit res \<times> liq_store" where
  "recover_rows [] st = (Inr (), st)"
| "recover_rows (s # rows) st =
     (case append_connection s (ss_heartbeat s) ''ORPHANED_ON_RESTART''
             (close_row (ss_id s) (ss_heartbeat s) ''ORPHANED_ON_RESTART'' st) of
       (Inl e, st') \<Rightarrow> (Inl e, st')
     | (Inr _, st') \<Rightarrow> recover_rows rows st')"

definition recover_orphan_sessions :: "liq_store \<Rightarrow> nat res \<times> liq_store" where
  "recover_orphan_sessions st =
     (let rows = filter (\<lambda>s. ss_closed s = None) (st_sessions st) in
      case recover_rows rows st of
        (Inl e, st') \<Rightarrow> (Inl e, st'\<lparr>st_sessions := st_sessions st\<rparr>)
      | (Inr _, st') \<Rightarrow> (Inr (length rows), st'))"

definition end_session :: "string \<Rightarrow> int \<Rightarrow> string \<Rightarrow> liq_store \<Rightarrow> unit res \<times> liq_store" where
  "end_session sid closed_ms reason st =
     (case find_session sid st of
       None \<Rightarrow> (liq_error (''unknown session_id: '' @ sid), st)
     | Some s \<Rightarrow>
         if ss_closed s \<noteq> None then (liq_error (''session already closed: '' @ sid), st)
         else if closed_ms < ss_opened s then (liq_error ''session closed before it opened'', st)
         else (case sql_ints [closed_ms] of
             Inl e \<Rightarrow> (Inl e, st)
           | Inr _ \<Rightarrow> append_connection s closed_ms reason (close_row sid closed_ms reason st)))"

fun end_sessions :: "string list \<Rightarrow> int \<Rightarrow> string \<Rightarrow> liq_store \<Rightarrow> unit res \<times> liq_store" where
  "end_sessions [] closed_ms reason st = (Inr (), st)"
| "end_sessions (sid # sids) closed_ms reason st =
     (case end_session sid closed_ms reason st of
       (Inl e, st') \<Rightarrow> (Inl e, st')
     | (Inr _, st') \<Rightarrow> end_sessions sids closed_ms reason st')"

definition close_open_sessions :: "int \<Rightarrow> string \<Rightarrow> liq_store \<Rightarrow> nat res \<times> liq_store" where
  "close_open_sessions closed_ms reason st =
     (let sids = map ss_id (filter (\<lambda>s. ss_closed s = None) (st_sessions st)) in
      case end_sessions sids closed_ms reason st of
        (Inl e, st') \<Rightarrow> (Inl e, st')
      | (Inr _, st') \<Rightarrow> (Inr (length sids), st'))"

section \<open>What normalisation guarantees\<close>

definition positive_float :: "pyfloat \<Rightarrow> bool" where
  "positive_float x \<longleftrightarrow> is_finite x \<and> flt (Fin 0) x"

definition valid_event :: "liq_event \<Rightarrow> bool" where
  "valid_event ev \<longleftrightarrow> ev_symbol ev = ''BTCUSDT'' \<and> ev_side ev \<in> {''BUY'', ''SELL''}
     \<and> ev_liq_side ev = (if ev_side ev = ''SELL'' then ''LONG'' else ''SHORT'')
     \<and> positive_float (ev_price ev) \<and> positive_float (ev_quantity ev)
     \<and> ev_notional ev = fmul (ev_price ev) (ev_quantity ev) \<and> positive_float (ev_notional ev)
     \<and> 1000000000000 \<le> ev_time ev \<and> ev_time ev \<le> ev_received ev + FUTURE_CLOCK_SKEW_MS
     \<and> 1000000000000 \<le> ev_trade ev \<and> ev_trade ev \<le> ev_received ev + FUTURE_CLOCK_SKEW_MS
     \<and> ev_hash ev = canonical_hash (PDict (ev_raw ev))"

lemma liq_error_Inr [simp]: "liq_error m \<noteq> Inr y"
  by (simp add: liq_error_def)

lemma liq_guard_Inr: "(if b then liq_error e else m) = Inr y \<longleftrightarrow> \<not> b \<and> m = Inr y"
  by simp

lemma liq_finite_Inr:
  "liq_finite v field positive = Inr x \<longleftrightarrow>
     v \<noteq> PNone \<and> \<not> is_bool v \<and> py_float v = Inr x \<and> is_finite x \<and> (positive \<longrightarrow> flt (Fin 0) x)"
  by (cases x) (auto simp: liq_finite_def fle_def split: sum.splits exn.splits)

lemma timestamp_ms_bound: "timestamp_ms v field = Inr n \<Longrightarrow> 1000000000000 \<le> n"
  by (auto simp: timestamp_ms_def ebind_Inr_iff split: if_splits)

lemma fill_of_Inr: "fill_of order field = Inr (Some x) \<Longrightarrow> is_finite x \<and> \<not> flt x (Fin 0)"
  by (auto simp: fill_of_def ebind_Inr_iff liq_finite_Inr split: if_splits)

lemma fill_quantity_Inr: "fill_quantity z l = Inr q \<Longrightarrow> z = Some q \<or> l = Some q"
  by (auto simp: fill_quantity_def split: option.splits if_splits)

lemma executed_quantity_positive:
  assumes "executed_quantity order = Inr q"
  shows "positive_float q"
proof -
  obtain z l where "fill_of order ''z'' = Inr z" "fill_of order ''l'' = Inr l" "fill_quantity z l = Inr q" and nz: "\<not> feq q (Fin 0)"
    using assms by (auto simp: executed_quantity_def ebind_Inr_iff split: if_splits)
  then have "is_finite q \<and> \<not> flt q (Fin 0)" using fill_quantity_Inr fill_of_Inr by blast
  with nz show ?thesis by (cases q) (auto simp: positive_float_def)
qed

lemma normalize_valid:
  assumes "normalize_force_order payload r lst = Inr ev"
  shows "valid_event ev \<and> ev_received ev = r \<and> unwrap_force_order payload = Inr (ev_raw ev)"
proof -
  obtain row known t1 t2 q price notional where row: "unwrap_force_order payload = Inr row"
    and sym: "\<not> \<not> py_eq (dget (dict_of (dget row ''o'')) ''s'') (PStr ''BTCUSDT'')"
    and known: "\<not> \<not> known" and side: "in_strs (dget (dict_of (dget row ''o'')) ''S'') [''BUY'', ''SELL''] = Inr known"
    and t: "timestamp_ms (dget row ''E'') ''E'' = Inr t1" "timestamp_ms (dget (dict_of (dget row ''o'')) ''T'') ''o.T'' = Inr t2"
    and skew: "\<not> r + FUTURE_CLOCK_SKEW_MS < t1" "\<not> r + FUTURE_CLOCK_SKEW_MS < t2"
    and q: "executed_quantity (dict_of (dget row ''o'')) = Inr q"
    and price: "liq_finite (dget (dict_of (dget row ''o'')) ''ap'') ''o.ap'' True = Inr price"
    and notional: "liq_finite (PFloat (fmul price q)) ''executed quote notional'' True = Inr notional"
    and ev: "Inr \<lparr>ev_hash = canonical_hash (PDict row), ev_time = t1, ev_trade = t2,
           ev_received = r, ev_symbol = str_of (dget (dict_of (dget row ''o'')) ''s''),
           ev_side = str_of (dget (dict_of (dget row ''o'')) ''S''),
           ev_liq_side = (if dget (dict_of (dget row ''o'')) ''S'' = PStr ''SELL'' then ''LONG'' else ''SHORT''),
           ev_price = price, ev_quantity = q, ev_notional = notional,
           ev_out_of_order = (case lst of None \<Rightarrow> False | Some t \<Rightarrow> t1 < t), ev_raw = row\<rparr> = (Inr ev :: liq_event res)"
    using assms unfolding normalize_force_order_def Let_def ebind_Inr_iff liq_guard_Inr
    by (elim exE conjE) (rule that; assumption)
  have "notional = fmul price q" using notional by (simp add: liq_finite_Inr)
  moreover have "\<exists>s \<in> set [''BUY'', ''SELL'']. dget (dict_of (dget row ''o'')) ''S'' = PStr s"
    using side known in_strs_Inr_True by simp
  ultimately show ?thesis
    using row sym skew price notional timestamp_ms_bound [OF t(1)] timestamp_ms_bound [OF t(2)] executed_quantity_positive [OF q]
    unfolding ev [symmetric, unfolded sum.inject] valid_event_def by (auto simp: liq_finite_Inr positive_float_def)
qed

section \<open>The invariant of the store\<close>

definition session_ok :: "session \<Rightarrow> bool" where
  "session_ok s \<longleftrightarrow> ss_opened s \<le> ss_heartbeat s
     \<and> (case ss_closed s of None \<Rightarrow> ss_reason s = None | Some c \<Rightarrow> ss_opened s \<le> c \<and> ss_reason s \<noteq> None)"

definition event_filed :: "jsonl \<Rightarrow> liq_event \<Rightarrow> bool" where
  "event_filed ls ev \<longleftrightarrow> (\<exists>day. utc_date (ev_time ev) = Inr day \<and> (day, json_text (PDict (as_record ev))) \<in> set ls)"

definition events_ok :: "liq_event list \<Rightarrow> jsonl \<Rightarrow> bool" where
  "events_ok evs ls \<longleftrightarrow> distinct (map ev_hash evs) \<and> (\<forall>ev \<in> set evs. valid_event ev \<and> event_filed ls ev)"

definition sessions_ok :: "session list \<Rightarrow> bool" where
  "sessions_ok ss \<longleftrightarrow> distinct (map ss_id ss) \<and> (\<forall>s \<in> set ss. session_ok s)"

definition store_ok :: "liq_store \<Rightarrow> bool" where
  "store_ok st \<longleftrightarrow> events_ok (st_events st) (st_raw_events st) \<and> sessions_ok (st_sessions st)"

datatype liq_op =
    Ingest int pyval
  | Note string int "string option" dict
  | Begin int int "string option" string
  | Touch string int
  | Finish string int string
  | Recover
  | CloseOpen int string

text \<open>The store after one operation, whether it returns or raises.\<close>

fun store_step :: "liq_op \<Rightarrow> liq_store \<Rightarrow> liq_store" where
  "store_step (Ingest received payload) st = snd (ingest_force_order received payload st)"
| "store_step (Note ty tm h details) st = (case record_anomaly ty tm h details st of Inl _ \<Rightarrow> st | Inr st' \<Rightarrow> st')"
| "store_step (Begin opened reconnect sid fresh) st =
     (case begin_session opened reconnect sid fresh st of Inl _ \<Rightarrow> st | Inr (_, st') \<Rightarrow> st')"
| "store_step (Touch sid heartbeat) st = (case touch_session sid heartbeat st of Inl _ \<Rightarrow> st | Inr st' \<Rightarrow> st')"
| "store_step (Finish sid tm reason) st = snd (end_session sid tm reason st)"
| "store_step Recover st = snd (recover_orphan_sessions st)"
| "store_step (CloseOpen tm reason) st = snd (close_open_sessions tm reason st)"

lemma record_anomaly_Inr:
  "record_anomaly ty tm h details st = Inr st' \<Longrightarrow>
     st_events st' = st_events st \<and> st_sessions st' = st_sessions st \<and> st_raw_events st' = st_raw_events st"
  by (auto simp: record_anomaly_def ebind_Inr_iff)

lemma update_session_simps [simp]:
  "st_events (update_session sid f st) = st_events st" "st_raw_events (update_session sid f st) = st_raw_events st"
  "st_anomalies (update_session sid f st) = st_anomalies st"
  "st_sessions (update_session sid f st) = map (\<lambda>s. if ss_id s = sid then f s else s) (st_sessions st)"
  by (simp_all add: update_session_def)

lemma append_connection_simps [simp]:
  "st_events (snd (append_connection s c r st)) = st_events st" "st_raw_events (snd (append_connection s c r st)) = st_raw_events st"
  "st_anomalies (snd (append_connection s c r st)) = st_anomalies st" "st_sessions (snd (append_connection s c r st)) = st_sessions st"
  by (simp_all add: append_connection_def split: sum.split)

lemma close_row_simps [simp]:
  "st_events (close_row sid c r st) = st_events st" "st_raw_events (close_row sid c r st) = st_raw_events st"
  "st_anomalies (close_row sid c r st) = st_anomalies st"
  by (simp_all add: close_row_def)

lemma end_session_frame [simp]:
  "st_events (snd (end_session sid c r st)) = st_events st" "st_raw_events (snd (end_session sid c r st)) = st_raw_events st"
  "st_anomalies (snd (end_session sid c r st)) = st_anomalies st"
  by (simp_all add: end_session_def split: option.split sum.split)

lemma end_sessions_frame [simp]:
  "st_events (snd (end_sessions sids c r st)) = st_events st" "st_raw_events (snd (end_sessions sids c r st)) = st_raw_events st"
  "st_anomalies (snd (end_sessions sids c r st)) = st_anomalies st"
  by (induction sids arbitrary: st; simp split: prod.split sum.split; metis snd_conv end_session_frame)+

lemma close_open_snd: "snd (close_open_sessions c r st) = snd (end_sessions (map ss_id (filter (\<lambda>s. ss_closed s = None) (st_sessions st))) c r st)"
  by (simp add: close_open_sessions_def Let_def split: prod.split sum.split)

lemma recover_rows_frame [simp]:
  "st_events (snd (recover_rows rows st)) = st_events st" "st_raw_events (snd (recover_rows rows st)) = st_raw_events st"
  "st_anomalies (snd (recover_rows rows st)) = st_anomalies st"
  by (induction rows arbitrary: st; simp split: prod.split sum.split; metis snd_conv append_connection_simps close_row_simps)+

lemma recover_frame [simp]:
  "st_events (snd (recover_orphan_sessions st)) = st_events st" "st_raw_events (snd (recover_orphan_sessions st)) = st_raw_events st"
  "st_anomalies (snd (recover_orphan_sessions st)) = st_anomalies st"
  using recover_rows_frame [of "filter (\<lambda>s. ss_closed s = None) (st_sessions st)" st]
  by (cases "recover_rows (filter (\<lambda>s. ss_closed s = None) (st_sessions st)) st"; auto simp: recover_orphan_sessions_def split: sum.split)+

lemma begin_Inr:
  "begin_session opened k sid fresh st = Inr (i, st') \<Longrightarrow>
     st_events st' = st_events st \<and> st_raw_events st' = st_raw_events st \<and> st_anomalies st' = st_anomalies st
     \<and> i \<notin> set (map ss_id (st_sessions st))
     \<and> st_sessions st' = st_sessions st @ [\<lparr>ss_id = i, ss_opened = opened, ss_heartbeat = opened, ss_closed = None, ss_reason = None, ss_reconnect = k\<rparr>]"
  by (auto simp: begin_session_def Let_def ebind_Inr_iff split: if_splits)

lemma find_session_Some: "find_session sid st = Some s \<Longrightarrow> s \<in> set (st_sessions st) \<and> ss_id s = sid"
  by (auto simp: find_session_def find_Some_iff)

lemma touch_Inr:
  "touch_session sid t st = Inr st' \<Longrightarrow>
     \<exists>s. find_session sid st = Some s \<and> ss_closed s = None \<and> ss_opened s \<le> t \<and> ss_heartbeat s \<le> t
       \<and> st' = update_session sid (\<lambda>s. s\<lparr>ss_heartbeat := t\<rparr>) st"
  by (auto simp: touch_session_def ebind_Inr_iff split: option.splits if_splits)

lemma insert_event_cases:
  "(snd (insert_event ev st) = st \<and> fst (insert_event ev st) \<noteq> Inr True)
   \<or> (\<exists>ls. snd (insert_event ev st) = st\<lparr>st_raw_events := st_raw_events st @ ls\<rparr> \<and> fst (insert_event ev st) \<noteq> Inr True)
   \<or> (\<exists>day. ev_hash ev \<notin> set (map ev_hash (st_events st)) \<and> utc_date (ev_time ev) = Inr day \<and> fst (insert_event ev st) = Inr True
      \<and> snd (insert_event ev st) = st\<lparr>st_events := st_events st @ [ev], st_raw_events := st_raw_events st @ [(day, json_text (PDict (as_record ev)))]\<rparr>)"
proof (cases "utc_date (ev_time ev)")
  case (Inl e)
  then show ?thesis by (simp add: insert_event_def)
next
  case (Inr day)
  then show ?thesis
    by (cases "sql_ints [ev_time ev, ev_trade ev, ev_received ev]") (auto simp: insert_event_def Let_def)
qed

lemma event_filed_mono: "set ls \<subseteq> set ls' \<Longrightarrow> event_filed ls ev \<Longrightarrow> event_filed ls' ev"
  by (auto simp: event_filed_def)

lemma events_ok_append: "events_ok evs ls \<Longrightarrow> events_ok evs (ls @ ls')"
  by (auto simp: events_ok_def intro: event_filed_mono [of ls])

lemma events_ok_snoc:
  assumes "events_ok evs ls" and "valid_event ev" and "ev_hash ev \<notin> set (map ev_hash evs)" and "utc_date (ev_time ev) = Inr day"
  shows "events_ok (evs @ [ev]) (ls @ [(day, json_text (PDict (as_record ev)))])"
proof -
  have "event_filed (ls @ [(day, json_text (PDict (as_record ev)))]) ev" using assms(4) by (simp add: event_filed_def)
  with events_ok_append [OF assms(1)] assms(2,3) show ?thesis by (auto simp: events_ok_def)
qed

lemma insert_event_ok: "store_ok st \<Longrightarrow> valid_event ev \<Longrightarrow> store_ok (snd (insert_event ev st))"
  using insert_event_cases [of ev st] by (elim disjE exE conjE) (simp_all add: store_ok_def events_ok_append events_ok_snoc del: json_text.simps)

lemma ingest_refused:
  assumes "normalize_force_order p r (latest_event_time_ms st) = Inl e"
  shows "fst (ingest_force_order r p st) \<noteq> Inr True
    \<and> st_events (snd (ingest_force_order r p st)) = st_events st \<and> st_sessions (snd (ingest_force_order r p st)) = st_sessions st
    \<and> st_raw_events (snd (ingest_force_order r p st)) = st_raw_events st"
proof -
  obtain ty details where i: "ingest_anomaly p e = (ty, details)" by fastforce
  define h where "h = (if is_dict p then Some (canonical_hash p) else None)"
  show ?thesis
    using assms record_anomaly_Inr [of ty r h details st]
    by (cases "record_anomaly ty r h details st") (simp_all add: ingest_force_order_def i flip: h_def)
qed

lemma ingest_normal:
  "normalize_force_order p r (latest_event_time_ms st) = Inr ev \<Longrightarrow> ingest_force_order r p st = insert_event ev st"
  by (simp add: ingest_force_order_def)

lemma ingest_ok:
  assumes "store_ok st"
  shows "store_ok (snd (ingest_force_order r p st))"
proof (cases "normalize_force_order p r (latest_event_time_ms st)")
  case (Inl e)
  from ingest_refused [OF this] assms show ?thesis by (simp add: store_ok_def)
next
  case (Inr ev)
  then show ?thesis using assms normalize_valid [OF Inr] by (simp add: ingest_normal insert_event_ok)
qed

definition map_row :: "string \<Rightarrow> (session \<Rightarrow> session) \<Rightarrow> session list \<Rightarrow> session list" where
  "map_row sid f ss = map (\<lambda>s. if ss_id s = sid then f s else s) ss"

lemma map_row_ids: "(\<And>s. ss_id (f s) = ss_id s) \<Longrightarrow> map ss_id (map_row sid f ss) = map ss_id ss"
  by (induction ss) (auto simp: map_row_def)

lemma distinct_ids_eq: "distinct (map ss_id ss) \<Longrightarrow> s \<in> set ss \<Longrightarrow> s' \<in> set ss \<Longrightarrow> ss_id s = ss_id s' \<Longrightarrow> s = s'"
  by (auto simp: distinct_map dest: inj_onD)

text \<open>Updating one session keeps the invariant when the updated row is still a legal session.\<close>

lemma map_row_ok:
  assumes ok: "sessions_ok ss" and s: "s \<in> set ss" "ss_id s = sid" and f: "session_ok (f s)" "\<And>s. ss_id (f s) = ss_id s"
  shows "sessions_ok (map_row sid f ss)"
proof -
  have "session_ok (if ss_id t = sid then f t else t)" if "t \<in> set ss" for t
  proof (cases "ss_id t = sid")
    case True
    then have "t = s" using ok s that distinct_ids_eq [of ss t s] by (simp add: sessions_ok_def)
    with f(1) s(2) show ?thesis by simp
  next
    case False
    with ok that show ?thesis by (simp add: sessions_ok_def)
  qed
  then have "\<forall>t \<in> set ss. session_ok (if ss_id t = sid then f t else t)" by blast
  then have "\<forall>t \<in> set (map_row sid f ss). session_ok t" by (simp only: map_row_def set_map ball_simps)
  with ok f(2) show ?thesis by (simp add: sessions_ok_def map_row_ids)
qed

lemma update_session_ok:
  assumes "store_ok st" and "s \<in> set (st_sessions st)" "ss_id s = sid" and "session_ok (f s)" "\<And>s. ss_id (f s) = ss_id s"
  shows "store_ok (update_session sid f st)"
  using assms map_row_ok [of "st_sessions st" s sid f] by (simp add: store_ok_def map_row_def)

lemma store_session_ok: "store_ok st \<Longrightarrow> s \<in> set (st_sessions st) \<Longrightarrow> session_ok s"
  by (simp add: store_ok_def sessions_ok_def)

lemma touch_ok:
  assumes "store_ok st" and "touch_session sid t st = Inr st'"
  shows "store_ok st'"
proof -
  obtain s where s: "find_session sid st = Some s" "ss_closed s = None" "ss_opened s \<le> t"
    "st' = update_session sid (\<lambda>s. s\<lparr>ss_heartbeat := t\<rparr>) st"
    using touch_Inr [OF assms(2)] by blast
  moreover have "session_ok (s\<lparr>ss_heartbeat := t\<rparr>)"
    using s store_session_ok [OF assms(1), of s] find_session_Some [OF s(1)] by (simp add: session_ok_def)
  ultimately show ?thesis using assms(1) find_session_Some [OF s(1)] by (auto intro: update_session_ok)
qed

lemma close_row_ok:
  assumes "store_ok st" and "s \<in> set (st_sessions st)" and "ss_id s = sid" and "ss_opened s \<le> c"
  shows "store_ok (close_row sid c r st)"
  unfolding close_row_def
  by (rule update_session_ok [OF assms(1-3)]) (use store_session_ok [OF assms(1,2)] assms(4) in \<open>auto simp: session_ok_def\<close>)

lemma append_connection_ok: "store_ok (snd (append_connection s c r st)) \<longleftrightarrow> store_ok st"
  by (simp add: store_ok_def)

lemma end_session_ok: "store_ok st \<Longrightarrow> store_ok (snd (end_session sid c r st))"
  using find_session_Some [of sid st]
  by (auto simp: end_session_def append_connection_ok split: option.split sum.split intro: close_row_ok)

lemma end_sessions_ok: "store_ok st \<Longrightarrow> store_ok (snd (end_sessions sids c r st))"
proof (induction sids arbitrary: st)
  case (Cons sid sids)
  then show ?case using end_session_ok [of st sid c r] by (cases "end_session sid c r st") (auto split: sum.split)
qed simp

text \<open>Recovery keeps identities and opening times, so each row it closes is closed after it opened.\<close>

definition opened_in :: "session list \<Rightarrow> session \<Rightarrow> bool" where
  "opened_in ss s \<longleftrightarrow> ss_opened s \<le> ss_heartbeat s \<and> (\<exists>s' \<in> set ss. ss_id s' = ss_id s \<and> ss_opened s' = ss_opened s)"

lemma opened_in_close: "opened_in (st_sessions st) s \<Longrightarrow> opened_in (st_sessions (close_row sid c r st)) s"
proof -
  let ?g = "\<lambda>s. if ss_id s = sid then s\<lparr>ss_closed := Some c, ss_reason := Some r\<rparr> else s"
  assume o: "opened_in (st_sessions st) s"
  then obtain s' where "s' \<in> set (st_sessions st)" "ss_id s' = ss_id s" "ss_opened s' = ss_opened s"
    by (auto simp: opened_in_def)
  then have "?g s' \<in> set (st_sessions (close_row sid c r st))" "ss_id (?g s') = ss_id s" "ss_opened (?g s') = ss_opened s"
    by (simp_all add: close_row_def)
  with o show ?thesis unfolding opened_in_def by blast
qed

lemma recover_rows_ok:
  "store_ok st \<Longrightarrow> \<forall>s \<in> set rows. opened_in (st_sessions st) s \<Longrightarrow> store_ok (snd (recover_rows rows st))"
proof (induction rows arbitrary: st)
  case (Cons s rows)
  define st1 where "st1 = close_row (ss_id s) (ss_heartbeat s) ''ORPHANED_ON_RESTART'' st"
  define out where "out = append_connection s (ss_heartbeat s) ''ORPHANED_ON_RESTART'' st1"
  have "store_ok st1"
    unfolding st1_def using Cons.prems by (auto simp: opened_in_def intro: close_row_ok)
  then have ok: "store_ok (snd out)" by (simp add: out_def append_connection_ok)
  moreover have "\<forall>s \<in> set rows. opened_in (st_sessions (snd out)) s"
    using Cons.prems(2) by (simp add: out_def st1_def opened_in_close)
  ultimately show ?case using Cons.IH [OF ok]
    by (cases out) (auto simp flip: out_def st1_def split: sum.split)
qed simp

lemma recover_ok:
  assumes "store_ok st"
  shows "store_ok (snd (recover_orphan_sessions st))"
proof -
  let ?rows = "filter (\<lambda>s. ss_closed s = None) (st_sessions st)"
  have "store_ok (snd (recover_rows ?rows st))"
    using assms store_session_ok [OF assms] by (intro recover_rows_ok) (auto simp: opened_in_def session_ok_def)
  with assms show ?thesis using recover_rows_frame [of ?rows st]
    by (cases "recover_rows ?rows st") (auto simp: recover_orphan_sessions_def Let_def store_ok_def split: sum.split)
qed

lemma begin_ok: "store_ok st \<Longrightarrow> begin_session opened k sid fresh st = Inr (i, st') \<Longrightarrow> store_ok st'"
  by (drule begin_Inr) (auto simp: store_ok_def sessions_ok_def session_ok_def)

lemma note_ok: "store_ok st \<Longrightarrow> record_anomaly ty tm h details st = Inr st' \<Longrightarrow> store_ok st'"
  by (drule record_anomaly_Inr) (simp add: store_ok_def)

lemma store_step_ok: "store_ok st \<Longrightarrow> store_ok (store_step op st)"
  by (cases op)
    (auto simp: ingest_ok end_session_ok recover_ok close_open_snd end_sessions_ok
      split: sum.split prod.split intro: touch_ok begin_ok note_ok)

interpretation liq: guarded_machine "\<lambda>op st. Inr (store_step op st)" store_ok
  by unfold_locales (auto simp: store_step_ok)

lemma efold_total: "efold (\<lambda>x s. Inr (f x s)) xs s = Inr (fold f xs s)"
  by (induction xs arbitrary: s) auto

lemma liq_run: "liq.run ops st = Inr (fold store_step ops st)"
  unfolding liq.run_def by (rule efold_total)

lemma empty_store_ok: "store_ok empty_store"
  by (simp add: store_ok_def empty_store_def events_ok_def sessions_ok_def)

section \<open>Events are never lost and never counted twice\<close>

lemma ingest_events_grow: "set (st_events st) \<subseteq> set (st_events (snd (ingest_force_order r p st)))"
proof (cases "normalize_force_order p r (latest_event_time_ms st)")
  case (Inl e)
  from ingest_refused [OF this] show ?thesis by simp
next
  case (Inr ev)
  show ?thesis using insert_event_cases [of ev st] unfolding ingest_normal [OF Inr] by auto
qed

lemma store_step_events: "set (st_events st) \<subseteq> set (st_events (store_step op st))"
  by (cases op)
    (use ingest_events_grow in \<open>auto simp: close_open_snd split: sum.split prod.split dest!: record_anomaly_Inr touch_Inr begin_Inr\<close>)

lemma fold_step_events: "set (st_events st) \<subseteq> set (st_events (fold store_step ops st))"
proof (induction ops arbitrary: st)
  case (Cons op ops)
  then show ?case using store_step_events [of st op] by fastforce
qed simp

lemma ingest_accepts:
  assumes "fst (ingest_force_order r p st) = Inr True"
  shows "\<exists>ev \<in> set (st_events (snd (ingest_force_order r p st))). unwrap_force_order p = Inr (ev_raw ev) \<and> ev_hash ev = canonical_hash (PDict (ev_raw ev))"
proof (cases "normalize_force_order p r (latest_event_time_ms st)")
  case (Inl e)
  from ingest_refused [OF this] assms show ?thesis by simp
next
  case (Inr ev)
  have "valid_event ev \<and> unwrap_force_order p = Inr (ev_raw ev)" using normalize_valid [OF Inr] by blast
  then show ?thesis
    using assms insert_event_cases [of ev st] unfolding ingest_normal [OF Inr] by (auto simp: valid_event_def)
qed

lemma ingest_known:
  assumes ev: "ev \<in> set (st_events st)" and p: "unwrap_force_order p = Inr (ev_raw ev)" and h: "ev_hash ev = canonical_hash (PDict (ev_raw ev))"
  shows "fst (ingest_force_order r p st) \<noteq> Inr True \<and> st_events (snd (ingest_force_order r p st)) = st_events st"
proof (cases "normalize_force_order p r (latest_event_time_ms st)")
  case (Inl e)
  from ingest_refused [OF this] show ?thesis by simp
next
  case (Inr ev')
  then have "valid_event ev'" "unwrap_force_order p = Inr (ev_raw ev')" using normalize_valid by blast+
  then have "ev_hash ev' = ev_hash ev" using p h by (simp add: valid_event_def)
  then show ?thesis using ev by (auto simp: ingest_normal [OF Inr] insert_event_def)
qed

section \<open>Properties\<close>

text \<open>C22: Whatever is ingested and however sessions are begun, touched, ended, recovered or closed, in
  any order and with any of these calls failing, the store keeps its invariant: the events have
  pairwise different hashes, each is a well-formed BTCUSDT execution whose hash is that of its
  payload, whose notional is price times filled quantity, positive and finite, whose clocks are at
  most five minutes ahead of its receipt, and which has its line in the raw file of its day; the
  sessions have pairwise different ids and none has a heartbeat or a close before it opened.\<close>

theorem liquidation_store_invariant: "store_ok (fold store_step ops empty_store)"
  by (rule liq.run_inv [OF liq_run empty_store_ok])

text \<open>C23: An event is counted once: when a payload has been accepted, then after any further operations
  delivering it again, at any clock, is not accepted and leaves the events as they are; and no
  operation removes an event.\<close>

theorem redelivery_not_counted:
  fixes ops :: "liq_op list"
  assumes "fst (ingest_force_order r p st) = Inr True"
  defines "st' \<equiv> fold store_step ops (snd (ingest_force_order r p st))"
  shows "fst (ingest_force_order r' p st') \<noteq> Inr True \<and> st_events (snd (ingest_force_order r' p st')) = st_events st'
    \<and> set (st_events st) \<subseteq> set (st_events st')"
proof -
  obtain ev where ev: "ev \<in> set (st_events (snd (ingest_force_order r p st)))" "unwrap_force_order p = Inr (ev_raw ev)"
    "ev_hash ev = canonical_hash (PDict (ev_raw ev))"
    using ingest_accepts [OF assms(1)] by blast
  then have "ev \<in> set (st_events st')" unfolding st'_def using fold_step_events by blast
  from ingest_known [OF this ev(2,3)] show ?thesis
    unfolding st'_def using fold_step_events ingest_events_grow by blast
qed

definition demo_force_order :: pyval where
  "demo_force_order = PDict [(''e'', PStr ''forceOrder''), (''E'', PInt 1700000000000),
     (''o'', PDict [(''s'', PStr ''BTCUSDT''), (''S'', PStr ''SELL''), (''T'', PInt 1700000000000), (''z'', PInt 2), (''ap'', PInt 64000)])]"

lemma demo_normalizes:
  "\<exists>ev. normalize_force_order demo_force_order 1700000000000 None = Inr ev \<and> ev_time ev = 1700000000000
     \<and> ev_trade ev = 1700000000000 \<and> ev_received ev = 1700000000000 \<and> ev_notional ev = Fin 128000 \<and> ev_liq_side ev = ''LONG''"
  by (simp add: demo_force_order_def normalize_force_order_def unwrap_force_order_def timestamp_ms_def liq_finite_def float_of_int_def
      executed_quantity_def fill_of_def fill_quantity_def FUTURE_CLOCK_SKEW_MS_def fle_def Let_def)

lemma demo_ingested: "fst (ingest_force_order 1700000000000 demo_force_order empty_store) = Inr True"
proof -
  obtain ev where ev: "normalize_force_order demo_force_order 1700000000000 (latest_event_time_ms empty_store) = Inr ev"
    "ev_time ev = 1700000000000" "ev_trade ev = 1700000000000" "ev_received ev = 1700000000000"
    using demo_normalizes by (auto simp: latest_event_time_ms_def empty_store_def)
  then show ?thesis
    by (simp add: ingest_force_order_def insert_event_def empty_store_def utc_date_def sql_ints_def split: prod.split)
qed

theorem redelivery_not_counted_witness:
  "fst (ingest_force_order 1700000000000 demo_force_order empty_store) = Inr True
   \<and> fst (ingest_force_order 1700000000500 demo_force_order (snd (ingest_force_order 1700000000000 demo_force_order empty_store))) \<noteq> Inr True"
  using demo_ingested redelivery_not_counted [of 1700000000000 demo_force_order empty_store 1700000000500 "[]"] by simp

end
