(* ===== verification/Liquidation_Snapshot.thy ===== *)
theory Liquidation_Snapshot
  imports Liquidation_Store "HOL-Library.Product_Lexorder"
begin

text \<open>
  The snapshots of \<^verbatim>\<open>liquidation_aggregator.py\<close>: what of the store is visible at a
  cutoff, the merge of connection intervals, the two windows and the sealed snapshot. The sum of
  floats is the compensated one of Python 3.12 and later. Whether the database passes its integrity
  check is an argument.
\<close>

section \<open>Sums of floats\<close>

definition cs_add :: "pyfloat \<times> pyfloat \<Rightarrow> pyfloat \<Rightarrow> pyfloat \<times> pyfloat" where
  "cs_add acc x =
     (let hi = fst acc; t = fadd hi x in
      (t, fadd (snd acc) (if fle (fabs x) (fabs hi) then fadd (fsub hi t) x else fadd (fsub x t) hi)))"

definition cs_value :: "pyfloat \<times> pyfloat \<Rightarrow> pyfloat" where
  "cs_value acc = (if snd acc \<noteq> Fin 0 \<and> is_finite (snd acc) then fadd (fst acc) (snd acc) else fst acc)"

fun sum_floats :: "pyfloat list \<Rightarrow> pyval" where
  "sum_floats [] = PInt 0"
| "sum_floats (x # xs) = PFloat (cs_value (foldl cs_add (fadd (Fin 0) x, Fin 0) xs))"

fun num_add :: "pyval \<Rightarrow> pyval \<Rightarrow> pyval" where
  "num_add (PInt i) (PInt j) = PInt (i + j)"
| "num_add a b = PFloat (fadd (num_val a) (num_val b))"

section \<open>What is visible at a cutoff\<close>

definition events_between :: "int \<Rightarrow> int \<Rightarrow> liq_store \<Rightarrow> liq_event list res" where
  "events_between start_ms end_ms st =
     ebind (sql_ints [start_ms, end_ms]) (\<lambda>_.
     Inr (sort_key (\<lambda>ev. (ev_time ev, ev_hash ev))
       (filter (\<lambda>ev. start_ms < ev_time ev \<and> ev_time ev \<le> end_ms \<and> ev_received ev \<le> end_ms) (st_events st))))"

definition effective_closed :: "int \<Rightarrow> session \<Rightarrow> int" where
  "effective_closed end_ms s =
     (case ss_closed s of
       Some c \<Rightarrow> if c \<le> end_ms then c else if ss_heartbeat s \<le> end_ms then ss_heartbeat s else ss_opened s
     | None \<Rightarrow> if ss_heartbeat s \<le> end_ms then ss_heartbeat s else ss_opened s)"

definition clip :: "int \<Rightarrow> int \<Rightarrow> session \<Rightarrow> int \<times> int \<times> string" where
  "clip start_ms end_ms s = (max start_ms (ss_opened s), min end_ms (effective_closed end_ms s), ss_id s)"

definition intervals_overlapping :: "int \<Rightarrow> int \<Rightarrow> liq_store \<Rightarrow> (int \<times> int \<times> string) list res" where
  "intervals_overlapping start_ms end_ms st =
     ebind (sql_ints [start_ms, end_ms]) (\<lambda>_.
     Inr (filter (\<lambda>(a, b, i). a < b) (map (clip start_ms end_ms)
       (sort_key (\<lambda>s. (ss_opened s, effective_closed end_ms s))
         (filter (\<lambda>s. ss_opened s < end_ms \<and> start_ms < effective_closed end_ms s) (st_sessions st))))))"

definition anomalies_between :: "int \<Rightarrow> int \<Rightarrow> liq_store \<Rightarrow> anomaly list res" where
  "anomalies_between start_ms end_ms st =
     ebind (sql_ints [start_ms, end_ms]) (\<lambda>_.
     Inr (sort_key an_observed (filter (\<lambda>a. start_ms < an_observed a \<and> an_observed a \<le> end_ms) (st_anomalies st))))"

section \<open>Merging intervals\<close>

definition merge_step :: "(int \<times> int) list \<Rightarrow> int \<times> int \<Rightarrow> (int \<times> int) list" where
  "merge_step merged x =
     (if merged = [] \<or> snd (last merged) < fst x then merged @ [x]
      else butlast merged @ [(fst (last merged), max (snd (last merged)) (snd x))])"

definition merge_intervals :: "(int \<times> int \<times> string) list \<Rightarrow> (int \<times> int) list" where
  "merge_intervals intervals =
     foldl merge_step [] (sort (map (\<lambda>(a, b, i). (a, b)) (filter (\<lambda>(a, b, i). a < b) intervals)))"

section \<open>Windows\<close>

record liq_window =
  wn_label :: string
  wn_start :: int
  wn_end :: int
  wn_long :: pyval
  wn_short :: pyval
  wn_total :: pyval
  wn_coverage :: pyfloat
  wn_covered :: int
  wn_gap :: int
  wn_hashes :: "string list"
  wn_merged :: "(int \<times> int) list"

definition side_total :: "string \<Rightarrow> liq_event list \<Rightarrow> pyval" where
  "side_total side rows = sum_floats (map ev_notional (filter (\<lambda>ev. ev_liq_side ev = side) rows))"

definition covered_total :: "(int \<times> int) list \<Rightarrow> int" where
  "covered_total merged = sum_list (map (\<lambda>(a, b). b - a) merged)"

definition window_summary :: "liq_store \<Rightarrow> string \<Rightarrow> int \<Rightarrow> int \<Rightarrow> liq_window res" where
  "window_summary st label seconds as_of_ms =
     (let start_ms = as_of_ms - seconds * 1000 in
      ebind (events_between start_ms as_of_ms st) (\<lambda>rows.
      ebind (intervals_overlapping start_ms as_of_ms st) (\<lambda>intervals.
      (let long = side_total ''LONG'' rows; short = side_total ''SHORT'' rows;
           merged = merge_intervals intervals; covered_ms = covered_total merged
       in Inr \<lparr>wn_label = label, wn_start = start_ms, wn_end = as_of_ms, wn_long = long, wn_short = short,
            wn_total = num_add long short, wn_coverage = to_float (of_int covered_ms / of_int (seconds * 1000)),
            wn_covered = covered_ms, wn_gap = seconds * 1000 - covered_ms, wn_hashes = map ev_hash rows,
            wn_merged = merged\<rparr>))))"

definition public_window :: "liq_window \<Rightarrow> pyval" where
  "public_window w = PDict
     [(''window_start_ms'', PInt (wn_start w)), (''window_end_ms'', PInt (wn_end w)),
      (''long_liquidation_usd'', wn_long w), (''short_liquidation_usd'', wn_short w),
      (''total_liquidation_usd'', wn_total w), (''event_count'', PInt (int (length (wn_hashes w)))),
      (''coverage_ratio'', PFloat (wn_coverage w)), (''covered_ms'', PInt (wn_covered w)),
      (''gap_ms'', PInt (wn_gap w)), (''quiet_window'', PBool (wn_hashes w = []))]"

definition interval_list :: "liq_window \<Rightarrow> pyval" where
  "interval_list w = PList (map (\<lambda>(a, b). PList [PInt a, PInt b]) (wn_merged w))"

section \<open>The snapshot\<close>

text \<open>The text of a number between 0 and 1 at two decimals.\<close>

definition fixed2 :: "pyval \<Rightarrow> string" where
  "fixed2 v = (let n = round_half_even (the_rat (num_val v) * 100) in
     int_str (n div 100) @ ''.'' @ pad_left 2 (int_str (n mod 100)))"

definition coverage_blocker :: "pyval \<Rightarrow> liq_window \<Rightarrow> string list" where
  "coverage_blocker minimum w =
     (if num_lt (PFloat (wn_coverage w)) minimum then [upper (wn_label w) @ ''_COVERAGE_BELOW_'' @ fixed2 minimum] else [])"

definition fmin :: "pyfloat \<Rightarrow> pyfloat \<Rightarrow> pyfloat" where
  "fmin a b = (if flt b a then b else a)"

definition snapshot_blockers :: "bool \<Rightarrow> pyval \<Rightarrow> liq_window \<Rightarrow> liq_window \<Rightarrow> anomaly list \<Rightarrow> string list" where
  "snapshot_blockers integrity_ok minimum w1 w24 anomalies =
     (if integrity_ok then [] else [''STORE_INTEGRITY_FAILED''])
     @ coverage_blocker minimum w1 @ coverage_blocker minimum w24
     @ (if anomalies = [] then [] else [''CLOCK_OR_SCHEMA_ANOMALY_WITHIN_24H''])"

definition snapshot_base :: "int \<Rightarrow> pyval \<Rightarrow> liq_window \<Rightarrow> liq_window \<Rightarrow> string list \<Rightarrow> nat \<Rightarrow> dict" where
  "snapshot_base as_of minimum w1 w24 blocked anomaly_count =
     (let event_hashes = sort (remdups (wn_hashes w24)) in
      [(''schema_version'', PStr SNAPSHOT_SCHEMA_VERSION), (''store_schema_version'', PStr STORE_SCHEMA_VERSION),
       (''symbol'', PStr ''BTCUSDT''), (''as_of_ms'', PInt as_of), (''generated_at_ms'', PInt as_of),
       (''minimum_coverage_ratio'', minimum), (''coverage_ratio'', PFloat (fmin (wn_coverage w1) (wn_coverage w24))),
       (''quality_state'', PStr (if blocked = [] then ''VALID_FRESH_COMPLETE_COVERAGE'' else ''BLOCKED'')),
       (''blocked_reasons'', PList (map PStr (sort (remdups blocked)))),
       (''windows'', PDict [(''1h'', public_window w1), (''24h'', public_window w24)]),
       (''event_set_hash'', PStr (canonical_hash (PList (map PStr event_hashes)))),
       (''connection_set_hash'', PStr (canonical_hash (PDict [(''1h'', interval_list w1), (''24h'', interval_list w24)]))),
       (''event_count_24h'', PInt (int (length event_hashes))), (''anomaly_count_24h'', PInt (int anomaly_count)),
       (''external_action_authority'', PStr EXTERNAL_ACTION_AUTHORITY), (''external_action_performed'', PBool False)])"

definition seal_snapshot :: "dict \<Rightarrow> dict" where
  "seal_snapshot base =
     (let identified = base @ [(''snapshot_id'', PStr (canonical_hash (PDict base)))]
      in identified @ [(''snapshot_hash'', PStr (canonical_hash (PDict identified)))])"

definition build_snapshot :: "bool \<Rightarrow> int \<Rightarrow> pyval \<Rightarrow> liq_store \<Rightarrow> dict res" where
  "build_snapshot integrity_ok as_of minimum st =
     ebind (py_le (PInt 0) minimum) (\<lambda>low. ebind (if low then py_le minimum (PInt 1) else Inr False) (\<lambda>in_range.
     if \<not> in_range then liq_error ''minimum_coverage_ratio must be between 0 and 1''
     else ebind (window_summary st ''1h'' 3600 as_of) (\<lambda>w1. ebind (window_summary st ''24h'' 86400 as_of) (\<lambda>w24.
     ebind (anomalies_between (as_of - 86400000) as_of st) (\<lambda>rows.
     (let anomalies = filter (\<lambda>a. an_type a \<noteq> ''UNFILLED_ORDER_EXCLUDED'') rows;
          blocked = snapshot_blockers integrity_ok minimum w1 w24 anomalies
      in Inr (seal_snapshot (snapshot_base as_of minimum w1 w24 blocked (length anomalies)))))))))"

text \<open>The snapshot file: \<open>None\<close> when there is none or it holds no JSON.\<close>

definition write_snapshot :: "pyval \<Rightarrow> pyval option res" where
  "write_snapshot v = ebind (verify_snapshot v) (\<lambda>_. Inr (Some (json_reload v)))"

definition load_verified_snapshot :: "pyval option \<Rightarrow> pyval res" where
  "load_verified_snapshot snapshot_file =
     (case snapshot_file of
       None \<Rightarrow> Inl (ValueError ''Expecting value'')
     | Some v \<Rightarrow> ebind (verify_snapshot v) (\<lambda>_. Inr v))"

section \<open>The merge covers exactly what the intervals cover\<close>

definition extent :: "int \<times> int \<Rightarrow> int set" where
  "extent p = {fst p ..< snd p}"

definition extents :: "(int \<times> int) list \<Rightarrow> int set" where
  "extents ps = (\<Union>p \<in> set ps. extent p)"

text \<open>Non-empty intervals in order, with a gap between any two.\<close>

definition separated :: "(int \<times> int) list \<Rightarrow> bool" where
  "separated ps \<longleftrightarrow> (\<forall>p \<in> set ps. fst p < snd p) \<and> sorted_wrt (\<lambda>p q. snd p < fst q) ps"

lemma extents_simps [simp]: "extents [] = {}" "extents (p # ps) = extent p \<union> extents ps" "extents (ps @ qs) = extents ps \<union> extents qs"
  by (auto simp: extents_def)

lemma separated_snoc: "separated (ps @ [p]) \<longleftrightarrow> separated ps \<and> fst p < snd p \<and> (\<forall>q \<in> set ps. snd q < fst p)"
  by (auto simp: separated_def sorted_wrt_append)

lemma separated_Cons: "separated (p # ps) \<longleftrightarrow> separated ps \<and> fst p < snd p \<and> (\<forall>q \<in> set ps. snd p < fst q)"
  by (auto simp: separated_def)

lemma merge_step_snoc:
  "merge_step (ms @ [m]) x = (if snd m < fst x then ms @ [m, x] else ms @ [(fst m, max (snd m) (snd x))])"
  by (simp add: merge_step_def)

lemma separated_below_last: "separated (ms @ [m]) \<Longrightarrow> p \<in> set (ms @ [m]) \<Longrightarrow> snd p \<le> snd m"
  by (auto simp: separated_snoc)

lemma merge_step_correct:
  assumes "separated ms" and "fst x < snd x" and "ms \<noteq> [] \<Longrightarrow> fst (last ms) \<le> fst x"
  shows "separated (merge_step ms x) \<and> extents (merge_step ms x) = extents ms \<union> extent x
    \<and> merge_step ms x \<noteq> [] \<and> fst (last (merge_step ms x)) \<le> fst x"
proof (cases ms rule: rev_cases)
  case Nil
  with assms(2) show ?thesis by (simp add: merge_step_def separated_def)
next
  case (snoc ms' m)
  show ?thesis
  proof (cases "snd m < fst x")
    case True
    have "\<forall>q \<in> set ms. snd q < fst x"
      using True assms(1) unfolding snoc by (auto dest!: separated_below_last)
    then have "separated (ms @ [x])" using assms(1,2) by (simp add: separated_snoc)
    with True show ?thesis unfolding snoc merge_step_snoc by (auto simp: extent_def)
  next
    case False
    with assms show ?thesis unfolding snoc merge_step_snoc by (auto simp: separated_snoc extent_def)
  qed
qed

lemma foldl_merge_correct:
  assumes "separated ms" and "\<forall>x \<in> set xs. fst x < snd x" and "sorted_wrt (\<lambda>x y. fst x \<le> fst y) xs"
    and "ms \<noteq> [] \<Longrightarrow> \<forall>x \<in> set xs. fst (last ms) \<le> fst x"
  shows "separated (foldl merge_step ms xs) \<and> extents (foldl merge_step ms xs) = extents ms \<union> extents xs"
  using assms
proof (induction xs arbitrary: ms)
  case (Cons x xs)
  have step: "separated (merge_step ms x)" "extents (merge_step ms x) = extents ms \<union> extent x" "fst (last (merge_step ms x)) \<le> fst x"
    using merge_step_correct [of ms x] Cons.prems by auto
  have "separated (foldl merge_step (merge_step ms x) xs) \<and> extents (foldl merge_step (merge_step ms x) xs) = extents (merge_step ms x) \<union> extents xs"
    using Cons.prems step(3) by (intro Cons.IH [OF step(1)]) auto
  with step show ?case by auto
qed simp

lemma merge_intervals_correct:
  "separated (merge_intervals ivs) \<and> extents (merge_intervals ivs) = extents (map (\<lambda>(a, b, i). (a, b)) ivs)"
proof -
  let ?xs = "sort (map (\<lambda>(a, b, i). (a, b)) (filter (\<lambda>(a, b, i). a < b) ivs))"
  have s: "sorted_wrt (\<lambda>x y. fst x \<le> fst y) ?xs"
    by (rule sorted_wrt_mono_rel [OF _ sorted_sort [of "map (\<lambda>(a, b, i). (a, b)) (filter (\<lambda>(a, b, i). a < b) ivs)"]]) (auto simp: less_eq_prod_def)
  have "separated (foldl merge_step [] ?xs) \<and> extents (foldl merge_step [] ?xs) = extents [] \<union> extents ?xs"
    by (rule foldl_merge_correct [OF _ _ s]) (auto simp: separated_def)
  moreover have "extents ?xs = (\<Union>v \<in> {v \<in> set ivs. fst v < fst (snd v)}. {fst v ..< fst (snd v)})"
    by (simp add: extents_def extent_def case_prod_beta)
  moreover have "\<dots> = extents (map (\<lambda>(a, b, i). (a, b)) ivs)"
    by (auto simp: extents_def extent_def case_prod_beta)
  ultimately show ?thesis by (simp add: merge_intervals_def)
qed

lemma covered_total_card: "separated ms \<Longrightarrow> finite (extents ms) \<and> covered_total ms = int (card (extents ms))"
proof (induction ms)
  case (Cons m ms)
  then have IH: "finite (extents ms)" "covered_total ms = int (card (extents ms))" and "fst m < snd m"
    and later: "\<forall>q \<in> set ms. snd m < fst q"
    by (auto simp: separated_Cons)
  have "extent m \<inter> extents ms = {}" using later by (fastforce simp: extent_def extents_def)
  then have "card (extents (m # ms)) = card (extent m) + card (extents ms)"
    using IH(1) by (simp add: card_Un_disjoint extent_def)
  with IH \<open>fst m < snd m\<close> show ?case
    by (cases m) (auto simp: covered_total_def extent_def)
qed (simp add: covered_total_def)

text \<open>A sort does not change which intervals there are.\<close>

definition proven :: "int \<Rightarrow> session \<Rightarrow> int set" where
  "proven end_ms s = {ss_opened s ..< effective_closed end_ms s}"

text \<open>The milliseconds of a window that some session visible at its end proves connected.\<close>

definition proven_in :: "int \<Rightarrow> int \<Rightarrow> liq_store \<Rightarrow> int set" where
  "proven_in start_ms end_ms st = (\<Union>s \<in> set (st_sessions st). proven end_ms s) \<inter> {start_ms ..< end_ms}"

lemma extent_clip: "extent (fst (clip a b s), fst (snd (clip a b s))) = proven b s \<inter> {a ..< b}"
  by (auto simp: extent_def clip_def proven_def)

lemma intervals_extents:
  assumes "intervals_overlapping a b st = Inr ivs"
  shows "extents (map (\<lambda>(x, y, i). (x, y)) ivs) = proven_in a b st"
proof -
  let ?vis = "{s \<in> set (st_sessions st). ss_opened s < b \<and> a < effective_closed b s}"
  have "set ivs = {v \<in> clip a b ` ?vis. fst v < fst (snd v)}"
    using assms by (auto simp: intervals_overlapping_def ebind_Inr_iff)
  then have "extents (map (\<lambda>(x, y, i). (x, y)) ivs) = (\<Union>v \<in> {v \<in> clip a b ` ?vis. fst v < fst (snd v)}. extent (fst v, fst (snd v)))"
    by (simp add: extents_def case_prod_beta)
  also have "\<dots> = (\<Union>s \<in> ?vis. extent (fst (clip a b s), fst (snd (clip a b s))))"
    by (auto simp: extent_def)
  also have "\<dots> = proven_in a b st"
    unfolding extent_clip proven_in_def by (auto simp: proven_def)
  finally show ?thesis .
qed

lemma window_summary_Inr:
  assumes "window_summary st label secs t = Inr w"
  shows "separated (wn_merged w) \<and> extents (wn_merged w) = proven_in (t - secs * 1000) t st
    \<and> wn_covered w = int (card (proven_in (t - secs * 1000) t st)) \<and> wn_gap w = secs * 1000 - wn_covered w
    \<and> wn_coverage w = to_float (of_int (wn_covered w) / of_int (secs * 1000)) \<and> wn_label w = label"
proof -
  obtain ivs where ivs: "intervals_overlapping (t - secs * 1000) t st = Inr ivs" and m: "wn_merged w = merge_intervals ivs"
    and w: "wn_covered w = covered_total (wn_merged w)" "wn_gap w = secs * 1000 - wn_covered w"
      "wn_coverage w = to_float (of_int (wn_covered w) / of_int (secs * 1000))" "wn_label w = label"
    using assms by (auto simp: window_summary_def Let_def ebind_Inr_iff)
  have "separated (wn_merged w)" "extents (wn_merged w) = proven_in (t - secs * 1000) t st"
    using merge_intervals_correct [of ivs] intervals_extents [OF ivs] by (simp_all add: m)
  with w covered_total_card [of "wn_merged w"] show ?thesis by simp
qed

lemma card_proven_bound: "0 \<le> n \<Longrightarrow> int (card (proven_in (t - n) t st)) \<le> n"
proof -
  assume "0 \<le> n"
  have "card (proven_in (t - n) t st) \<le> card {t - n ..< t}"
    by (rule card_mono) (auto simp: proven_in_def)
  with \<open>0 \<le> n\<close> show ?thesis by simp
qed

lemma ratio_bounds: "0 \<le> c \<Longrightarrow> c \<le> n \<Longrightarrow> 0 < n \<Longrightarrow> fle (Fin 0) (to_float (of_int c / of_int n)) \<and> fle (to_float (of_int c / of_int n)) (Fin 1)"
  using to_float_nonneg [of "of_int c / of_int n"] to_float_mono [of "of_int c / of_int n" 1] by simp

section \<open>Hindsight adds nothing\<close>

text \<open>Nothing that happens after a cutoff proves more connection time before it.\<close>

definition proven_all :: "int \<Rightarrow> liq_store \<Rightarrow> int set" where
  "proven_all t st = (\<Union>s \<in> set (st_sessions st). proven t s)"

definition proves_no_more :: "int \<Rightarrow> liq_store \<Rightarrow> liq_store \<Rightarrow> bool" where
  "proves_no_more t st st' \<longleftrightarrow> proven_all t st' \<subseteq> proven_all t st"

lemma proves_refl [simp]: "proves_no_more t st st"
  by (simp add: proves_no_more_def)

lemma proves_frame: "st_sessions st' = st_sessions st \<Longrightarrow> proves_no_more t st st'"
  by (simp add: proves_no_more_def proven_all_def)

lemma proves_trans: "proves_no_more t st st' \<Longrightarrow> proves_no_more t st' st'' \<Longrightarrow> proves_no_more t st st''"
  unfolding proves_no_more_def by (rule subset_trans)

lemma proves_proven_in: "proves_no_more t st st' \<Longrightarrow> proven_in a t st' \<subseteq> proven_in a t st"
  unfolding proves_no_more_def proven_all_def proven_in_def by blast

lemma proves_update:
  assumes "\<And>s. s \<in> set (st_sessions st) \<Longrightarrow> ss_id s = sid \<Longrightarrow> proven t (f s) \<subseteq> proven t s"
  shows "proves_no_more t st (update_session sid f st)"
  unfolding proves_no_more_def proven_all_def
proof (rule UN_least)
  fix s' assume "s' \<in> set (st_sessions (update_session sid f st))"
  then obtain s where s: "s \<in> set (st_sessions st)" "s' = (if ss_id s = sid then f s else s)" by auto
  with assms [OF s(1)] have "proven t s' \<subseteq> proven t s" by simp
  with s(1) show "proven t s' \<subseteq> (\<Union>s \<in> set (st_sessions st). proven t s)" by blast
qed

lemma store_distinct: "store_ok st \<Longrightarrow> distinct (map ss_id (st_sessions st))"
  by (simp add: store_ok_def sessions_ok_def)

lemma proves_close_row:
  assumes "distinct (map ss_id (st_sessions st))" and "s \<in> set (st_sessions st)" "ss_closed s = None" "t < c \<or> c = ss_heartbeat s"
  shows "proves_no_more t st (close_row (ss_id s) c r st)"
  unfolding close_row_def
proof (rule proves_update)
  fix s' assume "s' \<in> set (st_sessions st)" "ss_id s' = ss_id s"
  then have "s' = s" using assms(1,2) distinct_ids_eq by blast
  then show "proven t (s'\<lparr>ss_closed := Some c, ss_reason := Some r\<rparr>) \<subseteq> proven t s'"
    using assms(3,4) by (auto simp: proven_def effective_closed_def)
qed

lemma append_connection_frame: "proves_no_more t st (snd (append_connection s c r st')) \<longleftrightarrow> proves_no_more t st st'"
  by (simp add: proves_no_more_def proven_all_def)

lemma proves_end_session:
  assumes "store_ok st" and "t < c"
  shows "proves_no_more t st (snd (end_session sid c r st))"
proof (cases "find_session sid st")
  case (Some s)
  have "proves_no_more t st (close_row sid c r st)" if "ss_closed s = None"
    using proves_close_row [OF store_distinct [OF assms(1)], of s t c r] find_session_Some [OF Some] assms(2) that by auto
  then show ?thesis by (simp add: end_session_def Some append_connection_frame split: sum.split)
qed (simp add: end_session_def)

lemma proves_end_sessions: "store_ok st \<Longrightarrow> t < c \<Longrightarrow> proves_no_more t st (snd (end_sessions sids c r st))"
proof (induction sids arbitrary: st)
  case (Cons sid sids)
  obtain out st' where e: "end_session sid c r st = (out, st')" by fastforce
  have 1: "proves_no_more t st st'" using proves_end_session [OF Cons.prems, of sid r] by (simp add: e)
  have "store_ok st'" using end_session_ok [OF Cons.prems(1), of sid c r] by (simp add: e)
  from Cons.IH [OF this Cons.prems(2)] 1 show ?case by (auto simp: e split: sum.split intro: proves_trans)
qed simp

lemma proves_recover_rows:
  assumes "distinct (map ss_id (st_sessions st))" and "distinct (map ss_id rows)"
    and "\<forall>s \<in> set rows. s \<in> set (st_sessions st) \<and> ss_closed s = None"
  shows "proves_no_more t st (snd (recover_rows rows st))"
  using assms
proof (induction rows arbitrary: st)
  case (Cons s rows)
  define st1 where "st1 = close_row (ss_id s) (ss_heartbeat s) ''ORPHANED_ON_RESTART'' st"
  obtain out st2 where e: "append_connection s (ss_heartbeat s) ''ORPHANED_ON_RESTART'' st1 = (out, st2)" by fastforce
  then have ss: "st_sessions st2 = st_sessions st1" using append_connection_simps(4) by (metis snd_conv)
  have 1: "proves_no_more t st st1"
    unfolding st1_def using Cons.prems by (intro proves_close_row) auto
  then have 2: "proves_no_more t st st2" using proves_frame [OF ss] proves_trans by blast
  have "st_sessions st2 = map_row (ss_id s) (\<lambda>s'. s'\<lparr>ss_closed := Some (ss_heartbeat s), ss_reason := Some ''ORPHANED_ON_RESTART''\<rparr>) (st_sessions st)"
    by (simp add: ss st1_def close_row_def map_row_def)
  note rows2 = this
  then have ids: "distinct (map ss_id (st_sessions st2))" using Cons.prems(1) by (simp add: map_row_ids)
  have "\<forall>u \<in> set rows. u \<in> set (st_sessions st2) \<and> ss_closed u = None"
  proof
    fix u assume u: "u \<in> set rows"
    then have "ss_id u \<in> ss_id ` set rows" "u \<in> set (st_sessions st)" "ss_closed u = None" using Cons.prems(3) by auto
    moreover from this have "ss_id u \<noteq> ss_id s" using Cons.prems(2) by auto
    ultimately show "u \<in> set (st_sessions st2) \<and> ss_closed u = None" unfolding rows2 map_row_def by (auto simp: image_iff intro!: bexI [of _ u])
  qed
  with Cons.IH [OF ids] Cons.prems(2) have "proves_no_more t st2 (snd (recover_rows rows st2))" by simp
  with 2 show ?case by (auto simp: e simp flip: st1_def split: sum.split intro: proves_trans)
qed simp

lemma proves_recover:
  assumes "store_ok st"
  shows "proves_no_more t st (snd (recover_orphan_sessions st))"
proof -
  let ?rows = "filter (\<lambda>s. ss_closed s = None) (st_sessions st)"
  obtain out st' where e: "recover_rows ?rows st = (out, st')" by fastforce
  have "proves_no_more t st st'"
    using proves_recover_rows [of st ?rows t, OF store_distinct [OF assms] distinct_map_filter [OF store_distinct [OF assms]]]
    by (simp add: e)
  then show ?thesis
  proof (cases out)
    case (Inl x)
    show ?thesis by (rule proves_frame) (simp add: recover_orphan_sessions_def Let_def e Inl)
  qed (simp add: recover_orphan_sessions_def Let_def e)
qed

text \<open>The clock an operation carries is past the cutoff; recovery carries none.\<close>

fun later_than :: "int \<Rightarrow> liq_op \<Rightarrow> bool" where
  "later_than t (Ingest received _) \<longleftrightarrow> t < received"
| "later_than t (Note _ observed _ _) \<longleftrightarrow> t < observed"
| "later_than t (Begin opened _ _ _) \<longleftrightarrow> t < opened"
| "later_than t (Touch _ heartbeat) \<longleftrightarrow> t < heartbeat"
| "later_than t (Finish _ closed_ms _) \<longleftrightarrow> t < closed_ms"
| "later_than t Recover \<longleftrightarrow> True"
| "later_than t (CloseOpen closed_ms _) \<longleftrightarrow> t < closed_ms"

lemma proves_touch:
  assumes "touch_session sid h st = Inr st'" and "t < h"
  shows "proves_no_more t st st'"
proof -
  have "st' = update_session sid (\<lambda>s. s\<lparr>ss_heartbeat := h\<rparr>) st" using touch_Inr [OF assms(1)] by blast
  moreover have "proven t (s\<lparr>ss_heartbeat := h\<rparr>) \<subseteq> proven t s" for s
    using assms(2) by (auto simp: proven_def effective_closed_def split: option.splits)
  ultimately show ?thesis by (auto intro: proves_update)
qed

lemma proves_begin:
  assumes "begin_session opened k sid fresh st = Inr (i, st')"
  shows "proves_no_more t st st'"
  using begin_Inr [OF assms] by (auto simp: proves_no_more_def proven_all_def proven_def effective_closed_def)

lemma step_proves: "store_ok st \<Longrightarrow> later_than t op \<Longrightarrow> proves_no_more t st (store_step op st)"
proof (cases op)
  case (Ingest r p)
  show ?thesis
  proof (cases "normalize_force_order p r (latest_event_time_ms st)")
    case (Inl e)
    with ingest_refused [OF Inl] show ?thesis by (simp add: Ingest proves_frame)
  next
    case (Inr ev)
    show ?thesis using insert_event_cases [of ev st] by (auto simp: Ingest ingest_normal [OF Inr] intro: proves_frame)
  qed
qed (auto simp: close_open_snd proves_end_session proves_end_sessions proves_recover
    split: sum.split prod.split intro: proves_touch proves_begin proves_frame dest: record_anomaly_Inr)

text \<open>The events and anomalies visible at the cutoff stay what they were.\<close>

definition visible :: "int \<Rightarrow> liq_store \<Rightarrow> liq_event list \<times> anomaly list" where
  "visible t st = (filter (\<lambda>ev. ev_received ev \<le> t) (st_events st), filter (\<lambda>a. an_observed a \<le> t) (st_anomalies st))"

lemma events_between_visible: "events_between a t st = ebind (sql_ints [a, t]) (\<lambda>_.
     Inr (sort_key (\<lambda>ev. (ev_time ev, ev_hash ev)) (filter (\<lambda>ev. a < ev_time ev \<and> ev_time ev \<le> t) (fst (visible t st)))))"
  by (simp add: events_between_def visible_def conj_ac)

lemma anomalies_between_visible: "anomalies_between a t st = ebind (sql_ints [a, t]) (\<lambda>_.
     Inr (sort_key an_observed (filter (\<lambda>x. a < an_observed x) (snd (visible t st)))))"
  by (simp add: anomalies_between_def visible_def conj_commute)

lemma record_anomaly_visible: "record_anomaly ty tm h details st = Inr st' \<Longrightarrow> t < tm \<Longrightarrow> visible t st' = visible t st"
  by (auto simp: record_anomaly_def ebind_Inr_iff visible_def)

lemma ingest_visible:
  assumes "t < r"
  shows "visible t (snd (ingest_force_order r p st)) = visible t st"
proof (cases "normalize_force_order p r (latest_event_time_ms st)")
  case (Inl e)
  then show ?thesis using assms
    by (simp add: ingest_force_order_def record_anomaly_visible split: prod.split sum.split)
next
  case (Inr ev)
  have "ev_received ev = r" using normalize_valid [OF Inr] by blast
  moreover have "st_anomalies (snd (insert_event ev st)) = st_anomalies st"
    using insert_event_cases [of ev st] by auto
  ultimately show ?thesis using assms insert_event_cases [of ev st]
    by (auto simp: ingest_normal [OF Inr] visible_def)
qed

lemma touch_visible: "touch_session sid h st = Inr st' \<Longrightarrow> visible t st' = visible t st"
  by (drule touch_Inr) (auto simp: visible_def)

lemma begin_visible: "begin_session opened k sid fresh st = Inr (i, st') \<Longrightarrow> visible t st' = visible t st"
  by (drule begin_Inr) (auto simp: visible_def)

lemma step_visible: "later_than t op \<Longrightarrow> visible t (store_step op st) = visible t st"
proof (cases op)
  case (CloseOpen c r)
  then show ?thesis by (simp add: close_open_snd visible_def)
qed (auto simp: ingest_visible record_anomaly_visible touch_visible begin_visible split: sum.split prod.split,
    auto simp: visible_def)

lemma fold_hindsight:
  assumes "store_ok st" and "\<forall>op \<in> set ops. later_than t op"
  shows "proves_no_more t st (fold store_step ops st) \<and> visible t (fold store_step ops st) = visible t st"
  using assms
proof (induction ops arbitrary: st)
  case (Cons op ops)
  have "proves_no_more t (store_step op st) (fold store_step ops (store_step op st))
      \<and> visible t (fold store_step ops (store_step op st)) = visible t (store_step op st)"
    using Cons.prems by (intro Cons.IH store_step_ok) auto
  with Cons.prems step_proves [of st t op] step_visible [of t op st] show ?case
    by (auto intro: proves_trans)
qed simp

section \<open>What a snapshot says\<close>

lemma build_snapshot_Inr:
  assumes "build_snapshot ok t m st = Inr s"
  obtains w1 w24 rows where "window_summary st ''1h'' 3600 t = Inr w1" and "window_summary st ''24h'' 86400 t = Inr w24"
    and "anomalies_between (t - 86400000) t st = Inr rows"
    and "s = seal_snapshot (snapshot_base t m w1 w24
       (snapshot_blockers ok m w1 w24 (filter (\<lambda>a. an_type a \<noteq> ''UNFILLED_ORDER_EXCLUDED'') rows))
       (length (filter (\<lambda>a. an_type a \<noteq> ''UNFILLED_ORDER_EXCLUDED'') rows)))"
  using assms by (auto simp: build_snapshot_def Let_def ebind_Inr_iff split: if_splits)

lemma seal_fields:
  "dget (seal_snapshot (snapshot_base t m w1 w24 b n)) ''windows'' = PDict [(''1h'', public_window w1), (''24h'', public_window w24)]"
  "dget (seal_snapshot (snapshot_base t m w1 w24 b n)) ''quality_state'' = PStr (if b = [] then ''VALID_FRESH_COMPLETE_COVERAGE'' else ''BLOCKED'')"
  "dget (seal_snapshot (snapshot_base t m w1 w24 b n)) ''event_set_hash'' = PStr (canonical_hash (PList (map PStr (sort (remdups (wn_hashes w24))))))"
  "dget (seal_snapshot (snapshot_base t m w1 w24 b n)) ''schema_version'' = PStr SNAPSHOT_SCHEMA_VERSION"
  "dget (seal_snapshot (snapshot_base t m w1 w24 b n)) ''external_action_authority'' = PStr ''NONE''"
  "dget (seal_snapshot (snapshot_base t m w1 w24 b n)) ''anomaly_count_24h'' = PInt (int n)"
  "dget (seal_snapshot (snapshot_base t m w1 w24 b n)) ''snapshot_hash''
     = PStr (canonical_hash (PDict (dpop ''snapshot_hash'' (seal_snapshot (snapshot_base t m w1 w24 b n)))))"
  by (simp_all add: seal_snapshot_def snapshot_base_def Let_def EXTERNAL_ACTION_AUTHORITY_def dpop_filter)

definition snapshot_window :: "dict \<Rightarrow> string \<Rightarrow> dict" where
  "snapshot_window s label = dict_of (dget (dict_of (dget s ''windows'')) label)"

lemma seal_window:
  "snapshot_window (seal_snapshot (snapshot_base t m w1 w24 b n)) ''1h'' = dict_of (public_window w1)"
  "snapshot_window (seal_snapshot (snapshot_base t m w1 w24 b n)) ''24h'' = dict_of (public_window w24)"
  by (simp_all add: snapshot_window_def seal_fields)

lemma public_fields:
  "dget (dict_of (public_window w)) ''covered_ms'' = PInt (wn_covered w)"
  "dget (dict_of (public_window w)) ''gap_ms'' = PInt (wn_gap w)"
  "dget (dict_of (public_window w)) ''coverage_ratio'' = PFloat (wn_coverage w)"
  "dget (dict_of (public_window w)) ''long_liquidation_usd'' = wn_long w"
  "dget (dict_of (public_window w)) ''short_liquidation_usd'' = wn_short w"
  "dget (dict_of (public_window w)) ''total_liquidation_usd'' = wn_total w"
  "dget (dict_of (public_window w)) ''event_count'' = PInt (int (length (wn_hashes w)))"
  by (simp_all add: public_window_def)

definition snapshot_windows :: "(string \<times> int) list" where
  "snapshot_windows = [(''1h'', 3600), (''24h'', 86400)]"

text \<open>The coverage ratio of a window of a store at a cutoff.\<close>

definition proven_ratio :: "int \<Rightarrow> int \<Rightarrow> liq_store \<Rightarrow> pyfloat" where
  "proven_ratio secs t st = to_float (of_int (int (card (proven_in (t - secs * 1000) t st))) / of_int (secs * 1000))"

lemma window_ratio: "window_summary st label secs t = Inr w \<Longrightarrow> wn_coverage w = proven_ratio secs t st"
  using window_summary_Inr unfolding proven_ratio_def by metis

lemma proven_ratio_bounds: "0 < secs \<Longrightarrow> fle (Fin 0) (proven_ratio secs t st) \<and> fle (proven_ratio secs t st) (Fin 1)"
  unfolding proven_ratio_def using card_proven_bound [of "secs * 1000" t st] by (intro ratio_bounds) auto

lemma blockers_Nil:
  "snapshot_blockers ok m w1 w24 as = [] \<longleftrightarrow>
     ok \<and> \<not> num_lt (PFloat (wn_coverage w1)) m \<and> \<not> num_lt (PFloat (wn_coverage w24)) m \<and> as = []"
  by (auto simp: snapshot_blockers_def coverage_blocker_def)

definition disturbed :: "int \<Rightarrow> liq_store \<Rightarrow> bool" where
  "disturbed t st \<longleftrightarrow> (\<exists>a \<in> set (st_anomalies st). t - 86400000 < an_observed a \<and> an_observed a \<le> t
     \<and> an_type a \<noteq> ''UNFILLED_ORDER_EXCLUDED'')"

lemma anomalies_disturbed:
  "anomalies_between (t - 86400000) t st = Inr rows \<Longrightarrow> filter (\<lambda>a. an_type a \<noteq> ''UNFILLED_ORDER_EXCLUDED'') rows = [] \<longleftrightarrow> \<not> disturbed t st"
  by (auto simp: anomalies_between_def ebind_Inr_iff disturbed_def filter_empty_conv)

lemma quality_iff:
  assumes "build_snapshot ok t m st = Inr s"
  shows "dget s ''quality_state'' = PStr ''VALID_FRESH_COMPLETE_COVERAGE'' \<longleftrightarrow>
    ok \<and> \<not> num_lt (PFloat (proven_ratio 3600 t st)) m \<and> \<not> num_lt (PFloat (proven_ratio 86400 t st)) m \<and> \<not> disturbed t st"
proof -
  obtain w1 w24 rows where w: "window_summary st ''1h'' 3600 t = Inr w1" "window_summary st ''24h'' 86400 t = Inr w24"
    and rows: "anomalies_between (t - 86400000) t st = Inr rows"
    and s: "s = seal_snapshot (snapshot_base t m w1 w24
       (snapshot_blockers ok m w1 w24 (filter (\<lambda>a. an_type a \<noteq> ''UNFILLED_ORDER_EXCLUDED'') rows))
       (length (filter (\<lambda>a. an_type a \<noteq> ''UNFILLED_ORDER_EXCLUDED'') rows)))"
    using assms by (rule build_snapshot_Inr)
  have "dget s ''quality_state'' = PStr ''VALID_FRESH_COMPLETE_COVERAGE''
      \<longleftrightarrow> snapshot_blockers ok m w1 w24 (filter (\<lambda>a. an_type a \<noteq> ''UNFILLED_ORDER_EXCLUDED'') rows) = []"
    unfolding s seal_fields by simp
  then show ?thesis by (simp only: blockers_Nil anomalies_disturbed [OF rows] window_ratio [OF w(1)] window_ratio [OF w(2)])
qed

lemma window_totals_visible:
  assumes "window_summary st label secs t = Inr w" and "window_summary st' label secs t = Inr w'" and "visible t st' = visible t st"
  shows "wn_long w' = wn_long w \<and> wn_short w' = wn_short w \<and> wn_total w' = wn_total w \<and> wn_hashes w' = wn_hashes w"
  using assms unfolding window_summary_def Let_def events_between_visible by (auto simp: ebind_Inr_iff)

lemma ratio_antimono:
  assumes "proves_no_more t st st'" and "0 < secs"
  shows "fle (proven_ratio secs t st') (proven_ratio secs t st)"
proof -
  have "card (proven_in (t - secs * 1000) t st') \<le> card (proven_in (t - secs * 1000) t st)"
    using proves_proven_in [OF assms(1)] by (intro card_mono) (auto simp: proven_in_def)
  then show ?thesis unfolding proven_ratio_def using assms(2)
    by (intro to_float_mono divide_right_mono) auto
qed

lemma num_lt_antimono: "fle r' r \<Longrightarrow> num_lt (PFloat r) m \<Longrightarrow> r' \<noteq> NaN \<Longrightarrow> num_lt (PFloat r') m"
  unfolding num_lt_def fle_def by (cases r; cases r'; cases "num_val m") auto

lemma disturbed_visible: "disturbed t st \<longleftrightarrow> (\<exists>a \<in> set (snd (visible t st)). t - 86400000 < an_observed a \<and> an_type a \<noteq> ''UNFILLED_ORDER_EXCLUDED'')"
  by (auto simp: disturbed_def visible_def)

lemma sealed_form: "build_snapshot ok t m st = Inr s \<Longrightarrow> \<exists>w1 w24 b n. s = seal_snapshot (snapshot_base t m w1 w24 b n)"
  by (erule build_snapshot_Inr) blast

lemma verify_sealed:
  assumes "build_snapshot ok t m st = Inr s"
  shows "verify_snapshot (PDict s) = Inr ()" and "verify_snapshot (PDict (reload_dict s)) = Inr ()"
proof -
  obtain w1 w24 b n where s: "s = seal_snapshot (snapshot_base t m w1 w24 b n)"
    using sealed_form [OF assms] by blast
  have h: "dget s ''snapshot_hash'' = PStr (canonical_hash (PDict (dpop ''snapshot_hash'' s)))"
    and f: "dget s ''schema_version'' = PStr SNAPSHOT_SCHEMA_VERSION" "dget s ''external_action_authority'' = PStr ''NONE''"
    unfolding s by (rule seal_fields)+
  show "verify_snapshot (PDict s) = Inr ()" by (simp add: verify_snapshot_def h f)
  show "verify_snapshot (PDict (reload_dict s)) = Inr ()"
    by (simp add: verify_snapshot_def h f dpop_reload)
qed

lemma index_reload: "dhas s k \<Longrightarrow> py_index (PDict (reload_dict s)) k = Inr (json_reload (dget s k))"
  using map_of_dget [of "reload_dict s" k] by simp

lemma dget_or_has: "dhas d k \<Longrightarrow> dget_or d k v = dget d k"
  by (simp add: dget_or_def map_of_dget)

lemma seal_has:
  "k \<in> {''coverage_ratio'', ''quality_state'', ''blocked_reasons'', ''event_set_hash'', ''connection_set_hash''} \<Longrightarrow>
     dhas (seal_snapshot (snapshot_base t m w1 w24 b n)) k"
  by (auto simp: seal_snapshot_def snapshot_base_def Let_def)

lemma seal_payload_fields:
  "dget (seal_snapshot (snapshot_base t m w1 w24 b n)) ''coverage_ratio'' = PFloat (fmin (wn_coverage w1) (wn_coverage w24))"
  "dget (seal_snapshot (snapshot_base t m w1 w24 b n)) ''blocked_reasons'' = PList (map PStr (sort (remdups b)))"
  by (simp_all add: seal_snapshot_def snapshot_base_def Let_def)

lemma ledger_takes_sealed:
  assumes "s = seal_snapshot (snapshot_base t m w1 w24 b n)"
  shows "\<exists>p. snapshot_payload (reload_dict s) t h reg path el pid = Inr p \<and> dget p ''quality_state'' = dget s ''quality_state''"
proof -
  have has: "dhas s ''coverage_ratio''" "dhas s ''quality_state''" "dhas s ''blocked_reasons''" "dhas s ''event_set_hash''" "dhas s ''connection_set_hash''"
    unfolding assms by (simp_all add: seal_has)
  have "json_reload (dget s ''quality_state'') = dget s ''quality_state''"
    unfolding assms seal_fields by simp
  then show ?thesis
    unfolding snapshot_payload_def
    by (simp add: index_reload has dget_or_has del: py_index.simps) (simp add: assms seal_payload_fields)
qed

lemma build_windows:
  assumes "build_snapshot ok t m st = Inr s" and "(label, secs) \<in> set snapshot_windows"
  obtains w where "window_summary st label secs t = Inr w" and "snapshot_window s label = dict_of (public_window w)"
proof -
  obtain w1 w24 b n where "window_summary st ''1h'' 3600 t = Inr w1" "window_summary st ''24h'' 86400 t = Inr w24"
    "s = seal_snapshot (snapshot_base t m w1 w24 b n)"
    using build_snapshot_Inr [OF assms(1)] by metis
  with assms(2) that seal_window show ?thesis by (auto simp: snapshot_windows_def)
qed

lemma build_anomalies:
  assumes "build_snapshot ok t m st = Inr s"
  obtains rows where "anomalies_between (t - 86400000) t st = Inr rows"
    and "dget s ''anomaly_count_24h'' = PInt (int (length (filter (\<lambda>a. an_type a \<noteq> ''UNFILLED_ORDER_EXCLUDED'') rows)))"
  using build_snapshot_Inr [OF assms] seal_fields(6) by metis

lemma demo_snapshot_builds: "\<exists>s. build_snapshot True 1700000000000 (PInt 1) st = Inr s"
  by (simp add: build_snapshot_def num_le_def window_summary_def events_between_def intervals_overlapping_def anomalies_between_def sql_ints_def Let_def)

section \<open>Properties\<close>

text \<open>C24: Coverage is exact: in each window of a snapshot the covered time is the number of milliseconds
  that some session visible at the cutoff proves connected, overlapping sessions counted once; the
  gap is the rest of the window; and the coverage ratio is their quotient and lies between 0 and 1.\<close>

theorem snapshot_coverage_exact:
  assumes "build_snapshot ok t m st = Inr s" and "(label, secs) \<in> set snapshot_windows"
  shows "let w = snapshot_window s label; n = int (card (proven_in (t - secs * 1000) t st)) in
    dget w ''covered_ms'' = PInt n \<and> dget w ''gap_ms'' = PInt (secs * 1000 - n) \<and> n \<le> secs * 1000
    \<and> dget w ''coverage_ratio'' = PFloat (proven_ratio secs t st)
    \<and> fle (Fin 0) (proven_ratio secs t st) \<and> fle (proven_ratio secs t st) (Fin 1)"
proof -
  obtain w where w: "window_summary st label secs t = Inr w" "snapshot_window s label = dict_of (public_window w)"
    using assms by (rule build_windows)
  have "0 < secs" using assms(2) by (auto simp: snapshot_windows_def)
  then show ?thesis
    using window_summary_Inr [OF w(1)] window_ratio [OF w(1)] proven_ratio_bounds [of secs t st] card_proven_bound [of "secs * 1000" t st]
    unfolding w(2) Let_def public_fields by simp
qed

theorem snapshot_coverage_exact_witness:
  "\<exists>s. build_snapshot True 1700000000000 (PInt 1) empty_store = Inr s \<and> (''1h'', 3600) \<in> set snapshot_windows
     \<and> dget (snapshot_window s ''1h'') ''covered_ms'' = PInt 0 \<and> dget (snapshot_window s ''1h'') ''gap_ms'' = PInt 3600000"
proof -
  obtain s where s: "build_snapshot True 1700000000000 (PInt 1) empty_store = Inr s" using demo_snapshot_builds by blast
  have w: "(''1h'', 3600) \<in> set snapshot_windows" by (simp add: snapshot_windows_def)
  have "proven_in a b empty_store = {}" for a b by (simp add: proven_in_def empty_store_def)
  with s w snapshot_coverage_exact [OF s w] show ?thesis by (simp add: Let_def)
qed

text \<open>A snapshot is valid exactly when the database passes its integrity check, the hour and the day
  before the cutoff are both covered at least at the required ratio, and no anomaly other than an
  excluded unfilled order was observed in the day; otherwise it is blocked.\<close>

theorem snapshot_valid_iff:
  assumes "build_snapshot ok t m st = Inr s"
  shows "(dget s ''quality_state'' = PStr ''VALID_FRESH_COMPLETE_COVERAGE'' \<longleftrightarrow>
      ok \<and> \<not> num_lt (PFloat (proven_ratio 3600 t st)) m \<and> \<not> num_lt (PFloat (proven_ratio 86400 t st)) m \<and> \<not> disturbed t st)
    \<and> (dget s ''quality_state'' = PStr ''VALID_FRESH_COMPLETE_COVERAGE'' \<or> dget s ''quality_state'' = PStr ''BLOCKED'')"
proof (rule conjI)
  show "dget s ''quality_state'' = PStr ''VALID_FRESH_COMPLETE_COVERAGE'' \<or> dget s ''quality_state'' = PStr ''BLOCKED''"
    using sealed_form [OF assms] by (auto simp: seal_fields split: if_splits)
qed (rule quality_iff [OF assms])

theorem snapshot_valid_iff_witness:
  "\<exists>s. build_snapshot True 1700000000000 (PInt 1) empty_store = Inr s \<and> dget s ''quality_state'' = PStr ''BLOCKED''"
proof -
  obtain s where s: "build_snapshot True 1700000000000 (PInt 1) empty_store = Inr s" using demo_snapshot_builds by blast
  have "proven_ratio 3600 1700000000000 empty_store = Fin 0"
    by (simp add: proven_ratio_def proven_in_def empty_store_def)
  with s snapshot_valid_iff [OF s] show ?thesis by (auto simp: num_lt_def)
qed

text \<open>C25: Hindsight adds nothing: rebuild a snapshot at the same cutoff after any operations whose clocks
  are past it. In each window the liquidation totals and the event count are those reported before
  and the coverage ratio is no higher, the anomaly count is the same, and a snapshot that is valid
  now was already valid then.\<close>

theorem hindsight_adds_nothing:
  fixes pre ops :: "liq_op list"
  defines "st \<equiv> fold store_step pre empty_store" and "st' \<equiv> fold store_step ops (fold store_step pre empty_store)"
  assumes "\<forall>op \<in> set ops. later_than t op"
    and s: "build_snapshot ok t m st = Inr s" and s': "build_snapshot ok t m st' = Inr s'"
  shows "(\<forall>(label, secs) \<in> set snapshot_windows.
      (\<forall>k \<in> {''long_liquidation_usd'', ''short_liquidation_usd'', ''total_liquidation_usd'', ''event_count''}.
         dget (snapshot_window s' label) k = dget (snapshot_window s label) k)
      \<and> fle (num_val (dget (snapshot_window s' label) ''coverage_ratio'')) (num_val (dget (snapshot_window s label) ''coverage_ratio'')))
    \<and> dget s' ''anomaly_count_24h'' = dget s ''anomaly_count_24h''
    \<and> (dget s' ''quality_state'' = PStr ''VALID_FRESH_COMPLETE_COVERAGE'' \<longrightarrow> dget s ''quality_state'' = PStr ''VALID_FRESH_COMPLETE_COVERAGE'')"
proof (intro conjI)
  have "store_ok st" unfolding st_def by (rule liq.run_inv [OF liq_run empty_store_ok])
  from fold_hindsight [OF this assms(3)] have less: "proves_no_more t st st'" and vis: "visible t st' = visible t st"
    by (simp_all add: st_def st'_def)
  show "\<forall>(label, secs) \<in> set snapshot_windows.
      (\<forall>k \<in> {''long_liquidation_usd'', ''short_liquidation_usd'', ''total_liquidation_usd'', ''event_count''}.
         dget (snapshot_window s' label) k = dget (snapshot_window s label) k)
      \<and> fle (num_val (dget (snapshot_window s' label) ''coverage_ratio'')) (num_val (dget (snapshot_window s label) ''coverage_ratio''))"
  proof (rule ballI, rule case_prodI2)
    fix x label secs assume "x \<in> set snapshot_windows" and "x = (label, secs)"
    then have i: "(label, secs) \<in> set snapshot_windows" by simp
    then have "0 < secs" by (auto simp: snapshot_windows_def)
    obtain w where w: "window_summary st label secs t = Inr w" "snapshot_window s label = dict_of (public_window w)"
      using s i by (rule build_windows)
    obtain w' where w': "window_summary st' label secs t = Inr w'" "snapshot_window s' label = dict_of (public_window w')"
      using s' i by (rule build_windows)
    show "(\<forall>k \<in> {''long_liquidation_usd'', ''short_liquidation_usd'', ''total_liquidation_usd'', ''event_count''}.
         dget (snapshot_window s' label) k = dget (snapshot_window s label) k)
      \<and> fle (num_val (dget (snapshot_window s' label) ''coverage_ratio'')) (num_val (dget (snapshot_window s label) ''coverage_ratio''))"
      using window_totals_visible [OF w(1) w'(1) vis] ratio_antimono [OF less \<open>0 < secs\<close>]
      unfolding w(2) w'(2) by (simp add: public_fields window_ratio [OF w(1)] window_ratio [OF w'(1)])
  qed
  show "dget s' ''anomaly_count_24h'' = dget s ''anomaly_count_24h''"
  proof -
    obtain rows rows' where "anomalies_between (t - 86400000) t st = Inr rows" "anomalies_between (t - 86400000) t st' = Inr rows'"
      and c: "dget s ''anomaly_count_24h'' = PInt (int (length (filter (\<lambda>a. an_type a \<noteq> ''UNFILLED_ORDER_EXCLUDED'') rows)))"
        "dget s' ''anomaly_count_24h'' = PInt (int (length (filter (\<lambda>a. an_type a \<noteq> ''UNFILLED_ORDER_EXCLUDED'') rows')))"
      using build_anomalies [OF s] build_anomalies [OF s'] by metis
    then have "rows' = rows" by (simp add: anomalies_between_visible vis)
    with c show ?thesis by simp
  qed
  have "num_lt (PFloat (proven_ratio secs t st')) m" if "num_lt (PFloat (proven_ratio secs t st)) m" "0 < secs" for secs
    using that ratio_antimono [OF less] proven_ratio_bounds [of secs t st']
    by (intro num_lt_antimono [OF _ that(1)]) (auto simp: fle_def)
  then show "dget s' ''quality_state'' = PStr ''VALID_FRESH_COMPLETE_COVERAGE'' \<longrightarrow> dget s ''quality_state'' = PStr ''VALID_FRESH_COMPLETE_COVERAGE''"
    unfolding quality_iff [OF s] quality_iff [OF s'] disturbed_visible vis by auto
qed

theorem hindsight_adds_nothing_witness:
  "\<exists>s s'. let st = fold store_step [Begin 1699999000000 0 (Some ''a'') []] empty_store;
              st' = fold store_step [Touch ''a'' 1700000000500] st in
     build_snapshot True 1700000000000 (PInt 1) st = Inr s \<and> build_snapshot True 1700000000000 (PInt 1) st' = Inr s'
     \<and> st' \<noteq> st \<and> dget s' ''anomaly_count_24h'' = dget s ''anomaly_count_24h''"
proof -
  define pre where "pre = [Begin 1699999000000 0 (Some ''a'') []]"
  define ops where "ops = [Touch ''a'' 1700000000500]"
  obtain s s' where s: "build_snapshot True 1700000000000 (PInt 1) (fold store_step pre empty_store) = Inr s"
    "build_snapshot True 1700000000000 (PInt 1) (fold store_step ops (fold store_step pre empty_store)) = Inr s'"
    using demo_snapshot_builds by blast
  have later: "\<forall>op \<in> set ops. later_than 1700000000000 op" by (simp add: ops_def)
  have "fold store_step ops (fold store_step pre empty_store) \<noteq> fold store_step pre empty_store"
    by (simp add: pre_def ops_def begin_session_def touch_session_def find_session_def update_session_def sql_ints_def empty_store_def Let_def)
  with s hindsight_adds_nothing [OF later s] show ?thesis unfolding Let_def pre_def ops_def by blast
qed

text \<open>The aggregator's output is what its consumers take: a built snapshot passes verification and is
  written; the file reads back verified as the same content; the run ledger accepts its fields as a
  snapshot payload; and anything else that verifies under the same hash has the same digest.\<close>

theorem snapshot_write_load:
  assumes "build_snapshot ok t m st = Inr s"
  shows "write_snapshot (PDict s) = Inr (Some (PDict (reload_dict s)))
    \<and> load_verified_snapshot (Some (PDict (reload_dict s))) = Inr (PDict (reload_dict s))
    \<and> (\<exists>p. snapshot_payload (reload_dict s) t h reg path el pid = Inr p \<and> dget p ''quality_state'' = dget s ''quality_state'')
    \<and> (\<forall>d. dget d ''snapshot_hash'' = dget s ''snapshot_hash'' \<and> verify_snapshot (PDict d) = Inr () \<longrightarrow>
         canonical_hash (PDict (dpop ''snapshot_hash'' d)) = canonical_hash (PDict (dpop ''snapshot_hash'' s)))"
proof (intro conjI allI impI)
  obtain w1 w24 b n where s: "s = seal_snapshot (snapshot_base t m w1 w24 b n)"
    using sealed_form [OF assms] by blast
  show "write_snapshot (PDict s) = Inr (Some (PDict (reload_dict s)))"
    using verify_sealed [OF assms] by (simp add: write_snapshot_def reload_dict_def)
  show "load_verified_snapshot (Some (PDict (reload_dict s))) = Inr (PDict (reload_dict s))"
    using verify_sealed [OF assms] by (simp add: load_verified_snapshot_def)
  show "\<exists>p. snapshot_payload (reload_dict s) t h reg path el pid = Inr p \<and> dget p ''quality_state'' = dget s ''quality_state''"
    using s by (rule ledger_takes_sealed)
  fix d assume d: "dget d ''snapshot_hash'' = dget s ''snapshot_hash'' \<and> verify_snapshot (PDict d) = Inr ()"
  then have "dget d ''snapshot_hash'' = PStr (canonical_hash (PDict (dpop ''snapshot_hash'' s)))" by (simp add: s seal_fields(7))
  with d show "canonical_hash (PDict (dpop ''snapshot_hash'' d)) = canonical_hash (PDict (dpop ''snapshot_hash'' s))"
    by (simp add: verify_snapshot_def Let_def split: if_splits)
qed

theorem snapshot_write_load_witness:
  "\<exists>s. build_snapshot True 1700000000000 (PInt 1) empty_store = Inr s
     \<and> load_verified_snapshot (Some (PDict (reload_dict s))) = Inr (PDict (reload_dict s))"
proof -
  obtain s where s: "build_snapshot True 1700000000000 (PInt 1) empty_store = Inr s" using demo_snapshot_builds by blast
  with snapshot_write_load [OF s] show ?thesis by blast
qed

end
