(* ===== verification/Hairpin_Cycle.thy ===== *)
theory Hairpin_Cycle
  imports Run_Ledger "HOL-Library.Product_Lexorder"
begin

text \<open>
  The dual-hairpin orchestrator (\<^verbatim>\<open>dual_hairpin_operational_orchestrator.py\<close>): it replays
  an evidence stream, checks the order of the events of each cycle and chains their digests. The
  chain interprets the contract of a hash chain. The events of a cycle are ordered by time stamp text
  and then by position.
\<close>

definition HAIRPIN_EVENTS :: "string list" where
  "HAIRPIN_EVENTS = [''INTEGRATED_FREEZE'', ''D0_ONE_CARD'', ''D0_EXECUTION_RECORD'', ''D1_GATE'', ''D1_EXECUTION_RECORD'', ''FINAL_SETTLEMENT'']"

definition SINGLETONS :: "string list" where
  "SINGLETONS = map (\<lambda>i. HAIRPIN_EVENTS ! i) [0, 2, 4, 5]"

definition HAIRPIN_AUTHORITY :: dict where
  "HAIRPIN_AUTHORITY = [(''action_output'', PStr ''NONE''), (''external_action_authority'', PStr ''NONE''),
     (''external_action_performed'', PBool False), (''machine_may_execute_trade'', PBool False),
     (''capital_decision_authority'', PStr ''USER_ONLY'')]"

definition event_key :: "dict \<Rightarrow> (string \<times> string) res" where
  "event_key event =
     (let kind = py_str (dget_or event ''event_type'' (PStr [])); cycle = py_str (dget_or event ''cycle_id'' (PStr [])) in
      if kind \<notin> set HAIRPIN_EVENTS \<or> cycle = [] then Inl (ValueError ''invalid event identity'') else Inr (cycle, kind))"

text \<open>The first pass: identities, singletons and the rows of each cycle in order of appearance.\<close>

record hairpin_scan =
  hs_seen :: "(string \<times> string) list"
  hs_cycles :: "(string \<times> dict list) list"

fun add_row :: "string \<Rightarrow> dict \<Rightarrow> (string \<times> dict list) list \<Rightarrow> (string \<times> dict list) list" where
  "add_row cycle row [] = [(cycle, [row])]"
| "add_row cycle row ((c, rows) # cs) = (if c = cycle then (c, rows @ [row]) # cs else (c, rows) # add_row cycle row cs)"

definition scan_event :: "pyval \<Rightarrow> hairpin_scan \<Rightarrow> hairpin_scan res" where
  "scan_event v s =
     (if \<not> is_dict v then Inl (ValueError ''event must be an object'')
      else ebind (event_key (dict_of v)) (\<lambda>(cycle, kind).
        if (cycle, kind) \<in> set (hs_seen s) \<and> kind \<in> set SINGLETONS then Inl (ValueError (''singleton event repeated: '' @ kind))
        else Inr \<lparr>hs_seen = (cycle, kind) # hs_seen s, hs_cycles = add_row cycle (dict_of v) (hs_cycles s)\<rparr>))"

fun index_of :: "'a list \<Rightarrow> 'a \<Rightarrow> nat" where
  "index_of [] x = 0"
| "index_of (y # ys) x = (if y = x then 0 else Suc (index_of ys x))"

definition row_kind :: "dict \<Rightarrow> string" where
  "row_kind row = str_of (dget row ''event_type'')"

definition order_key :: "dict \<Rightarrow> string \<times> nat" where
  "order_key row = (py_str (dget_or row ''event_at'' (PStr [])), index_of HAIRPIN_EVENTS (row_kind row))"

definition sequence_violation :: "string list \<Rightarrow> bool" where
  "sequence_violation kinds \<longleftrightarrow>
     list_ex (\<lambda>(a, b). b < a) (zip kinds (tl kinds))
     \<and> (let positions = map (index_of HAIRPIN_EVENTS) kinds in positions \<noteq> sort positions)"

record chain_entry =
  ce_type :: string
  ce_previous :: string
  ce_event :: string
  ce_chain :: string

definition link_body :: "string \<Rightarrow> string \<Rightarrow> pyval" where
  "link_body previous event_hash = PDict [(''previous'', PStr previous), (''event'', PStr event_hash)]"

definition event_body :: "dict \<Rightarrow> dict" where
  "event_body row = filter (\<lambda>(k, v). k \<notin> {''event_sha256'', ''chain_sha256''}) row"

definition audit_row :: "dict \<Rightarrow> string \<times> chain_entry list \<Rightarrow> (string \<times> chain_entry list) res" where
  "audit_row row acc =
     (case acc of (previous, audit) \<Rightarrow>
     ebind (canonical_hash_strict (PDict (event_body row))) (\<lambda>event_hash.
     if dget row ''event_sha256'' \<noteq> PNone \<and> \<not> py_eq (dget row ''event_sha256'') (PStr event_hash)
       then Inl (ValueError ''event hash mismatch'')
     else ebind (canonical_hash_strict (link_body previous event_hash)) (\<lambda>chain_hash.
       if dget row ''chain_sha256'' \<noteq> PNone \<and> \<not> py_eq (dget row ''chain_sha256'') (PStr chain_hash)
         then Inl (ValueError ''chain hash mismatch'')
       else Inr (chain_hash, audit @ [\<lparr>ce_type = row_kind row, ce_previous = previous, ce_event = event_hash, ce_chain = chain_hash\<rparr>]))))"

record hairpin_cycle =
  hc_types :: "string list"
  hc_complete :: bool
  hc_audit :: "chain_entry list"
  hc_chain :: string

definition replay_cycle :: "string \<times> dict list \<Rightarrow> (string \<times> hairpin_cycle) res" where
  "replay_cycle x =
     (case x of (cycle, rows) \<Rightarrow>
     (let ordered = sort_key order_key rows; kinds = map row_kind ordered in
      if sequence_violation kinds then Inl (ValueError (''event sequence violation for cycle '' @ cycle))
      else ebind (efold audit_row ordered (GENESIS_HASH, [])) (\<lambda>(previous, audit).
        Inr (cycle, \<lparr>hc_types = kinds, hc_complete = (kinds = HAIRPIN_EVENTS), hc_audit = audit, hc_chain = previous\<rparr>))))"

definition replay_cycles :: "pyval list \<Rightarrow> (string \<times> hairpin_cycle) list res" where
  "replay_cycles events =
     ebind (efold scan_event events \<lparr>hs_seen = [], hs_cycles = []\<rparr>) (\<lambda>s. emap replay_cycle (hs_cycles s))"

definition cycle_value :: "hairpin_cycle \<Rightarrow> pyval" where
  "cycle_value c = PDict
     [(''event_types'', PList (map PStr (hc_types c))), (''complete'', PBool (hc_complete c)),
      (''audit'', PList (map (\<lambda>e. PDict [(''event_type'', PStr (ce_type e)), (''event_sha256'', PStr (ce_event e)),
          (''chain_sha256'', PStr (ce_chain e))]) (hc_audit c))),
      (''chain_sha256'', PStr (hc_chain c))]"

definition replay_events :: "pyval list \<Rightarrow> dict res" where
  "replay_events events =
     ebind (replay_cycles events) (\<lambda>cycles.
     Inr [(''schema_version'', PStr ''CRT_DUAL_HAIRPIN_OPERATIONAL_ORCHESTRATOR_V0.2.1''),
          (''cycles'', PDict (map (\<lambda>(c, x). (c, cycle_value x)) cycles)), (''authority'', PDict HAIRPIN_AUTHORITY)])"

definition build_event :: "string \<Rightarrow> string \<Rightarrow> string \<Rightarrow> dict option \<Rightarrow> dict res" where
  "build_event cycle_id kind event_at payload =
     (if kind \<notin> set HAIRPIN_EVENTS then Inl (ValueError ''unknown event type'')
      else (let body = [(''cycle_id'', PStr cycle_id), (''event_type'', PStr kind), (''event_at'', PStr event_at),
                (''payload'', PDict (case payload of Some d \<Rightarrow> d | None \<Rightarrow> []))] in
        ebind (canonical_hash_strict (PDict body)) (\<lambda>h. Inr (body @ [(''event_sha256'', PStr h)]))))"

section \<open>The chain of a cycle\<close>

definition link_digest :: "chain_entry \<Rightarrow> string" where
  "link_digest e = canonical_hash (link_body (ce_previous e) (ce_event e))"

interpretation hairpin: hash_chain "\<lambda>e. (ce_previous e, ce_event e)" ce_previous ce_chain link_digest
  by unfold_locales simp

lemma link_finite [simp]: "all_finite (link_body p e)"
  by (simp add: link_body_def)

lemma audit_row_Inr:
  "audit_row row (previous, audit) = Inr (h, audit') \<longleftrightarrow>
     all_finite (PDict (event_body row))
     \<and> (dget row ''event_sha256'' = PNone \<or> dget row ''event_sha256'' = PStr (canonical_hash (PDict (event_body row))))
     \<and> h = canonical_hash (link_body previous (canonical_hash (PDict (event_body row))))
     \<and> (dget row ''chain_sha256'' = PNone \<or> dget row ''chain_sha256'' = PStr h)
     \<and> audit' = audit @ [\<lparr>ce_type = row_kind row, ce_previous = previous, ce_event = canonical_hash (PDict (event_body row)), ce_chain = h\<rparr>]"
  by (auto simp: audit_row_def ebind_Inr_iff canonical_hash_strict_iff split: if_splits simp del: all_finite.simps(2))

lemma audit_chain:
  assumes "efold audit_row rows (h, audit) = Inr (h', audit')"
  shows "\<exists>new. audit' = audit @ new \<and> hairpin.chained h new \<and> hairpin.head h new = h'
    \<and> map ce_event new = map (\<lambda>r. canonical_hash (PDict (event_body r))) rows \<and> map ce_type new = map row_kind rows"
  using assms
proof (induction rows arbitrary: h audit)
  case (Cons row rows)
  then obtain h1 audit1 where step: "audit_row row (h, audit) = Inr (h1, audit1)" "efold audit_row rows (h1, audit1) = Inr (h', audit')"
    by (auto simp: ebind_Inr_iff)
  let ?e = "\<lparr>ce_type = row_kind row, ce_previous = h, ce_event = canonical_hash (PDict (event_body row)), ce_chain = h1\<rparr>"
  from step(1) have h1: "h1 = link_digest ?e" "audit1 = audit @ [?e]" unfolding audit_row_Inr by (auto simp: link_digest_def)
  obtain new where "audit' = audit1 @ new" "hairpin.chained h1 new" "hairpin.head h1 new = h'"
    "map ce_event new = map (\<lambda>r. canonical_hash (PDict (event_body r))) rows" "map ce_type new = map row_kind rows"
    using Cons.IH [OF step(2)] by blast
  with h1 show ?case by (intro exI [of _ "?e # new"]) simp
qed simp

lemma replay_cycle_Inr:
  assumes "replay_cycle (cycle, rows) = Inr (cycle', x)"
  shows "cycle' = cycle \<and> hairpin.chained GENESIS_HASH (hc_audit x) \<and> hairpin.head GENESIS_HASH (hc_audit x) = hc_chain x
    \<and> map ce_event (hc_audit x) = map (\<lambda>r. canonical_hash (PDict (event_body r))) (sort_key order_key rows)
    \<and> hc_types x = map row_kind (sort_key order_key rows) \<and> \<not> sequence_violation (hc_types x)
    \<and> (hc_complete x \<longleftrightarrow> hc_types x = HAIRPIN_EVENTS)"
proof -
  obtain h audit where a: "efold audit_row (sort_key order_key rows) (GENESIS_HASH, []) = Inr (h, audit)"
    and x: "x = \<lparr>hc_types = map row_kind (sort_key order_key rows), hc_complete = (map row_kind (sort_key order_key rows) = HAIRPIN_EVENTS),
        hc_audit = audit, hc_chain = h\<rparr>" "cycle' = cycle" "\<not> sequence_violation (map row_kind (sort_key order_key rows))"
    using assms by (auto simp: replay_cycle_def Let_def ebind_Inr_iff split: if_splits)
  from audit_chain [OF a] x show ?thesis by auto
qed

lemma map_eq_on: "map f xs = map f ys \<Longrightarrow> (\<And>x y. x \<in> set xs \<Longrightarrow> y \<in> set ys \<Longrightarrow> f x = f y \<Longrightarrow> g x = g y) \<Longrightarrow> map g xs = map g ys"
proof (induction xs arbitrary: ys)
  case (Cons x xs)
  then obtain y ys' where ys: "ys = y # ys'" "f x = f y" "map f xs = map f ys'" by (cases ys) auto
  have "map g xs = map g ys'" by (rule Cons.IH [OF ys(3)]) (use Cons.prems(2) ys(1) in auto)
  with Cons.prems(2) [of x y] ys show ?case by simp
qed simp

section \<open>Properties\<close>

text \<open>C26: The chain hash of a cycle fixes its evidence: when two replays of a cycle end in the same
  chain hash, their events, in the replayed order and apart from the two hash fields, have the same
  canonical texts. Excepted are two different links, or two events with different texts, that have the
  same digest, and, for replays with different numbers of events, a link whose digest is the all-zero
  start value.\<close>

theorem hairpin_chain_fixes_evidence:
  assumes "replay_cycle (cycle, rows) = Inr (cycle, x)" and "replay_cycle (cycle, rows') = Inr (cycle, y)"
    and "hc_chain x = hc_chain y"
    and link: "\<And>d e. d \<in> set (hc_audit x) \<Longrightarrow> e \<in> set (hc_audit y) \<Longrightarrow> link_digest d = link_digest e \<Longrightarrow>
      (ce_previous d, ce_event d) = (ce_previous e, ce_event e)"
    and event: "\<And>r r'. r \<in> set rows \<Longrightarrow> r' \<in> set rows' \<Longrightarrow>
      canonical_hash (PDict (event_body r)) = canonical_hash (PDict (event_body r')) \<Longrightarrow>
      json_text (PDict (event_body r)) = json_text (PDict (event_body r'))"
    and zero: "length rows = length rows' \<or> GENESIS_HASH \<notin> link_digest ` (set (hc_audit x) \<union> set (hc_audit y))"
  shows "map (\<lambda>r. json_text (PDict (event_body r))) (sort_key order_key rows)
    = map (\<lambda>r. json_text (PDict (event_body r))) (sort_key order_key rows')"
proof -
  note x = replay_cycle_Inr [OF assms(1)] and y = replay_cycle_Inr [OF assms(2)]
  have "length (hc_audit x) = length rows" "length (hc_audit y) = length rows'"
    using arg_cong [of _ _ length, OF x [THEN conjunct2, THEN conjunct2, THEN conjunct2, THEN conjunct1]]
      arg_cong [of _ _ length, OF y [THEN conjunct2, THEN conjunct2, THEN conjunct2, THEN conjunct1]] by simp_all
  then have len: "length (hc_audit x) = length (hc_audit y)"
    using hairpin.chain_length [of GENESIS_HASH "hc_audit x" "hc_audit y"] x y assms(3) link zero by auto
  have "map (\<lambda>e. (ce_previous e, ce_event e)) (hc_audit x) = map (\<lambda>e. (ce_previous e, ce_event e)) (hc_audit y)"
    by (rule hairpin.chain_determined [of GENESIS_HASH]) (use x y assms(3) len link in auto)
  from arg_cong [OF this, of "map snd"] have "map ce_event (hc_audit x) = map ce_event (hc_audit y)" by (simp add: comp_def)
  then have "map (\<lambda>r. canonical_hash (PDict (event_body r))) (sort_key order_key rows)
      = map (\<lambda>r. canonical_hash (PDict (event_body r))) (sort_key order_key rows')" using x y by simp
  then show ?thesis by (rule map_eq_on) (use event in auto)
qed

definition demo_event :: "string \<Rightarrow> string \<Rightarrow> dict" where
  "demo_event kind event_at = [(''cycle_id'', PStr ''c''), (''event_type'', PStr kind), (''event_at'', PStr event_at), (''payload'', PDict [])]"

lemma demo_row: "audit_row (demo_event k t) (p, audit) = Inr (canonical_hash (link_body p (canonical_hash (PDict (demo_event k t)))),
   audit @ [\<lparr>ce_type = k, ce_previous = p, ce_event = canonical_hash (PDict (demo_event k t)),
      ce_chain = canonical_hash (link_body p (canonical_hash (PDict (demo_event k t))))\<rparr>])"
  unfolding audit_row_Inr by (simp add: demo_event_def event_body_def row_kind_def)

text \<open>The same event as another process wrote it: other key order, and its digest attached.\<close>

definition demo_sent :: "string \<Rightarrow> string \<Rightarrow> dict" where
  "demo_sent k t = reload_dict (demo_event k t) @ [(''event_sha256'', PStr (canonical_hash (PDict (demo_event k t))))]"

lemma demo_event_body: "event_body (demo_event k t) = demo_event k t"
  by (simp add: event_body_def demo_event_def)

lemma demo_reload:
  "reload_dict (demo_event k t) = [(''cycle_id'', PStr ''c''), (''event_at'', PStr t), (''event_type'', PStr k), (''payload'', PDict [])]"
  by (simp add: reload_dict_def reload_items_map demo_event_def)

lemma demo_sent_body: "event_body (demo_sent k t) = reload_dict (demo_event k t)"
  by (simp add: demo_sent_def event_body_def demo_reload)

lemma demo_sent_text: "json_text (PDict (event_body (demo_sent k t))) = json_text (PDict (demo_event k t))"
  by (simp only: demo_sent_body reload_dict_text)

lemma demo_sent_row: "audit_row (demo_sent k t) (p, audit) = audit_row (demo_event k t) (p, audit)"
proof -
  have fields: "dget (demo_sent k t) ''event_sha256'' = PStr (canonical_hash (PDict (demo_event k t)))"
    "dget (demo_sent k t) ''chain_sha256'' = PNone" "row_kind (demo_sent k t) = k"
    "dget (demo_event k t) ''event_sha256'' = PNone" "dget (demo_event k t) ''chain_sha256'' = PNone" "row_kind (demo_event k t) = k"
    unfolding row_kind_def demo_sent_def demo_reload by (simp_all add: demo_event_def)
  have "all_finite (PDict (reload_dict (demo_event k t)))" "all_finite (PDict (demo_event k t))"
    unfolding demo_reload by (simp_all add: demo_event_def)
  then show ?thesis
    by (simp add: audit_row_def fields demo_sent_body demo_event_body canonical_hash_strict_Inr del: all_finite.simps)
qed

lemma demo_replays:
  assumes "k \<in> set HAIRPIN_EVENTS"
  shows "\<exists>h l. \<forall>r \<in> {demo_event k t, demo_sent k t}. replay_cycle (''c'', [r]) =
    Inr (''c'', \<lparr>hc_types = [k], hc_complete = False, hc_audit = [l], hc_chain = h\<rparr>)"
proof -
  have "row_kind (demo_sent k t) = k" "row_kind (demo_event k t) = k"
    unfolding row_kind_def demo_sent_def demo_reload by (simp_all add: demo_event_def)
  moreover have "[k] \<noteq> HAIRPIN_EVENTS" by (simp add: HAIRPIN_EVENTS_def)
  ultimately show ?thesis by (simp add: replay_cycle_def sequence_violation_def demo_sent_row demo_row Let_def)
qed

theorem hairpin_chain_fixes_evidence_witness:
  "\<exists>x y. replay_cycle (''c'', [demo_event ''D1_GATE'' ''1'']) = Inr (''c'', x)
     \<and> replay_cycle (''c'', [demo_sent ''D1_GATE'' ''1'']) = Inr (''c'', y) \<and> hc_chain x = hc_chain y
     \<and> demo_event ''D1_GATE'' ''1'' \<noteq> event_body (demo_sent ''D1_GATE'' ''1'')
     \<and> json_text (PDict (event_body (demo_event ''D1_GATE'' ''1''))) = json_text (PDict (event_body (demo_sent ''D1_GATE'' ''1'')))"
proof -
  let ?e = "demo_event ''D1_GATE'' ''1''" and ?s = "demo_sent ''D1_GATE'' ''1''"
  have k: "''D1_GATE'' \<in> set HAIRPIN_EVENTS" by (simp add: HAIRPIN_EVENTS_def)
  obtain h l where x: "replay_cycle (''c'', [?e]) = Inr (''c'', \<lparr>hc_types = [''D1_GATE''], hc_complete = False, hc_audit = [l], hc_chain = h\<rparr>)"
      and y: "replay_cycle (''c'', [?s]) = Inr (''c'', \<lparr>hc_types = [''D1_GATE''], hc_complete = False, hc_audit = [l], hc_chain = h\<rparr>)"
    using demo_replays [OF k, of "''1''"] by blast
  have "map (\<lambda>r. json_text (PDict (event_body r))) (sort_key order_key [?e]) = map (\<lambda>r. json_text (PDict (event_body r))) (sort_key order_key [?s])"
    by (rule hairpin_chain_fixes_evidence [OF x y]) (simp_all add: demo_sent_text demo_event_body del: json_text.simps)
  moreover have "?e \<noteq> event_body ?s" by (simp add: demo_sent_body demo_reload) (simp add: demo_event_def)
  ultimately show ?thesis using x y by auto
qed

text \<open>The order check compares the names of neighbouring events before it looks at positions: a cycle
  whose names happen to be in alphabetical order is never checked. An execution record stamped before
  the card it records is accepted.\<close>

theorem hairpin_accepts_out_of_order:
  "\<exists>x. replay_cycles [PDict (demo_event ''D0_ONE_CARD'' ''2''), PDict (demo_event ''D0_EXECUTION_RECORD'' ''1'')] = Inr [(''c'', x)]
     \<and> hc_types x = [''D0_EXECUTION_RECORD'', ''D0_ONE_CARD'']
     \<and> map (index_of HAIRPIN_EVENTS) (hc_types x) = [2, 1]"
proof -
  have "efold scan_event [PDict (demo_event ''D0_ONE_CARD'' ''2''), PDict (demo_event ''D0_EXECUTION_RECORD'' ''1'')] \<lparr>hs_seen = [], hs_cycles = []\<rparr>
      = Inr \<lparr>hs_seen = [(''c'', ''D0_EXECUTION_RECORD''), (''c'', ''D0_ONE_CARD'')],
             hs_cycles = [(''c'', [demo_event ''D0_ONE_CARD'' ''2'', demo_event ''D0_EXECUTION_RECORD'' ''1''])]\<rparr>"
    by (simp add: scan_event_def event_key_def demo_event_def dget_or_def HAIRPIN_EVENTS_def SINGLETONS_def)
  moreover have "sort_key order_key [demo_event ''D0_ONE_CARD'' ''2'', demo_event ''D0_EXECUTION_RECORD'' ''1'']
      = [demo_event ''D0_EXECUTION_RECORD'' ''1'', demo_event ''D0_ONE_CARD'' ''2'']"
  proof -
    have "order_key (demo_event k t) = (t, index_of HAIRPIN_EVENTS k)" for k t
      by (simp add: order_key_def row_kind_def demo_event_def dget_or_def)
    moreover have "(''1'', index_of HAIRPIN_EVENTS ''D0_EXECUTION_RECORD'') \<le> (''2'', index_of HAIRPIN_EVENTS ''D0_ONE_CARD'')"
      "\<not> (''2'', index_of HAIRPIN_EVENTS ''D0_ONE_CARD'') \<le> (''1'', index_of HAIRPIN_EVENTS ''D0_EXECUTION_RECORD'')"
      by code_simp+
    ultimately show ?thesis by simp
  qed
  moreover have "row_kind (demo_event k t) = k" for k t by (simp add: row_kind_def demo_event_def)
  moreover have "\<not> sequence_violation [''D0_EXECUTION_RECORD'', ''D0_ONE_CARD'']" by code_simp
  ultimately show ?thesis
    by (simp add: replay_cycles_def replay_cycle_def demo_row Let_def) (simp add: HAIRPIN_EVENTS_def)
qed

end
