(* ===== verification/Responses_Adapter.thy ===== *)
theory Responses_Adapter
  imports Transport_Boundary "HOL-Library.Multiset"
begin

text \<open>
  The request envelope and the delivery receipt of the model provider
  (\<^verbatim>\<open>openai_responses_adapter_contract.py\<close>). The JSON reader, the response format of a
  structured Commander judgment and the validator of a capital envelope are arguments.
\<close>

section \<open>Contract\<close>

definition REANALYSIS_SEQUENCE :: "string list" where
  "REANALYSIS_SEQUENCE = [''CATALYST'', ''AMPLIFIER'', ''PERSISTENCE'', ''ACCEPTANCE'', ''CONTRADICTIONS'', ''MISSING_EVIDENCE'']"
definition CAUSAL_GUARDRAILS :: "string list" where
  "CAUSAL_GUARDRAILS = [''TEMPORAL_ORDER_IS_NOT_CAUSATION'', ''TRANSIENT_PRICE_CROSSING_IS_NOT_ACCEPTANCE_OR_REAL_DEMAND'',
     ''CONTRADICTORY_EVIDENCE_MUST_BE_SURFACED'', ''MISSING_EVIDENCE_MUST_NOT_BE_IMPUTED_OR_GUESSED'']"
definition EVIDENCE_RULES :: "string list" where
  "EVIDENCE_RULES = [''SEPARATE_OBSERVATION_FROM_INFERENCE'', ''STATE_UNRESOLVED_CAUSALITY_EXPLICITLY'', ''USE_LATEST_REQUIRED_INPUTS'']"
definition GOVERNANCE_GUARDRAILS :: "string list" where
  "GOVERNANCE_GUARDRAILS = [''RESEARCH_OVERLAY_CANNOT_PROMOTE_FORMAL_SEASON'', ''NO_AUTOMATIC_BUY_SELL'', ''NO_EXTERNAL_ACTION'']"

definition CONTRACT_VERSION :: string where "CONTRACT_VERSION = ''CRT_OPENAI_RESPONSES_ADAPTER_CONTRACT_V0.1''"
definition SMOKE_GUARDRAILS_VERSION :: string where "SMOKE_GUARDRAILS_VERSION = ''CRT_LIVE_SMOKE_TEST_GUARDRAILS_V0.1''"
definition RESPONSES_PATH :: string where "RESPONSES_PATH = ''/v1/responses''"
definition API_KEY_ENV_VAR :: string where "API_KEY_ENV_VAR = ''OPENAI_API_KEY''"
definition SMOKE_MODEL :: string where "SMOKE_MODEL = ''gpt-5.6-luna''"
definition MAX_INPUT_UTF8_BYTES :: nat where "MAX_INPUT_UTF8_BYTES = 16 * 1024"
definition MAX_OUTPUT_TOKENS :: int where "MAX_OUTPUT_TOKENS = 1800"
definition MAX_ATTEMPTS :: int where "MAX_ATTEMPTS = 1"
definition AUTO_RETRY :: bool where "AUTO_RETRY = False"

definition REQUEST_BODY_FIELDS :: "string list" where
  "REQUEST_BODY_FIELDS = [''model'', ''instructions'', ''input'', ''store'', ''background'', ''max_output_tokens'']"

definition CAPITAL_REQUEST_VERSIONS :: "string list" where
  "CAPITAL_REQUEST_VERSIONS = [''CRT_CAPITAL_RECOMMENDATION_REQUEST_V0.1'', ''CRT_CAPITAL_FULL_DECISION_OFFLINE_V0.1'']"

definition newline :: string where "newline = [CHR 0x0A]"

definition build_instructions :: "bool \<Rightarrow> string" where
  "build_instructions structured =
     (if structured then
        ''Return only the requested Commander observation judgment JSON. Never invent missing ''
        @ ''prices, reasons, conditions or evidence. Refuse if evidence is insufficient. ''
        @ ''This is not a capital recommendation or permission to arm or trade.'' @ newline
      else [])
     @ join newline
        [''CRT post-wake reanalysis contract.'',
         ''Sequence: '' @ join '' > '' REANALYSIS_SEQUENCE,
         ''Causal guardrails: '' @ join '' | '' CAUSAL_GUARDRAILS,
         ''Evidence rules: '' @ join '' | '' EVIDENCE_RULES,
         ''Governance guardrails: '' @ join '' | '' GOVERNANCE_GUARDRAILS,
         ''Use only the supplied minimized bridge payload.'',
         ''Do not infer missing evidence. Do not perform external actions.'']"

definition smoke_guardrails :: dict where
  "smoke_guardrails =
     [(''version'', PStr SMOKE_GUARDRAILS_VERSION), (''mode'', PStr ''ONE_SHOT''), (''model'', PStr SMOKE_MODEL),
      (''max_input_utf8_bytes'', PInt (int MAX_INPUT_UTF8_BYTES)), (''max_output_tokens'', PInt MAX_OUTPUT_TOKENS),
      (''max_attempts'', PInt MAX_ATTEMPTS), (''auto_retry'', PBool AUTO_RETRY)]"

section \<open>Validating an envelope\<close>

definition transport_error :: "dict \<Rightarrow> string option" where
  "transport_error transport =
     (if \<not> py_eq (dget transport ''method'') (PStr ''POST'') \<or> \<not> py_eq (dget transport ''path'') (PStr RESPONSES_PATH)
        then Some ''Responses transport mismatch''
      else if \<not> py_eq (dget transport ''auth_env_var'') (PStr API_KEY_ENV_VAR) then Some ''Unexpected API key environment variable''
      else if dget transport ''secret_value_included'' \<noteq> PBool False then Some ''Secret values must not be included''
      else None)"

definition body_error :: "dict \<Rightarrow> dict \<Rightarrow> string option" where
  "body_error body envelope =
     (let structured = dhas body ''text'' in
      if set (keys body) \<noteq> set (REQUEST_BODY_FIELDS @ (if structured then [''text''] else []))
        then Some ''Responses request body field set mismatch''
      else if \<not> py_eq (dget body ''model'') (PStr SMOKE_MODEL) then Some ''Smoke request model mismatch''
      else if \<not> py_eq (dget body ''instructions'') (PStr (build_instructions structured)) then Some ''Smoke instructions mismatch''
      else if \<not> py_eq (dget body ''max_output_tokens'') (PInt MAX_OUTPUT_TOKENS) then Some ''Smoke output token ceiling mismatch''
      else if dget body ''store'' \<noteq> PBool False \<or> dget body ''background'' \<noteq> PBool False
        then Some ''Responses persistence/background must remain disabled''
      else if dhas body ''tools'' \<or> dget envelope ''tools_allowed'' \<noteq> PBool False then Some ''Tools are forbidden by this contract''
      else if dget envelope ''network_performed'' \<noteq> PBool False then Some ''Offline contract must not perform network I/O''
      else if \<not> py_eq (dget envelope ''production'') (PStr ''NOT_APPROVED'') then Some ''Production must remain NOT_APPROVED''
      else if \<not> py_eq (dget envelope ''external_action_authority'') (PStr ''NONE'') then Some ''EAA must remain NONE''
      else if \<not> py_eq (dget envelope ''action_output'') (PStr ''NONE'') then Some ''Action output must remain NONE''
      else if \<not> is_str (dget body ''input'') then Some ''Smoke input must be serialized text''
      else if MAX_INPUT_UTF8_BYTES < length (str_of (dget body ''input'')) then Some ''Smoke input exceeds UTF-8 byte ceiling''
      else None)"

text \<open>The bridge payload a request body carries.\<close>

definition carried_payload :: "(string \<Rightarrow> pyval res) \<Rightarrow> (pyval \<Rightarrow> pyval res) \<Rightarrow> dict \<Rightarrow> pyval res" where
  "carried_payload loads response_format body =
     ebind (loads (str_of (dget body ''input''))) (\<lambda>decoded.
     if dhas body ''text'' then
       (if \<not> is_dict decoded \<or> set (keys (dict_of decoded)) \<noteq> {''bridge_payload'', ''commander_judgment_request''}
          then Inl (ValueError ''Structured input field set mismatch'')
        else ebind (response_format (dget (dict_of decoded) ''commander_judgment_request'')) (\<lambda>fmt.
          if \<not> py_eq (dget body ''text'') (PDict [(''format'', fmt)]) then Inl (ValueError ''Commander structured output contract mismatch'')
          else Inr (dget (dict_of decoded) ''bridge_payload'')))
     else Inr decoded)"

definition validate_request_envelope ::
  "(string \<Rightarrow> pyval res) \<Rightarrow> (pyval \<Rightarrow> pyval res) \<Rightarrow> (dict \<Rightarrow> dict res) \<Rightarrow> dict \<Rightarrow> dict res" where
  "validate_request_envelope loads response_format validate_envelope envelope =
     ebind (in_strs (dget envelope ''contract_version'') CAPITAL_REQUEST_VERSIONS) (\<lambda>capital.
     if capital then validate_envelope envelope
     else if \<not> py_eq (dget envelope ''contract_version'') (PStr CONTRACT_VERSION)
       then Inl (ValueError ''Adapter contract version mismatch'')
     else if \<not> is_dict (dget envelope ''transport'') \<or> \<not> is_dict (dget envelope ''request_body'')
       then Inl (ValueError ''Adapter envelope incomplete'')
     else if \<not> py_eq (dget envelope ''smoke_guardrails'') (PDict smoke_guardrails)
       then Inl (ValueError ''Smoke guardrails mismatch'')
     else (case transport_error (dict_of (dget envelope ''transport'')) of
         Some m \<Rightarrow> Inl (ValueError m)
       | None \<Rightarrow>
         (let body = dict_of (dget envelope ''request_body'') in
          case body_error body envelope of
            Some m \<Rightarrow> Inl (ValueError m)
          | None \<Rightarrow>
            ebind (carried_payload loads response_format body) (\<lambda>decoded.
            ebind (validate_bridge_payload decoded) (\<lambda>(event_id, payload_hash).
            if dget envelope ''event_id'' \<noteq> PStr event_id then Inl (ValueError ''Event identity mismatch'')
            else if dget envelope ''bridge_payload_hash'' \<noteq> PStr payload_hash then Inl (ValueError ''Payload hash mismatch'')
            else if \<not> is_len64 (dget envelope ''request_hash'') then Inl (ValueError ''Request hash unavailable'')
            else if canonical_hash (PDict (dpop ''request_hash'' envelope)) \<noteq> str_of (dget envelope ''request_hash'')
              then Inl (ValueError ''Request hash mismatch'')
            else Inr envelope)))))"

section \<open>Building an envelope\<close>

definition envelope_base :: "string \<Rightarrow> string \<Rightarrow> string \<Rightarrow> pyval option \<Rightarrow> dict" where
  "envelope_base event_id payload_hash serialized_input response_format =
     [(''contract_version'', PStr CONTRACT_VERSION), (''smoke_guardrails'', PDict smoke_guardrails),
      (''transport'', PDict [(''method'', PStr ''POST''), (''path'', PStr RESPONSES_PATH), (''auth_env_var'', PStr API_KEY_ENV_VAR),
         (''secret_value_included'', PBool False)]),
      (''event_id'', PStr event_id), (''bridge_payload_hash'', PStr payload_hash),
      (''request_body'', PDict ([(''model'', PStr SMOKE_MODEL), (''instructions'', PStr (build_instructions (response_format \<noteq> None))),
         (''input'', PStr serialized_input), (''store'', PBool False), (''background'', PBool False),
         (''max_output_tokens'', PInt MAX_OUTPUT_TOKENS)]
         @ (case response_format of None \<Rightarrow> [] | Some fmt \<Rightarrow> [(''text'', PDict [(''format'', fmt)])]))),
      (''tools_allowed'', PBool False), (''network_performed'', PBool False), (''production'', PStr ''NOT_APPROVED''),
      (''external_action_authority'', PStr ''NONE''), (''action_output'', PStr ''NONE'')]"

definition build_request_envelope ::
  "(string \<Rightarrow> pyval res) \<Rightarrow> (pyval \<Rightarrow> pyval res) \<Rightarrow> (dict \<Rightarrow> dict res) \<Rightarrow> pyval \<Rightarrow> string \<Rightarrow> pyval option \<Rightarrow> dict res" where
  "build_request_envelope loads response_format validate_envelope bridge_payload model judgment_context =
     ebind (validate_bridge_payload bridge_payload) (\<lambda>(event_id, payload_hash).
     if model \<noteq> SMOKE_MODEL then Inl (ValueError (''Smoke model must be exactly '' @ SMOKE_MODEL))
     else ebind (case judgment_context of None \<Rightarrow> Inr None | Some c \<Rightarrow> ebind (response_format c) (\<lambda>f. Inr (Some f))) (\<lambda>fmt.
     (let serialized_input = json_text (case judgment_context of None \<Rightarrow> bridge_payload
            | Some c \<Rightarrow> PDict [(''bridge_payload'', bridge_payload), (''commander_judgment_request'', c)]) in
      if MAX_INPUT_UTF8_BYTES < length serialized_input then Inl (ValueError ''Smoke input exceeds UTF-8 byte ceiling'')
      else (let envelope = envelope_base event_id payload_hash serialized_input fmt in
        validate_request_envelope loads response_format validate_envelope
          (envelope @ [(''request_hash'', PStr (canonical_hash (PDict envelope)))])))))"

definition classify_http_result :: "int \<Rightarrow> int \<Rightarrow> string res" where
  "classify_http_result status_code attempt_count =
     (if attempt_count \<noteq> MAX_ATTEMPTS then Inl (ValueError ''Smoke attempt count must be exactly one'')
      else Inr (if 200 \<le> status_code \<and> status_code < 300 then ''SUCCESS'' else ''TERMINAL''))"

section \<open>The delivery receipt\<close>

definition part_text :: "pyval \<Rightarrow> string list" where
  "part_text part =
     (let t = dget (dict_of part) ''text'' in
      if is_dict part \<and> py_eq (dget (dict_of part) ''type'') (PStr ''output_text'') \<and> is_str t \<and> str_of t \<noteq> [] then [str_of t] else [])"

definition item_texts :: "pyval \<Rightarrow> string list res" where
  "item_texts item =
     (if \<not> is_dict item \<or> \<not> py_eq (dget (dict_of item) ''type'') (PStr ''message'') then Inr []
      else ebind (py_iter (dget_or (dict_of item) ''content'' (PList []))) (\<lambda>parts. Inr (concat (map part_text parts))))"

definition build_delivery_receipt :: "pyval \<Rightarrow> string \<Rightarrow> string \<Rightarrow> string \<Rightarrow> dict res" where
  "build_delivery_receipt response event_id bridge_payload_hash request_hash =
     ebind (py_get response ''status'') (\<lambda>status.
     if \<not> py_eq status (PStr ''completed'') then Inl (ValueError ''Responses result is not completed'')
     else
     (let response_id = dget (dict_of response) ''id''; model = dget (dict_of response) ''model''; output = dget (dict_of response) ''output'' in
      if \<not> is_str response_id \<or> str_of response_id = [] then Inl (ValueError ''Response id unavailable'')
      else if \<not> py_eq model (PStr SMOKE_MODEL) then Inl (ValueError ''Response model does not match smoke model'')
      else if \<not> is_list output then Inl (ValueError ''Response output unavailable'')
      else ebind (emap item_texts (list_of output)) (\<lambda>chunks.
      (let output_text = strip (join newline (concat chunks)) in
       if output_text = [] then Inl (ValueError ''Response output text unavailable'')
       else (let receipt =
         [(''contract_version'', PStr CONTRACT_VERSION), (''state'', PStr ''RESPONSES_DELIVERY_RECEIPT_READY''),
          (''event_id'', PStr event_id), (''bridge_payload_hash'', PStr bridge_payload_hash), (''request_hash'', PStr request_hash),
          (''response_id'', response_id), (''response_status'', PStr ''completed''), (''model'', model),
          (''response_hash'', PStr (canonical_hash response)), (''output_text'', PStr output_text),
          (''production'', PStr ''NOT_APPROVED''), (''external_action_authority'', PStr ''NONE''), (''action_output'', PStr ''NONE'')]
         in Inr (receipt @ [(''receipt_hash'', PStr (canonical_hash (PDict receipt)))]))))))"

section \<open>What a built envelope holds\<close>

lemma validate_request_envelope_Inr:
  assumes "validate_request_envelope loads fmt ve e = Inr e'" and "dget e ''contract_version'' = PStr CONTRACT_VERSION"
  shows "e' = e"
  using assms by (auto simp: validate_request_envelope_def CONTRACT_VERSION_def CAPITAL_REQUEST_VERSIONS_def ebind_Inr_iff Let_def
      split: option.splits if_splits)

lemma build_request_envelope_Inr:
  assumes "build_request_envelope loads fmt ve payload model ctx = Inr e"
  obtains event_id payload_hash h where "validate_bridge_payload payload = Inr (event_id, payload_hash)"
    and "dget e ''event_id'' = PStr event_id" and "dget e ''bridge_payload_hash'' = PStr payload_hash"
    and "dget e ''request_hash'' = PStr h" and "hex64 h"
proof -
  obtain event_id payload_hash inp f where v: "validate_bridge_payload payload = Inr (event_id, payload_hash)"
    and e: "validate_request_envelope loads fmt ve (envelope_base event_id payload_hash inp f
        @ [(''request_hash'', PStr (canonical_hash (PDict (envelope_base event_id payload_hash inp f))))]) = Inr e"
    using assms by (auto simp: build_request_envelope_def Let_def ebind_Inr_iff split: if_splits prod.splits)
  have "e = envelope_base event_id payload_hash inp f @ [(''request_hash'', PStr (canonical_hash (PDict (envelope_base event_id payload_hash inp f))))]"
    by (rule validate_request_envelope_Inr [OF e]) (simp add: envelope_base_def)
  then show ?thesis
    by (intro that [OF v, of "canonical_hash (PDict (envelope_base event_id payload_hash inp f))"])
      (simp_all add: envelope_base_def canonical_hash_hex64)
qed

section \<open>The envelope of a plain delivery\<close>

definition sealed_envelope :: "string \<Rightarrow> string \<Rightarrow> string \<Rightarrow> dict" where
  "sealed_envelope eid h serialized = envelope_base eid h serialized None
     @ [(''request_hash'', PStr (canonical_hash (PDict (envelope_base eid h serialized None))))]"

definition plain_body :: "string \<Rightarrow> dict" where
  "plain_body serialized = [(''model'', PStr SMOKE_MODEL), (''instructions'', PStr (build_instructions False)),
     (''input'', PStr serialized), (''store'', PBool False), (''background'', PBool False), (''max_output_tokens'', PInt MAX_OUTPUT_TOKENS)]"

lemma sealed_envelope_fields:
  "dget (sealed_envelope eid h serialized) ''contract_version'' = PStr CONTRACT_VERSION"
  "dget (sealed_envelope eid h serialized) ''smoke_guardrails'' = PDict smoke_guardrails"
  "transport_error (dict_of (dget (sealed_envelope eid h serialized) ''transport'')) = None"
  "is_dict (dget (sealed_envelope eid h serialized) ''transport'')"
  "dget (sealed_envelope eid h serialized) ''request_body'' = PDict (plain_body serialized)"
  "dget (sealed_envelope eid h serialized) ''event_id'' = PStr eid"
  "dget (sealed_envelope eid h serialized) ''bridge_payload_hash'' = PStr h"
  "dget (sealed_envelope eid h serialized) ''request_hash'' = PStr (canonical_hash (PDict (dpop ''request_hash'' (sealed_envelope eid h serialized))))"
  "dget (sealed_envelope eid h serialized) ''tools_allowed'' = PBool False"
  "dget (sealed_envelope eid h serialized) ''network_performed'' = PBool False"
  "dget (sealed_envelope eid h serialized) ''production'' = PStr ''NOT_APPROVED''"
  "dget (sealed_envelope eid h serialized) ''external_action_authority'' = PStr ''NONE''"
  "dget (sealed_envelope eid h serialized) ''action_output'' = PStr ''NONE''"
  by (simp_all add: sealed_envelope_def envelope_base_def plain_body_def transport_error_def dpop_filter)

lemma plain_body_accepted:
  assumes "length serialized \<le> MAX_INPUT_UTF8_BYTES"
  shows "body_error (plain_body serialized) (sealed_envelope eid h serialized) = None"
  using assms by (simp add: body_error_def sealed_envelope_fields Let_def)
    (auto simp: plain_body_def REQUEST_BODY_FIELDS_def keys_def)

lemma sealed_envelope_valid:
  assumes "length serialized \<le> MAX_INPUT_UTF8_BYTES" and "loads serialized = Inr v" and "validate_bridge_payload v = Inr (eid, h)"
  shows "validate_request_envelope loads fmt ve (sealed_envelope eid h serialized) = Inr (sealed_envelope eid h serialized)"
proof -
  have "carried_payload loads fmt (plain_body serialized) = Inr v"
    using assms(2) by (simp add: carried_payload_def plain_body_def)
  moreover have "py_eq (PDict smoke_guardrails) (PDict smoke_guardrails)" by (simp add: smoke_guardrails_def)
  moreover have "in_strs (PStr CONTRACT_VERSION) CAPITAL_REQUEST_VERSIONS = Inr False"
    by (simp add: CONTRACT_VERSION_def CAPITAL_REQUEST_VERSIONS_def)
  ultimately show ?thesis
    using plain_body_accepted [OF assms(1)] assms(3)
    by (simp add: validate_request_envelope_def sealed_envelope_fields(1-7,9-) Let_def)
      (simp add: sealed_envelope_fields(8) is_len64_hash)
qed

lemma plain_envelope_built:
  assumes "loads (json_text payload) = Inr (json_reload payload)"
  shows "build_request_envelope loads fmt ve payload SMOKE_MODEL None =
    (case validate_bridge_payload payload of
      Inl e \<Rightarrow> Inl e
    | Inr (eid, h) \<Rightarrow>
        if MAX_INPUT_UTF8_BYTES < length (json_text payload) then Inl (ValueError ''Smoke input exceeds UTF-8 byte ceiling'')
        else Inr (sealed_envelope eid h (json_text payload)))"
proof (cases "validate_bridge_payload payload")
  case (Inr i)
  obtain eid h where i: "i = (eid, h)" by (cases i)
  have r: "validate_bridge_payload (json_reload payload) = Inr (eid, h)" using validate_reload [of payload eid h] Inr i by simp
  show ?thesis
  proof (cases "MAX_INPUT_UTF8_BYTES < length (json_text payload)")
    case False
    then show ?thesis using sealed_envelope_valid [where loads = loads and fmt = fmt and ve = ve, OF _ assms r]
      by (simp add: build_request_envelope_def Inr i Let_def flip: sealed_envelope_def)
  qed (simp add: build_request_envelope_def Inr i)
qed (simp add: build_request_envelope_def)

text \<open>Building the request of a plain delivery fails only on an invalid bridge payload or on
  one longer than the byte ceiling: the envelope built passes the adapter's own validation, whatever
  the payload holds, with the payload's identity, its canonical text as input and its own hash.\<close>

theorem request_envelope_built:
  assumes "loads (json_text payload) = Inr (json_reload payload)"
  shows "build_request_envelope loads fmt ve payload SMOKE_MODEL None =
    (case validate_bridge_payload payload of
      Inl e \<Rightarrow> Inl e
    | Inr (eid, h) \<Rightarrow>
        if MAX_INPUT_UTF8_BYTES < length (json_text payload) then Inl (ValueError ''Smoke input exceeds UTF-8 byte ceiling'')
        else Inr (sealed_envelope eid h (json_text payload)))"
  using assms by (rule plain_envelope_built)

section \<open>How long a canonical text can be\<close>

fun json_bound :: "pyval \<Rightarrow> nat"
  and list_bound :: "pyval list \<Rightarrow> nat"
  and items_bound :: "dict \<Rightarrow> nat" where
  "json_bound (PStr s) = 6 * length s + 2"
| "json_bound (PList xs) = list_bound xs + 2"
| "json_bound (PDict d) = items_bound d + 2"
| "json_bound v = length (json_text v)"
| "list_bound [] = 0"
| "list_bound (x # xs) = json_bound x + 1 + list_bound xs"
| "items_bound [] = 0"
| "items_bound ((k, v) # d) = 6 * length k + json_bound v + 4 + items_bound d"

lemma length_json_str: "length (json_str s) \<le> 6 * length s + 2"
proof -
  have c: "length (json_char c) \<le> 6" for c by (simp add: json_char_def Let_def)
  have "length (concat (map json_char s)) \<le> 6 * length s"
  proof (induction s)
    case (Cons a s)
    then show ?case using c [of a] by simp
  qed simp
  then show ?thesis by (simp add: json_str_def)
qed

lemma length_join: "length (join '','' xs) \<le> sum_list (map (\<lambda>x. length x + 1) xs)"
  by (induction "'',''" xs rule: join.induct) auto

lemma sum_sort_key: "sum_list (map f (sort_key g xs)) = (sum_list (map f xs) :: nat)"
  proof -
  have "sum_mset (mset (map f (sort_key g xs))) = sum_mset (mset (map f xs))" by (simp only: mset_map mset_sort)
  then show ?thesis by (simp only: sum_mset_sum_list)
qed

lemma length_json_text:
  "length (json_text v) \<le> json_bound v"
  "sum_list (map (\<lambda>x. length x + 1) (json_list xs)) \<le> list_bound xs"
  "sum_list (map (\<lambda>(k, t). length (json_str k) + length t + 2) (json_items d)) \<le> items_bound d"
proof (induction v and xs and d rule: json_text_json_list_json_items.induct)
  case (6 xs)
  then show ?case using length_join [of "json_list xs"] by simp
next
  case (7 d)
  show ?case using 7 length_join [of "map (\<lambda>(k, t). json_str k @ '':'' @ t) (sort_key fst (json_items d))"]
    by (simp add: comp_def case_prod_beta sum_sort_key)
next
  case (11 k v d)
  then show ?case using length_json_str [of k] by simp
qed (use length_json_str in auto)

theorem request_envelope_built_witness:
  "build_request_envelope (\<lambda>_. Inr (json_reload (PDict demo_payload))) Inr Inr (PDict demo_payload) SMOKE_MODEL None
     = Inr (sealed_envelope demo_event_id demo_payload_hash (json_text (PDict demo_payload)))"
proof -
  have "json_bound (PDict demo_payload) \<le> MAX_INPUT_UTF8_BYTES"
    by (simp add: demo_payload_def demo_payload_body_def demo_payload_hash_def required_authority_def required_privacy_def
      MAX_INPUT_UTF8_BYTES_def demo_event_id_def BRIDGE_SCHEMA_VERSION_def BRIDGE_PRIVACY_CONTRACT_VERSION_def)
  then have "\<not> MAX_INPUT_UTF8_BYTES < length (json_text (PDict demo_payload))"
    using length_json_text(1) [of "PDict demo_payload"] by linarith
  then show ?thesis
    using request_envelope_built [of "\<lambda>_. Inr (json_reload (PDict demo_payload))" "PDict demo_payload" Inr Inr]
    by (simp add: demo_payload_validates del: json_text.simps json_reload.simps)
qed

end
