(* ===== verification/Transport_Worker.thy ===== *)
theory Transport_Worker
  imports Notification_Boundary Responses_Adapter Liquidation_Store
begin

text \<open>
  One-shot delivery of an outbox event to the model provider (\<^verbatim>\<open>gpt_transport_worker.py\<close>),
  composed from the outbox payload validation, the boundary state, the request envelope, the receipt
  and the notification. The delivery is the plain one: no Commander source bundle and no capital
  source. A call yields its result and the states of the durable world after each of its effects, in
  order; a process that dies leaves one of them behind. The provider, the JSON reader, the field
  expansion of \<^verbatim>\<open>gpt_handoff.py\<close>, the pattern of sensitive text and the locks are arguments.
\<close>

section \<open>What may be sent\<close>

definition ADAPTER_ID :: string where "ADAPTER_ID = ''CRT_OPENAI_RESPONSES_WORKER_V0.1''"
definition LEASE_MS :: int where "LEASE_MS = 180000"
definition PAYLOAD_FIELDS :: "string list" where
  "PAYLOAD_FIELDS = [''schema_version'', ''privacy_contract_version'', ''state'', ''event'', ''market_context'', ''capital_state'',
     ''analysis_contract'', ''privacy'', ''authority'', ''bridge_payload_hash'']"
definition OPTIONAL_PAYLOAD_FIELDS :: "string list" where "OPTIONAL_PAYLOAD_FIELDS = [''issuer_ratio_observation'']"
definition BRIDGE_FORBIDDEN_EXACT_KEYS :: "string list" where
  "BRIDGE_FORBIDDEN_EXACT_KEYS = [''private_context'', ''profile'', ''path'', ''email'', ''phone'', ''address'', ''account_number'',
     ''broker_account'', ''brokerage_account'', ''api_key'', ''access_token'', ''password'', ''secret'', ''credential'', ''credentials'']"

fun assert_bridge_privacy :: "string \<Rightarrow> pyval \<Rightarrow> unit res"
  and assert_privacy_list :: "string \<Rightarrow> nat \<Rightarrow> pyval list \<Rightarrow> unit res"
  and assert_privacy_items :: "string \<Rightarrow> dict \<Rightarrow> unit res" where
  "assert_bridge_privacy loc (PDict d) = assert_privacy_items loc d"
| "assert_bridge_privacy loc (PList xs) = assert_privacy_list loc 0 xs"
| "assert_bridge_privacy loc _ = Inr ()"
| "assert_privacy_list loc i [] = Inr ()"
| "assert_privacy_list loc i (x # xs) =
     ebind (assert_bridge_privacy (loc @ ''['' @ int_str (int i) @ '']'') x) (\<lambda>_. assert_privacy_list loc (Suc i) xs)"
| "assert_privacy_items loc [] = Inr ()"
| "assert_privacy_items loc ((key, child) # d) =
     (if lower (strip key) \<in> set BRIDGE_FORBIDDEN_EXACT_KEYS
        then Inl (ValueError (''Bridge payload contains forbidden key '' @ loc @ ''.'' @ key))
      else ebind (assert_bridge_privacy (loc @ ''.'' @ key) child) (\<lambda>_. assert_privacy_items loc d))"

definition contains_text :: "string \<Rightarrow> string \<Rightarrow> bool" where
  "contains_text t s = list_ex (\<lambda>n. take (length t) (drop n s) = t) [0..<Suc (length s)]"

text \<open>The pattern of forbidden field names, matched without regard to case.\<close>

definition FORBIDDEN_FIELD_PARTS :: "string list" where
  "FORBIDDEN_FIELD_PARTS = [''credential'', ''password'', ''secret'', ''account_number'', ''broker_account'', ''api_key'', ''access_token'']"

definition forbidden_field :: "string \<Rightarrow> bool" where
  "forbidden_field key \<longleftrightarrow> list_ex (\<lambda>p. contains_text p (lower key)) FORBIDDEN_FIELD_PARTS
     \<and> key \<notin> {''credentials_or_secrets_included'', ''broker_or_account_identifiers_included''}"

fun check_transport :: "(string \<Rightarrow> bool) \<Rightarrow> pyval \<Rightarrow> unit res"
  and check_transport_list :: "(string \<Rightarrow> bool) \<Rightarrow> pyval list \<Rightarrow> unit res"
  and check_transport_items :: "(string \<Rightarrow> bool) \<Rightarrow> dict \<Rightarrow> unit res" where
  "check_transport sensitive (PDict d) = check_transport_items sensitive d"
| "check_transport sensitive (PList xs) = check_transport_list sensitive xs"
| "check_transport sensitive (PStr s) = (if sensitive s then Inl (ValueError ''Forbidden transport text'') else Inr ())"
| "check_transport sensitive _ = Inr ()"
| "check_transport_list sensitive [] = Inr ()"
| "check_transport_list sensitive (x # xs) = ebind (check_transport sensitive x) (\<lambda>_. check_transport_list sensitive xs)"
| "check_transport_items sensitive [] = Inr ()"
| "check_transport_items sensitive ((key, child) # d) =
     (if forbidden_field key then Inl (ValueError ''Forbidden transport field'')
      else ebind (check_transport sensitive child) (\<lambda>_. check_transport_items sensitive d))"

definition validate_transport_payload ::
  "(dict \<Rightarrow> dict res) \<Rightarrow> (string \<Rightarrow> bool) \<Rightarrow> pyval \<Rightarrow> (string \<times> string) res" where
  "validate_transport_payload expand sensitive v =
     ebind (validate_bridge_payload v) (\<lambda>identity.
     (let payload = dict_of v; authority = dict_of (dget payload ''authority'') in
      if set (keys payload) - set OPTIONAL_PAYLOAD_FIELDS \<noteq> set PAYLOAD_FIELDS
        then Inl (ValueError ''Transport requires the minimized bridge field set'')
      else ebind (expand payload) (\<lambda>expanded.
        ebind (assert_bridge_privacy ''$'' v) (\<lambda>_.
        ebind (assert_bridge_privacy ''$'' (PDict expanded)) (\<lambda>_.
        if \<not> py_eq (dget authority ''capital_decision_authority'') (PStr ''USER_ONLY'')
          then Inl (ValueError ''Capital decision authority must remain USER_ONLY'')
        else if dget authority ''machine_may_execute_trade'' \<noteq> PBool False then Inl (ValueError ''Machine trade execution forbidden'')
        else ebind (check_transport sensitive v) (\<lambda>_. ebind (check_transport sensitive (PDict expanded)) (\<lambda>_. Inr identity)))))))"

text \<open>\<^verbatim>\<open>item in container\<close> for a string item.\<close>

fun str_in :: "string \<Rightarrow> pyval \<Rightarrow> bool res" where
  "str_in s (PList xs) = Inr (py_in (PStr s) xs)"
| "str_in s (PDict d) = Inr (dhas d s)"
| "str_in s (PStr t) = Inr (contains_text s t)"
| "str_in s _ = Inl (TypeError ''argument is not iterable'')"

definition requires_capital_contract :: "(dict \<Rightarrow> dict res) \<Rightarrow> dict \<Rightarrow> bool res" where
  "requires_capital_contract expand payload =
     ebind (expand payload) (\<lambda>expanded.
     ebind (py_index (PDict expanded) ''analysis_contract'') (\<lambda>contract.
     ebind (py_get contract ''delivery_scope'') (\<lambda>scope.
     if py_eq scope (PStr ''FULL_DECISION_OFFLINE'') then Inr True
     else ebind (py_index (PDict expanded) ''event'') (\<lambda>event.
       ebind (py_get_or event ''wake'' (PDict [])) (\<lambda>wake.
       ebind (py_get_or wake ''wake_sources'' (PList [])) (str_in ''BROKER_CAPITAL_STATE''))))))"

section \<open>The durable world\<close>

text \<open>
  The boundary states, the responses and the notifications on disk, and the requests the provider may
  have received.
\<close>

record world =
  wd_states :: json_dir
  wd_responses :: json_dir
  wd_notes :: json_dir
  wd_sent :: "dict list"

datatype answer = Responds pyval | Refuses exn

definition save_state :: "dict \<Rightarrow> world \<Rightarrow> world res" where
  "save_state state w = ebind (persist_boundary_state (wd_states w) state) (\<lambda>dir. Inr (w\<lparr>wd_states := dir\<rparr>))"

definition worker_result :: "string \<Rightarrow> bool \<Rightarrow> string \<Rightarrow> dict" where
  "worker_result event_id performed st =
     [(''event_id'', PStr event_id), (''transport_performed'', PBool performed), (''notification_eligible'', PBool False), (''state'', PStr st)]"

definition delivered_result :: "string \<Rightarrow> bool \<Rightarrow> dict \<Rightarrow> dict" where
  "delivered_result event_id performed receipt =
     [(''event_id'', PStr event_id), (''transport_performed'', PBool performed), (''notification_eligible'', PBool True),
      (''state'', PStr ''DELIVERED''), (''receipt_hash'', dget receipt ''receipt_hash'')]"

definition receipt_of :: "pyval \<Rightarrow> dict \<Rightarrow> dict res" where
  "receipt_of response envelope =
     build_delivery_receipt response (str_of (dget envelope ''event_id'')) (str_of (dget envelope ''bridge_payload_hash''))
       (str_of (dget envelope ''request_hash''))"

definition evidence_record :: "dict \<Rightarrow> pyval \<Rightarrow> pyval" where
  "evidence_record envelope response = PDict [(''request'', PDict envelope), (''response'', response)]"

text \<open>The evidence on disk, when its request is this one.\<close>

definition read_evidence :: "string \<Rightarrow> string \<Rightarrow> dict \<Rightarrow> world \<Rightarrow> pyval res" where
  "read_evidence mismatch event_id envelope w =
     ebind (read_json (wd_responses w) event_id) (\<lambda>evidence.
     ebind (py_index evidence ''request'') (\<lambda>request.
     if \<not> py_eq request (PDict envelope) then Inl (ValueError mismatch) else Inr evidence))"

definition evidence_receipt :: "pyval \<Rightarrow> dict \<Rightarrow> dict res" where
  "evidence_receipt evidence envelope = ebind (py_index evidence ''response'') (\<lambda>response. receipt_of response envelope)"

text \<open>What notifying and locking is like for this call.\<close>

record notifier =
  nt_render :: "pyval \<Rightarrow> string res"
  nt_wanted :: bool
  nt_lock :: bool

definition notify :: "notifier \<Rightarrow> dict \<Rightarrow> world \<Rightarrow> dict res \<times> world" where
  "notify nt receipt w =
     (case ensure_pending (nt_render nt) (nt_lock nt) (wd_notes w) receipt of (r, notes) \<Rightarrow> (r, w\<lparr>wd_notes := notes\<rparr>))"

section \<open>Delivering\<close>

text \<open>The branch of an event already delivered.\<close>

definition redeliver :: "notifier \<Rightarrow> string \<Rightarrow> dict \<Rightarrow> dict \<Rightarrow> world \<Rightarrow> dict res \<times> world list" where
  "redeliver nt event_id envelope state w =
     (case ebind (read_evidence ''Delivered evidence mismatch'' event_id envelope w) (\<lambda>evidence.
            ebind (evidence_receipt evidence envelope) (\<lambda>receipt.
            if \<not> py_eq (dget state ''receipt'') (PDict receipt) then Inl (ValueError ''Delivered evidence mismatch'') else Inr ())) of
       Inl e \<Rightarrow> (Inl e, [])
     | Inr _ \<Rightarrow>
         if dget state ''notification_required'' = PBool True \<and> nt_wanted nt then
           (case notify nt (dict_of (dget state ''receipt'')) w of
             (Inl e, w') \<Rightarrow> (Inl e, [w'])
           | (Inr _, w') \<Rightarrow> (Inr (worker_result event_id False ''ALREADY_DELIVERED''), [w']))
         else (Inr (worker_result event_id False ''ALREADY_DELIVERED''), []))"

text \<open>Recording a receipt, from the claimed state to the notification.\<close>

definition finalize :: "notifier \<Rightarrow> string \<Rightarrow> pyval \<Rightarrow> bool \<Rightarrow> dict \<Rightarrow> dict \<Rightarrow> world \<Rightarrow> dict res \<times> world list" where
  "finalize nt event_id token performed state receipt w =
     (case ebind (mark_delivered state token (PDict receipt)) (\<lambda>d.
            (let delivered = seal_state (dset ''notification_required'' (PBool (nt_wanted nt)) d)
             in ebind (save_state delivered w) (\<lambda>w1. Inr (delivered, w1)))) of
       Inl e \<Rightarrow> (Inl e, [])
     | Inr (delivered, w1) \<Rightarrow>
         (case ebind (read_json (wd_states w1) event_id) validate_state of
           Inl e \<Rightarrow> (Inl e, [w1])
         | Inr stored \<Rightarrow>
             if \<not> py_eq (PDict stored) (PDict delivered) then (Inl (ValueError ''Delivery persistence verification failed''), [w1])
             else if nt_wanted nt then
               (case notify nt receipt w1 of
                 (Inl e, w2) \<Rightarrow> (Inl e, [w1, w2])
               | (Inr _, w2) \<Rightarrow> (Inr (delivered_result event_id performed receipt), [w1, w2]))
             else (Inr (delivered_result event_id performed receipt), [w1])))"

text \<open>A failed or unusable answer: the event waits for reconciliation with its send marker.\<close>

definition reconcile :: "string \<Rightarrow> pyval \<Rightarrow> bool \<Rightarrow> dict \<Rightarrow> world \<Rightarrow> dict res \<times> world list" where
  "reconcile event_id token performed state w =
     (case ebind (mark_retryable state token (PStr ''PROVIDER_RESULT_REQUIRES_RECONCILIATION'')) (\<lambda>s. save_state s w) of
       Inl e \<Rightarrow> (Inl e, [])
     | Inr w1 \<Rightarrow> (Inr (worker_result event_id performed ''RECONCILIATION_REQUIRED''), [w1]))"

definition after_send :: "notifier \<Rightarrow> (dict \<Rightarrow> answer) \<Rightarrow> string \<Rightarrow> pyval \<Rightarrow> dict \<Rightarrow> dict \<Rightarrow> world \<Rightarrow> dict res \<times> world list" where
  "after_send nt provider event_id token envelope state w =
     (case provider envelope of
       Refuses e \<Rightarrow> reconcile event_id token False state w
     | Responds response \<Rightarrow>
         if file_exists (wd_responses w) event_id then reconcile event_id token True state w
         else
           (let w1 = w\<lparr>wd_responses := put_file event_id (Some (json_reload (evidence_record envelope response))) (wd_responses w)\<rparr> in
            case receipt_of response envelope of
              Inl e \<Rightarrow> (case reconcile event_id token True state w1 of (r, ws) \<Rightarrow> (r, w1 # ws))
            | Inr receipt \<Rightarrow> (case finalize nt event_id token True state receipt w1 of (r, ws) \<Rightarrow> (r, w1 # ws))))"

text \<open>The marker is durable before the request leaves.\<close>

definition send_once :: "notifier \<Rightarrow> (dict \<Rightarrow> answer) \<Rightarrow> string \<Rightarrow> pyval \<Rightarrow> dict \<Rightarrow> dict \<Rightarrow> world \<Rightarrow> dict res \<times> world list" where
  "send_once nt provider event_id token envelope state w =
     (let marked = seal_state (dset ''reason'' (PStr ''PROVIDER_SEND_STARTED'')
            (dset ''request_hash'' (dget envelope ''request_hash'') state)) in
      case save_state marked w of
        Inl e \<Rightarrow> (Inl e, [])
      | Inr w1 \<Rightarrow>
          (let w2 = w1\<lparr>wd_sent := wd_sent w1 @ [envelope]\<rparr> in
           case after_send nt provider event_id token envelope marked w2 of (r, ws) \<Rightarrow> (r, w1 # w2 # ws)))"

definition claim_and :: "string \<Rightarrow> int \<Rightarrow> dict \<Rightarrow> world \<Rightarrow> (pyval \<Rightarrow> dict \<Rightarrow> world \<Rightarrow> dict res \<times> world list) \<Rightarrow> dict res \<times> world list" where
  "claim_and token now state w k =
     (case ebind (claim_delivery token state (PStr ADAPTER_ID) now LEASE_MS True) (\<lambda>s. ebind (save_state s w) (\<lambda>w1. Inr (s, w1))) of
       Inl e \<Rightarrow> (Inl e, [])
     | Inr (s, w1) \<Rightarrow> (case k (dget (dict_of (dget s ''claim'')) ''claim_token'') s w1 of (r, ws) \<Rightarrow> (r, w1 # ws)))"

definition deliver_undelivered ::
  "notifier \<Rightarrow> (dict \<Rightarrow> answer) \<Rightarrow> bool \<Rightarrow> string \<Rightarrow> int \<Rightarrow> string \<Rightarrow> dict \<Rightarrow> dict \<Rightarrow> world \<Rightarrow> dict res \<times> world list" where
  "deliver_undelivered nt provider credential token now event_id envelope state w =
     (if truthy (dget state ''request_hash'') then
        (if \<not> py_eq (dget state ''request_hash'') (dget envelope ''request_hash'') then (Inl (ValueError ''Persisted request identity mismatch''), [])
         else if \<not> file_exists (wd_responses w) event_id then (Inr (worker_result event_id False ''RECONCILIATION_REQUIRED''), [])
         else (case read_evidence ''Persisted request mismatch'' event_id envelope w of
             Inl e \<Rightarrow> (Inl e, [])
           | Inr evidence \<Rightarrow>
               (case evidence_receipt evidence envelope of
                 Inl e \<Rightarrow> (Inr (worker_result event_id False ''RECONCILIATION_REQUIRED''), [])
               | Inr receipt \<Rightarrow> claim_and token now state w (\<lambda>tok s w1. finalize nt event_id tok False s receipt w1))))
      else if file_exists (wd_responses w) event_id then (Inl (ValueError ''Unbound provider evidence''), [])
      else if \<not> credential then (Inr (worker_result event_id False ''CREDENTIAL_UNAVAILABLE''), [])
      else claim_and token now state w (\<lambda>tok s w1. send_once nt provider event_id tok envelope s w1))"

definition deliver_state ::
  "notifier \<Rightarrow> (dict \<Rightarrow> answer) \<Rightarrow> bool \<Rightarrow> string \<Rightarrow> int \<Rightarrow> string \<Rightarrow> dict \<Rightarrow> dict \<Rightarrow> world \<Rightarrow> dict res \<times> world list" where
  "deliver_state nt provider credential token now event_id envelope state w =
     (if dget state ''state'' = PStr ''DELIVERED'' then redeliver nt event_id envelope state w
      else (case (if dget state ''state'' = PStr ''CLAIMED''
                  then py_lt (PInt now) (dget (dict_of (dget state ''claim'')) ''expires_at_ms'') else Inr False) of
          Inl e \<Rightarrow> (Inl e, [])
        | Inr held \<Rightarrow>
            if held then (Inr (worker_result event_id False ''CLAIMED''), [])
            else deliver_undelivered nt provider credential token now event_id envelope state w))"

text \<open>Under the delivery lock: the state is created if there is none, read, validated and bound.\<close>

definition deliver_locked ::
  "notifier \<Rightarrow> (dict \<Rightarrow> answer) \<Rightarrow> bool \<Rightarrow> string \<Rightarrow> int \<Rightarrow> string \<Rightarrow> string \<Rightarrow> pyval \<Rightarrow> dict \<Rightarrow> world \<Rightarrow> dict res \<times> world list" where
  "deliver_locked nt provider credential token now event_id payload_hash payload envelope w =
     (case ensure_pending_boundary_state None (wd_states w) payload of
       (Inl e, dir) \<Rightarrow> (Inl e, [w\<lparr>wd_states := dir\<rparr>])
     | (Inr _, dir) \<Rightarrow>
         (let w1 = w\<lparr>wd_states := dir\<rparr> in
          case ebind (read_json dir event_id) validate_state of
            Inl e \<Rightarrow> (Inl e, [w1])
          | Inr state \<Rightarrow>
              if dget state ''event_id'' \<noteq> PStr event_id \<or> dget state ''bridge_payload_hash'' \<noteq> PStr payload_hash
                then (Inl (ValueError ''Boundary identity mismatch''), [w1])
              else (case deliver_state nt provider credential token now event_id envelope state w1 of (r, ws) \<Rightarrow> (r, w1 # ws))))"

record delivery_env =
  de_loads :: "string \<Rightarrow> pyval res"
  de_format :: "pyval \<Rightarrow> pyval res"
  de_capital :: "dict \<Rightarrow> dict res"
  de_expand :: "dict \<Rightarrow> dict res"
  de_sensitive :: "string \<Rightarrow> bool"

text \<open>What happens before the lock: the identity, the payload and the envelope, or an error.\<close>

definition prepared :: "delivery_env \<Rightarrow> int \<Rightarrow> json_dir \<Rightarrow> string \<Rightarrow> (string \<times> string \<times> pyval \<times> dict) res" where
  "prepared env now outbox stem =
     ebind (read_json outbox stem) (\<lambda>payload.
     ebind (validate_transport_payload (de_expand env) (de_sensitive env) payload) (\<lambda>(event_id, payload_hash).
     if stem \<noteq> event_id then Inl (ValueError ''Outbox event filename mismatch'')
     else ebind (requires_capital_contract (de_expand env) (dict_of payload)) (\<lambda>capital.
       if capital then Inl (ValueError ''Capital wake/full decision cannot be downgraded to Smoke; capital source required'')
       else ebind (utc_date now) (\<lambda>_.
         ebind (build_request_envelope (de_loads env) (de_format env) (de_capital env) payload SMOKE_MODEL None) (\<lambda>envelope.
         Inr (event_id, payload_hash, payload, envelope))))))"

definition deliver_event ::
  "delivery_env \<Rightarrow> notifier \<Rightarrow> (dict \<Rightarrow> answer) \<Rightarrow> bool \<Rightarrow> bool \<Rightarrow> string \<Rightarrow> int \<Rightarrow> json_dir \<Rightarrow> string \<Rightarrow> world \<Rightarrow> dict res \<times> world list" where
  "deliver_event env nt provider credential acquired token now outbox stem w =
     (case prepared env now outbox stem of
       Inl e \<Rightarrow> (Inl e, [])
     | Inr (event_id, payload_hash, payload, envelope) \<Rightarrow>
         if \<not> acquired then (Inr (worker_result event_id False ''BUSY''), [])
         else deliver_locked nt provider credential token now event_id payload_hash payload envelope w)"

section \<open>A request leaves at most once\<close>

definition sent_for :: "string \<Rightarrow> world \<Rightarrow> nat" where
  "sent_for eid w = length (filter (\<lambda>e. dget e ''event_id'' = PStr eid) (wd_sent w))"

text \<open>The durable marker of an event: its state file holds a request hash.\<close>

definition marked :: "string \<Rightarrow> world \<Rightarrow> bool" where
  "marked eid w \<longleftrightarrow> (\<exists>s. map_of (wd_states w) eid = Some (Some (PDict s)) \<and> truthy (dget s ''request_hash''))"

definition safe_world :: "world \<Rightarrow> bool" where
  "safe_world w \<longleftrightarrow> (\<forall>eid. sent_for eid w = 0 \<or> sent_for eid w = 1 \<and> marked eid w)"

definition responses_kept :: "world \<Rightarrow> world \<Rightarrow> bool" where
  "responses_kept w w' \<longleftrightarrow> (\<forall>k v. map_of (wd_responses w) k = Some v \<longrightarrow> map_of (wd_responses w') k = Some v)"

text \<open>A change that sends nothing and keeps every marker and response.\<close>

definition quiet :: "world \<Rightarrow> world \<Rightarrow> bool" where
  "quiet w w' \<longleftrightarrow> wd_sent w' = wd_sent w \<and> (\<forall>eid. marked eid w \<longrightarrow> marked eid w') \<and> responses_kept w w'"

definition good :: "world \<Rightarrow> world \<Rightarrow> bool" where
  "good w w' \<longleftrightarrow> (safe_world w \<longrightarrow> safe_world w') \<and> responses_kept w w'"

lemma quiet_refl [simp]: "quiet w w"
  by (simp add: quiet_def responses_kept_def)

lemma quiet_trans: "quiet w w' \<Longrightarrow> quiet w' w'' \<Longrightarrow> quiet w w''"
  by (auto simp: quiet_def responses_kept_def)

lemma good_trans: "good w w' \<Longrightarrow> good w' w'' \<Longrightarrow> good w w''"
  by (auto simp: good_def responses_kept_def)

lemma quiet_good: "quiet w w' \<Longrightarrow> good w w'"
  by (auto simp: quiet_def good_def safe_world_def sent_for_def)

text \<open>\<open>state\<close> is what the state file of the event will hold, or holds, marker included.\<close>

definition tracks :: "string \<Rightarrow> dict \<Rightarrow> world \<Rightarrow> bool" where
  "tracks eid state w \<longleftrightarrow> dget state ''event_id'' = PStr eid \<and> (marked eid w \<longrightarrow> truthy (dget state ''request_hash''))"

lemma save_state_Inr:
  "save_state state w = Inr w1 \<Longrightarrow> dget state ''event_id'' = PStr eid \<Longrightarrow>
     w1 = w\<lparr>wd_states := put_file eid (Some (PDict (reload_dict state))) (wd_states w)\<rparr>"
  by (auto simp: save_state_def persist_boundary_state_def ebind_Inr_iff validate_state_iff reload_dict_def)

lemma save_quiet:
  assumes "save_state state w = Inr w1" and "tracks eid state w"
  shows "quiet w w1" and "marked eid w1 \<longleftrightarrow> truthy (dget state ''request_hash'')" and "wd_responses w1 = wd_responses w"
    and "wd_sent w1 = wd_sent w"
proof -
  have w1: "w1 = w\<lparr>wd_states := put_file eid (Some (PDict (reload_dict state))) (wd_states w)\<rparr>"
    using save_state_Inr [OF assms(1)] assms(2) by (simp add: tracks_def)
  show m: "marked eid w1 \<longleftrightarrow> truthy (dget state ''request_hash'')" by (simp add: w1 marked_def)
  show "wd_responses w1 = wd_responses w" "wd_sent w1 = wd_sent w" by (simp_all add: w1)
  have "marked k w1" if "marked k w" for k
    using that m assms(2) by (cases "k = eid") (auto simp: tracks_def marked_def w1)
  then show "quiet w w1" by (simp add: quiet_def responses_kept_def w1)
qed

lemma boundary_claim_fields:
  "claim_delivery token s a now lease b = Inr s' \<Longrightarrow> dget s' ''event_id'' = dget s ''event_id'' \<and> dget s' ''request_hash'' = dget s ''request_hash''"
  by (auto simp: claim_delivery_def ebind_Inr_iff validate_state_iff Let_def split: if_splits)

lemma retryable_fields:
  "mark_retryable s t r = Inr s' \<Longrightarrow> dget s' ''event_id'' = dget s ''event_id'' \<and> dget s' ''request_hash'' = dget s ''request_hash''"
  by (auto simp: mark_retryable_def ebind_Inr_iff validate_state_iff Let_def split: if_splits)

lemma delivered_fields:
  "mark_delivered s t r = Inr s' \<Longrightarrow> dget s' ''event_id'' = dget s ''event_id'' \<and> dget s' ''request_hash'' = dget s ''request_hash''"
  by (auto simp: mark_delivered_def ebind_Inr_iff validate_state_iff Let_def split: if_splits)

lemma tracks_cong: "dget s' ''event_id'' = dget s ''event_id'' \<Longrightarrow> dget s' ''request_hash'' = dget s ''request_hash'' \<Longrightarrow> tracks eid s' w = tracks eid s w"
  by (simp add: tracks_def)

lemma tracks_states: "wd_states w' = wd_states w \<Longrightarrow> tracks eid s w' = tracks eid s w"
  by (simp add: tracks_def marked_def)

lemma notify_quiet: "quiet w (snd (notify nt receipt w))"
  by (auto simp: notify_def quiet_def marked_def responses_kept_def split: prod.split)

lemma final_worlds:
  "set (snd (case Inr (d, w1) of Inl e \<Rightarrow> (Inl e, [])
     | Inr (delivered, w1) \<Rightarrow>
         (case st w1 of
           Inl e \<Rightarrow> (Inl e, [w1])
         | Inr stored \<Rightarrow>
             if \<not> eq stored delivered then (Inl x, [w1])
             else if wanted then
               (case nt w1 of
                 (Inl e, w2) \<Rightarrow> (Inl e, [w1, w2])
               | (Inr _, w2) \<Rightarrow> (Inr r, [w1, w2]))
             else (Inr r, [w1])))) \<subseteq> {w1, snd (nt w1)}"
  by (simp split: sum.split prod.split)

lemma finalize_quiet:
  assumes "tracks eid s w"
  shows "\<forall>w' \<in> set (snd (finalize nt eid token performed s receipt w)). quiet w w'"
proof (cases "ebind (mark_delivered s token (PDict receipt)) (\<lambda>d.
            (let delivered = seal_state (dset ''notification_required'' (PBool (nt_wanted nt)) d)
             in ebind (save_state delivered w) (\<lambda>w1. Inr (delivered, w1))))")
  case (Inr x)
  then obtain d w1 where d: "mark_delivered s token (PDict receipt) = Inr d"
    and w1: "save_state (seal_state (dset ''notification_required'' (PBool (nt_wanted nt)) d)) w = Inr w1"
    and x: "x = (seal_state (dset ''notification_required'' (PBool (nt_wanted nt)) d), w1)"
    by (auto simp: ebind_Inr_iff Let_def)
  have "tracks eid (seal_state (dset ''notification_required'' (PBool (nt_wanted nt)) d)) w"
    using assms delivered_fields [OF d] by (simp add: tracks_def)
  from save_quiet(1) [OF w1 this] have q1: "quiet w w1" .
  have q2: "quiet w (snd (notify nt receipt w1))" by (rule quiet_trans [OF q1 notify_quiet])
  have "set (snd (finalize nt eid token performed s receipt w)) \<subseteq> {w1, snd (notify nt receipt w1)}"
    unfolding finalize_def Inr x by (rule final_worlds)
  then show ?thesis using q1 q2 by blast
qed (simp add: finalize_def)

lemma reconcile_quiet:
  assumes "tracks eid s w"
  shows "\<forall>w' \<in> set (snd (reconcile eid token performed s w)). quiet w w'"
proof (cases "ebind (mark_retryable s token (PStr ''PROVIDER_RESULT_REQUIRES_RECONCILIATION'')) (\<lambda>s. save_state s w)")
  case (Inr w1)
  then obtain s' where s': "mark_retryable s token (PStr ''PROVIDER_RESULT_REQUIRES_RECONCILIATION'') = Inr s'" "save_state s' w = Inr w1"
    by (auto simp: ebind_Inr_iff)
  then have "tracks eid s' w" using assms retryable_fields [OF s'(1)] tracks_cong by blast
  from save_quiet(1) [OF s'(2) this] show ?thesis by (simp add: reconcile_def Inr)
qed (simp add: reconcile_def)

lemma after_send_quiet:
  assumes "tracks eid s w"
  shows "\<forall>w' \<in> set (snd (after_send nt provider eid token envelope s w)). quiet w w'"
proof (cases "provider envelope")
  case (Responds response)
  show ?thesis
  proof (cases "file_exists (wd_responses w) eid")
    case False
    define w1 where "w1 = w\<lparr>wd_responses := put_file eid (Some (json_reload (evidence_record envelope response))) (wd_responses w)\<rparr>"
    have q: "quiet w w1" using False by (auto simp: w1_def quiet_def marked_def responses_kept_def file_exists_def)
    have t: "tracks eid s w1" using assms by (simp add: w1_def tracks_def marked_def)
    have "after_send nt provider eid token envelope s w = (case receipt_of response envelope of
              Inl e \<Rightarrow> (case reconcile eid token True s w1 of (r, ws) \<Rightarrow> (r, w1 # ws))
            | Inr receipt \<Rightarrow> (case finalize nt eid token True s receipt w1 of (r, ws) \<Rightarrow> (r, w1 # ws)))"
      using False by (simp add: after_send_def Responds Let_def flip: w1_def)
    then have "set (snd (after_send nt provider eid token envelope s w))
        \<subseteq> insert w1 (set (snd (reconcile eid token True s w1)) \<union> (\<Union>r. set (snd (finalize nt eid token True s r w1))))"
      by (auto split: sum.split prod.split) (metis snd_conv)
    then show ?thesis
      using q reconcile_quiet [OF t, of token True] finalize_quiet [OF t, of nt token True] quiet_trans [OF q] by blast
  qed (use reconcile_quiet [OF assms] in \<open>simp add: after_send_def Responds\<close>)
qed (use reconcile_quiet [OF assms] in \<open>simp add: after_send_def\<close>)

lemma claim_and_good:
  assumes "tracks eid s w"
    and k: "\<And>tok s' w1. tracks eid s' w1 \<Longrightarrow> dget s' ''request_hash'' = dget s ''request_hash'' \<Longrightarrow> \<forall>w' \<in> set (snd (k tok s' w1)). good w1 w'"
  shows "\<forall>w' \<in> set (snd (claim_and token now s w k)). good w w'"
proof (cases "ebind (claim_delivery token s (PStr ADAPTER_ID) now LEASE_MS True) (\<lambda>s. ebind (save_state s w) (\<lambda>w1. Inr (s, w1)))")
  case (Inr x)
  then obtain s' w1 where s': "claim_delivery token s (PStr ADAPTER_ID) now LEASE_MS True = Inr s'"
    and w1: "save_state s' w = Inr w1" and x: "x = (s', w1)"
    by (auto simp: ebind_Inr_iff)
  have f: "dget s' ''event_id'' = dget s ''event_id''" "dget s' ''request_hash'' = dget s ''request_hash''"
    using boundary_claim_fields [OF s'] by auto
  have t: "tracks eid s' w" using assms(1) f tracks_cong by blast
  have t1: "tracks eid s' w1" using t save_quiet(2) [OF w1 t] by (simp add: tracks_def)
  have g: "good w w1" using quiet_good [OF save_quiet(1) [OF w1 t]] .
  have "set (snd (claim_and token now s w k)) = insert w1 (set (snd (k (dget (dict_of (dget s' ''claim'')) ''claim_token'') s' w1)))"
    by (simp add: claim_and_def Inr x split: prod.split)
  then show ?thesis using g k [OF t1 f(2)] good_trans [OF g] by auto
qed (simp add: claim_and_def)

lemma send_once_good:
  assumes t: "tracks eid s w" and unmarked: "\<not> truthy (dget s ''request_hash'')"
    and e: "dget envelope ''event_id'' = PStr eid" "truthy (dget envelope ''request_hash'')"
  shows "\<forall>w' \<in> set (snd (send_once nt provider eid token envelope s w)). good w w'"
proof -
  define m where "m = seal_state (dset ''reason'' (PStr ''PROVIDER_SEND_STARTED'') (dset ''request_hash'' (dget envelope ''request_hash'') s))"
  have m: "dget m ''event_id'' = PStr eid" "dget m ''request_hash'' = dget envelope ''request_hash''"
    using t by (simp_all add: m_def tracks_def)
  then have tm: "tracks eid m w" using e by (simp add: tracks_def)
  show ?thesis
  proof (cases "save_state m w")
    case (Inr w1)
    define w2 where "w2 = w1\<lparr>wd_sent := wd_sent w1 @ [envelope]\<rparr>"
    note sq = save_quiet [OF Inr tm]
    have g1: "good w w1" using quiet_good [OF sq(1)] .
    have mk: "marked k w2 = marked k w1" for k by (simp add: w2_def marked_def)
    have "safe_world w2" if sf: "safe_world w"
    proof -
      have none: "sent_for eid w = 0" using sf t unmarked by (auto simp: safe_world_def tracks_def)
      have "sent_for k w2 = (if k = eid then 1 else sent_for k w)" for k
        using none sq(4) e(1) by (auto simp: sent_for_def w2_def)
      moreover have "marked k w1" if "k = eid \<or> marked k w" for k using that sq(1,2) m e(2) by (auto simp: quiet_def)
      ultimately show ?thesis using sf mk unfolding safe_world_def by metis
    qed
    then have g2: "good w w2" using g1 by (simp add: good_def responses_kept_def w2_def)
    have "tracks eid m w2" using m e by (simp add: tracks_def)
    from after_send_quiet [OF this] have "\<forall>w' \<in> set (snd (after_send nt provider eid token envelope m w2)). good w w'"
      using good_trans [OF g2 quiet_good] by blast
    moreover have "set (snd (send_once nt provider eid token envelope s w)) =
        {w1, w2} \<union> set (snd (after_send nt provider eid token envelope m w2))"
      by (simp add: send_once_def Inr Let_def flip: m_def w2_def split: prod.split)
    ultimately show ?thesis using g1 g2 by auto
  qed (simp add: send_once_def flip: m_def)
qed

lemma redeliver_quiet: "\<forall>w' \<in> set (snd (redeliver nt eid envelope s w)). quiet w w'"
  using notify_quiet [of w nt "dict_of (dget s ''receipt'')"]
  by (auto simp: redeliver_def split: sum.split prod.split)

lemma deliver_undelivered_good:
  assumes t: "tracks eid s w" and e: "dget envelope ''event_id'' = PStr eid" "truthy (dget envelope ''request_hash'')"
  shows "\<forall>w' \<in> set (snd (deliver_undelivered nt provider credential token now eid envelope s w)). good w w'"
proof (cases "truthy (dget s ''request_hash'')")
  case True
  have "\<forall>w' \<in> set (snd (claim_and token now s w (\<lambda>tok s w1. finalize nt eid tok False s r w1))). good w w'" for r
    by (rule claim_and_good [OF t]) (use finalize_quiet quiet_good in blast)
  then show ?thesis by (auto simp: deliver_undelivered_def True split: sum.split)
next
  case False
  have "\<forall>w' \<in> set (snd (claim_and token now s w (\<lambda>tok s w1. send_once nt provider eid tok envelope s w1))). good w w'"
    using claim_and_good [OF t send_once_good [OF _ _ e]] False by simp
  then show ?thesis by (simp add: deliver_undelivered_def False)
qed

lemma deliver_state_good:
  assumes "tracks eid s w" "dget envelope ''event_id'' = PStr eid" "truthy (dget envelope ''request_hash'')"
  shows "\<forall>w' \<in> set (snd (deliver_state nt provider credential token now eid envelope s w)). good w w'"
proof (cases "dget s ''state'' = PStr ''DELIVERED''")
  case True
  then show ?thesis using redeliver_quiet quiet_good by (auto simp: deliver_state_def)
next
  case False
  show ?thesis
    using deliver_undelivered_good [OF assms]
    by (simp add: deliver_state_def False split: sum.split)
qed

lemma quiet_states:
  assumes "\<And>k v. map_of (wd_states w) k = Some v \<Longrightarrow> map_of dir k = Some v"
  shows "quiet w (w\<lparr>wd_states := dir\<rparr>)"
  using assms by (auto simp: quiet_def marked_def responses_kept_def)

lemma deliver_locked_good:
  assumes e: "dget envelope ''event_id'' = PStr eid" "truthy (dget envelope ''request_hash'')"
  shows "\<forall>w' \<in> set (snd (deliver_locked nt provider credential token now eid h payload envelope w)). good w w'"
proof -
  obtain r dir where p: "ensure_pending_boundary_state None (wd_states w) payload = (r, dir)" by fastforce
  define w1 where "w1 = w\<lparr>wd_states := dir\<rparr>"
  have g: "good w w1" unfolding w1_def by (rule quiet_good [OF quiet_states]) (rule ensure_pending_keeps [OF p])
  show ?thesis
  proof (cases "r")
    case (Inr b)
    show ?thesis
    proof (cases "ebind (read_json dir eid) validate_state")
      case (Inr s)
      then have s: "map_of (wd_states w1) eid = Some (Some (PDict s))"
        by (auto simp: ebind_Inr_iff validate_state_iff read_json_def w1_def split: option.splits if_splits)
      have "good w w'" if "dget s ''event_id'' = PStr eid"
        "w' \<in> set (snd (deliver_state nt provider credential token now eid envelope s w1))" for w'
      proof -
        have "tracks eid s w1" using that(1) s by (simp add: tracks_def marked_def)
        from deliver_state_good [OF this e] that(2) show ?thesis using good_trans [OF g] by blast
      qed
      then show ?thesis using g by (auto simp: deliver_locked_def p Inr \<open>r = Inr b\<close> Let_def simp flip: w1_def split: prod.split)
    qed (use g in \<open>simp add: deliver_locked_def p Inr Let_def flip: w1_def\<close>)
  qed (use g in \<open>simp add: deliver_locked_def p flip: w1_def\<close>)
qed

lemma transport_payload_valid:
  "validate_transport_payload expand sensitive v = Inr i \<Longrightarrow> validate_bridge_payload v = Inr i"
  by (cases "validate_bridge_payload v")
    (simp_all add: validate_transport_payload_def ebind_Inr_iff Let_def del: py_eq.simps split: if_splits prod.splits)

lemma envelope_bound:
  assumes "build_request_envelope loads fmt ve payload model ctx = Inr e" and "validate_bridge_payload payload = Inr (eid, h)"
  shows "dget e ''event_id'' = PStr eid" and "truthy (dget e ''request_hash'')"
proof -
  from build_request_envelope_Inr [OF assms(1)] obtain h' k where "dget e ''event_id'' = PStr eid" "dget e ''request_hash'' = PStr k" "hex64 k"
    using assms(2) by auto
  moreover from this have "k \<noteq> []" by (auto simp: hex64_def)
  ultimately show "dget e ''event_id'' = PStr eid" "truthy (dget e ''request_hash'')" by simp_all
qed

lemma prepared_bound:
  assumes "prepared env now outbox stem = Inr (eid, h, payload, envelope)"
  shows "dget envelope ''event_id'' = PStr eid" and "truthy (dget envelope ''request_hash'')"
proof -
  from assms have v: "validate_transport_payload (de_expand env) (de_sensitive env) payload = Inr (eid, h)"
    and b: "build_request_envelope (de_loads env) (de_format env) (de_capital env) payload SMOKE_MODEL None = Inr envelope"
    by (auto simp: prepared_def ebind_Inr_iff split: if_splits prod.splits)
  show "dget envelope ''event_id'' = PStr eid" "truthy (dget envelope ''request_hash'')"
    by (rule envelope_bound [OF b transport_payload_valid [OF v]])+
qed

lemma deliver_event_good:
  "\<forall>w' \<in> set (snd (deliver_event env nt provider credential acquired token now outbox stem w)). good w w'"
proof (cases "prepared env now outbox stem")
  case (Inr x)
  obtain eid h payload envelope where x: "x = (eid, h, payload, envelope)" by (cases x)
  note e = prepared_bound [OF Inr [unfolded x]]
  show ?thesis using deliver_locked_good [OF e] by (simp add: deliver_event_def Inr x)
qed (simp add: deliver_event_def)

lemma sync_loop_keeps:
  assumes "sync_loop outbox stems dir acc = (r, dir')" and "map_of dir k = Some v"
  shows "map_of dir' k = Some v"
  using assms
proof (induction stems arbitrary: dir acc)
  case (Cons stem stems)
  then show ?case
    by (auto simp: Let_def dest: ensure_pending_keeps split: sum.splits prod.splits)
qed simp

text \<open>
  Runs of the durable world: any delivery, stopped after any of its effects, and any synchronisation
  with an outbox. Provider, configuration, clock and outbox may differ from step to step.
\<close>

inductive worker_step :: "world \<Rightarrow> world \<Rightarrow> bool" where
  deliver: "w' \<in> set (snd (deliver_event env nt provider credential acquired token now outbox stem w)) \<Longrightarrow> worker_step w w'"
| sync: "sync_transport_boundary outbox (wd_states w) = (r, dir) \<Longrightarrow> worker_step w (w\<lparr>wd_states := dir\<rparr>)"

lemma worker_step_good: "worker_step w w' \<Longrightarrow> good w w'"
proof (induction rule: worker_step.induct)
  case (sync outbox w r dir)
  have "map_of dir k = Some v" if "map_of (wd_states w) k = Some v" for k v
    using sync that sync_loop_keeps by (auto simp: sync_transport_boundary_def split: option.splits prod.splits)
  then show ?case by (intro quiet_good quiet_states)
qed (use deliver_event_good in blast)

lemma worker_run_good: "worker_step\<^sup>*\<^sup>* w w' \<Longrightarrow> good w w'"
  by (induction rule: rtranclp_induct) (auto simp: good_def responses_kept_def dest: worker_step_good [unfolded good_def responses_kept_def])

text \<open>C27: however deliveries and synchronisations follow one another, and wherever a process dies
  between two durable effects, at most one request ever leaves for an event, an event with a request
  out has its marker on disk, and a recorded provider response is never replaced.\<close>

theorem sent_at_most_once:
  assumes "worker_step\<^sup>*\<^sup>* w0 w" and "wd_sent w0 = []"
  shows "sent_for eid w \<le> 1 \<and> (0 < sent_for eid w \<longrightarrow> marked eid w) \<and> responses_kept w0 w"
proof -
  have "safe_world w0" using assms(2) by (simp add: safe_world_def sent_for_def)
  then have s: "safe_world w" "responses_kept w0 w" using worker_run_good [OF assms(1)] by (auto simp: good_def)
  then show ?thesis
    by (auto simp: safe_world_def dest: spec [of _ eid])
qed

section \<open>A concrete delivery\<close>

definition demo_transport_body :: dict where
  "demo_transport_body = [(''schema_version'', PStr BRIDGE_SCHEMA_VERSION),
     (''privacy_contract_version'', PStr BRIDGE_PRIVACY_CONTRACT_VERSION),
     (''state'', PStr ''BRIDGE_PAYLOAD_READY_LOCAL_ONLY''),
     (''event'', PDict [(''event_id'', PStr demo_event_id)]),
     (''market_context'', PDict []), (''capital_state'', PDict []), (''analysis_contract'', PDict []),
     (''authority'', PDict (required_authority
        @ [(''capital_decision_authority'', PStr ''USER_ONLY''), (''machine_may_execute_trade'', PBool False)])),
     (''privacy'', PDict required_privacy)]"

definition demo_transport_hash :: string where "demo_transport_hash = canonical_hash (PDict demo_transport_body)"

definition demo_transport :: dict where
  "demo_transport = demo_transport_body @ [(''bridge_payload_hash'', PStr demo_transport_hash)]"

lemmas demo_transport_defs = demo_transport_def demo_transport_body_def required_authority_def required_privacy_def

lemma demo_transport_validates: "validate_bridge_payload (PDict demo_transport) = Inr (demo_event_id, demo_transport_hash)"
proof -
  have "dpop ''bridge_payload_hash'' demo_transport = demo_transport_body"
    by (simp add: dpop_filter demo_transport_def demo_transport_body_def)
  then have "payload_ok demo_transport demo_event_id demo_transport_hash"
    unfolding payload_ok_def
    by (simp add: demo_transport_hash_def hex64_demo)
      (simp add: demo_transport_defs demo_transport_hash_def authority_locked_def privacy_locked_def)
  then show ?thesis by (simp add: validate_bridge_payload_iff)
qed

lemma demo_transport_short: "length (json_text (PDict demo_transport)) \<le> MAX_INPUT_UTF8_BYTES"
proof -
  have "json_bound (PDict demo_transport) \<le> MAX_INPUT_UTF8_BYTES"
    by (simp add: demo_transport_defs demo_transport_hash_def MAX_INPUT_UTF8_BYTES_def demo_event_id_def
        BRIDGE_SCHEMA_VERSION_def BRIDGE_PRIVACY_CONTRACT_VERSION_def)
  then show ?thesis using length_json_text(1) [of "PDict demo_transport"] by linarith
qed

lemma demo_transport_private: "assert_bridge_privacy ''$'' (PDict demo_transport) = Inr ()"
proof -
  have "assert_bridge_privacy ''$'' (PDict (demo_transport_body @ [(''bridge_payload_hash'', PStr h)])) = Inr ()" for h
    unfolding demo_transport_body_def required_authority_def required_privacy_def by code_simp
  then show ?thesis by (simp add: demo_transport_def)
qed

lemma demo_transport_fields: "check_transport (\<lambda>_. False) (PDict demo_transport) = Inr ()"
proof -
  have "check_transport (\<lambda>_. False) (PDict (demo_transport_body @ [(''bridge_payload_hash'', PStr h)])) = Inr ()" for h
    unfolding demo_transport_body_def required_authority_def required_privacy_def by code_simp
  then show ?thesis by (simp add: demo_transport_def)
qed

definition demo_env :: delivery_env where
  "demo_env = \<lparr>de_loads = \<lambda>_. Inr (json_reload (PDict demo_transport)), de_format = Inr, de_capital = Inr, de_expand = Inr,
     de_sensitive = \<lambda>_. False\<rparr>"

lemma demo_prepared:
  "prepared demo_env 0 [(demo_event_id, Some (PDict demo_transport))] demo_event_id
     = Inr (demo_event_id, demo_transport_hash, PDict demo_transport, sealed_envelope demo_event_id demo_transport_hash (json_text (PDict demo_transport)))"
proof -
  have a: "set (keys demo_transport) - set OPTIONAL_PAYLOAD_FIELDS = set PAYLOAD_FIELDS"
    "dget (dict_of (dget demo_transport ''authority'')) ''capital_decision_authority'' = PStr ''USER_ONLY''"
    "dget (dict_of (dget demo_transport ''authority'')) ''machine_may_execute_trade'' = PBool False"
    by (auto simp: demo_transport_defs keys_def OPTIONAL_PAYLOAD_FIELDS_def PAYLOAD_FIELDS_def)
  have v: "validate_transport_payload Inr (\<lambda>_. False) (PDict demo_transport) = Inr (demo_event_id, demo_transport_hash)"
    by (simp add: validate_transport_payload_def demo_transport_validates a demo_transport_private demo_transport_fields Let_def
        del: assert_bridge_privacy.simps check_transport.simps)
  have c: "requires_capital_contract Inr demo_transport = Inr False"
    by (simp add: requires_capital_contract_def demo_transport_defs dget_or_def py_in_def)
  have u: "\<exists>d. utc_date 0 = Inr d" by (simp add: utc_date_def split: prod.split)
  have b: "build_request_envelope (\<lambda>_. Inr (json_reload (PDict demo_transport))) Inr Inr (PDict demo_transport) SMOKE_MODEL None
      = Inr (sealed_envelope demo_event_id demo_transport_hash (json_text (PDict demo_transport)))"
    using plain_envelope_built [of "\<lambda>_. Inr (json_reload (PDict demo_transport))" "PDict demo_transport" Inr Inr] demo_transport_short
    by (simp add: demo_transport_validates del: json_text.simps json_reload.simps)
  show ?thesis using u by (auto simp: prepared_def demo_env_def read_json_def v c b simp del: json_text.simps json_reload.simps)
qed

lemma save_state_valid:
  "state_ok s \<Longrightarrow> dget s ''event_id'' = PStr eid \<Longrightarrow>
     save_state s w = Inr (w\<lparr>wd_states := put_file eid (Some (PDict (reload_dict s))) (wd_states w)\<rparr>)"
  by (simp add: save_state_def persist_boundary_state_def validate_state_iff [THEN iffD2] json_reload_PDict del: json_reload.simps(2))

lemma marked_valid: "state_ok s \<Longrightarrow> state_ok (seal_state (dset ''reason'' r (dset ''request_hash'' h s)))"
  by (auto simp: state_ok_sealed) (simp_all add: state_ok_def state_locked_def)

lemma send_once_sends:
  assumes "state_ok s" and "dget s ''event_id'' = PStr eid"
  shows "\<exists>w' \<in> set (snd (send_once nt provider eid token envelope s w)). wd_sent w' = wd_sent w @ [envelope]"
proof -
  have "save_state (seal_state (dset ''reason'' (PStr ''PROVIDER_SEND_STARTED'') (dset ''request_hash'' (dget envelope ''request_hash'') s))) w
      = Inr (w\<lparr>wd_states := put_file eid (Some (PDict (reload_dict (seal_state (dset ''reason'' (PStr ''PROVIDER_SEND_STARTED'')
          (dset ''request_hash'' (dget envelope ''request_hash'') s)))))) (wd_states w)\<rparr>)"
    by (rule save_state_valid [OF marked_valid [OF assms(1)]]) (simp add: assms(2))
  then show ?thesis by (simp add: send_once_def Let_def split: prod.split)
qed

lemma pending_sends:
  assumes "represents s (Pending, 0)" and "dget s ''event_id'' = PStr eid" and "\<not> truthy (dget s ''request_hash'')"
    and "\<not> file_exists (wd_responses w) eid"
  shows "\<exists>w' \<in> set (snd (deliver_state nt provider True token now eid envelope s w)). wd_sent w' = wd_sent w @ [envelope]"
proof -
  have a: "strip ADAPTER_ID = ADAPTER_ID" "ADAPTER_ID \<noteq> []" "0 < LEASE_MS" by (simp_all add: ADAPTER_ID_def LEASE_MS_def, code_simp)
  obtain s' where s': "claim_delivery token s (PStr ADAPTER_ID) now LEASE_MS True = Inr s'" and r: "represents s' (Claimed token (now + LEASE_MS), 1)"
    using boundary_refines [OF assms(1), of "Claim token (PStr ADAPTER_ID) now LEASE_MS True"] a by auto
  have ok: "state_ok s'" using r by (simp add: represents_def)
  have id: "dget s' ''event_id'' = PStr eid" using boundary_claim_fields [OF s'] assms(2) by simp
  define w1 where "w1 = w\<lparr>wd_states := put_file eid (Some (PDict (reload_dict s'))) (wd_states w)\<rparr>"
  have w1: "save_state s' w = Inr w1" using save_state_valid [OF ok id] by (simp add: w1_def)
  have st: "dget s ''state'' = PStr ''PENDING''" using assms(1) by (simp add: represents_def)
  have "wd_sent w1 = wd_sent w" by (simp add: w1_def)
  with send_once_sends [OF ok id, of nt provider "dget (dict_of (dget s' ''claim'')) ''claim_token''" envelope w1] show ?thesis
    by (simp add: deliver_state_def st deliver_undelivered_def assms(3,4) claim_and_def s' w1 case_prod_beta)
qed

definition demo_notifier :: notifier where
  "demo_notifier = \<lparr>nt_render = \<lambda>_. Inr [], nt_wanted = False, nt_lock = True\<rparr>"

definition demo_world :: "dict \<Rightarrow> world" where
  "demo_world s = \<lparr>wd_states = [(demo_event_id, Some (PDict s))], wd_responses = [], wd_notes = [], wd_sent = []\<rparr>"

theorem sent_at_most_once_witness:
  "\<exists>s w. build_pending_state (PDict demo_transport) = Inr s \<and> worker_step (demo_world s) w \<and> wd_sent w \<noteq> []
     \<and> sent_for demo_event_id w \<le> 1"
proof -
  let ?e = "sealed_envelope demo_event_id demo_transport_hash (json_text (PDict demo_transport))"
  obtain s where s: "build_pending_state (PDict demo_transport) = Inr s"
    by (simp add: build_pending_state_def demo_transport_validates)
  note r = build_pending_represents [OF s]
  have ids: "dget s ''event_id'' = PStr demo_event_id" "dget s ''bridge_payload_hash'' = PStr demo_transport_hash"
    using r(2) demo_transport_validates by auto
  have ok: "state_ok s" using r(1) by (simp add: represents_def)
  have rh: "\<not> truthy (dget s ''request_hash'')" using s by (auto simp: build_pending_state_def demo_transport_validates)
  have p: "ensure_pending_boundary_state None (wd_states (demo_world s)) (PDict demo_transport)
      = (Inr (boundary_result ''BOUNDARY_EXISTS'' demo_event_id demo_transport_hash (dget s ''state'')), wd_states (demo_world s))"
    by (rule ensure_pending_existing [OF demo_transport_validates _ ok ids]) (simp add: demo_world_def)
  have v: "ebind (read_json (wd_states (demo_world s)) demo_event_id) validate_state = Inr s"
    using ok by (simp add: demo_world_def read_json_def validate_state_iff [THEN iffD2])
  have nf: "\<not> file_exists (wd_responses (demo_world s)) demo_event_id" by (simp add: demo_world_def file_exists_def)
  obtain w where w: "w \<in> set (snd (deliver_state demo_notifier (\<lambda>_. Refuses AttributeError) True ''t'' 0 demo_event_id ?e s (demo_world s)))"
    and n: "wd_sent w = wd_sent (demo_world s) @ [?e]"
    using pending_sends [OF r(1) ids(1) rh nf, of demo_notifier "\<lambda>_. Refuses AttributeError" "''t''" 0 ?e] by blast
  have "w \<in> set (snd (deliver_event demo_env demo_notifier (\<lambda>_. Refuses AttributeError) True True ''t'' 0
      [(demo_event_id, Some (PDict demo_transport))] demo_event_id (demo_world s)))"
    using w by (simp add: deliver_event_def demo_prepared deliver_locked_def p v ids Let_def case_prod_beta del: json_text.simps)
  then have st: "worker_step (demo_world s) w" by (rule worker_step.deliver)
  moreover have "sent_for demo_event_id w \<le> 1"
    by (rule sent_at_most_once [of "demo_world s", THEN conjunct1]) (use st in \<open>auto simp: demo_world_def\<close>)
  ultimately show ?thesis using s n by auto
qed

end
