(* ===== verification/Handoff_Gate.thy ===== *)
theory Handoff_Gate
  imports Run_Ledger Responses_Adapter
begin

text \<open>
  The handoff gate (\<^verbatim>\<open>run_gpt_handoff_gate\<close> of \<^verbatim>\<open>gpt_handoff.py\<close> and what it calls): it turns a wake
  of the Evidence Pack into at most one handoff per episode, recorded in the run ledger and mirrored
  in the outbox. The validators of the announcement and ratio sections and the builder of the
  minimized bridge payload are arguments. A missing ledger file is the empty ledger. A call that runs
  undisturbed yields its result and the durable worlds after each of its effects, in order. The gate
  takes no lock, so the effects of several calls are also steps of a transition relation, in which
  they interleave and a process may die between any two or inside a write.
\<close>

section \<open>The wake of an Evidence Pack\<close>

definition HANDOFF_SCHEMA_VERSION :: string where "HANDOFF_SCHEMA_VERSION = ''CRT_GPT_HANDOFF_V0.1''"
definition HANDOFF_RECORD_TYPE :: string where "HANDOFF_RECORD_TYPE = ''GPT_HANDOFF''"
definition RESET_RECORD_TYPE :: string where "RESET_RECORD_TYPE = ''GPT_HANDOFF_RESET''"
definition REANALYSIS_SEMANTICS_SCHEMA_VERSION :: string where
  "REANALYSIS_SEMANTICS_SCHEMA_VERSION = ''CRT_GPT_REANALYSIS_SEMANTICS_V0.1''"

definition handoff_authority :: dict where
  "handoff_authority = [(''action_output'', PStr ''NONE''), (''external_action_authority'', PStr ''NONE''),
     (''external_action_performed'', PBool False), (''transport_authority'', PStr ''NONE''), (''transport_performed'', PBool False)]"

definition strs :: "string list \<Rightarrow> pyval" where
  "strs ss = PList (map PStr ss)"

definition reanalysis_semantics :: dict where
  "reanalysis_semantics =
     [(''schema_version'', PStr REANALYSIS_SEMANTICS_SCHEMA_VERSION), (''scope'', PStr ''POST_WAKE_ANALYSIS_ONLY''),
      (''analysis_sequence'', strs REANALYSIS_SEQUENCE), (''causal_guardrails'', strs CAUSAL_GUARDRAILS),
      (''evidence_rules'', strs EVIDENCE_RULES), (''governance_guardrails'', strs GOVERNANCE_GUARDRAILS),
      (''wake_authority'', PStr ''NONE''), (''formal_season_authority'', PStr ''NONE''), (''trading_authority'', PStr ''NONE''),
      (''external_action_authority'', PStr ''NONE'')]"

definition OPTIONAL_AUTHORITY :: "(string \<times> pyval) list" where
  "OPTIONAL_AUTHORITY = [(''action_output'', PStr ''NONE''), (''external_action_authority'', PStr ''NONE''),
     (''external_action_performed'', PBool False)]"

definition assert_optional_authority :: "dict \<Rightarrow> string \<Rightarrow> unit res" where
  "assert_optional_authority payload label =
     (case List.find (\<lambda>(k, x). dhas payload k \<and> \<not> py_eq (dget payload k) x) OPTIONAL_AUTHORITY of
       None \<Rightarrow> Inr ()
     | Some (k, x) \<Rightarrow> Inl (ValueError (label @ '' '' @ k @ '' must remain '' @ py_repr x)))"

definition condition_signature :: "pyval \<Rightarrow> pyval \<Rightarrow> pyval list" where
  "condition_signature plan_id condition =
     (let c = dict_of condition in
      if \<not> is_dict condition \<or> \<not> py_eq (dget c ''evaluation'') (PStr ''VIOLATED'') then []
      else [PDict ((''plan_id'', plan_id)
        # map (\<lambda>k. (k, dget c k)) [''tranche_id'', ''field'', ''operator'', ''target_value'', ''source_kind'', ''source_path''])])"

definition plan_signatures :: "pyval \<Rightarrow> pyval list res" where
  "plan_signatures plan =
     (if \<not> is_dict plan then Inr []
      else ebind (py_iter (dget_or (dict_of plan) ''conditions'' (PList []))) (\<lambda>conditions.
        Inr (concat (map (condition_signature (dget (dict_of plan) ''plan_id'')) conditions))))"

definition violated_condition_signatures :: "dict \<Rightarrow> pyval list res" where
  "violated_condition_signatures plan_drift =
     ebind (py_iter (dget_or plan_drift ''plans'' (PList []))) (\<lambda>plans.
     ebind (emap plan_signatures plans) (\<lambda>signatures.
     Inr (sort_key json_text (concat signatures))))"

text \<open>\<^verbatim>\<open>sorted({str(value) for value in wake.get(key, [])})\<close>\<close>

definition wake_strings :: "dict \<Rightarrow> string \<Rightarrow> string list res" where
  "wake_strings wake key = ebind (py_iter (dget_or wake key (PList []))) (\<lambda>vs. Inr (sort (remdups (map py_str vs))))"

definition ANNOUNCEMENT_EVENT_FIELDS :: "string list" where
  "ANNOUNCEMENT_EVENT_FIELDS = [''event_id'', ''event_hash'', ''issuer_id'', ''source_type'', ''classification'', ''form'', ''items'',
     ''filing_date'', ''accepted_at'', ''title'']"

definition announcement_event :: "pyval \<Rightarrow> pyval res" where
  "announcement_event event =
     ebind (emap (\<lambda>k. ebind (py_get event k) (\<lambda>v. Inr (k, v))) ANNOUNCEMENT_EVENT_FIELDS) (\<lambda>d. Inr (PDict d))"

definition ISSUER_PAIR_FIELDS :: "string list" where
  "ISSUER_PAIR_FIELDS = [''previous_reported_date'', ''current_reported_date'', ''previous_effective_at_ms'', ''current_effective_at_ms'',
     ''previous_btc_holdings'', ''current_btc_holdings'', ''previous_diluted_shares'', ''current_diluted_shares'',
     ''time_semantic'', ''comparison_horizon'']"

definition issuer_pair :: "string list \<Rightarrow> string \<times> pyval \<Rightarrow> dict res" where
  "issuer_pair wake_sources x =
     (case x of (asset, row) \<Rightarrow>
       if asset @ ''_ISSUER_RATIO_OBSERVATION'' \<notin> set wake_sources then Inr []
       else if \<not> is_dict row then Inl AttributeError
       else Inr [(asset, PDict (filter (\<lambda>(k, _). k \<in> set ISSUER_PAIR_FIELDS) (dict_of row)))])"

record gate_env =
  ge_announcement :: "pyval \<Rightarrow> pyval \<Rightarrow> pyval res"
  ge_ratio :: "pyval \<Rightarrow> pyval \<Rightarrow> pyval res"
  ge_builder :: "dict \<Rightarrow> dict \<Rightarrow> bool \<Rightarrow> pyval res"

definition announcement_part :: "gate_env \<Rightarrow> dict \<Rightarrow> string list \<Rightarrow> dict res" where
  "announcement_part env pack wake_sources =
     (if dhas pack ''issuer_announcement_wake'' \<and> ''ISSUER_ANNOUNCEMENT'' \<in> set wake_sources then
        ebind (ge_announcement env (dget pack ''issuer_announcement_wake'') (dget pack ''generated_at_ms'')) (\<lambda>announcement.
        ebind (py_index announcement ''new_events'') (\<lambda>events.
        ebind (py_iter events) (\<lambda>es.
        ebind (emap announcement_event es) (\<lambda>rows. Inr [(''issuer_announcement_events'', PList rows)]))))
      else Inr [])"

definition ratio_part :: "gate_env \<Rightarrow> dict \<Rightarrow> string list \<Rightarrow> dict res" where
  "ratio_part env pack wake_sources =
     (if dhas pack ''issuer_ratio_observation'' then
        ebind (py_index (PDict pack) ''generated_at_ms'') (\<lambda>at_ms.
        ebind (ge_ratio env (dget pack ''issuer_ratio_observation'') at_ms) (\<lambda>observation.
        ebind (py_index observation ''observations'') (\<lambda>observations.
        if \<not> is_dict observations then Inl AttributeError
        else ebind (emap (issuer_pair wake_sources) (dict_of observations)) (\<lambda>pairs.
          Inr [(''issuer_observation_pairs'', PDict (concat pairs))]))))
      else Inr [])"

definition capital_part :: "dict \<Rightarrow> dict" where
  "capital_part wake =
     (let change = dict_of (dget wake ''capital_change'') in
      if is_dict (dget wake ''capital_change'') \<and> dget change ''current_state_hash'' \<noteq> PNone
        then [(''capital_state_hash'', dget change ''current_state_hash'')] else [])"

definition FULL_SCOPE :: pyval where "FULL_SCOPE = PStr ''FULL_DECISION_OFFLINE''"

definition scope_part :: "bool \<Rightarrow> dict" where
  "scope_part full = (if full then [(''delivery_scope'', FULL_SCOPE)] else [])"

definition descriptor_base :: "dict \<Rightarrow> dict \<Rightarrow> string list \<Rightarrow> string list \<Rightarrow> pyval list \<Rightarrow> dict" where
  "descriptor_base wake plan_drift wake_sources wake_reasons violated =
     [(''wake_state'', dget wake ''state''), (''wake_reason'', dget wake ''reason''), (''wake_sources'', strs wake_sources),
      (''wake_reasons'', strs wake_reasons), (''plan_drift_state'', dget plan_drift ''state''),
      (''plan_drift_reanalysis_required'', dget plan_drift ''reanalysis_required''), (''violated_conditions'', PList violated)]"

definition effective_reasons :: "dict \<Rightarrow> string list \<Rightarrow> string list" where
  "effective_reasons wake reasons =
     (if py_eq (dget wake ''state'') (PStr ''REANALYSIS_REQUESTED'') \<and> reasons = []
        then [py_str (dget_or wake ''reason'' (PStr ''REANALYSIS_REQUESTED''))] else reasons)"

definition semantic_descriptor :: "gate_env \<Rightarrow> dict \<Rightarrow> bool \<Rightarrow> dict res" where
  "semantic_descriptor env pack full =
     (let wake = dict_of (dget pack ''reanalysis_wake''); plan_drift = dict_of (dget pack ''plan_drift'') in
      if \<not> is_dict (dget pack ''reanalysis_wake'') then Inl (ValueError ''Evidence Pack reanalysis_wake must be an object'')
      else if \<not> is_dict (dget pack ''plan_drift'') then Inl (ValueError ''Evidence Pack plan_drift must be an object'')
      else ebind (wake_strings wake ''wake_sources'') (\<lambda>wake_sources.
      ebind (wake_strings wake ''wake_reasons'') (\<lambda>reasons.
      ebind (violated_condition_signatures plan_drift) (\<lambda>violated.
      ebind (announcement_part env pack wake_sources) (\<lambda>announced.
      ebind (ratio_part env pack wake_sources) (\<lambda>pairs.
      Inr (descriptor_base wake plan_drift wake_sources (effective_reasons wake reasons) violated
         @ scope_part full @ capital_part wake @ announced @ pairs)))))))"

definition semantic_wake_key :: "gate_env \<Rightarrow> dict \<Rightarrow> bool \<Rightarrow> string res" where
  "semantic_wake_key env pack full = ebind (semantic_descriptor env pack full) (\<lambda>d. Inr (canonical_hash (PDict d)))"

section \<open>The last gate record\<close>

definition row_scope :: "dict \<Rightarrow> pyval res" where
  "row_scope row =
     ebind (py_get_or (dget_or row ''payload'' (PDict [])) ''semantic_descriptor'' (PDict [])) (\<lambda>descriptor.
     ebind (py_get descriptor ''delivery_scope'') (\<lambda>scope.
     py_get_or (dget_or row ''payload'' (PDict [])) ''delivery_scope'' scope))"

definition in_gate :: "bool \<Rightarrow> dict \<Rightarrow> bool res" where
  "in_gate full row =
     ebind (in_strs (dget row ''record_type'') [HANDOFF_RECORD_TYPE, RESET_RECORD_TYPE]) (\<lambda>known.
     if \<not> known then Inr False
     else ebind (row_scope row) (\<lambda>scope. Inr (py_eq scope (if full then FULL_SCOPE else PNone))))"

fun find_gate :: "bool \<Rightarrow> dict list \<Rightarrow> dict option res" where
  "find_gate full [] = Inr None"
| "find_gate full (r # rs) = ebind (in_gate full r) (\<lambda>found. if found then Inr (Some r) else find_gate full rs)"

definition last_gate_record :: "bool \<Rightarrow> ledger_file \<Rightarrow> dict option res" where
  "last_gate_record full f = ebind (records f) (\<lambda>rows. find_gate full (rev rows))"

section \<open>The gate\<close>

definition base_result :: "string \<Rightarrow> string \<Rightarrow> pyval \<Rightarrow> pyval \<Rightarrow> dict" where
  "base_result st append_status event_id semantic_key =
     [(''schema_version'', PStr HANDOFF_SCHEMA_VERSION), (''state'', PStr st), (''append_status'', PStr append_status),
      (''event_id'', event_id), (''semantic_wake_key'', semantic_key)] @ handoff_authority"

text \<open>The checks before the ledger is opened: the hash of the pack, its wake, and whether it is requested.\<close>

definition gate_checks :: "pyval \<Rightarrow> pyval \<Rightarrow> (string \<times> dict \<times> bool) res" where
  "gate_checks pack notice =
     (let p = dict_of pack; n = dict_of notice; authority = dget p ''authority''; pack_hash = dget p ''evidence_pack_hash'';
          wake = dget p ''reanalysis_wake'' in
      if \<not> is_dict pack then Inl (ValueError ''Evidence Pack must be an object'')
      else if \<not> is_dict notice then Inl (ValueError ''notice must be an object'')
      else if \<not> is_dict authority then Inl (ValueError ''Evidence Pack authority must be an object'')
      else ebind (assert_optional_authority (dict_of authority) ''Evidence Pack authority'') (\<lambda>_.
      ebind (assert_optional_authority n ''notice'') (\<lambda>_.
      if \<not> is_str pack_hash \<or> str_of pack_hash = [] then Inl (ValueError ''Evidence Pack hash is unavailable'')
      else if \<not> py_eq (dget n ''source_evidence_pack_hash'') pack_hash
        then Inl (ValueError ''notice is not linked to current Evidence Pack'')
      else if \<not> is_dict wake then Inl (ValueError ''Evidence Pack reanalysis_wake must be an object'')
      else ebind (assert_optional_authority (dict_of wake) ''reanalysis_wake'') (\<lambda>_.
        (let requested = py_eq (dget (dict_of wake) ''state'') (PStr ''REANALYSIS_REQUESTED'') in
         if requested \<noteq> py_eq (dget n ''state'') (PStr ''GPT_REANALYSIS_REQUESTED'')
           then Inl (ValueError ''wake and notice reanalysis states disagree'')
         else Inr (str_of pack_hash, dict_of wake, requested))))))"

definition checked_ledger :: "ledger_file \<Rightarrow> unit res" where
  "checked_ledger f = ebind (ledger_validate None f) (\<lambda>v.
     if lv_valid v then Inr () else Inl (ValueError (''GPT handoff ledger is invalid: '' @ join ''; '' (lv_errors v))))"

definition is_type :: "string \<Rightarrow> dict \<Rightarrow> bool" where
  "is_type ty row \<longleftrightarrow> py_eq (dget row ''record_type'') (PStr ty)"

definition row_payload :: "dict \<Rightarrow> dict" where
  "row_payload row = dict_of (dget row ''payload'')"

definition reset_payload :: "string \<Rightarrow> dict \<Rightarrow> bool \<Rightarrow> dict \<Rightarrow> dict" where
  "reset_payload pack_hash notice full prior =
     [(''schema_version'', PStr HANDOFF_SCHEMA_VERSION), (''reason'', PStr ''WAKE_CLEARED''),
      (''prior_event_id'', dget prior ''event_id''), (''prior_semantic_wake_key'', dget prior ''semantic_wake_key''),
      (''source_evidence_pack_hash'', PStr pack_hash), (''source_notice_hash'', dget notice ''notice_hash'')]
     @ scope_part full @ handoff_authority"

definition event_hash :: "string \<Rightarrow> pyval \<Rightarrow> string" where
  "event_hash semantic_key anchor =
     canonical_hash (PDict [(''semantic_wake_key'', PStr semantic_key), (''episode_anchor'', anchor)])"

definition REQUIRED_INPUTS :: "dict \<Rightarrow> bool \<Rightarrow> string list" where
  "REQUIRED_INPUTS pack announced =
     [''LATEST_EVIDENCE_PACK'', ''LATEST_CAPITAL_STATE'', ''LATEST_NOTICE'']
     @ (if dhas pack ''issuer_ratio_observation'' then [''LATEST_ISSUER_RATIO_OBSERVATION''] else [])
     @ (if announced then [''LATEST_ISSUER_ANNOUNCEMENT''] else [])
     @ (if dhas pack ''mstr_asst_market_health'' then [''LATEST_MSTR_ASST_MARKET_HEALTH'', ''LATEST_THREE_ARMY_COMMANDER_LINES''] else [])"

definition REQUIRED_BEHAVIOR :: "bool \<Rightarrow> string list" where
  "REQUIRED_BEHAVIOR announced =
     [''READ_CURRENT_EVIDENCE'', ''REANALYZE'']
     @ (if announced then [''DISTINGUISH_PROPOSED_APPROVED_EFFECTIVE_ISSUER_POLICY''] else [])
     @ [''APPLY_THREE_ARMY_COMMANDER_DOCTRINE'', ''DECIDE_USER_NOTIFICATION_AFTER_REANALYSIS'', ''ADVISE_USER_ONLY'', ''NO_EXTERNAL_ACTION'']"

definition announced_in :: "dict \<Rightarrow> bool" where
  "announced_in descriptor \<longleftrightarrow> PStr ''ISSUER_ANNOUNCEMENT'' \<in> set (list_of (dget descriptor ''wake_sources''))"

definition handoff_payload :: "dict \<Rightarrow> dict \<Rightarrow> string \<Rightarrow> dict \<Rightarrow> dict \<Rightarrow> pyval \<Rightarrow> dict res" where
  "handoff_payload pack notice pack_hash wake descriptor anchor =
     ebind (py_iter (dget_or wake ''wake_sources'' (PList []))) (\<lambda>sources.
     ebind (py_iter (dget_or wake ''wake_reasons'' (PList []))) (\<lambda>reasons.
     (let plan_drift = dict_of (dget pack ''plan_drift''); key = canonical_hash (PDict descriptor);
          payload =
       [(''schema_version'', PStr HANDOFF_SCHEMA_VERSION), (''state'', PStr ''GPT_HANDOFF_READY''),
        (''event_id'', PStr (event_hash key anchor)), (''semantic_wake_key'', PStr key), (''semantic_descriptor'', PDict descriptor),
        (''episode_anchor'', anchor), (''source_evidence_pack_hash'', PStr pack_hash),
        (''source_notice_hash'', dget notice ''notice_hash''),
        (''wake'', PDict [(''state'', dget wake ''state''), (''reason'', dget wake ''reason''),
           (''wake_sources'', PList sources), (''wake_reasons'', PList reasons)]),
        (''plan_drift'', PDict [(''state'', dget plan_drift ''state''), (''reason'', dget plan_drift ''reason''),
           (''reanalysis_required'', dget plan_drift ''reanalysis_required''),
           (''violated_conditions'', dget descriptor ''violated_conditions'')]),
        (''instruction_for_gpt'', dget notice ''instruction_for_gpt''), (''reanalysis_semantics'', PDict reanalysis_semantics),
        (''required_inputs'', strs (REQUIRED_INPUTS pack (announced_in descriptor))),
        (''required_behavior'', strs (REQUIRED_BEHAVIOR (announced_in descriptor)))] @ handoff_authority
      in Inr (payload @ [(''handoff_hash'', PStr (canonical_hash (PDict payload)))]))))"

record gate_world =
  gw_ledger :: ledger_file
  gw_outbox :: json_dir

text \<open>The clock and a fresh run id of a ledger record, and whether an outbox is configured.\<close>

record gate_call =
  gc_now :: int
  gc_run_id :: string
  gc_mirror :: bool

text \<open>
  A call first reads the ledger and decides. Either it is finished with a report, or it is to record
  a handoff or a reset: its type, its payload and the gate record the decision rests on.
\<close>

record gate_intent =
  gi_type :: string
  gi_payload :: dict
  gi_previous :: "dict option"

definition clear_wake :: "string \<Rightarrow> dict \<Rightarrow> bool \<Rightarrow> ledger_file \<Rightarrow> dict res + gate_intent" where
  "clear_wake pack_hash notice full f =
     (case ebind (checked_ledger f) (\<lambda>_. last_gate_record full f) of
       Inl e \<Rightarrow> Inl (Inl e)
     | Inr None \<Rightarrow> Inl (Inr (base_result ''NO_HANDOFF'' ''NOOP'' PNone PNone))
     | Inr (Some row) \<Rightarrow>
         if is_type RESET_RECORD_TYPE row then Inl (Inr (base_result ''NO_HANDOFF'' ''NOOP'' PNone PNone))
         else Inr \<lparr>gi_type = RESET_RECORD_TYPE, gi_payload = reset_payload pack_hash notice full (row_payload row), gi_previous = Some row\<rparr>)"

definition record_reset :: "gate_call \<Rightarrow> dict \<Rightarrow> gate_world \<Rightarrow> dict res \<times> gate_world list" where
  "record_reset call payload w =
     (case ledger_append RESET_RECORD_TYPE payload (gc_now call) (gc_run_id call) (gw_ledger w) of
       (r, f) \<Rightarrow> (ebind r (\<lambda>reset. Inr (base_result ''NO_HANDOFF'' ''RESET_APPENDED'' PNone PNone
            @ [(''reset_record_hash'', dget reset ''record_hash'')])), [w\<lparr>gw_ledger := f\<rparr>]))"

definition duplicate_result :: "string \<Rightarrow> dict \<Rightarrow> string \<Rightarrow> dict \<Rightarrow> dict" where
  "duplicate_result pack_hash notice key row =
     base_result ''DUPLICATE_SKIPPED'' ''DUPLICATE_SKIPPED'' (dget (row_payload row) ''event_id'') (PStr key)
     @ [(''existing_record_hash'', dget row ''record_hash''), (''source_evidence_pack_hash'', PStr pack_hash),
        (''source_notice_hash'', dget notice ''notice_hash'')]"

definition record_handoff :: "gate_call \<Rightarrow> dict \<Rightarrow> dict \<Rightarrow> gate_world \<Rightarrow> dict res \<times> gate_world list" where
  "record_handoff call payload extra w =
     (case ledger_append HANDOFF_RECORD_TYPE payload (gc_now call) (gc_run_id call) (gw_ledger w) of
       (r, f) \<Rightarrow> (ebind r (\<lambda>rec. Inr (payload @ [(''append_status'', PStr ''APPENDED''),
            (''ledger_record_hash'', dget rec ''record_hash'')] @ extra)), [w\<lparr>gw_ledger := f\<rparr>]))"

text \<open>The outbox first, then the ledger.\<close>

definition publish_handoff :: "gate_env \<Rightarrow> gate_call \<Rightarrow> dict \<Rightarrow> dict \<Rightarrow> bool \<Rightarrow> gate_world \<Rightarrow> dict res \<times> gate_world list" where
  "publish_handoff env call pack payload full w =
     (if \<not> gc_mirror call then record_handoff call payload [] w
      else (case ge_builder env pack payload full of
          Inl e \<Rightarrow> (Inl e, [])
        | Inr bridge \<Rightarrow>
            (case enqueue_bridge_payload None (gw_outbox w) bridge of
              (r, dir) \<Rightarrow>
                (let w1 = w\<lparr>gw_outbox := dir\<rparr> in
                 case r of
                   Inl e \<Rightarrow> (Inl e, [w1])
                 | Inr res \<Rightarrow> (case record_handoff call payload [(''bridge_outbox'', PDict res)] w1 of (x, ws) \<Rightarrow> (x, w1 # ws))))))"

definition repeated_wake :: "string \<Rightarrow> dict option \<Rightarrow> bool" where
  "repeated_wake key previous \<longleftrightarrow>
     (case previous of
       None \<Rightarrow> False
     | Some row \<Rightarrow> is_type HANDOFF_RECORD_TYPE row \<and> py_eq (dget (row_payload row) ''semantic_wake_key'') (PStr key))"

definition episode_anchor :: "dict option \<Rightarrow> pyval" where
  "episode_anchor previous = (case previous of None \<Rightarrow> PStr GENESIS_HASH | Some row \<Rightarrow> dget row ''record_hash'')"

definition request_handoff ::
  "gate_env \<Rightarrow> dict \<Rightarrow> dict \<Rightarrow> string \<Rightarrow> dict \<Rightarrow> bool \<Rightarrow> ledger_file \<Rightarrow> dict res + gate_intent" where
  "request_handoff env pack notice pack_hash wake full f =
     (case ebind (semantic_descriptor env pack full) (\<lambda>descriptor.
            ebind (checked_ledger f) (\<lambda>_.
            ebind (last_gate_record full f) (\<lambda>previous. Inr (descriptor, previous)))) of
       Inl e \<Rightarrow> Inl (Inl e)
     | Inr (descriptor, previous) \<Rightarrow>
         (let key = canonical_hash (PDict descriptor) in
          if repeated_wake key previous then Inl (Inr (duplicate_result pack_hash notice key (the previous)))
          else (case handoff_payload pack notice pack_hash wake descriptor (episode_anchor previous) of
              Inl e \<Rightarrow> Inl (Inl e)
            | Inr payload \<Rightarrow> Inr \<lparr>gi_type = HANDOFF_RECORD_TYPE, gi_payload = payload, gi_previous = previous\<rparr>)))"

definition gate_decision :: "gate_env \<Rightarrow> pyval \<Rightarrow> pyval \<Rightarrow> bool \<Rightarrow> ledger_file \<Rightarrow> dict res + gate_intent" where
  "gate_decision env pack notice full f =
     (case gate_checks pack notice of
       Inl e \<Rightarrow> Inl (Inl e)
     | Inr (pack_hash, wake, requested) \<Rightarrow>
         if requested then request_handoff env (dict_of pack) (dict_of notice) pack_hash wake full f
         else clear_wake pack_hash (dict_of notice) full f)"

text \<open>A call that nobody interrupts: it writes on the ledger it has read.\<close>

definition run_gpt_handoff_gate ::
  "gate_env \<Rightarrow> gate_call \<Rightarrow> pyval \<Rightarrow> pyval \<Rightarrow> bool \<Rightarrow> gate_world \<Rightarrow> dict res \<times> gate_world list" where
  "run_gpt_handoff_gate env call pack notice full w =
     (case gate_decision env pack notice full (gw_ledger w) of
       Inl report \<Rightarrow> (report, [])
     | Inr i \<Rightarrow>
         if gi_type i = RESET_RECORD_TYPE then record_reset call (gi_payload i) w
         else publish_handoff env call (dict_of pack) (gi_payload i) full w)"

section \<open>Episodes\<close>

text \<open>The records of one scope, the episode they leave open, and what a new record must be.\<close>

definition gate_rows :: "bool \<Rightarrow> dict list \<Rightarrow> dict list" where
  "gate_rows full rows = filter (\<lambda>r. in_gate full r = Inr True) rows"

definition last_row :: "dict list \<Rightarrow> dict option" where
  "last_row rows = (if rows = [] then None else Some (last rows))"

definition open_key :: "dict list \<Rightarrow> pyval option" where
  "open_key rows = (case last_row rows of
     Some r \<Rightarrow> if is_type HANDOFF_RECORD_TYPE r then Some (dget (row_payload r) ''semantic_wake_key'') else None
   | None \<Rightarrow> None)"

definition handoff_key :: "dict \<Rightarrow> string" where
  "handoff_key r = str_of (dget (row_payload r) ''semantic_wake_key'')"

definition follows :: "dict list \<Rightarrow> dict \<Rightarrow> bool" where
  "follows before r \<longleftrightarrow>
     (if is_type HANDOFF_RECORD_TYPE r then
        dget (row_payload r) ''episode_anchor'' = episode_anchor (last_row before)
        \<and> dget (row_payload r) ''semantic_wake_key'' = PStr (handoff_key r)
        \<and> dget (row_payload r) ''event_id'' = PStr (event_hash (handoff_key r) (episode_anchor (last_row before)))
        \<and> open_key before \<noteq> Some (PStr (handoff_key r))
      else open_key before \<noteq> None)"

definition episodes_ok :: "dict list \<Rightarrow> bool" where
  "episodes_ok rows \<longleftrightarrow> (\<forall>before r after. rows = before @ r # after \<longrightarrow> follows before r)"

lemma episodes_snoc: "episodes_ok (rows @ [r]) \<longleftrightarrow> episodes_ok rows \<and> follows rows r"
  unfolding episodes_ok_def
proof (intro iffI conjI allI impI)
  fix before x after
  assume a: "(\<forall>before x after. rows = before @ x # after \<longrightarrow> follows before x) \<and> follows rows r" and e: "rows @ [r] = before @ x # after"
  show "follows before x"
  proof (cases after rule: rev_cases)
    case (snoc zs z)
    with e have "rows = before @ x # zs" by simp
    with a show ?thesis by blast
  qed (use a e in auto)
qed auto

lemma find_gate_last: "find_gate full (rev rows) = Inr x \<Longrightarrow> x = last_row (gate_rows full rows)"
proof (induction rows rule: rev_induct)
  case (snoc r rows)
  then obtain b where b: "in_gate full r = Inr b" by (auto simp: ebind_Inr_iff)
  show ?case
  proof (cases b)
    case False
    with snoc b show ?thesis by (simp add: gate_rows_def)
  qed (use snoc b in \<open>simp add: gate_rows_def last_row_def\<close>)
qed (simp add: gate_rows_def last_row_def)

lemma last_gate_record_Inr:
  assumes "last_gate_record full f = Inr x"
  obtains rows where "records f = Inr rows" "x = last_row (gate_rows full rows)"
  using assms find_gate_last by (auto simp: last_gate_record_def ebind_Inr_iff)

lemma gate_rows_snoc: "gate_rows full (rows @ [r]) = gate_rows full rows @ (if in_gate full r = Inr True then [r] else [])"
  by (simp add: gate_rows_def)

lemma announcement_part_keys: "announcement_part env pack ws = Inr a \<Longrightarrow> a = [] \<or> (\<exists>v. a = [(''issuer_announcement_events'', v)])"
  by (auto simp: announcement_part_def ebind_Inr_iff split: if_splits)

lemma ratio_part_keys: "ratio_part env pack ws = Inr a \<Longrightarrow> a = [] \<or> (\<exists>v. a = [(''issuer_observation_pairs'', v)])"
  by (auto simp: ratio_part_def ebind_Inr_iff split: if_splits)

lemma semantic_descriptor_Inr:
  assumes "semantic_descriptor env pack full = Inr d"
  obtains w p a b c ws y z where "d = descriptor_base w p a b c @ scope_part full @ capital_part w @ y @ z"
    and "announcement_part env pack ws = Inr y" and "ratio_part env pack ws = Inr z"
  using assms unfolding semantic_descriptor_def Let_def
  by (simp add: ebind_Inr_iff split: if_splits) (elim exE conjE, rule that, erule sym, assumption+)

lemma semantic_descriptor_scope:
  assumes "semantic_descriptor env pack full = Inr d"
  shows "dget d ''delivery_scope'' = (if full then FULL_SCOPE else PNone)"
proof -
  have c: "capital_part w = [] \<or> (\<exists>v. capital_part w = [(''capital_state_hash'', v)])" for w by (simp add: capital_part_def Let_def)
  from assms show ?thesis
  proof (rule semantic_descriptor_Inr)
    fix w p a b e ws y z
    assume d: "d = descriptor_base w p a b e @ scope_part full @ capital_part w @ y @ z"
      and y: "announcement_part env pack ws = Inr y" and z: "ratio_part env pack ws = Inr z"
    show ?thesis
      using announcement_part_keys [OF y] ratio_part_keys [OF z] c [of w] by (auto simp: d scope_part_def descriptor_base_def)
  qed
qed

section \<open>The record a call appends\<close>

lemma dget_or_dhas: "dget_or d k v = (if dhas d k then dget d k else v)"
  by (auto simp: dget_or_def dget_def dhas_map_of split: option.splits)

text \<open>A handoff record belongs to its own scope, and so does a reset.\<close>

lemma in_gate_type:
  assumes "dget r ''record_type'' = PStr ty" and "ty \<noteq> HANDOFF_RECORD_TYPE" and "ty \<noteq> RESET_RECORD_TYPE"
  shows "in_gate full r = Inr False"
  using assms by (simp add: in_gate_def)

lemma in_gate_scope:
  assumes "dget r ''record_type'' = PStr ty" and "ty = HANDOFF_RECORD_TYPE \<or> ty = RESET_RECORD_TYPE"
    and "row_scope r = Inr (if full then FULL_SCOPE else PNone)"
  shows "in_gate full' r = Inr True \<longleftrightarrow> full' = full"
  using assms by (auto simp: in_gate_def FULL_SCOPE_def)

lemma handoff_row_scope:
  assumes "dget r ''payload'' = PDict (reload_dict p)" and "dget p ''semantic_descriptor'' = PDict d"
    and "\<not> dhas p ''delivery_scope''" and "dget d ''delivery_scope'' = (if full then FULL_SCOPE else PNone)"
  shows "row_scope r = Inr (if full then FULL_SCOPE else PNone)"
proof -
  have r: "dget_or r ''payload'' (PDict []) = PDict (reload_dict p)"
    using assms(1) by (cases "dhas r ''payload''") (auto simp: dget_or_dhas dget_def dhas_map_of)
  have h: "dhas p ''semantic_descriptor''" using assms(2) by (cases "dhas p ''semantic_descriptor''") (auto simp: dget_def dhas_map_of)
  show ?thesis using assms(2-) h
    unfolding row_scope_def r by (simp add: dget_or_dhas json_reload_PDict FULL_SCOPE_def del: json_reload.simps(2))
qed

lemma reset_row_scope:
  assumes "dget r ''payload'' = PDict (reload_dict (reset_payload pack_hash notice full prior))"
  shows "row_scope r = Inr (if full then FULL_SCOPE else PNone)"
proof -
  have r: "dget_or r ''payload'' (PDict []) = PDict (reload_dict (reset_payload pack_hash notice full prior))"
    using assms(1) by (cases "dhas r ''payload''") (auto simp: dget_or_dhas dget_def dhas_map_of)
  show ?thesis
    unfolding row_scope_def r by (simp add: dget_or_dhas FULL_SCOPE_def scope_part_def reset_payload_def handoff_authority_def)
qed

section \<open>What a decision rests on\<close>

text \<open>
  An intent is sound when the record it leads to belongs to its scope and, written right after the
  gate record it rests on, continues the episodes.
\<close>

definition leads_to :: "gate_intent \<Rightarrow> dict \<Rightarrow> bool" where
  "leads_to i r \<longleftrightarrow> dget r ''record_type'' = PStr (gi_type i) \<and> dget r ''payload'' = PDict (reload_dict (gi_payload i))"

definition intent_ok :: "bool \<Rightarrow> gate_intent \<Rightarrow> bool" where
  "intent_ok full i \<longleftrightarrow> (\<forall>r. leads_to i r \<longrightarrow> (\<forall>full'. in_gate full' r = Inr True \<longleftrightarrow> full' = full)
     \<and> (\<forall>before. last_row before = gi_previous i \<longrightarrow> follows before r))"

lemma last_gate_row:
  assumes "last_gate_record full f = Inr previous"
  shows "last_row (gate_rows full (ledger_rows f)) = previous"
  using assms by (rule last_gate_record_Inr) (simp add: records_rows)

lemma reset_follows:
  assumes "in_gate full row = Inr True" and "\<not> is_type RESET_RECORD_TYPE row" and l: "last_row before = Some row"
    and "dget r ''record_type'' = PStr RESET_RECORD_TYPE"
  shows "follows before r"
proof -
  have "is_type HANDOFF_RECORD_TYPE row" using assms(1,2) by (auto simp: in_gate_def ebind_Inr_iff in_strs_def is_type_def split: if_splits)
  then show ?thesis using assms(4)
    by (simp add: follows_def open_key_def l is_type_def HANDOFF_RECORD_TYPE_def RESET_RECORD_TYPE_def)
qed

lemma clear_wake_ok:
  assumes "clear_wake pack_hash notice full f = Inr i"
  shows "intent_ok full i \<and> last_gate_record full f = Inr (gi_previous i) \<and> gi_type i = RESET_RECORD_TYPE"
proof -
  from assms obtain row where l: "last_gate_record full f = Inr (Some row)" and t: "\<not> is_type RESET_RECORD_TYPE row"
    and i: "i = \<lparr>gi_type = RESET_RECORD_TYPE, gi_payload = reset_payload pack_hash notice full (row_payload row), gi_previous = Some row\<rparr>"
    by (auto simp: clear_wake_def ebind_Inr_iff split: sum.splits option.splits if_splits)
  from l obtain rows where "last_row (gate_rows full rows) = Some row" by (rule last_gate_record_Inr) simp
  then have g: "in_gate full row = Inr True" by (auto simp: last_row_def gate_rows_def split: if_splits dest: last_in_set)
  have "(in_gate full' r = Inr True \<longleftrightarrow> full' = full) \<and> (\<forall>before. last_row before = Some row \<longrightarrow> follows before r)" if "leads_to i r" for r full'
    using that in_gate_scope [of r RESET_RECORD_TYPE full full'] reset_row_scope [of r pack_hash notice full "row_payload row"]
      reset_follows [OF g t, of _ r] by (simp add: leads_to_def i)
  then show ?thesis using l by (simp add: intent_ok_def i)
qed

lemma handoff_payload_fields:
  assumes "handoff_payload pack notice pack_hash wake d anchor = Inr p"
  shows "dget p ''semantic_descriptor'' = PDict d" "\<not> dhas p ''delivery_scope''"
    "dget p ''episode_anchor'' = anchor" "dget p ''semantic_wake_key'' = PStr (canonical_hash (PDict d))"
    "dget p ''event_id'' = PStr (event_hash (canonical_hash (PDict d)) anchor)"
  using assms by (auto simp: handoff_payload_def ebind_Inr_iff Let_def handoff_authority_def)

lemma anchor_is_str:
  assumes "checked_ledger f = Inr ()" and "last_gate_record full f = Inr previous"
  obtains h where "episode_anchor previous = PStr h"
proof (cases previous)
  case (Some row)
  from assms(1) obtain v where v: "ledger_validate None f = Inr v" "lv_valid v"
    by (auto simp: checked_ledger_def ebind_Inr_iff split: if_splits)
  from v obtain rows where rows: "records f = Inr rows" "\<forall>i < length rows. row_locked (i + 1) (rows ! i)"
    by (rule ledger_valid_chain) blast
  have "last_row (gate_rows full rows) = Some row" using assms(2) rows(1) Some last_gate_record_Inr by fastforce
  then have "row \<in> set rows" by (auto simp: last_row_def gate_rows_def split: if_splits dest: last_in_set)
  then obtain n where "row_locked n row" using rows(2) by (auto simp: in_set_conv_nth)
  then have "is_str (dget row ''record_hash'')" by (simp add: row_locked_def)
  then show thesis using that by (cases "dget row ''record_hash''") (auto simp: Some episode_anchor_def)
qed (use that in \<open>simp add: episode_anchor_def\<close>)

lemma handoff_follows:
  assumes "checked_ledger f = Inr ()" and "last_gate_record full f = Inr previous"
    and "\<not> repeated_wake (canonical_hash (PDict d)) previous"
    and "handoff_payload pack notice pack_hash wake d (episode_anchor previous) = Inr p"
    and l: "last_row before = previous"
    and r: "dget r ''record_type'' = PStr HANDOFF_RECORD_TYPE" "dget r ''payload'' = PDict (reload_dict p)"
  shows "follows before r"
proof -
  obtain h where h: "episode_anchor previous = PStr h" using anchor_is_str [OF assms(1,2)] .
  have p: "row_payload r = reload_dict p" by (simp add: row_payload_def r(2))
  note fields = handoff_payload_fields(3-5) [OF assms(4)]
  have "handoff_key r = canonical_hash (PDict d)" by (simp add: handoff_key_def p fields)
  moreover have "open_key before \<noteq> Some (PStr (canonical_hash (PDict d)))"
    using assms(3) by (auto simp: open_key_def l repeated_wake_def split: option.splits if_splits)
  ultimately show ?thesis using r(1) by (simp add: follows_def is_type_def l h p fields)
qed

lemma request_handoff_ok:
  assumes "request_handoff env pack notice pack_hash wake full f = Inr i"
  shows "intent_ok full i \<and> last_gate_record full f = Inr (gi_previous i) \<and> gi_type i = HANDOFF_RECORD_TYPE"
proof -
  from assms obtain d previous p where d: "semantic_descriptor env pack full = Inr d" and c: "checked_ledger f = Inr ()"
    and l: "last_gate_record full f = Inr previous" and new: "\<not> repeated_wake (canonical_hash (PDict d)) previous"
    and p: "handoff_payload pack notice pack_hash wake d (episode_anchor previous) = Inr p"
    and i: "i = \<lparr>gi_type = HANDOFF_RECORD_TYPE, gi_payload = p, gi_previous = previous\<rparr>"
    by (auto simp: request_handoff_def ebind_Inr_iff Let_def split: sum.splits if_splits)
  have "(in_gate full' r = Inr True \<longleftrightarrow> full' = full) \<and> (\<forall>before. last_row before = previous \<longrightarrow> follows before r)" if "leads_to i r" for r full'
    using that in_gate_scope [of r HANDOFF_RECORD_TYPE full full']
      handoff_row_scope [OF _ handoff_payload_fields(1,2) [OF p] semantic_descriptor_scope [OF d], of r]
      handoff_follows [OF c l new p, of _ r] by (simp add: leads_to_def i)
  then show ?thesis using l by (simp add: intent_ok_def i)
qed

lemma decision_ok:
  assumes "gate_decision env pack notice full f = Inr i"
  shows "intent_ok full i \<and> last_row (gate_rows full (ledger_rows f)) = gi_previous i
    \<and> (gi_type i = RESET_RECORD_TYPE \<or> gi_type i = HANDOFF_RECORD_TYPE)"
proof -
  have "intent_ok full i \<and> last_gate_record full f = Inr (gi_previous i) \<and> (gi_type i = RESET_RECORD_TYPE \<or> gi_type i = HANDOFF_RECORD_TYPE)"
    using assms clear_wake_ok request_handoff_ok unfolding gate_decision_def by (auto split: sum.splits if_splits)
  then show ?thesis using last_gate_row by blast
qed

section \<open>Runs of the gate\<close>

text \<open>
  Calls of either scope and other writers on one ledger, each effect a step of its own: the durable
  world, the calls that have read the ledger and decided to write, and those whose \<^verbatim>\<open>append\<close> has
  validated the ledger and built its record. A call that dies takes no further step; one that dies
  inside the write leaves a torn line. Records of other types are built from the ledger as it was at
  any moment before. The gate takes no lock. With \<open>overlap = False\<close> a call writes only while
  the last gate record of its scope is still the one its decision rests on.
\<close>

record gate_system =
  gs_world :: gate_world
  gs_decided :: "(bool \<times> gate_intent) list"
  gs_prepared :: "(bool \<times> gate_intent \<times> dict) list"

abbreviation gs_ledger :: "gate_system \<Rightarrow> ledger_file" where
  "gs_ledger s \<equiv> gw_ledger (gs_world s)"

abbreviation with_ledger :: "ledger_file \<Rightarrow> gate_system \<Rightarrow> gate_system" where
  "with_ledger f s \<equiv> s\<lparr>gs_world := (gs_world s)\<lparr>gw_ledger := f\<rparr>\<rparr>"

inductive gate_step :: "bool \<Rightarrow> gate_system \<Rightarrow> gate_system \<Rightarrow> bool" for overlap :: bool where
  decide: "gate_decision (env :: gate_env) pack notice full (gs_ledger s) = Inr i \<Longrightarrow>
     gate_step overlap s (s\<lparr>gs_decided := (full, i) # gs_decided s\<rparr>)"
| mirror: "(full, i) \<in> set (gs_decided s) \<Longrightarrow> ge_builder (env :: gate_env) pack (gi_payload i) full = Inr bridge \<Longrightarrow>
     enqueue_bridge_payload raced (gw_outbox (gs_world s)) bridge = (res, dir) \<Longrightarrow>
     gate_step overlap s (s\<lparr>gs_world := (gs_world s)\<lparr>gw_outbox := dir\<rparr>\<rparr>)"
| prepare: "(full, i) \<in> set (gs_decided s) \<Longrightarrow>
     append_record (gi_type i) (gi_payload i) now uid (gs_ledger s) = Inr r \<Longrightarrow>
     gate_step overlap s (s\<lparr>gs_decided := remove1 (full, i) (gs_decided s), gs_prepared := (full, i, r) # gs_prepared s\<rparr>)"
| writing: "(full, i, r) \<in> set (gs_prepared s) \<Longrightarrow>
     overlap \<or> last_row (gate_rows full (ledger_rows (gs_ledger s))) = gi_previous i \<Longrightarrow>
     gate_step overlap s (with_ledger (write_line r (gs_ledger s)) (s\<lparr>gs_prepared := remove1 (full, i, r) (gs_prepared s)\<rparr>))"
| other: "ty \<noteq> HANDOFF_RECORD_TYPE \<Longrightarrow> ty \<noteq> RESET_RECORD_TYPE \<Longrightarrow> append_record ty p now uid f = Inr r \<Longrightarrow>
     gate_step overlap s (with_ledger (write_line r (gs_ledger s)) s)"
| tear: "gate_step overlap s (with_ledger (torn_append (gs_ledger s)) s)"

definition gate_start :: "gate_system \<Rightarrow> bool" where
  "gate_start s \<longleftrightarrow> gs_ledger s = empty_ledger \<and> gs_decided s = [] \<and> gs_prepared s = []"

definition episodes_invariant :: "gate_system \<Rightarrow> bool" where
  "episodes_invariant s \<longleftrightarrow> (\<forall>full. episodes_ok (gate_rows full (ledger_rows (gs_ledger s))))
     \<and> (\<forall>(full, i) \<in> set (gs_decided s). intent_ok full i)
     \<and> (\<forall>(full, i, r) \<in> set (gs_prepared s). intent_ok full i \<and> leads_to i (reload_dict r))"

lemma episodes_prefix: "episodes_ok (gate_rows full (xs @ ys)) \<Longrightarrow> episodes_ok (gate_rows full xs)"
  unfolding episodes_ok_def gate_rows_def filter_append
proof (intro allI impI)
  fix before r after
  assume a: "\<forall>before r after. filter (\<lambda>r. in_gate full r = Inr True) xs @ filter (\<lambda>r. in_gate full r = Inr True) ys = before @ r # after \<longrightarrow> follows before r"
    and e: "filter (\<lambda>r. in_gate full r = Inr True) xs = before @ r # after"
  show "follows before r"
    using a [rule_format, of before r "after @ filter (\<lambda>r. in_gate full r = Inr True) ys"] by (simp add: e)
qed

lemma record_leads:
  assumes "append_record ty p now uid f = Inr r"
  shows "dget (reload_dict r) ''record_type'' = PStr ty" "dget (reload_dict r) ''payload'' = PDict (reload_dict p)"
proof -
  obtain v :: ledger_validation and rows :: "dict list" where r: "r = new_record (length rows) ty p now uid (PStr (lv_head_hash v))"
    using assms by (rule append_record_Inr) blast
  note f = new_record_fields [of "length rows" ty p now uid "lv_head_hash v", folded r]
  show "dget (reload_dict r) ''record_type'' = PStr ty" by (simp add: f)
  show "dget (reload_dict r) ''payload'' = PDict (reload_dict p)" by (simp add: r new_record_payload json_reload_PDict del: json_reload.simps(2))
qed

lemma write_episodes:
  assumes "\<forall>full. episodes_ok (gate_rows full (ledger_rows f))"
    and "\<And>full. in_gate full (reload_dict r) = Inr True \<Longrightarrow> follows (gate_rows full (ledger_rows f)) (reload_dict r)"
  shows "episodes_ok (gate_rows full (ledger_rows (write_line r f)))"
proof (cases "lf_torn f")
  case True
  then obtain rest where "ledger_rows f = ledger_rows (write_line r f) @ rest" using rows_write [of f r] by auto
  then show ?thesis using assms(1) episodes_prefix by metis
next
  case False
  then have "ledger_rows (write_line r f) = ledger_rows f @ [reload_dict r]" using rows_write [of f r] by simp
  then show ?thesis using assms by (simp add: gate_rows_snoc episodes_snoc)
qed

lemma gate_step_invariant:
  assumes "gate_step False s s'" and inv: "episodes_invariant s"
  shows "episodes_invariant s'"
  using assms(1)
proof cases
  case (decide env pack notice full i)
  then show ?thesis using inv decision_ok [OF decide(2)] by (simp add: episodes_invariant_def)
next
  case (mirror full i env pack bridge raced res dir)
  then show ?thesis using inv by (simp add: episodes_invariant_def)
next
  case (prepare full i now uid r)
  have "leads_to i (reload_dict r)" using record_leads [OF prepare(3)] by (simp add: leads_to_def)
  then show ?thesis using inv prepare(1,2) by (auto simp: episodes_invariant_def dest: notin_set_remove1)
next
  case (writing full i r)
  from inv writing(2) have i: "intent_ok full i" "leads_to i (reload_dict r)" by (auto simp: episodes_invariant_def)
  have "follows (gate_rows full' (ledger_rows (gs_ledger s))) (reload_dict r)" if "in_gate full' (reload_dict r) = Inr True" for full'
    using i that writing(3) by (auto simp: intent_ok_def)
  then show ?thesis using inv write_episodes [of "gs_ledger s" r]
    using set_remove1_subset [of "(full, i, r)" "gs_prepared s"] by (fastforce simp: episodes_invariant_def writing(1))
next
  case (other ty p now uid f r)
  have "in_gate full (reload_dict r) = Inr False" for full using in_gate_type record_leads(1) [OF other(4)] other(2,3) by blast
  then show ?thesis using inv write_episodes [of "gs_ledger s" r] by (simp add: episodes_invariant_def other(1))
next
  case tear
  obtain rest where "ledger_rows (gs_ledger s) = ledger_rows (torn_append (gs_ledger s)) @ rest" using rows_torn by blast
  then have "episodes_ok (gate_rows full (ledger_rows (torn_append (gs_ledger s))))" for full
    using inv episodes_prefix by (metis episodes_invariant_def)
  then show ?thesis using inv by (simp add: episodes_invariant_def tear)
qed

lemma gate_run_invariant: "(gate_step False)\<^sup>*\<^sup>* s s' \<Longrightarrow> episodes_invariant s \<Longrightarrow> episodes_invariant s'"
  by (induction rule: rtranclp_induct) (auto dest: gate_step_invariant)

lemma start_invariant: "gate_start s \<Longrightarrow> episodes_invariant s"
  by (simp add: gate_start_def episodes_invariant_def ledger_rows_def empty_ledger_def gate_rows_def episodes_ok_def)

text \<open>A call that runs undisturbed passes only through worlds these steps reach.\<close>

lemma append_steps:
  assumes "(full, i) \<in> set (gs_decided s)" and "last_row (gate_rows full (ledger_rows (gs_ledger s))) = gi_previous i"
    and "ledger_append (gi_type i) (gi_payload i) now uid (gs_ledger s) = (res, f)"
  shows "\<exists>s'. (gate_step False)\<^sup>*\<^sup>* s s' \<and> gs_world s' = (gs_world s)\<lparr>gw_ledger := f\<rparr>"
proof (cases "append_record (gi_type i) (gi_payload i) now uid (gs_ledger s)")
  case (Inl e)
  then show ?thesis using assms(3) by (intro exI [of _ s]) (simp add: ledger_append_def)
next
  case (Inr r)
  then have f: "f = write_line r (gs_ledger s)" using assms(3) by (simp add: ledger_append_def Let_def)
  let ?s1 = "s\<lparr>gs_decided := remove1 (full, i) (gs_decided s), gs_prepared := (full, i, r) # gs_prepared s\<rparr>"
  have a: "gate_step False s ?s1" using assms(1) Inr by (rule gate_step.prepare)
  have b: "gate_step False ?s1 (with_ledger (write_line r (gs_ledger ?s1)) (?s1\<lparr>gs_prepared := remove1 (full, i, r) (gs_prepared ?s1)\<rparr>))"
    by (rule gate_step.writing) (simp_all add: assms(2))
  show ?thesis using rtranclp_trans [OF r_into_rtranclp [of "gate_step False", OF a] r_into_rtranclp [of "gate_step False", OF b]] f
    by (intro exI conjI) (assumption, simp)
qed

lemma gate_call_steps:
  assumes "w \<in> set (snd (run_gpt_handoff_gate env call pack notice full (gs_world s)))"
  shows "\<exists>s'. (gate_step False)\<^sup>*\<^sup>* s s' \<and> gs_world s' = w"
proof (cases "gate_decision env pack notice full (gs_ledger s)")
  case (Inr i)
  let ?s = "s\<lparr>gs_decided := (full, i) # gs_decided s\<rparr>" and ?p = "gi_payload i"
  have d: "gate_step False s ?s" using Inr by (rule gate_step.decide)
  note ok = decision_ok [OF Inr]
  have app: "\<exists>s'. (gate_step False)\<^sup>*\<^sup>* s s' \<and> gs_world s' = (gs_world s)\<lparr>gw_outbox := dir, gw_ledger := f\<rparr>"
    if "(gate_step False)\<^sup>*\<^sup>* ?s (?s\<lparr>gs_world := (gs_world s)\<lparr>gw_outbox := dir\<rparr>\<rparr>)" "gi_type i = ty"
      "ledger_append ty ?p (gc_now call) (gc_run_id call) (gs_ledger s) = (r, f)" for dir ty r f
  proof -
    let ?t = "?s\<lparr>gs_world := (gs_world s)\<lparr>gw_outbox := dir\<rparr>\<rparr>"
    have "\<exists>s'. (gate_step False)\<^sup>*\<^sup>* ?t s' \<and> gs_world s' = (gs_world ?t)\<lparr>gw_ledger := f\<rparr>"
      by (rule append_steps [where i = i and full = full and res = r]) (use ok that in simp_all)
    then obtain s' where "(gate_step False)\<^sup>*\<^sup>* ?t s'" "gs_world s' = (gs_world ?t)\<lparr>gw_ledger := f\<rparr>" by blast
    then show ?thesis using d that(1) by (intro exI [of _ s']) (simp add: converse_rtranclp_into_rtranclp rtranclp_trans)
  qed
  have same: "?s\<lparr>gs_world := (gs_world s)\<lparr>gw_outbox := gw_outbox (gs_world s)\<rparr>\<rparr> = ?s" by simp
  have plain: "\<exists>s'. (gate_step False)\<^sup>*\<^sup>* s s' \<and> gs_world s' = (gs_world s)\<lparr>gw_ledger := f\<rparr>"
    if "gi_type i = ty" "ledger_append ty ?p (gc_now call) (gc_run_id call) (gs_ledger s) = (r, f)" for ty r f
    using app [of "gw_outbox (gs_world s)", unfolded same, OF rtranclp.rtrancl_refl that] by simp
  note w = assms [unfolded run_gpt_handoff_gate_def Inr sum.case]
  show ?thesis
  proof (cases "gi_type i = RESET_RECORD_TYPE")
    case True
    obtain r f where a: "ledger_append RESET_RECORD_TYPE ?p (gc_now call) (gc_run_id call) (gs_ledger s) = (r, f)" by fastforce
    show ?thesis using w plain [OF True a] by (simp add: True record_reset_def a)
  next
    case False
    then have h: "gi_type i = HANDOFF_RECORD_TYPE" using ok by blast
    obtain r f where a: "ledger_append HANDOFF_RECORD_TYPE ?p (gc_now call) (gc_run_id call) (gs_ledger s) = (r, f)" by fastforce
    note w' = w [unfolded if_not_P [OF False] publish_handoff_def]
    show ?thesis
    proof (cases "gc_mirror call")
      case False
      then show ?thesis using w' plain [OF h a] by (simp add: record_handoff_def a)
    next
      case True
      then obtain bridge where b: "ge_builder env (dict_of pack) ?p full = Inr bridge" using w' by (auto split: sum.splits)
      obtain x dir where e: "enqueue_bridge_payload None (gw_outbox (gs_world s)) bridge = (x, dir)" by fastforce
      let ?t = "?s\<lparr>gs_world := (gs_world s)\<lparr>gw_outbox := dir\<rparr>\<rparr>"
      have "gate_step False ?s (?s\<lparr>gs_world := (gs_world ?s)\<lparr>gw_outbox := dir\<rparr>\<rparr>)"
        by (rule gate_step.mirror [where i = i and full = full and env = env and pack = "dict_of pack" and bridge = bridge
              and raced = None and res = x]) (simp_all add: b e)
      then have m: "(gate_step False)\<^sup>*\<^sup>* ?s ?t" by simp
      then have m': "(gate_step False)\<^sup>*\<^sup>* s ?t" using d by (rule converse_rtranclp_into_rtranclp [rotated])
      consider "w = (gs_world s)\<lparr>gw_outbox := dir\<rparr>" | "w = (gs_world s)\<lparr>gw_outbox := dir, gw_ledger := f\<rparr>"
        using w' True b e a by (cases x) (auto simp: record_handoff_def Let_def)
      then show ?thesis
      proof cases
        case 1
        then show ?thesis using m' by (intro exI [of _ ?t]) simp
      next
        case 2
        then show ?thesis using app [OF m h a] by simp
      qed
    qed
  qed
qed (use assms in \<open>simp add: run_gpt_handoff_gate_def\<close>)

text \<open>C28: whatever the gate is called with, however the steps of its calls interleave with each other
  and with other writers of the ledger, and wherever a process dies, inside a write included, the
  records of a scope form episodes: a handoff is never recorded again while its wake is still open, a
  reset only closes an open handoff, and every event identity commits to the wake and to the gate
  record before it. This supposes that a call writes only while the last gate record of its scope is
  still the one it has read, as it is when calls of one scope do not overlap.\<close>

theorem one_handoff_per_episode:
  assumes "(gate_step False)\<^sup>*\<^sup>* s0 s" and "gate_start s0"
  shows "episodes_ok (gate_rows full (ledger_rows (gs_ledger s)))"
  using gate_run_invariant [OF assms(1) start_invariant [OF assms(2)]] by (simp add: episodes_invariant_def)

text \<open>
  Distinct handoffs of a scope carry distinct identities, unless a record hashes to the genesis hash
  or the texts hashed for the two identities collide.
\<close>

theorem handoff_ids_unique:
  assumes "(gate_step False)\<^sup>*\<^sup>* s0 s" and "gate_start s0"
    and v: "ledger_validate None (gs_ledger s) = Inr v" "lv_valid v" and rows: "records (gs_ledger s) = Inr rows"
    and split: "gate_rows full rows = xs @ r # ys @ r' # zs" and h: "is_type HANDOFF_RECORD_TYPE r" "is_type HANDOFF_RECORD_TYPE r'"
    and genesis: "GENESIS_HASH \<notin> set (map row_stamp rows)"
    and collision: "event_hash (handoff_key r) (dget (row_payload r) ''episode_anchor'')
          = event_hash (handoff_key r') (dget (row_payload r') ''episode_anchor'') \<Longrightarrow>
        dget (row_payload r) ''episode_anchor'' = dget (row_payload r') ''episode_anchor''"
  shows "dget (row_payload r) ''event_id'' \<noteq> dget (row_payload r') ''event_id''"
proof
  assume e: "dget (row_payload r) ''event_id'' = dget (row_payload r') ''event_id''"
  have "episodes_ok (gate_rows full rows)"
    using gate_run_invariant [OF assms(1) start_invariant [OF assms(2)]] records_rows [OF rows] by (simp add: episodes_invariant_def)
  then have f: "follows xs r" "follows (xs @ r # ys) r'" by (simp_all add: split episodes_ok_def)
  from v obtain t where "distinct (map row_stamp rows)" "\<forall>i < length rows. row_locked (i + 1) (rows ! i)"
    by (rule ledger_valid_chain) (use rows in auto)
  then have d: "distinct (map row_stamp (xs @ r # ys @ r' # zs))" and l: "\<forall>x \<in> set rows. is_str (dget x ''record_hash'')"
    unfolding split [symmetric] by (auto simp: gate_rows_def distinct_map_filter row_locked_def in_set_conv_nth)
  define b where "b = last (r # ys)"
  have b: "b \<in> set (r # ys)" unfolding b_def by (rule last_in_set) simp
  have set: "set (xs @ r # ys @ r' # zs) \<subseteq> set rows" unfolding split [symmetric] by (auto simp: gate_rows_def)
  have "dget (row_payload r') ''episode_anchor'' = dget b ''record_hash''"
    using f(2) h(2) by (simp add: follows_def last_row_def episode_anchor_def b_def)
  moreover have "dget (row_payload r) ''episode_anchor'' = dget (row_payload r') ''episode_anchor''"
    using collision e f h by (simp add: follows_def)
  ultimately have eq: "episode_anchor (last_row xs) = dget b ''record_hash''" using f(1) h(1) by (simp add: follows_def)
  show False
  proof (cases "xs = []")
    case True
    then have "GENESIS_HASH = row_stamp b" using eq by (simp add: last_row_def episode_anchor_def flip: eq)
    then show False using genesis b set by auto
  next
    case False
    then have "row_stamp (last xs) = row_stamp b" using eq by (simp add: last_row_def episode_anchor_def)
    moreover have "row_stamp (last xs) \<in> row_stamp ` set xs" using False by simp
    moreover have "row_stamp b \<in> row_stamp ` set (r # ys)" using b by blast
    ultimately show False using d by auto
  qed
qed

text \<open>
  A process that dies between the mirror and the ledger leaves its event in the outbox. The next call
  with a fresher pack of the same wake computes the same identity, so its payload conflicts with the
  one on disk: the call fails and records nothing.
\<close>

theorem crashed_handoff_blocks_fresher_pack:
  assumes "gate_checks pack notice = Inr (pack_hash, wake, True)" and "semantic_descriptor env (dict_of pack) full = Inr d"
    and "checked_ledger (gw_ledger w) = Inr ()" and "last_gate_record full (gw_ledger w) = Inr previous"
    and "\<not> repeated_wake (canonical_hash (PDict d)) previous"
    and "handoff_payload (dict_of pack) (dict_of notice) pack_hash wake d (episode_anchor previous) = Inr p"
    and "gc_mirror call" and "ge_builder env (dict_of pack) p full = Inr bridge"
    and "validate_bridge_payload bridge = Inr (event_id, h')"
    and "map_of (gw_outbox w) event_id = Some (Some v)" and "validate_bridge_payload v = Inr (event_id, h)" and "h \<noteq> h'"
  shows "run_gpt_handoff_gate env call pack notice full w =
    (Inl (ValueError ''Existing outbox event conflicts with new bridge payload''), [w])"
  using assms validate_bridge_payload_iff [of v event_id h]
  by (auto simp add: run_gpt_handoff_gate_def gate_decision_def request_handoff_def HANDOFF_RECORD_TYPE_def RESET_RECORD_TYPE_def publish_handoff_def enqueue_bridge_payload_def file_exists_def
      check_duplicate_def read_existing_def Let_def)

section \<open>A concrete run\<close>

definition demo_pack :: dict where
  "demo_pack = [(''authority'', PDict []), (''evidence_pack_hash'', PStr ''h''),
     (''reanalysis_wake'', PDict [(''state'', PStr ''REANALYSIS_REQUESTED''), (''wake_sources'', PList [PStr ''DVOL''])]),
     (''plan_drift'', PDict [])]"

definition demo_notice :: dict where
  "demo_notice = [(''source_evidence_pack_hash'', PStr ''h''), (''state'', PStr ''GPT_REANALYSIS_REQUESTED'')]"

definition demo_gate_env :: gate_env where
  "demo_gate_env = \<lparr>ge_announcement = \<lambda>v _. Inr v, ge_ratio = \<lambda>v _. Inr v, ge_builder = \<lambda>_ _ _. Inr PNone\<rparr>"

definition demo_system :: gate_system where
  "demo_system = \<lparr>gs_world = \<lparr>gw_ledger = empty_ledger, gw_outbox = []\<rparr>, gs_decided = [], gs_prepared = []\<rparr>"

lemma demo_descriptor: "\<exists>d. semantic_descriptor demo_gate_env demo_pack full = Inr d"
  by (simp add: semantic_descriptor_def demo_pack_def wake_strings_def violated_condition_signatures_def announcement_part_def
      ratio_part_def dget_or_def Let_def)

lemma demo_checks:
  "gate_checks (PDict demo_pack) (PDict demo_notice)
     = Inr (''h'', [(''state'', PStr ''REANALYSIS_REQUESTED''), (''wake_sources'', PList [PStr ''DVOL''])], True)"
  by (simp add: gate_checks_def demo_pack_def demo_notice_def assert_optional_authority_def OPTIONAL_AUTHORITY_def)

lemma demo_intent:
  "\<exists>i. gate_decision demo_gate_env (PDict demo_pack) (PDict demo_notice) False empty_ledger = Inr i \<and> gi_type i = HANDOFF_RECORD_TYPE"
proof -
  let ?wake = "[(''state'', PStr ''REANALYSIS_REQUESTED''), (''wake_sources'', PList [PStr ''DVOL''])]"
  obtain d where d: "semantic_descriptor demo_gate_env demo_pack False = Inr d" using demo_descriptor by blast
  obtain p where p: "handoff_payload demo_pack demo_notice ''h'' ?wake d (PStr GENESIS_HASH) = Inr p"
    by (simp add: handoff_payload_def dget_or_def Let_def)
  show ?thesis
    by (simp add: gate_decision_def demo_checks request_handoff_def d checked_ledger_def validate_empty
        last_gate_record_def repeated_wake_def episode_anchor_def p Let_def)
qed

text \<open>The ledger with the one record of a call on the empty one.\<close>

lemma demo_append:
  fixes i
  defines "r \<equiv> new_record 0 (gi_type i) (gi_payload i) 7 ''u'' (PStr GENESIS_HASH)"
  shows "append_record (gi_type i) (gi_payload i) 7 ''u'' empty_ledger = Inr r" "records (write_line r empty_ledger) = Inr [reload_dict r]"
    "gi_type i \<noteq> ''SNAPSHOT'' \<Longrightarrow> \<exists>v. ledger_validate None (write_line r empty_ledger) = Inr v \<and> lv_valid v"
proof -
  show a: "append_record (gi_type i) (gi_payload i) 7 ''u'' empty_ledger = Inr r"
    using prepared_record [OF validate_empty, of "gi_type i" "gi_payload i" 7 "''u''"] by (simp add: r_def empty_validation_def)
  show "records (write_line r empty_ledger) = Inr [reload_dict r]" using records_write [OF validate_empty(3), of r] by simp
  assume "gi_type i \<noteq> ''SNAPSHOT''"
  from append_keeps_valid [OF validate_empty this, of "gi_payload i" 7 "''u''"]
  show "\<exists>v. ledger_validate None (write_line r empty_ledger) = Inr v \<and> lv_valid v"
    by (auto simp: ledger_append_def a Let_def)
qed

theorem one_handoff_per_episode_witness:
  "\<exists>s. (gate_step False)\<^sup>*\<^sup>* demo_system s \<and> length (gate_rows False (ledger_rows (gs_ledger s))) = 1
     \<and> episodes_ok (gate_rows False (ledger_rows (gs_ledger s)))"
proof -
  obtain i where i: "gate_decision demo_gate_env (PDict demo_pack) (PDict demo_notice) False empty_ledger = Inr i"
    using demo_intent by blast
  let ?r = "new_record 0 (gi_type i) (gi_payload i) 7 ''u'' (PStr GENESIS_HASH)"
  let ?s1 = "demo_system\<lparr>gs_decided := [(False, i)]\<rparr>"
  let ?s2 = "?s1\<lparr>gs_decided := [], gs_prepared := [(False, i, ?r)]\<rparr>"
  let ?s3 = "with_ledger (write_line ?r empty_ledger) (?s2\<lparr>gs_prepared := []\<rparr>)"
  have start: "gate_start demo_system" "gs_ledger demo_system = empty_ledger" by (simp_all add: gate_start_def demo_system_def)
  have a: "gate_step False demo_system ?s1"
    using gate_step.decide [of demo_gate_env "PDict demo_pack" "PDict demo_notice" False demo_system i False] i by (simp add: demo_system_def)
  have b: "gate_step False ?s1 ?s2"
    using gate_step.prepare [of False i ?s1 7 "''u''" ?r False] demo_append(1) [of i] by (simp add: demo_system_def)
  have c: "gate_step False ?s2 ?s3"
    using gate_step.writing [of False i ?r ?s2 False] decision_ok [OF i] by (simp add: demo_system_def)
  have run: "(gate_step False)\<^sup>*\<^sup>* demo_system ?s3" using a b c by (meson rtranclp.rtrancl_into_rtrancl rtranclp.rtrancl_refl)
  have rows: "ledger_rows (write_line ?r empty_ledger) = [reload_dict ?r]" using records_rows demo_append(2) by blast
  have "in_gate False (reload_dict ?r) = Inr True"
    using decision_ok [OF i] record_leads [OF demo_append(1) [of i]] by (auto simp: intent_ok_def leads_to_def)
  then have "gate_rows False [reload_dict ?r] = [reload_dict ?r]" by (simp add: gate_rows_def)
  then have "length (gate_rows False (ledger_rows (gs_ledger ?s3))) = 1" by (simp add: rows)
  then show ?thesis using run one_handoff_per_episode [OF run start(1), of False] by blast
qed

text \<open>The restriction is needed: two calls that both read the ledger before either writes both record
  the same open wake.\<close>

theorem overlapping_calls_record_twice:
  "\<exists>s r r'. (gate_step True)\<^sup>*\<^sup>* demo_system s \<and> records (gs_ledger s) = Inr [r, r']
     \<and> is_type HANDOFF_RECORD_TYPE r \<and> is_type HANDOFF_RECORD_TYPE r' \<and> row_payload r = row_payload r'"
proof -
  obtain i where i: "gate_decision demo_gate_env (PDict demo_pack) (PDict demo_notice) False empty_ledger = Inr i"
    and ty: "gi_type i = HANDOFF_RECORD_TYPE" using demo_intent by blast
  let ?r = "new_record 0 (gi_type i) (gi_payload i) 7 ''u'' (PStr GENESIS_HASH)"
  let ?f = "write_line ?r empty_ledger"
  have "gi_type i \<noteq> ''SNAPSHOT''" by (simp add: ty HANDOFF_RECORD_TYPE_def)
  then obtain v where v: "ledger_validate None ?f = Inr v" "lv_valid v" using demo_append(3) by blast
  let ?q = "new_record (length [reload_dict ?r]) (gi_type i) (gi_payload i) 8 ''v'' (PStr (lv_head_hash v))"
  have q: "append_record (gi_type i) (gi_payload i) 8 ''v'' ?f = Inr ?q" by (rule prepared_record [OF v demo_append(2)])
  let ?s1 = "demo_system\<lparr>gs_decided := [(False, i)]\<rparr>" and ?s2 = "demo_system\<lparr>gs_decided := [(False, i), (False, i)]\<rparr>"
  let ?s3 = "demo_system\<lparr>gs_decided := [(False, i)], gs_prepared := [(False, i, ?r)]\<rparr>"
  let ?s4 = "with_ledger ?f (demo_system\<lparr>gs_decided := [(False, i)]\<rparr>)"
  let ?s5 = "with_ledger ?f (demo_system\<lparr>gs_prepared := [(False, i, ?q)]\<rparr>)"
  let ?s6 = "with_ledger (write_line ?q ?f) demo_system"
  have a: "gate_step True demo_system ?s1" "gate_step True ?s1 ?s2"
    using gate_step.decide [of demo_gate_env "PDict demo_pack" "PDict demo_notice" False demo_system i True]
      gate_step.decide [of demo_gate_env "PDict demo_pack" "PDict demo_notice" False ?s1 i True] i by (simp_all add: demo_system_def)
  have b: "gate_step True ?s2 ?s3"
    using gate_step.prepare [of False i ?s2 7 "''u''" ?r True] demo_append(1) [of i] by (simp add: demo_system_def)
  have c: "gate_step True ?s3 ?s4" using gate_step.writing [of False i ?r ?s3 True] by (simp add: demo_system_def)
  have d: "gate_step True ?s4 ?s5" using gate_step.prepare [of False i ?s4 8 "''v''" ?q True] q by (simp add: demo_system_def)
  have e: "gate_step True ?s5 ?s6" using gate_step.writing [of False i ?q ?s5 True] by (simp add: demo_system_def)
  have run: "(gate_step True)\<^sup>*\<^sup>* demo_system ?s6"
    using a b c d e by (meson rtranclp.rtrancl_into_rtrancl rtranclp.rtrancl_refl)
  have recs: "records (gs_ledger ?s6) = Inr [reload_dict ?r, reload_dict ?q]" using records_write [OF demo_append(2) [of i], of ?q] by simp
  have "is_type HANDOFF_RECORD_TYPE (reload_dict ?r)" "is_type HANDOFF_RECORD_TYPE (reload_dict ?q)"
    "row_payload (reload_dict ?r) = row_payload (reload_dict ?q)"
    using record_leads [OF demo_append(1) [of i]] record_leads [OF q] by (simp_all add: is_type_def row_payload_def ty)
  then show ?thesis using run recs by blast
qed

end
