(* ===== verification/Observation_Store.thy ===== *)
theory Observation_Store
  imports Py_Text "HOL-Library.Product_Lexorder" "HOL-Library.Sublist"
begin

text \<open>
  The observation history (\<^verbatim>\<open>observation_store.py\<close>) and the changes computed from it
  (\<^verbatim>\<open>change_engine.py\<close>): the extraction of observations from a source gate document, the append-only
  tables of observations and research events, the two projections of a series as it was visible at a
  given time, and the comparison of current values with their history. A table is the list of its rows
  in insertion order; what the connection sees and what is committed are kept apart. The JSON column
  of a research event is the value it encodes. Whether the pinned revision policy is valid is an
  argument. Shown: facts are never changed, a series is strictly ordered in time, and nothing that is
  recorded later changes what was computed for an earlier time.
\<close>

section \<open>Observations\<close>

record observation =
  ob_layer :: string
  ob_family :: string
  ob_metric :: string
  ob_as_of :: int
  ob_value :: pyfloat
  ob_source :: string
  ob_quality :: string
  ob_evidence :: string
  ob_registry :: string
  ob_run :: string
  ob_recorded :: int

definition L6_FORMAL_METRICS :: "(string \<times> string list) list" where
  "L6_FORMAL_METRICS =
     [(''BTC_SPOT_COMPOSITE_OHLCV'', [''close_minus_sma200_over_atr20'', ''sma50_minus_sma200_over_atr20'', ''return_20d_over_atr_vol'']),
      (''BTC_SPOT_AGGRESSOR_DAILY'', [''cvd_20d_share''])]"

definition COMPARABLE_METRICS :: "(string \<times> string) list" where
  "COMPARABLE_METRICS =
     [(''MACRO_CONTEXT'', ''core_inflation_acceleration''), (''MACRO_CONTEXT'', ''unemployment_deterioration''),
      (''MACRO_CONTEXT'', ''real_policy_rate''), (''DOLLAR_STRENGTH_PROXY'', ''broad_usd_proxy''),
      (''RATES_CONTEXT'', ''broad_usd_20d_log_change''), (''RATES_CONTEXT'', ''real_10y_yield_20d_change_bp''),
      (''RATES_CONTEXT'', ''nominal_2y_yield_20d_change_bp''), (''CREDIT_LIQUIDITY_CONTEXT'', ''stablecoin_supply_30d_log_change''),
      (''CREDIT_LIQUIDITY_CONTEXT'', ''high_yield_oas_20d_change_bp''), (''OPEN_INTEREST'', ''open_interest_contracts''),
      (''OPEN_INTEREST_NOTIONAL'', ''open_interest_notional_usd''), (''OPEN_INTEREST_NOTIONAL'', ''oi_to_market_cap_pct''),
      (''FUNDING_RATE'', ''funding_rate''), (''FUNDING_RATE'', ''funding_3d_mean_bp''), (''FUNDING_RATE'', ''abs_funding_3d_mean_bp''),
      (''LIQUIDATION_AGGREGATES'', ''liquidation_1h_total_usd''), (''LIQUIDATION_AGGREGATES'', ''liquidation_24h_total_usd''),
      (''LIQUIDATION_AGGREGATES'', ''liquidation_intensity_24h_pct''),
      (''LIQUIDATION_AGGREGATES'', ''short_minus_long_liquidation_share_24h''), (''ONCHAIN_VALUE'', ''mvrv''), (''ONCHAIN_VALUE'', ''nupl''),
      (''ONCHAIN_VALUE'', ''realized_cap_30d_log_change''), (''PRICE_STRUCTURE_CONTEXT'', ''close_minus_sma200_over_atr20''),
      (''PRICE_STRUCTURE_CONTEXT'', ''sma50_minus_sma200_over_atr20''), (''PRICE_STRUCTURE_CONTEXT'', ''return_20d_over_atr_vol''),
      (''PRICE_STRUCTURE_CONTEXT'', ''cvd_20d_share'')]
     @ concat (map (\<lambda>(family, metrics). map (Pair family) metrics) L6_FORMAL_METRICS)"

definition observation_exclusion_reason :: "observation \<Rightarrow> string option" where
  "observation_exclusion_reason ob =
     (if ob_evidence ob = ''3f01f7a525cc42bc0cabaee3cd51698780c794b1510edceefa3c2db5ac40e8aa''
         \<and> ob_family ob = ''PRICE_STRUCTURE_CONTEXT'' \<and> ob_source ob = ''CRT-CONN-BTC-SPOT-PRICE-STRUCTURE-PROXY-001''
         \<and> ob_layer ob = ''AS-L6'' \<and> ob_as_of ob = 1792713599999
         \<and> ob_metric ob \<in> set [''close_minus_sma200_over_atr20'', ''sma50_minus_sma200_over_atr20'', ''return_20d_over_atr_vol'',
              ''cvd_20d_share'', ''quote_volume_rvol20'', ''taker_buy_quote_share_1d'']
      then Some ''ORIGINAL_CAPTURE_UNFINISHED_DAILY_BAR_PR164'' else None)"

section \<open>Extraction\<close>

definition obs_finite :: "pyval \<Rightarrow> pyfloat res" where
  "obs_finite v =
     (if v = PNone \<or> is_bool v then Inl (ValueError ''numeric observation missing or invalid'')
      else ebind (py_float v) (\<lambda>x.
        if is_finite x then Inr x else Inl (ValueError ''numeric observation must be finite'')))"

definition family_row :: "pyval \<Rightarrow> (string \<times> dict) list \<Rightarrow> (string \<times> dict) list res" where
  "family_row raw families =
     (let family = dget (dict_of raw) ''input_family'' in
      if \<not> is_dict raw \<or> \<not> is_str family \<or> str_of family = [] then Inr families
      else if map_of families (str_of family) \<noteq> None then Inl (ValueError (''duplicate evidence family: '' @ str_of family))
      else Inr (families @ [(str_of family, dict_of raw)]))"

definition family_evidence :: "dict \<Rightarrow> (string \<times> dict) list res" where
  "family_evidence source_gate =
     (case dget source_gate ''evidence'' of
       PList rows \<Rightarrow> efold family_row rows []
     | _ \<Rightarrow> Inl (ValueError ''source_gate.evidence must be a list''))"

text \<open>A metric read from a field of its own name or of another one.\<close>

definition field_metric :: "dict \<Rightarrow> string \<times> string \<Rightarrow> (string \<times> pyfloat) res" where
  "field_metric parsed = (\<lambda>(metric, field). ebind (obs_finite (dget parsed field)) (\<lambda>x. Inr (metric, x)))"

definition named_metrics :: "dict \<Rightarrow> string list \<Rightarrow> (string \<times> pyfloat) list res" where
  "named_metrics parsed names = emap (\<lambda>m. field_metric parsed (m, m)) names"

definition optional_metrics :: "dict \<Rightarrow> string list \<Rightarrow> (string \<times> pyfloat) list res" where
  "optional_metrics parsed names = named_metrics parsed (filter (\<lambda>m. dget parsed m \<noteq> PNone) names)"

definition both_metrics :: "dict \<Rightarrow> string list \<Rightarrow> string list \<Rightarrow> (string \<times> pyfloat) list res" where
  "both_metrics parsed required optional =
     ebind (named_metrics parsed required) (\<lambda>xs. ebind (optional_metrics parsed optional) (\<lambda>ys. Inr (xs @ ys)))"

definition bucket_metrics :: "dict \<Rightarrow> string \<Rightarrow> (string \<times> pyfloat) list res" where
  "bucket_metrics windows label =
     (if \<not> is_dict (dget windows label) then Inl (ValueError (''LIQUIDATION_AGGREGATES.windows.'' @ label @ '' missing''))
      else emap (field_metric (dict_of (dget windows label)))
        [(''liquidation_'' @ label @ ''_long_usd'', ''long_liquidation_usd''),
         (''liquidation_'' @ label @ ''_short_usd'', ''short_liquidation_usd''),
         (''liquidation_'' @ label @ ''_total_usd'', ''total_liquidation_usd''),
         (''liquidation_'' @ label @ ''_event_count'', ''event_count'')])"

definition liquidation_metrics :: "dict \<Rightarrow> (string \<times> pyfloat) list res" where
  "liquidation_metrics parsed =
     (if \<not> is_dict (dget parsed ''windows'') then Inl (ValueError ''LIQUIDATION_AGGREGATES.windows missing'')
      else ebind (field_metric parsed (''liquidation_coverage_ratio'', ''coverage_ratio'')) (\<lambda>coverage.
        ebind (emap (bucket_metrics (dict_of (dget parsed ''windows''))) [''1h'', ''24h'']) (\<lambda>buckets.
        ebind (optional_metrics parsed [''liquidation_intensity_24h_pct'', ''short_minus_long_liquidation_share_24h'']) (\<lambda>ys.
        Inr (coverage # concat buckets @ ys)))))"

definition metric_rows :: "string \<Rightarrow> dict \<Rightarrow> (string \<times> pyfloat) list res" where
  "metric_rows family parsed =
     (case map_of L6_FORMAL_METRICS family of
       Some metrics \<Rightarrow> named_metrics parsed metrics
     | None \<Rightarrow>
         if family = ''MACRO_CONTEXT''
           then named_metrics parsed [''core_inflation_acceleration'', ''unemployment_deterioration'', ''real_policy_rate'']
         else if family = ''DOLLAR_STRENGTH_PROXY'' then emap (field_metric parsed) [(''broad_usd_proxy'', ''value'')]
         else if family = ''RATES_CONTEXT''
           then named_metrics parsed [''broad_usd_20d_log_change'', ''real_10y_yield_20d_change_bp'', ''nominal_2y_yield_20d_change_bp'']
         else if family = ''CREDIT_LIQUIDITY_CONTEXT''
           then both_metrics parsed [''stablecoin_supply_30d_log_change'', ''high_yield_oas_20d_change_bp''] [''spot_btc_etp_flow_20d_pct_aum'']
         else if family = ''OPEN_INTEREST'' then named_metrics parsed [''open_interest_contracts'']
         else if family = ''OPEN_INTEREST_NOTIONAL'' then both_metrics parsed [''open_interest_notional_usd''] [''oi_to_market_cap_pct'']
         else if family = ''FUNDING_RATE''
           then both_metrics parsed [''funding_rate'', ''mark_price''] [''abs_funding_3d_mean_bp'', ''funding_3d_mean_bp'']
         else if family = ''BTC_SPOT_PRICE'' then emap (field_metric parsed) [(''btc_spot_price_usd'', ''spot_price_usd'')]
         else if family = ''LIQUIDATION_AGGREGATES'' then liquidation_metrics parsed
         else if family = ''ONCHAIN_VALUE''
           then both_metrics parsed [''mvrv'', ''nupl''] [''market_cap_usd'', ''realized_cap_usd'', ''realized_cap_30d_log_change'']
         else if family = ''PRICE_STRUCTURE_CONTEXT''
           then both_metrics parsed
             [''close_minus_sma200_over_atr20'', ''sma50_minus_sma200_over_atr20'', ''return_20d_over_atr_vol'', ''cvd_20d_share'']
             [''quote_volume_rvol20'', ''taker_buy_quote_share_1d'']
         else Inr [])"

text \<open>The identity fields a family of observations is checked for.\<close>

definition starts_with :: "string \<Rightarrow> string \<Rightarrow> bool" where
  "starts_with p s \<longleftrightarrow> take (length p) s = p"

definition nonempty_str :: "pyval \<Rightarrow> bool" where
  "nonempty_str v \<longleftrightarrow> is_str v \<and> str_of v \<noteq> []"

definition check_evidence :: "string \<Rightarrow> dict \<Rightarrow> unit res" where
  "check_evidence family evidence =
     (if \<not> is_len64 (dget evidence ''evidence_hash'') then Inl (ValueError (family @ '' evidence_hash invalid''))
      else if \<not> nonempty_str (dget evidence ''source_id'') then Inl (ValueError (family @ '' source_id missing''))
      else if \<not> nonempty_str (dget evidence ''namespace'') then Inl (ValueError (family @ '' namespace missing''))
      else Inr ())"

definition valid_quality :: "dict \<Rightarrow> bool" where
  "valid_quality evidence \<longleftrightarrow>
     is_str (dget evidence ''quality_state'') \<and> starts_with ''VALID'' (str_of (dget evidence ''quality_state''))"

definition as_of_int :: "string \<Rightarrow> pyval \<Rightarrow> int res" where
  "as_of_int family v =
     (case py_int v of
       Inl OverflowError \<Rightarrow> Inl OverflowError
     | Inl _ \<Rightarrow> Inl (ValueError (family @ ''.as_of_ms invalid''))
     | Inr n \<Rightarrow> Inr n)"

definition family_observations ::
  "string \<Rightarrow> string \<Rightarrow> int \<Rightarrow> (string \<times> dict) list \<Rightarrow> string \<times> pyval \<Rightarrow> observation list res" where
  "family_observations run_id registry_hash recorded_at evidence_by_family = (\<lambda>(family, parsed).
     case (if is_dict parsed then map_of evidence_by_family family else None) of
       None \<Rightarrow> Inr []
     | Some evidence \<Rightarrow>
         ebind (check_evidence family evidence) (\<lambda>_.
         if \<not> valid_quality evidence then Inr []
         else ebind (as_of_int family (dget (dict_of parsed) ''as_of_ms'')) (\<lambda>as_of.
           ebind (metric_rows family (dict_of parsed)) (\<lambda>rows.
           Inr (map (\<lambda>(metric, x). \<lparr>ob_layer = str_of (dget evidence ''namespace''), ob_family = family, ob_metric = metric,
             ob_as_of = as_of, ob_value = x, ob_source = str_of (dget evidence ''source_id''),
             ob_quality = str_of (dget evidence ''quality_state''), ob_evidence = str_of (dget evidence ''evidence_hash''),
             ob_registry = registry_hash, ob_run = run_id, ob_recorded = recorded_at\<rparr>) rows)))))"

definition extract_observations :: "pyval \<Rightarrow> int \<Rightarrow> observation list res" where
  "extract_observations v recorded_at =
     (let g = dict_of v in
      if \<not> is_dict v then Inl (ValueError ''source_gate must be an object'')
      else if \<not> nonempty_str (dget g ''run_id'') then Inl (ValueError ''source_gate.run_id missing'')
      else if \<not> is_len64 (dget g ''source_registry_hash'') then Inl (ValueError ''source_registry_hash invalid'')
      else if \<not> is_dict (dget g ''parsed'') then Inl (ValueError ''source_gate.parsed must be an object'')
      else ebind (family_evidence g) (\<lambda>families.
        ebind (emap (family_observations (str_of (dget g ''run_id'')) (str_of (dget g ''source_registry_hash'')) recorded_at families)
          (dict_of (dget g ''parsed''))) (\<lambda>xss. Inr (concat xss))))"

section \<open>The tables\<close>

record event_row =
  re_id :: string
  re_kind :: string
  re_hash :: string
  re_payload :: pyval

record obs_store =
  os_rows :: "observation list"
  os_events :: "event_row list"
  os_saved :: "observation list \<times> event_row list"

definition save :: "obs_store \<Rightarrow> obs_store" where
  "save st = st\<lparr>os_saved := (os_rows st, os_events st)\<rparr>"

definition rollback :: "obs_store \<Rightarrow> obs_store" where
  "rollback st = st\<lparr>os_rows := fst (os_saved st), os_events := snd (os_saved st)\<rparr>"

text \<open>
  \<^verbatim>\<open>INSERT OR IGNORE\<close>: an integer wider than 64 bits cannot be bound and stops the statement after
  the rows before it; a row whose value is no number or whose identity is taken is skipped.
\<close>

definition bindable :: "observation \<Rightarrow> bool" where
  "bindable ob \<longleftrightarrow> (\<forall>i \<in> set [ob_as_of ob, ob_recorded ob]. - (2 ^ 63) \<le> i \<and> i < 2 ^ 63)"

definition fact_key :: "observation \<Rightarrow> string \<times> string" where
  "fact_key ob = (ob_evidence ob, ob_metric ob)"

definition insert_or_ignore :: "observation \<Rightarrow> observation list \<Rightarrow> observation list" where
  "insert_or_ignore ob rows = (if ob_value ob = NaN \<or> fact_key ob \<in> fact_key ` set rows then rows else rows @ [ob])"

fun insert_all :: "observation list \<Rightarrow> observation list \<Rightarrow> bool \<times> observation list" where
  "insert_all [] rows = (True, rows)"
| "insert_all (ob # obs) rows = (if bindable ob then insert_all obs (insert_or_ignore ob rows) else (False, rows))"

definition record_observations :: "observation list \<Rightarrow> obs_store \<Rightarrow> nat res \<times> obs_store" where
  "record_observations obs st =
     (case insert_all obs (os_rows st) of
       (False, rows) \<Rightarrow> (Inl OverflowError, st\<lparr>os_rows := rows\<rparr>)
     | (True, rows) \<Rightarrow> (Inr (length rows - length (os_rows st)), save (st\<lparr>os_rows := rows\<rparr>)))"

definition ascii_char :: "string \<Rightarrow> string" where
  "ascii_char c =
     (let n = foldl (\<lambda>acc d. acc * 64 + (of_char d :: nat) mod 64) 0 (tl c);
          lead = of_char (hd c) :: nat; bits = 6 * length (tl c);
          cp = (if tl c = [] then lead else (lead mod 2 ^ (6 - length (tl c))) * 2 ^ bits + n);
          esc = (\<lambda>u. [char_of (92 :: nat), CHR ''u''] @ map (\<lambda>i. hex_char (u div 16 ^ i mod 16)) [3, 2, 1, 0]) in
      if 32 \<le> cp \<and> cp < 127 then c
      else if cp < 65536 then esc cp
      else esc (55296 + (cp - 65536) div 1024) @ esc (56320 + (cp - 65536) mod 1024))"

definition ascii_json :: "pyval \<Rightarrow> string" where
  "ascii_json v = concat (map ascii_char (utf8_chars (json_text v)))"

definition event_digest :: "pyval \<Rightarrow> string" where
  "event_digest v = sha256_hex (ascii_json v)"

definition record_event :: "pyval \<times> pyval \<times> pyval \<Rightarrow> event_row list \<Rightarrow> (bool \<times> event_row list) res" where
  "record_event = (\<lambda>(event_id, kind, payload) events.
     if \<not> nonempty_str event_id \<or> \<not> nonempty_str kind then Inl (ValueError ''RESEARCH_EVENT_IDENTITY_INVALID'')
     else ebind (json_strict payload) (\<lambda>_.
       case List.find (\<lambda>r. re_id r = str_of event_id) events of
         Some prior \<Rightarrow>
           if re_kind prior \<noteq> str_of kind \<or> re_hash prior \<noteq> event_digest payload
             then Inl (Custom ''ObservationRevisionConflict'' [''FROZEN_RESEARCH_EVENT_CONFLICT'']) else Inr (False, events)
       | None \<Rightarrow> Inr (True, events @ [\<lparr>re_id = str_of event_id, re_kind = str_of kind, re_hash = event_digest payload,
           re_payload = json_reload payload\<rparr>])))"

definition record_research_event :: "pyval \<times> pyval \<times> pyval \<Rightarrow> obs_store \<Rightarrow> bool res \<times> obs_store" where
  "record_research_event ev st =
     (case record_event ev (os_events st) of
       Inl e \<Rightarrow> (Inl e, st)
     | Inr (added, events) \<Rightarrow> (Inr added, if added then save (st\<lparr>os_events := events\<rparr>) else st))"

definition add_event :: "pyval \<times> pyval \<times> pyval \<Rightarrow> nat \<times> event_row list \<Rightarrow> (nat \<times> event_row list) res" where
  "add_event ev = (\<lambda>(n, events). ebind (record_event ev events) (\<lambda>(added, events'). Inr (if added then n + 1 else n, events')))"

definition record_research_events :: "(pyval \<times> pyval \<times> pyval) list \<Rightarrow> obs_store \<Rightarrow> nat res \<times> obs_store" where
  "record_research_events evs st =
     (case efold add_event evs (0, os_events st) of
       Inl e \<Rightarrow> (Inl e, rollback st)
     | Inr (n, events) \<Rightarrow> (Inr n, save (st\<lparr>os_events := events\<rparr>)))"

definition research_event :: "pyval \<Rightarrow> string \<Rightarrow> obs_store \<Rightarrow> pyval option res" where
  "research_event event_id kind st =
     (if \<not> nonempty_str event_id then Inr None
      else (case List.find (\<lambda>r. re_id r = str_of event_id \<and> re_kind r = kind) (os_events st) of
          None \<Rightarrow> Inr None
        | Some r \<Rightarrow>
            if event_digest (re_payload r) \<noteq> re_hash r
              then Inl (Custom ''ObservationRevisionConflict'' [''RESEARCH_HISTORY_INTEGRITY_INVALID'']) else Inr (Some (re_payload r))))"

definition latest_research_event :: "string \<Rightarrow> obs_store \<Rightarrow> pyval option res" where
  "latest_research_event kind st =
     (case filter (\<lambda>r. re_kind r = kind) (os_events st) of
       [] \<Rightarrow> Inr None
     | rs \<Rightarrow> research_event (PStr (re_id (last rs))) kind st)"

section \<open>Series as they were visible\<close>

definition EXPECTED_SCOPED_SERIES :: "(string \<times> string \<times> string) list" where
  "EXPECTED_SCOPED_SERIES =
     [(''OPEN_INTEREST'', ''open_interest_contracts'', ''CRT-CONN-BTC-DERIV-BINANCE-OI-001''),
      (''OPEN_INTEREST_NOTIONAL'', ''open_interest_notional_usd'', ''CRT-CONN-BTC-DERIV-BINANCE-OI-NOTIONAL-001''),
      (''OPEN_INTEREST_NOTIONAL'', ''oi_to_market_cap_pct'', ''CRT-CONN-BTC-DERIV-BINANCE-OI-NOTIONAL-001'')]"

definition expected_source_id :: "string \<Rightarrow> string \<Rightarrow> string option" where
  "expected_source_id family metric = map_of (map (\<lambda>(f, m, s). ((f, m), s)) EXPECTED_SCOPED_SERIES) (family, metric)"

definition is_scoped_metric :: "string \<Rightarrow> string \<Rightarrow> bool" where
  "is_scoped_metric family metric \<longleftrightarrow> expected_source_id family metric \<noteq> None"

text \<open>\<^verbatim>\<open>ORDER BY as_of_ms, recorded_at_ms, id\<close> on a table in the order of its ids.\<close>

definition visible_rows :: "string \<Rightarrow> string \<Rightarrow> int \<Rightarrow> observation list \<Rightarrow> observation list" where
  "visible_rows family metric visible_at rows =
     sort_key (\<lambda>ob. (ob_as_of ob, ob_recorded ob))
       (filter (\<lambda>ob. ob_family ob = family \<and> ob_metric ob = metric \<and> ob_recorded ob \<le> visible_at) rows)"

definition conflict :: "string \<Rightarrow> string \<Rightarrow> string \<Rightarrow> string \<Rightarrow> exn" where
  "conflict st family metric detail =
     Custom ''ObservationRevisionConflict'' [st @ '':'' @ family @ '':'' @ metric @ '':'' @ detail]"

definition check_revision :: "string \<Rightarrow> string \<Rightarrow> observation \<Rightarrow> observation res" where
  "check_revision family metric ob =
     (if ob_recorded ob < ob_as_of ob then Inl (conflict ''REVISION_CLOCK_INVALID_BLOCKED'' family metric (int_str (ob_as_of ob)))
      else if ob_layer ob \<noteq> ''AS-L4'' \<or> Some (ob_source ob) \<noteq> expected_source_id family metric
        then Inl (conflict ''SOURCE_IDENTITY_MISMATCH_BLOCKED'' family metric (int_str (ob_as_of ob)))
      else Inr ob)"

definition select_revision :: "string \<Rightarrow> string \<Rightarrow> observation list \<Rightarrow> int \<Rightarrow> observation res" where
  "select_revision family metric rows as_of =
     (let revisions = filter (\<lambda>ob. ob_as_of ob = as_of) rows;
          selected = foldr max (map ob_recorded revisions) (ob_recorded (hd revisions)) in
      case filter (\<lambda>ob. ob_recorded ob = selected) revisions of
        [ob] \<Rightarrow> Inr ob
      | _ \<Rightarrow> Inl (conflict ''AMBIGUOUS_REVISION_BLOCKED'' family metric (int_str as_of @ '':'' @ int_str selected)))"

definition point_in_time_series :: "unit res \<Rightarrow> string \<Rightarrow> string \<Rightarrow> int \<Rightarrow> observation list \<Rightarrow> observation list res" where
  "point_in_time_series policy family metric visible_at rows =
     (if \<not> is_scoped_metric family metric then Inl (Custom ''OiRevisionPolicyError'' [''METRIC_NOT_IN_L4_OI_REVISION_POLICY''])
      else ebind policy (\<lambda>_.
        if visible_at < 0 then Inl (Custom ''OiRevisionPolicyError'' [''EVALUATION_AT_INVALID''])
        else ebind (emap (check_revision family metric) (visible_rows family metric visible_at rows)) (\<lambda>obs.
          emap (select_revision family metric obs) (sort (remdups (map ob_as_of obs))))))"

text \<open>The projection of every other metric; \<open>before\<close> is the cutoff of \<^verbatim>\<open>before_as_of_ms\<close>.\<close>

definition before_cutoff :: "int option \<Rightarrow> observation \<Rightarrow> bool" where
  "before_cutoff before ob \<longleftrightarrow> (case before of None \<Rightarrow> True | Some t \<Rightarrow> ob_as_of ob < t)"

definition check_scoring :: "string \<Rightarrow> string \<Rightarrow> string \<Rightarrow> string list \<Rightarrow> observation \<Rightarrow> unit res" where
  "check_scoring family metric layer sources ob =
     (let moment = int_str (ob_as_of ob) in
      if ob_as_of ob \<le> 0 \<or> ob_recorded ob < ob_as_of ob then Inl (conflict ''REVISION_CLOCK_INVALID_BLOCKED'' family metric moment)
      else if ob_layer ob \<noteq> layer \<or> ob_source ob \<notin> set sources \<or> \<not> starts_with ''VALID'' (ob_quality ob)
        then Inl (conflict ''HISTORY_PROVENANCE_NOT_APPROVED_BLOCKED'' family metric moment)
      else if \<not> is_finite (ob_value ob) then Inl (conflict ''OBSERVATION_VALUE_INVALID_BLOCKED'' family metric moment)
      else Inr ())"

definition scoring_row ::
  "string \<Rightarrow> string \<Rightarrow> string \<Rightarrow> string list \<Rightarrow> int option \<Rightarrow> observation \<Rightarrow> observation list \<Rightarrow> observation list res" where
  "scoring_row family metric layer sources before ob selected =
     (if observation_exclusion_reason ob \<noteq> None \<or> \<not> before_cutoff before ob then Inr selected
      else ebind (check_scoring family metric layer sources ob) (\<lambda>_.
        case List.find (\<lambda>r. ob_as_of r = ob_as_of ob) selected of
          None \<Rightarrow> Inr (selected @ [ob])
        | Some previous \<Rightarrow>
            if ob_source previous \<noteq> ob_source ob
              then Inl (conflict ''SOURCE_IDENTITY_MISMATCH_BLOCKED'' family metric (int_str (ob_as_of ob)))
            else if \<not> feq (ob_value previous) (ob_value ob)
              then Inl (conflict ''OBSERVATION_REVISION_CONFLICT_BLOCKED'' family metric (int_str (ob_as_of ob)))
            else Inr selected))"

definition scoring_series ::
  "unit res \<Rightarrow> string \<Rightarrow> string \<Rightarrow> int \<Rightarrow> string \<Rightarrow> string list \<Rightarrow> int option \<Rightarrow> observation list \<Rightarrow> observation list res" where
  "scoring_series policy family metric visible_at layer sources before rows =
     (if is_scoped_metric family metric
        then ebind (point_in_time_series policy family metric visible_at rows) (\<lambda>obs. Inr (filter (before_cutoff before) obs))
      else if visible_at < 0 then Inl (Custom ''ObservationRevisionConflict'' [''EVALUATION_AT_INVALID_BLOCKED''])
      else efold (scoring_row family metric layer sources before) (visible_rows family metric visible_at rows) [])"

definition series :: "string \<Rightarrow> string \<Rightarrow> observation list \<Rightarrow> observation list" where
  "series family metric rows =
     sort_key (\<lambda>ob. (ob_as_of ob, ob_recorded ob)) (filter (\<lambda>ob. ob_family ob = family \<and> ob_metric ob = metric) rows)"

section \<open>Changes over a history\<close>

definition HORIZONS_MS :: "(string \<times> int) list" where
  "HORIZONS_MS = [(''1d'', 86400000), (''3d'', 3 * 86400000), (''7d'', 7 * 86400000), (''30d'', 30 * 86400000)]"

definition history_tolerance_ms :: "int \<Rightarrow> int" where
  "history_tolerance_ms horizon = max (6 * 3600000) \<lfloor>the_rat (fmul (to_float (of_int horizon)) (to_float (1 / 10)))\<rfloor>"

definition change_direction :: "pyfloat \<Rightarrow> pyfloat \<Rightarrow> string" where
  "change_direction current previous = (if flt previous current then ''UP'' else if flt current previous then ''DOWN'' else ''FLAT'')"

definition optional_float :: "pyfloat option \<Rightarrow> pyval" where
  "optional_float x = (case x of None \<Rightarrow> PNone | Some q \<Rightarrow> PFloat q)"

definition relative_change :: "pyfloat \<Rightarrow> pyfloat \<Rightarrow> pyfloat option" where
  "relative_change absolute previous =
     (if feq previous (Fin 0) then None else map_option (\<lambda>x. fmul x (Fin 100)) (fdiv absolute (fabs previous)))"

definition change_of :: "observation \<Rightarrow> observation \<Rightarrow> dict" where
  "change_of current previous =
     (let absolute = fsub (ob_value current) (ob_value previous) in
      [(''history_state'', PStr ''AVAILABLE''), (''current_value'', PFloat (ob_value current)),
       (''previous_value'', PFloat (ob_value previous)), (''previous_as_of_ms'', PInt (ob_as_of previous)),
       (''absolute_change'', PFloat absolute), (''percent_change'', optional_float (relative_change absolute (ob_value previous))),
       (''direction'', PStr (change_direction (ob_value current) (ob_value previous)))]
      @ (if ob_family current = ''FUNDING_RATE'' \<and> ob_metric current = ''funding_rate''
         then [(''delta_bps'', PFloat (fmul absolute (Fin 10000)))] else []))"

text \<open>The bisection on a series, which is sorted by time.\<close>

definition latest_in_series :: "observation list \<Rightarrow> int \<Rightarrow> int \<Rightarrow> observation option" where
  "latest_in_series rows target gap =
     (let known = takeWhile (\<lambda>r. ob_as_of r \<le> target) rows in
      if known = [] \<or> gap < target - ob_as_of (last known) then None else Some (last known))"

definition historical_magnitudes :: "observation list \<Rightarrow> int \<Rightarrow> pyfloat list" where
  "historical_magnitudes rows horizon =
     (if length rows < 2 then []
      else List.map_filter (\<lambda>i. map_option (\<lambda>previous. fabs (fsub (ob_value (rows ! i)) (ob_value previous)))
        (latest_in_series (take i rows) (ob_as_of (rows ! i) - horizon) (history_tolerance_ms horizon))) [0..<length rows])"

definition magnitude_percentile :: "pyfloat \<Rightarrow> pyfloat list \<Rightarrow> pyfloat option" where
  "magnitude_percentile value values =
     (if length values < 8 then None
      else Some (fmul (to_float (of_nat (length (filter (\<lambda>x. fle x value) values)) / of_nat (length values))) (Fin 100)))"

definition revision_blocked_horizons :: "string \<Rightarrow> string \<Rightarrow> dict" where
  "revision_blocked_horizons st reason =
     map (\<lambda>(label, _). (label, PDict [(''history_state'', PStr st), (''blocked_reason'', PStr reason)])) HORIZONS_MS"

definition horizon_change :: "observation \<Rightarrow> observation list \<Rightarrow> int \<Rightarrow> dict" where
  "horizon_change current rows horizon =
     (case latest_in_series rows (ob_as_of current - horizon) (history_tolerance_ms horizon) of
       None \<Rightarrow> [(''history_state'', PStr ''INSUFFICIENT_HISTORY'')]
     | Some previous \<Rightarrow>
         (let magnitudes = historical_magnitudes rows horizon in
          change_of current previous
          @ [(''magnitude_percentile'', optional_float (magnitude_percentile (fabs (fsub (ob_value current) (ob_value previous))) magnitudes)),
             (''baseline_count'', PInt (int (length magnitudes)))]))"

definition metric_result :: "observation \<Rightarrow> pyval \<Rightarrow> dict \<Rightarrow> dict" where
  "metric_result ob current horizons =
     [(''input_family'', PStr (ob_family ob)), (''layer_id'', PStr (ob_layer ob)), (''as_of_ms'', PInt (ob_as_of ob)),
      (''current_value'', current), (''horizons'', PDict horizons)]"

definition history_of :: "unit res \<Rightarrow> observation list \<Rightarrow> observation \<Rightarrow> observation list res" where
  "history_of policy rows ob =
     scoring_series policy (ob_family ob) (ob_metric ob) (ob_recorded ob) (ob_layer ob) [ob_source ob] (Some (ob_as_of ob + 1)) rows"

definition metric_change :: "unit res \<Rightarrow> observation list \<Rightarrow> observation \<Rightarrow> dict res" where
  "metric_change policy rows ob =
     (case observation_exclusion_reason ob of
       Some reason \<Rightarrow> Inr (metric_result ob PNone (revision_blocked_horizons ''EVIDENCE_EXCLUDED_BLOCKED'' reason))
     | None \<Rightarrow>
         (case history_of policy rows ob of
           Inr obs \<Rightarrow>
             Inr (metric_result ob (PFloat (ob_value ob)) (map (\<lambda>(label, h). (label, PDict (horizon_change ob obs h))) HORIZONS_MS))
         | Inl (Custom name msgs) \<Rightarrow>
             if name = ''ObservationRevisionConflict''
               then Inr (metric_result ob (PFloat (ob_value ob))
                 (revision_blocked_horizons (takeWhile (\<lambda>c. c \<noteq> CHR '':'') (concat msgs)) (concat msgs)))
             else if name = ''OiRevisionPolicyError''
               then Inr (metric_result ob (PFloat (ob_value ob)) (revision_blocked_horizons ''REVISION_POLICY_INVALID_BLOCKED'' (concat msgs)))
             else Inl (Custom name msgs)
         | Inl e \<Rightarrow> Inl e))"

definition current_observation :: "observation list \<Rightarrow> string \<times> string \<Rightarrow> observation option" where
  "current_observation current key = List.find (\<lambda>ob. (ob_family ob, ob_metric ob) = key) (rev current)"

definition compute_changes :: "unit res \<Rightarrow> observation list \<Rightarrow> observation list \<Rightarrow> dict res" where
  "compute_changes policy rows current =
     efold (\<lambda>ob changes. ebind (metric_change policy rows ob) (\<lambda>change. Inr (dset (ob_metric ob) (PDict change) changes)))
       (List.map_filter (current_observation current) (sort (remdups COMPARABLE_METRICS))) []"

text \<open>The ranking of the largest changes.\<close>

definition top_candidate :: "string \<Rightarrow> dict \<Rightarrow> string \<Rightarrow> dict \<Rightarrow> dict" where
  "top_candidate metric row horizon change =
     [(''metric'', PStr metric), (''input_family'', dget row ''input_family''), (''horizon'', PStr horizon)]
     @ map (\<lambda>k. (k, dget change k)) [''direction'', ''absolute_change'', ''percent_change'', ''magnitude_percentile'', ''baseline_count'']"

definition top_candidates :: "dict \<Rightarrow> dict list" where
  "top_candidates changes =
     concat (map (\<lambda>(metric, row). concat (map (\<lambda>(horizon, change).
         if dget (dict_of change) ''magnitude_percentile'' = PNone then []
         else [top_candidate metric (dict_of row) horizon (dict_of change)])
       (dict_of (dget (dict_of row) ''horizons'')))) changes)"

definition distill_top_changes :: "dict \<Rightarrow> int \<Rightarrow> dict list" where
  "distill_top_changes changes limit =
     take (nat limit) (sort_key (\<lambda>row. (- the_rat (num_val (dget row ''magnitude_percentile'')),
       str_of (dget row ''metric''), str_of (dget row ''horizon''))) (top_candidates changes))"

section \<open>Facts are kept\<close>

text \<open>What every transaction preserves: the committed rows are among the visible ones, no fact is
  stored twice, and the stored events are intact.\<close>

definition event_ok :: "event_row \<Rightarrow> bool" where
  "event_ok r \<longleftrightarrow> re_id r \<noteq> [] \<and> re_kind r \<noteq> [] \<and> re_hash r = event_digest (re_payload r)"

definition store_inv :: "obs_store \<Rightarrow> bool" where
  "store_inv st \<longleftrightarrow> prefix (fst (os_saved st)) (os_rows st) \<and> prefix (snd (os_saved st)) (os_events st)
     \<and> distinct (map fact_key (os_rows st)) \<and> (\<forall>ob \<in> set (os_rows st). bindable ob \<and> ob_value ob \<noteq> NaN)
     \<and> distinct (map re_id (os_events st)) \<and> list_all event_ok (os_events st)"

datatype obs_op =
    Record "observation list"
  | RecordEvent "pyval \<times> pyval \<times> pyval"
  | RecordEvents "(pyval \<times> pyval \<times> pyval) list"
  | Reopen

fun obs_step :: "obs_op \<Rightarrow> obs_store \<Rightarrow> obs_store" where
  "obs_step (Record obs) st = snd (record_observations obs st)"
| "obs_step (RecordEvent ev) st = snd (record_research_event ev st)"
| "obs_step (RecordEvents evs) st = snd (record_research_events evs st)"
| "obs_step Reopen st = rollback st"

fun recorded_by :: "obs_op \<Rightarrow> observation list" where
  "recorded_by (Record obs) = obs"
| "recorded_by _ = []"

text \<open>An insertion appends some of its rows, and all of them are then present.\<close>

lemma insert_all_appends: "insert_all obs rows = (b, rows') \<Longrightarrow> \<exists>xs. rows' = rows @ xs \<and> set xs \<subseteq> set obs"
proof (induction obs arbitrary: rows)
  case (Cons ob obs)
  show ?case
  proof (cases "bindable ob")
    case True
    with Cons.prems Cons.IH obtain xs where "rows' = insert_or_ignore ob rows @ xs" "set xs \<subseteq> set obs" by fastforce
    then show ?thesis
      by (intro exI [of _ "(if insert_or_ignore ob rows = rows then [] else [ob]) @ xs"]) (auto simp: insert_or_ignore_def)
  qed (use Cons.prems in auto)
qed simp

lemma insert_or_ignore_keys:
  "fact_key ` set (insert_or_ignore ob rows) \<subseteq> insert (fact_key ob) (fact_key ` set rows)"
  "ob_value ob \<noteq> NaN \<Longrightarrow> fact_key ob \<in> fact_key ` set (insert_or_ignore ob rows)"
  by (auto simp: insert_or_ignore_def)

lemma insert_all_present:
  "insert_all obs rows = (True, rows') \<Longrightarrow> ob \<in> set obs \<Longrightarrow> bindable ob \<and> (ob_value ob = NaN \<or> fact_key ob \<in> fact_key ` set rows')"
proof (induction obs arbitrary: rows)
  case (Cons x obs)
  from Cons.prems have x: "bindable x" and rest: "insert_all obs (insert_or_ignore x rows) = (True, rows')" by (auto split: if_splits)
  from insert_all_appends [OF rest] obtain xs where "rows' = insert_or_ignore x rows @ xs" by blast
  with x insert_or_ignore_keys(2) [of x rows] Cons.IH [OF rest] Cons.prems(2) show ?case by fastforce
qed simp

lemma insert_all_again:
  "(\<And>ob. ob \<in> set obs \<Longrightarrow> bindable ob \<and> (ob_value ob = NaN \<or> fact_key ob \<in> fact_key ` set rows)) \<Longrightarrow> insert_all obs rows = (True, rows)"
  by (induction obs) (auto simp: insert_or_ignore_def)

definition rows_ok :: "observation list \<Rightarrow> bool" where
  "rows_ok rows \<longleftrightarrow> distinct (map fact_key rows) \<and> (\<forall>ob \<in> set rows. bindable ob \<and> ob_value ob \<noteq> NaN)"

lemma insert_or_ignore_ok: "rows_ok rows \<Longrightarrow> bindable ob \<Longrightarrow> rows_ok (insert_or_ignore ob rows)"
  by (auto simp: insert_or_ignore_def rows_ok_def)

lemma insert_all_inv: "insert_all obs rows = (b, rows') \<Longrightarrow> rows_ok rows \<Longrightarrow> rows_ok rows'"
  by (induction obs arbitrary: rows) (auto simp: insert_or_ignore_ok split: if_splits)

text \<open>A research event is appended intact or nothing changes.\<close>

lemma record_event_Inr:
  assumes "record_event ev events = Inr (added, events')"
  shows "events' = (if added then events @ [\<lparr>re_id = str_of (fst ev), re_kind = str_of (fst (snd ev)),
      re_hash = event_digest (snd (snd ev)), re_payload = json_reload (snd (snd ev))\<rparr>] else events)"
    and "str_of (fst ev) \<noteq> []" and "str_of (fst (snd ev)) \<noteq> []" and "added \<Longrightarrow> str_of (fst ev) \<notin> re_id ` set events"
  using assms
  by (auto simp: record_event_def nonempty_str_def ebind_Inr_iff find_None_iff split: prod.splits if_splits option.splits)

lemma event_digest_reload [simp]: "event_digest (json_reload v) = event_digest v"
  by (simp add: event_digest_def ascii_json_def json_reload_text)

lemma record_event_ok:
  assumes "record_event ev events = Inr (added, events')" and "distinct (map re_id events)" and "list_all event_ok events"
  shows "prefix events events' \<and> distinct (map re_id events') \<and> list_all event_ok events'"
  using record_event_Inr [OF assms(1)] assms(2,3) by (cases added) (simp_all add: event_ok_def)

lemma add_event_Inr:
  "add_event ev (n, events) = Inr t \<longleftrightarrow> (\<exists>added es. record_event ev events = Inr (added, es) \<and> t = (if added then n + 1 else n, es))"
  by (auto simp: add_event_def ebind_Inr_iff)

lemma record_events_ok:
  assumes "efold add_event evs (n, events) = Inr (m, events')" and "distinct (map re_id events)" and "list_all event_ok events"
  shows "prefix events events' \<and> distinct (map re_id events') \<and> list_all event_ok events'"
  using assms
proof (induction evs arbitrary: n events)
  case (Cons ev evs)
  from Cons.prems(1) obtain added es where es: "record_event ev events = Inr (added, es)"
    and rest: "efold add_event evs (if added then n + 1 else n, es) = Inr (m, events')" by (auto simp: add_event_Inr ebind_Inr_iff)
  from record_event_ok [OF es Cons.prems(2,3)] Cons.IH [OF rest] show ?case by (auto intro: prefix_order.trans)
qed simp

section \<open>Every operation keeps the facts\<close>

definition events_ok :: "event_row list \<Rightarrow> bool" where
  "events_ok events \<longleftrightarrow> distinct (map re_id events) \<and> list_all event_ok events"

lemma store_inv_iff:
  "store_inv st \<longleftrightarrow> prefix (fst (os_saved st)) (os_rows st) \<and> prefix (snd (os_saved st)) (os_events st)
     \<and> rows_ok (os_rows st) \<and> events_ok (os_events st)"
  by (auto simp: store_inv_def rows_ok_def events_ok_def)

lemma ok_prefix: "prefix xs rows \<Longrightarrow> rows_ok rows \<Longrightarrow> rows_ok xs" "prefix es events \<Longrightarrow> events_ok events \<Longrightarrow> events_ok es"
  by (auto simp: rows_ok_def events_ok_def prefix_def)

lemma save_inv: "rows_ok (os_rows st) \<Longrightarrow> events_ok (os_events st) \<Longrightarrow> store_inv (save st)"
  by (simp add: store_inv_iff save_def)

lemma rollback_inv: "store_inv st \<Longrightarrow> store_inv (rollback st)"
  by (auto simp: store_inv_iff rollback_def intro: ok_prefix)

lemma record_observations_inv: "store_inv st \<Longrightarrow> store_inv (snd (record_observations obs st))"
proof -
  assume inv: "store_inv st"
  obtain b rows where ins: "insert_all obs (os_rows st) = (b, rows)" by fastforce
  have ok: "rows_ok rows" using insert_all_inv [OF ins] inv by (simp add: store_inv_iff)
  have "prefix (os_rows st) rows" using insert_all_appends [OF ins] by (auto simp: prefix_def)
  then show ?thesis
    using inv ok by (cases b) (auto simp: record_observations_def ins store_inv_iff save_def intro: prefix_order.trans)
qed

lemma record_research_event_inv: "store_inv st \<Longrightarrow> store_inv (snd (record_research_event ev st))"
proof (cases "record_event ev (os_events st)")
  case (Inr p)
  assume inv: "store_inv st"
  obtain added events where p: "p = (added, events)" by fastforce
  have "events_ok events" "rows_ok (os_rows st)"
    using record_event_ok [OF Inr [unfolded p]] inv by (simp_all add: store_inv_iff events_ok_def)
  then show ?thesis using inv by (simp add: record_research_event_def Inr p save_inv)
qed (simp add: record_research_event_def)

lemma record_research_events_inv: "store_inv st \<Longrightarrow> store_inv (snd (record_research_events evs st))"
proof (cases "efold add_event evs (0, os_events st)")
  case (Inr p)
  assume inv: "store_inv st"
  obtain n events where p: "p = (n, events)" by fastforce
  have "events_ok events" "rows_ok (os_rows st)"
    using record_events_ok [OF Inr [unfolded p]] inv by (simp_all add: store_inv_iff events_ok_def)
  then show ?thesis by (simp add: record_research_events_def Inr p save_inv)
qed (simp add: record_research_events_def rollback_inv)

lemma obs_step_inv: "store_inv st \<Longrightarrow> store_inv (obs_step op st)"
  by (cases op) (simp_all add: record_observations_inv record_research_event_inv record_research_events_inv rollback_inv)

interpretation obs_machine: guarded_machine "\<lambda>op st. Inr (obs_step op st)" store_inv
  by unfold_locales (auto intro: obs_step_inv)

lemma fold_store_inv: "store_inv st \<Longrightarrow> store_inv (fold obs_step ops st)"
  by (induction ops arbitrary: st) (auto intro: obs_step_inv)

text \<open>What is committed stays, whatever follows.\<close>

lemma obs_step_saved:
  assumes "store_inv st"
  shows "prefix (fst (os_saved st)) (fst (os_saved (obs_step op st))) \<and> prefix (snd (os_saved st)) (snd (os_saved (obs_step op st)))"
proof (cases op)
  case (Record obs)
  obtain b rows where ins: "insert_all obs (os_rows st) = (b, rows)" by fastforce
  from insert_all_appends [OF ins] have "prefix (os_rows st) rows" by (auto simp: prefix_def)
  then show ?thesis
    using assms by (cases b) (auto simp: Record record_observations_def ins save_def store_inv_iff intro: prefix_order.trans)
next
  case (RecordEvent ev)
  show ?thesis
  proof (cases "record_event ev (os_events st)")
    case (Inr p)
    obtain added events where p: "p = (added, events)" by fastforce
    have "prefix (os_events st) events" using record_event_Inr(1) [OF Inr [unfolded p]] by simp
    with assms show ?thesis by (auto simp: RecordEvent record_research_event_def Inr p save_def store_inv_iff intro: prefix_order.trans)
  qed (simp add: RecordEvent record_research_event_def)
next
  case (RecordEvents evs)
  show ?thesis
  proof (cases "efold add_event evs (0, os_events st)")
    case (Inr p)
    obtain n events where p: "p = (n, events)" by fastforce
    have "prefix (os_events st) events" using record_events_ok [OF Inr [unfolded p]] assms by (simp add: store_inv_iff events_ok_def)
    with assms show ?thesis by (auto simp: RecordEvents record_research_events_def Inr p save_def store_inv_iff intro: prefix_order.trans)
  qed (simp add: RecordEvents record_research_events_def rollback_def)
qed (simp add: rollback_def)

lemma fold_saved:
  "store_inv st \<Longrightarrow> prefix (fst (os_saved st)) (os_rows (fold obs_step ops st)) \<and> prefix (snd (os_saved st)) (os_events (fold obs_step ops st))"
proof (induction ops arbitrary: st)
  case (Cons op ops)
  show ?case
    using Cons.IH [OF obs_step_inv [OF Cons.prems, of op]] obs_step_saved [OF Cons.prems, of op] by (auto intro: prefix_order.trans)
qed (simp add: store_inv_iff)

text \<open>C37: once a research event has been recorded, it reads back as the very payload recorded,
  whatever is recorded, refused, rolled back or reopened afterwards.\<close>

theorem research_event_frozen:
  assumes "store_inv st" and "record_research_event (i, k, v) st = (Inr True, st')"
  shows "research_event i (str_of k) (fold obs_step ops st') = Inr (Some (json_reload v))"
proof -
  from assms(2) obtain events where ev: "record_event (i, k, v) (os_events st) = Inr (True, events)" and st': "st' = save (st\<lparr>os_events := events\<rparr>)"
    by (auto simp: record_research_event_def split: sum.splits if_splits)
  let ?r = "\<lparr>re_id = str_of i, re_kind = str_of k, re_hash = event_digest v, re_payload = json_reload v\<rparr>"
  have i: "nonempty_str i" using ev by (auto simp: record_event_def split: if_splits)
  have "?r \<in> set (snd (os_saved st'))" using record_event_Inr(1) [OF ev] by (simp add: st' save_def)
  moreover have inv: "store_inv st'" using record_research_event_inv [OF assms(1), of "(i, k, v)"] assms(2) by simp
  ultimately have r: "?r \<in> set (os_events (fold obs_step ops st'))" using fold_saved [OF inv, of ops] by (auto dest: set_mono_prefix)
  have "distinct (map re_id (os_events (fold obs_step ops st')))"
    using fold_store_inv [OF inv, of ops] by (simp add: store_inv_def)
  with r have only: "x = ?r" if "x \<in> set (os_events (fold obs_step ops st'))" "re_id x = str_of i" for x
    using that by (auto simp: distinct_map inj_on_def)
  have "List.find (\<lambda>r. re_id r = str_of i \<and> re_kind r = str_of k) (os_events (fold obs_step ops st')) = Some ?r"
  proof (cases "List.find (\<lambda>r. re_id r = str_of i \<and> re_kind r = str_of k) (os_events (fold obs_step ops st'))")
    case None
    with r show ?thesis unfolding find_None_iff by fastforce
  next
    case (Some x)
    then show ?thesis using only [of x] by (auto simp: find_Some_iff)
  qed
  then show ?thesis using i by (simp add: research_event_def)
qed

text \<open>Recording is idempotent for ever: observations once recorded without an error are all
  skipped when they are recorded again, whatever happened in between.\<close>

theorem recorded_once:
  assumes "store_inv st" and "record_observations obs st = (Inr n, st')"
  shows "fst (record_observations obs (fold obs_step ops st')) = Inr 0"
proof -
  from assms(2) obtain rows where ins: "insert_all obs (os_rows st) = (True, rows)" and st': "st' = save (st\<lparr>os_rows := rows\<rparr>)"
    by (auto simp: record_observations_def split: prod.splits bool.splits)
  have "store_inv st'" using record_observations_inv [OF assms(1), of obs] assms(2) by simp
  then have "prefix rows (os_rows (fold obs_step ops st'))" using fold_saved [of st' ops] by (simp add: st' save_def)
  then have keys: "fact_key ` set rows \<subseteq> fact_key ` set (os_rows (fold obs_step ops st'))" by (intro image_mono set_mono_prefix)
  have "insert_all obs (os_rows (fold obs_step ops st')) = (True, os_rows (fold obs_step ops st'))"
    using insert_all_present [OF ins] keys by (intro insert_all_again) blast
  then show ?thesis by (simp add: record_observations_def)
qed

section \<open>No hindsight\<close>

definition grows_by :: "observation list \<Rightarrow> observation set \<Rightarrow> obs_store \<Rightarrow> bool" where
  "grows_by rows new st \<longleftrightarrow> (\<exists>xs. os_rows st = rows @ xs \<and> set xs \<subseteq> new) \<and> (\<exists>ys. fst (os_saved st) = rows @ ys \<and> set ys \<subseteq> new)"

lemma obs_step_grows:
  assumes "grows_by rows new st" and "set (recorded_by op) \<subseteq> new"
  shows "grows_by rows new (obs_step op st)"
proof (cases op)
  case (Record obs)
  obtain b rows' where ins: "insert_all obs (os_rows st) = (b, rows')" by fastforce
  from insert_all_appends [OF ins] obtain xs where xs: "rows' = os_rows st @ xs" "set xs \<subseteq> set obs" by blast
  from assms(1) obtain zs where zs: "os_rows st = rows @ zs" "set zs \<subseteq> new" by (auto simp: grows_by_def)
  have "\<exists>ws. rows' = rows @ ws \<and> set ws \<subseteq> new"
    using xs zs assms(2) by (intro exI [of _ "zs @ xs"]) (auto simp: Record)
  with assms(1) show ?thesis by (cases b) (auto simp: grows_by_def Record record_observations_def ins save_def)
qed (use assms in \<open>auto simp: grows_by_def record_research_event_def record_research_events_def save_def rollback_def split: sum.split\<close>)

lemma fold_grows: "grows_by rows new st \<Longrightarrow> \<forall>op \<in> set ops. set (recorded_by op) \<subseteq> new \<Longrightarrow> grows_by rows new (fold obs_step ops st)"
  by (induction ops arbitrary: st) (auto intro: obs_step_grows)

lemma visible_rows_later:
  "\<forall>ob \<in> set xs. t < ob_recorded ob \<Longrightarrow> visible_rows family metric t (rows @ xs) = visible_rows family metric t rows"
proof -
  assume "\<forall>ob \<in> set xs. t < ob_recorded ob"
  then have "filter (\<lambda>ob. ob_family ob = family \<and> ob_metric ob = metric \<and> ob_recorded ob \<le> t) xs = []"
    by (fastforce simp: filter_empty_conv)
  then show ?thesis by (simp add: visible_rows_def)
qed

lemma scoring_series_later:
  "\<forall>ob \<in> set xs. t < ob_recorded ob \<Longrightarrow>
   scoring_series policy family metric t layer sources before (rows @ xs) = scoring_series policy family metric t layer sources before rows"
  by (simp add: scoring_series_def point_in_time_series_def visible_rows_later)

lemma efold_cong: "(\<And>x s. x \<in> set xs \<Longrightarrow> f x s = g x s) \<Longrightarrow> efold f xs s = efold g xs s"
  by (induction xs arbitrary: s) (auto intro: ebind_cong)

lemma current_observation_mem: "current_observation current key = Some ob \<Longrightarrow> ob \<in> set current \<and> (ob_family ob, ob_metric ob) = key"
proof -
  assume "current_observation current key = Some ob"
  then have "(ob_family ob, ob_metric ob) = key" "ob \<in> set (rev current)"
    unfolding current_observation_def find_Some_iff by (auto simp del: set_rev)
  then show ?thesis by simp
qed

text \<open>C35: the changes reported for observations taken up to a moment are final: whatever is
  recorded after that moment, rolled back or reopened, the same call reports the same changes.
  Observations that are written but not committed at the time of the first call, which a failed
  record() leaves behind, must have been recorded after that moment too; after an operation that
  succeeds there are none.\<close>

theorem changes_have_no_hindsight:
  assumes "os_rows st = fst (os_saved st) @ pending" and "\<forall>ob \<in> set pending. t < ob_recorded ob"
    and "\<forall>ob \<in> set current. ob_recorded ob \<le> t"
    and "\<forall>op \<in> set ops. \<forall>ob \<in> set (recorded_by op). t < ob_recorded ob"
  shows "compute_changes policy (os_rows (fold obs_step ops st)) current = compute_changes policy (os_rows st) current"
proof -
  let ?saved = "fst (os_saved st)"
  have "grows_by ?saved {ob. t < ob_recorded ob} st" using assms(1,2) by (auto simp: grows_by_def)
  then have "grows_by ?saved {ob. t < ob_recorded ob} (fold obs_step ops st)" using assms(4) by (intro fold_grows) auto
  then obtain xs where xs: "os_rows (fold obs_step ops st) = ?saved @ xs" "\<forall>ob \<in> set xs. t < ob_recorded ob"
    by (auto simp: grows_by_def)
  have "metric_change policy (?saved @ ys) ob = metric_change policy ?saved ob"
    if "ob_recorded ob \<le> t" "\<forall>ob \<in> set ys. t < ob_recorded ob" for ob ys
  proof -
    have "history_of policy (?saved @ ys) ob = history_of policy ?saved ob"
      using that unfolding history_of_def by (intro scoring_series_later) auto
    then show ?thesis unfolding metric_change_def by (simp only:)
  qed
  moreover have "ob_recorded ob \<le> t" if "ob \<in> set (List.map_filter (current_observation current) ks)" for ob ks
    using that assms(3) current_observation_mem by (fastforce simp: List.map_filter_def)
  ultimately have "compute_changes policy (?saved @ ys) current = compute_changes policy ?saved current"
    if "\<forall>ob \<in> set ys. t < ob_recorded ob" for ys
    using that unfolding compute_changes_def by (intro efold_cong) simp
  then show ?thesis unfolding xs(1) assms(1) using xs(2) assms(2) by simp
qed

section \<open>The order of a series\<close>

lemma emap_map:
  assumes "emap f xs = Inr ys" and "\<And>x y. x \<in> set xs \<Longrightarrow> f x = Inr y \<Longrightarrow> g y = h x"
  shows "map g ys = map h xs"
  using assms
proof (induction xs arbitrary: ys)
  case (Cons x xs)
  from Cons.prems(1) obtain y zs where "f x = Inr y" "emap f xs = Inr zs" "ys = y # zs" by (auto simp: ebind_Inr_iff)
  then show ?case using Cons.IH [of zs] Cons.prems(2) by simp
qed simp

lemma emap_set:
  assumes "emap f xs = Inr ys" and "\<And>x y. x \<in> set xs \<Longrightarrow> f x = Inr y \<Longrightarrow> y \<in> A"
  shows "set ys \<subseteq> A"
  using assms
proof (induction xs arbitrary: ys)
  case (Cons x xs)
  from Cons.prems(1) obtain y zs where "f x = Inr y" "emap f xs = Inr zs" "ys = y # zs" by (auto simp: ebind_Inr_iff)
  then show ?case using Cons.IH [of zs] Cons.prems(2) by (metis insert_subset list.set_intros list.simps(15))
qed simp

lemma select_revision_Inr: "select_revision family metric rows as_of = Inr ob \<Longrightarrow> ob \<in> set rows \<and> ob_as_of ob = as_of"
proof -
  assume "select_revision family metric rows as_of = Inr ob"
  then obtain n where "filter (\<lambda>r. ob_recorded r = n) (filter (\<lambda>r. ob_as_of r = as_of) rows) = [ob]"
    unfolding select_revision_def Let_def by (auto split: list.splits)
  then have "ob \<in> set (filter (\<lambda>r. ob_recorded r = n) (filter (\<lambda>r. ob_as_of r = as_of) rows))" by simp
  then show ?thesis by simp
qed

lemma point_in_time_sorted:
  assumes "point_in_time_series policy family metric t rows = Inr obs"
  shows "sorted_wrt (<) (map ob_as_of obs) \<and> set obs \<subseteq> set (visible_rows family metric t rows)"
proof -
  from assms obtain vs where vs: "emap (check_revision family metric) (visible_rows family metric t rows) = Inr vs"
    and sel: "emap (select_revision family metric vs) (sort (remdups (map ob_as_of vs))) = Inr obs"
    by (auto simp: point_in_time_series_def ebind_Inr_iff split: if_splits)
  have "set vs \<subseteq> set (visible_rows family metric t rows)"
    by (rule emap_set [OF vs]) (auto simp: check_revision_def split: if_splits)
  moreover have "set obs \<subseteq> set vs" by (rule emap_set [OF sel]) (simp add: select_revision_Inr)
  moreover have "map ob_as_of obs = sort (remdups (map ob_as_of vs))"
    using emap_map [OF sel, of ob_as_of "\<lambda>x. x"] by (simp add: select_revision_Inr)
  ultimately show ?thesis by (auto simp: strict_sorted_iff)
qed

lemma scoring_rows_sorted:
  assumes "efold (scoring_row family metric layer sources before) rows selected = Inr obs"
    and "sorted_wrt (\<lambda>a b. ob_as_of a \<le> ob_as_of b) (selected @ rows)" and "sorted_wrt (<) (map ob_as_of selected)"
  shows "sorted_wrt (<) (map ob_as_of obs) \<and> set obs \<subseteq> set selected \<union> set rows \<and> (\<forall>ob \<in> set obs - set selected. before_cutoff before ob)"
  using assms
proof (induction rows arbitrary: selected)
  case (Cons ob rows)
  from Cons.prems(1) obtain s where s: "scoring_row family metric layer sources before ob selected = Inr s"
    and rest: "efold (scoring_row family metric layer sources before) rows s = Inr obs" by (auto simp: ebind_Inr_iff)
  from s have "s = selected \<or> s = selected @ [ob] \<and> before_cutoff before ob \<and> ob_as_of ob \<notin> ob_as_of ` set selected"
    by (fastforce simp: scoring_row_def ebind_Inr_iff find_None_iff split: if_splits option.splits)
  then show ?case
  proof
    assume "s = selected"
    then show ?thesis using Cons.IH [OF rest] Cons.prems(2,3) by (auto simp: sorted_wrt_append)
  next
    assume new: "s = selected @ [ob] \<and> before_cutoff before ob \<and> ob_as_of ob \<notin> ob_as_of ` set selected"
    have "sorted_wrt (\<lambda>a b. ob_as_of a \<le> ob_as_of b) (s @ rows)" using new Cons.prems(2) by simp
    moreover have "sorted_wrt (<) (map ob_as_of s)"
    proof -
      have "ob_as_of r < ob_as_of ob" if "r \<in> set selected" for r
      proof -
        have "ob_as_of r \<le> ob_as_of ob" using that Cons.prems(2) by (simp add: sorted_wrt_append)
        moreover have "ob_as_of r \<noteq> ob_as_of ob" using that new by (metis imageI)
        ultimately show ?thesis by simp
      qed
      then show ?thesis using new Cons.prems(3) by (auto simp: sorted_wrt_append)
    qed
    ultimately show ?thesis using Cons.IH [OF rest] new by auto
  qed
qed simp

lemma visible_rows_sorted: "sorted_wrt (\<lambda>a b. ob_as_of a \<le> ob_as_of b) (visible_rows family metric t rows)"
proof -
  have "sorted (map (\<lambda>ob. (ob_as_of ob, ob_recorded ob)) (visible_rows family metric t rows))" by (simp add: visible_rows_def)
  then show ?thesis
    unfolding sorted_map by (rule sorted_wrt_mono_rel [rotated]) auto
qed

lemma set_visible_rows:
  "set (visible_rows family metric t rows) = {ob \<in> set rows. ob_family ob = family \<and> ob_metric ob = metric \<and> ob_recorded ob \<le> t}"
  by (auto simp: visible_rows_def)

text \<open>A series is strictly ordered in time, one observation per moment, all of them visible facts before the cutoff.\<close>

lemma scoring_series_sorted:
  assumes "scoring_series policy family metric t layer sources before rows = Inr obs"
  shows "sorted_wrt (<) (map ob_as_of obs) \<and> set obs \<subseteq> {ob \<in> set rows. ob_family ob = family \<and> ob_metric ob = metric
    \<and> ob_recorded ob \<le> t \<and> before_cutoff before ob}"
proof (cases "is_scoped_metric family metric")
  case True
  with assms obtain vs where "point_in_time_series policy family metric t rows = Inr vs" "obs = filter (before_cutoff before) vs"
    by (auto simp: scoring_series_def ebind_Inr_iff)
  with point_in_time_sorted [of policy family metric t rows vs] show ?thesis
    by (auto simp: set_visible_rows sorted_wrt_map intro: sorted_wrt_filter)
next
  case False
  with assms have "efold (scoring_row family metric layer sources before) (visible_rows family metric t rows) [] = Inr obs"
    by (auto simp: scoring_series_def split: if_splits)
  from scoring_rows_sorted [OF this] visible_rows_sorted show ?thesis by (auto simp: set_visible_rows)
qed

lemma scoring_series_rows:
  "scoring_series policy family metric t layer sources before rows = Inr obs \<Longrightarrow>
   set obs \<subseteq> {ob \<in> set rows. ob_family ob = family \<and> ob_metric ob = metric \<and> ob_recorded ob \<le> t}"
  using scoring_series_sorted by blast

lemma latest_in_series_Some:
  "latest_in_series rows target gap = Some p \<Longrightarrow> p \<in> set rows \<and> ob_as_of p \<le> target \<and> target - ob_as_of p \<le> gap"
  by (auto simp: latest_in_series_def Let_def split: if_splits dest: last_in_set set_takeWhileD)

lemma horizon_change_previous:
  assumes "dget (horizon_change ob rows h) ''previous_value'' \<noteq> PNone"
  obtains p where "latest_in_series rows (ob_as_of ob - h) (history_tolerance_ms h) = Some p"
    and "dget (horizon_change ob rows h) ''previous_value'' = PFloat (ob_value p)"
  using assms by (cases "latest_in_series rows (ob_as_of ob - h) (history_tolerance_ms h)")
    (auto simp: horizon_change_def change_of_def Let_def)

text \<open>C36: a reported change never looks forward and never reaches further back than its horizon
  allows: the earlier value is a recorded fact of the same metric, known when the current one was
  recorded, at least the horizon older and within the tolerance.\<close>

theorem change_looks_back:
  assumes "metric_change policy rows ob = Inr row" and "(label, h) \<in> set HORIZONS_MS"
    and "change = dict_of (dget (dict_of (dget row ''horizons'')) label)" and "dget change ''previous_value'' \<noteq> PNone"
  shows "\<exists>p \<in> set rows. ob_family p = ob_family ob \<and> ob_metric p = ob_metric ob \<and> ob_recorded p \<le> ob_recorded ob
    \<and> ob_as_of p \<le> ob_as_of ob - h \<and> ob_as_of ob - h - ob_as_of p \<le> history_tolerance_ms h
    \<and> dget change ''previous_value'' = PFloat (ob_value p)"
proof -
  have blocked: "dget (dict_of (dget (revision_blocked_horizons st reason) label)) ''previous_value'' = PNone" for st reason
    using assms(2) by (auto simp: revision_blocked_horizons_def HORIZONS_MS_def)
  have horizons: "dget (metric_result ob v hs) ''horizons'' = PDict hs" for v hs by (simp add: metric_result_def)
  have "\<exists>obs. history_of policy rows ob = Inr obs \<and> row = metric_result ob (PFloat (ob_value ob))
      (map (\<lambda>(label, h). (label, PDict (horizon_change ob obs h))) HORIZONS_MS)"
    using assms(1,3,4) blocked by (auto simp: metric_change_def horizons split: option.splits sum.splits exn.splits if_splits)
  then obtain obs where obs: "history_of policy rows ob = Inr obs" and row: "row = metric_result ob (PFloat (ob_value ob))
      (map (\<lambda>(label, h). (label, PDict (horizon_change ob obs h))) HORIZONS_MS)" by blast
  have change: "change = horizon_change ob obs h"
    using assms(2,3) by (auto simp: row horizons HORIZONS_MS_def)
  from horizon_change_previous [OF assms(4) [unfolded change]] obtain p where
    p: "latest_in_series obs (ob_as_of ob - h) (history_tolerance_ms h) = Some p" "dget change ''previous_value'' = PFloat (ob_value p)"
    unfolding change by blast
  have "set obs \<subseteq> {r \<in> set rows. ob_family r = ob_family ob \<and> ob_metric r = ob_metric ob \<and> ob_recorded r \<le> ob_recorded ob}"
    using obs scoring_series_rows unfolding history_of_def by blast
  with latest_in_series_Some [OF p(1)] p(2) show ?thesis by blast
qed

section \<open>A concrete history\<close>

definition demo_fact :: "string \<Rightarrow> int \<Rightarrow> rat \<Rightarrow> observation" where
  "demo_fact evidence t q =
     \<lparr>ob_layer = ''AS-L4'', ob_family = ''FUNDING_RATE'', ob_metric = ''funding_rate'', ob_as_of = t, ob_value = Fin q, ob_source = ''S'',
      ob_quality = ''VALID_FRESH'', ob_evidence = evidence, ob_registry = ''R'', ob_run = ''RUN'', ob_recorded = t\<rparr>"

definition demo_store :: obs_store where
  "demo_store = \<lparr>os_rows = [demo_fact ''a'' 1000 1], os_events = [], os_saved = ([demo_fact ''a'' 1000 1], [])\<rparr>"

lemma demo_store_inv: "store_inv demo_store"
  by (simp add: store_inv_def demo_store_def bindable_def demo_fact_def)

lemma demo_history:
  "history_of policy [demo_fact ''a'' 1000 1] (demo_fact ''b'' 86401000 2) = Inr [demo_fact ''a'' 1000 1]"
  by (simp add: history_of_def scoring_series_def is_scoped_metric_def expected_source_id_def EXPECTED_SCOPED_SERIES_def visible_rows_def
      scoring_row_def observation_exclusion_reason_def before_cutoff_def check_scoring_def starts_with_def demo_fact_def Let_def)

lemma demo_change:
  "\<exists>row. metric_change policy [demo_fact ''a'' 1000 1] (demo_fact ''b'' 86401000 2) = Inr row
    \<and> dget (dict_of (dget (dict_of (dget row ''horizons'')) ''1d'')) ''previous_value'' \<noteq> PNone"
proof -
  have gap: "\<not> history_tolerance_ms 86400000 < 0" by (simp add: history_tolerance_ms_def)
  have "observation_exclusion_reason (demo_fact ''b'' 86401000 2) = None"
    by (simp add: observation_exclusion_reason_def demo_fact_def)
  then show ?thesis
    by (simp add: metric_change_def demo_history metric_result_def HORIZONS_MS_def horizon_change_def latest_in_series_def gap change_of_def Let_def)
      (simp add: demo_fact_def gap)
qed

theorem change_looks_back_witness:
  "\<exists>row. metric_change (Inr ()) [demo_fact ''a'' 1000 1] (demo_fact ''b'' 86401000 2) = Inr row
    \<and> dget (dict_of (dget (dict_of (dget row ''horizons'')) ''1d'')) ''previous_value'' = PFloat (Fin 1)"
proof -
  obtain row where row: "metric_change (Inr ()) [demo_fact ''a'' 1000 1] (demo_fact ''b'' 86401000 2) = Inr row"
    "dget (dict_of (dget (dict_of (dget row ''horizons'')) ''1d'')) ''previous_value'' \<noteq> PNone" using demo_change by blast
  have h: "(''1d'', 86400000) \<in> set HORIZONS_MS" by (simp add: HORIZONS_MS_def)
  show ?thesis using change_looks_back [OF row(1) h refl row(2)] row(1) by (simp add: demo_fact_def)
qed

text \<open>A store whose last \<^verbatim>\<open>record\<close> failed at its second observation: the first is visible, and lost
  when the store is opened again.\<close>

definition demo_failed :: obs_store where
  "demo_failed = snd (record_observations [demo_fact ''c'' 86402000 5, demo_fact ''d'' (2 ^ 63) 5] demo_store)"

lemma demo_failed_rows:
  "fst (record_observations [demo_fact ''c'' 86402000 5, demo_fact ''d'' (2 ^ 63) 5] demo_store) = Inl OverflowError"
  "os_rows demo_failed = os_rows demo_store @ [demo_fact ''c'' 86402000 5]" "fst (os_saved demo_failed) = os_rows demo_store"
  by (simp_all add: demo_failed_def record_observations_def demo_store_def insert_or_ignore_def fact_key_def bindable_def demo_fact_def)

theorem changes_have_no_hindsight_witness:
  "length (os_rows (fold obs_step [Reopen] demo_failed)) = 1 \<and> length (os_rows demo_failed) = 2
    \<and> compute_changes (Inr ()) (os_rows (fold obs_step [Reopen] demo_failed)) [demo_fact ''b'' 86401000 2]
      = compute_changes (Inr ()) (os_rows demo_failed) [demo_fact ''b'' 86401000 2]"
proof -
  have "length (os_rows (fold obs_step [Reopen] demo_failed)) = 1" "length (os_rows demo_failed) = 2"
    by (simp_all add: rollback_def demo_failed_rows) (simp_all add: demo_store_def)
  moreover have "os_rows demo_failed = fst (os_saved demo_failed) @ [demo_fact ''c'' 86402000 5]" by (simp add: demo_failed_rows)
  moreover have "\<forall>ob \<in> set [demo_fact ''c'' 86402000 5]. 86401000 < ob_recorded ob" by (simp add: demo_fact_def)
  moreover have "\<forall>ob \<in> set [demo_fact ''b'' 86401000 2]. ob_recorded ob \<le> 86401000" by (simp add: demo_fact_def)
  moreover have "\<forall>op \<in> set [Reopen]. \<forall>ob \<in> set (recorded_by op). 86401000 < ob_recorded ob" by simp
  ultimately show ?thesis using changes_have_no_hindsight by blast
qed

theorem recorded_once_witness:
  "fst (record_observations [demo_fact ''c'' 86402000 5] demo_store) = Inr 1
    \<and> fst (record_observations [demo_fact ''c'' 86402000 5]
        (fold obs_step [Reopen] (snd (record_observations [demo_fact ''c'' 86402000 5] demo_store)))) = Inr 0"
proof -
  have one: "fst (record_observations [demo_fact ''c'' 86402000 5] demo_store) = Inr 1"
    by (simp add: record_observations_def demo_store_def insert_or_ignore_def fact_key_def bindable_def demo_fact_def save_def)
  then have "record_observations [demo_fact ''c'' 86402000 5] demo_store
      = (Inr 1, snd (record_observations [demo_fact ''c'' 86402000 5] demo_store))" by (metis prod.collapse)
  from recorded_once [OF demo_store_inv this] one show ?thesis by blast
qed

theorem research_event_frozen_witness:
  "\<exists>st'. record_research_event (PStr ''e'', PStr ''k'', PInt 1) demo_store = (Inr True, st')
    \<and> research_event (PStr ''e'') ''k'' (fold obs_step [RecordEvent (PStr ''e'', PStr ''k'', PInt 2), Reopen] st') = Inr (Some (PInt 1))"
proof -
  obtain st' where st': "record_research_event (PStr ''e'', PStr ''k'', PInt 1) demo_store = (Inr True, st')"
    by (simp add: record_research_event_def record_event_def nonempty_str_def json_strict_def demo_store_def)
  from research_event_frozen [OF demo_store_inv st', of "[RecordEvent (PStr ''e'', PStr ''k'', PInt 2), Reopen]"] st' show ?thesis by simp
qed

text \<open>Changes are keyed by the metric alone: of two families with a metric of the same name only the
  later one, in the order of the families, is reported.\<close>

lemma changes_share_metric_names:
  "(''BTC_SPOT_AGGRESSOR_DAILY'', ''cvd_20d_share'') \<in> set COMPARABLE_METRICS \<and> (''PRICE_STRUCTURE_CONTEXT'', ''cvd_20d_share'') \<in> set COMPARABLE_METRICS"
  by (simp add: COMPARABLE_METRICS_def L6_FORMAL_METRICS_def)

end
