(* ===== verification/Reanalysis_Wake.thy ===== *)
theory Reanalysis_Wake
  imports Handoff_Gate Broker_Capital Observation_Store
begin

text \<open>
  The wake logic (\<^verbatim>\<open>reanalysis_wake.py\<close>): the intraday wake on a price observation, the identity of
  a qualified capital state and the wake it requests, and the fusion of every source of a wake into
  the one the handoff gate reads. The validators of the market-health, ratio and announcement
  sections are arguments. The research wake on liquidation evidence is not modelled.
\<close>

abbreviation REQUESTED :: pyval where "REQUESTED \<equiv> PStr ''REANALYSIS_REQUESTED''"

section \<open>The intraday wake\<close>

record wake_decision =
  wd_state :: string
  wd_reason :: string
  wd_metric :: string
  wd_family :: string
  wd_current :: pyfloat
  wd_previous :: "pyfloat option"
  wd_change :: "pyfloat option"
  wd_percentile :: "pyfloat option"
  wd_baseline :: nat

definition opt_val :: "pyfloat option \<Rightarrow> pyval" where
  "opt_val x = (case x of None \<Rightarrow> PNone | Some v \<Rightarrow> PFloat v)"

definition wake_decision_dict :: "wake_decision \<Rightarrow> dict" where
  "wake_decision_dict d =
     [(''state'', PStr (wd_state d)), (''reason'', PStr (wd_reason d)), (''metric'', PStr (wd_metric d)),
      (''input_family'', PStr (wd_family d)), (''current_value'', PFloat (wd_current d)), (''previous_value'', opt_val (wd_previous d)),
      (''percent_change'', opt_val (wd_change d)), (''historical_percentile'', opt_val (wd_percentile d)),
      (''baseline_count'', PInt (int (wd_baseline d))), (''action_output'', PStr ''NONE''),
      (''analyst_reanalysis_requested'', PBool (wd_state d = ''REANALYSIS_REQUESTED''))]"

definition percent_change :: "pyfloat \<Rightarrow> pyfloat \<Rightarrow> pyfloat option" where
  "percent_change current previous =
     (if feq previous (Fin 0) then None
      else map_option (\<lambda>x. fmul x (Fin 100)) (fdiv (fsub current previous) (fabs previous)))"

definition percentile :: "pyfloat \<Rightarrow> pyfloat list \<Rightarrow> pyfloat option" where
  "percentile value values =
     (if values = [] then None
      else Some (fmul (to_float (of_nat (length (filter (\<lambda>x. fle x value) values)) / of_nat (length values))) (Fin 100)))"

definition prior_series :: "observation \<Rightarrow> observation list \<Rightarrow> observation list" where
  "prior_series current history =
     sort_key ob_as_of (filter (\<lambda>r. ob_family r = ob_family current \<and> ob_metric r = ob_metric current
       \<and> ob_as_of r < ob_as_of current) history)"

definition historical_moves :: "observation list \<Rightarrow> pyfloat list" where
  "historical_moves rows =
     List.map_filter (\<lambda>(left, right). map_option fabs (percent_change (ob_value right) (ob_value left))) (zip rows (tl rows))"

definition wake_result :: "observation \<Rightarrow> string \<Rightarrow> string \<Rightarrow> pyfloat option \<Rightarrow> pyfloat option \<Rightarrow> pyfloat option \<Rightarrow> nat \<Rightarrow> wake_decision" where
  "wake_result current st reason previous change pct n =
     \<lparr>wd_state = st, wd_reason = reason, wd_metric = ob_metric current, wd_family = ob_family current, wd_current = ob_value current,
      wd_previous = previous, wd_change = change, wd_percentile = pct, wd_baseline = n\<rparr>"

definition evaluate_intraday_wake :: "observation \<Rightarrow> observation list \<Rightarrow> int \<Rightarrow> pyfloat \<Rightarrow> wake_decision" where
  "evaluate_intraday_wake current history minimum operational =
     (let rows = prior_series current history in
      if rows = [] then wake_result current ''NO_WAKE'' ''NO_PRIOR_OBSERVATION'' None None None 0
      else (let previous = ob_value (last rows); moves = historical_moves rows in
        case percent_change (ob_value current) previous of
          None \<Rightarrow> wake_result current ''NO_WAKE'' ''NON_COMPARABLE_PREVIOUS_VALUE'' (Some previous) None None (length moves)
        | Some change \<Rightarrow>
            if int (length moves) < minimum
              then wake_result current ''NO_WAKE'' ''INSUFFICIENT_INTRADAY_HISTORY'' (Some previous) (Some change) None (length moves)
            else (let pct = percentile (fabs change) moves in
              if (case pct of None \<Rightarrow> False | Some p \<Rightarrow> fle operational p)
                then wake_result current ''REANALYSIS_REQUESTED'' ''MATERIAL_CHANGE_RELATIVE_TO_INTRADAY_HISTORY''
                       (Some previous) (Some change) pct (length moves)
              else wake_result current ''NO_WAKE'' ''CHANGE_WITHIN_INTRADAY_HISTORY'' (Some previous) (Some change) pct (length moves))))"

section \<open>The identity of a capital state\<close>

definition DECISION_FIELDS :: "string list" where
  "DECISION_FIELDS = [''version'', ''source'', ''confirmed_at_ms'', ''reserved_usd'', ''no_leverage'']"

definition decision_invalid :: "pyval \<Rightarrow> dict \<Rightarrow> int \<Rightarrow> bool res" where
  "decision_invalid v confirmed at_ms =
     (let d = dict_of v; moment = dget d ''confirmed_at_ms''; reserved = dget d ''reserved_usd'' in
      if \<not> is_dict v \<or> set (keys d) \<noteq> set DECISION_FIELDS \<or> \<not> py_eq (dget d ''source'') (PStr ''USER_CONFIRMED'')
         \<or> \<not> is_str (dget d ''version'') \<or> strip (str_of (dget d ''version'')) = [] \<or> dget d ''no_leverage'' \<noteq> PBool True
         \<or> \<not> is_int moment \<or> \<not> py_eq moment (dget confirmed ''confirmed_at_ms'') \<or> at_ms < int_of moment
         \<or> is_bool reserved \<or> \<not> is_num reserved then Inr True
      else ebind (math_isfinite reserved) (\<lambda>finite. Inr (\<not> finite \<or> \<not> py_eq reserved (dget confirmed ''reserved_usd''))))"

definition pick :: "string list \<Rightarrow> pyval \<Rightarrow> pyval res" where
  "pick ks v = ebind (emap (\<lambda>k. ebind (py_index v k) (\<lambda>x. Inr (k, x))) ks) (\<lambda>d. Inr (PDict d))"

definition HOLDING_FACTS :: "string list" where
  "HOLDING_FACTS = [''asset'', ''quantity'', ''currency'', ''security_type'', ''average_cost_usd'']"

definition capital_facts :: "dict \<Rightarrow> pyval \<Rightarrow> pyval \<Rightarrow> pyval \<Rightarrow> pyval res" where
  "capital_facts checked observed confirmed full_intent =
     ebind (py_index (PDict checked) ''scope'') (\<lambda>scope. ebind (py_index observed ''source'') (\<lambda>source.
     ebind (py_index observed ''scope'') (\<lambda>observed_scope. ebind (py_index observed ''funds'') (\<lambda>funds.
     ebind (py_index observed ''holdings'') (\<lambda>holdings. ebind (py_iter holdings) (\<lambda>rows. ebind (emap (pick HOLDING_FACTS) rows) (\<lambda>facts.
     ebind (py_index observed ''open_orders'') (\<lambda>orders.
     ebind (pick [''source'', ''reserved_usd'', ''plan_policy'', ''asset_roles''] confirmed) (\<lambda>user.
     Inr (PDict [(''scope'', scope), (''source'', source), (''observation_scope'', observed_scope), (''funds'', funds),
       (''holdings'', PList facts), (''open_orders'', orders), (''user_confirmed'', user), (''decision_intent'', full_intent)]))))))))))"

definition full_intent_of :: "dict \<Rightarrow> dict \<Rightarrow> pyval" where
  "full_intent_of d confirmed =
     PDict [(''version'', dget d ''version''), (''source'', dget d ''source''), (''reserved_usd'', dget confirmed ''reserved_usd''),
       (''no_leverage'', dget d ''no_leverage'')]"

definition capital_state_identity :: "pyval \<Rightarrow> int \<Rightarrow> pyval \<Rightarrow> string option res" where
  "capital_state_identity v at_ms decision =
     (if \<not> is_dict v then Inr None
      else ebind (reconcile_capital (dget (dict_of v) ''broker_observed'') (dget (dict_of v) ''user_confirmed'') at_ms) (\<lambda>checked.
      (let observed = dget checked ''broker_observed''; confirmed = dget checked ''user_confirmed'' in
      if \<not> py_eq (PDict checked) v \<or> \<not> py_eq (dget checked ''state'') (PStr ''AVAILABLE'') then Inr None
      else if \<not> is_dict observed \<or> \<not> is_dict confirmed then Inr None
      else ebind (if decision = PNone then Inr False else decision_invalid decision (dict_of confirmed) at_ms) (\<lambda>invalid.
        if invalid then Inr None
        else ebind (capital_facts checked observed confirmed
               (if decision = PNone then PNone else full_intent_of (dict_of decision) (dict_of confirmed))) (\<lambda>facts.
          ebind (canonical_hash_strict facts) (\<lambda>h. Inr (Some h)))))))"

section \<open>Fusing the sources of a wake\<close>

definition optional_hash_bad :: "pyval \<Rightarrow> bool" where
  "optional_hash_bad v \<longleftrightarrow> v \<noteq> PNone \<and> \<not> (is_str v \<and> hex64 (str_of v))"

definition check_capital_change :: "pyval \<Rightarrow> unit res" where
  "check_capital_change v =
     (let d = dict_of v; current = dget d ''current_state_hash''; previous = dget d ''previous_state_hash'' in
      if v = PNone then Inr ()
      else if \<not> is_dict v then Inl (ValueError ''capital_change must be an object or None'')
      else ebind (assert_optional_authority d ''capital_change'') (\<lambda>_.
        if optional_hash_bad current \<or> optional_hash_bad previous
          then Inl (ValueError ''capital_change identity must be a sha256 hash'')
        else if py_eq (dget d ''state'') REQUESTED \<and> (current = PNone \<or> py_eq current previous)
          then Inl (ValueError ''capital_change wake requires changed qualified identity'')
        else Inr ()))"

record wake_inputs =
  wi_base :: pyval
  wi_plan :: pyval
  wi_market :: pyval
  wi_ratio :: pyval
  wi_announcement :: pyval
  wi_capital :: pyval

record wake_validators =
  wv_market :: "pyval \<Rightarrow> pyval res"
  wv_ratio :: "pyval \<Rightarrow> pyval res"
  wv_announcement :: "pyval \<Rightarrow> pyval res"

definition wake_capital :: "wake_inputs \<Rightarrow> pyval" where
  "wake_capital i = (if wi_capital i = PNone \<and> is_dict (wi_base i) then dget (dict_of (wi_base i)) ''capital_change'' else wi_capital i)"

definition optional_section :: "(pyval \<Rightarrow> pyval res) \<Rightarrow> pyval \<Rightarrow> pyval res" where
  "optional_section validate v = (if v = PNone then Inr PNone else validate v)"

definition optional_authority :: "pyval \<Rightarrow> string \<Rightarrow> unit res" where
  "optional_authority v label = (if is_dict v then assert_optional_authority (dict_of v) label else Inr ())"

definition ratio_decreased :: "string \<times> pyval \<Rightarrow> string list res" where
  "ratio_decreased x = (case x of (asset, row) \<Rightarrow>
     ebind (py_index row ''current_btc_per_diluted_share'') (\<lambda>now.
     ebind (py_index row ''previous_btc_per_diluted_share'') (\<lambda>before.
     ebind (py_lt now before) (\<lambda>less. Inr (if less then [asset] else [])))))"

definition issuer_assets :: "pyval \<Rightarrow> string list res" where
  "issuer_assets issuer =
     (if \<not> truthy issuer then Inr []
      else ebind (py_index issuer ''observations'') (\<lambda>rows.
        if \<not> is_dict rows then Inl AttributeError
        else ebind (emap ratio_decreased (dict_of rows)) (\<lambda>assets. Inr (concat assets))))"

text \<open>What each source says, once checked.\<close>

record wake_claims =
  wc_market :: pyval
  wc_announcement :: pyval
  wc_assets :: "string list"
  wc_capital :: pyval

definition flag_true :: "pyval \<Rightarrow> string \<Rightarrow> bool" where
  "flag_true v k \<longleftrightarrow> is_dict v \<and> dget (dict_of v) k = PBool True"

definition state_requested :: "pyval \<Rightarrow> bool" where
  "state_requested v \<longleftrightarrow> is_dict v \<and> py_eq (dget (dict_of v) ''state'') REQUESTED"

definition check_wake :: "wake_validators \<Rightarrow> wake_inputs \<Rightarrow> wake_claims res" where
  "check_wake val i =
     (if wi_base i \<noteq> PNone \<and> \<not> is_dict (wi_base i) then Inl (ValueError ''base_wake must be an object or None'')
      else if wi_plan i \<noteq> PNone \<and> \<not> is_dict (wi_plan i) then Inl (ValueError ''plan_drift must be an object or None'')
      else ebind (check_capital_change (wake_capital i)) (\<lambda>_.
      ebind (optional_section (wv_market val) (wi_market i)) (\<lambda>market.
      ebind (optional_section (wv_announcement val) (wi_announcement i)) (\<lambda>announcement.
      ebind (optional_authority (wi_base i) ''base_wake'') (\<lambda>_.
      ebind (optional_authority (wi_plan i) ''plan_drift'') (\<lambda>_.
      ebind (optional_section (wv_ratio val) (wi_ratio i)) (\<lambda>issuer.
      ebind (issuer_assets issuer) (\<lambda>assets.
      Inr \<lparr>wc_market = market, wc_announcement = announcement, wc_assets = assets, wc_capital = wake_capital i\<rparr>))))))))"

definition NO_BASE_WAKE :: dict where
  "NO_BASE_WAKE = [(''state'', PStr ''NO_WAKE''), (''reason'', PStr ''WAKE_NOT_EVALUATED''), (''metric'', PNone), (''input_family'', PNone),
     (''current_value'', PNone), (''previous_value'', PNone), (''percent_change'', PNone), (''historical_percentile'', PNone),
     (''baseline_count'', PInt 0)]"

text \<open>The update of the wake a source makes when no earlier one requested it.\<close>

definition wake_update :: "pyval \<Rightarrow> string \<Rightarrow> string \<Rightarrow> dict \<Rightarrow> dict" where
  "wake_update reason metric family r =
     fold (\<lambda>(k, v). dset k v)
       [(''state'', REQUESTED), (''reason'', reason), (''metric'', PStr metric), (''input_family'', PStr family),
        (''current_value'', PNone), (''previous_value'', PNone), (''percent_change'', PNone), (''historical_percentile'', PNone),
        (''baseline_count'', PInt 0)] r"

record fusion =
  fu_result :: dict
  fu_sources :: "string list"
  fu_reasons :: "pyval list"

definition base_source :: "string \<Rightarrow> pyval \<Rightarrow> string" where
  "base_source reason family =
     (if reason = ''DVOL_EXPANSION_ACTIVATED'' then ''DVOL''
      else if py_eq family (PStr ''LIQUIDATION_RESEARCH'') then ''LIQUIDATION_RESEARCH''
      else if py_eq family (PStr ''BTC_SPOT_PRICE'') then ''BTC_INTRADAY''
      else if py_eq family (PStr ''COMMANDER_PLAN_OBSERVATION'') then ''COMMANDER_PLAN_OBSERVATION''
      else if py_eq family (PStr ''BROKER_CAPITAL_STATE'') then ''BROKER_CAPITAL_STATE''
      else ''BASE_WAKE'')"

definition fuse_base :: "dict \<Rightarrow> fusion" where
  "fuse_base r =
     (let reason = py_str (dget_or r ''reason'' (PStr ''BASE_REANALYSIS_REQUESTED'')) in
      if py_eq (dget r ''state'') REQUESTED
        then \<lparr>fu_result = r, fu_sources = [base_source reason (dget r ''input_family'')], fu_reasons = [PStr reason]\<rparr>
      else \<lparr>fu_result = r, fu_sources = [], fu_reasons = []\<rparr>)"

definition fuse_source :: "bool \<Rightarrow> string list \<Rightarrow> pyval list \<Rightarrow> pyval \<Rightarrow> string \<Rightarrow> string \<Rightarrow> fusion \<Rightarrow> fusion" where
  "fuse_source first sources reasons reason metric family f =
     f\<lparr>fu_sources := fu_sources f @ sources, fu_reasons := fu_reasons f @ reasons,
       fu_result := (if first then wake_update reason metric family (fu_result f) else fu_result f)\<rparr>"

definition fuse_market :: "wake_claims \<Rightarrow> fusion \<Rightarrow> fusion res" where
  "fuse_market c f =
     (let m = dict_of (wc_market c) in
      if \<not> flag_true (wc_market c) ''reanalysis_required'' then Inr f
      else ebind (py_iter (dget_or m ''wake_reasons'' (PList []))) (\<lambda>rs.
        Inr (fuse_source (fu_sources f = []) [''MSTR_ASST_MARKET_HEALTH''] (map (\<lambda>r. PStr (py_str r)) rs)
          (PStr (py_str (dget m ''reason''))) ''mstr_asst_market_health'' ''MSTR_ASST_MARKET_HEALTH'' f)))"

definition fuse_issuer :: "wake_claims \<Rightarrow> fusion \<Rightarrow> fusion" where
  "fuse_issuer c f =
     (let reasons = map (\<lambda>a. PStr (a @ '':BTC_PER_DILUTED_SHARE_DECREASED'')) (wc_assets c) in
      if wc_assets c = [] then f
      else fuse_source (fu_sources f = []) (map (\<lambda>a. a @ ''_ISSUER_RATIO_OBSERVATION'') (wc_assets c)) reasons (hd reasons)
        ''issuer_btc_per_diluted_share'' ''ISSUER_RATIO_OBSERVATION'' f)"

definition fuse_announcement :: "wake_claims \<Rightarrow> fusion \<Rightarrow> fusion" where
  "fuse_announcement c f =
     (let reason = PStr (py_str (dget_or (dict_of (wc_announcement c)) ''reason'' (PStr ''NEW_OFFICIAL_ISSUER_ANNOUNCEMENT''))) in
      if \<not> state_requested (wc_announcement c) then f
      else fuse_source (fu_sources f = []) [''ISSUER_ANNOUNCEMENT''] [reason] reason ''official_issuer_announcement'' ''ISSUER_ANNOUNCEMENT'' f)"

definition fuse_plan :: "pyval \<Rightarrow> fusion \<Rightarrow> fusion" where
  "fuse_plan plan f =
     (let reason = PStr (py_str (dget_or (dict_of plan) ''reason'' (PStr ''ACTIVE_PLAN_CONDITION_VIOLATED''))) in
      if \<not> flag_true plan ''reanalysis_required'' then f
      else fuse_source (fu_sources f = []) [''PLAN_DRIFT''] [reason] reason ''plan_drift'' ''CAPITAL_PLAN'' f)"

definition fuse_capital :: "wake_claims \<Rightarrow> fusion \<Rightarrow> fusion res" where
  "fuse_capital c f =
     ebind (if \<not> state_requested (wc_capital c) then Inr f
        else ebind (py_index (wc_capital c) ''reason'') (\<lambda>reason.
          Inr (fuse_source (\<not> py_eq (dget (fu_result f) ''state'') REQUESTED) [''BROKER_CAPITAL_STATE''] [reason] reason
            ''capital_state'' ''BROKER_CAPITAL_STATE'' f)))
      (\<lambda>g. Inr (if wc_capital c = PNone then g else g\<lparr>fu_result := dset ''capital_change'' (wc_capital c) (fu_result g)\<rparr>))"

definition fuse_liquidation :: "fusion \<Rightarrow> fusion res" where
  "fuse_liquidation f =
     (let l = dget (fu_result f) ''liquidation_research'' in
      if \<not> state_requested l then Inr f
      else ebind (assert_optional_authority (dict_of l) ''liquidation_research'') (\<lambda>_.
        ebind (py_index l ''reason'') (\<lambda>reason.
        Inr (f\<lparr>fu_sources := fu_sources f @ [''LIQUIDATION_RESEARCH''], fu_reasons := fu_reasons f @ [reason]\<rparr>))))"

definition fromkeys :: "pyval list \<Rightarrow> pyval res" where
  "fromkeys xs = (if list_all hashable xs then Inr (PList (py_dedup [] xs)) else Inl (TypeError ''unhashable type''))"

definition section_field :: "pyval \<Rightarrow> string \<Rightarrow> pyval" where
  "section_field v k = (if is_dict v then dget (dict_of v) k else PNone)"

definition finish_wake :: "wake_inputs \<Rightarrow> wake_claims \<Rightarrow> fusion \<Rightarrow> dict res" where
  "finish_wake i c f =
     ebind (fromkeys (map PStr (fu_sources f))) (\<lambda>sources.
     ebind (fromkeys (fu_reasons f)) (\<lambda>reasons.
     Inr (fold (\<lambda>(k, v). dset k v)
       [(''analyst_reanalysis_requested'', PBool (py_eq (dget (fu_result f) ''state'') REQUESTED)),
        (''wake_sources'', sources), (''wake_reasons'', reasons),
        (''plan_drift_state'', section_field (wi_plan i) ''state''),
        (''plan_drift_reanalysis_required'', section_field (wi_plan i) ''reanalysis_required''),
        (''mstr_asst_market_health_state'', section_field (wc_market c) ''state''),
        (''mstr_asst_market_health_reanalysis_required'', section_field (wc_market c) ''reanalysis_required''),
        (''issuer_announcement_reanalysis_requested'', PBool (state_requested (wc_announcement c))),
        (''action_output'', PStr ''NONE''), (''external_action_authority'', PStr ''NONE''),
        (''external_action_performed'', PBool False)] (fu_result f))))"

definition nothing_to_fuse :: "wake_inputs \<Rightarrow> wake_claims \<Rightarrow> bool" where
  "nothing_to_fuse i c \<longleftrightarrow> wi_base i = PNone \<and> \<not> flag_true (wi_plan i) ''reanalysis_required''
     \<and> \<not> flag_true (wc_market c) ''reanalysis_required'' \<and> wc_assets c = [] \<and> \<not> state_requested (wc_announcement c) \<and> wc_capital c = PNone"

definition fuse_reanalysis_wake :: "wake_validators \<Rightarrow> wake_inputs \<Rightarrow> dict option res" where
  "fuse_reanalysis_wake val i =
     ebind (check_wake val i) (\<lambda>c.
     if nothing_to_fuse i c then Inr None
     else ebind (fuse_market c (fuse_base (if wi_base i = PNone then NO_BASE_WAKE else dict_of (wi_base i)))) (\<lambda>f.
       ebind (fuse_capital c (fuse_plan (wi_plan i) (fuse_announcement c (fuse_issuer c f)))) (\<lambda>g.
       ebind (fuse_liquidation g) (\<lambda>h.
       ebind (finish_wake i c h) (\<lambda>r. Inr (Some r))))))"

section \<open>The wake of a capital state\<close>

definition capital_change_record :: "pyval \<Rightarrow> string option \<Rightarrow> string option \<Rightarrow> dict" where
  "capital_change_record capital current previous =
     (let hash = (\<lambda>h. case h of None \<Rightarrow> PNone | Some s \<Rightarrow> PStr s); requested = (current \<noteq> None \<and> current \<noteq> previous) in
      [(''state'', if requested then REQUESTED else PStr ''NO_WAKE''),
       (''reason'', PStr (if requested then (if previous = None then ''INITIAL_QUALIFIED_CAPITAL_STATE'' else ''CAPITAL_STATE_CHANGED'')
          else if current \<noteq> None \<and> current \<noteq> Some [] then ''CAPITAL_STATE_UNCHANGED'' else ''CAPITAL_STATE_NOT_QUALIFIED'')),
       (''current_state_hash'', hash current), (''previous_state_hash'', hash previous),
       (''qualification_state'', if is_dict capital then dget_or (dict_of capital) ''state'' (PStr ''BLOCKED'') else PStr ''BLOCKED''),
       (''qualification_reason'', if is_dict capital then dget_or (dict_of capital) ''reason'' (PStr ''CAPITAL_STATE_MISSING'')
          else PStr ''CAPITAL_STATE_MISSING''),
       (''qualification_lost'', PBool (previous \<noteq> None \<and> current = None)),
       (''action_output'', PStr ''NONE''), (''external_action_authority'', PStr ''NONE''), (''external_action_performed'', PBool False)])"

record capital_reading =
  cr_state :: pyval
  cr_at :: pyval
  cr_decision :: pyval

definition apply_capital_wake ::
  "wake_validators \<Rightarrow> pyval \<Rightarrow> pyval \<Rightarrow> int \<Rightarrow> pyval \<Rightarrow> capital_reading \<Rightarrow> dict option res" where
  "apply_capital_wake val base capital at_ms decision previous =
     ebind (capital_state_identity capital at_ms decision) (\<lambda>current.
     ebind (if is_int (cr_at previous) \<and> int_of (cr_at previous) \<le> at_ms
            then capital_state_identity (cr_state previous) (int_of (cr_at previous)) (cr_decision previous) else Inr None) (\<lambda>earlier.
     fuse_reanalysis_wake val \<lparr>wi_base = base, wi_plan = PNone, wi_market = PNone, wi_ratio = PNone, wi_announcement = PNone,
       wi_capital = PDict (capital_change_record capital current earlier)\<rparr>))"

section \<open>What the fused wake says\<close>

definition claimed_sources :: "wake_inputs \<Rightarrow> wake_claims \<Rightarrow> string list" where
  "claimed_sources i c =
     (if flag_true (wc_market c) ''reanalysis_required'' then [''MSTR_ASST_MARKET_HEALTH''] else [])
     @ map (\<lambda>a. a @ ''_ISSUER_RATIO_OBSERVATION'') (wc_assets c)
     @ (if state_requested (wc_announcement c) then [''ISSUER_ANNOUNCEMENT''] else [])
     @ (if flag_true (wi_plan i) ''reanalysis_required'' then [''PLAN_DRIFT''] else [])
     @ (if state_requested (wc_capital c) then [''BROKER_CAPITAL_STATE''] else [])"

text \<open>Every source the fused wake has to name: the base wake by what it observed, the claimed sources in
  their order, and the liquidation research the base wake carries.\<close>

definition named_sources :: "wake_inputs \<Rightarrow> wake_claims \<Rightarrow> string list" where
  "named_sources i c =
     (let base = dict_of (wi_base i) in
      (if state_requested (wi_base i)
        then [base_source (py_str (dget_or base ''reason'' (PStr ''BASE_REANALYSIS_REQUESTED''))) (dget base ''input_family'')] else [])
      @ claimed_sources i c
      @ (if state_requested (dget base ''liquidation_research'') then [''LIQUIDATION_RESEARCH''] else []))"

text \<open>The result requests reanalysis exactly when a source was named.\<close>

definition agrees :: "fusion \<Rightarrow> bool" where
  "agrees f \<longleftrightarrow> (dget (fu_result f) ''state'' = REQUESTED \<longleftrightarrow> fu_sources f \<noteq> [])"

lemma fold_dset_other:
  "k \<notin> fst ` set kvs \<Longrightarrow> dget (fold (\<lambda>(k, v). dset k v) kvs d) k = dget d k"
  by (induction kvs arbitrary: d) auto

lemma wake_update_state [simp]: "dget (wake_update reason metric family r) ''state'' = REQUESTED"
  by (simp add: wake_update_def)

lemma wake_update_other:
  "k \<notin> {''state'', ''reason'', ''metric'', ''input_family'', ''current_value'', ''previous_value'', ''percent_change'',
     ''historical_percentile'', ''baseline_count''} \<Longrightarrow> dget (wake_update reason metric family r) k = dget r k"
  unfolding wake_update_def by (rule fold_dset_other) auto

lemma fuse_source_agrees:
  "agrees f \<Longrightarrow> sources \<noteq> [] \<Longrightarrow> agrees (fuse_source (fu_sources f = []) sources reasons reason metric family f)"
  by (auto simp: agrees_def fuse_source_def)

lemma fuse_base_agrees: "agrees (fuse_base r)"
  by (simp add: agrees_def fuse_base_def Let_def)

lemma fuse_market_Inr:
  assumes "fuse_market c f = Inr g" and "agrees f"
  shows "agrees g" and "fu_sources g = fu_sources f @ (if flag_true (wc_market c) ''reanalysis_required'' then [''MSTR_ASST_MARKET_HEALTH''] else [])"
  using assms fuse_source_agrees [OF assms(2)] by (auto simp: fuse_market_def ebind_Inr_iff Let_def split: if_splits) (simp_all add: fuse_source_def)

lemma fuse_issuer_agrees:
  assumes "agrees f"
  shows "agrees (fuse_issuer c f)" and "fu_sources (fuse_issuer c f) = fu_sources f @ map (\<lambda>a. a @ ''_ISSUER_RATIO_OBSERVATION'') (wc_assets c)"
  using assms fuse_source_agrees [OF assms] by (auto simp: fuse_issuer_def Let_def) (simp_all add: fuse_source_def)

lemma fuse_announcement_agrees:
  assumes "agrees f"
  shows "agrees (fuse_announcement c f)"
    and "fu_sources (fuse_announcement c f) = fu_sources f @ (if state_requested (wc_announcement c) then [''ISSUER_ANNOUNCEMENT''] else [])"
  using assms fuse_source_agrees [OF assms] by (auto simp: fuse_announcement_def Let_def) (simp_all add: fuse_source_def)

lemma fuse_plan_agrees:
  assumes "agrees f"
  shows "agrees (fuse_plan plan f)"
    and "fu_sources (fuse_plan plan f) = fu_sources f @ (if flag_true plan ''reanalysis_required'' then [''PLAN_DRIFT''] else [])"
  using assms fuse_source_agrees [OF assms] by (auto simp: fuse_plan_def Let_def) (simp_all add: fuse_source_def)

lemma fuse_capital_agrees:
  assumes "fuse_capital c f = Inr g" and "agrees f"
  shows "agrees g" and "fu_sources g = fu_sources f @ (if state_requested (wc_capital c) then [''BROKER_CAPITAL_STATE''] else [])"
proof -
  have first: "(\<not> py_eq (dget (fu_result f) ''state'') REQUESTED) = (fu_sources f = [])" using assms(2) by (auto simp: agrees_def)
  obtain h where h: "(if \<not> state_requested (wc_capital c) then Inr f
        else ebind (py_index (wc_capital c) ''reason'') (\<lambda>reason.
          Inr (fuse_source (fu_sources f = []) [''BROKER_CAPITAL_STATE''] [reason] reason ''capital_state'' ''BROKER_CAPITAL_STATE'' f))) = Inr h"
    and g: "g = (if wc_capital c = PNone then h else h\<lparr>fu_result := dset ''capital_change'' (wc_capital c) (fu_result h)\<rparr>)"
    using assms(1) unfolding fuse_capital_def first by (auto simp: ebind_Inr_iff)
  have "agrees h" using h assms(2) fuse_source_agrees [OF assms(2)] by (auto simp: ebind_Inr_iff split: if_splits)
  moreover have "fu_sources h = fu_sources f @ (if state_requested (wc_capital c) then [''BROKER_CAPITAL_STATE''] else [])"
    using h by (auto simp: ebind_Inr_iff fuse_source_def split: if_splits)
  ultimately show "agrees g" "fu_sources g = fu_sources f @ (if state_requested (wc_capital c) then [''BROKER_CAPITAL_STATE''] else [])"
    by (auto simp: g agrees_def)
qed

lemma fuse_liquidation_Inr:
  assumes "fuse_liquidation f = Inr g"
  shows "fu_result g = fu_result f"
    and "fu_sources g = fu_sources f
      @ (if state_requested (dget (fu_result f) ''liquidation_research'') then [''LIQUIDATION_RESEARCH''] else [])"
  using assms by (auto simp: fuse_liquidation_def ebind_Inr_iff Let_def split: if_splits)

text \<open>No other source touches the liquidation research the base wake carries.\<close>

lemma fuse_source_liquidation:
  "dget (fu_result (fuse_source first sources reasons reason metric family f)) ''liquidation_research'' = dget (fu_result f) ''liquidation_research''"
  by (simp add: fuse_source_def wake_update_other)

lemma fuse_keeps_liquidation:
  "fuse_market c f = Inr g \<Longrightarrow> dget (fu_result g) ''liquidation_research'' = dget (fu_result f) ''liquidation_research''"
  "dget (fu_result (fuse_issuer c f)) ''liquidation_research'' = dget (fu_result f) ''liquidation_research''"
  "dget (fu_result (fuse_announcement c f)) ''liquidation_research'' = dget (fu_result f) ''liquidation_research''"
  "dget (fu_result (fuse_plan plan f)) ''liquidation_research'' = dget (fu_result f) ''liquidation_research''"
  "fuse_capital c f = Inr g \<Longrightarrow> dget (fu_result g) ''liquidation_research'' = dget (fu_result f) ''liquidation_research''"
  by (auto simp: fuse_market_def fuse_issuer_def fuse_announcement_def fuse_plan_def fuse_capital_def ebind_Inr_iff Let_def
      fuse_source_liquidation split: if_splits)

lemma set_py_dedup_strs: "set (py_dedup (map PStr seen) (map PStr xs)) = PStr ` (set seen \<union> set xs)"
proof (induction xs arbitrary: seen)
  case (Cons x xs)
  have "py_in (PStr x) (map PStr seen) \<longleftrightarrow> x \<in> set seen" by (auto simp: py_in_def)
  then show ?case using Cons.IH [of seen] Cons.IH [of "x # seen"] by (auto simp del: list.map) (simp_all add: image_iff)
qed auto

lemma finish_wake_Inr:
  assumes "finish_wake i c f = Inr r"
  shows "dget r ''state'' = dget (fu_result f) ''state''"
    and "dget r ''wake_sources'' = PList (py_dedup [] (map PStr (fu_sources f)))"
    and "dget r ''analyst_reanalysis_requested'' = PBool (dget r ''state'' = REQUESTED)"
    and "dget r ''action_output'' = PStr ''NONE''" and "dget r ''external_action_authority'' = PStr ''NONE''"
    and "dget r ''external_action_performed'' = PBool False" and "is_list (dget r ''wake_sources'')" and "is_list (dget r ''wake_reasons'')"
proof -
  have src: "fromkeys (map PStr (fu_sources f)) = Inr (PList (py_dedup [] (map PStr (fu_sources f))))"
    by (simp add: fromkeys_def list_all_iff)
  obtain reasons where reasons: "fromkeys (fu_reasons f) = Inr (PList reasons)"
    using assms by (auto simp: finish_wake_def ebind_Inr_iff fromkeys_def split: if_splits)
  note r = assms [unfolded finish_wake_def src reasons ebind.simps sum.inject, symmetric, simplified fold_simps prod.case]
  have st: "dget r ''state'' = dget (fu_result f) ''state''" unfolding r by simp
  then show "dget r ''state'' = dget (fu_result f) ''state''" .
  show ws: "dget r ''wake_sources'' = PList (py_dedup [] (map PStr (fu_sources f)))" unfolding r by simp
  then show "is_list (dget r ''wake_sources'')" by simp
  show "dget r ''analyst_reanalysis_requested'' = PBool (dget r ''state'' = REQUESTED)" unfolding st unfolding r by simp
  show "dget r ''action_output'' = PStr ''NONE''" unfolding r by simp
  show "dget r ''external_action_authority'' = PStr ''NONE''" unfolding r by simp
  show "dget r ''external_action_performed'' = PBool False" unfolding r by simp
  show "is_list (dget r ''wake_reasons'')" unfolding r by simp
qed

definition base_wake :: "wake_inputs \<Rightarrow> dict" where
  "base_wake i = (if wi_base i = PNone then NO_BASE_WAKE else dict_of (wi_base i))"

lemma fuse_result:
  assumes "fuse_reanalysis_wake val i = Inr (Some r)"
  obtains c f h where "check_wake val i = Inr c" and "agrees f" and "finish_wake i c h = Inr r"
    and "fu_sources f = fu_sources (fuse_base (base_wake i)) @ claimed_sources i c"
    and "fu_result h = fu_result f"
    and "fu_sources h = fu_sources f @ (if state_requested (dget (base_wake i) ''liquidation_research'') then [''LIQUIDATION_RESEARCH''] else [])"
proof -
  obtain c f g h where c: "check_wake val i = Inr c" and f: "fuse_market c (fuse_base (base_wake i)) = Inr f"
    and g: "fuse_capital c (fuse_plan (wi_plan i) (fuse_announcement c (fuse_issuer c f))) = Inr g"
    and h: "fuse_liquidation g = Inr h" and r: "finish_wake i c h = Inr r"
    using assms unfolding fuse_reanalysis_wake_def base_wake_def [symmetric] by (auto simp: ebind_Inr_iff split: if_splits)
  note m = fuse_market_Inr [OF f fuse_base_agrees]
  note iss = fuse_issuer_agrees [OF m(1), of c]
  note an = fuse_announcement_agrees [OF iss(1), of c]
  note pl = fuse_plan_agrees [OF an(1), of "wi_plan i"]
  note ca = fuse_capital_agrees [OF g pl(1)]
  have "dget (fu_result g) ''liquidation_research'' = dget (fu_result (fuse_base (base_wake i))) ''liquidation_research''"
    by (simp only: fuse_keeps_liquidation(5) [OF g] fuse_keeps_liquidation(2-4) fuse_keeps_liquidation(1) [OF f])
  also have "fu_result (fuse_base (base_wake i)) = base_wake i" by (simp add: fuse_base_def Let_def)
  finally have "fu_sources h = fu_sources g @ (if state_requested (dget (base_wake i) ''liquidation_research'') then [''LIQUIDATION_RESEARCH''] else [])"
    by (simp only: fuse_liquidation_Inr(2) [OF h])
  then show thesis
    by (intro that [OF c ca(1) r]) (use fuse_liquidation_Inr(1) [OF h] in \<open>simp_all add: ca(2) pl(2) an(2) iss(2) m(2) claimed_sources_def\<close>)
qed

text \<open>C29: fusing loses no wake: whatever the inputs, the fused wake requests reanalysis exactly when the
  base wake or the market health, an issuer ratio, an announcement, the plan drift or the capital reading
  does; its sources are exactly the base source if the base wake requests, those sources, and the
  liquidation research the base wake carries if that requests, in this order and each once; and it carries
  no authority to act. A liquidation research request alone is named and does not make the wake request.\<close>

theorem fuse_loses_no_wake:
  assumes "fuse_reanalysis_wake val i = Inr (Some r)"
  shows "\<exists>c. check_wake val i = Inr c
    \<and> (dget r ''state'' = REQUESTED \<longleftrightarrow> state_requested (wi_base i) \<or> claimed_sources i c \<noteq> [])
    \<and> dget r ''wake_sources'' = PList (py_dedup [] (map PStr (named_sources i c)))
    \<and> set (list_of (dget r ''wake_sources'')) = PStr ` set (named_sources i c)
    \<and> dget r ''analyst_reanalysis_requested'' = PBool (dget r ''state'' = REQUESTED)
    \<and> dget r ''action_output'' = PStr ''NONE'' \<and> dget r ''external_action_authority'' = PStr ''NONE''
    \<and> dget r ''external_action_performed'' = PBool False"
  using assms
proof (rule fuse_result)
  fix c f h
  assume c: "check_wake val i = Inr c" and f: "agrees f" and r: "finish_wake i c h = Inr r"
    and src: "fu_sources f = fu_sources (fuse_base (base_wake i)) @ claimed_sources i c"
    and h: "fu_result h = fu_result f"
      "fu_sources h = fu_sources f @ (if state_requested (dget (base_wake i) ''liquidation_research'') then [''LIQUIDATION_RESEARCH''] else [])"
  have base: "is_dict (wi_base i) \<or> wi_base i = PNone" using c by (auto simp: check_wake_def split: if_splits)
  then have b: "fu_sources (fuse_base (base_wake i)) = (if state_requested (wi_base i)
      then [base_source (py_str (dget_or (dict_of (wi_base i)) ''reason'' (PStr ''BASE_REANALYSIS_REQUESTED''))) (dget (dict_of (wi_base i)) ''input_family'')]
      else [])"
    by (auto simp: fuse_base_def state_requested_def base_wake_def NO_BASE_WAKE_def Let_def)
  have l: "state_requested (dget (base_wake i) ''liquidation_research'') = state_requested (dget (dict_of (wi_base i)) ''liquidation_research'')"
    by (simp add: base_wake_def NO_BASE_WAKE_def state_requested_def)
  note fin = finish_wake_Inr [OF r]
  have st: "dget r ''state'' = REQUESTED \<longleftrightarrow> state_requested (wi_base i) \<or> claimed_sources i c \<noteq> []"
    using f src b unfolding agrees_def fin(1) h(1) by auto
  have "fu_sources h = named_sources i c" unfolding h(2) src b l named_sources_def Let_def by simp
  then have ws: "dget r ''wake_sources'' = PList (py_dedup [] (map PStr (named_sources i c)))" using fin(2) by simp
  then have "set (list_of (dget r ''wake_sources'')) = PStr ` set (named_sources i c)"
    using set_py_dedup_strs [of "[]" "named_sources i c"] by simp
  then show ?thesis using c st ws fin(3-6) by blast
qed

text \<open>C30: a fused wake always passes the checks of the handoff gate: with the hash of its pack, a
  notice linked to it and agreeing on whether reanalysis is requested, the gate goes on with exactly
  this wake, so no fused wake can make the gate fail.\<close>

theorem fused_wake_passes_gate:
  assumes "fuse_reanalysis_wake val i = Inr (Some r)" and "h \<noteq> []" and "requested \<longleftrightarrow> dget r ''state'' = REQUESTED"
  shows "gate_checks (PDict [(''authority'', PDict []), (''evidence_pack_hash'', PStr h), (''reanalysis_wake'', PDict r)])
      (PDict [(''source_evidence_pack_hash'', PStr h),
         (''state'', PStr (if requested then ''GPT_REANALYSIS_REQUESTED'' else ''NO_REANALYSIS''))])
    = Inr (h, r, requested)
    \<and> (\<exists>ss. wake_strings r ''wake_sources'' = Inr ss) \<and> (\<exists>ss. wake_strings r ''wake_reasons'' = Inr ss)"
  using assms(1)
proof (rule fuse_result)
  fix c f h' assume r: "finish_wake i c h' = Inr r"
  note fin = finish_wake_Inr [OF r]
  have ls: "\<exists>ss. wake_strings r k = Inr ss" if "is_list (dget r k)" for k
    using that by (cases "dget r k") (auto simp: wake_strings_def dget_or_dhas dget_def dhas_map_of split: option.splits)
  have auth: "assert_optional_authority r ''reanalysis_wake'' = Inr ()"
    by (simp add: assert_optional_authority_def OPTIONAL_AUTHORITY_def fin)
  have none: "assert_optional_authority [] l = Inr ()" "assert_optional_authority [(''source_evidence_pack_hash'', x), (''state'', y)] l = Inr ()"
    for l x y by (simp_all add: assert_optional_authority_def OPTIONAL_AUTHORITY_def)
  show ?thesis using assms(2,3) ls [OF fin(7)] ls [OF fin(8)]
    by (simp add: gate_checks_def auth none Let_def)
qed

section \<open>Capital wakes\<close>

lemma capital_identity_hash: "capital_state_identity v at_ms decision = Inr (Some h) \<Longrightarrow> hex64 h"
  by (auto simp: capital_state_identity_def canonical_hash_strict_def ebind_Inr_iff Let_def sha256_hex64 split: if_splits)

lemma capital_change_fields:
  "dget (capital_change_record v current earlier) ''state'' = (if current \<noteq> None \<and> current \<noteq> earlier then REQUESTED else PStr ''NO_WAKE'')"
  "dget (capital_change_record v current earlier) ''current_state_hash'' = (case current of None \<Rightarrow> PNone | Some s \<Rightarrow> PStr s)"
  "dget (capital_change_record v current earlier) ''previous_state_hash'' = (case earlier of None \<Rightarrow> PNone | Some s \<Rightarrow> PStr s)"
  "\<exists>s. py_index (PDict (capital_change_record v current earlier)) ''reason'' = Inr (PStr s)"
  "assert_optional_authority (capital_change_record v current earlier) l = Inr ()"
  by (simp_all add: capital_change_record_def Let_def assert_optional_authority_def OPTIONAL_AUTHORITY_def)

lemma capital_change_valid:
  assumes "\<And>h. current = Some h \<Longrightarrow> hex64 h" and "\<And>h. earlier = Some h \<Longrightarrow> hex64 h"
  shows "check_capital_change (PDict (capital_change_record v current earlier)) = Inr ()"
  using assms by (cases current; cases earlier)
    (simp_all add: check_capital_change_def capital_change_fields optional_hash_bad_def Let_def)

lemma capital_only_fuses:
  assumes "check_capital_change (PDict d) = Inr ()" and "py_index (PDict d) ''reason'' = Inr (PStr s)"
  shows "\<exists>r. fuse_reanalysis_wake val \<lparr>wi_base = PNone, wi_plan = PNone, wi_market = PNone, wi_ratio = PNone, wi_announcement = PNone,
       wi_capital = PDict d\<rparr> = Inr (Some r) \<and> (dget r ''state'' = REQUESTED \<longleftrightarrow> dget d ''state'' = REQUESTED)"
proof -
  let ?i = "\<lparr>wi_base = PNone, wi_plan = PNone, wi_market = PNone, wi_ratio = PNone, wi_announcement = PNone, wi_capital = PDict d\<rparr>"
  let ?c = "\<lparr>wc_market = PNone, wc_announcement = PNone, wc_assets = [], wc_capital = PDict d\<rparr>"
  have c: "check_wake val ?i = Inr ?c"
    using assms(1) by (simp add: check_wake_def wake_capital_def optional_section_def optional_authority_def issuer_assets_def)
  define f where "f = fuse_base NO_BASE_WAKE"
  have f: "fu_sources f = []" "fu_reasons f = []" "dget (fu_result f) ''state'' = PStr ''NO_WAKE''" "dget (fu_result f) ''liquidation_research'' = PNone"
    by (simp_all add: f_def fuse_base_def NO_BASE_WAKE_def Let_def)
  obtain g where g: "fuse_capital ?c f = Inr g" "dget (fu_result g) ''liquidation_research'' = PNone" "list_all hashable (fu_reasons g)"
    using f assms(2) by (cases "state_requested (PDict d)") (auto simp: fuse_capital_def fuse_source_def wake_update_other simp del: py_index.simps)
  have "fromkeys (map PStr (fu_sources g)) = Inr (PList (py_dedup [] (map PStr (fu_sources g))))" by (simp add: fromkeys_def list_all_iff)
  then obtain r where r: "finish_wake ?i ?c g = Inr r" using g(3) by (simp add: finish_wake_def fromkeys_def)
  have "fuse_reanalysis_wake val ?i = Inr (Some r)"
    using g r by (simp add: fuse_reanalysis_wake_def c nothing_to_fuse_def fuse_market_def fuse_issuer_def fuse_announcement_def fuse_plan_def
        flag_true_def state_requested_def fuse_liquidation_def Let_def flip: f_def)
  moreover from fuse_result [OF this] have "dget r ''state'' = REQUESTED \<longleftrightarrow> dget d ''state'' = REQUESTED"
  proof -
    have "agrees f" unfolding f_def by (rule fuse_base_agrees)
    note ca = fuse_capital_agrees [OF g(1) this]
    show ?thesis using ca by (simp add: finish_wake_Inr(1) [OF r] agrees_def f(1) state_requested_def split: if_splits)
  qed
  ultimately show ?thesis by blast
qed

text \<open>Without another wake, a capital reading is always turned into a wake, and it requests
  reanalysis exactly when the state qualifies and its facts differ from those of the earlier
  reading: the clocks of the observation are not part of the identity, so the same facts read again
  never wake twice.\<close>

theorem capital_wake_iff_facts_change:
  assumes "capital_state_identity v at_ms decision = Inr current"
    and "(if is_int (cr_at previous) \<and> int_of (cr_at previous) \<le> at_ms
          then capital_state_identity (cr_state previous) (int_of (cr_at previous)) (cr_decision previous) else Inr None) = Inr earlier"
  shows "\<exists>r. apply_capital_wake val PNone v at_ms decision previous = Inr (Some r)
    \<and> (dget r ''state'' = REQUESTED \<longleftrightarrow> current \<noteq> None \<and> current \<noteq> earlier)"
proof -
  have "check_capital_change (PDict (capital_change_record v current earlier)) = Inr ()"
    by (rule capital_change_valid) (use assms capital_identity_hash in \<open>auto split: if_splits\<close>)
  moreover obtain s where "py_index (PDict (capital_change_record v current earlier)) ''reason'' = Inr (PStr s)"
    using capital_change_fields(4) by blast
  ultimately obtain r where r: "fuse_reanalysis_wake val \<lparr>wi_base = PNone, wi_plan = PNone, wi_market = PNone, wi_ratio = PNone,
        wi_announcement = PNone, wi_capital = PDict (capital_change_record v current earlier)\<rparr> = Inr (Some r)"
    and st: "dget r ''state'' = REQUESTED \<longleftrightarrow> dget (capital_change_record v current earlier) ''state'' = REQUESTED"
    using capital_only_fuses by blast
  have "apply_capital_wake val PNone v at_ms decision previous = Inr (Some r)"
    by (simp only: apply_capital_wake_def assms ebind.simps r)
  moreover have "dget r ''state'' = REQUESTED \<longleftrightarrow> current \<noteq> None \<and> current \<noteq> earlier" unfolding st capital_change_fields(1) by simp
  ultimately show ?thesis by blast
qed

section \<open>More movement never silences the intraday wake\<close>

lemma fle_trans: "fle a b \<Longrightarrow> fle b c \<Longrightarrow> fle a c"
  by (cases a; cases b; cases c) (auto simp: fle_def)

lemma share_Fin:
  assumes "0 \<le> q" and "q \<le> 1"
  obtains r where "to_float q = Fin r"
  using to_float_nonneg [OF assms(1)] to_float_mono [OF assms(2)] that
  by (cases "to_float q") (auto simp: fle_def)

lemma percentile_mono:
  assumes "fle x x'" and "percentile x moves = Some p" and "percentile x' moves = Some p'"
  shows "fle p p'"
proof -
  define n n' m where "n = length (filter (\<lambda>y. fle y x) moves)" and "n' = length (filter (\<lambda>y. fle y x') moves)" and "m = length moves"
  have "length (filter (\<lambda>y. fle y x) moves) \<le> length (filter (\<lambda>y. fle y x') moves)"
    by (induction moves) (use fle_trans [OF _ assms(1)] in auto)
  then have "n \<le> n'" "n' \<le> m" "0 < m" using assms(2) by (auto simp: n_def n'_def m_def percentile_def split: if_splits)
  then have le: "(of_nat n / of_nat m :: rat) \<le> of_nat n' / of_nat m" "(of_nat n' / of_nat m :: rat) \<le> 1" "0 \<le> (of_nat n / of_nat m :: rat)"
    by (simp_all add: divide_right_mono)
  obtain a where a: "to_float (of_nat n / of_nat m) = Fin a" using share_Fin [of "of_nat n / of_nat m"] le by fastforce
  obtain b where b: "to_float (of_nat n' / of_nat m) = Fin b" using share_Fin [of "of_nat n' / of_nat m"] le by fastforce
  have "a \<le> b" using to_float_mono [OF le(1)] by (simp add: a b)
  then have "fle (to_float (a * 100)) (to_float (b * 100))" by (intro to_float_mono) simp
  then show ?thesis using assms(2,3) a b by (auto simp: percentile_def n_def n'_def m_def split: if_splits)
qed

text \<open>The intraday wake is monotone in the movement: with the same history and settings, an
  observation that moved at least as far as one that requested reanalysis requests it too, exact
  rounding of the percentile included.\<close>

theorem intraday_wake_monotone:
  fixes current current' history minimum operational
  defines "d \<equiv> evaluate_intraday_wake current history minimum operational"
    and "d' \<equiv> evaluate_intraday_wake current' history minimum operational"
  assumes "wd_state d = ''REANALYSIS_REQUESTED''"
    and "ob_family current' = ob_family current" and "ob_metric current' = ob_metric current" and "ob_as_of current' = ob_as_of current"
    and "wd_change d = Some x" and "wd_change d' = Some x'" and "fle (fabs x) (fabs x')"
  shows "wd_state d' = ''REANALYSIS_REQUESTED''"
proof -
  let ?rows = "prior_series current history" and ?moves = "historical_moves (prior_series current history)"
  have rows: "prior_series current' history = ?rows" using assms(4-6) by (simp add: prior_series_def)
  from assms(3,7) obtain p where d: "?rows \<noteq> []" "percent_change (ob_value current) (ob_value (last ?rows)) = Some x"
    "\<not> int (length ?moves) < minimum" "percentile (fabs x) ?moves = Some p" "fle operational p"
    by (auto simp: d_def evaluate_intraday_wake_def wake_result_def Let_def split: if_splits option.splits)
  from assms(8) d have d': "percent_change (ob_value current') (ob_value (last ?rows)) = Some x'"
    by (auto simp: d'_def evaluate_intraday_wake_def wake_result_def rows Let_def split: if_splits option.splits)
  obtain p' where p': "percentile (fabs x') ?moves = Some p'" using d(4) by (auto simp: percentile_def split: if_splits)
  have "fle operational p'" by (rule fle_trans [OF d(5) percentile_mono [OF assms(9) d(4) p']])
  then show ?thesis using d(1,3) by (simp add: d'_def evaluate_intraday_wake_def rows d' p' wake_result_def Let_def)
qed

section \<open>Concrete wakes\<close>

definition demo_wake_validators :: wake_validators where
  "demo_wake_validators = \<lparr>wv_market = Inr, wv_ratio = Inr, wv_announcement = Inr\<rparr>"

definition plan_only :: wake_inputs where
  "plan_only = \<lparr>wi_base = PNone, wi_plan = PDict [(''state'', PStr ''PLAN_VIOLATED''), (''reanalysis_required'', PBool True)], wi_market = PNone,
     wi_ratio = PNone, wi_announcement = PNone, wi_capital = PNone\<rparr>"

lemma plan_only_fuses: "\<exists>r. fuse_reanalysis_wake demo_wake_validators plan_only = Inr (Some r) \<and> dget r ''state'' = REQUESTED"
  by (simp add: fuse_reanalysis_wake_def plan_only_def demo_wake_validators_def check_wake_def wake_capital_def check_capital_change_def
      optional_section_def optional_authority_def assert_optional_authority_def OPTIONAL_AUTHORITY_def issuer_assets_def
      nothing_to_fuse_def flag_true_def state_requested_def fuse_market_def fuse_issuer_def fuse_announcement_def fuse_plan_def
      fuse_capital_def fuse_liquidation_def finish_wake_def fromkeys_def fuse_base_def NO_BASE_WAKE_def fuse_source_def
      wake_update_other Let_def)

theorem fuse_loses_no_wake_witness:
  "\<exists>r. fuse_reanalysis_wake demo_wake_validators plan_only = Inr (Some r) \<and> dget r ''state'' = REQUESTED
     \<and> PStr ''PLAN_DRIFT'' \<in> set (list_of (dget r ''wake_sources''))"
proof -
  obtain r where r: "fuse_reanalysis_wake demo_wake_validators plan_only = Inr (Some r)" "dget r ''state'' = REQUESTED"
    using plan_only_fuses by blast
  then show ?thesis using fuse_loses_no_wake [OF r(1)]
    by (auto simp: named_sources_def claimed_sources_def plan_only_def flag_true_def)
qed

theorem fused_wake_passes_gate_witness:
  "\<exists>r. gate_checks (PDict [(''authority'', PDict []), (''evidence_pack_hash'', PStr ''h''), (''reanalysis_wake'', PDict r)])
      (PDict [(''source_evidence_pack_hash'', PStr ''h''), (''state'', PStr ''GPT_REANALYSIS_REQUESTED'')]) = Inr (''h'', r, True)"
proof -
  obtain r where r: "fuse_reanalysis_wake demo_wake_validators plan_only = Inr (Some r)" "dget r ''state'' = REQUESTED"
    using plan_only_fuses by blast
  show ?thesis using fused_wake_passes_gate [OF r(1), of "''h''" True] r(2) by auto
qed

theorem intraday_wake_monotone_witness:
  "wd_state (evaluate_intraday_wake (demo_fact ''a'' 30 4)
     [demo_fact ''a'' 10 1, demo_fact ''a'' 20 2]
     1 (Fin 95)) = ''REANALYSIS_REQUESTED''"
proof -
  let ?h = "[demo_fact ''a'' 10 1, demo_fact ''a'' 20 2]"
  let ?c = "\<lambda>v. demo_fact ''a'' 30 v"
  have e: "evaluate_intraday_wake (?c 4) ?h 1 (Fin 95) = wake_result (?c 4) ''REANALYSIS_REQUESTED''
      ''MATERIAL_CHANGE_RELATIVE_TO_INTRADAY_HISTORY'' (Some (Fin 2)) (Some (Fin 100)) (Some (Fin 100)) 1"
    by (simp add: evaluate_intraday_wake_def prior_series_def historical_moves_def percent_change_def percentile_def fsub_def
        List.map_filter_simps demo_fact_def Let_def)
  have same: "ob_family (?c v) = ob_family (?c w)" "ob_metric (?c v) = ob_metric (?c w)" for v w by (simp_all add: demo_fact_def)
  show ?thesis
    by (rule intraday_wake_monotone [of "?c 4" ?h 1 "Fin 95" "?c 4" "Fin 100" "Fin 100"]) (simp_all add: e wake_result_def same)
qed

definition demo_user :: dict where
  "demo_user = [(''source'', PStr ''USER_CONFIRMED''), (''confirmed_at_ms'', PInt 1000), (''reserved_usd'', PFloat (Fin 100)),
     (''plan_policy'', PStr ''CANCEL_ALL_NO_REPLACEMENT''), (''asset_roles'', PDict [(''MSTR'', PStr ''CORE'')])]"

lemma demo_user_confirms: "confirm_intent (PDict demo_user) 1300000 = Inr (demo_user, Fin 100)"
proof -
  have "role_shape (PStr ''CORE'')" by code_simp
  then show ?thesis by (simp add: confirm_intent_def demo_user_def capital_number_def dget_or_def safe_role_def demo_symbol Let_def)
qed

lemma demo_identity: "\<exists>v h. capital_state_identity v 1300000 PNone = Inr (Some h)"
proof -
  obtain limits where r: "reconcile_capital (PDict demo_observation) (PDict demo_user) 1300000 =
    Inr (reconciliation ''AVAILABLE'' ''BROKER_OBSERVATION_VALID'' (PDict demo_observation) (PDict demo_user) (PFloat (Fin 700)) (PFloat (Fin 200))
      limits [(''MSTR'', PFloat (Fin 10))])" using demo_reconciles [OF demo_user_confirms] by blast
  define c where "c = reconciliation ''AVAILABLE'' ''BROKER_OBSERVATION_VALID'' (PDict demo_observation) (PDict demo_user) (PFloat (Fin 700)) (PFloat (Fin 200))
      limits [(''MSTR'', PFloat (Fin 10))]"
  have f: "dget c ''broker_observed'' = PDict demo_observation" "dget c ''user_confirmed'' = PDict demo_user"
    "dget c ''state'' = PStr ''AVAILABLE''" "py_index (PDict c) ''scope'' = Inr (PStr ''IBKR_SINGLE_ACCOUNT_USD_ONLY'')"
    by (simp_all add: c_def reconciliation_def)
  have l: "wf_list (map PStr ss)" "nan_free_list (map PStr ss)" for ss by (induction ss) auto
  have d: "representable (numeral n) \<and> (numeral n :: rat) < pow2 1024" if "numeral n < (2 ^ 53 :: int)" for n
  proof -
    have r: "rnd64 (numeral n) = numeral n" using rnd64_of_int [of "numeral n"] that by simp
    then show ?thesis using to_float_numeral [OF that] by (simp add: to_float_def representable_def r split: if_splits)
  qed
  have z: "representable 0" by (simp add: representable_def)
  have "wf_val (PDict c)" "nan_free (PDict c)"
    by (simp_all add: c_def reconciliation_def demo_user_def demo_observation_def demo_body_def broker_body_def keys_def l d z)
  then have "py_eq (PDict c) (PDict c)" by (rule py_eq_refl)
  obtain facts where facts: "capital_facts c (PDict demo_observation) (PDict demo_user) PNone = Inr facts" "all_finite facts"
    using f(4) by (auto simp: capital_facts_def pick_def HOLDING_FACTS_def demo_user_def demo_observation_def demo_body_def broker_body_def)
  show ?thesis
    using r \<open>py_eq (PDict c) (PDict c)\<close> facts
    by (intro exI [of _ "PDict c"]) (simp add: capital_state_identity_def f canonical_hash_strict_Inr flip: c_def)
qed

theorem capital_wake_iff_facts_change_witness:
  "\<exists>v r. capital_state_identity v 1300000 PNone \<noteq> Inr None
     \<and> apply_capital_wake demo_wake_validators PNone v 1300000 PNone \<lparr>cr_state = PNone, cr_at = PNone, cr_decision = PNone\<rparr> = Inr (Some r)
     \<and> dget r ''state'' = REQUESTED"
proof -
  obtain v h where v: "capital_state_identity v 1300000 PNone = Inr (Some h)" using demo_identity by blast
  show ?thesis
    using capital_wake_iff_facts_change [OF v, of "\<lparr>cr_state = PNone, cr_at = PNone, cr_decision = PNone\<rparr>" None demo_wake_validators] v
    by (intro exI [of _ v]) auto
qed

end
