(* ===== verification/Observation_Journal.thy ===== *)
theory Observation_Journal
  imports Commander_Adapter Run_Ledger
begin

text \<open>
  The durable observation journal (\<^verbatim>\<open>ibkr_observation_journal.py\<close>): a hash-chained table of the
  observations of one plan's asset, the sink that commits each of them before the observation
  bridge sees it, and the replay of a journal into a bridge. A database file is its metadata row
  and the rows of its table in the order of their primary key, each column as the database returns
  it; the proof column is what a JSON reader gets from its text. A statement outside a transaction
  commits at once. Shown: a journal that validates is a chain, an append keeps it one, and a bridge
  restored from a checkpoint and fed the rest of the journal is the bridge that never stopped.
\<close>

section \<open>Records\<close>

definition JOURNAL_SCHEMA_VERSION :: string where "JOURNAL_SCHEMA_VERSION = ''CRT_GATE6C3_IBKR_OBSERVATION_JOURNAL_V0.1''"
definition RECORD_SCHEMA_VERSION :: string where "RECORD_SCHEMA_VERSION = ''CRT_GATE6C3_IBKR_OBSERVATION_RECORD_V0.1''"
definition ZERO_HASH :: string where "ZERO_HASH = replicate 64 (CHR ''0'')"
definition ALLOWED_CHANNELS :: "string list" where "ALLOWED_CHANNELS = [''LAST'', ''BAR_5S_CLOSE'']"

definition journal_authority :: dict where
  "journal_authority = [(''action_output'', PStr ''NONE''), (''machine_execution'', PStr ''FORBIDDEN''),
     (''external_action_authority'', PStr ''NONE''), (''capital_decision_authority'', PStr ''USER_ONLY''),
     (''production'', PStr ''NOT_APPROVED'')]"

definition journal_price :: "pyval \<Rightarrow> pyfloat res" where
  "journal_price v =
     (if is_bool v \<or> \<not> is_num v then Inl (ValueError ''journal observed price must be positive'')
      else ebind (math_isfinite v) (\<lambda>fin.
        if \<not> fin \<or> num_le v (PInt 0) then Inl (ValueError ''journal observed price must be positive'')
        else float_of_num v))"

definition journal_timestamp :: "pyval \<Rightarrow> int res" where
  "journal_timestamp v =
     (case v of PInt i \<Rightarrow> if i \<le> 0 then Inl (ValueError ''journal observed_at_ms must be a positive integer'') else Inr i
      | _ \<Rightarrow> Inl (ValueError ''journal observed_at_ms must be a positive integer''))"

definition live_proof :: pyval where
  "live_proof = PDict (map (\<lambda>asset. (asset, PInt 1)) ASSET_ORDER)"

definition live_market_data_types :: "pyval \<Rightarrow> pyval res" where
  "live_market_data_types v =
     (case v of
       PDict d \<Rightarrow>
         if keys d \<noteq> ASSET_ORDER then Inl (ValueError ''journal market data type proof asset order mismatch'')
         else if list_ex (\<lambda>asset. \<not> py_eq (dget d asset) (PInt 1)) ASSET_ORDER
           then Inl (ValueError ''journal observation is not fully live'')
         else Inr live_proof
     | _ \<Rightarrow> Inl (ValueError ''journal market data type proof must be an object''))"

definition record_payload :: "string \<Rightarrow> string \<Rightarrow> int \<Rightarrow> pyval \<Rightarrow> pyval \<Rightarrow> pyfloat \<Rightarrow> int \<Rightarrow> pyval \<Rightarrow> dict" where
  "record_payload plan_sha asset n previous channel price observed types =
     [(''schema_version'', PStr RECORD_SCHEMA_VERSION), (''plan_sha'', PStr plan_sha), (''asset'', PStr asset),
      (''sequence'', PInt n), (''previous_hash'', previous), (''channel'', channel), (''price'', PFloat price),
      (''observed_at_ms'', PInt observed), (''market_data_types'', types)] @ journal_authority"

record journal_row =
  jr_sequence :: int
  jr_previous :: pyval
  jr_hash :: pyval
  jr_channel :: pyval
  jr_price :: pyval
  jr_observed :: pyval
  jr_types :: "pyval option"

record journal_file =
  jf_metadata :: "pyval list option"
  jf_rows :: "journal_row list"

record journal =
  jn_plan_sha :: string
  jn_asset :: string
  jn_file :: journal_file

section \<open>Validation\<close>

definition record_from_row :: "journal \<Rightarrow> journal_row \<Rightarrow> dict res" where
  "record_from_row j r =
     (if jr_sequence r \<le> 0 then Inl (ValueError ''IBKR observation journal sequence invalid'')
      else if \<not> is_len64 (jr_previous r) then Inl (ValueError ''IBKR observation journal previous hash invalid'')
      else if \<not> is_len64 (jr_hash r) then Inl (ValueError ''IBKR observation journal record hash invalid'')
      else if jr_channel r \<notin> PStr ` set ALLOWED_CHANNELS then Inl (ValueError ''IBKR observation journal channel invalid'')
      else (case jr_types r of
          None \<Rightarrow> Inl (ValueError ''IBKR observation journal LIVE proof invalid'')
        | Some types \<Rightarrow>
            ebind (journal_price (jr_price r)) (\<lambda>price.
            ebind (journal_timestamp (jr_observed r)) (\<lambda>observed.
            ebind (live_market_data_types types) (\<lambda>live.
            Inr (record_payload (jn_plan_sha j) (jn_asset j) (jr_sequence r) (jr_previous r) (jr_channel r) price observed live
              @ [(''record_hash'', jr_hash r)]))))))"

text \<open>The digest of a record is strict: a number that JSON cannot carry raises.\<close>

definition scan_journal_row :: "journal \<Rightarrow> journal_row \<Rightarrow> string \<times> int \<Rightarrow> (string \<times> int) res" where
  "scan_journal_row j r s =
     (case s of (previous, expected) \<Rightarrow>
       ebind (record_from_row j r) (\<lambda>rec.
       if dget rec ''sequence'' \<noteq> PInt expected then Inl (ValueError ''IBKR observation journal sequence gap'')
       else if dget rec ''previous_hash'' \<noteq> PStr previous then Inl (ValueError ''IBKR observation journal hash chain mismatch'')
       else ebind (canonical_hash_strict (PDict (dpop ''record_hash'' rec))) (\<lambda>h.
         if dget rec ''record_hash'' \<noteq> PStr h then Inl (ValueError ''IBKR observation journal record hash mismatch'')
         else Inr (h, expected + 1))))"

definition journal_validate :: "journal \<Rightarrow> unit res" where
  "journal_validate j = ebind (efold (scan_journal_row j) (jf_rows (jn_file j)) (ZERO_HASH, 1)) (\<lambda>_. Inr ())"

section \<open>Opening\<close>

text \<open>\<^verbatim>\<open>int(s, 16)\<close> of ASCII text: a sign, \<^verbatim>\<open>0x\<close>, hexadecimal digits with single underscores.\<close>

definition hex_digit :: "char \<Rightarrow> bool" where
  "hex_digit c \<longleftrightarrow> c \<in> set ''0123456789abcdefABCDEF''"

fun hex_tail :: "bool \<Rightarrow> string \<Rightarrow> bool" where
  "hex_tail seen [] \<longleftrightarrow> seen"
| "hex_tail seen (c # cs) \<longleftrightarrow>
     (if hex_digit c then hex_tail True cs else if c = CHR ''_'' \<and> seen then hex_tail False cs else False)"

definition unsigned_part :: "string \<Rightarrow> string" where
  "unsigned_part s = (case s of c # cs \<Rightarrow> if c = CHR ''-'' \<or> c = CHR ''+'' then cs else s | [] \<Rightarrow> [])"

definition reads_as_hex :: "string \<Rightarrow> bool" where
  "reads_as_hex s \<longleftrightarrow>
     (let u = unsigned_part (strip s) in
      if take 2 u = ''0x'' \<or> take 2 u = ''0X''
        then hex_tail False (if take 1 (drop 2 u) = ''_'' then drop 3 u else drop 2 u)
      else hex_tail False u)"

definition journal_metadata :: "string \<Rightarrow> string \<Rightarrow> pyval list" where
  "journal_metadata plan_sha asset =
     [PStr JOURNAL_SCHEMA_VERSION, PStr plan_sha, PStr asset] @ map snd journal_authority"

text \<open>The constructor: the identity checks, the schema with its metadata row, and the validation.\<close>

definition initialize_schema :: "string \<Rightarrow> string \<Rightarrow> journal_file \<Rightarrow> journal_file res" where
  "initialize_schema plan_sha asset f =
     (case jf_metadata f of
       None \<Rightarrow> Inr (f\<lparr>jf_metadata := Some (journal_metadata plan_sha asset)\<rparr>)
     | Some m \<Rightarrow> if py_eq_list m (journal_metadata plan_sha asset) then Inr f
         else Inl (ValueError ''IBKR observation journal metadata mismatch''))"

definition journal_open :: "pyval \<Rightarrow> pyval \<Rightarrow> journal_file \<Rightarrow> journal res \<times> journal_file" where
  "journal_open plan_sha asset f =
     (if \<not> is_len64 plan_sha \<or> \<not> reads_as_hex (str_of plan_sha)
        then (Inl (ValueError ''journal plan_sha must be a SHA-256 hex string''), f)
      else if asset \<notin> PStr ` set ASSET_ORDER then (Inl (ValueError (''journal asset unsupported:'' @ py_str asset)), f)
      else (case initialize_schema (str_of plan_sha) (str_of asset) f of
          Inl e \<Rightarrow> (Inl e, f)
        | Inr g \<Rightarrow>
            (let j = \<lparr>jn_plan_sha = str_of plan_sha, jn_asset = str_of asset, jn_file = g\<rparr>
             in (ebind (journal_validate j) (\<lambda>_. Inr j), g))))"

section \<open>Operations\<close>

definition journal_head :: "journal \<Rightarrow> int \<times> string" where
  "journal_head j = (let rows = jf_rows (jn_file j) in
     if rows = [] then (0, ZERO_HASH) else (jr_sequence (last rows), py_str (jr_hash (last rows))))"

definition hash_at :: "journal \<Rightarrow> pyval \<Rightarrow> string res" where
  "hash_at j n =
     (case n of
       PInt i \<Rightarrow>
         if i < 0 then Inl (ValueError ''journal checkpoint sequence invalid'')
         else if i = 0 then Inr ZERO_HASH
         else (case List.find (\<lambda>r. jr_sequence r = i) (jf_rows (jn_file j)) of
             None \<Rightarrow> Inl (ValueError ''journal checkpoint sequence unavailable'')
           | Some r \<Rightarrow> Inr (py_str (jr_hash r)))
     | _ \<Rightarrow> Inl (ValueError ''journal checkpoint sequence invalid''))"

text \<open>
  The insertion inside its transaction: a column wider than 64 bits cannot be bound and a digest
  already stored violates its uniqueness; both roll back.
\<close>

definition insert_row :: "journal \<Rightarrow> journal_row \<Rightarrow> journal res" where
  "insert_row j r =
     (if \<not> (jr_sequence r < 2 ^ 63 \<and> int_of (jr_observed r) < 2 ^ 63) then Inl OverflowError
      else if jr_hash r \<in> jr_hash ` set (jf_rows (jn_file j)) then Inl (Custom ''IntegrityError'' [])
      else Inr (j\<lparr>jn_file := (jn_file j)\<lparr>jf_rows := jf_rows (jn_file j) @ [r]\<rparr>\<rparr>))"

definition journal_append ::
  "journal \<Rightarrow> pyval \<Rightarrow> pyval \<Rightarrow> pyval \<Rightarrow> pyval \<Rightarrow> pyval \<Rightarrow> (dict \<times> journal) res" where
  "journal_append j asset channel price observed types =
     (if asset \<noteq> PStr (jn_asset j) then Inl (ValueError ''journal observation asset mismatch'')
      else ebind (in_strs channel ALLOWED_CHANNELS) (\<lambda>known.
      if \<not> known then Inl (ValueError ''journal observation channel unsupported'')
      else ebind (journal_price price) (\<lambda>p.
        ebind (journal_timestamp observed) (\<lambda>t.
        ebind (live_market_data_types types) (\<lambda>live.
        (let n = fst (journal_head j) + 1; previous = PStr (snd (journal_head j));
             payload = record_payload (jn_plan_sha j) (jn_asset j) n previous channel p t live
         in ebind (canonical_hash_strict (PDict payload)) (\<lambda>h.
            ebind (insert_row j \<lparr>jr_sequence = n, jr_previous = previous, jr_hash = PStr h, jr_channel = channel,
                jr_price = PFloat p, jr_observed = PInt t, jr_types = Some live\<rparr>) (\<lambda>j'.
            Inr (payload @ [(''record_hash'', PStr h)], j'))))))))) "

definition records_after :: "journal \<Rightarrow> pyval \<Rightarrow> dict list res" where
  "records_after j n =
     ebind (journal_validate j) (\<lambda>_.
     (case n of
       PInt i \<Rightarrow> if i < 0 then Inl (ValueError ''journal replay sequence invalid'')
         else emap (record_from_row j) (filter (\<lambda>r. i < jr_sequence r) (jf_rows (jn_file j)))
     | _ \<Rightarrow> Inl (ValueError ''journal replay sequence invalid'')))"

section \<open>The sink and the replay\<close>

record sink =
  sk_journal :: journal
  sk_bridge :: bridge
  sk_appended :: nat

fun obs_channel :: "bridge_obs \<Rightarrow> string" where
  "obs_channel (IbkrLast _ _ _ _) = ''LAST''"
| "obs_channel (IbkrClose _ _ _ _) = ''BAR_5S_CLOSE''"

fun obs_parts :: "bridge_obs \<Rightarrow> pyval \<times> pyval \<times> pyval" where
  "obs_parts (IbkrLast _ price observed types) = (price, observed, types)"
| "obs_parts (IbkrClose _ price observed types) = (price, observed, types)"

text \<open>What is committed before the bridge sees the observation.\<close>

definition commit_observation :: "journal \<Rightarrow> bridge_obs \<Rightarrow> (journal \<times> nat) res" where
  "commit_observation j ob =
     (if obs_asset ob \<noteq> PStr (jn_asset j) then Inr (j, 0)
      else (case obs_parts ob of (price, observed, types) \<Rightarrow>
        ebind (live_market_data_types types) (\<lambda>live.
        ebind (journal_append j (obs_asset ob) (PStr (obs_channel ob)) price observed live) (\<lambda>(_, j').
        Inr (j', 1)))))"

text \<open>The outcome, and the journal a process that dies leaves behind.\<close>

definition sink_forward :: "iso_parser \<Rightarrow> bridge_obs \<Rightarrow> sink \<Rightarrow> sink res \<times> journal" where
  "sink_forward fromiso ob s =
     (case commit_observation (sk_journal s) ob of
       Inl e \<Rightarrow> (Inl e, sk_journal s)
     | Inr (j, n) \<Rightarrow>
         (ebind (bridge_step fromiso ob (sk_bridge s)) (\<lambda>b.
            Inr \<lparr>sk_journal = j, sk_bridge = b, sk_appended = sk_appended s + n\<rparr>), j))"

fun sink_run :: "iso_parser \<Rightarrow> bridge_obs list \<Rightarrow> sink \<Rightarrow> sink res \<times> journal list" where
  "sink_run fromiso [] s = (Inr s, [])"
| "sink_run fromiso (ob # obs) s =
     (case sink_forward fromiso ob s of
       (Inl e, j) \<Rightarrow> (Inl e, [j])
     | (Inr t, j) \<Rightarrow> (case sink_run fromiso obs t of (r, js) \<Rightarrow> (r, j # js)))"

definition record_obs :: "dict \<Rightarrow> bridge_obs" where
  "record_obs rec =
     (if dget rec ''channel'' = PStr ''LAST''
      then IbkrLast (dget rec ''asset'') (dget rec ''price'') (dget rec ''observed_at_ms'') (dget rec ''market_data_types'')
      else IbkrClose (dget rec ''asset'') (dget rec ''price'') (dget rec ''observed_at_ms'') (dget rec ''market_data_types''))"

definition replay_observations :: "iso_parser \<Rightarrow> journal \<Rightarrow> pyval \<Rightarrow> bridge \<Rightarrow> (bridge \<times> nat) res" where
  "replay_observations fromiso j after b =
     ebind (records_after j after) (\<lambda>recs.
     ebind (efold (\<lambda>rec. bridge_step fromiso (record_obs rec)) recs b) (\<lambda>b'. Inr (b', length recs)))"

section \<open>What an append keeps\<close>

lemma ebind_Inr [simp]: "ebind m Inr = m"
  by (cases m) auto

lemma emap_append: "emap f (xs @ ys) = ebind (emap f xs) (\<lambda>us. ebind (emap f ys) (\<lambda>vs. Inr (us @ vs)))"
  by (induction xs) (auto simp: ebind_assoc intro!: ebind_cong)

lemma journal_price_iff: "journal_price v = Inr p \<longleftrightarrow> positive_price v field = Inr p"
  by (auto simp: journal_price_def positive_price_def ebind_Inr_iff split: if_splits)

lemma journal_price_pos: "journal_price v = Inr p \<Longrightarrow> pos_fin p"
  using journal_price_iff positive_price_pos by blast

lemma journal_price_PFloat: "pos_fin p \<Longrightarrow> journal_price (PFloat p) = Inr p"
  using journal_price_iff positive_price_PFloat by blast

lemma journal_timestamp_iff: "journal_timestamp v = Inr t \<longleftrightarrow> v = PInt t \<and> 0 < t"
  by (auto simp: journal_timestamp_def split: pyval.splits if_splits)

lemma journal_timestamp_PInt: "0 < t \<Longrightarrow> journal_timestamp (PInt t) = Inr t"
  by (simp add: journal_timestamp_iff)

lemma live_proof_live: "live_market_data_types live_proof = Inr live_proof"
  by (simp add: live_market_data_types_def live_proof_def ASSET_ORDER_def keys_def)

lemma live_market_data_types_Inr: "live_market_data_types v = Inr live \<Longrightarrow> live = live_proof"
  by (auto simp: live_market_data_types_def split: pyval.splits if_splits)

lemma live_types_asserted:
  "live_market_data_types v = Inr live \<Longrightarrow> assert_live_market_data_types v = Inr ()"
  "assert_live_market_data_types live_proof = Inr ()"
  by (auto simp: live_market_data_types_def assert_live_market_data_types_def live_proof_def ASSET_ORDER_def keys_def
      split: pyval.splits if_splits)

lemma is_len64_zero [simp]: "is_len64 (PStr ZERO_HASH)"
proof -
  have "str_len ZERO_HASH = length ZERO_HASH"
    by (rule str_len_hex) (simp add: ZERO_HASH_def list_all_iff is_hex_def)
  then show ?thesis by (simp add: is_len64_def ZERO_HASH_def)
qed

text \<open>A record, its stamp and its predecessor.\<close>

definition journal_body :: "dict \<Rightarrow> dict" where "journal_body rec = dpop ''record_hash'' rec"
definition journal_prev :: "dict \<Rightarrow> string" where "journal_prev rec = str_of (dget rec ''previous_hash'')"
definition journal_stamp :: "dict \<Rightarrow> string" where "journal_stamp rec = str_of (dget rec ''record_hash'')"
definition journal_digest :: "dict \<Rightarrow> string" where "journal_digest rec = canonical_hash (PDict (journal_body rec))"

interpretation journal: hash_chain journal_body journal_prev journal_stamp journal_digest
proof unfold_locales
  fix r r' assume "journal_body r = journal_body r'"
  then have "dget (journal_body r) ''previous_hash'' = dget (journal_body r') ''previous_hash''" by simp
  then show "journal_prev r = journal_prev r'" by (simp add: journal_body_def journal_prev_def)
qed

lemma record_payload_fields [simp]:
  "dget (record_payload s a n p c x t l @ e) ''sequence'' = PInt n"
  "dget (record_payload s a n p c x t l @ e) ''previous_hash'' = p"
  "dget (record_payload s a n p c x t l @ e) ''channel'' = c"
  "dget (record_payload s a n p c x t l @ e) ''asset'' = PStr a"
  "dget (record_payload s a n p c x t l @ e) ''price'' = PFloat x"
  "dget (record_payload s a n p c x t l @ e) ''observed_at_ms'' = PInt t"
  "dget (record_payload s a n p c x t l @ e) ''market_data_types'' = l"
  by (simp_all add: record_payload_def journal_authority_def)

lemma record_payload_hash [simp]:
  "dget (record_payload s a n p c x t l @ [(''record_hash'', h)]) ''record_hash'' = h"
  "dpop ''record_hash'' (record_payload s a n p c x t l @ [(''record_hash'', h)]) = record_payload s a n p c x t l"
  by (simp_all add: record_payload_def journal_authority_def dpop_def)

lemma all_finite_payload:
  assumes "pos_fin x" and "all_finite p" and "all_finite c"
  shows "all_finite (PDict (record_payload s a n p c x t live_proof))"
  using assms by (auto simp: record_payload_def journal_authority_def live_proof_def ASSET_ORDER_def pos_fin_iff)

lemma record_from_row_Inr:
  assumes "record_from_row j r = Inr rec"
  obtains x t where "rec = record_payload (jn_plan_sha j) (jn_asset j) (jr_sequence r) (jr_previous r) (jr_channel r) x t live_proof
      @ [(''record_hash'', jr_hash r)]" "pos_fin x" "journal_price (jr_price r) = Inr x" "jr_observed r = PInt t"
    "is_len64 (jr_previous r)" "is_len64 (jr_hash r)" "jr_channel r \<in> PStr ` set ALLOWED_CHANNELS"
  using assms live_market_data_types_Inr journal_price_pos
  by (auto simp: record_from_row_def ebind_Inr_iff journal_timestamp_iff split: if_splits option.splits)

lemma scan_journal_row_Inr:
  assumes "scan_journal_row j r (h, k) = Inr s"
  shows "\<exists>rec. record_from_row j r = Inr rec \<and> jr_sequence r = k \<and> jr_previous r = PStr h
    \<and> jr_hash r = PStr (fst s) \<and> fst s = journal_digest rec \<and> s = (fst s, k + 1)"
proof -
  from assms obtain rec d where rec: "record_from_row j r = Inr rec" and seq: "dget rec ''sequence'' = PInt k"
    and prev: "dget rec ''previous_hash'' = PStr h" and d: "canonical_hash_strict (PDict (dpop ''record_hash'' rec)) = Inr d"
    and hash: "dget rec ''record_hash'' = PStr d" and s: "s = (d, k + 1)"
    by (auto simp: scan_journal_row_def ebind_Inr_iff split: if_splits)
  from rec obtain x t where "rec = record_payload (jn_plan_sha j) (jn_asset j) (jr_sequence r) (jr_previous r) (jr_channel r) x t live_proof
      @ [(''record_hash'', jr_hash r)]" by (rule record_from_row_Inr)
  with rec seq prev d hash s show ?thesis
    by (simp add: journal_digest_def journal_body_def canonical_hash_strict_iff)
qed

text \<open>What a validated stretch of rows looks like.\<close>

lemma scan_journal:
  assumes "efold (scan_journal_row j) rows (h, k) = Inr s"
  shows "\<exists>recs. emap (record_from_row j) rows = Inr recs \<and> journal.chained h recs \<and> s = (journal.head h recs, k + int (length rows))
    \<and> (\<forall>i < length rows. jr_sequence (rows ! i) = k + int i)
    \<and> (rows \<noteq> [] \<longrightarrow> jr_hash (last rows) = PStr (fst s) \<and> jr_sequence (last rows) = snd s - 1)"
  using assms
proof (induction rows arbitrary: h k)
  case (Cons r rows)
  then obtain t where t: "scan_journal_row j r (h, k) = Inr t" and rest: "efold (scan_journal_row j) rows t = Inr s"
    by (auto simp: ebind_Inr_iff)
  from scan_journal_row_Inr [OF t] obtain rec where rec: "record_from_row j r = Inr rec" "jr_sequence r = k" "jr_previous r = PStr h"
    "jr_hash r = PStr (fst t)" "fst t = journal_digest rec" and tt: "t = (fst t, k + 1)" by blast
  from Cons.IH [of "fst t" "k + 1"] rest tt obtain recs where recs: "emap (record_from_row j) rows = Inr recs"
    "journal.chained (fst t) recs" "s = (journal.head (fst t) recs, k + 1 + int (length rows))"
    "\<forall>i < length rows. jr_sequence (rows ! i) = k + 1 + int i"
    "rows \<noteq> [] \<longrightarrow> jr_hash (last rows) = PStr (fst s) \<and> jr_sequence (last rows) = snd s - 1" by (metis (no_types, lifting))
  from rec(1) obtain x y where "rec = record_payload (jn_plan_sha j) (jn_asset j) (jr_sequence r) (jr_previous r) (jr_channel r) x y live_proof
      @ [(''record_hash'', jr_hash r)]" by (rule record_from_row_Inr)
  then have stamp: "journal_stamp rec = fst t" "journal_prev rec = h" using rec(3,4) by (simp_all add: journal_stamp_def journal_prev_def)
  have seqs: "\<forall>i < length (r # rows). jr_sequence ((r # rows) ! i) = k + int i"
    using recs(4) rec(2) by (auto simp: nth_Cons split: nat.split)
  have "rows = [] \<Longrightarrow> recs = []" using recs(1) by simp
  with rec recs seqs stamp show ?case
    by (intro exI [of _ "rec # recs"]) (auto simp: algebra_simps)
qed simp

lemma journal_validate_Inr:
  assumes "journal_validate j = Inr ()"
  obtains recs where "emap (record_from_row j) (jf_rows (jn_file j)) = Inr recs" "journal.chained ZERO_HASH recs"
    "efold (scan_journal_row j) (jf_rows (jn_file j)) (ZERO_HASH, 1) = Inr (journal.head ZERO_HASH recs, 1 + int (length recs))"
    "journal_head j = (int (length recs), journal.head ZERO_HASH recs)"
    "\<forall>i < length recs. jr_sequence (jf_rows (jn_file j) ! i) = 1 + int i" "length (jf_rows (jn_file j)) = length recs"
proof -
  let ?rows = "jf_rows (jn_file j)"
  from assms obtain s where s: "efold (scan_journal_row j) ?rows (ZERO_HASH, 1) = Inr s"
    by (auto simp: journal_validate_def ebind_Inr_iff)
  from scan_journal [OF s] obtain recs where recs: "emap (record_from_row j) ?rows = Inr recs" "journal.chained ZERO_HASH recs"
    "s = (journal.head ZERO_HASH recs, 1 + int (length ?rows))" "\<forall>i < length ?rows. jr_sequence (?rows ! i) = 1 + int i"
    "?rows \<noteq> [] \<longrightarrow> jr_hash (last ?rows) = PStr (fst s) \<and> jr_sequence (last ?rows) = snd s - 1" by blast
  have len: "length ?rows = length recs" using emap_length [OF recs(1)] by simp
  have "journal_head j = (int (length recs), journal.head ZERO_HASH recs)"
    using recs(3,5) len by (auto simp: journal_head_def Let_def)
  with recs(1-4) s len show ?thesis by (intro that) auto
qed

lemma record_from_row_file [simp]: "record_from_row (j\<lparr>jn_file := f\<rparr>) = record_from_row j"
  by (rule ext) (simp add: record_from_row_def split: option.split)

lemma record_from_row_same:
  "jn_plan_sha j = jn_plan_sha k \<Longrightarrow> jn_asset j = jn_asset k \<Longrightarrow> record_from_row j = record_from_row k"
  by (rule ext) (simp add: record_from_row_def split: option.split)

lemma scan_journal_row_file [simp]: "scan_journal_row (j\<lparr>jn_file := f\<rparr>) = scan_journal_row j"
  by (intro ext) (simp add: scan_journal_row_def)


text \<open>What an append commits: the next link of the chain.\<close>

lemma journal_append_Inr:
  assumes "journal_append j asset channel price observed types = Inr (rec, j')"
  obtains c p t h r where "asset = PStr (jn_asset j)" "channel = PStr c" "c \<in> set ALLOWED_CHANNELS"
    "journal_price price = Inr p" "journal_timestamp observed = Inr t" "live_market_data_types types = Inr live_proof"
    "rec = record_payload (jn_plan_sha j) (jn_asset j) (fst (journal_head j) + 1) (PStr (snd (journal_head j))) channel p t live_proof
        @ [(''record_hash'', PStr h)]"
    "h = canonical_hash (PDict (record_payload (jn_plan_sha j) (jn_asset j) (fst (journal_head j) + 1)
        (PStr (snd (journal_head j))) channel p t live_proof))"
    "r = \<lparr>jr_sequence = fst (journal_head j) + 1, jr_previous = PStr (snd (journal_head j)), jr_hash = PStr h,
        jr_channel = channel, jr_price = PFloat p, jr_observed = PInt t, jr_types = Some live_proof\<rparr>"
    "j' = j\<lparr>jn_file := (jn_file j)\<lparr>jf_rows := jf_rows (jn_file j) @ [r]\<rparr>\<rparr>"
  using assms live_market_data_types_Inr
  by (auto simp: journal_append_def ebind_Inr_iff Let_def in_strs_Inr_True canonical_hash_strict_iff insert_row_def
      split: if_splits)

lemma journaled_row:
  assumes "pos_fin p" and "0 < n" and "is_len64 previous" and "c \<in> set ALLOWED_CHANNELS" and "0 < t"
  shows "record_from_row j \<lparr>jr_sequence = n, jr_previous = previous, jr_hash = PStr (canonical_hash v), jr_channel = PStr c,
      jr_price = PFloat p, jr_observed = PInt t, jr_types = Some live_proof\<rparr>
    = Inr (record_payload (jn_plan_sha j) (jn_asset j) n previous (PStr c) p t live_proof @ [(''record_hash'', PStr (canonical_hash v))])"
  using assms by (simp add: record_from_row_def journal_price_PFloat journal_timestamp_PInt live_proof_live is_len64_hash)

lemma head_len64:
  assumes "journal_validate j = Inr ()"
  shows "0 \<le> fst (journal_head j)" and "is_len64 (PStr (snd (journal_head j)))"
proof -
  let ?rows = "jf_rows (jn_file j)"
  from assms obtain recs where recs: "emap (record_from_row j) ?rows = Inr recs" "journal_head j = (int (length recs), journal.head ZERO_HASH recs)"
    by (rule journal_validate_Inr)
  then show "0 \<le> fst (journal_head j)" by simp
  show "is_len64 (PStr (snd (journal_head j)))"
  proof (cases "?rows = []")
    case False
    then have i: "length ?rows - 1 < length ?rows" by simp
    from emap_Inr_nth [OF recs(1) i] have "is_len64 (jr_hash (last ?rows))"
      using False by (auto simp: last_conv_nth elim: record_from_row_Inr)
    with False show ?thesis by (auto simp: journal_head_def is_len64_def is_str_iff)
  qed (simp add: journal_head_def)
qed

text \<open>A validated journal stays valid under an append, which adds exactly the record it returns.\<close>

lemma append_extends:
  assumes "journal_validate j = Inr ()" and "journal_append j asset channel price observed types = Inr (rec, j')"
  shows "journal_validate j' = Inr () \<and> (\<exists>r. jf_rows (jn_file j') = jf_rows (jn_file j) @ [r] \<and> record_from_row j r = Inr rec
    \<and> jr_sequence r = int (length (jf_rows (jn_file j))) + 1)
    \<and> jn_plan_sha j' = jn_plan_sha j \<and> jn_asset j' = jn_asset j \<and> jf_metadata (jn_file j') = jf_metadata (jn_file j)"
proof -
  from assms(2) obtain c p t h r where parts: "channel = PStr c" "c \<in> set ALLOWED_CHANNELS"
    "journal_price price = Inr p" "journal_timestamp observed = Inr t" and
    rec: "rec = record_payload (jn_plan_sha j) (jn_asset j) (fst (journal_head j) + 1) (PStr (snd (journal_head j))) channel p t live_proof
        @ [(''record_hash'', PStr h)]" and
    h: "h = canonical_hash (PDict (record_payload (jn_plan_sha j) (jn_asset j) (fst (journal_head j) + 1)
        (PStr (snd (journal_head j))) channel p t live_proof))" and
    r: "r = \<lparr>jr_sequence = fst (journal_head j) + 1, jr_previous = PStr (snd (journal_head j)), jr_hash = PStr h,
        jr_channel = channel, jr_price = PFloat p, jr_observed = PInt t, jr_types = Some live_proof\<rparr>" and
    j': "j' = j\<lparr>jn_file := (jn_file j)\<lparr>jf_rows := jf_rows (jn_file j) @ [r]\<rparr>\<rparr>"
    by (rule journal_append_Inr)
  have p: "pos_fin p" and t: "0 < t" using parts(3,4) by (auto simp: journal_price_pos journal_timestamp_iff)
  note hl = head_len64 [OF assms(1)]
  have row: "record_from_row j r = Inr rec"
    unfolding r rec h parts(1) using p t hl parts(2) by (intro journaled_row) auto
  from assms(1) obtain recs where scan: "efold (scan_journal_row j) (jf_rows (jn_file j)) (ZERO_HASH, 1)
      = Inr (journal.head ZERO_HASH recs, 1 + int (length recs))"
    and hd: "journal_head j = (int (length recs), journal.head ZERO_HASH recs)"
    and len: "length (jf_rows (jn_file j)) = length recs" by (rule journal_validate_Inr)
  have fin: "canonical_hash_strict (PDict (dpop ''record_hash'' rec)) = Inr h"
    unfolding rec h canonical_hash_strict_iff record_payload_hash
    using all_finite_payload [OF p, of "PStr (snd (journal_head j))" channel] parts(1) by simp
  have "scan_journal_row j r (journal.head ZERO_HASH recs, 1 + int (length recs)) = Inr (h, 2 + int (length recs))"
    unfolding scan_journal_row_def using row fin hd by (simp add: rec)
  then have "journal_validate j' = Inr ()"
    by (simp add: journal_validate_def j' efold_append scan)
  then show ?thesis using row hd len by (auto simp: j' r)
qed


section \<open>Replay\<close>

text \<open>Two bridges over the same plan with the same engines.\<close>

definition same_gate :: "bridge \<Rightarrow> bridge \<Rightarrow> bool" where
  "same_gate b c \<longleftrightarrow> ad_plan (br_adapter b) = ad_plan (br_adapter c) \<and> ad_mode (br_adapter b) = ad_mode (br_adapter c)
     \<and> ad_engines (br_adapter b) = ad_engines (br_adapter c)"

lemma dispatch_same:
  assumes "dispatch_to_engines a ch p t cf = Inr a'"
    and "ad_plan a = ad_plan c" and "ad_mode a = ad_mode c" and "ad_engines a = ad_engines c"
  shows "\<exists>ev. ad_events a' = ad_events a @ ev
    \<and> dispatch_to_engines c ch p t cf = Inr (c\<lparr>ad_engines := ad_engines a', ad_events := ad_events c @ ev\<rparr>)
    \<and> ad_plan a' = ad_plan a \<and> ad_mode a' = ad_mode a"
  using assms by (auto simp: dispatch_to_engines_def ebind_Inr_iff)

lemma check_observation_same: "ad_mode a = ad_mode c \<Longrightarrow> check_observation fromiso c price ts m = check_observation fromiso a price ts m"
  by (simp add: check_observation_def)

lemma live_step_same:
  assumes "(if confirm then on_live_5s_close fromiso a price ts else on_live_last fromiso a price ts) = Inr a'"
    and "ad_plan a = ad_plan c" and "ad_mode a = ad_mode c" and "ad_engines a = ad_engines c"
  obtains ev where "ad_events a' = ad_events a @ ev" "ad_plan a' = ad_plan a" "ad_mode a' = ad_mode a"
    "(if confirm then on_live_5s_close fromiso c price ts else on_live_last fromiso c price ts)
       = Inr (c\<lparr>ad_engines := ad_engines a', ad_events := ad_events c @ ev\<rparr>)"
proof -
  define ch where "ch = (if confirm then ''IBKR_5S_CLOSE'' else ''IBKR_LAST'')"
  have "\<exists>p t. check_observation fromiso a price ts IBKR_LIVE = Inr (p, t) \<and> dispatch_to_engines a ch p t confirm = Inr a'"
    using assms(1) by (auto simp: on_live_last_def on_live_5s_close_def ebind_Inr_iff ch_def split: if_splits)
  then obtain p t where chk: "check_observation fromiso a price ts IBKR_LIVE = Inr (p, t)"
    and d: "dispatch_to_engines a ch p t confirm = Inr a'" by blast
  from dispatch_same [OF d assms(2-4)] obtain ev where "ad_events a' = ad_events a @ ev" "ad_plan a' = ad_plan a" "ad_mode a' = ad_mode a"
    and e: "dispatch_to_engines c ch p t confirm = Inr (c\<lparr>ad_engines := ad_engines a', ad_events := ad_events c @ ev\<rparr>)" by blast
  then show ?thesis
    using chk check_observation_same [OF assms(3), of fromiso price ts]
    by (intro that) (auto simp: on_live_last_def on_live_5s_close_def ch_def)
qed

lemma bridge_step_same:
  assumes "bridge_step fromiso ob b = Inr b'" and "same_gate b c"
  shows "\<exists>c' ev. bridge_step fromiso ob c = Inr c' \<and> same_gate b' c'
    \<and> ad_events (br_adapter b') = ad_events (br_adapter b) @ ev \<and> ad_events (br_adapter c') = ad_events (br_adapter c) @ ev
    \<and> ad_plan (br_adapter b') = ad_plan (br_adapter b)"
proof -
  let ?a = "br_adapter b" and ?c = "br_adapter c"
  have gate: "ad_plan ?a = ad_plan ?c" "ad_mode ?a = ad_mode ?c" "ad_engines ?a = ad_engines ?c"
    using assms(2) by (simp_all add: same_gate_def)
  obtain asset price observed types where ob: "ob = IbkrLast asset price observed types \<or> ob = IbkrClose asset price observed types"
    by (cases ob) auto
  show ?thesis
  proof (cases "py_eq asset (dget (ad_plan ?a) ''asset'')")
    case False
    with assms ob gate(1) show ?thesis
      by (auto simp: on_ibkr_last_def on_ibkr_5s_close_def ebind_Inr_iff same_gate_def)
  next
    case True
    define confirm where "confirm \<longleftrightarrow> ob = IbkrClose asset price observed types"
    from assms(1) ob True obtain t a' where m: "assert_live_market_data_types types = Inr ()" and t: "utc_from_ms observed = Inr t"
      and step: "(if confirm then on_live_5s_close fromiso ?a price (TsTime (Aware t)) else on_live_last fromiso ?a price (TsTime (Aware t))) = Inr a'"
      and b': "br_adapter b' = a'"
      by (auto simp: on_ibkr_last_def on_ibkr_5s_close_def ebind_Inr_iff confirm_def)
    from live_step_same [OF step gate] obtain ev where ev: "ad_events a' = ad_events ?a @ ev" "ad_plan a' = ad_plan ?a" "ad_mode a' = ad_mode ?a"
      "(if confirm then on_live_5s_close fromiso ?c price (TsTime (Aware t)) else on_live_last fromiso ?c price (TsTime (Aware t)))
       = Inr (?c\<lparr>ad_engines := ad_engines a', ad_events := ad_events ?c @ ev\<rparr>)" by metis
    with ob True m t gate b' show ?thesis
      by (auto simp: on_ibkr_last_def on_ibkr_5s_close_def same_gate_def confirm_def)
  qed
qed

lemma bridge_step_other_asset:
  assumes "bridge_step fromiso ob b = Inr b'" and "obs_asset ob \<noteq> PStr s" and "dget (ad_plan (br_adapter b)) ''asset'' = PStr s"
  shows "br_adapter b' = br_adapter b"
  using assms by (cases ob) (auto simp: on_ibkr_last_def on_ibkr_5s_close_def ebind_Inr_iff)

text \<open>The recorded observation drives a bridge exactly as the one received.\<close>

lemma live_price_same:
  assumes "positive_price price ''observed_price'' = Inr p"
  shows "on_live_last fromiso a (PFloat p) ts = on_live_last fromiso a price ts"
    and "on_live_5s_close fromiso a (PFloat p) ts = on_live_5s_close fromiso a price ts"
  using assms positive_price_PFloat [OF positive_price_pos [OF assms]]
  by (simp_all add: on_live_last_def on_live_5s_close_def check_observation_def)

lemma record_obs_same:
  assumes "obs_parts ob = (price, PInt t, types)" and "journal_price price = Inr p" and "live_market_data_types types = Inr live"
    and "obs_asset ob = PStr s"
  shows "bridge_step fromiso (record_obs (record_payload sha s n prev (PStr (obs_channel ob)) p t live_proof @ e)) b
    = bridge_step fromiso ob b"
proof -
  have pp: "positive_price price ''observed_price'' = Inr p" using assms(2) journal_price_iff by blast
  show ?thesis
    using assms live_types_asserted(1) [OF assms(3)] live_types_asserted(2) live_price_same [OF pp]
    by (cases ob) (simp_all add: record_obs_def on_ibkr_last_def on_ibkr_5s_close_def)
qed

lemma commit_observation_Inr:
  assumes "commit_observation j ob = Inr (j', n)" and "journal_validate j = Inr ()"
  shows "journal_validate j' = Inr () \<and> jn_plan_sha j' = jn_plan_sha j \<and> jn_asset j' = jn_asset j
    \<and> jf_metadata (jn_file j') = jf_metadata (jn_file j)
    \<and> (obs_asset ob \<noteq> PStr (jn_asset j) \<and> j' = j \<and> n = 0
      \<or> (\<exists>r rec. obs_asset ob = PStr (jn_asset j) \<and> n = 1 \<and> jf_rows (jn_file j') = jf_rows (jn_file j) @ [r]
          \<and> record_from_row j r = Inr rec \<and> (\<forall>fromiso b. bridge_step fromiso (record_obs rec) b = bridge_step fromiso ob b)))"
proof (cases "obs_asset ob = PStr (jn_asset j)")
  case True
  with assms(1) obtain price observed types live rec where parts: "obs_parts ob = (price, observed, types)"
    and live: "live_market_data_types types = Inr live" and n: "n = 1"
    and app: "journal_append j (obs_asset ob) (PStr (obs_channel ob)) price observed live = Inr (rec, j')"
    by (auto simp: commit_observation_def ebind_Inr_iff split: prod.splits)
  from app obtain p t h where jp: "journal_price price = Inr p" and jt: "journal_timestamp observed = Inr t" and
    rec: "rec = record_payload (jn_plan_sha j) (jn_asset j) (fst (journal_head j) + 1) (PStr (snd (journal_head j)))
        (PStr (obs_channel ob)) p t live_proof @ [(''record_hash'', PStr h)]"
    by (rule journal_append_Inr) blast
  have obs: "observed = PInt t" using jt by (simp add: journal_timestamp_iff)
  have same: "\<forall>fromiso b. bridge_step fromiso (record_obs rec) b = bridge_step fromiso ob b"
    unfolding rec using record_obs_same [OF parts [unfolded obs] jp live True] by blast
  from append_extends [OF assms(2) app] obtain r where "journal_validate j' = Inr ()"
    "jf_rows (jn_file j') = jf_rows (jn_file j) @ [r]" "record_from_row j r = Inr rec"
    "jn_plan_sha j' = jn_plan_sha j" "jn_asset j' = jn_asset j" "jf_metadata (jn_file j') = jf_metadata (jn_file j)" by blast
  with True n same show ?thesis by auto
qed (use assms in \<open>simp add: commit_observation_def\<close>)

lemma sink_forward_Inr:
  assumes "sink_forward fromiso ob s = (Inr t, j)"
  shows "j = sk_journal t \<and> bridge_step fromiso ob (sk_bridge s) = Inr (sk_bridge t)
    \<and> (\<exists>n. commit_observation (sk_journal s) ob = Inr (sk_journal t, n))"
proof -
  from assms obtain n b where "commit_observation (sk_journal s) ob = Inr (j, n)" "bridge_step fromiso ob (sk_bridge s) = Inr b"
    "t = \<lparr>sk_journal = j, sk_bridge = b, sk_appended = sk_appended s + n\<rparr>"
    by (auto simp: sink_forward_def ebind_Inr_iff split: prod.splits sum.splits)
  then show ?thesis by simp
qed

lemma sink_run_replays:
  assumes "sink_run fromiso obs s = (Inr s', js)" and "journal_validate (sk_journal s) = Inr ()"
    and "dget (ad_plan (br_adapter (sk_bridge s))) ''asset'' = PStr (jn_asset (sk_journal s))" and "same_gate (sk_bridge s) c"
  shows "\<exists>rows recs c' ev. journal_validate (sk_journal s') = Inr ()
    \<and> jn_plan_sha (sk_journal s') = jn_plan_sha (sk_journal s) \<and> jn_asset (sk_journal s') = jn_asset (sk_journal s)
    \<and> jf_metadata (jn_file (sk_journal s')) = jf_metadata (jn_file (sk_journal s))
    \<and> jf_rows (jn_file (sk_journal s')) = jf_rows (jn_file (sk_journal s)) @ rows
    \<and> emap (record_from_row (sk_journal s)) rows = Inr recs
    \<and> efold (\<lambda>rec. bridge_step fromiso (record_obs rec)) recs c = Inr c' \<and> same_gate (sk_bridge s') c'
    \<and> ad_events (br_adapter (sk_bridge s')) = ad_events (br_adapter (sk_bridge s)) @ ev
    \<and> ad_events (br_adapter c') = ad_events (br_adapter c) @ ev"
  using assms
proof (induction obs arbitrary: s c js)
  case (Cons ob obs)
  let ?j = "sk_journal s" and ?b = "sk_bridge s"
  from Cons.prems(1) obtain t js' where fwd: "sink_forward fromiso ob s = (Inr t, sk_journal t)"
    and rest: "sink_run fromiso obs t = (Inr s', js')"
    by (auto simp: sink_forward_def ebind_Inr_iff split: prod.splits sum.splits)
  from sink_forward_Inr [OF fwd] obtain n where commit: "commit_observation ?j ob = Inr (sk_journal t, n)"
    and step: "bridge_step fromiso ob ?b = Inr (sk_bridge t)" by blast
  note c = commit_observation_Inr [OF commit Cons.prems(2)]
  from bridge_step_same [OF step Cons.prems(4)] obtain c1 ev where one: "bridge_step fromiso ob c = Inr c1"
    "same_gate (sk_bridge t) c1" "ad_events (br_adapter (sk_bridge t)) = ad_events (br_adapter ?b) @ ev"
    "ad_events (br_adapter c1) = ad_events (br_adapter c) @ ev" "ad_plan (br_adapter (sk_bridge t)) = ad_plan (br_adapter ?b)" by blast
  have plan: "dget (ad_plan (br_adapter (sk_bridge t))) ''asset'' = PStr (jn_asset (sk_journal t))"
    using Cons.prems(3) one(5) c by simp
  have row: "record_from_row (sk_journal t) = record_from_row ?j" using c by (intro record_from_row_same) simp_all
  show ?case
  proof (cases "obs_asset ob = PStr (jn_asset ?j)")
    case True
    with c obtain r rec where r: "jf_rows (jn_file (sk_journal t)) = jf_rows (jn_file ?j) @ [r]" "record_from_row ?j r = Inr rec"
      "\<And>b. bridge_step fromiso (record_obs rec) b = bridge_step fromiso ob b" by blast
    from Cons.IH [OF rest _ plan one(2)] c obtain rows recs c' ev' where ih: "journal_validate (sk_journal s') = Inr ()"
      "jn_plan_sha (sk_journal s') = jn_plan_sha ?j" "jn_asset (sk_journal s') = jn_asset ?j"
      "jf_metadata (jn_file (sk_journal s')) = jf_metadata (jn_file ?j)"
      "jf_rows (jn_file (sk_journal s')) = jf_rows (jn_file (sk_journal t)) @ rows" "emap (record_from_row ?j) rows = Inr recs"
      "efold (\<lambda>rec. bridge_step fromiso (record_obs rec)) recs c1 = Inr c'" "same_gate (sk_bridge s') c'"
      "ad_events (br_adapter (sk_bridge s')) = ad_events (br_adapter (sk_bridge t)) @ ev'"
      "ad_events (br_adapter c') = ad_events (br_adapter c1) @ ev'" by (metis row)
    with r one show ?thesis by (intro exI [of _ "r # rows"] exI [of _ "rec # recs"] exI [of _ c'] exI [of _ "ev @ ev'"]) simp
  next
    case False
    with c have same: "sk_journal t = ?j" by blast
    from bridge_step_other_asset [OF step False Cons.prems(3)] have "br_adapter (sk_bridge t) = br_adapter ?b" .
    then have gate: "same_gate (sk_bridge t) c" and evs: "ad_events (br_adapter (sk_bridge t)) = ad_events (br_adapter ?b)"
      using Cons.prems(4) by (simp_all add: same_gate_def)
    from Cons.IH [OF rest _ plan gate] Cons.prems(2) show ?thesis unfolding same evs by simp
  qed
qed (force simp: same_gate_def)


section \<open>Restart\<close>

text \<open>A checkpoint that went through a JSON file restores like the one written.\<close>

lemma restore_state_ext:
  assumes "set (keys p) = set (keys q)" and "\<And>k. dget p k = dget q k"
  shows "restore_state e (PDict p) = restore_state e (PDict q)"
proof -
  have d: "dget p = dget q" by (rule ext) (rule assms(2))
  show ?thesis unfolding restore_state_def check_identity_def identity_mismatch_def pyval.case d assms(1) ..
qed

lemma restore_gate6a_state_ext:
  assumes "set (keys p) = set (keys q)" and "\<And>k. k \<noteq> ''lines'' \<Longrightarrow> dget p k = dget q k"
    and "dget p ''lines'' = PDict ls" and "dget q ''lines'' = PDict ms" and "set (keys ls) = set (keys ms)"
    and "\<And>e k. restore_state e (dget ls k) = restore_state e (dget ms k)"
  shows "restore_gate6a_state a (PDict p) = restore_gate6a_state a (PDict q)"
  using assms by (simp add: restore_gate6a_state_def)

lemma keys_reload: "set (keys (reload_dict d)) = set (keys d)"
  using dhas_reload by (auto simp: set_keys)

lemma reload_floats [simp]: "reload_list (map PFloat xs) = map PFloat xs"
  by (induction xs) auto

lemma dget_snapshot_reload: "dget (reload_dict (snapshot_state e)) k = dget (snapshot_state e) k"
  by (simp add: snapshot_state_def opt_float_def split: option.split)

lemma restore_state_reload:
  "restore_state e (json_reload (PDict (snapshot_state e'))) = restore_state e (PDict (snapshot_state e'))"
proof -
  have "json_reload (PDict (snapshot_state e')) = PDict (reload_dict (snapshot_state e'))" by (simp add: reload_dict_def)
  then show ?thesis using restore_state_ext [OF keys_reload dget_snapshot_reload] by metis
qed

lemma dget_snapshots_reload:
  "restore_state e (json_reload (dget (map (\<lambda>(line, e'). (f line, PDict (snapshot_state e'))) les) k))
    = restore_state e (dget (map (\<lambda>(line, e'). (f line, PDict (snapshot_state e'))) les) k)"
  by (induction les) (auto simp: restore_state_reload simp del: json_reload.simps(2))

lemma restore_checkpoint_reload:
  assumes "is_str (dget (ad_plan a) ''plan_sha'')" and "is_str (dget (ad_plan a) ''asset'')"
  shows "restore_gate6a_state b (json_reload (PDict (gate6a_state a))) = restore_gate6a_state b (PDict (gate6a_state a))"
proof -
  let ?ls = "map (\<lambda>(line, e). (str_of (dget line ''line_id''), PDict (snapshot_state e))) (zip (plan_lines (ad_plan a)) (ad_engines a))"
  have r: "json_reload (PDict (gate6a_state a)) = PDict (reload_dict (gate6a_state a))" by (simp add: reload_dict_def)
  show ?thesis
    unfolding r
  proof (rule restore_gate6a_state_ext [OF keys_reload])
    show "dget (reload_dict (gate6a_state a)) ''lines'' = PDict (reload_dict ?ls)"
      by (simp add: gate6a_state_def reload_dict_def)
    show "dget (gate6a_state a) ''lines'' = PDict ?ls" by (simp add: gate6a_state_def)
    show "dget (reload_dict (gate6a_state a)) k = dget (gate6a_state a) k" if "k \<noteq> ''lines''" for k
      using assms that by (auto simp: gate6a_state_def is_str_iff)
    show "set (keys (reload_dict ?ls)) = set (keys ?ls)" by (rule keys_reload)
    show "restore_state e (dget (reload_dict ?ls) k) = restore_state e (dget ?ls k)" for e k
      using dget_snapshots_reload by simp
  qed
qed

lemma bridge_arm_None:
  assumes "validate_commander_plan fromiso (PDict plan) sha now = Inr []"
  obtains a where "bridge_arm fromiso (PDict plan) sha now None
      = Inr \<lparr>br_adapter = a, br_last_count = 0, br_close_count = 0, br_ignored_count = 0\<rparr>"
    "adapter_locked plan IBKR_LIVE a" "ad_events a = []"
    "\<And>g. bridge_arm fromiso (PDict plan) sha now (Some g) = ebind (restore_gate6a_state a g) bridge_init"
proof -
  from arm_live_builds_four_engines [OF assms] obtain a where a: "arm_live fromiso (PDict plan) sha now None = Inr a" by blast
  then have lock: "adapter_locked plan IBKR_LIVE a" and none: "ad_events a = []"
    using adapter_init_locked [OF a [unfolded arm_live_def]] by auto
  then have m: "ad_mode a = IBKR_LIVE" by (simp add: adapter_locked_def)
  have "adapter_init fromiso (PDict plan) sha now IBKR_LIVE (Some g) = restore_gate6a_state a g" for g
    using a by (simp add: arm_live_def adapter_init_def assms IBKR_LIVE_def TEST_ONLY_def ebind_Inr_iff Let_def) auto
  with a lock none m show ?thesis
    by (intro that) (auto simp: bridge_arm_def arm_live_def bridge_init_def)
qed


lemma sink_run_locked:
  assumes "sink_run fromiso obs s = (Inr s', js)" and "bridge_inv plan (sk_bridge s)"
  shows "bridge_inv plan (sk_bridge s')"
  using assms
proof (induction obs arbitrary: s js)
  case (Cons ob obs)
  then obtain t j js' where fwd: "sink_forward fromiso ob s = (Inr t, j)" and rest: "sink_run fromiso obs t = (Inr s', js')"
    by (auto split: prod.splits sum.splits)
  from sink_forward_Inr [OF fwd] Cons.prems(2) have "bridge_inv plan (sk_bridge t)" using bridge_run.step_inv by blast
  with Cons.IH rest show ?case by blast
qed simp

lemma bridge_arm_locked:
  assumes "bridge_arm fromiso (PDict plan) sha now gate6a = Inr b"
  shows "bridge_inv plan b" and "ad_events (br_adapter b) = []" and "plan_ok fromiso sha now plan"
proof -
  from assms obtain a where "adapter_init fromiso (PDict plan) sha now IBKR_LIVE gate6a = Inr a"
    and b: "b = \<lparr>br_adapter = a, br_last_count = 0, br_close_count = 0, br_ignored_count = 0\<rparr>"
    by (auto simp: bridge_arm_def arm_live_def bridge_init_def ebind_Inr_iff split: if_splits)
  from adapter_init_locked [OF this(1)] show "bridge_inv plan b" "ad_events (br_adapter b) = []" "plan_ok fromiso sha now plan"
    by (auto simp: b bridge_inv_def)
qed

lemma journal_open_Inr:
  assumes "journal_open plan_sha asset f = (Inr j, g)"
  shows "plan_sha = PStr (jn_plan_sha j) \<and> asset = PStr (jn_asset j) \<and> jn_file j = g \<and> journal_validate j = Inr ()
    \<and> (\<exists>m. jf_metadata g = Some m \<and> py_eq_list m (journal_metadata (jn_plan_sha j) (jn_asset j)))
    \<and> is_len64 plan_sha \<and> reads_as_hex (jn_plan_sha j) \<and> jn_asset j \<in> set ASSET_ORDER"
proof -
  from assms have guard: "is_len64 plan_sha" "reads_as_hex (str_of plan_sha)" "asset \<in> PStr ` set ASSET_ORDER"
    by (simp_all add: journal_open_def split: if_splits)
  then obtain s a where sa: "plan_sha = PStr s" "asset = PStr a" "a \<in> set ASSET_ORDER" by (auto simp: is_len64_def is_str_iff)
  from assms guard sa have "initialize_schema s a f = Inr g" "j = \<lparr>jn_plan_sha = s, jn_asset = a, jn_file = g\<rparr>" "journal_validate j = Inr ()"
    by (auto simp: journal_open_def Let_def ebind_Inr_iff split: sum.splits)
  moreover have "py_eq_list (journal_metadata s a) (journal_metadata s a)"
    by (simp add: journal_metadata_def journal_authority_def)
  ultimately show ?thesis using guard sa by (auto simp: initialize_schema_def split: option.splits if_splits)
qed

lemma journal_reopen:
  assumes "journal_open plan_sha asset f = (Inr j0, f0)" and "journal_validate j = Inr ()"
    and "jn_plan_sha j = jn_plan_sha j0" and "jn_asset j = jn_asset j0" and "jf_metadata (jn_file j) = jf_metadata (jn_file j0)"
  shows "journal_open plan_sha asset (jn_file j) = (Inr j, jn_file j)"
proof -
  note o = journal_open_Inr [OF assms(1)]
  have sha: "plan_sha = PStr (jn_plan_sha j)" and asset: "asset = PStr (jn_asset j)" using o assms(3,4) by simp_all
  have known: "asset \<in> PStr ` set ASSET_ORDER" using o by blast
  have init: "initialize_schema (jn_plan_sha j) (jn_asset j) (jn_file j) = Inr (jn_file j)"
    using o assms(3-5) by (auto simp: initialize_schema_def)
  have j: "\<lparr>jn_plan_sha = jn_plan_sha j, jn_asset = jn_asset j, jn_file = jn_file j\<rparr> = j" by (cases j) simp
  have guard: "is_len64 plan_sha" "reads_as_hex (jn_plan_sha j)" using o assms(3) by metis+
  show ?thesis
    unfolding journal_open_def using guard known init assms(2) by (simp add: sha asset j Let_def)
qed

lemma records_after_suffix:
  assumes "journal_validate j = Inr ()" and "jf_rows (jn_file j) = before @ rows" and "emap (record_from_row j) rows = Inr recs"
  shows "records_after j (PInt (int (length before))) = Inr recs"
proof -
  let ?all = "jf_rows (jn_file j)"
  from assms(1) obtain recs' :: "dict list" where seq: "\<forall>i < length recs'. jr_sequence (?all ! i) = 1 + int i" "length ?all = length recs'"
    by (rule journal_validate_Inr)
  have "filter (\<lambda>r. int (length before) < jr_sequence r) before = []"
    unfolding filter_empty_conv
  proof
    fix r assume "r \<in> set before"
    then obtain i where "i < length before" "r = before ! i" by (auto simp: in_set_conv_nth)
    then show "\<not> int (length before) < jr_sequence r" using seq(1) [rule_format, of i] seq(2) assms(2) by (simp add: nth_append)
  qed
  moreover have "filter (\<lambda>r. int (length before) < jr_sequence r) rows = rows"
  proof (rule filter_True, rule ballI)
    fix r assume "r \<in> set rows"
    then obtain i where "i < length rows" "r = rows ! i" by (auto simp: in_set_conv_nth)
    then show "int (length before) < jr_sequence r" using seq(1) [rule_format, of "length before + i"] seq(2) assms(2) by (simp add: nth_append)
  qed
  ultimately show ?thesis using assms by (simp add: records_after_def)
qed

text \<open>C32: a restart loses nothing and invents nothing: when a process dies after observations that
  followed its last checkpoint, then reopening its journal, re-arming the plan with that checkpoint
  (read back from its JSON file) and replaying the journal from the checkpoint's position gives
  engines equal to those that died, and exactly the events they had emitted since the checkpoint.\<close>

theorem restart_resumes_exactly:
  assumes "bridge_arm fromiso (PDict plan) sha now gate6a = Inr b0"
    and "journal_open (dget plan ''plan_sha'') (dget plan ''asset'') f = (Inr j0, f0)"
    and "sink_run fromiso obs1 \<lparr>sk_journal = j0, sk_bridge = b0, sk_appended = 0\<rparr> = (Inr s1, js1)"
    and "sink_run fromiso obs2 s1 = (Inr s2, js2)"
    and "validate_commander_plan fromiso (PDict plan) sha' now' = Inr []"
  shows "\<exists>c0 c n. bridge_arm fromiso (PDict plan) sha' now' (Some (json_reload (PDict (gate6a_state (br_adapter (sk_bridge s1)))))) = Inr c0
    \<and> journal_open (dget plan ''plan_sha'') (dget plan ''asset'') (jn_file (sk_journal s2)) = (Inr (sk_journal s2), jn_file (sk_journal s2))
    \<and> replay_observations fromiso (sk_journal s2) (PInt (fst (journal_head (sk_journal s1)))) c0 = Inr (c, n)
    \<and> ad_engines (br_adapter c) = ad_engines (br_adapter (sk_bridge s2))
    \<and> ad_events (br_adapter (sk_bridge s2)) = ad_events (br_adapter (sk_bridge s1)) @ ad_events (br_adapter c)"
proof -
  let ?s0 = "\<lparr>sk_journal = j0, sk_bridge = b0, sk_appended = 0\<rparr>" and ?b1 = "sk_bridge s1" and ?j1 = "sk_journal s1"
  note o = journal_open_Inr [OF assms(2)]
  have i0: "bridge_inv plan b0" by (rule bridge_arm_locked(1) [OF assms(1)])
  have i1: "bridge_inv plan ?b1" using sink_run_locked [OF assms(3)] i0 by simp
  have asset0: "dget (ad_plan (br_adapter b0)) ''asset'' = PStr (jn_asset j0)"
    using i0 o by (simp add: bridge_inv_def adapter_locked_def)
  from sink_run_replays [OF assms(3), of b0] o asset0 have one: "journal_validate ?j1 = Inr ()" "jn_plan_sha ?j1 = jn_plan_sha j0"
    "jn_asset ?j1 = jn_asset j0" "jf_metadata (jn_file ?j1) = jf_metadata (jn_file j0)" by (auto simp: same_gate_def)
  have asset1: "dget (ad_plan (br_adapter ?b1)) ''asset'' = PStr (jn_asset ?j1)"
    using i1 o one(3) by (simp add: bridge_inv_def adapter_locked_def)
  from bridge_arm_None [OF assms(5)] obtain a where la: "adapter_locked plan IBKR_LIVE a" "ad_events a = []"
    and arm: "\<And>g. bridge_arm fromiso (PDict plan) sha' now' (Some g) = ebind (restore_gate6a_state a g) bridge_init" by metis
  have l1: "adapter_inv (br_adapter ?b1)" "ad_plan (br_adapter ?b1) = plan" "ad_mode (br_adapter ?b1) = IBKR_LIVE"
    using i1 by (simp_all add: bridge_inv_def adapter_locked_def)
  have strs: "is_str (dget plan ''plan_sha'')" "is_str (dget plan ''asset'')"
    using o by simp_all
  have restore: "restore_gate6a_state a (json_reload (PDict (gate6a_state (br_adapter ?b1)))) = Inr (a\<lparr>ad_engines := ad_engines (br_adapter ?b1)\<rparr>)"
    using restore_checkpoint_reload [of "br_adapter ?b1" a] restore_checkpoint [OF l1(1), of a] strs la(1) l1(2)
    by (simp add: adapter_locked_def del: json_reload.simps(2))
  define c0 where "c0 = \<lparr>br_adapter = a\<lparr>ad_engines := ad_engines (br_adapter ?b1)\<rparr>, br_last_count = 0, br_close_count = 0, br_ignored_count = 0\<rparr>"
  have c0: "bridge_arm fromiso (PDict plan) sha' now' (Some (json_reload (PDict (gate6a_state (br_adapter ?b1))))) = Inr c0"
    unfolding arm restore using la(1) by (simp add: bridge_init_def c0_def adapter_locked_def)
  have gate: "same_gate ?b1 c0" using la(1) l1 by (simp add: same_gate_def c0_def adapter_locked_def)
  from sink_run_replays [OF assms(4) one(1) asset1 gate] obtain rows recs c ev where two:
    "journal_validate (sk_journal s2) = Inr ()" "jn_plan_sha (sk_journal s2) = jn_plan_sha ?j1" "jn_asset (sk_journal s2) = jn_asset ?j1"
    "jf_metadata (jn_file (sk_journal s2)) = jf_metadata (jn_file ?j1)"
    "jf_rows (jn_file (sk_journal s2)) = jf_rows (jn_file ?j1) @ rows" "emap (record_from_row ?j1) rows = Inr recs"
    "efold (\<lambda>rec. bridge_step fromiso (record_obs rec)) recs c0 = Inr c" "same_gate (sk_bridge s2) c"
    "ad_events (br_adapter (sk_bridge s2)) = ad_events (br_adapter ?b1) @ ev" "ad_events (br_adapter c) = ad_events (br_adapter c0) @ ev"
    by blast
  have row: "record_from_row (sk_journal s2) = record_from_row ?j1"
    using two(2,3) by (rule record_from_row_same)
  from one(1) obtain recs1 where "journal_head ?j1 = (int (length recs1), journal.head ZERO_HASH recs1)"
    "length (jf_rows (jn_file ?j1)) = length recs1" by (rule journal_validate_Inr)
  then have "records_after (sk_journal s2) (PInt (fst (journal_head ?j1))) = Inr recs"
    using records_after_suffix [OF two(1,5)] two(6) row by simp
  then have "replay_observations fromiso (sk_journal s2) (PInt (fst (journal_head ?j1))) c0 = Inr (c, length recs)"
    using two(7) by (simp add: replay_observations_def)
  moreover have "journal_open (dget plan ''plan_sha'') (dget plan ''asset'') (jn_file (sk_journal s2)) = (Inr (sk_journal s2), jn_file (sk_journal s2))"
    using journal_reopen [OF assms(2) two(1)] two(2-4) one(2-4) by simp
  moreover have "ad_events (br_adapter c0) = []" using la(2) by (simp add: c0_def)
  ultimately show ?thesis using c0 two(8-10) by (auto simp: same_gate_def)
qed


text \<open>C31: an append commits exactly the record it returns: the journal still validates, every earlier
  record is untouched and the new one is the next link of the chain, so its number is the new head.\<close>

theorem append_commits_next_link:
  assumes "journal_validate j = Inr ()" and "journal_append j asset channel price observed types = Inr (rec, j')"
  shows "journal_validate j' = Inr ()
    \<and> (\<exists>recs. emap (record_from_row j) (jf_rows (jn_file j)) = Inr recs
        \<and> emap (record_from_row j') (jf_rows (jn_file j')) = Inr (recs @ [rec])
        \<and> journal.chained ZERO_HASH (recs @ [rec]) \<and> journal_head j' = (int (length recs) + 1, journal_digest rec))"
proof -
  from append_extends [OF assms] obtain r where e: "journal_validate j' = Inr ()"
    "jf_rows (jn_file j') = jf_rows (jn_file j) @ [r]" "record_from_row j r = Inr rec"
    "jn_plan_sha j' = jn_plan_sha j" "jn_asset j' = jn_asset j" by blast
  from assms(1) obtain recs where recs: "emap (record_from_row j) (jf_rows (jn_file j)) = Inr recs" by (rule journal_validate_Inr)
  have row: "record_from_row j' = record_from_row j" using e(4,5) by (rule record_from_row_same)
  from e(1) obtain recs' where recs': "emap (record_from_row j') (jf_rows (jn_file j')) = Inr recs'" "journal.chained ZERO_HASH recs'"
    "journal_head j' = (int (length recs'), journal.head ZERO_HASH recs')" by (rule journal_validate_Inr)
  have "recs' = recs @ [rec]" using recs'(1) recs e(2,3) by (simp add: row emap_append)
  with e(1) recs recs' show ?thesis by (auto simp: journal.chained_append)
qed

text \<open>What the journal commits and the bridge then refuses is refused again by every restart.\<close>

lemma refused_observation_blocks_replay:
  assumes "journal_validate (sk_journal s) = Inr ()" and "same_gate (sk_bridge s) c"
    and "sink_forward fromiso ob s = (Inl e, j)" and "j \<noteq> sk_journal s"
  shows "\<exists>e'. replay_observations fromiso j (PInt (fst (journal_head (sk_journal s)))) c = Inl e'"
proof -
  from assms(3,4) obtain n where commit: "commit_observation (sk_journal s) ob = Inr (j, n)"
    and refused: "bridge_step fromiso ob (sk_bridge s) = Inl e"
    by (auto simp: sink_forward_def ebind_Inl_iff split: sum.splits)
  from commit_observation_Inr [OF commit assms(1)] assms(4) obtain r rec where r: "journal_validate j = Inr ()"
    "jf_rows (jn_file j) = jf_rows (jn_file (sk_journal s)) @ [r]" "record_from_row (sk_journal s) r = Inr rec"
    "jn_plan_sha j = jn_plan_sha (sk_journal s)" "jn_asset j = jn_asset (sk_journal s)"
    "\<And>b. bridge_step fromiso (record_obs rec) b = bridge_step fromiso ob b" by blast
  have "emap (record_from_row j) [r] = Inr [rec]" using r(3) record_from_row_same [OF r(4,5)] by simp
  moreover from assms(1) obtain recs :: "dict list" where "journal_head (sk_journal s) = (int (length recs), journal.head ZERO_HASH recs)"
    "length (jf_rows (jn_file (sk_journal s))) = length recs" by (rule journal_validate_Inr)
  ultimately have after: "records_after j (PInt (fst (journal_head (sk_journal s)))) = Inr [rec]"
    using records_after_suffix [OF r(1,2)] by simp
  have "bridge_step fromiso ob c \<noteq> Inr c'" for c'
    using bridge_step_same [of fromiso ob c c' "sk_bridge s"] refused assms(2) by (auto simp: same_gate_def)
  then obtain e' where "bridge_step fromiso ob c = Inl e'" by (cases "bridge_step fromiso ob c") auto
  then show ?thesis using after r(6) by (simp add: replay_observations_def)
qed


section \<open>A concrete restart\<close>

lemma hex_tail_hex: "list_all is_hex s \<Longrightarrow> hex_tail seen s \<longleftrightarrow> seen \<or> s \<noteq> []"
proof (induction s arbitrary: seen)
  case (Cons c s)
  then have "hex_digit c" by (auto simp: is_hex_def hex_digit_def)
  with Cons show ?case by simp
qed simp

lemma dropWhile_none: "list_all (\<lambda>c. \<not> P c) s \<Longrightarrow> dropWhile P s = s"
  by (cases s) auto

lemma hex_char_plain: "is_hex c \<Longrightarrow> \<not> is_space c \<and> c \<noteq> CHR ''-'' \<and> c \<noteq> CHR ''+'' \<and> c \<noteq> CHR ''x'' \<and> c \<noteq> CHR ''X''"
proof -
  have "list_all (\<lambda>c. \<not> is_space c \<and> c \<noteq> CHR ''-'' \<and> c \<noteq> CHR ''+'' \<and> c \<noteq> CHR ''x'' \<and> c \<noteq> CHR ''X'') ''0123456789abcdef''"
    by code_simp
  then show "is_hex c \<Longrightarrow> ?thesis" unfolding is_hex_def list_all_iff by blast
qed

lemma hex64_reads: "hex64 s \<Longrightarrow> reads_as_hex s"
proof -
  assume h: "hex64 s"
  then have all: "list_all is_hex s" "s \<noteq> []" by (auto simp: hex64_def)
  then have plain: "list_all (\<lambda>c. \<not> is_space c) s" "CHR ''x'' \<notin> set s" "CHR ''X'' \<notin> set s" "hd s \<noteq> CHR ''-''" "hd s \<noteq> CHR ''+''"
    using hex_char_plain hd_in_set [of s] unfolding list_all_iff by blast+
  then have strip: "strip s = s" by (simp add: strip_def dropWhile_none list_all_rev)
  have unsigned: "unsigned_part s = s" using all(2) plain(4,5) by (cases s) (simp_all add: unsigned_part_def)
  have "take 2 s \<noteq> ''0x''" "take 2 s \<noteq> ''0X''"
    using plain(2,3) set_take_subset [of 2 s] by auto
  then show "reads_as_hex s" by (simp add: reads_as_hex_def strip unsigned Let_def hex_tail_hex all)
qed

definition demo_file :: journal_file where
  "demo_file = \<lparr>jf_metadata = None, jf_rows = []\<rparr>"

definition demo_journal :: journal where
  "demo_journal = \<lparr>jn_plan_sha = canonical_hash (PDict demo_body), jn_asset = ''MSTR'',
     jn_file = demo_file\<lparr>jf_metadata := Some (journal_metadata (canonical_hash (PDict demo_body)) ''MSTR'')\<rparr>\<rparr>"

lemma demo_journal_open:
  "journal_open (dget demo_plan ''plan_sha'') (dget demo_plan ''asset'') demo_file = (Inr demo_journal, jn_file demo_journal)"
  using hex64_reads [OF canonical_hash_hex64]
  by (simp add: journal_open_def is_len64_hash ASSET_ORDER_def initialize_schema_def demo_journal_def demo_file_def
      journal_validate_def Let_def)

definition demo_bridge :: bridge where
  "demo_bridge = \<lparr>br_adapter = demo_adapter\<lparr>ad_engines := replicate 4 demo_before\<rparr>, br_last_count = 0, br_close_count = 0,
     br_ignored_count = 0\<rparr>"

lemma demo_bridge_locked: "adapter_locked demo_plan IBKR_LIVE (br_adapter demo_bridge)"
proof -
  have run: "efold (adapter_step demo_iso) [LiveLast (PInt 127) (TsTime (Aware 6))] demo_adapter = Inr (br_adapter demo_bridge)"
    using positive_price_PInt [of 127]
    by (simp add: on_live_last_def check_observation_def observation_ts_def dispatch_to_engines_def demo_adapter_def demo_dispatch
        demo_bridge_def)
  have "adapter_locked demo_plan IBKR_LIVE demo_adapter" using adapter_init_locked [OF demo_armed] by auto
  then show ?thesis using adapter_run.run_inv [OF run [folded adapter_run.run_def]] by blast
qed

lemma demo_bridge_armed:
  "bridge_arm demo_iso (PDict demo_plan) ''S'' 5 (Some (PDict (gate6a_state (br_adapter demo_bridge)))) = Inr demo_bridge"
proof -
  have a: "adapter_locked demo_plan IBKR_LIVE demo_adapter" using adapter_init_locked [OF demo_armed] by auto
  have "adapter_init demo_iso (PDict demo_plan) ''S'' 5 IBKR_LIVE (Some g) = restore_gate6a_state demo_adapter g" for g
    using demo_armed by (auto simp: adapter_init_def demo_validates IBKR_LIVE_def TEST_ONLY_def ebind_Inr_iff Let_def)
  moreover have "restore_gate6a_state demo_adapter (PDict (gate6a_state (br_adapter demo_bridge)))
      = Inr (demo_adapter\<lparr>ad_engines := ad_engines (br_adapter demo_bridge)\<rparr>)"
    using a demo_bridge_locked by (intro restore_checkpoint) (simp_all add: adapter_locked_def)
  ultimately show ?thesis by (simp add: bridge_arm_def arm_live_def bridge_init_def demo_bridge_def demo_adapter_def)
qed

lemma demo_observation:
  "\<exists>b. bridge_step demo_iso (IbkrLast (PStr ''MSTR'') (PInt 129) (PInt 1000) live_proof) demo_bridge = Inr b
    \<and> ad_events (br_adapter b) = map demo_event ALLOWED_LINE_TYPES"
proof -
  have t: "utc_from_ms (PInt 1000) = Inr 1000000" by (simp add: utc_from_ms_def round_half_even_def Let_def)
  have "on_live_last demo_iso (br_adapter demo_bridge) (PInt 129) (TsTime (Aware 1000000))
      = Inr (demo_adapter\<lparr>ad_engines := replicate 4 demo_crossed, ad_events := map demo_event ALLOWED_LINE_TYPES\<rparr>)"
    using positive_price_PInt [of 129]
    by (simp add: on_live_last_def check_observation_def observation_ts_def dispatch_to_engines_def demo_adapter_def demo_dispatch
        demo_bridge_def comp_def map_replicate_const) (simp add: ALLOWED_LINE_TYPES_def numeral_eq_Suc)
  then show ?thesis
    by (simp add: on_ibkr_last_def live_types_asserted(2) t) (simp add: demo_bridge_def demo_adapter_def)
qed

lemma demo_commit:
  assumes "0 < t" and "t < 2 ^ 63"
  shows "\<exists>j. commit_observation demo_journal (IbkrLast (PStr ''MSTR'') (PInt 129) (PInt t) live_proof) = Inr (j, 1) \<and> j \<noteq> demo_journal"
proof -
  have price: "journal_price (PInt 129) = Inr (Fin 129)"
    using positive_price_PInt [of 129 "[]"] journal_price_iff [of "PInt 129" "Fin 129" "[]"] by simp
  have "\<exists>h. canonical_hash_strict (PDict (record_payload s a n (PStr p) (PStr c) (Fin 129) t live_proof)) = Inr h" for s a n p c
    using all_finite_payload [of "Fin 129" "PStr p" "PStr c"] by (auto simp: canonical_hash_strict_iff pos_fin_def)
  from this [of "jn_plan_sha demo_journal" "''MSTR''" 1 ZERO_HASH "''LAST''"] assms show ?thesis
    by (auto simp: commit_observation_def journal_append_def price journal_timestamp_PInt live_proof_live ALLOWED_CHANNELS_def
        insert_row_def journal_head_def demo_journal_def demo_file_def Let_def)
qed

text \<open>A time stamp past the year 9999 fits the journal but no \<^verbatim>\<open>datetime\<close>: once committed, it
  stops every later replay.\<close>

lemma far_timestamp_blocks_restart:
  "\<exists>e j. sink_forward demo_iso (IbkrLast (PStr ''MSTR'') (PInt 129) (PInt 253402300800000) live_proof)
      \<lparr>sk_journal = demo_journal, sk_bridge = demo_bridge, sk_appended = 0\<rparr> = (Inl e, j)
    \<and> (\<exists>e'. replay_observations demo_iso j (PInt 0) demo_bridge = Inl e')"
proof -
  let ?ob = "IbkrLast (PStr ''MSTR'') (PInt 129) (PInt 253402300800000) live_proof"
  let ?s = "\<lparr>sk_journal = demo_journal, sk_bridge = demo_bridge, sk_appended = 0\<rparr>"
  obtain j where j: "commit_observation demo_journal ?ob = Inr (j, 1)" "j \<noteq> demo_journal"
    using demo_commit [of 253402300800000] by auto
  have "bridge_step demo_iso ?ob demo_bridge = Inl (ValueError ''year is out of range'')"
    by (simp add: on_ibkr_last_def live_types_asserted(2) utc_from_ms_def) (simp add: demo_bridge_def demo_adapter_def)
  then have fwd: "sink_forward demo_iso ?ob ?s = (Inl (ValueError ''year is out of range''), j)"
    using j(1) by (simp add: sink_forward_def)
  have "journal_validate demo_journal = Inr ()" "journal_head demo_journal = (0, ZERO_HASH)"
    by (simp_all add: journal_validate_def journal_head_def demo_journal_def demo_file_def)
  with refused_observation_blocks_replay [of ?s demo_bridge demo_iso ?ob _ j] fwd j(2) show ?thesis
    by (auto simp: same_gate_def)
qed

theorem restart_resumes_exactly_witness:
  "\<exists>s2 js2 c0 c n. sink_run demo_iso [IbkrLast (PStr ''MSTR'') (PInt 129) (PInt 1000) live_proof]
      \<lparr>sk_journal = demo_journal, sk_bridge = demo_bridge, sk_appended = 0\<rparr> = (Inr s2, js2)
    \<and> replay_observations demo_iso (sk_journal s2) (PInt 0) c0 = Inr (c, n)
    \<and> ad_events (br_adapter c) = map demo_event ALLOWED_LINE_TYPES"
proof -
  let ?ob = "IbkrLast (PStr ''MSTR'') (PInt 129) (PInt 1000) live_proof"
  let ?s = "\<lparr>sk_journal = demo_journal, sk_bridge = demo_bridge, sk_appended = 0\<rparr>"
  obtain j where commit: "commit_observation demo_journal ?ob = Inr (j, 1)" using demo_commit [of 1000] by auto
  obtain b where b: "bridge_step demo_iso ?ob demo_bridge = Inr b" "ad_events (br_adapter b) = map demo_event ALLOWED_LINE_TYPES"
    using demo_observation by blast
  define s2 where "s2 = \<lparr>sk_journal = j, sk_bridge = b, sk_appended = 1\<rparr>"
  have run0: "sink_run demo_iso [] ?s = (Inr ?s, [])" by simp
  have run: "sink_run demo_iso [?ob] ?s = (Inr s2, [j])" using commit b(1) by (simp add: sink_forward_def s2_def)
  have head: "journal_head demo_journal = (0, ZERO_HASH)" by (simp add: journal_head_def demo_journal_def demo_file_def)
  have "ad_events (br_adapter demo_bridge) = []" by (simp add: demo_bridge_def demo_adapter_def)
  moreover from restart_resumes_exactly [OF demo_bridge_armed demo_journal_open run0 run demo_validates] obtain c0 c n where
    "replay_observations demo_iso (sk_journal s2) (PInt 0) c0 = Inr (c, n)"
    "ad_events (br_adapter (sk_bridge s2)) = ad_events (br_adapter demo_bridge) @ ad_events (br_adapter c)"
    by (simp only: sink.simps head fst_conv) blast
  ultimately show ?thesis using run b(2) by (intro exI [of _ s2] exI [of _ "[j]"] exI [of _ c0] exI [of _ c] exI [of _ n]) (simp add: s2_def)
qed

theorem append_commits_next_link_witness:
  "\<exists>j' rec. journal_append demo_journal (PStr ''MSTR'') (PStr ''LAST'') (PInt 129) (PInt 1000) live_proof = Inr (rec, j')
    \<and> journal_validate j' = Inr () \<and> journal_head j' = (1, journal_digest rec)"
proof -
  from demo_commit [of 1000] obtain j where "commit_observation demo_journal (IbkrLast (PStr ''MSTR'') (PInt 129) (PInt 1000) live_proof) = Inr (j, 1)"
    by auto
  then obtain rec j' where app: "journal_append demo_journal (PStr ''MSTR'') (PStr ''LAST'') (PInt 129) (PInt 1000) live_proof = Inr (rec, j')"
    by (auto simp: commit_observation_def live_proof_live ebind_Inr_iff split: if_splits)
  have "journal_validate demo_journal = Inr ()" "jf_rows (jn_file demo_journal) = []"
    by (simp_all add: journal_validate_def demo_journal_def demo_file_def)
  with append_commits_next_link [OF _ app] app show ?thesis by auto
qed

end
