(* ===== verification/Commander_Operator.thy ===== *)
theory Commander_Operator
  imports Observation_Journal Reanalysis_Wake
begin

text \<open>
  One cycle of the Gate 6C-3 operator (\<^verbatim>\<open>ibkr_commander_operator.py\<close>): it loads the runtime
  checkpoint, opens the journal, re-arms the plan, replays what the checkpoint has not seen, lets
  the feed drive the journaled sink, hands every new event to the handoff gate and writes the
  checkpoint. A cycle yields its result and the durable worlds after each of its effects, in order.
  A feed is the observations it delivers and what it returns in the end: one that reports failures
  keeps delivering after the sink raised, and raises when it is done. The notice builder is an
  argument; reports and the command line are not modelled. Shown: whatever the feeds and wherever
  the processes die, the checkpoint stays aligned with the journal and the engines it describes are
  those of a fresh arming that has seen exactly the journal up to the checkpoint.
\<close>

section \<open>The runtime checkpoint\<close>

definition OPERATOR_SCHEMA_VERSION :: string where "OPERATOR_SCHEMA_VERSION = ''CRT_GATE6C3_OPERATOR_V0.3''"
definition DEDUPE_SCHEMA_VERSION :: string where "DEDUPE_SCHEMA_VERSION = ''CRT_GATE6C3_RUNTIME_CHECKPOINT_V0.3''"
definition PREVIOUS_DEDUPE_SCHEMA_VERSION :: string where
  "PREVIOUS_DEDUPE_SCHEMA_VERSION = ''CRT_GATE6C3_RUNTIME_CHECKPOINT_V0.2''"
definition LEGACY_DEDUPE_SCHEMA_VERSION :: string where "LEGACY_DEDUPE_SCHEMA_VERSION = ''CRT_GATE6C3_EVENT_DEDUPE_V0.1''"
definition RESTART_CONTINUITY :: string where
  "RESTART_CONTINUITY = ''DURABLE_OBSERVATION_JOURNAL_GATE6A_STATE_AND_EVENT_DEDUPE''"
definition CHECKPOINT_COMMIT_SCOPE :: string where "CHECKPOINT_COMMIT_SCOPE = ''JOURNALED_OBSERVATION_PREFIX''"

definition operator_authority :: dict where
  "operator_authority = [(''action_output'', PStr ''NONE''), (''machine_execution'', PStr ''FORBIDDEN''),
     (''external_action_authority'', PStr ''NONE''), (''capital_decision_authority'', PStr ''USER_ONLY''),
     (''production'', PStr ''NOT_APPROVED'')]"

definition event_fingerprint :: "dict \<Rightarrow> string res" where
  "event_fingerprint event =
     canonical_hash_strict (PDict (map (\<lambda>k. (k, dget event k)) [''plan_sha'', ''asset'', ''line_id'', ''line_type'', ''level_price'',
       ''observed_price'', ''event_type'', ''observation_channel'']))"

definition dedupe_payload :: "pyval \<Rightarrow> dict" where
  "dedupe_payload plan_sha =
     [(''schema_version'', PStr DEDUPE_SCHEMA_VERSION), (''plan_sha'', plan_sha), (''lines'', PDict []), (''gate6a_state'', PNone),
      (''restart_continuity'', PStr RESTART_CONTINUITY), (''checkpoint_commit_scope'', PStr CHECKPOINT_COMMIT_SCOPE),
      (''journal_applied_through'', PInt 0), (''journal_applied_hash'', PStr ZERO_HASH)] @ operator_authority"

definition seal_dedupe_state :: "dict \<Rightarrow> dict res" where
  "seal_dedupe_state payload =
     ebind (canonical_hash_strict (PDict (dpop ''state_hash'' payload))) (\<lambda>h.
       Inr (dset ''state_hash'' (PStr h) (dpop ''state_hash'' payload)))"

text \<open>The fields, continuity and scope each schema version promises.\<close>

definition base_fields :: "string list" where
  "base_fields = [''schema_version'', ''plan_sha'', ''lines'', ''restart_continuity'', ''state_hash''] @ keys operator_authority"

definition expected_fields :: "string \<Rightarrow> string list" where
  "expected_fields version =
     (if version = DEDUPE_SCHEMA_VERSION
        then base_fields @ [''gate6a_state'', ''checkpoint_commit_scope'', ''journal_applied_through'', ''journal_applied_hash'']
      else if version = PREVIOUS_DEDUPE_SCHEMA_VERSION then base_fields @ [''gate6a_state'', ''checkpoint_commit_scope'']
      else base_fields)"

definition expected_continuity :: "string \<Rightarrow> string" where
  "expected_continuity version =
     (if version = DEDUPE_SCHEMA_VERSION then RESTART_CONTINUITY
      else if version = PREVIOUS_DEDUPE_SCHEMA_VERSION then ''COMPLETED_CYCLE_GATE6A_STATE_AND_EVENT_DEDUPE''
      else ''EVENT_DEDUPE_ONLY'')"

definition expected_scope :: "string \<Rightarrow> string option" where
  "expected_scope version =
     (if version = DEDUPE_SCHEMA_VERSION then Some CHECKPOINT_COMMIT_SCOPE
      else if version = PREVIOUS_DEDUPE_SCHEMA_VERSION then Some ''LAST_COMPLETED_OPERATOR_CYCLE'' else None)"

text \<open>The seal and the version of a checkpoint, then what every version is checked for.\<close>

definition checkpoint_version :: "dict \<Rightarrow> string res" where
  "checkpoint_version p =
     ebind (canonical_hash_strict (PDict (dpop ''state_hash'' p))) (\<lambda>h.
     if dget p ''state_hash'' \<noteq> PStr h then Inl (ValueError ''Gate 6C-3 dedupe state hash mismatch'')
     else ebind (in_strs (dget p ''schema_version'')
         [DEDUPE_SCHEMA_VERSION, PREVIOUS_DEDUPE_SCHEMA_VERSION, LEGACY_DEDUPE_SCHEMA_VERSION]) (\<lambda>known.
       if \<not> known then Inl (ValueError ''Gate 6C-3 checkpoint schema mismatch'') else Inr (str_of (dget p ''schema_version''))))"

definition check_checkpoint :: "string \<Rightarrow> dict \<Rightarrow> unit res" where
  "check_checkpoint version p =
     (if set (keys p) \<noteq> set (expected_fields version) then Inl (ValueError ''Gate 6C-3 checkpoint fields mismatch'')
      else if dget p ''restart_continuity'' \<noteq> PStr (expected_continuity version)
        then Inl (ValueError ''Gate 6C-3 checkpoint continuity mismatch'')
      else if (case expected_scope version of None \<Rightarrow> False | Some s \<Rightarrow> dget p ''checkpoint_commit_scope'' \<noteq> PStr s)
        then Inl (ValueError ''Gate 6C-3 checkpoint commit scope mismatch'')
      else (case List.find (\<lambda>(k, x). dget p k \<noteq> x) operator_authority of
          Some (k, _) \<Rightarrow> Inl (ValueError (''Gate 6C-3 dedupe authority mismatch:'' @ k))
        | None \<Rightarrow> if \<not> is_dict (dget p ''lines'') then Inl (ValueError ''Gate 6C-3 dedupe line state unavailable'') else Inr ()))"

definition check_cursor :: "dict \<Rightarrow> unit res" where
  "check_cursor p =
     (if dget p ''gate6a_state'' \<noteq> PNone \<and> \<not> is_dict (dget p ''gate6a_state'')
        then Inl (ValueError ''Gate 6C-3 Gate 6A state unavailable'')
      else (case dget p ''journal_applied_through'' of
          PInt n \<Rightarrow>
            if n < 0 then Inl (ValueError ''Gate 6C-3 journal cursor invalid'')
            else if \<not> is_len64 (dget p ''journal_applied_hash'') \<or> \<not> reads_as_hex (str_of (dget p ''journal_applied_hash''))
              then Inl (ValueError ''Gate 6C-3 journal cursor hash invalid'')
            else Inr ()
        | _ \<Rightarrow> Inl (ValueError ''Gate 6C-3 journal cursor invalid'')))"

definition migrate_checkpoint :: "pyval \<Rightarrow> string \<Rightarrow> dict \<Rightarrow> dict" where
  "migrate_checkpoint plan_sha version p =
     (let migrated = dset ''lines'' (dget p ''lines'') (dedupe_payload plan_sha) in
      if version = PREVIOUS_DEDUPE_SCHEMA_VERSION then dset ''gate6a_state'' (dget p ''gate6a_state'') migrated else migrated)"

text \<open>A checkpoint file is absent, no JSON, or the value a JSON reader gets.\<close>

definition load_dedupe_state :: "pyval option option \<Rightarrow> pyval \<Rightarrow> dict res" where
  "load_dedupe_state f plan_sha =
     (case f of
       None \<Rightarrow> Inr (dedupe_payload plan_sha)
     | Some None \<Rightarrow> Inl (ValueError ''JSONDecodeError'')
     | Some (Some v) \<Rightarrow>
         if \<not> is_dict v then Inl (ValueError ''Gate 6C-3 dedupe state must be an object'')
         else (let p = dict_of v in
           ebind (checkpoint_version p) (\<lambda>version.
           ebind (check_checkpoint version p) (\<lambda>_.
           if \<not> py_eq (dget p ''plan_sha'') plan_sha then Inr (dedupe_payload plan_sha)
           else if version \<noteq> DEDUPE_SCHEMA_VERSION then Inr (migrate_checkpoint plan_sha version p)
           else ebind (check_cursor p) (\<lambda>_. Inr p)))))"

definition check_alignment :: "dict \<Rightarrow> journal \<Rightarrow> unit res" where
  "check_alignment st j =
     ebind (journal_validate j) (\<lambda>_.
     if fst (journal_head j) < int_of (dget st ''journal_applied_through'')
       then Inl (ValueError ''Gate 6C-3 journal is behind checkpoint'')
     else ebind (hash_at j (dget st ''journal_applied_through'')) (\<lambda>h.
       if PStr h \<noteq> dget st ''journal_applied_hash'' then Inl (ValueError ''Gate 6C-3 journal checkpoint hash mismatch'')
       else Inr ()))"

section \<open>New and repeated events\<close>

record dedupe_state =
  dd_state :: dict
  dd_new :: "dict list"
  dd_duplicates :: "dict list"
  dd_commits :: "dict list"

definition line_key :: "dict \<Rightarrow> string res" where
  "line_key event = ebind (py_index (PDict event) ''asset'') (\<lambda>a. ebind (py_index (PDict event) ''line_id'') (\<lambda>l.
     Inr (py_str a @ '':'' @ py_str l)))"

text \<open>An event is a repetition when the last one recorded for its line has the same fingerprint.\<close>

definition repeats_line :: "dict \<Rightarrow> string \<Rightarrow> string \<Rightarrow> bool" where
  "repeats_line lines key fp \<longleftrightarrow> is_dict (dget lines key) \<and> dget (dict_of (dget lines key)) ''fingerprint'' = PStr fp"

definition accept_event :: "dict \<Rightarrow> string \<Rightarrow> string \<Rightarrow> dedupe_state \<Rightarrow> dedupe_state res" where
  "accept_event event fp key s =
     ebind (py_index (PDict event) ''event_type'') (\<lambda>ty.
     ebind (py_index (PDict event) ''timestamp'') (\<lambda>ts.
     (let lines = dset key (PDict [(''fingerprint'', PStr fp), (''event_type'', ty), (''event_timestamp'', ts)])
            (dict_of (dget (dd_state s) ''lines''));
          st = dset ''lines'' (PDict lines) (dd_state s)
      in ebind (seal_dedupe_state st) (\<lambda>commit.
         Inr (s\<lparr>dd_state := st,
           dd_new := dd_new s @ [dset ''operator_event_fingerprint'' (PStr fp) (dset ''operator_disposition'' (PStr ''NEW'') event)],
           dd_commits := dd_commits s @ [commit]\<rparr>)))))"

definition dedupe_event :: "pyval \<Rightarrow> dedupe_state \<Rightarrow> dedupe_state res" where
  "dedupe_event v s =
     (if \<not> is_dict v then Inl AttributeError
      else (let event = dict_of v in
        ebind (event_fingerprint event) (\<lambda>fp.
        ebind (line_key event) (\<lambda>key.
        if repeats_line (dict_of (dget (dd_state s) ''lines'')) key fp
          then Inr (s\<lparr>dd_duplicates := dd_duplicates s @ [dset ''operator_disposition'' (PStr ''DUPLICATE_SKIPPED'') event]\<rparr>)
        else accept_event event fp key s))))"

definition dedupe_events :: "pyval list \<Rightarrow> dict \<Rightarrow> dedupe_state res" where
  "dedupe_events events st =
     efold dedupe_event events \<lparr>dd_state = st, dd_new = [], dd_duplicates = [], dd_commits = []\<rparr>"

section \<open>The handoff of one event\<close>

record operator_env =
  oe_iso :: iso_parser
  oe_validators :: wake_validators
  oe_gate :: gate_env
  oe_notice :: "dict \<Rightarrow> pyval res"

definition plan_drift_not_evaluated :: dict where
  "plan_drift_not_evaluated =
     [(''state'', PStr ''NOT_EVALUATED''), (''reason'', PStr ''PLAN_DRIFT_NOT_EVALUATED_BY_GATE_6C3_OPERATOR''),
      (''reanalysis_required'', PBool False), (''plans'', PList []), (''action_output'', PStr ''NONE''),
      (''external_action_authority'', PStr ''NONE''), (''external_action_performed'', PBool False)]"

definition event_pack :: "dict \<Rightarrow> dict \<Rightarrow> dict" where
  "event_pack plan wake =
     [(''pack_state'', PStr ''READY_FOR_ANALYST''),
      (''authority'', PDict [(''action_output'', PStr ''NONE''), (''external_action_authority'', PStr ''NONE''),
         (''external_action_performed'', PBool False), (''production'', PStr ''NOT_APPROVED'')]),
      (''reanalysis_wake'', PDict wake), (''plan_drift'', PDict plan_drift_not_evaluated),
      (''data_health'', PDict [(''critical_blockers'',
         if dget plan ''price_classification'' = PStr SIMULATION_ONLY
           then PList [PStr ''SIMULATED_COMMANDER_PLAN_NOT_FORMAL_CAPITAL_AUTHORITY''] else PList [])]),
      (''commander_plan'', PDict [(''plan_id'', dget plan ''plan_id''), (''plan_sha'', dget plan ''plan_sha''),
         (''price_classification'', dget plan ''price_classification'')])]"

definition event_wake :: "operator_env \<Rightarrow> dict \<Rightarrow> dict res" where
  "event_wake env event =
     ebind (build_commander_reanalysis_wake (PDict event)) (\<lambda>base.
     ebind (fuse_reanalysis_wake (oe_validators env) \<lparr>wi_base = PDict base, wi_plan = PDict plan_drift_not_evaluated,
        wi_market = PNone, wi_ratio = PNone, wi_announcement = PNone, wi_capital = PNone\<rparr>) (\<lambda>fused.
     case fused of None \<Rightarrow> Inl (ValueError ''Commander event failed to produce a reanalysis wake'') | Some wake \<Rightarrow> Inr wake))"

definition handoff_for_event ::
  "operator_env \<Rightarrow> gate_call \<Rightarrow> dict \<Rightarrow> dict \<Rightarrow> gate_world \<Rightarrow> dict res \<times> gate_world list" where
  "handoff_for_event env call event plan w =
     (case ebind (event_wake env event) (\<lambda>wake.
           ebind (canonical_hash_strict (PDict (event_pack plan wake))) (\<lambda>h.
           (let pack = event_pack plan wake @ [(''evidence_pack_hash'', PStr h)] in
            ebind (oe_notice env pack) (\<lambda>notice. Inr (wake, pack, notice))))) of
       Inl e \<Rightarrow> (Inl e, [])
     | Inr (wake, pack, notice) \<Rightarrow>
         (case run_gpt_handoff_gate (oe_gate env) (call\<lparr>gc_mirror := False\<rparr>) (PDict pack) notice False w of
           (r, ws) \<Rightarrow> (ebind r (\<lambda>handoff. ebind (py_index (PDict wake) ''commander_event_id'') (\<lambda>event_id.
              Inr [(''commander_event_id'', event_id), (''wake'', PDict wake), (''notice'', notice), (''handoff'', PDict handoff)])), ws)))"

section \<open>The cycle\<close>

record operator_world =
  ow_checkpoint :: "pyval option option"
  ow_journal :: journal_file
  ow_gate :: gate_world

record operator_call =
  oc_sha :: string
  oc_now :: int
  oc_obs :: "bridge_obs list"
  oc_capture :: "pyval res"
  oc_gates :: "nat \<Rightarrow> gate_call"

definition asset_error :: "dict \<Rightarrow> string \<Rightarrow> string option" where
  "asset_error assets asset =
     (let v = dget assets asset; p = dict_of v in
      if \<not> is_dict v then Some (''IBKR capture asset unavailable:'' @ asset)
      else if \<not> py_eq (dget p ''market_data_type'') (PInt 1) then Some (''IBKR market data is not live:'' @ asset)
      else if \<not> is_dict (dget p ''l1'') then Some (''IBKR L1 capture unavailable:'' @ asset)
      else if \<not> is_list (dget p ''bars_5s'') then Some (''IBKR 5-second bar capture unavailable:'' @ asset)
      else None)"

definition assert_capture :: "pyval \<Rightarrow> dict res" where
  "assert_capture capture =
     (let assets = dget (dict_of capture) ''assets'' in
      if \<not> is_dict capture then Inl (ValueError ''IBKR capture must be an object'')
      else if \<not> is_dict assets then Inl (ValueError ''IBKR capture assets unavailable'')
      else if keys (dict_of assets) \<noteq> ASSET_ORDER then Inl (ValueError ''IBKR capture asset order mismatch'')
      else (case List.find (\<lambda>a. asset_error (dict_of assets) a \<noteq> None) ASSET_ORDER of
          None \<Rightarrow> Inr (dict_of capture)
        | Some a \<Rightarrow> Inl (ValueError (the (asset_error (dict_of assets) a)))))"

text \<open>After the sink has raised, the feed goes on delivering: what still commits, commits.\<close>

fun commit_rest :: "bridge_obs list \<Rightarrow> journal \<Rightarrow> journal list" where
  "commit_rest [] j = []"
| "commit_rest (ob # obs) j =
     (case commit_observation j ob of Inl e \<Rightarrow> commit_rest obs j | Inr (j', n) \<Rightarrow> j' # commit_rest obs j')"

definition collect :: "operator_env \<Rightarrow> operator_call \<Rightarrow> sink \<Rightarrow> (sink \<times> dict) res \<times> journal list" where
  "collect env call s =
     (case sink_run (oe_iso env) (oc_obs call) s of
       (Inl e, js) \<Rightarrow> (Inl (Custom ''IbkrIntakeError'' []), js @ commit_rest (drop (length js) (oc_obs call)) (last (sk_journal s # js)))
     | (Inr t, js) \<Rightarrow> (ebind (oc_capture call) (\<lambda>capture. ebind (assert_capture capture) (\<lambda>c. Inr (t, c))), js))"

text \<open>The new events, each handed off before its checkpoint is written.\<close>

fun commit_events ::
  "operator_env \<Rightarrow> operator_call \<Rightarrow> nat \<Rightarrow> dict \<Rightarrow> (dict \<times> dict) list \<Rightarrow> operator_world \<Rightarrow> dict list res \<times> operator_world list" where
  "commit_events env call i plan [] w = (Inr [], [])"
| "commit_events env call i plan ((event, commit) # rest) w =
     (case handoff_for_event env (oc_gates call i) event plan (ow_gate w) of
       (Inl e, gs) \<Rightarrow> (Inl e, map (\<lambda>g. w\<lparr>ow_gate := g\<rparr>) gs)
     | (Inr handoff, gs) \<Rightarrow>
         (let w' = w\<lparr>ow_gate := last (ow_gate w # gs), ow_checkpoint := Some (Some (json_reload (PDict commit)))\<rparr> in
          case commit_events env call (Suc i) plan rest w' of
            (r, ws) \<Rightarrow> (ebind r (\<lambda>hs. Inr (handoff # hs)), map (\<lambda>g. w\<lparr>ow_gate := g\<rparr>) gs @ w' # ws)))"

definition completed_state :: "dict \<Rightarrow> dedupe_state \<Rightarrow> bridge \<Rightarrow> journal \<Rightarrow> dict" where
  "completed_state runtime d b j =
     dset ''journal_applied_hash'' (PStr (snd (journal_head j)))
     (dset ''journal_applied_through'' (PInt (fst (journal_head j)))
     (dset ''checkpoint_commit_scope'' (PStr CHECKPOINT_COMMIT_SCOPE)
     (dset ''restart_continuity'' (PStr RESTART_CONTINUITY)
     (dset ''gate6a_state'' (PDict (gate6a_state (br_adapter b)))
     (dpop ''state_hash'' (last (runtime # dd_commits d)))))))"

definition cycle_state :: "dedupe_state \<Rightarrow> bridge \<Rightarrow> string" where
  "cycle_state d b =
     (if dd_new d \<noteq> [] then ''OBSERVATION_EVENTS_HANDOFF_READY''
      else if dd_duplicates d \<noteq> [] then ''DUPLICATE_EVENTS_SKIPPED''
      else if 0 < br_last_count b \<or> 0 < br_close_count b then ''MONITORING_NO_EVENT''
      else ''WAITING_FOR_MARKET_ACTIVITY'')"

definition capture_summary :: "dict \<Rightarrow> dict" where
  "capture_summary capture =
     map (\<lambda>asset. let p = dict_of (dget (dict_of (dget capture ''assets'')) asset) in
       (asset, PDict [(''market_data_type'', dget p ''market_data_type''), (''last'', dget (dict_of (dget p ''l1'')) ''last''),
          (''bar_5s_count'', PInt (int (length (list_of (dget p ''bars_5s'')))))])) ASSET_ORDER"

definition cycle_report ::
  "operator_call \<Rightarrow> dict \<Rightarrow> dict \<Rightarrow> dict \<Rightarrow> nat \<Rightarrow> sink \<Rightarrow> dedupe_state \<Rightarrow> dict list \<Rightarrow> dict" where
  "cycle_report call plan runtime capture replayed s d handoffs =
     (let b = sk_bridge s; hd = journal_head (sk_journal s) in
      [(''schema_version'', PStr OPERATOR_SCHEMA_VERSION), (''state'', PStr (cycle_state d b)),
       (''plan'', PDict (map (\<lambda>k. (k, dget plan k)) [''plan_id'', ''plan_sha'', ''asset'', ''valid_until'', ''source_main_sha'',
          ''price_classification''])),
       (''capture'', PDict (capture_summary capture)), (''gate_summary'', PDict (gate_summary b)),
       (''observation_journal'', PDict ([(''state'', PStr ''DURABLE_REPLAY_READY''),
          (''replayed_observation_count'', PInt (int replayed)), (''appended_observation_count'', PInt (int (sk_appended s))),
          (''applied_through'', PInt (fst hd)), (''applied_hash'', PStr (snd hd))] @ operator_authority)),
       (''raw_events'', PList (ad_events (br_adapter b))), (''new_events'', PList (map PDict (dd_new d))),
       (''duplicate_events'', PList (map PDict (dd_duplicates d))), (''handoffs'', PList (map PDict handoffs)),
       (''restart_continuity'', PStr RESTART_CONTINUITY), (''checkpoint_commit_scope'', PStr CHECKPOINT_COMMIT_SCOPE),
       (''delivery_semantics'', PStr ''DURABLE_AT_LEAST_ONCE_OBSERVATION_REPLAY_WITH_EVENT_DEDUPE''),
       (''gate6a_state_restored'', PBool (dget runtime ''gate6a_state'' \<noteq> PNone)),
       (''checkpoint_schema_version'', PStr DEDUPE_SCHEMA_VERSION), (''unresolved_restart_boundary'', PNone),
       (''current_main_verification'', PStr ''CALLER_SUPPLIED_READ_ONLY_PRECHECK_REQUIRED''),
       (''plan_source_main_match'', PBool (dget plan ''source_main_sha'' = PStr (oc_sha call)))] @ operator_authority)"

text \<open>The start of a cycle: the checkpoint, the journal, the armed bridge and the replay.\<close>

definition start_bridge :: "operator_env \<Rightarrow> operator_call \<Rightarrow> dict \<Rightarrow> dict \<Rightarrow> journal \<Rightarrow> (sink \<times> nat) res" where
  "start_bridge env call plan runtime j =
     ebind (check_alignment runtime j) (\<lambda>_.
     ebind (bridge_arm (oe_iso env) (PDict plan) (oc_sha call) (oc_now call)
       (if dget runtime ''gate6a_state'' = PNone then None else Some (dget runtime ''gate6a_state''))) (\<lambda>b0.
     ebind (replay_observations (oe_iso env) j (dget runtime ''journal_applied_through'') b0) (\<lambda>(b, n).
     Inr (\<lparr>sk_journal = j, sk_bridge = b, sk_appended = 0\<rparr>, n))))"

text \<open>The end of a cycle: the events, their handoffs and checkpoints, the last checkpoint.\<close>

definition finish_cycle ::
  "operator_env \<Rightarrow> operator_call \<Rightarrow> dict \<Rightarrow> dict \<Rightarrow> nat \<Rightarrow> sink \<Rightarrow> dict \<Rightarrow> operator_world \<Rightarrow> dict res \<times> operator_world list" where
  "finish_cycle env call plan runtime replayed s capture w =
     (case dedupe_events (ad_events (br_adapter (sk_bridge s))) runtime of
       Inl e \<Rightarrow> (Inl e, [])
     | Inr d \<Rightarrow>
         (case commit_events env call 0 plan (zip (dd_new d) (dd_commits d)) w of
           (Inl e, ws) \<Rightarrow> (Inl e, ws)
         | (Inr handoffs, ws) \<Rightarrow>
             (case seal_dedupe_state (completed_state runtime d (sk_bridge s) (sk_journal s)) of
               Inl e \<Rightarrow> (Inl e, ws)
             | Inr commit \<Rightarrow>
                 (let report = cycle_report call plan runtime capture replayed s d handoffs in
                  (ebind (canonical_hash_strict (PDict report)) (\<lambda>h. Inr (report @ [(''report_hash'', PStr h)])),
                   ws @ [(last (w # ws))\<lparr>ow_checkpoint := Some (Some (json_reload (PDict commit)))\<rparr>])))))"

definition observe_cycle ::
  "operator_env \<Rightarrow> operator_call \<Rightarrow> dict \<Rightarrow> dict \<Rightarrow> journal \<Rightarrow> operator_world \<Rightarrow> dict res \<times> operator_world list" where
  "observe_cycle env call plan runtime j w =
     (case start_bridge env call plan runtime j of
       Inl e \<Rightarrow> (Inl e, [w])
     | Inr (s, n) \<Rightarrow>
         (case collect env call s of
           (r, js) \<Rightarrow>
             (let ws = w # map (\<lambda>k. w\<lparr>ow_journal := jn_file k\<rparr>) js in
              case r of
                Inl e \<Rightarrow> (Inl e, ws)
              | Inr (t, capture) \<Rightarrow>
                  (case finish_cycle env call plan runtime n t capture (last ws) of (x, vs) \<Rightarrow> (x, ws @ vs)))))"

definition checked_state :: "operator_env \<Rightarrow> operator_call \<Rightarrow> pyval \<Rightarrow> operator_world \<Rightarrow> dict res" where
  "checked_state env call plan w =
     ebind (validate_commander_plan (oe_iso env) plan (oc_sha call) (oc_now call)) (\<lambda>blockers.
     if blockers \<noteq> [] then Inl (Custom ''CommanderPlanBlocked'' blockers)
     else load_dedupe_state (ow_checkpoint w) (dget (dict_of plan) ''plan_sha''))"

definition run_gate6c3_operator ::
  "operator_env \<Rightarrow> operator_call \<Rightarrow> pyval \<Rightarrow> operator_world \<Rightarrow> dict res \<times> operator_world list" where
  "run_gate6c3_operator env call plan w =
     (case checked_state env call plan w of
       Inl e \<Rightarrow> (Inl e, [])
     | Inr runtime \<Rightarrow>
         (let p = dict_of plan in
          case journal_open (dget p ''plan_sha'') (dget p ''asset'') (ow_journal w) of
            (Inl e, f) \<Rightarrow> (Inl e, [w\<lparr>ow_journal := f\<rparr>])
          | (Inr j, f) \<Rightarrow> observe_cycle env call p runtime j (w\<lparr>ow_journal := f\<rparr>)))"

section \<open>What a JSON file keeps\<close>

lemma reload_items_sort: "reload_items (sort_key fst d) = sort_key fst (reload_items d)"
  unfolding reload_items_map by (subst sort_key_map [where f' = fst]) auto

lemma json_reload_idem [simp]: "json_reload (json_reload v) = json_reload v"
  and reload_list_idem [simp]: "reload_list (reload_list xs) = reload_list xs"
  and reload_items_idem [simp]: "reload_items (reload_items d) = reload_items d"
  by (induction v and xs and d rule: json_reload_reload_list_reload_items.induct) (auto simp: reload_items_sort sort_key_idem)

lemma all_finite_items_map: "all_finite_items d \<longleftrightarrow> (\<forall>p \<in> set d. all_finite (snd p))"
  by (induction d) auto

lemma all_finite_reload_all:
  "all_finite (json_reload v) = all_finite v"
  "all_finite_list (reload_list xs) = all_finite_list xs"
  "all_finite_items (reload_items d) = all_finite_items d"
  by (induction v and xs and d rule: json_reload_reload_list_reload_items.induct) (auto simp: all_finite_items_map)

lemma canonical_hash_strict_reload: "canonical_hash_strict (PDict (reload_dict d)) = canonical_hash_strict (PDict d)"
proof -
  have "json_reload (PDict d) = PDict (reload_dict d)" by (simp add: reload_dict_def)
  then have "all_finite (PDict (reload_dict d)) = all_finite (PDict d)" using all_finite_reload_all(1) [of "PDict d"] by simp
  then show ?thesis
    using canonical_hash_strict_iff [of "PDict (reload_dict d)"] canonical_hash_strict_iff [of "PDict d"]
    by (cases "canonical_hash_strict (PDict d)"; cases "canonical_hash_strict (PDict (reload_dict d))")
      (auto simp: canonical_hash_strict_def json_strict_def)
qed

section \<open>The engines a journal describes\<close>

definition fresh_bridge :: "dict \<Rightarrow> engine list \<Rightarrow> bridge" where
  "fresh_bridge plan es = \<lparr>br_adapter = \<lparr>ad_plan = plan, ad_mode = IBKR_LIVE, ad_engines = es, ad_events = []\<rparr>,
     br_last_count = 0, br_close_count = 0, br_ignored_count = 0\<rparr>"

definition feed_records :: "iso_parser \<Rightarrow> dict list \<Rightarrow> bridge \<Rightarrow> bridge res" where
  "feed_records fromiso recs = efold (\<lambda>rec. bridge_step fromiso (record_obs rec)) recs"

definition replayed_engines :: "iso_parser \<Rightarrow> dict \<Rightarrow> dict list \<Rightarrow> engine list res" where
  "replayed_engines fromiso plan recs =
     ebind (emap arm_line (plan_lines plan)) (\<lambda>es.
     ebind (feed_records fromiso recs (fresh_bridge plan es)) (\<lambda>b. Inr (ad_engines (br_adapter b))))"

definition gate_of :: "dict \<Rightarrow> engine list \<Rightarrow> pyval" where
  "gate_of plan es = PDict (gate6a_state (br_adapter (fresh_bridge plan es)))"

lemma gate_of_adapter: "ad_plan a = plan \<Longrightarrow> PDict (gate6a_state a) = gate_of plan (ad_engines a)"
  by (simp add: gate_of_def gate6a_state_def fresh_bridge_def)

lemma feed_records_same:
  assumes "feed_records fromiso recs b = Inr b'" and "same_gate b c"
  shows "\<exists>c'. feed_records fromiso recs c = Inr c' \<and> same_gate b' c'"
  using assms unfolding feed_records_def
proof (induction recs arbitrary: b c)
  case (Cons rec recs)
  then obtain b1 where one: "bridge_step fromiso (record_obs rec) b = Inr b1"
    and rest: "efold (\<lambda>rec. bridge_step fromiso (record_obs rec)) recs b1 = Inr b'" by (auto simp: ebind_Inr_iff)
  from bridge_step_same [OF one Cons.prems(2)] obtain c1 where "bridge_step fromiso (record_obs rec) c = Inr c1" "same_gate b1 c1" by blast
  with Cons.IH [OF rest] show ?case by (auto simp: ebind_Inr_iff)
qed auto

lemma feed_records_plan:
  assumes "feed_records fromiso recs b = Inr b'"
  shows "ad_plan (br_adapter b') = ad_plan (br_adapter b) \<and> ad_mode (br_adapter b') = ad_mode (br_adapter b)"
  using assms [unfolded feed_records_def]
proof (rule efold_inv [where P = "\<lambda>c. ad_plan (br_adapter c) = ad_plan (br_adapter b) \<and> ad_mode (br_adapter c) = ad_mode (br_adapter b)"])
  fix rec c c' assume "ad_plan (br_adapter c) = ad_plan (br_adapter b) \<and> ad_mode (br_adapter c) = ad_mode (br_adapter b)"
    and step: "bridge_step fromiso (record_obs rec) c = Inr c'"
  moreover have "ad_plan (br_adapter c') = ad_plan (br_adapter c) \<and> ad_mode (br_adapter c') = ad_mode (br_adapter c)"
    using bridge_step_cases [OF step] adapter_step_dispatches dispatch_same [OF _ refl refl refl] by fastforce
  ultimately show "ad_plan (br_adapter c') = ad_plan (br_adapter b) \<and> ad_mode (br_adapter c') = ad_mode (br_adapter b)" by simp
qed simp

lemma feed_records_append: "feed_records fromiso (xs @ ys) b = ebind (feed_records fromiso xs b) (feed_records fromiso ys)"
  by (simp add: feed_records_def efold_append)

lemma feed_records_locked: "feed_records fromiso recs b = Inr b' \<Longrightarrow> bridge_inv plan b \<Longrightarrow> bridge_inv plan b'"
  unfolding feed_records_def by (erule efold_inv) (auto intro: bridge_run.step_inv)

text \<open>Feeding further records to any bridge that stands where the journal stands.\<close>

lemma replayed_engines_append:
  assumes "replayed_engines fromiso plan xs = Inr es" and "same_gate (fresh_bridge plan es) b"
    and "feed_records fromiso ys b = Inr b'"
  shows "replayed_engines fromiso plan (xs @ ys) = Inr (ad_engines (br_adapter b'))"
proof -
  from assms(1) obtain es0 c where es0: "emap arm_line (plan_lines plan) = Inr es0"
    and c: "feed_records fromiso xs (fresh_bridge plan es0) = Inr c" "ad_engines (br_adapter c) = es"
    by (auto simp: replayed_engines_def ebind_Inr_iff)
  have "ad_plan (br_adapter c) = plan \<and> ad_mode (br_adapter c) = IBKR_LIVE"
    using c(1) feed_records_plan [OF c(1)] by (simp add: fresh_bridge_def)
  then have "same_gate b c" using assms(2) c(2) by (simp add: same_gate_def fresh_bridge_def)
  from feed_records_same [OF assms(3) this] obtain c' where "feed_records fromiso ys c = Inr c'" "same_gate b' c'" by blast
  then show ?thesis by (simp add: replayed_engines_def es0 feed_records_append c(1) same_gate_def)
qed


section \<open>Checkpoints that follow a journal\<close>

text \<open>The state of a cycle, in memory or about to be written, over the records of its journal.\<close>

definition cursor_ok :: "iso_parser \<Rightarrow> dict \<Rightarrow> dict list \<Rightarrow> dict \<Rightarrow> bool" where
  "cursor_ok fromiso plan recs d \<longleftrightarrow>
     (\<exists>n \<le> length recs. dget d ''journal_applied_through'' = PInt (int n)
       \<and> dget d ''journal_applied_hash'' = PStr (journal.head ZERO_HASH (take n recs))
       \<and> (n = 0 \<and> dget d ''gate6a_state'' = PNone
          \<or> (\<exists>es. replayed_engines fromiso plan (take n recs) = Inr es
              \<and> json_reload (dget d ''gate6a_state'') = json_reload (gate_of plan es))))"

definition contract_ok :: "dict \<Rightarrow> dict \<Rightarrow> bool" where
  "contract_ok plan d \<longleftrightarrow>
     insert ''state_hash'' (set (keys d)) = set (expected_fields DEDUPE_SCHEMA_VERSION)
     \<and> dget d ''schema_version'' = PStr DEDUPE_SCHEMA_VERSION \<and> dget d ''plan_sha'' = dget plan ''plan_sha''
     \<and> dget d ''restart_continuity'' = PStr RESTART_CONTINUITY \<and> dget d ''checkpoint_commit_scope'' = PStr CHECKPOINT_COMMIT_SCOPE
     \<and> (\<forall>(k, x) \<in> set operator_authority. dget d k = x) \<and> is_dict (dget d ''lines'')"

definition state_ok :: "iso_parser \<Rightarrow> dict \<Rightarrow> dict list \<Rightarrow> dict \<Rightarrow> bool" where
  "state_ok fromiso plan recs d \<longleftrightarrow> contract_ok plan d \<and> cursor_ok fromiso plan recs d"

text \<open>A checkpoint on disk: sealed, and as a JSON reader gets it.\<close>

definition file_ok :: "iso_parser \<Rightarrow> dict \<Rightarrow> dict list \<Rightarrow> dict \<Rightarrow> bool" where
  "file_ok fromiso plan recs p \<longleftrightarrow> state_ok fromiso plan recs p
     \<and> json_reload (dget p ''gate6a_state'') = dget p ''gate6a_state''
     \<and> dhas p ''state_hash'' \<and> canonical_hash_strict (PDict (dpop ''state_hash'' p)) = Inr (str_of (dget p ''state_hash''))
     \<and> is_str (dget p ''state_hash'')"

lemma state_ok_extend: "state_ok fromiso plan recs d \<Longrightarrow> state_ok fromiso plan (recs @ rest) d"
  unfolding state_ok_def cursor_ok_def by (elim conjE exE, intro conjI exI) auto

lemma fresh_state_ok: "state_ok fromiso plan recs (dedupe_payload (dget plan ''plan_sha''))"
  by (auto simp: state_ok_def contract_ok_def cursor_ok_def dedupe_payload_def operator_authority_def keys_def
      expected_fields_def base_fields_def)

lemma reload_strings: "json_reload (PStr s) = PStr s" "json_reload (PInt i) = PInt i" by simp_all

lemma sealed_dget:
  assumes "seal_dedupe_state d = Inr c"
  obtains h where "c = dset ''state_hash'' (PStr h) (dpop ''state_hash'' d)"
    "canonical_hash_strict (PDict (dpop ''state_hash'' d)) = Inr h"
  using assms by (auto simp: seal_dedupe_state_def ebind_Inr_iff)

lemma contract_ok_seal:
  assumes "contract_ok plan d" and "is_str (dget plan ''plan_sha'')"
  shows "contract_ok plan (reload_dict (dset ''state_hash'' (PStr h) (dpop ''state_hash'' d)))"
proof -
  let ?c = "dset ''state_hash'' (PStr h) (dpop ''state_hash'' d)"
  have "insert ''state_hash'' (set (keys (reload_dict ?c))) = insert ''state_hash'' (set (keys d))"
    by (auto simp: keys_reload set_keys)
  moreover have "dget (reload_dict ?c) k = json_reload (dget d k)" if "k \<noteq> ''state_hash''" for k using that by simp
  moreover from assms(2) have "json_reload (dget plan ''plan_sha'') = dget plan ''plan_sha''" by (auto simp: is_str_iff)
  ultimately show ?thesis
    using assms(1) unfolding contract_ok_def by (simp add: operator_authority_def)
qed

lemma cursor_ok_seal:
  assumes "cursor_ok fromiso plan recs d"
  shows "cursor_ok fromiso plan recs (reload_dict (dset ''state_hash'' (PStr h) (dpop ''state_hash'' d)))"
  using assms unfolding cursor_ok_def by (auto intro!: exI)

lemma state_ok_seal:
  assumes "state_ok fromiso plan recs d" and "seal_dedupe_state d = Inr c" and "is_str (dget plan ''plan_sha'')"
  shows "file_ok fromiso plan recs (reload_dict c)"
proof -
  from assms(2) obtain h where c: "c = dset ''state_hash'' (PStr h) (dpop ''state_hash'' d)"
    and h: "canonical_hash_strict (PDict (dpop ''state_hash'' d)) = Inr h" by (rule sealed_dget)
  have "state_ok fromiso plan recs (reload_dict c)"
    using assms(1,3) contract_ok_seal cursor_ok_seal unfolding c state_ok_def by blast
  moreover have "dpop ''state_hash'' (reload_dict c) = reload_dict (dpop ''state_hash'' d)" by (simp add: dpop_reload c)
  ultimately show ?thesis by (simp add: file_ok_def canonical_hash_strict_reload h) (simp add: c)
qed

lemma state_ok_same:
  assumes "state_ok fromiso plan recs d" and "\<And>k. k \<noteq> ''state_hash'' \<Longrightarrow> k \<noteq> ''lines'' \<Longrightarrow> dget e k = dget d k"
    and "is_dict (dget e ''lines'')" and "insert ''state_hash'' (set (keys e)) = insert ''state_hash'' (set (keys d))"
  shows "state_ok fromiso plan recs e"
  using assms unfolding state_ok_def contract_ok_def cursor_ok_def by (simp add: operator_authority_def)

lemma hex64_zero: "hex64 ZERO_HASH"
  by (simp add: hex64_def ZERO_HASH_def list_all_iff is_hex_def)

lemma chain_head_hex: "journal.chained h recs \<Longrightarrow> hex64 h \<Longrightarrow> hex64 (journal.head h recs)"
  by (induction recs arbitrary: h) (auto simp: journal_digest_def canonical_hash_hex64)

lemma chain_take: "journal.chained h recs \<Longrightarrow> journal.chained h (take n recs)"
  using journal.chained_append [of h "take n recs" "drop n recs"] by simp

lemma hex64_len64: "hex64 s \<Longrightarrow> is_len64 (PStr s)"
  by (simp add: is_len64_def hex64_str_len)

lemma is_dict_gate: "json_reload v = json_reload (gate_of plan es) \<Longrightarrow> is_dict v"
  by (cases v) (simp_all add: gate_of_def)

lemma load_ok:
  assumes "file_ok fromiso plan recs p" and "journal.chained ZERO_HASH recs" and "is_str (dget plan ''plan_sha'')"
  shows "load_dedupe_state (Some (Some (PDict p))) (dget plan ''plan_sha'') = Inr p"
proof -
  from assms(1) have c: "contract_ok plan p" "cursor_ok fromiso plan recs p" and
    h: "dhas p ''state_hash''" "canonical_hash_strict (PDict (dpop ''state_hash'' p)) = Inr (str_of (dget p ''state_hash''))"
    "is_str (dget p ''state_hash'')" by (simp_all add: file_ok_def state_ok_def)
  have version: "checkpoint_version p = Inr DEDUPE_SCHEMA_VERSION"
    using h c(1) by (auto simp: checkpoint_version_def contract_ok_def is_str_iff)
  have "set (keys p) = set (expected_fields DEDUPE_SCHEMA_VERSION)"
    using c(1) h(1) by (auto simp: contract_ok_def set_keys insert_absorb)
  moreover have "List.find (\<lambda>(k, x). dget p k \<noteq> x) operator_authority = None"
    using c(1) by (auto simp: find_None_iff contract_ok_def)
  ultimately have check: "check_checkpoint DEDUPE_SCHEMA_VERSION p = Inr ()"
    using c(1) by (simp add: check_checkpoint_def contract_ok_def expected_continuity_def expected_scope_def)
  from c(2) obtain n where n: "dget p ''journal_applied_through'' = PInt (int n)"
    "dget p ''journal_applied_hash'' = PStr (journal.head ZERO_HASH (take n recs))"
    and g: "dget p ''gate6a_state'' = PNone \<or> is_dict (dget p ''gate6a_state'')"
    using is_dict_gate unfolding cursor_ok_def by blast
  have "hex64 (journal.head ZERO_HASH (take n recs))"
    by (intro chain_head_hex chain_take assms(2) hex64_zero)
  then have cursor: "check_cursor p = Inr ()"
    using n g by (simp add: check_cursor_def hex64_len64 hex64_reads)
  have "py_eq (dget p ''plan_sha'') (dget plan ''plan_sha'')" using c(1) assms(3) by (auto simp: contract_ok_def is_str_iff)
  then show ?thesis by (simp add: load_dedupe_state_def version check cursor Let_def)
qed


section \<open>The invariant of the durable world\<close>

definition journal_of :: "dict \<Rightarrow> journal_file \<Rightarrow> journal" where
  "journal_of plan f = \<lparr>jn_plan_sha = str_of (dget plan ''plan_sha''), jn_asset = str_of (dget plan ''asset''), jn_file = f\<rparr>"

definition journal_ok :: "dict \<Rightarrow> journal_file \<Rightarrow> dict list \<Rightarrow> bool" where
  "journal_ok plan f recs \<longleftrightarrow>
     (jf_metadata f = None \<or> jf_metadata f = Some (journal_metadata (str_of (dget plan ''plan_sha'')) (str_of (dget plan ''asset''))))
     \<and> journal_validate (journal_of plan f) = Inr () \<and> emap (record_from_row (journal_of plan f)) (jf_rows f) = Inr recs"

definition world_ok :: "iso_parser \<Rightarrow> dict \<Rightarrow> operator_world \<Rightarrow> bool" where
  "world_ok fromiso plan w \<longleftrightarrow>
     (\<exists>recs. journal_ok plan (ow_journal w) recs
       \<and> (ow_checkpoint w = None \<or> (\<exists>p. ow_checkpoint w = Some (Some (PDict p)) \<and> file_ok fromiso plan recs p)))"

lemma plan_ok_strings:
  assumes "plan_ok fromiso sha now plan"
  obtains s a where "dget plan ''plan_sha'' = PStr s" "hex64 s" "dget plan ''asset'' = PStr a" "a \<in> set ASSET_ORDER"
proof -
  from assms obtain s where "dget plan ''plan_sha'' = PStr s" "hex64 s"
    unfolding plan_ok_def sealed_ok_def using canonical_hash_hex64 by blast
  moreover from assms obtain a where "dget plan ''asset'' = PStr a" "a \<in> set ASSET_ORDER"
    unfolding plan_ok_def ALLOWED_ASSETS_def ASSET_ORDER_def by blast
  ultimately show ?thesis by (rule that)
qed

lemma journal_ok_records:
  assumes "journal_ok plan f recs"
  shows "journal.chained ZERO_HASH recs" and "journal_head (journal_of plan f) = (int (length recs), journal.head ZERO_HASH recs)"
    and "length (jf_rows f) = length recs" and "\<forall>i < length recs. jr_sequence (jf_rows f ! i) = 1 + int i"
proof -
  from assms obtain recs' where r: "emap (record_from_row (journal_of plan f)) (jf_rows f) = Inr recs'" "journal.chained ZERO_HASH recs'"
    "journal_head (journal_of plan f) = (int (length recs'), journal.head ZERO_HASH recs')"
    "\<forall>i < length recs'. jr_sequence (jf_rows f ! i) = 1 + int i" "length (jf_rows f) = length recs'"
    unfolding journal_ok_def by (elim conjE) (erule journal_validate_Inr, simp add: journal_of_def)
  then have "recs' = recs" using assms by (simp add: journal_ok_def)
  with r show "journal.chained ZERO_HASH recs" "journal_head (journal_of plan f) = (int (length recs), journal.head ZERO_HASH recs)"
    "length (jf_rows f) = length recs" "\<forall>i < length recs. jr_sequence (jf_rows f ! i) = 1 + int i" by simp_all
qed

text \<open>Opening the journal of a world.\<close>

lemma journal_ok_open:
  assumes "journal_ok plan f recs" and "plan_ok fromiso sha now plan"
  shows "\<exists>g. journal_open (dget plan ''plan_sha'') (dget plan ''asset'') f = (Inr (journal_of plan g), g) \<and> journal_ok plan g recs"
proof -
  from assms(2) obtain s a where sa: "dget plan ''plan_sha'' = PStr s" "hex64 s" "dget plan ''asset'' = PStr a" "a \<in> set ASSET_ORDER"
    by (rule plan_ok_strings)
  define g where "g = f\<lparr>jf_metadata := Some (journal_metadata s a)\<rparr>"
  have "py_eq_list (journal_metadata s a) (journal_metadata s a)" by (simp add: journal_metadata_def journal_authority_def)
  then have init: "initialize_schema s a f = Inr g"
    using assms(1) sa by (auto simp: journal_ok_def initialize_schema_def g_def)
  have j: "journal_of plan h = \<lparr>jn_plan_sha = s, jn_asset = a, jn_file = h\<rparr>" for h by (simp add: journal_of_def sa)
  have row: "record_from_row (journal_of plan g) = record_from_row (journal_of plan f)" by (rule record_from_row_same) (simp_all add: j)
  have scan: "scan_journal_row (journal_of plan g) = scan_journal_row (journal_of plan f)" by (intro ext) (simp add: scan_journal_row_def row)
  have valid: "journal_validate (journal_of plan g) = Inr ()"
    using assms(1) by (simp add: journal_ok_def journal_validate_def scan) (simp add: journal_of_def g_def)
  then have "journal_ok plan g recs" using assms(1) row by (simp add: journal_ok_def g_def sa)
  moreover have "journal_open (PStr s) (PStr a) f = (Inr (journal_of plan g), g)"
    using sa init valid by (simp add: journal_open_def hex64_len64 hex64_reads j Let_def)
  ultimately show ?thesis using sa by auto
qed


text \<open>The digest at a position of the chain.\<close>

lemma hash_at_chain:
  assumes "journal_ok plan f recs" and "n \<le> length recs"
  shows "hash_at (journal_of plan f) (PInt (int n)) = Inr (journal.head ZERO_HASH (take n recs))"
proof (cases n)
  case (Suc m)
  note r = journal_ok_records [OF assms(1)]
  let ?rows = "jf_rows f"
  have m: "m < length ?rows" using Suc assms(2) r(3) by simp
  have find: "List.find (\<lambda>r. jr_sequence r = int n) ?rows = Some (?rows ! m)"
    unfolding find_Some_iff using m r(3,4) Suc by (intro exI [of _ m]) auto
  from assms(1) have recs: "emap (record_from_row (journal_of plan f)) ?rows = Inr recs" by (simp add: journal_ok_def)
  from emap_Inr_nth [OF recs m] obtain x t where "recs ! m = record_payload (jn_plan_sha (journal_of plan f)) (jn_asset (journal_of plan f))
      (jr_sequence (?rows ! m)) (jr_previous (?rows ! m)) (jr_channel (?rows ! m)) x t live_proof @ [(''record_hash'', jr_hash (?rows ! m))]"
    and len: "is_len64 (jr_hash (?rows ! m))" by (rule record_from_row_Inr)
  then have "jr_hash (?rows ! m) = PStr (journal_stamp (recs ! m))"
    by (auto simp: journal_stamp_def is_len64_def is_str_iff)
  moreover have "journal.head ZERO_HASH (take n recs) = journal_stamp (recs ! m)"
    using m r(3) Suc by (simp add: take_Suc_conv_app_nth)
  ultimately show ?thesis using find Suc by (simp add: hash_at_def journal_of_def)
qed (simp add: hash_at_def)

lemma alignment_ok:
  assumes "journal_ok plan f recs" and "state_ok fromiso plan recs d"
  shows "check_alignment d (journal_of plan f) = Inr ()"
proof -
  from assms(2) obtain n where n: "n \<le> length recs" "dget d ''journal_applied_through'' = PInt (int n)"
    "dget d ''journal_applied_hash'' = PStr (journal.head ZERO_HASH (take n recs))" by (auto simp: state_ok_def cursor_ok_def)
  with assms(1) show ?thesis
    by (simp add: check_alignment_def journal_ok_records(2) hash_at_chain) (simp add: journal_ok_def)
qed

text \<open>Arming from a checkpoint gives the engines of the journal up to its position.\<close>

lemma fresh_locked:
  assumes "validate_commander_plan fromiso (PDict plan) sha now = Inr []"
  obtains es where "emap arm_line (plan_lines plan) = Inr es" "bridge_inv plan (fresh_bridge plan es)"
    "bridge_arm fromiso (PDict plan) sha now None = Inr (fresh_bridge plan es)"
    "\<And>g. bridge_arm fromiso (PDict plan) sha now (Some g) = ebind (restore_gate6a_state (br_adapter (fresh_bridge plan es)) g) bridge_init"
proof -
  from bridge_arm_None [OF assms] obtain a where a: "bridge_arm fromiso (PDict plan) sha now None
      = Inr \<lparr>br_adapter = a, br_last_count = 0, br_close_count = 0, br_ignored_count = 0\<rparr>"
    "adapter_locked plan IBKR_LIVE a" "ad_events a = []"
    "\<And>g. bridge_arm fromiso (PDict plan) sha now (Some g) = ebind (restore_gate6a_state a g) bridge_init" by metis
  from a(1) have es: "emap arm_line (plan_lines plan) = Inr (ad_engines a)"
    by (auto simp: bridge_arm_def arm_live_def adapter_init_def bridge_init_def ebind_Inr_iff Let_def split: if_splits)
  have "br_adapter (fresh_bridge plan (ad_engines a)) = a"
    using a(2,3) by (cases a) (simp add: fresh_bridge_def adapter_locked_def)
  then show ?thesis using es a by (intro that [of "ad_engines a"]) (simp_all add: bridge_inv_def fresh_bridge_def)
qed

lemma arm_ok:
  assumes "validate_commander_plan fromiso (PDict plan) sha now = Inr []" and "plan_ok fromiso sha now plan"
    and "replayed_engines fromiso plan xs = Inr es" and "json_reload g = json_reload (gate_of plan es)" and "json_reload g = g"
  shows "\<exists>b. bridge_arm fromiso (PDict plan) sha now (Some g) = Inr b \<and> same_gate (fresh_bridge plan es) b \<and> ad_events (br_adapter b) = []
    \<and> bridge_inv plan b"
proof -
  from fresh_locked [OF assms(1)] obtain es0 where es0: "emap arm_line (plan_lines plan) = Inr es0"
    and lock: "bridge_inv plan (fresh_bridge plan es0)"
    and arm: "bridge_arm fromiso (PDict plan) sha now (Some g) = ebind (restore_gate6a_state (br_adapter (fresh_bridge plan es0)) g) bridge_init"
    by metis
  from assms(3) obtain b where b: "feed_records fromiso xs (fresh_bridge plan es0) = Inr b" "ad_engines (br_adapter b) = es"
    by (auto simp: replayed_engines_def es0 ebind_Inr_iff)
  have lb: "bridge_inv plan b" using feed_records_locked [OF b(1) lock] .
  let ?a = "br_adapter b" and ?f = "br_adapter (fresh_bridge plan es0)"
  from assms(2) obtain s a where "dget plan ''plan_sha'' = PStr s" "dget plan ''asset'' = PStr a" by (rule plan_ok_strings)
  then have strs: "is_str (dget (ad_plan ?a) ''plan_sha'')" "is_str (dget (ad_plan ?a) ''asset'')"
    using lb by (simp_all add: bridge_inv_def adapter_locked_def)
  have g: "g = json_reload (PDict (gate6a_state ?a))"
    using assms(4,5) gate_of_adapter [of ?a plan] lb b(2) by (simp add: bridge_inv_def adapter_locked_def del: json_reload.simps(2))
  have "restore_gate6a_state ?f (PDict (gate6a_state ?a)) = Inr (?f\<lparr>ad_engines := es\<rparr>)"
    using lock lb b(2) restore_checkpoint [of ?a ?f] by (simp add: bridge_inv_def adapter_locked_def)
  then have "bridge_arm fromiso (PDict plan) sha now (Some g) = bridge_init (?f\<lparr>ad_engines := es\<rparr>)"
    using arm restore_checkpoint_reload [OF strs, of ?f] by (simp add: g del: json_reload.simps(2))
  then have "bridge_arm fromiso (PDict plan) sha now (Some g) = Inr (fresh_bridge plan es)"
    by (simp add: bridge_init_def fresh_bridge_def)
  then show ?thesis using bridge_arm_locked(1) by (auto simp: same_gate_def) (simp add: fresh_bridge_def)
qed

text \<open>The start of a cycle over a sound world: only the replay can raise.\<close>

lemma start_ok:
  assumes "journal_ok plan f recs" and "state_ok fromiso plan recs d"
    and "json_reload (dget d ''gate6a_state'') = dget d ''gate6a_state''"
    and "validate_commander_plan fromiso (PDict plan) sha now = Inr []" and "plan_ok fromiso sha now plan"
  obtains n es b where "n \<le> length recs" "dget d ''journal_applied_through'' = PInt (int n)"
    "replayed_engines fromiso plan (take n recs) = Inr es" "same_gate (fresh_bridge plan es) b" "bridge_inv plan b"
    "bridge_arm fromiso (PDict plan) sha now (if dget d ''gate6a_state'' = PNone then None else Some (dget d ''gate6a_state'')) = Inr b"
    "records_after (journal_of plan f) (PInt (int n)) = Inr (drop n recs)"
proof -
  let ?g = "dget d ''gate6a_state''"
  from assms(2) obtain n where n: "n \<le> length recs" "dget d ''journal_applied_through'' = PInt (int n)"
    and cases: "n = 0 \<and> ?g = PNone \<or> (\<exists>es. replayed_engines fromiso plan (take n recs) = Inr es
       \<and> json_reload ?g = json_reload (gate_of plan es))" by (auto simp: state_ok_def cursor_ok_def)
  have "\<exists>es b. replayed_engines fromiso plan (take n recs) = Inr es \<and> same_gate (fresh_bridge plan es) b \<and> bridge_inv plan b
    \<and> bridge_arm fromiso (PDict plan) sha now (if ?g = PNone then None else Some ?g) = Inr b"
    using cases
  proof (elim disjE conjE exE)
    assume z: "n = 0" "?g = PNone"
    from fresh_locked [OF assms(4)] obtain es where "emap arm_line (plan_lines plan) = Inr es" "bridge_inv plan (fresh_bridge plan es)"
      "bridge_arm fromiso (PDict plan) sha now None = Inr (fresh_bridge plan es)" by metis
    moreover have "replayed_engines fromiso plan [] = Inr es" if "emap arm_line (plan_lines plan) = Inr es"
      using that by (simp add: replayed_engines_def feed_records_def) (simp add: fresh_bridge_def)
    ultimately show ?thesis using z by (intro exI [of _ es] exI [of _ "fresh_bridge plan es"]) (simp add: same_gate_def)
  next
    fix es assume es: "replayed_engines fromiso plan (take n recs) = Inr es" "json_reload ?g = json_reload (gate_of plan es)"
    then have "?g \<noteq> PNone" using is_dict_gate by fastforce
    then show ?thesis using arm_ok [OF assms(4,5) es assms(3)] es(1) by auto
  qed
  moreover have "records_after (journal_of plan f) (PInt (int n)) = Inr (drop n recs)"
  proof -
    from assms(1) have j: "journal_validate (journal_of plan f) = Inr ()" "emap (record_from_row (journal_of plan f)) (jf_rows f) = Inr recs"
      by (simp_all add: journal_ok_def)
    have "emap (record_from_row (journal_of plan f)) (take n (jf_rows f) @ drop n (jf_rows f)) = Inr recs" using j(2) by simp
    then obtain us vs where uv: "emap (record_from_row (journal_of plan f)) (take n (jf_rows f)) = Inr us"
      "emap (record_from_row (journal_of plan f)) (drop n (jf_rows f)) = Inr vs" "recs = us @ vs"
      unfolding emap_append by (auto simp: ebind_Inr_iff)
    have len: "length (take n (jf_rows f)) = n" using n(1) journal_ok_records(3) [OF assms(1)] by simp
    then have "length us = n" using emap_length [OF uv(1)] by simp
    then have "vs = drop n recs" using uv(3) by simp
    then show ?thesis using records_after_suffix [OF j(1), of "take n (jf_rows f)" "drop n (jf_rows f)" vs] uv(2) len
      by (simp add: journal_of_def)
  qed
  ultimately show ?thesis using n that by blast
qed


section \<open>Every effect keeps the invariant\<close>

text \<open>A journal of the plan that continues given records.\<close>

definition continues :: "dict \<Rightarrow> dict list \<Rightarrow> journal \<Rightarrow> bool" where
  "continues plan recs j \<longleftrightarrow> jn_plan_sha j = str_of (dget plan ''plan_sha'') \<and> jn_asset j = str_of (dget plan ''asset'')
     \<and> (\<exists>more. journal_ok plan (jn_file j) (recs @ more))"

lemma journal_of_file:
  "jn_plan_sha j = str_of (dget plan ''plan_sha'') \<Longrightarrow> jn_asset j = str_of (dget plan ''asset'') \<Longrightarrow> journal_of plan (jn_file j) = j"
  by (cases j) (simp add: journal_of_def)

lemma continues_trans: "continues plan (recs @ xs) j \<Longrightarrow> continues plan recs j"
  by (auto simp: continues_def)

lemma commit_fields:
  assumes "commit_observation j ob = Inr (j', n)" and "journal_validate j = Inr ()"
  shows "journal_validate j' = Inr ()" and "jn_plan_sha j' = jn_plan_sha j" and "jn_asset j' = jn_asset j"
    and "jf_metadata (jn_file j') = jf_metadata (jn_file j)"
    and "j' = j \<or> (\<exists>r rec. jf_rows (jn_file j') = jf_rows (jn_file j) @ [r] \<and> record_from_row j r = Inr rec)"
proof -
  note c = commit_observation_Inr [OF assms]
  show "journal_validate j' = Inr ()" by (rule c [THEN conjunct1])
  show "jn_plan_sha j' = jn_plan_sha j" by (rule c [THEN conjunct2, THEN conjunct1])
  show "jn_asset j' = jn_asset j" by (rule c [THEN conjunct2, THEN conjunct2, THEN conjunct1])
  show "jf_metadata (jn_file j') = jf_metadata (jn_file j)" by (rule c [THEN conjunct2, THEN conjunct2, THEN conjunct2, THEN conjunct1])
  show "j' = j \<or> (\<exists>r rec. jf_rows (jn_file j') = jf_rows (jn_file j) @ [r] \<and> record_from_row j r = Inr rec)"
    using c [THEN conjunct2, THEN conjunct2, THEN conjunct2, THEN conjunct2] by (elim disjE conjE exE) simp_all
qed

lemma commit_continues:
  assumes "commit_observation j ob = Inr (j', n)" and "continues plan recs j"
  shows "continues plan recs j'"
proof -
  from assms(2) obtain xs where names: "jn_plan_sha j = str_of (dget plan ''plan_sha'')" "jn_asset j = str_of (dget plan ''asset'')"
    and ok: "journal_ok plan (jn_file j) (recs @ xs)" by (auto simp: continues_def)
  have jj: "journal_of plan (jn_file j) = j" by (rule journal_of_file [OF names])
  then have valid: "journal_validate j = Inr ()" and recs: "emap (record_from_row j) (jf_rows (jn_file j)) = Inr (recs @ xs)"
    using ok by (simp_all add: journal_ok_def)
  note c = commit_fields [OF assms(1) valid]
  have names': "jn_plan_sha j' = str_of (dget plan ''plan_sha'')" "jn_asset j' = str_of (dget plan ''asset'')"
    using c(2,3) names by simp_all
  have jj': "journal_of plan (jn_file j') = j'" by (rule journal_of_file [OF names'])
  have row: "record_from_row j' = record_from_row j" by (rule record_from_row_same) (simp_all add: names names')
  from c(5) consider "j' = j" | r rec where "jf_rows (jn_file j') = jf_rows (jn_file j) @ [r]" "record_from_row j r = Inr rec" by blast
  then show ?thesis
  proof cases
    case 2
    then have "emap (record_from_row j') (jf_rows (jn_file j')) = Inr (recs @ (xs @ [rec]))"
      using recs by (simp add: row emap_append)
    then have "journal_ok plan (jn_file j') (recs @ (xs @ [rec]))"
      using ok c(1,4) by (simp add: journal_ok_def jj')
    then show ?thesis using names' unfolding continues_def by blast
  qed (use assms(2) in simp)
qed

lemma commit_rest_continues: "continues plan recs j \<Longrightarrow> k \<in> set (commit_rest obs j) \<Longrightarrow> continues plan recs k"
  by (induction obs arbitrary: j) (auto split: sum.splits prod.splits dest: commit_continues)

lemma forward_continues:
  assumes "sink_forward fromiso ob s = (x, j)" and "continues plan recs (sk_journal s)"
  shows "continues plan recs j"
proof (cases "commit_observation (sk_journal s) ob")
  case (Inl e)
  with assms show ?thesis by (simp add: sink_forward_def)
next
  case (Inr p)
  obtain k n where "p = (k, n)" by (cases p)
  with assms(1) Inr have "j = k" "commit_observation (sk_journal s) ob = Inr (k, n)" by (auto simp: sink_forward_def)
  with commit_continues assms(2) show ?thesis by metis
qed

lemma sink_run_continues:
  "sink_run fromiso obs s = (r, js) \<Longrightarrow> continues plan recs (sk_journal s) \<Longrightarrow> k \<in> set js \<Longrightarrow> continues plan recs k"
proof (induction obs arbitrary: s r js)
  case (Cons ob obs)
  obtain x j where fwd: "sink_forward fromiso ob s = (x, j)" by fastforce
  have j: "continues plan recs j" by (rule forward_continues [OF fwd Cons.prems(2)])
  show ?case
  proof (cases x)
    case (Inl e)
    then have "js = [j]" using fwd Cons.prems(1) by simp
    then show ?thesis using j Cons.prems(3) by simp
  next
    case (Inr t)
    have t: "sk_journal t = j" using fwd Inr sink_forward_Inr by metis
    obtain r' js' where rest: "sink_run fromiso obs t = (r', js')" by fastforce
    then have "js = j # js'" using Cons.prems(1) fwd Inr by simp
    then consider "k = j" | "k \<in> set js'" using Cons.prems(3) by auto
    then show ?thesis using j Cons.IH [OF rest] t by cases simp_all
  qed
qed simp

lemma sink_run_last: "sink_run fromiso obs s = (Inr t, js) \<Longrightarrow> sk_journal t = last (sk_journal s # js)"
proof (induction obs arbitrary: s js)
  case (Cons ob obs)
  then obtain u j js' where fwd: "sink_forward fromiso ob s = (Inr u, j)" and rest: "sink_run fromiso obs u = (Inr t, js')"
    and js: "js = j # js'" by (auto split: prod.splits sum.splits)
  have "sk_journal u = j" using fwd sink_forward_Inr by metis
  then show ?case using Cons.IH [OF rest] js by simp
qed simp

lemma collect_continues:
  assumes "collect env call s = (r, js)" and "continues plan recs (sk_journal s)" and "k \<in> set js"
  shows "continues plan recs k"
proof -
  obtain x ks where run: "sink_run (oe_iso env) (oc_obs call) s = (x, ks)" by fastforce
  note k = sink_run_continues [OF run assms(2)]
  have last: "continues plan recs (last (sk_journal s # ks))"
  proof (cases "ks = []")
    case False
    then show ?thesis using k [OF last_in_set [OF False]] by simp
  qed (use assms(2) in simp)
  show ?thesis
  proof (cases x)
    case (Inl e)
    with run assms(1,3) k commit_rest_continues [OF last] show ?thesis by (auto simp: collect_def)
  next
    case (Inr t)
    with run assms(1) have "js = ks" by (simp add: collect_def)
    with k assms(3) show ?thesis by simp
  qed
qed

lemma collect_Inr:
  "collect env call s = (Inr (t, c), js) \<Longrightarrow> sink_run (oe_iso env) (oc_obs call) s = (Inr t, js)"
  by (auto simp: collect_def ebind_Inr_iff split: prod.splits sum.splits)

definition sealed_commit :: "iso_parser \<Rightarrow> dict \<Rightarrow> dict list \<Rightarrow> dict \<Rightarrow> bool" where
  "sealed_commit fromiso plan recs c \<longleftrightarrow> (\<exists>st. state_ok fromiso plan recs st \<and> seal_dedupe_state st = Inr c)"

lemma state_ok_of_seal: "sealed_commit fromiso plan recs c \<Longrightarrow> state_ok fromiso plan recs c"
  unfolding sealed_commit_def
proof (elim exE conjE)
  fix st assume st: "state_ok fromiso plan recs st" and "seal_dedupe_state st = Inr c"
  from this(2) obtain h where c: "c = dset ''state_hash'' (PStr h) (dpop ''state_hash'' st)" by (rule sealed_dget)
  show "state_ok fromiso plan recs c"
    by (rule state_ok_same [OF st]) (use st in \<open>auto simp: c set_keys state_ok_def contract_ok_def\<close>)
qed

lemma file_ok_sealed:
  assumes "sealed_commit fromiso plan recs c" and "is_str (dget plan ''plan_sha'')"
  shows "\<exists>p. json_reload (PDict c) = PDict p \<and> file_ok fromiso plan recs p"
  using assms state_ok_seal by (auto simp: sealed_commit_def reload_dict_def [symmetric])

lemma accept_event_Inr:
  assumes "accept_event event fp key s = Inr t"
  obtains lines commit where "dd_state t = dset ''lines'' (PDict lines) (dd_state s)" "dd_commits t = dd_commits s @ [commit]"
    "seal_dedupe_state (dset ''lines'' (PDict lines) (dd_state s)) = Inr commit"
  using assms unfolding accept_event_def Let_def ebind_Inr_iff by (auto simp del: py_index.simps intro: that)

definition dedupe_ok :: "iso_parser \<Rightarrow> dict \<Rightarrow> dict list \<Rightarrow> dedupe_state \<Rightarrow> bool" where
  "dedupe_ok fromiso plan recs s \<longleftrightarrow>
     state_ok fromiso plan recs (dd_state s) \<and> list_all (sealed_commit fromiso plan recs) (dd_commits s)"

lemma accept_event_ok:
  assumes "accept_event event fp key s = Inr t" and "dedupe_ok fromiso plan recs s"
  shows "dedupe_ok fromiso plan recs t"
proof -
  from assms(1) obtain lines commit where t: "dd_state t = dset ''lines'' (PDict lines) (dd_state s)" "dd_commits t = dd_commits s @ [commit]"
    "seal_dedupe_state (dset ''lines'' (PDict lines) (dd_state s)) = Inr commit" by (rule accept_event_Inr)
  have st: "state_ok fromiso plan recs (dd_state s)" using assms(2) by (simp add: dedupe_ok_def)
  then have "dhas (dd_state s) ''lines''"
    unfolding state_ok_def contract_ok_def
    by (elim conjE) (auto simp: set_keys [symmetric] expected_fields_def base_fields_def dest!: equalityD2)
  then have "set (keys (dset ''lines'' (PDict lines) (dd_state s))) = set (keys (dd_state s))" by (auto simp: set_keys)
  then have "state_ok fromiso plan recs (dset ''lines'' (PDict lines) (dd_state s))"
    by (intro state_ok_same [OF st]) simp_all
  then show ?thesis using assms(2) t by (auto simp: dedupe_ok_def sealed_commit_def)
qed

lemma dedupe_event_ok:
  assumes "dedupe_event v s = Inr t" and "dedupe_ok fromiso plan recs s"
  shows "dedupe_ok fromiso plan recs t"
proof -
  from assms(1) obtain fp key where step: "(if repeats_line (dict_of (dget (dd_state s) ''lines'')) key fp
        then Inr (s\<lparr>dd_duplicates := dd_duplicates s @ [dset ''operator_disposition'' (PStr ''DUPLICATE_SKIPPED'') (dict_of v)]\<rparr>)
        else accept_event (dict_of v) fp key s) = Inr t"
    by (cases "is_dict v") (simp_all add: dedupe_event_def Let_def ebind_Inr_iff, elim exE conjE, rule that)
  show ?thesis
  proof (cases "repeats_line (dict_of (dget (dd_state s) ''lines'')) key fp")
    case True
    with step assms(2) show ?thesis by (auto simp: dedupe_ok_def)
  next
    case False
    with step accept_event_ok assms(2) show ?thesis by simp
  qed
qed

lemma dedupe_events_ok:
  assumes "dedupe_events events st = Inr d" and "state_ok fromiso plan recs st"
  shows "list_all (sealed_commit fromiso plan recs) (dd_commits d)"
proof -
  have "dedupe_ok fromiso plan recs d"
  proof (rule efold_inv [OF assms(1) [unfolded dedupe_events_def], where P = "dedupe_ok fromiso plan recs"])
    show "dedupe_ok fromiso plan recs \<lparr>dd_state = st, dd_new = [], dd_duplicates = [], dd_commits = []\<rparr>"
      using assms(2) by (simp add: dedupe_ok_def)
  qed (rule dedupe_event_ok)
  then show ?thesis by (simp add: dedupe_ok_def)
qed

lemma commit_events_ok:
  assumes "commit_events env call i plan ecs w = (r, ws)" and "list_all (sealed_commit fromiso plan recs) (map snd ecs)"
    and "is_str (dget plan ''plan_sha'')" and "v \<in> set ws"
  shows "ow_journal v = ow_journal w \<and> (ow_checkpoint v = ow_checkpoint w
    \<or> (\<exists>p. ow_checkpoint v = Some (Some (PDict p)) \<and> file_ok fromiso plan recs p))"
  using assms
proof (induction ecs arbitrary: i w r ws)
  case (Cons ec ecs)
  obtain event commit where ec: "ec = (event, commit)" by (cases ec)
  obtain x gs where h: "handoff_for_event env (oc_gates call i) event plan (ow_gate w) = (x, gs)" by fastforce
  show ?case
  proof (cases x)
    case (Inl e)
    with Cons.prems h show ?thesis by (auto simp: ec)
  next
    case (Inr hd)
    define w' where "w' = w\<lparr>ow_gate := last (ow_gate w # gs), ow_checkpoint := Some (Some (json_reload (PDict commit)))\<rparr>"
    obtain y vs where rest: "commit_events env call (Suc i) plan ecs w' = (y, vs)" by fastforce
    with Cons.prems(1) h Inr have ws: "ws = map (\<lambda>g. w\<lparr>ow_gate := g\<rparr>) gs @ w' # vs" by (simp add: ec w'_def Let_def)
    have p: "\<exists>p. ow_checkpoint w' = Some (Some (PDict p)) \<and> file_ok fromiso plan recs p"
      using file_ok_sealed [of fromiso plan recs commit] Cons.prems(2,3) by (auto simp: ec w'_def simp del: json_reload.simps(2))
    have tail: "list_all (sealed_commit fromiso plan recs) (map snd ecs)" using Cons.prems(2) by simp
    have w': "ow_journal w' = ow_journal w" by (simp add: w'_def)
    from Cons.prems(4) consider "\<exists>g. v = w\<lparr>ow_gate := g\<rparr>" | "v = w'" | "v \<in> set vs" by (auto simp: ws)
    then show ?thesis
    proof cases
      case 3
      from Cons.IH [OF rest tail Cons.prems(3) 3] p w' show ?thesis by auto
    qed (use p w' in auto)
  qed
qed simp


lemma keys_dset: "set (keys (dset k v d)) = insert k (set (keys d))"
  by (auto simp: set_keys)

lemma keys_dpop: "set (keys (dpop k d)) = set (keys d) - {k}"
  by (auto simp: set_keys)

lemma completed_fields:
  "dget (completed_state runtime d b j) ''journal_applied_hash'' = PStr (snd (journal_head j))"
  "dget (completed_state runtime d b j) ''journal_applied_through'' = PInt (fst (journal_head j))"
  "dget (completed_state runtime d b j) ''checkpoint_commit_scope'' = PStr CHECKPOINT_COMMIT_SCOPE"
  "dget (completed_state runtime d b j) ''restart_continuity'' = PStr RESTART_CONTINUITY"
  "dget (completed_state runtime d b j) ''gate6a_state'' = PDict (gate6a_state (br_adapter b))"
  "k \<notin> {''journal_applied_hash'', ''journal_applied_through'', ''checkpoint_commit_scope'', ''restart_continuity'', ''gate6a_state'',
     ''state_hash''} \<Longrightarrow> dget (completed_state runtime d b j) k = dget (last (runtime # dd_commits d)) k"
  by (simp_all add: completed_state_def)

lemma insert_union_minus: "K \<subseteq> insert a S \<Longrightarrow> insert a (K \<union> (S - {a})) = insert a S"
  by blast

lemma completed_keys:
  assumes "insert ''state_hash'' (set (keys (last (runtime # dd_commits d)))) = set (expected_fields DEDUPE_SCHEMA_VERSION)"
  shows "insert ''state_hash'' (set (keys (completed_state runtime d b j))) = set (expected_fields DEDUPE_SCHEMA_VERSION)"
proof -
  have "{''gate6a_state'', ''checkpoint_commit_scope'', ''journal_applied_through'', ''journal_applied_hash'', ''restart_continuity''}
      \<subseteq> set (expected_fields DEDUPE_SCHEMA_VERSION)" by (simp add: expected_fields_def base_fields_def)
  then have "insert ''state_hash'' ({''gate6a_state'', ''checkpoint_commit_scope'', ''journal_applied_through'', ''journal_applied_hash'',
      ''restart_continuity''} \<union> (set (keys (last (runtime # dd_commits d))) - {''state_hash''})) = set (expected_fields DEDUPE_SCHEMA_VERSION)"
    unfolding assms [symmetric] by (rule insert_union_minus)
  moreover have "set (keys (completed_state runtime d b j)) = {''gate6a_state'', ''checkpoint_commit_scope'', ''journal_applied_through'',
      ''journal_applied_hash'', ''restart_continuity''} \<union> (set (keys (last (runtime # dd_commits d))) - {''state_hash''})"
    unfolding completed_state_def keys_dset keys_dpop by (simp only: Un_insert_left Un_empty_left insert_commute)
  ultimately show ?thesis by simp
qed

lemma completed_state_ok:
  assumes "state_ok fromiso plan recs (last (runtime # dd_commits d))"
    and "replayed_engines fromiso plan recs = Inr (ad_engines (br_adapter b))" and "ad_plan (br_adapter b) = plan"
    and "journal_head j = (int (length recs), journal.head ZERO_HASH recs)"
  shows "state_ok fromiso plan recs (completed_state runtime d b j)"
proof -
  let ?d = "last (runtime # dd_commits d)" and ?c = "completed_state runtime d b j"
  have c: "contract_ok plan ?d" using assms(1) by (simp add: state_ok_def)
  have keys: "insert ''state_hash'' (set (keys ?c)) = set (expected_fields DEDUPE_SCHEMA_VERSION)"
    using c by (intro completed_keys) (simp add: contract_ok_def)
  have auth: "\<forall>(k, x) \<in> set operator_authority. dget ?c k = x"
    using c unfolding contract_ok_def operator_authority_def
    by (simp add: completed_fields(6) del: last.simps)
  have rest: "dget ?c ''schema_version'' = dget ?d ''schema_version''" "dget ?c ''plan_sha'' = dget ?d ''plan_sha''"
    "dget ?c ''lines'' = dget ?d ''lines''" by (rule completed_fields(6), simp)+
  have "contract_ok plan ?c"
    unfolding contract_ok_def using c keys auth rest by (simp only: completed_fields contract_ok_def)
  moreover have "cursor_ok fromiso plan recs ?c"
    unfolding cursor_ok_def completed_fields assms(4) gate_of_adapter [OF assms(3)]
    using assms(2) by (intro exI [of _ "length recs"]) simp
  ultimately show ?thesis by (simp add: state_ok_def)
qed


section \<open>Cycles\<close>

definition checkpoint_ok :: "iso_parser \<Rightarrow> dict \<Rightarrow> dict list \<Rightarrow> operator_world \<Rightarrow> bool" where
  "checkpoint_ok fromiso plan recs w \<longleftrightarrow>
     ow_checkpoint w = None \<or> (\<exists>p. ow_checkpoint w = Some (Some (PDict p)) \<and> file_ok fromiso plan recs p)"

lemma world_ok_alt:
  "world_ok fromiso plan w \<longleftrightarrow> (\<exists>recs. journal_ok plan (ow_journal w) recs \<and> checkpoint_ok fromiso plan recs w)"
  by (simp add: world_ok_def checkpoint_ok_def)

lemma file_ok_extend: "file_ok fromiso plan recs p \<Longrightarrow> file_ok fromiso plan (recs @ xs) p"
  by (simp add: file_ok_def state_ok_extend)

lemma checkpoint_ok_extend: "checkpoint_ok fromiso plan recs w \<Longrightarrow> checkpoint_ok fromiso plan (recs @ xs) w"
  by (auto simp: checkpoint_ok_def intro: file_ok_extend)

lemma checkpoint_ok_load:
  assumes "checkpoint_ok fromiso plan recs w" and "journal_ok plan f recs" and "is_str (dget plan ''plan_sha'')"
  shows "\<exists>st. load_dedupe_state (ow_checkpoint w) (dget plan ''plan_sha'') = Inr st \<and> state_ok fromiso plan recs st
    \<and> json_reload (dget st ''gate6a_state'') = dget st ''gate6a_state''"
  using assms(1) unfolding checkpoint_ok_def
proof (elim disjE exE conjE)
  assume "ow_checkpoint w = None"
  then show ?thesis using fresh_state_ok by (auto simp: load_dedupe_state_def) (simp add: dedupe_payload_def)
next
  fix p assume "ow_checkpoint w = Some (Some (PDict p))" and p: "file_ok fromiso plan recs p"
  then show ?thesis using load_ok [OF p journal_ok_records(1) [OF assms(2)] assms(3)] by (simp add: file_ok_def)
qed

text \<open>What a completed cycle leaves: a checkpoint at the head of the journal.\<close>

definition checkpoint_at_head :: "dict \<Rightarrow> dict list \<Rightarrow> engine list \<Rightarrow> operator_world \<Rightarrow> bool" where
  "checkpoint_at_head plan recs es w \<longleftrightarrow> (\<exists>p. ow_checkpoint w = Some (Some (PDict p))
     \<and> dget p ''journal_applied_through'' = PInt (int (length recs)) \<and> dget p ''gate6a_state'' = json_reload (gate_of plan es))"

lemma completed_commit:
  assumes "state_ok fromiso plan recs (last (runtime # dd_commits d))" and "is_str (dget plan ''plan_sha'')"
    and "replayed_engines fromiso plan recs = Inr (ad_engines (br_adapter b))" and "ad_plan (br_adapter b) = plan"
    and "journal_head j = (int (length recs), journal.head ZERO_HASH recs)"
    and "seal_dedupe_state (completed_state runtime d b j) = Inr commit"
    and "v = w\<lparr>ow_checkpoint := Some (Some (json_reload (PDict commit)))\<rparr>"
  shows "checkpoint_ok fromiso plan recs v" and "checkpoint_at_head plan recs (ad_engines (br_adapter b)) v"
proof -
  have v: "ow_checkpoint v = Some (Some (PDict (reload_dict commit)))" by (simp add: assms(7) reload_dict_def)
  have "file_ok fromiso plan recs (reload_dict commit)"
    by (rule state_ok_seal [OF completed_state_ok [OF assms(1,3-5)] assms(6,2)])
  then show "checkpoint_ok fromiso plan recs v" using v by (simp add: checkpoint_ok_def)
  from assms(6) obtain h where "commit = dset ''state_hash'' (PStr h) (dpop ''state_hash'' (completed_state runtime d b j))" by (rule sealed_dget)
  then show "checkpoint_at_head plan recs (ad_engines (br_adapter b)) v"
    using v assms(5) gate_of_adapter [OF assms(4)] by (simp add: checkpoint_at_head_def completed_fields del: json_reload.simps(2))
qed

text \<open>The end of a cycle.\<close>

lemma finish_ok:
  assumes "finish_cycle env call plan runtime n t capture w = (r, vs)" and "state_ok fromiso plan recs runtime"
    and "checkpoint_ok fromiso plan recs w" and "is_str (dget plan ''plan_sha'')"
    and "replayed_engines fromiso plan recs = Inr (ad_engines (br_adapter (sk_bridge t)))" and "ad_plan (br_adapter (sk_bridge t)) = plan"
    and "journal_head (sk_journal t) = (int (length recs), journal.head ZERO_HASH recs)"
  shows "(\<forall>v \<in> set vs. ow_journal v = ow_journal w \<and> checkpoint_ok fromiso plan recs v)
    \<and> ((\<exists>e. r = Inl e) \<or> vs \<noteq> [] \<and> checkpoint_at_head plan recs (ad_engines (br_adapter (sk_bridge t))) (last vs))"
proof (cases "dedupe_events (ad_events (br_adapter (sk_bridge t))) runtime")
  case (Inl e)
  with assms(1) show ?thesis by (auto simp: finish_cycle_def)
next
  case (Inr d)
  have commits: "list_all (sealed_commit fromiso plan recs) (dd_commits d)" by (rule dedupe_events_ok [OF Inr assms(2)])
  then have zipped: "list_all (sealed_commit fromiso plan recs) (map snd (zip (dd_new d) (dd_commits d)))"
    by (auto simp: list_all_iff dest: set_zip_rightD)
  obtain x ws where ev: "commit_events env call 0 plan (zip (dd_new d) (dd_commits d)) w = (x, ws)" by fastforce
  have ws: "ow_journal v = ow_journal w \<and> checkpoint_ok fromiso plan recs v" if "v \<in> set ws" for v
    using commit_events_ok [OF ev zipped assms(4) that] assms(3) unfolding checkpoint_ok_def by metis
  let ?c = "completed_state runtime d (sk_bridge t) (sk_journal t)"
  show ?thesis
  proof (cases "\<exists>hs commit. x = Inr hs \<and> seal_dedupe_state ?c = Inr commit")
    case False
    then consider e where "x = Inl e" | hs e where "x = Inr hs" "seal_dedupe_state ?c = Inl e"
      by (cases x; cases "seal_dedupe_state ?c") auto
    then have "\<exists>e. finish_cycle env call plan runtime n t capture w = (Inl e, ws)"
      using Inr ev by cases (simp_all add: finish_cycle_def)
    then obtain e where "r = Inl e" "vs = ws" using assms(1) by auto
    then show ?thesis using ws by blast
  next
    case True
    then obtain hs commit where hs: "x = Inr hs" and commit: "seal_dedupe_state ?c = Inr commit" by blast
    define v where "v = (last (w # ws))\<lparr>ow_checkpoint := Some (Some (json_reload (PDict commit)))\<rparr>"
    have vs: "vs = ws @ [v]" using assms(1) Inr ev hs commit by (simp add: finish_cycle_def v_def Let_def del: json_reload.simps(2))
    have jw: "ow_journal v = ow_journal w" using ws last_in_set [of ws] by (auto simp: v_def)
    have "state_ok fromiso plan recs (last (runtime # dd_commits d))"
      using assms(2) commits state_ok_of_seal last_in_set [of "dd_commits d"] by (auto simp: list_all_iff)
    note completed_commit [OF this assms(4-7) commit v_def]
    then show ?thesis using ws vs jw by auto
  qed
qed

text \<open>The stages of a cycle over a sound world.\<close>

lemma start_bridge_ok:
  assumes "start_bridge env call plan st j = Inr (s, n)" and "j = journal_of plan f" and "journal_ok plan f recs"
    and "state_ok (oe_iso env) plan recs st" and "json_reload (dget st ''gate6a_state'') = dget st ''gate6a_state''"
    and "validate_commander_plan (oe_iso env) (PDict plan) (oc_sha call) (oc_now call) = Inr []"
    and "plan_ok (oe_iso env) (oc_sha call) (oc_now call) plan"
  shows "sk_journal s = j \<and> bridge_inv plan (sk_bridge s)
    \<and> replayed_engines (oe_iso env) plan recs = Inr (ad_engines (br_adapter (sk_bridge s)))"
proof -
  from start_ok [OF assms(3-7)] obtain m es b where m: "m \<le> length recs" "dget st ''journal_applied_through'' = PInt (int m)"
    and es: "replayed_engines (oe_iso env) plan (take m recs) = Inr es" and gate: "same_gate (fresh_bridge plan es) b" and inv: "bridge_inv plan b"
    and arm: "bridge_arm (oe_iso env) (PDict plan) (oc_sha call) (oc_now call)
        (if dget st ''gate6a_state'' = PNone then None else Some (dget st ''gate6a_state'')) = Inr b"
    and after: "records_after (journal_of plan f) (PInt (int m)) = Inr (drop m recs)" by metis
  from assms(1) alignment_ok [OF assms(3,4)] arm after m(2) obtain b' where
    feed: "feed_records (oe_iso env) (drop m recs) b = Inr b'" and s: "s = \<lparr>sk_journal = j, sk_bridge = b', sk_appended = 0\<rparr>"
    by (auto simp: start_bridge_def assms(2) replay_observations_def feed_records_def ebind_Inr_iff simp del: if_split)
  from replayed_engines_append [OF es gate feed] have "replayed_engines (oe_iso env) plan recs = Inr (ad_engines (br_adapter b'))" by simp
  with s feed_records_locked [OF feed inv] show ?thesis by simp
qed

lemma collect_ok:
  assumes "sink_run fromiso obs s = (Inr t, js)" and "sk_journal s = journal_of plan f" and "journal_ok plan f recs"
    and "bridge_inv plan (sk_bridge s)" and "replayed_engines fromiso plan recs = Inr (ad_engines (br_adapter (sk_bridge s)))"
    and "is_str (dget plan ''asset'')"
  obtains new where "sk_journal t = journal_of plan (jn_file (sk_journal t))" "journal_ok plan (jn_file (sk_journal t)) (recs @ new)"
    "replayed_engines fromiso plan (recs @ new) = Inr (ad_engines (br_adapter (sk_bridge t)))" "bridge_inv plan (sk_bridge t)"
proof -
  let ?j = "sk_journal s"
  have inv: "ad_plan (br_adapter (sk_bridge s)) = plan" "ad_mode (br_adapter (sk_bridge s)) = IBKR_LIVE"
    using assms(4) by (simp_all add: bridge_inv_def adapter_locked_def)
  have valid: "journal_validate ?j = Inr ()" "emap (record_from_row ?j) (jf_rows f) = Inr recs"
    using assms(2,3) by (simp_all add: journal_ok_def)
  have asset: "dget (ad_plan (br_adapter (sk_bridge s))) ''asset'' = PStr (jn_asset ?j)"
    using assms(2,6) inv by (auto simp: journal_of_def is_str_iff)
  have gate: "same_gate (sk_bridge s) (sk_bridge s)" by (simp add: same_gate_def)
  from sink_run_replays [OF assms(1) valid(1) asset gate] obtain rows new c' where
    t: "journal_validate (sk_journal t) = Inr ()" "jn_plan_sha (sk_journal t) = jn_plan_sha ?j" "jn_asset (sk_journal t) = jn_asset ?j"
    "jf_metadata (jn_file (sk_journal t)) = jf_metadata (jn_file ?j)" "jf_rows (jn_file (sk_journal t)) = jf_rows (jn_file ?j) @ rows"
    "emap (record_from_row ?j) rows = Inr new" "efold (\<lambda>rec. bridge_step fromiso (record_obs rec)) new (sk_bridge s) = Inr c'"
    "same_gate (sk_bridge t) c'" by blast
  have names: "jn_plan_sha ?j = str_of (dget plan ''plan_sha'')" "jn_asset ?j = str_of (dget plan ''asset'')" "jn_file ?j = f"
    using assms(2) by (simp_all add: journal_of_def)
  have jt: "journal_of plan (jn_file (sk_journal t)) = sk_journal t" using t(2,3) names by (intro journal_of_file) simp_all
  have row: "record_from_row (sk_journal t) = record_from_row ?j" using t(2,3) by (rule record_from_row_same)
  have "journal_ok plan (jn_file (sk_journal t)) (recs @ new)"
    using assms(3) t(1,4,5,6) valid(2) names(3) by (simp add: journal_ok_def jt row emap_append)
  moreover have "replayed_engines fromiso plan (recs @ new) = Inr (ad_engines (br_adapter c'))"
    using t(7) inv by (intro replayed_engines_append [OF assms(5)]) (simp_all add: feed_records_def same_gate_def fresh_bridge_def)
  ultimately show ?thesis
    using that [of new] jt t(8) sink_run_locked [OF assms(1,4)] by (simp add: same_gate_def)
qed

text \<open>One cycle over a sound world.\<close>

definition cycle_result :: "iso_parser \<Rightarrow> dict \<Rightarrow> dict res \<Rightarrow> operator_world list \<Rightarrow> bool" where
  "cycle_result fromiso plan r ws \<longleftrightarrow> (\<forall>v \<in> set ws. world_ok fromiso plan v)
     \<and> ((\<exists>e. r = Inl e) \<or> ws \<noteq> [] \<and> (\<exists>recs es. journal_ok plan (ow_journal (last ws)) recs
          \<and> replayed_engines fromiso plan recs = Inr es \<and> checkpoint_at_head plan recs es (last ws)))"

lemma continues_world:
  assumes "continues plan recs k" and "checkpoint_ok fromiso plan recs w"
  shows "world_ok fromiso plan (w\<lparr>ow_journal := jn_file k\<rparr>)"
proof -
  from assms(1) obtain new where "journal_ok plan (jn_file k) (recs @ new)" by (auto simp: continues_def)
  with checkpoint_ok_extend [OF assms(2), of new] show ?thesis by (auto simp: world_ok_alt checkpoint_ok_def)
qed

lemma observe_cycle_ok:
  assumes "observe_cycle env call plan st (journal_of plan g) w = (r, ws)" and "ow_journal w = g"
    and "journal_ok plan g recs" and "checkpoint_ok (oe_iso env) plan recs w"
    and "state_ok (oe_iso env) plan recs st" and "json_reload (dget st ''gate6a_state'') = dget st ''gate6a_state''"
    and "validate_commander_plan (oe_iso env) (PDict plan) (oc_sha call) (oc_now call) = Inr []"
    and "plan_ok (oe_iso env) (oc_sha call) (oc_now call) plan"
  shows "cycle_result (oe_iso env) plan r ws"
proof (cases "start_bridge env call plan st (journal_of plan g)")
  case (Inl e)
  with assms(1-4) show ?thesis by (auto simp: observe_cycle_def cycle_result_def world_ok_alt)
next
  case (Inr sn)
  obtain s n where sn: "sn = (s, n)" by (cases sn)
  from assms(8) obtain x y where "dget plan ''plan_sha'' = PStr x" "dget plan ''asset'' = PStr y" by (rule plan_ok_strings)
  then have strs: "is_str (dget plan ''plan_sha'')" "is_str (dget plan ''asset'')" by simp_all
  note sb = start_bridge_ok [OF Inr [unfolded sn] refl assms(3,5-8)]
  obtain c js where col: "collect env call s = (c, js)" by fastforce
  define vs where "vs = w # map (\<lambda>k. w\<lparr>ow_journal := jn_file k\<rparr>) js"
  have "continues plan recs (sk_journal s)"
    using sb assms(3) by (auto simp: continues_def journal_of_def intro: exI [of _ "[]"])
  then have vs: "world_ok (oe_iso env) plan v" if "v \<in> set vs" for v
    using that assms(2-4) collect_continues [OF col] continues_world [OF _ assms(4)] by (auto simp: vs_def world_ok_alt)
  have run: "(r, ws) = (case c of Inl e \<Rightarrow> (Inl e, vs) | Inr (t, capture) \<Rightarrow>
      (case finish_cycle env call plan st n t capture (last vs) of (x, us) \<Rightarrow> (x, vs @ us)))"
    unfolding vs_def using assms(1) Inr sn col by (simp add: observe_cycle_def Let_def)
  show ?thesis
  proof (cases c)
    case (Inl e)
    with run vs show ?thesis by (simp add: cycle_result_def)
  next
    case collected: (Inr tc)
    obtain t cap where tc: "tc = (t, cap)" by (cases tc)
    obtain z us where fin: "finish_cycle env call plan st n t cap (last vs) = (z, us)" by fastforce
    have rws: "r = z" "ws = vs @ us" using run collected tc fin by simp_all
    have sr: "sink_run (oe_iso env) (oc_obs call) s = (Inr t, js)" using col collected tc by (intro collect_Inr) simp
    from collect_ok [OF sr _ assms(3) _ _ strs(2)] sb obtain new where t: "sk_journal t = journal_of plan (jn_file (sk_journal t))"
      "journal_ok plan (jn_file (sk_journal t)) (recs @ new)" "bridge_inv plan (sk_bridge t)"
      "replayed_engines (oe_iso env) plan (recs @ new) = Inr (ad_engines (br_adapter (sk_bridge t)))" by metis
    have jl: "ow_journal (last vs) = jn_file (sk_journal t)"
      using sink_run_last [OF sr] sb assms(2) by (cases js rule: rev_cases) (simp_all add: vs_def journal_of_def)
    have "ow_checkpoint (last vs) = ow_checkpoint w" by (cases js rule: rev_cases) (simp_all add: vs_def)
    then have cl: "checkpoint_ok (oe_iso env) plan (recs @ new) (last vs)"
      using checkpoint_ok_extend [OF assms(4)] by (simp add: checkpoint_ok_def)
    have hd: "journal_head (sk_journal t) = (int (length (recs @ new)), journal.head ZERO_HASH (recs @ new))"
      using journal_ok_records(2) [OF t(2)] unfolding t(1) [symmetric] .
    have pl: "ad_plan (br_adapter (sk_bridge t)) = plan" using t(3) by (simp add: bridge_inv_def adapter_locked_def)
    note f = finish_ok [OF fin state_ok_extend [OF assms(5)] cl strs(1) t(4) pl hd]
    have us: "ow_journal u = jn_file (sk_journal t) \<and> checkpoint_ok (oe_iso env) plan (recs @ new) u" if "u \<in> set us" for u
      using f that jl by simp
    then have "world_ok (oe_iso env) plan u" if "u \<in> set us" for u
      using that t(2) by (auto simp: world_ok_alt)
    then have worlds: "\<forall>v \<in> set ws. world_ok (oe_iso env) plan v" using vs rws(2) by auto
    show ?thesis
    proof (cases "\<exists>e. r = Inl e")
      case False
      then have "us \<noteq> []" "checkpoint_at_head plan (recs @ new) (ad_engines (br_adapter (sk_bridge t))) (last us)"
        using f rws(1) by simp_all
      then show ?thesis
        using worlds rws(2) us [OF last_in_set] t(2,4) unfolding cycle_result_def by auto
    qed (use worlds in \<open>simp add: cycle_result_def\<close>)
  qed
qed

lemma cycle_ok:
  assumes "run_gate6c3_operator env call (PDict plan) w = (r, ws)" and "world_ok (oe_iso env) plan w"
  shows "cycle_result (oe_iso env) plan r ws"
proof (cases "checked_state env call (PDict plan) w")
  case (Inl e)
  with assms(1) have "r = Inl e \<and> ws = []" by (simp add: run_gate6c3_operator_def)
  then show ?thesis by (simp add: cycle_result_def)
next
  case (Inr st)
  let ?iso = "oe_iso env"
  from Inr have valid: "validate_commander_plan ?iso (PDict plan) (oc_sha call) (oc_now call) = Inr []"
    and load: "load_dedupe_state (ow_checkpoint w) (dget plan ''plan_sha'') = Inr st"
    by (auto simp: checked_state_def ebind_Inr_iff split: if_splits)
  then have ok: "plan_ok ?iso (oc_sha call) (oc_now call) plan" by (simp add: validate_commander_plan_plan_ok)
  from ok obtain s where "dget plan ''plan_sha'' = PStr s" by (rule plan_ok_strings)
  then have str: "is_str (dget plan ''plan_sha'')" by simp
  from assms(2) obtain recs where jok: "journal_ok plan (ow_journal w) recs" and cok: "checkpoint_ok ?iso plan recs w"
    by (auto simp: world_ok_alt)
  from checkpoint_ok_load [OF cok jok str] load have st: "state_ok ?iso plan recs st"
    "json_reload (dget st ''gate6a_state'') = dget st ''gate6a_state''" by auto
  from journal_ok_open [OF jok ok] obtain g where
    opened: "journal_open (dget plan ''plan_sha'') (dget plan ''asset'') (ow_journal w) = (Inr (journal_of plan g), g)" and gok: "journal_ok plan g recs" by blast
  have "observe_cycle env call plan st (journal_of plan g) (w\<lparr>ow_journal := g\<rparr>) = (r, ws)"
    using assms(1) Inr opened by (simp add: run_gate6c3_operator_def)
  then show ?thesis
    by (rule observe_cycle_ok [OF _ _ gok _ st valid ok]) (use cok in \<open>simp_all add: checkpoint_ok_def\<close>)
qed


section \<open>Properties\<close>

text \<open>The worlds that cycles of one plan can leave: every effect of a cycle may be its last.\<close>

inductive operator_reaches :: "operator_env \<Rightarrow> dict \<Rightarrow> operator_world \<Rightarrow> operator_world \<Rightarrow> bool" for env plan w0 where
  start: "operator_reaches env plan w0 w0"
| effect: "operator_reaches env plan w0 w \<Longrightarrow> v \<in> set (snd (run_gate6c3_operator env call (PDict plan) w)) \<Longrightarrow>
    operator_reaches env plan w0 v"

definition new_operator_world :: "gate_world \<Rightarrow> operator_world" where
  "new_operator_world g = \<lparr>ow_checkpoint = None, ow_journal = \<lparr>jf_metadata = None, jf_rows = []\<rparr>, ow_gate = g\<rparr>"

lemma new_world_ok: "world_ok fromiso plan (new_operator_world g)"
  by (simp add: world_ok_def new_operator_world_def journal_ok_def journal_of_def journal_validate_def)

lemma reaches_ok: "operator_reaches env plan w0 w \<Longrightarrow> world_ok (oe_iso env) plan w0 \<Longrightarrow> world_ok (oe_iso env) plan w"
proof (induction rule: operator_reaches.induct)
  case (effect w v call)
  then show ?case using cycle_ok [of env call plan w] by (cases "run_gate6c3_operator env call (PDict plan) w") (auto simp: cycle_result_def)
qed

text \<open>C33: the checkpoint of a completed cycle is a function of the journal alone: whatever the feeds
  delivered, wherever earlier processes died and whatever they had handed off, it stands at the head
  of the journal and describes the engines of a fresh arming of the plan that has seen exactly the
  journaled observations, once each and in order.\<close>

theorem operator_state_is_journal_replay:
  assumes "operator_reaches env plan (new_operator_world g) w"
    and "run_gate6c3_operator env call (PDict plan) w = (Inr report, ws)"
  shows "\<exists>recs es p. emap (record_from_row (journal_of plan (ow_journal (last ws)))) (jf_rows (ow_journal (last ws))) = Inr recs
    \<and> replayed_engines (oe_iso env) plan recs = Inr es \<and> ow_checkpoint (last ws) = Some (Some (PDict p))
    \<and> dget p ''journal_applied_through'' = PInt (int (length recs)) \<and> dget p ''gate6a_state'' = json_reload (gate_of plan es)"
  using cycle_ok [OF assms(2) reaches_ok [OF assms(1) new_world_ok]]
  by (auto simp: cycle_result_def journal_ok_def checkpoint_at_head_def)

text \<open>C34: wherever the processes died, a cycle of a plan that still validates gets as far as the
  replay: the checkpoint loads, the journal opens and validates, the two are aligned and the plan is
  armed with the engines of the journal up to the checkpoint.\<close>

theorem operator_always_restarts:
  assumes "operator_reaches env plan (new_operator_world g) w"
    and "validate_commander_plan (oe_iso env) (PDict plan) sha now = Inr []"
  shows "\<exists>st j f b n recs. load_dedupe_state (ow_checkpoint w) (dget plan ''plan_sha'') = Inr st
    \<and> journal_open (dget plan ''plan_sha'') (dget plan ''asset'') (ow_journal w) = (Inr j, f) \<and> check_alignment st j = Inr ()
    \<and> bridge_arm (oe_iso env) (PDict plan) sha now
        (if dget st ''gate6a_state'' = PNone then None else Some (dget st ''gate6a_state'')) = Inr b
    \<and> emap (record_from_row j) (jf_rows f) = Inr recs \<and> dget st ''journal_applied_through'' = PInt (int n)
    \<and> replayed_engines (oe_iso env) plan (take n recs) = Inr (ad_engines (br_adapter b))"
proof -
  have ok: "plan_ok (oe_iso env) sha now plan" using assms(2) by (simp add: validate_commander_plan_plan_ok)
  from ok obtain s where "dget plan ''plan_sha'' = PStr s" by (rule plan_ok_strings)
  then have str: "is_str (dget plan ''plan_sha'')" by simp
  from reaches_ok [OF assms(1) new_world_ok] obtain recs where jok: "journal_ok plan (ow_journal w) recs"
    and cok: "checkpoint_ok (oe_iso env) plan recs w" by (auto simp: world_ok_alt)
  from checkpoint_ok_load [OF cok jok str] obtain st where st: "load_dedupe_state (ow_checkpoint w) (dget plan ''plan_sha'') = Inr st"
    "state_ok (oe_iso env) plan recs st" "json_reload (dget st ''gate6a_state'') = dget st ''gate6a_state''" by blast
  from journal_ok_open [OF jok ok] obtain f where
    f: "journal_open (dget plan ''plan_sha'') (dget plan ''asset'') (ow_journal w) = (Inr (journal_of plan f), f)" "journal_ok plan f recs" by blast
  from start_ok [OF f(2) st(2,3) assms(2) ok] obtain n es b where "dget st ''journal_applied_through'' = PInt (int n)"
    "replayed_engines (oe_iso env) plan (take n recs) = Inr es" "same_gate (fresh_bridge plan es) b"
    "bridge_arm (oe_iso env) (PDict plan) sha now (if dget st ''gate6a_state'' = PNone then None else Some (dget st ''gate6a_state'')) = Inr b"
    by metis
  then show ?thesis
    using st(1) f alignment_ok [OF f(2) st(2)]
    by (intro exI [of _ st] exI [of _ "journal_of plan f"] exI [of _ f] exI [of _ b] exI [of _ n] exI [of _ recs])
      (simp add: journal_ok_def same_gate_def fresh_bridge_def)
qed

section \<open>A concrete cycle\<close>

text \<open>A feed that delivers nothing and captures live quotes of every asset.\<close>

definition demo_capture :: dict where
  "demo_capture = [(''assets'', PDict (map (\<lambda>a. (a, PDict [(''market_data_type'', PInt 1), (''l1'', PDict []), (''bars_5s'', PList [])]))
     ASSET_ORDER))]"

definition demo_call :: "(nat \<Rightarrow> gate_call) \<Rightarrow> operator_call" where
  "demo_call gates = \<lparr>oc_sha = ''S'', oc_now = 5, oc_obs = [], oc_capture = Inr (PDict demo_capture), oc_gates = gates\<rparr>"

definition demo_env :: "operator_env \<Rightarrow> operator_env" where "demo_env env = env\<lparr>oe_iso := demo_iso\<rparr>"

definition demo_sink :: sink where
  "demo_sink = \<lparr>sk_journal = demo_journal, sk_bridge = \<lparr>br_adapter = demo_adapter, br_last_count = 0, br_close_count = 0,
     br_ignored_count = 0\<rparr>, sk_appended = 0\<rparr>"

lemma demo_capture_ok: "assert_capture (PDict demo_capture) = Inr demo_capture"
  by (simp add: assert_capture_def demo_capture_def ASSET_ORDER_def asset_error_def keys_def Let_def)

lemma demo_start: "start_bridge (demo_env env) (demo_call gates) demo_plan (dedupe_payload sha) demo_journal = Inr (demo_sink, 0)"
proof -
  have "bridge_arm demo_iso (PDict demo_plan) ''S'' 5 None = Inr (sk_bridge demo_sink)"
    by (simp add: bridge_arm_def arm_live_def demo_armed bridge_init_def demo_sink_def) (simp add: demo_adapter_def)
  moreover have "check_alignment (dedupe_payload sha) demo_journal = Inr ()"
    by (simp add: check_alignment_def journal_validate_def journal_head_def hash_at_def dedupe_payload_def demo_journal_def demo_file_def)
  moreover have "replay_observations demo_iso demo_journal (PInt 0) (sk_bridge demo_sink) = Inr (sk_bridge demo_sink, 0)"
    by (simp add: replay_observations_def records_after_def journal_validate_def demo_journal_def demo_file_def)
  ultimately show ?thesis
    by (simp add: start_bridge_def demo_env_def demo_call_def dedupe_payload_def) (simp add: demo_sink_def)
qed

lemma all_finite_items_dset: "all_finite_items d \<Longrightarrow> all_finite v \<Longrightarrow> all_finite_items (dset k v d)"
  by (induction d) (auto simp: dset_def)

lemma all_finite_items_dpop: "all_finite_items d \<Longrightarrow> all_finite_items (dpop k d)"
  by (induction d) (auto simp: dpop_def AList.delete_eq)

lemma demo_completed_finite:
  "all_finite (PDict (dpop ''state_hash'' (completed_state (dedupe_payload (PStr sha))
     \<lparr>dd_state = st, dd_new = [], dd_duplicates = [], dd_commits = []\<rparr> (sk_bridge demo_sink) demo_journal)))"
proof -
  have "all_finite (PDict (gate6a_state demo_adapter))"
    by (simp add: gate6a_state_def demo_adapter_def ALLOWED_LINE_TYPES_def snapshot_state_def demo_level_def demo_engine_def opt_float_def numeral_eq_Suc)
  then show ?thesis
    by (simp add: completed_state_def demo_sink_def all_finite_items_dset all_finite_items_dpop)
      (simp add: dedupe_payload_def operator_authority_def all_finite_items_dset all_finite_items_dpop)
qed

lemma demo_report_finite:
  "all_finite (PDict (cycle_report (demo_call gates) demo_plan (dedupe_payload (PStr sha)) demo_capture 0 demo_sink
     \<lparr>dd_state = st, dd_new = [], dd_duplicates = [], dd_commits = []\<rparr> []))"
proof -
  have plan: "all_finite (dget demo_plan k)" for k
    by (rule plan_field_finite) (rule demo_plan_ok [THEN plan_ok_armable])
  have "all_finite (PDict (capture_summary demo_capture))"
    by (simp add: capture_summary_def demo_capture_def ASSET_ORDER_def Let_def)
  moreover have "all_finite (PDict (gate_summary (sk_bridge demo_sink)))" by (simp add: gate_summary_def demo_sink_def demo_adapter_def)
  ultimately show ?thesis
    using plan by (simp add: cycle_report_def journal_head_def operator_authority_def Let_def) (simp add: demo_sink_def demo_adapter_def)
qed

lemma seal_finite: "all_finite (PDict (dpop ''state_hash'' d)) \<Longrightarrow> \<exists>c. seal_dedupe_state d = Inr c"
  by (auto simp: seal_dedupe_state_def canonical_hash_strict_def json_strict_def)

lemma demo_finish:
  "\<exists>report vs. finish_cycle (demo_env env) (demo_call gates) demo_plan (dedupe_payload (PStr sha)) 0 demo_sink demo_capture w = (Inr report, vs)"
proof -
  let ?d = "\<lparr>dd_state = dedupe_payload (PStr sha), dd_new = [], dd_duplicates = [], dd_commits = []\<rparr>"
  have j: "sk_journal demo_sink = demo_journal" by (simp add: demo_sink_def)
  have "dedupe_events (ad_events (br_adapter (sk_bridge demo_sink))) (dedupe_payload (PStr sha)) = Inr ?d"
    by (simp add: dedupe_events_def demo_sink_def demo_adapter_def)
  moreover obtain commit where "seal_dedupe_state (completed_state (dedupe_payload (PStr sha)) ?d (sk_bridge demo_sink) (sk_journal demo_sink)) = Inr commit"
    using seal_finite [OF demo_completed_finite] unfolding j by blast
  moreover have "canonical_hash_strict (PDict (cycle_report (demo_call gates) demo_plan (dedupe_payload (PStr sha)) demo_capture 0 demo_sink ?d []))
      = Inr (canonical_hash (PDict (cycle_report (demo_call gates) demo_plan (dedupe_payload (PStr sha)) demo_capture 0 demo_sink ?d [])))"
    using demo_report_finite by (simp only: canonical_hash_strict_iff)
  ultimately show ?thesis by (simp add: finish_cycle_def Let_def)
qed

lemma demo_operator_cycle:
  "\<exists>report ws. run_gate6c3_operator (demo_env env) (demo_call gates) (PDict demo_plan) (new_operator_world g) = (Inr report, ws)"
proof -
  let ?sha = "canonical_hash (PDict Commander_Adapter.demo_body)"
  have checked: "checked_state (demo_env env) (demo_call gates) (PDict demo_plan) (new_operator_world g) = Inr (dedupe_payload (PStr ?sha))"
    by (simp add: checked_state_def demo_env_def demo_call_def demo_validates load_dedupe_state_def new_operator_world_def)
  have empty: "ow_journal (new_operator_world g) = demo_file"
    by (simp add: new_operator_world_def demo_file_def)
  have collected: "collect (demo_env env) (demo_call gates) demo_sink = (Inr (demo_sink, demo_capture), [])"
    by (simp add: collect_def demo_call_def demo_capture_ok)
  obtain report vs where "finish_cycle (demo_env env) (demo_call gates) demo_plan (dedupe_payload (PStr ?sha)) 0 demo_sink demo_capture
      ((new_operator_world g)\<lparr>ow_journal := jn_file demo_journal\<rparr>) = (Inr report, vs)" using demo_finish by blast
  then show ?thesis
    using checked empty demo_journal_open
    by (simp add: run_gate6c3_operator_def observe_cycle_def demo_start collected)
qed

theorem operator_state_is_journal_replay_witness:
  "\<forall>env gates g. \<exists>report ws recs es p.
    run_gate6c3_operator (demo_env env) (demo_call gates) (PDict demo_plan) (new_operator_world g) = (Inr report, ws)
    \<and> replayed_engines demo_iso demo_plan recs = Inr es \<and> ow_checkpoint (last ws) = Some (Some (PDict p))
    \<and> dget p ''gate6a_state'' = json_reload (gate_of demo_plan es)"
proof (intro allI)
  fix env gates g
  obtain report ws where run: "run_gate6c3_operator (demo_env env) (demo_call gates) (PDict demo_plan) (new_operator_world g) = (Inr report, ws)"
    using demo_operator_cycle by blast
  have iso: "oe_iso (demo_env env) = demo_iso" by (simp add: demo_env_def)
  from operator_state_is_journal_replay [OF operator_reaches.start run] show "\<exists>report ws recs es p.
      run_gate6c3_operator (demo_env env) (demo_call gates) (PDict demo_plan) (new_operator_world g) = (Inr report, ws)
      \<and> replayed_engines demo_iso demo_plan recs = Inr es \<and> ow_checkpoint (last ws) = Some (Some (PDict p))
      \<and> dget p ''gate6a_state'' = json_reload (gate_of demo_plan es)"
    unfolding iso using run by blast
qed

theorem operator_always_restarts_witness:
  "\<forall>env g. operator_reaches (demo_env env) demo_plan (new_operator_world g) (new_operator_world g)
    \<and> (\<exists>st. load_dedupe_state (ow_checkpoint (new_operator_world g)) (dget demo_plan ''plan_sha'') = Inr st
      \<and> (\<exists>b. bridge_arm demo_iso (PDict demo_plan) ''S'' 5
          (if dget st ''gate6a_state'' = PNone then None else Some (dget st ''gate6a_state'')) = Inr b))"
proof (intro allI)
  fix env g
  have iso: "oe_iso (demo_env env) = demo_iso" by (simp add: demo_env_def)
  from operator_always_restarts [OF operator_reaches.start, of "demo_env env" demo_plan "''S''" 5 g]
  show "operator_reaches (demo_env env) demo_plan (new_operator_world g) (new_operator_world g)
    \<and> (\<exists>st. load_dedupe_state (ow_checkpoint (new_operator_world g)) (dget demo_plan ''plan_sha'') = Inr st
      \<and> (\<exists>b. bridge_arm demo_iso (PDict demo_plan) ''S'' 5
          (if dget st ''gate6a_state'' = PNone then None else Some (dget st ''gate6a_state'')) = Inr b))"
    unfolding iso using demo_validates operator_reaches.start by blast
qed


end
