(* ===== verification/Bridge_Codec.thy ===== *)
theory Bridge_Codec
  imports Py_Text "HOL-Library.Product_Lexorder" "HOL-Library.Sublist"
begin

text \<open>
  The reversible encodings of the bridge payload (\<^verbatim>\<open>gpt_handoff.py\<close>, from \<^verbatim>\<open>_bridge_size\<close> to
  \<^verbatim>\<open>_inherit_equal_authority\<close>): tranche fields shared once per plan, field names abbreviated by a
  glossary of fragments, repeated authority fields replaced by a bit mask, and repeated premarket
  sections replaced by references; and the expansion a reader applies. Sizes are the UTF-8 bytes of the
  canonical text. The recursion of the authority expansion carries the remaining stack depth, \<open>None\<close> is
  \<^verbatim>\<open>RecursionError\<close>. The code reads the authority object while it rewrites the payload around it; the model
  reads it beforehand, which is the same unless the authority object itself holds references. Shown: the
  tranche and authority encodings and the glossary are undone by the expansion, and how much stack the
  expansion needs.
\<close>

definition bridge_size :: "pyval \<Rightarrow> nat" where "bridge_size v = length (json_text v)"

section \<open>Tranche fields\<close>

definition TRANCHE_FIELDS :: "string list" where
  "TRANCHE_FIELDS = [''budget_usd'', ''status'', ''validity_conditions'']"

definition tranche_common :: "dict list \<Rightarrow> dict" where
  "tranche_common rows =
     map (\<lambda>k. (k, dget (hd rows) k))
       (filter (\<lambda>k. list_all (\<lambda>row. dhas row k \<and> canonical_hash (dget row k) = canonical_hash (dget (hd rows) k)) rows) TRANCHE_FIELDS)"

definition dict_update :: "dict \<Rightarrow> dict \<Rightarrow> dict" where
  "dict_update d e = foldl (\<lambda>acc (k, v). dset k v acc) d e"

definition expand_tranche_fields :: "dict \<Rightarrow> dict res" where
  "expand_tranche_fields plan =
     (let common = dget plan ''tranche_common''; rest = dpop ''tranche_common'' plan in
      if common = PNone then Inr rest
      else if \<not> dhas rest ''tranche_encoding'' then Inl (KeyError ''tranche_encoding'')
      else ebind (py_index (PDict (dpop ''tranche_encoding'' rest)) ''tranches'') (\<lambda>v. ebind (py_iter v) (\<lambda>rows.
        if rows \<noteq> [] \<and> (\<not> is_dict common \<or> \<not> list_all is_dict rows) then Inl (TypeError ''object is not a mapping'')
        else Inr (dset ''tranches'' (PList (map (\<lambda>row. PDict (dict_update (dict_of common) (dict_of row))) rows))
          (dpop ''tranche_encoding'' rest)))))"

definition tranche_candidate :: "dict \<Rightarrow> dict list \<Rightarrow> dict" where
  "tranche_candidate plan rows =
     dset ''tranches'' (PList (map (\<lambda>row. PDict (filter (\<lambda>(k, _). \<not> dhas (tranche_common rows) k) row)) rows))
     (dset ''tranche_encoding'' (PStr ''Each tranche inherits tranche_common then its literal fields.'')
     (dset ''tranche_common'' (PDict (tranche_common rows)) plan))"

definition compact_plan :: "dict \<Rightarrow> dict res" where
  "compact_plan plan =
     (case dget_or plan ''tranches'' (PList []) of
       PList vs \<Rightarrow>
         if length vs < 2 then Inr plan
         else if \<not> list_all is_dict vs then Inl AttributeError
         else (let rows = map dict_of vs; candidate = tranche_candidate plan rows in
           if tranche_common rows \<noteq> [] \<and> bridge_size (PDict candidate) < bridge_size (PDict plan)
             then ebind (expand_tranche_fields candidate) (\<lambda>expanded.
               if canonical_hash (PDict expanded) \<noteq> canonical_hash (PDict plan) then Inl (ValueError ''Bridge tranche roundtrip mismatch'')
               else Inr candidate)
           else Inr plan)
     | PDict d \<Rightarrow> if length d < 2 then Inr plan else Inl (KeyError ''0'')
     | PStr s \<Rightarrow> if str_len s < 2 then Inr plan else Inl AttributeError
     | _ \<Rightarrow> Inl (TypeError ''object has no len()''))"

text \<open>A function on every active plan of a payload, in place.\<close>

definition map_active_plans :: "(dict \<Rightarrow> dict res) \<Rightarrow> dict \<Rightarrow> dict res" where
  "map_active_plans f payload =
     (case dget_or payload ''capital_state'' (PDict []) of
       PDict cs \<Rightarrow>
         ebind (py_iter (dget_or cs ''active_plans'' (PList []))) (\<lambda>plans.
         ebind (emap (\<lambda>plan. if is_dict plan then ebind (f (dict_of plan)) (\<lambda>p. Inr (PDict p)) else Inl AttributeError) plans) (\<lambda>plans'.
         Inr (if plans' = [] then payload else dset ''capital_state'' (PDict (dset ''active_plans'' (PList plans') cs)) payload)))
     | _ \<Rightarrow> Inl AttributeError)"

definition compact_tranche_fields :: "dict \<Rightarrow> dict res" where
  "compact_tranche_fields payload = map_active_plans compact_plan payload"

section \<open>Field names\<close>

definition char_range :: "nat \<Rightarrow> nat \<Rightarrow> string" where "char_range a b = map char_of [a..<b]"

definition digits :: string where "digits = char_range 48 58"
definition uppercase :: string where "uppercase = char_range 65 91"
definition lowercase :: string where "lowercase = char_range 97 123"
definition punctuation :: string where
  "punctuation = char_range 33 48 @ char_range 58 65 @ char_range 91 97 @ char_range 123 127"
definition token_alphabet :: string where "token_alphabet = digits @ uppercase @ lowercase"

definition ENCODED_SECTIONS :: "string list" where
  "ENCODED_SECTIONS = [''market_context'', ''analysis_contract'', ''capital_state'', ''issuer_ratio_observation'']"

text \<open>Every occurrence of a field name.\<close>

fun names_of :: "pyval \<Rightarrow> string list"
  and names_of_list :: "pyval list \<Rightarrow> string list"
  and names_of_items :: "dict \<Rightarrow> string list" where
  "names_of (PDict d) = names_of_items d"
| "names_of (PList xs) = names_of_list xs"
| "names_of _ = []"
| "names_of_list [] = []"
| "names_of_list (x # xs) = names_of x @ names_of_list xs"
| "names_of_items [] = []"
| "names_of_items ((k, v) # d) = k # names_of v @ names_of_items d"

definition name_symbols :: "string list \<Rightarrow> string" where
  "name_symbols names =
     filter (\<lambda>c. c \<notin> set [CHR ''_'', char_of (34 :: nat), char_of (92 :: nat), CHR ''@''] \<and> list_all (\<lambda>name. c \<notin> set name) names)
       (uppercase @ digits @ punctuation)"

definition name_tokens :: "string list \<Rightarrow> string list" where
  "name_tokens names =
     map (\<lambda>c. [c]) (name_symbols names)
     @ (if list_all (\<lambda>name. CHR ''@'' \<notin> set name) names then map (\<lambda>c. [CHR ''@'', c]) token_alphabet else [])"

text \<open>The text between the tokens of a partly encoded name.\<close>

fun name_parts :: "string \<Rightarrow> string \<Rightarrow> string \<Rightarrow> string list" where
  "name_parts symbols part [] = [part]"
| "name_parts symbols part (c # cs) =
     (if c = CHR ''@'' \<and> cs \<noteq> [] \<and> hd cs \<in> set token_alphabet then part # name_parts symbols [] (tl cs)
      else if c \<in> set symbols then part # name_parts symbols [] cs
      else name_parts symbols (part @ [c]) cs)"

definition fragments_of :: "string \<Rightarrow> string list" where
  "fragments_of part = (let cs = utf8_chars part in
     map concat (filter (\<lambda>f. 3 \<le> length f) (map (\<lambda>(i, j). take (j - i) (drop i cs)) (List.product [0..<length cs] [0..<length cs + 1]))))"

function count_sub :: "string \<Rightarrow> string \<Rightarrow> nat" where
  "count_sub f s =
     (if f = [] \<or> s = [] then 0 else if take (length f) s = f then Suc (count_sub f (drop (length f) s)) else count_sub f (tl s))"
  by pat_completeness auto
termination by (relation "measure (length \<circ> snd)") auto

function replace_all :: "string \<Rightarrow> string \<Rightarrow> string \<Rightarrow> string" where
  "replace_all f t s =
     (if f = [] \<or> s = [] then s
      else if take (length f) s = f then t @ replace_all f t (drop (length f) s) else hd s # replace_all f t (tl s))"
  by pat_completeness auto
termination by (relation "measure (length \<circ> snd \<circ> snd)") auto

declare count_sub.simps [simp del] replace_all.simps [simp del]

text \<open>The fragment whose replacement by a token saves most.\<close>

definition fragment_gain :: "string list \<Rightarrow> string \<Rightarrow> string \<Rightarrow> int" where
  "fragment_gain parts token f =
     int (sum_list (map (count_sub f) parts)) * (int (length f) - int (length token)) - int (length f) - 1"

definition best_fragment :: "string list \<Rightarrow> string \<Rightarrow> int \<times> string" where
  "best_fragment parts token =
     (case map (\<lambda>f. (fragment_gain parts token f, f)) (remdups (concat (map fragments_of parts))) of
       [] \<Rightarrow> (0, [])
     | x # xs \<Rightarrow> foldr max xs x)"

fun choose_fragments :: "string \<Rightarrow> string list \<Rightarrow> string list \<Rightarrow> (string \<times> string) list" where
  "choose_fragments symbols [] current = []"
| "choose_fragments symbols (token # tokens) current =
     (case best_fragment (concat (map (name_parts symbols []) current)) token of (gain, f) \<Rightarrow>
       if gain \<le> 0 then [] else (token, f) # choose_fragments symbols tokens (map (replace_all f token) current))"

definition encode_name :: "(string \<times> string) list \<Rightarrow> string \<Rightarrow> string" where
  "encode_name pairs name = foldl (\<lambda>s (token, f). replace_all f token s) name pairs"

text \<open>The encoding of a value. Every exception of it is the same one, so its place does not matter.\<close>

definition collision_error :: "'a res" where "collision_error = Inl (ValueError ''Bridge field-name collision'')"

fun encode_names :: "(string \<times> string) list \<Rightarrow> pyval \<Rightarrow> pyval res"
  and encode_list :: "(string \<times> string) list \<Rightarrow> pyval list \<Rightarrow> pyval list res"
  and encode_items :: "(string \<times> string) list \<Rightarrow> dict \<Rightarrow> dict res" where
  "encode_names pairs (PDict d) =
     ebind (encode_items pairs d) (\<lambda>items.
       let renamed = map (\<lambda>(k, v). (encode_name pairs k, v)) (sort_key fst items) in
       if distinct (keys renamed) then Inr (PDict renamed) else collision_error)"
| "encode_names pairs (PList xs) = ebind (encode_list pairs xs) (\<lambda>ys. Inr (PList ys))"
| "encode_names pairs v = Inr v"
| "encode_list pairs [] = Inr []"
| "encode_list pairs (x # xs) = ebind (encode_names pairs x) (\<lambda>y. ebind (encode_list pairs xs) (\<lambda>ys. Inr (y # ys)))"
| "encode_items pairs [] = Inr []"
| "encode_items pairs ((k, v) # d) = ebind (encode_names pairs v) (\<lambda>w. ebind (encode_items pairs d) (\<lambda>e. Inr ((k, w) # e)))"

text \<open>The reader's glossary: at every position the longest token that matches is expanded.\<close>

function split_at_char :: "char \<Rightarrow> string \<Rightarrow> string list" where
  "split_at_char c s =
     (if c \<in> set s then takeWhile (\<lambda>x. x \<noteq> c) s # split_at_char c (tl (dropWhile (\<lambda>x. x \<noteq> c) s)) else [s])"
  by pat_completeness auto
termination
proof (relation "measure (length \<circ> snd)")
  fix c :: char and s assume "c \<in> set s"
  then have "dropWhile (\<lambda>x. x \<noteq> c) s \<noteq> []" by (auto simp: dropWhile_eq_Nil_conv)
  then have "length (tl (dropWhile (\<lambda>x. x \<noteq> c) s)) < length (dropWhile (\<lambda>x. x \<noteq> c) s)" by (cases "dropWhile (\<lambda>x. x \<noteq> c) s") auto
  also have "\<dots> \<le> length s" by (rule length_dropWhile_le)
  finally show "((c, tl (dropWhile (\<lambda>x. x \<noteq> c) s)), (c, s)) \<in> measure (length \<circ> snd)" by simp
qed simp

declare split_at_char.simps [simp del]

definition glossary :: "string \<Rightarrow> string \<Rightarrow> (string \<times> string) list" where
  "glossary symbols joined = rev (zip (map (\<lambda>c. [c]) symbols @ map (\<lambda>c. [CHR ''@'', c]) token_alphabet) (split_at_char (CHR ''|'') joined))"

function decode_name :: "(string \<times> string) list \<Rightarrow> string \<Rightarrow> string" where
  "decode_name m s =
     (if s = [] then []
      else if 2 \<le> length s \<and> map_of m (take 2 s) \<noteq> None then the (map_of m (take 2 s)) @ decode_name m (drop 2 s)
      else (case map_of m [hd s] of Some f \<Rightarrow> f | None \<Rightarrow> [hd s]) @ decode_name m (tl s))"
  by pat_completeness auto
termination by (relation "measure (length \<circ> snd)") auto

declare decode_name.simps [simp del]

fun decode_names :: "(string \<times> string) list \<Rightarrow> pyval \<Rightarrow> pyval res"
  and decode_list :: "(string \<times> string) list \<Rightarrow> pyval list \<Rightarrow> pyval list res"
  and decode_items :: "(string \<times> string) list \<Rightarrow> dict \<Rightarrow> dict \<Rightarrow> dict res" where
  "decode_names m (PDict d) = ebind (decode_items m [] d) (\<lambda>e. Inr (PDict e))"
| "decode_names m (PList xs) = ebind (decode_list m xs) (\<lambda>ys. Inr (PList ys))"
| "decode_names m v = Inr v"
| "decode_list m [] = Inr []"
| "decode_list m (x # xs) = ebind (decode_names m x) (\<lambda>y. ebind (decode_list m xs) (\<lambda>ys. Inr (y # ys)))"
| "decode_items m acc [] = Inr acc"
| "decode_items m acc ((k, v) # d) =
     (if dhas acc (decode_name m k) then Inl (ValueError ''Expanded bridge field collision'')
      else ebind (decode_names m v) (\<lambda>w. decode_items m (acc @ [(decode_name m k, w)]) d))"

text \<open>The payload with its field names expanded, and the codec taken out of it.\<close>

definition expand_names :: "dict \<Rightarrow> dict res" where
  "expand_names payload =
     (case dget_or payload ''market_context'' (PDict []) of
       PDict market \<Rightarrow>
         (let codec = dget market ''key_encoding'';
              rest = (if dhas market ''key_encoding'' then dset ''market_context'' (PDict (dpop ''key_encoding'' market)) payload else payload) in
          case codec of
            PNone \<Rightarrow> Inr rest
          | PList [PStr symbols, PStr fragments, _] \<Rightarrow>
              ebind (decode_names (glossary symbols fragments) (PDict rest)) (\<lambda>v. Inr (dict_of v))
          | _ \<Rightarrow> Inl (TypeError ''cannot unpack the codec''))
     | _ \<Rightarrow> Inl AttributeError)"

section \<open>Authority references\<close>

definition share_authority :: "dict \<Rightarrow> dict \<Rightarrow> dict" where
  "share_authority authority d =
     (let shared = filter (\<lambda>k. dhas d k \<and> canonical_hash (dget d k) = canonical_hash (dget authority k)) (sort (keys authority)) in
      if sum_list (map (\<lambda>k. bridge_size (PDict [(k, dget d k)])) shared) > 70
        then dset ''authority_same_as''
          (PInt (sum_list (map (\<lambda>(i, k). if k \<in> set shared then 2 ^ i else 0) (enumerate 0 (sort (keys authority))))))
          (filter (\<lambda>(k, _). k \<notin> set shared) d)
      else d)"

fun inherit_authority :: "dict \<Rightarrow> pyval \<Rightarrow> pyval"
  and inherit_list :: "dict \<Rightarrow> pyval list \<Rightarrow> pyval list"
  and inherit_items :: "dict \<Rightarrow> dict \<Rightarrow> dict" where
  "inherit_authority authority (PDict d) = PDict (share_authority authority (inherit_items authority d))"
| "inherit_authority authority (PList xs) = PList (inherit_list authority xs)"
| "inherit_authority authority v = v"
| "inherit_list authority [] = []"
| "inherit_list authority (x # xs) = inherit_authority authority x # inherit_list authority xs"
| "inherit_items authority [] = []"
| "inherit_items authority ((k, v) # d) = (k, inherit_authority authority v) # inherit_items authority d"

text \<open>The fields a mask stands for and the fields listed by their index, read back into an object.\<close>

definition add_inherited :: "dict \<Rightarrow> int \<Rightarrow> nat \<times> string \<Rightarrow> dict \<Rightarrow> dict res" where
  "add_inherited authority bits = (\<lambda>(i, k) d.
     if \<not> bit bits i then Inr d
     else if dhas d k then Inl (ValueError ''Inherited authority field collision'')
     else Inr (d @ [(k, dget authority k)]))"

definition inherit_mask :: "dict \<Rightarrow> dict \<Rightarrow> dict res" where
  "inherit_mask authority d =
     (case dget d ''authority_same_as'' of
       PInt bits \<Rightarrow>
         if bits < 0 \<or> 2 ^ length authority \<le> bits then Inl (ValueError ''Invalid authority reference bits'')
         else efold (add_inherited authority bits) (enumerate 0 (sort (keys authority))) (dpop ''authority_same_as'' d)
     | _ \<Rightarrow> Inr d)"

definition list_item :: "pyval list \<Rightarrow> pyval \<Rightarrow> pyval res" where
  "list_item xs v =
     (if \<not> is_int v \<and> \<not> is_bool v then Inl (TypeError ''list indices must be integers'')
      else (let i = (if is_bool v then (if bool_of v then 1 else 0) else int_of v); j = (if i < 0 then i + int (length xs) else i) in
        if 0 \<le> j \<and> j < int (length xs) then Inr (xs ! nat j) else Inl IndexError))"

definition add_listed :: "pyval list \<Rightarrow> pyval \<Rightarrow> dict \<Rightarrow> dict res" where
  "add_listed pairs i d =
     ebind (list_item pairs i) (\<lambda>pair.
       case pair of
         PList [PStr k, literal] \<Rightarrow>
           if dhas d k then Inl (ValueError ''Shared authority field collision'') else Inr (d @ [(k, literal)])
       | _ \<Rightarrow> Inl (TypeError ''cannot unpack the field pair''))"

definition inherit_fields :: "dict \<Rightarrow> pyval list \<Rightarrow> dict \<Rightarrow> dict res" where
  "inherit_fields authority pairs d =
     ebind (inherit_mask authority d) (\<lambda>d.
     if pairs = [] then Inr d
     else ebind (py_iter (dget_or d ''authority_fields'' (PList []))) (\<lambda>is.
       efold (add_listed pairs) is (dpop ''authority_fields'' d)))"

text \<open>A comprehension whose body may raise or run out of stack.\<close>

fun omap :: "('a \<Rightarrow> 'b res option) \<Rightarrow> 'a list \<Rightarrow> 'b list res option" where
  "omap f [] = Some (Inr [])"
| "omap f (x # xs) =
     (case f x of
       None \<Rightarrow> None
     | Some (Inl e) \<Rightarrow> Some (Inl e)
     | Some (Inr y) \<Rightarrow> map_option (\<lambda>r. ebind r (\<lambda>ys. Inr (y # ys))) (omap f xs))"

fun expand_refs :: "dict \<Rightarrow> pyval list \<Rightarrow> nat \<Rightarrow> pyval \<Rightarrow> pyval res option" where
  "expand_refs authority pairs 0 v = None"
| "expand_refs authority pairs (Suc n) v =
     (case v of
       PDict d \<Rightarrow>
         (case inherit_fields authority pairs d of
           Inl e \<Rightarrow> Some (Inl e)
         | Inr d' \<Rightarrow> map_option (\<lambda>r. ebind r (\<lambda>vs. Inr (PDict (zip (keys d') vs)))) (omap (\<lambda>p. expand_refs authority pairs n (snd p)) d'))
     | PList xs \<Rightarrow> map_option (\<lambda>r. ebind r (\<lambda>ys. Inr (PList ys))) (omap (expand_refs authority pairs n) xs)
     | _ \<Rightarrow> Some (Inr v))"

definition expand_authority_references :: "nat \<Rightarrow> dict \<Rightarrow> dict res option" where
  "expand_authority_references n payload =
     (case (dget_or payload ''authority'' (PDict []), dget_or payload ''market_context'' (PDict [])) of
       (PDict authority, PDict market) \<Rightarrow>
         (let found = dget_or market ''authority_field_values'' (PList []); pairs = (if truthy found then found else PList []);
              market' = dpop ''authority_field_encoding'' (dpop ''authority_field_values'' market);
              p = (if dhas payload ''market_context'' then dset ''market_context'' (PDict market') payload else payload) in
          if is_list pairs then map_option (\<lambda>r. ebind r (\<lambda>v. Inr (dict_of v))) (expand_refs authority (list_of pairs) n (PDict p))
          else Some (Inl (TypeError ''field pairs are no list'')))
     | _ \<Rightarrow> Some (Inl AttributeError))"

section \<open>Premarket references\<close>

definition same_value :: "pyval \<Rightarrow> pyval \<Rightarrow> bool" where
  "same_value v w \<longleftrightarrow> canonical_hash v = canonical_hash w"

definition same_as :: "string \<Rightarrow> pyval" where "same_as path = PDict [(''bridge_same_as'', PStr path)]"

definition edit_row :: "(dict \<Rightarrow> dict) \<Rightarrow> pyval \<Rightarrow> pyval" where
  "edit_row f v = (if is_dict v then PDict (f (dict_of v)) else v)"

definition edit_rows :: "(dict \<Rightarrow> dict) \<Rightarrow> dict \<Rightarrow> dict" where
  "edit_rows f rows = map (\<lambda>(k, v). (k, edit_row f v)) rows"

definition section_repeats :: "dict \<Rightarrow> dict \<Rightarrow> bool" where
  "section_repeats inputs row \<longleftrightarrow>
     (let sid = dget row ''id'' in
      is_str sid \<and> dhas inputs (str_of sid) \<and> same_value (dget row ''machine_evidence'') (dget inputs (str_of sid)))"

definition share_section :: "dict \<Rightarrow> dict \<Rightarrow> dict" where
  "share_section inputs row =
     (if section_repeats inputs row
        then dset ''machine_evidence'' (same_as (''premarket.analysis_inputs.'' @ str_of (dget row ''id''))) row else row)"

definition assets_repeat :: "pyval \<Rightarrow> dict \<Rightarrow> bool" where
  "assets_repeat assets row \<longleftrightarrow> same_value (dget row ''asset_market_observations'') assets"

definition share_assets :: "pyval \<Rightarrow> dict \<Rightarrow> dict" where
  "share_assets assets row =
     (if assets_repeat assets row then dset ''asset_market_observations'' (same_as ''premarket.asset_market'') row else row)"

definition families_ref :: "dict \<Rightarrow> pyval" where
  "families_ref families = PDict [(''bridge_source_families'', PList (map PStr (sort (keys families))))]"

definition families_repeat :: "pyval \<Rightarrow> dict \<Rightarrow> bool" where
  "families_repeat parsed row \<longleftrightarrow>
     (let v = dget row ''available_source_families''; families = dict_of v in
      is_dict parsed \<and> is_dict v \<and> families \<noteq> []
      \<and> list_all (\<lambda>(k, x). dhas (dict_of parsed) k \<and> same_value (dget (dict_of parsed) k) x) families
      \<and> bridge_size (families_ref families) < bridge_size v)"

definition share_families :: "pyval \<Rightarrow> dict \<Rightarrow> dict" where
  "share_families parsed row =
     (if families_repeat parsed row
        then dset ''available_source_families'' (families_ref (dict_of (dget row ''available_source_families''))) row else row)"

definition gate_parsed :: "dict \<Rightarrow> pyval" where
  "gate_parsed handoff = (let gate = dget handoff ''source_gate_context'' in if is_dict gate then dget (dict_of gate) ''parsed'' else PNone)"

text \<open>The premarket section with its repetitions replaced, and with them put back.\<close>

definition handoff_repeats :: "dict \<Rightarrow> dict \<Rightarrow> bool" where
  "handoff_repeats h b \<longleftrightarrow> same_value (dget b ''live_market_handoff'') (PDict h)"

definition compact_premarket :: "dict \<Rightarrow> dict" where
  "compact_premarket pre =
     (let h = dict_of (dget pre ''live_market_handoff''); b = dict_of (dget pre ''battle_map'');
          inputs = dict_of (dget h ''analysis_inputs'');
          b1 = (if handoff_repeats h b then dset ''live_market_handoff'' (same_as ''premarket.live_market_handoff'') b else b);
          b2 = dset ''analysis_sections'' (PList (map (edit_row (share_section inputs)) (list_of (dget b ''analysis_sections'')))) b1;
          inputs1 = edit_rows (share_families (gate_parsed h)) (edit_rows (share_assets (dget h ''asset_market'')) inputs)
      in dset ''battle_map'' (PDict b2) (dset ''live_market_handoff'' (PDict (dset ''analysis_inputs'' (PDict inputs1) h)) pre))"

definition premarket_repeats :: "dict \<Rightarrow> bool" where
  "premarket_repeats pre \<longleftrightarrow>
     (let h = dict_of (dget pre ''live_market_handoff''); b = dict_of (dget pre ''battle_map'');
          inputs = dict_of (dget h ''analysis_inputs''); rows = map dict_of (filter is_dict (map snd inputs))
      in handoff_repeats h b \<or> list_ex (\<lambda>v. is_dict v \<and> section_repeats inputs (dict_of v)) (list_of (dget b ''analysis_sections''))
         \<or> list_ex (assets_repeat (dget h ''asset_market'')) rows \<or> list_ex (families_repeat (gate_parsed h)) rows)"

definition restore_families :: "pyval \<Rightarrow> dict \<Rightarrow> dict res" where
  "restore_families parsed row =
     (let ref = dget row ''available_source_families''; names = dget (dict_of ref) ''bridge_source_families'' in
      if \<not> is_dict ref \<or> \<not> dhas (dict_of ref) ''bridge_source_families'' then Inr row
      else if set (keys (dict_of ref)) \<noteq> {''bridge_source_families''} then Inl (ValueError ''Invalid source reference'')
      else if \<not> is_list names \<or> list_of names = [] \<or> \<not> list_all is_str (list_of names)
         \<or> map str_of (list_of names) \<noteq> sort (remdups (map str_of (list_of names)))
         \<or> \<not> is_dict parsed \<or> \<not> list_all (\<lambda>k. dhas (dict_of parsed) (str_of k)) (list_of names)
        then Inl (ValueError ''Unresolvable source reference'')
      else Inr (dset ''available_source_families'' (PDict (map (\<lambda>k. (str_of k, dget (dict_of parsed) (str_of k))) (list_of names))) row))"

definition restore_field :: "string \<Rightarrow> string \<Rightarrow> pyval \<Rightarrow> dict \<Rightarrow> dict res" where
  "restore_field k path source row =
     (let v = dget row k in
      if \<not> is_dict v \<or> \<not> dhas (dict_of v) ''bridge_same_as'' then Inr row
      else if \<not> py_eq v (same_as path) then Inl (ValueError ''Invalid premarket reference'')
      else Inr (dset k source row))"

definition each_row :: "(dict \<Rightarrow> dict res) \<Rightarrow> pyval \<Rightarrow> pyval res" where
  "each_row f v = (if is_dict v then ebind (f (dict_of v)) (\<lambda>d. Inr (PDict d)) else Inr v)"

definition each_item :: "(dict \<Rightarrow> dict res) \<Rightarrow> dict \<Rightarrow> dict res" where
  "each_item f rows = emap (\<lambda>(k, v). ebind (each_row f v) (\<lambda>w. Inr (k, w))) rows"

definition restore_section :: "dict \<Rightarrow> dict \<Rightarrow> dict res" where
  "restore_section inputs row =
     (let sid = dget row ''id'' in
      if is_str sid \<and> dhas inputs (str_of sid)
        then restore_field ''machine_evidence'' (''premarket.analysis_inputs.'' @ str_of sid) (dget inputs (str_of sid)) row
      else Inr row)"

definition restore_premarket :: "dict \<Rightarrow> dict res" where
  "restore_premarket pre =
     (let h = dict_of (dget pre ''live_market_handoff''); b = dict_of (dget pre ''battle_map'') in
      ebind (each_item (restore_families (gate_parsed h)) (dict_of (dget h ''analysis_inputs''))) (\<lambda>inputs1.
      ebind (each_item (restore_field ''asset_market_observations'' ''premarket.asset_market'' (dget h ''asset_market'')) inputs1) (\<lambda>inputs2.
      ebind (py_iter (dget_or b ''analysis_sections'' (PList []))) (\<lambda>sections.
      ebind (emap (each_row (restore_section inputs2)) sections) (\<lambda>sections'.
      (let h' = dset ''analysis_inputs'' (PDict inputs2) h;
           b' = (if is_list (dget b ''analysis_sections'') then dset ''analysis_sections'' (PList sections') b else b) in
       ebind (restore_field ''live_market_handoff'' ''premarket.live_market_handoff'' (PDict h') b') (\<lambda>battle.
       Inr (dset ''battle_map'' (PDict battle) (dset ''live_market_handoff'' (PDict h') pre)))))))))"

definition restorable :: "pyval \<Rightarrow> bool" where
  "restorable pre \<longleftrightarrow> is_dict pre \<and> is_dict (dget (dict_of pre) ''live_market_handoff'') \<and> is_dict (dget (dict_of pre) ''battle_map'')
     \<and> is_dict (dget (dict_of (dget (dict_of pre) ''live_market_handoff'')) ''asset_market'')
     \<and> is_dict (dget (dict_of (dget (dict_of pre) ''live_market_handoff'')) ''analysis_inputs'')"

definition restore_premarket_refs :: "dict \<Rightarrow> dict res" where
  "restore_premarket_refs payload =
     (case dget_or payload ''market_context'' (PDict []) of
       PDict market \<Rightarrow>
         (let pre = dget market ''premarket_market_data'' in
          if \<not> restorable pre then Inr payload
          else ebind (restore_premarket (dict_of pre)) (\<lambda>pre'.
            Inr (dset ''market_context'' (PDict (dset ''premarket_market_data'' (PDict pre') market)) payload)))
     | _ \<Rightarrow> Inl AttributeError)"

definition PREMARKET_REF_ENCODING :: string where
  "PREMARKET_REF_ENCODING =
     ''bridge_source_families inherits named items from live_market_handoff.source_gate_context.parsed; ''
     @ ''bridge_same_as refers to fields under market_context.premarket_market_data; expand references before interpretation.''"

definition compact_premarket_refs :: "dict \<Rightarrow> dict res" where
  "compact_premarket_refs payload =
     (case dget_or payload ''market_context'' (PDict []) of
       PDict market \<Rightarrow>
         (let v = dget market ''premarket_market_data''; pre = dict_of v; candidate = compact_premarket pre in
          if \<not> restorable v \<or> \<not> is_list (dget (dict_of (dget pre ''battle_map'')) ''analysis_sections'') \<or> \<not> premarket_repeats pre then Inr payload
          else ebind (restore_premarket candidate) (\<lambda>restored.
            if canonical_hash (PDict restored) \<noteq> canonical_hash v then Inl (ValueError ''Premarket roundtrip mismatch'')
            else if bridge_size v \<le> bridge_size (PDict candidate) then Inr payload
            else Inr (dset ''market_context'' (PDict (dset ''premarket_ref_encoding'' (PStr PREMARKET_REF_ENCODING)
              (dset ''premarket_market_data'' (PDict candidate) market))) payload)))
     | _ \<Rightarrow> Inl AttributeError)"

section \<open>The whole expansion\<close>

definition obind :: "'a res option \<Rightarrow> ('a \<Rightarrow> 'b res option) \<Rightarrow> 'b res option" where
  "obind m f = (case m of None \<Rightarrow> None | Some (Inl e) \<Rightarrow> Some (Inl e) | Some (Inr x) \<Rightarrow> f x)"

definition expand_bridge_field_names :: "nat \<Rightarrow> dict \<Rightarrow> dict res option" where
  "expand_bridge_field_names n payload =
     obind (Some (expand_names payload)) (\<lambda>p.
     obind (Some (map_active_plans expand_tranche_fields p)) (\<lambda>q.
     obind (expand_authority_references n q) (\<lambda>r. Some (restore_premarket_refs r))))"

definition field_name_pairs :: "dict \<Rightarrow> (string \<times> string) list" where
  "field_name_pairs payload =
     (let names = names_of (PDict payload) in
      choose_fragments (name_symbols names) (name_tokens names)
        (concat (map (\<lambda>s. names_of (dget payload s)) ENCODED_SECTIONS)))"

definition encode_sections :: "(string \<times> string) list \<Rightarrow> dict \<Rightarrow> dict res" where
  "encode_sections pairs payload =
     emap (\<lambda>(k, v). if k \<in> set ENCODED_SECTIONS then ebind (encode_names pairs v) (\<lambda>w. Inr (k, w)) else Inr (k, v)) payload"

definition key_encoding :: "string \<Rightarrow> (string \<times> string) list \<Rightarrow> pyval" where
  "key_encoding symbols pairs =
     PList [PStr symbols, PStr (join ''|'' (map snd pairs)), PStr ''Keys: chars index |-split fields then @0-9A-Za-z. Expand once; values literal.'']"

definition field_name_candidate :: "dict \<Rightarrow> dict res" where
  "field_name_candidate payload =
     ebind (encode_sections (field_name_pairs payload) payload) (\<lambda>e.
     ebind (py_index (PDict e) ''market_context'') (\<lambda>market.
     if \<not> is_dict market then Inl (TypeError ''object does not support item assignment'')
     else Inr (dset ''market_context''
       (PDict (dset ''key_encoding'' (key_encoding (name_symbols (names_of (PDict payload))) (field_name_pairs payload)) (dict_of market))) e)))"

definition compact_field_names :: "nat \<Rightarrow> dict \<Rightarrow> dict res option" where
  "compact_field_names n payload =
     (if list_ex (\<lambda>name. CHR ''|'' \<in> set name) (names_of (PDict payload)) \<or> field_name_pairs payload = [] then Some (Inr payload)
      else obind (Some (field_name_candidate payload)) (\<lambda>candidate.
        obind (expand_bridge_field_names n candidate) (\<lambda>a.
        obind (expand_bridge_field_names n payload) (\<lambda>b.
        Some (if canonical_hash (PDict a) \<noteq> canonical_hash (PDict b) then Inl (ValueError ''Bridge field-name roundtrip mismatch'')
          else if bridge_size (PDict candidate) < bridge_size (PDict payload) then Inr candidate else Inr payload)))))"

section \<open>The canonical text ignores the order of fields\<close>

lemma map_of_nth_key: "distinct (map fst xs) \<Longrightarrow> i < length xs \<Longrightarrow> xs ! i = (fst (xs ! i), the (map_of xs (fst (xs ! i))))"
  by (metis map_of_eq_Some_iff nth_mem option.sel prod.collapse)

lemma map_of_rev_keys:
  assumes "distinct (map fst xs)"
  shows "map_of (rev xs) = map_of xs"
proof (rule HOL.ext)
  fix k
  have "distinct (map fst (rev xs))" using assms by (simp flip: rev_map)
  then show "map_of (rev xs) k = map_of xs k"
    using assms by (cases "map_of xs k") (metis map_of_eq_None_iff set_rev, metis map_of_eq_Some_iff set_rev)
qed

lemma map_of_filter_keys: "map_of (filter (\<lambda>(k, _). P k) d) k = (if P k then map_of d k else None)"
  by (induction d) auto

lemma sorted_items_unique:
  assumes "distinct (map fst d)" and "distinct (map fst e)" and "map_of d = map_of e"
  shows "sort_key fst d = sort_key fst e"
proof -
  have rebuild: "xs = map (\<lambda>k. (k, the (map_of xs k))) (map fst xs)" if "distinct (map fst xs)" for xs :: "('a \<times> 'b) list"
    
  proof (rule nth_equalityI)
    show "xs ! i = map (\<lambda>k. (k, the (map_of xs k))) (map fst xs) ! i" if "i < length xs" for i
      using map_of_nth_key [OF \<open>distinct (map fst xs)\<close> that] that by (simp only: nth_map length_map)
  qed simp
  have distinct: "distinct (map fst (sort_key fst xs))" if "distinct (map fst xs)" for xs :: "('a :: linorder \<times> 'b) list"
    using that by (simp add: distinct_map)
  have "set (map fst d) = set (map fst e)" by (metis assms(3) dom_map_of_conv_image_fst set_map)
  then have "map fst (sort_key fst d) = map fst (sort_key fst e)"
    using distinct [OF assms(1)] distinct [OF assms(2)] by (intro sorted_distinct_set_unique) simp_all
  moreover have "map_of (sort_key fst d) = map_of (sort_key fst e)" using assms(3) by (intro ext) (simp add: map_of_sort_key)
  ultimately show ?thesis using rebuild [OF distinct [OF assms(1)]] rebuild [OF distinct [OF assms(2)]] by metis
qed

lemma map_of_map_snd: "map_of (map (\<lambda>(k, v). (k, f v)) d) = map_option f \<circ> map_of d"
  by (induction d) auto

lemma json_dict_cong:
  assumes "distinct (keys d)" and "distinct (keys e)" and "\<And>k. map_option json_text (map_of d k) = map_option json_text (map_of e k)"
  shows "json_text (PDict d) = json_text (PDict e)"
proof -
  have "sort_key fst (json_items d) = sort_key fst (json_items e)"
    using assms by (intro sorted_items_unique) (auto simp: json_items_map keys_def comp_def case_prod_unfold map_of_map_snd [unfolded case_prod_unfold])
  then show ?thesis by simp
qed

lemma json_dict_dset:
  assumes "distinct (keys d)" and "dhas d k" and "json_text v = json_text (dget d k)"
  shows "json_text (PDict (dset k v d)) = json_text (PDict d)"
proof (rule json_dict_cong)
  from assms(2) obtain w where "map_of d k = Some w" by (auto simp: dhas_def dest: weak_map_of_SomeI)
  then show "map_option json_text (map_of (dset k v d) k') = map_option json_text (map_of d k')" for k'
    using assms(3) by (auto simp: dget_def)
qed (use assms(1) in simp_all)

section \<open>Tranches\<close>

lemma map_of_dict_update: "map_of (dict_update d e) k = (case map_of (rev e) k of None \<Rightarrow> map_of d k | Some v \<Rightarrow> Some v)"
  unfolding dict_update_def by (induction e arbitrary: d) (auto simp: map_add_def split: option.splits)

lemma distinct_dict_update: "distinct (keys d) \<Longrightarrow> distinct (keys (dict_update d e))"
  unfolding dict_update_def by (induction e arbitrary: d) auto

lemma wf_items_mem: "wf_items d \<Longrightarrow> (k, v) \<in> set d \<Longrightarrow> wf_val v"
  by (induction d) auto

lemma wf_list_mem: "wf_list xs \<Longrightarrow> v \<in> set xs \<Longrightarrow> wf_val v"
  by (induction xs) auto

lemma map_of_map_Pair: "map_of (map (\<lambda>k. (k, f k)) ks) k = (if k \<in> set ks then Some (f k) else None)"
  by (induction ks) auto

definition common_collision :: "dict list \<Rightarrow> bool" where
  "common_collision rows \<longleftrightarrow>
     (\<exists>row \<in> set rows. \<exists>k \<in> set TRANCHE_FIELDS. canonical_hash (dget row k) = canonical_hash (dget (hd rows) k)
        \<and> json_text (dget row k) \<noteq> json_text (dget (hd rows) k))"

lemma tranche_common_Some:
  assumes "map_of (tranche_common rows) k = Some x" and "row \<in> set rows"
    and honest: "\<not> common_collision rows"
  obtains v where "map_of row k = Some v" "json_text v = json_text x"
proof -
  have x: "x = dget (hd rows) k" and k: "dhas row k" "canonical_hash (dget row k) = canonical_hash (dget (hd rows) k)" "k \<in> set TRANCHE_FIELDS"
    using assms(1,2) unfolding tranche_common_def map_of_map_Pair by (auto simp: list_all_iff split: if_splits)
  obtain v where "map_of row k = Some v" using k(1) by (auto simp: dhas_map_of)
  moreover have "json_text (dget row k) = json_text (dget (hd rows) k)" using honest assms(2) k(2,3) unfolding common_collision_def by blast
  ultimately show ?thesis using that [of v] x by (simp add: dget_def)
qed

lemma tranche_row_text:
  assumes "distinct (keys row)" and "row \<in> set rows"
    and honest: "\<not> common_collision rows"
  shows "json_text (PDict (dict_update (tranche_common rows) (filter (\<lambda>(k, _). \<not> dhas (tranche_common rows) k) row))) = json_text (PDict row)"
proof (rule json_dict_cong)
  let ?c = "tranche_common rows"
  let ?r = "filter (\<lambda>(k, _). \<not> dhas ?c k) row"
  have "distinct (keys ?c)" by (simp add: tranche_common_def keys_def comp_def TRANCHE_FIELDS_def)
  then show "distinct (keys (dict_update ?c ?r))" by (rule distinct_dict_update)
  fix k
  have dr: "distinct (map fst ?r)" using assms(1) by (simp add: keys_def distinct_map_filter)
  have u: "map_of (dict_update ?c ?r) k = (case (if dhas ?c k then None else map_of row k) of None \<Rightarrow> map_of ?c k | Some v \<Rightarrow> Some v)"
    unfolding map_of_dict_update map_of_rev_keys [OF dr] map_of_filter_keys by simp
  show "map_option json_text (map_of (dict_update ?c ?r) k) = map_option json_text (map_of row k)"
  proof (cases "map_of ?c k")
    case None
    then show ?thesis unfolding u by (simp add: dhas_map_of split: option.split)
  next
    case (Some x)
    then obtain v where "map_of row k = Some v" "json_text v = json_text x" using tranche_common_Some [OF _ assms(2) honest] by metis
    then show ?thesis unfolding u using Some by (simp add: dhas_map_of)
  qed
qed (use assms(1) in simp)

lemma json_list_map: "json_list xs = map json_text xs"
  by (induction xs) auto

lemma expand_tranche_candidate:
  assumes "\<not> dhas plan ''tranche_common''" and "\<not> dhas plan ''tranche_encoding''" and "tranche_common rows \<noteq> []"
  shows "\<exists>e. expand_tranche_fields (tranche_candidate plan rows) = Inr e
    \<and> map_of e = (map_of plan)(''tranches'' \<mapsto> PList (map (\<lambda>row. PDict (dict_update (tranche_common rows)
        (filter (\<lambda>(k, _). \<not> dhas (tranche_common rows) k) row))) rows))
    \<and> (distinct (keys plan) \<longrightarrow> distinct (keys e))"
proof -
  let ?new = "PList (map (\<lambda>row. PDict (filter (\<lambda>(k, _). \<not> dhas (tranche_common rows) k) row)) rows)"
  have none: "map_of plan ''tranche_common'' = None" "map_of plan ''tranche_encoding'' = None"
    using assms(1,2) by (simp_all add: dhas_map_of)
  have "py_index (PDict (dpop ''tranche_encoding'' (dpop ''tranche_common'' (tranche_candidate plan rows)))) ''tranches'' = Inr ?new"
    by (simp add: tranche_candidate_def)
  moreover have "dget (tranche_candidate plan rows) ''tranche_common'' = PDict (tranche_common rows)" by (simp add: tranche_candidate_def)
  moreover have "dhas (dpop ''tranche_common'' (tranche_candidate plan rows)) ''tranche_encoding''" by (simp add: tranche_candidate_def)
  ultimately have "expand_tranche_fields (tranche_candidate plan rows) = Inr (dset ''tranches''
      (PList (map (\<lambda>row. PDict (dict_update (tranche_common rows) (filter (\<lambda>(k, _). \<not> dhas (tranche_common rows) k) row))) rows))
      (dpop ''tranche_encoding'' (dpop ''tranche_common'' (tranche_candidate plan rows))))"
    by (simp add: expand_tranche_fields_def list_all_iff comp_def)
  then show ?thesis using none by (auto simp: tranche_candidate_def fun_eq_iff)
qed

text \<open>A plan's tranches survive their compaction: it never raises, and expanding what it leaves
  gives back the plan to the last byte of its canonical text, unless SHA-256 gives one hash to two
  different values of a shared field.\<close>

theorem tranches_expand_back:
  assumes "wf_val (PDict plan)" and "dget plan ''tranches'' = PList (map PDict rows)"
    and "\<not> dhas plan ''tranche_common''" and "\<not> dhas plan ''tranche_encoding''"
  shows "(\<exists>c e. compact_plan plan = Inr c \<and> expand_tranche_fields c = Inr e \<and> json_text (PDict e) = json_text (PDict plan))
    \<or> common_collision rows"
proof (cases "common_collision rows")
  case honest: False
  have "(''tranches'', PList (map PDict rows)) \<in> set plan"
    using assms(2) by (auto simp: dget_def split: option.splits dest: map_of_SomeD)
  then have "wf_list (map PDict rows)" using assms(1) wf_items_mem [of plan] by fastforce
  then have wf: "distinct (keys row)" if "row \<in> set rows" for row
    using that wf_list_mem [of "map PDict rows" "PDict row"] by simp
  have same: "expand_tranche_fields plan = Inr plan" using assms(3)
    by (simp add: expand_tranche_fields_def dpop_absent) (simp add: dget_def dhas_map_of)
  have got: "dget_or plan ''tranches'' (PList []) = PList (map PDict rows)"
    using assms(2) by (auto simp: dget_def dget_or_def split: option.splits)
  show ?thesis
  proof (cases "2 \<le> length rows \<and> tranche_common rows \<noteq> [] \<and> bridge_size (PDict (tranche_candidate plan rows)) < bridge_size (PDict plan)")
    case True
    from expand_tranche_candidate [OF assms(3,4)] True obtain e where e: "expand_tranche_fields (tranche_candidate plan rows) = Inr e"
      "map_of e = (map_of plan)(''tranches'' \<mapsto> PList (map (\<lambda>row. PDict (dict_update (tranche_common rows)
        (filter (\<lambda>(k, _). \<not> dhas (tranche_common rows) k) row))) rows))" "distinct (keys plan) \<longrightarrow> distinct (keys e)" by blast
    have rows: "json_text (PList (map (\<lambda>row. PDict (dict_update (tranche_common rows)
        (filter (\<lambda>(k, _). \<not> dhas (tranche_common rows) k) row))) rows)) = json_text (PList (map PDict rows))"
      using tranche_row_text [OF wf _ honest] by (simp add: json_list_map comp_def del: json_text.simps(7) cong: map_cong)
    have kept: "json_text (PDict e) = json_text (PDict plan)"
    proof (rule json_dict_cong)
      show "map_option json_text (map_of e k) = map_option json_text (map_of plan k)" for k
        using assms(2) rows unfolding e(2) by (simp add: dget_def del: json_text.simps split: option.splits)
    qed (use e(3) assms(1) in simp_all)
    with True e(1) got show ?thesis
      by (simp add: compact_plan_def Let_def canonical_hash_def list_all_iff comp_def)
  next
    case False
    then have "compact_plan plan = Inr plan" using got by (auto simp: compact_plan_def Let_def list_all_iff comp_def)
    then show ?thesis using same by simp
  qed
qed simp

definition demo_tranches :: "dict list" where
  "demo_tranches = [[(''status'', PStr ''LOCKED_UNTIL_TRIGGER''), (''tranche'', PInt 1)], [(''status'', PStr ''LOCKED_UNTIL_TRIGGER''), (''tranche'', PInt 2)]]"

lemma tranches_expand_back_witness:
  "(\<exists>c e. compact_plan [(''tranches'', PList (map PDict demo_tranches))] = Inr c \<and> expand_tranche_fields c = Inr e
     \<and> json_text (PDict e) = json_text (PDict [(''tranches'', PList (map PDict demo_tranches))])) \<and> \<not> common_collision demo_tranches"
proof -
  have "\<not> common_collision demo_tranches" by (simp add: common_collision_def demo_tranches_def TRANCHE_FIELDS_def dget_def)
  moreover have "wf_val (PDict [(''tranches'', PList (map PDict demo_tranches))])" by (simp add: demo_tranches_def keys_def)
  ultimately show ?thesis using tranches_expand_back [of "[(''tranches'', PList (map PDict demo_tranches))]" demo_tranches]
    by (simp add: dget_def dhas_def)
qed

section \<open>The glossary of field names\<close>

text \<open>Under a glossary of single characters, decoding replaces character by character.\<close>

definition decode_char :: "(string \<times> string) list \<Rightarrow> char \<Rightarrow> string" where
  "decode_char m c = (case map_of m [c] of Some f \<Rightarrow> f | None \<Rightarrow> [c])"

lemma decode_name_single:
  assumes "\<forall>p \<in> set m. length (fst p) = 1"
  shows "decode_name m s = concat (map (decode_char m) s)"
proof -
  have two: "map_of m t = None" if "length t = 2" for t
  proof (rule ccontr)
    assume "map_of m t \<noteq> None"
    then obtain f where "(t, f) \<in> set m" by (auto dest: map_of_SomeD)
    then show False using assms that by fastforce
  qed
  show ?thesis
  proof (induction s)
    case (Cons c s)
    have "length (take 2 (c # s)) = 2" if "2 \<le> length (c # s)" using that by simp
    then have "decode_name m (c # s) = decode_char m c @ decode_name m s"
      using two [of "take 2 (c # s)"] by (subst decode_name.simps) (auto simp: decode_char_def split: option.split)
    then show ?case using Cons by simp
  qed (simp add: decode_name.simps)
qed

lemma concat_decode_replace:
  assumes "f \<noteq> []" and "concat (map d t) = concat (map d f)"
  shows "concat (map d (replace_all f t s)) = concat (map d s)"
proof (induction s rule: length_induct)
  case (1 s)
  consider "s = []" | "s \<noteq> []" "take (length f) s = f" | "s \<noteq> []" "take (length f) s \<noteq> f" by blast
  then show ?case
  proof cases
    case 2
    then have s: "s = f @ drop (length f) s" by (metis append_take_drop_id)
    have "length (drop (length f) s) < length s" using 2(1) assms(1) by simp
    then have IH: "concat (map d (replace_all f t (drop (length f) s))) = concat (map d (drop (length f) s))" using 1 by blast
    have "replace_all f t s = t @ replace_all f t (drop (length f) s)" using 2 assms(1) by (subst replace_all.simps) simp
    then have "concat (map d (replace_all f t s)) = concat (map d f) @ concat (map d (drop (length f) s))" using IH assms(2) by simp
    also have "\<dots> = concat (map d (f @ drop (length f) s))" by simp
    also have "\<dots> = concat (map d s)" using s by simp
    finally show ?thesis .
  next
    case 3
    then show ?thesis using 1 assms(1) by (subst replace_all.simps) (cases s; simp)
  qed (simp add: replace_all.simps)
qed

lemma decode_encode:
  assumes "\<forall>(t, f) \<in> set pairs. f \<noteq> [] \<and> concat (map d t) = concat (map d f)"
  shows "concat (map d (encode_name pairs s)) = concat (map d s)"
  using assms unfolding encode_name_def
  by (induction pairs arbitrary: s) (auto simp: concat_decode_replace)

text \<open>The fragments come from the text between the tokens.\<close>

lemma utf8_chars_concat: "concat (utf8_chars s) = s \<and> [] \<notin> set (utf8_chars s)"
  by (induction s rule: utf8_chars.induct) auto

lemma fragments_of_mem: "f \<in> set (fragments_of part) \<Longrightarrow> f \<noteq> [] \<and> set f \<subseteq> set part"
proof -
  assume "f \<in> set (fragments_of part)"
  then have "f \<in> concat ` {y \<in> (\<lambda>(i, j). take (j - i) (drop i (utf8_chars part))) `
      set (List.product [0..<length (utf8_chars part)] [0..<length (utf8_chars part) + 1]). 3 \<le> length y}"
    by (simp only: fragments_of_def Let_def set_map set_filter)
  then obtain y where f: "f = concat y" and len: "3 \<le> length y" and y: "y \<in> (\<lambda>(i, j). take (j - i) (drop i (utf8_chars part))) `
      set (List.product [0..<length (utf8_chars part)] [0..<length (utf8_chars part) + 1])"
    by blast
  have sub: "set y \<subseteq> set (utf8_chars part)" using y by (auto dest: in_set_takeD in_set_dropD)
  have "f \<noteq> []" using sub len utf8_chars_concat [of part] unfolding f by (cases y) auto
  moreover have "set f \<subseteq> set (concat (utf8_chars part))" using sub unfolding f set_concat by blast
  ultimately show ?thesis using utf8_chars_concat [of part] by simp
qed

lemma name_parts_free: "set part \<inter> set symbols = {} \<Longrightarrow> p \<in> set (name_parts symbols part cs) \<Longrightarrow> set p \<inter> set symbols = {}"
  by (induction symbols part cs rule: name_parts.induct) (auto split: if_splits)

lemma foldr_max_mem: "foldr max xs (x :: 'a :: linorder) \<in> set (x # xs)"
  by (induction xs) (auto simp: max_def)

lemma best_fragment_mem:
  assumes "best_fragment parts token = (gain, f)" and "0 < gain"
  shows "\<exists>part \<in> set parts. f \<in> set (fragments_of part)"
proof (cases "map (\<lambda>f. (fragment_gain parts token f, f)) (remdups (concat (map fragments_of parts)))")
  case Nil
  with assms show ?thesis by (simp add: best_fragment_def)
next
  case (Cons x xs)
  with assms(1) have "(gain, f) \<in> set (x # xs)" using foldr_max_mem [of xs x] by (simp add: best_fragment_def)
  then have "(gain, f) \<in> set (map (\<lambda>f. (fragment_gain parts token f, f)) (remdups (concat (map fragments_of parts))))" by (simp only: Cons)
  then show ?thesis by auto
qed

lemma choose_fragments_mem: "(t, f) \<in> set (choose_fragments symbols tokens current) \<Longrightarrow> f \<noteq> [] \<and> set f \<inter> set symbols = {}"
proof (induction tokens arbitrary: current)
  case (Cons token tokens)
  obtain gain g where best: "best_fragment (concat (map (name_parts symbols []) current)) token = (gain, g)" by fastforce
  show ?case
  proof (cases "gain \<le> 0")
    case False
    with Cons.prems have "(t, f) = (token, g) \<or> (t, f) \<in> set (choose_fragments symbols tokens (map (replace_all g token) current))"
      by (simp add: best)
    then show ?thesis
    proof
      assume tf: "(t, f) = (token, g)"
      from best_fragment_mem [OF best] False obtain name part where part: "part \<in> set (name_parts symbols [] name)" "g \<in> set (fragments_of part)"
        by auto
      have "set part \<inter> set symbols = {}" by (rule name_parts_free [OF _ part(1)]) simp
      then show ?thesis using fragments_of_mem [OF part(2)] tf by auto
    qed (rule Cons.IH)
  qed (use Cons.prems in \<open>simp add: best\<close>)
qed simp

lemma choose_fragments_tokens:
  "map fst (choose_fragments symbols tokens current) = take (length (choose_fragments symbols tokens current)) tokens"
  by (induction tokens arbitrary: current) (auto split: prod.splits)

text \<open>The glossary a reader builds from the codec.\<close>

lemma split_at_char_free: "c \<notin> set f \<Longrightarrow> split_at_char c f = [f]"
  by (simp add: split_at_char.simps)

lemma split_at_char_append: "c \<notin> set f \<Longrightarrow> split_at_char c (f @ c # s) = f # split_at_char c s"
  by (subst split_at_char.simps) (simp add: takeWhile_append dropWhile_append)

lemma split_join: "fs \<noteq> [] \<Longrightarrow> \<forall>f \<in> set fs. c \<notin> set f \<Longrightarrow> split_at_char c (join [c] fs) = fs"
  by (induction "[c]" fs rule: join.induct) (simp_all add: split_at_char_free split_at_char_append)

definition all_symbols :: string where "all_symbols = uppercase @ digits @ punctuation"

definition no_symbols :: string where "no_symbols = [CHR ''_'', char_of (34 :: nat), char_of (92 :: nat), CHR ''@'']"

lemma name_symbols_alt:
  "name_symbols names = filter (\<lambda>c. c \<notin> set no_symbols \<and> list_all (\<lambda>name. c \<notin> set name) names) all_symbols"
  by (simp add: name_symbols_def no_symbols_def all_symbols_def)

lemma all_symbols_facts:
  "distinct all_symbols" "CHR ''|'' \<in> set all_symbols" "CHR ''|'' \<notin> set no_symbols"
  "list_all (\<lambda>c. c \<in> set no_symbols \<or> c \<notin> set ''key_encoding'') all_symbols"
  by code_simp+

lemma name_symbols_distinct: "distinct (name_symbols names)"
  unfolding name_symbols_alt by (intro distinct_filter all_symbols_facts)

lemma name_symbols_absent: "c \<in> set (name_symbols names) \<Longrightarrow> name \<in> set names \<Longrightarrow> c \<notin> set name"
  by (auto simp: name_symbols_alt list_all_iff)

lemma bar_symbol: "\<forall>name \<in> set names. CHR ''|'' \<notin> set name \<Longrightarrow> CHR ''|'' \<in> set (name_symbols names)"
  using all_symbols_facts(2,3) by (simp add: name_symbols_alt list_all_iff)

lemma key_encoding_free: "set (name_symbols names) \<inter> set ''key_encoding'' = {}"
  using all_symbols_facts(4) unfolding name_symbols_alt list_all_iff set_filter by blast

text \<open>Values whose every name survives.\<close>

lemma decode_items_total:
  assumes "distinct (map fst acc @ map (\<lambda>p. decode_name m (fst p)) d)" and "\<forall>p \<in> set d. decode_names m (snd p) = Inr (g p)"
  shows "decode_items m acc d = Inr (acc @ map (\<lambda>p. (decode_name m (fst p), g p)) d)"
  using assms
proof (induction d arbitrary: acc)
  case (Cons p d)
  obtain k v where p: "p = (k, v)" by fastforce
  have "\<not> dhas acc (decode_name m k)" using Cons.prems(1) by (auto simp: dhas_def p)
  moreover have "distinct (map fst (acc @ [(decode_name m k, g p)]) @ map (\<lambda>p. decode_name m (fst p)) d)"
    using Cons.prems(1) by (simp add: p)
  ultimately show ?case using Cons.IH [of "acc @ [(decode_name m k, g p)]"] Cons.prems(2) by (simp add: p)
qed simp

lemma decode_names_id:
  "\<forall>name \<in> set (names_of v). decode_name m name = name \<Longrightarrow> wf_val v \<Longrightarrow> decode_names m v = Inr v"
  "\<forall>name \<in> set (names_of_list xs). decode_name m name = name \<Longrightarrow> wf_list xs \<Longrightarrow> decode_list m xs = Inr xs"
  "\<forall>name \<in> set (names_of_items d). decode_name m name = name \<Longrightarrow> wf_items d \<Longrightarrow> \<forall>(k, w) \<in> set d. decode_name m k = k \<and> decode_names m w = Inr w"
proof (induction v and xs and d rule: names_of_names_of_list_names_of_items.induct)
  case (1 d)
  then have d: "\<forall>(k, w) \<in> set d. decode_name m k = k \<and> decode_names m w = Inr w" by simp
  then have names: "map (\<lambda>p. decode_name m (fst p)) d = map fst d" by (auto intro: map_cong)
  have "decode_items m [] d = Inr ([] @ map (\<lambda>p. (decode_name m (fst p), snd p)) d)"
    using d 1(3) by (intro decode_items_total) (auto simp: names keys_def)
  moreover have "map (\<lambda>p. (decode_name m (fst p), snd p)) d = d" using d by (intro map_idI) auto
  ultimately show ?case by simp
qed auto

lemma encode_decode_names:
  "\<forall>name \<in> set (names_of v). decode_name m (encode_name pairs name) = name \<Longrightarrow> wf_val v \<Longrightarrow>
   \<exists>w. encode_names pairs v = Inr w \<and> decode_names m w = Inr (json_reload v)"
  "\<forall>name \<in> set (names_of_list xs). decode_name m (encode_name pairs name) = name \<Longrightarrow> wf_list xs \<Longrightarrow>
   \<exists>ys. encode_list pairs xs = Inr ys \<and> decode_list m ys = Inr (reload_list xs)"
  "\<forall>name \<in> set (names_of_items d). decode_name m (encode_name pairs name) = name \<Longrightarrow> wf_items d \<Longrightarrow>
   encode_items pairs d = Inr (map (\<lambda>p. (fst p, projr (encode_names pairs (snd p)))) d)
     \<and> (\<forall>p \<in> set d. decode_names m (projr (encode_names pairs (snd p))) = Inr (json_reload (snd p)))
     \<and> (\<forall>p \<in> set d. decode_name m (encode_name pairs (fst p)) = fst p)"
proof (induction v and xs and d rule: names_of_names_of_list_names_of_items.induct)
  case (1 d)
  define g where "g = (\<lambda>p :: string \<times> pyval. projr (encode_names pairs (snd p)))"
  from 1 have g: "encode_items pairs d = Inr (map (\<lambda>p. (fst p, g p)) d)" "\<forall>p \<in> set d. decode_names m (g p) = Inr (json_reload (snd p))"
    "\<forall>p \<in> set d. decode_name m (encode_name pairs (fst p)) = fst p" by (auto simp: g_def)
  let ?s = "sort_key fst d"
  let ?r = "map (\<lambda>p. (encode_name pairs (fst p), g p)) ?s"
  have sorted: "sort_key fst (map (\<lambda>p. (fst p, g p)) d) = map (\<lambda>p. (fst p, g p)) ?s" by (rule sort_key_map) simp
  have dist: "distinct (map fst ?s)" using 1(3) by (simp add: distinct_map keys_def)
  have names: "map (\<lambda>p. decode_name m (fst p)) ?r = map fst ?s" using g(3) by (simp add: comp_def cong: map_cong)
  have "distinct (map (decode_name m) (map fst ?r))" using dist unfolding names [symmetric] by (simp add: comp_def)
  then have dr: "distinct (map fst ?r)" using distinct_map by blast
  have enc: "encode_names pairs (PDict d) = Inr (PDict ?r)"
    using dr by (simp add: g(1) sorted Let_def comp_def keys_def case_prod_unfold)
  have "decode_items m [] ?r = Inr ([] @ map (\<lambda>p. (decode_name m (fst p), case decode_names m (snd p) of Inr w \<Rightarrow> w)) ?r)"
    using dist g(2) by (intro decode_items_total) (auto simp only: names list.map append_Nil, auto)
  also have "\<dots> = Inr (map (\<lambda>p. (fst p, json_reload (snd p))) ?s)" using g(2,3) by (simp add: comp_def cong: map_cong)
  also have "map (\<lambda>p. (fst p, json_reload (snd p))) ?s = sort_key fst (reload_items d)"
    unfolding reload_items_map case_prod_unfold by (rule sort_key_map [symmetric]) simp
  finally show ?case using enc by simp
next
  case (7 k v d)
  then obtain w where "encode_names pairs v = Inr w" "decode_names m w = Inr (json_reload v)" by auto
  then show ?case using 7 by simp
qed auto

lemma glossary_of_pairs:
  assumes "map fst pairs = map (\<lambda>c. [c]) (take (length pairs) symbols)" and "pairs \<noteq> []" and "length pairs \<le> length symbols"
    and "\<forall>(t, f) \<in> set pairs. CHR ''|'' \<notin> set f"
  shows "glossary symbols (join ''|'' (map snd pairs)) = rev pairs"
proof -
  let ?cs = "map (\<lambda>c. [c]) symbols" and ?fs = "map snd pairs"
  have fs: "split_at_char (CHR ''|'') (join ''|'' ?fs) = ?fs" using assms(2,4) by (intro split_join) auto
  have "zip (?cs @ map (\<lambda>c. [CHR ''@'', c]) token_alphabet) ?fs = zip ?cs ?fs"
    using assms(3) by (simp add: zip_append1)
  also have "\<dots> = take (length ?fs) (zip ?cs ?fs)" using assms(3) by simp
  also have "\<dots> = zip (map fst pairs) ?fs" unfolding take_zip by (simp only: take_map assms(1)) simp
  also have "\<dots> = pairs" by (simp add: zip_map_fst_snd)
  finally show ?thesis by (simp add: glossary_def fs)
qed

text \<open>Single-character tokens that no name contains are decoded to what they stand for.\<close>

lemma single_tokens_decode:
  assumes fst: "map fst pairs = map (\<lambda>c. [c]) (take (length pairs) symbols)" and dist: "distinct symbols"
    and free: "\<forall>(t, f) \<in> set pairs. f \<noteq> [] \<and> set f \<inter> set symbols = {}" and s: "set s \<inter> set symbols = {}"
  shows "decode_name (rev pairs) (encode_name pairs s) = s" and "decode_name (rev pairs) s = s"
proof -
  let ?d = "decode_char (rev pairs)"
  have names: "fst ` set pairs = (\<lambda>c. [c]) ` set (take (length pairs) symbols)" using arg_cong [OF fst, of set] by simp
  have single: "\<forall>p \<in> set (rev pairs). length (fst p) = 1"
  proof
    fix p assume "p \<in> set (rev pairs)"
    then have "fst p \<in> fst ` set pairs" by simp
    then show "length (fst p) = 1" unfolding names by auto
  qed
  have "distinct (map fst pairs)" unfolding fst using dist by (auto simp: distinct_map inj_on_def)
  then have rev: "map_of (rev pairs) = map_of pairs" by (simp add: map_of_rev_keys fun_eq_iff)
  have other: "?d c = [c]" if "c \<notin> set symbols" for c
  proof -
    have "[c] \<notin> fst ` set pairs" unfolding names using that by (auto dest: in_set_takeD)
    then have "map_of pairs [c] = None" by (simp add: map_of_eq_None_iff)
    then show ?thesis by (simp add: decode_char_def rev)
  qed
  have kept: "concat (map ?d t) = t" if "set t \<inter> set symbols = {}" for t
    using that by (induction t) (simp_all add: other)
  have decoded: "f \<noteq> [] \<and> concat (map ?d t) = concat (map ?d f)" if tf: "(t, f) \<in> set pairs" for t f
  proof -
    have "f \<noteq> []" using free tf by auto
    obtain c where c: "t = [c]" using single tf by (cases t) (auto simp: length_Suc_conv)
    have "map_of pairs t = Some f" using tf \<open>distinct (map fst pairs)\<close> by simp
    then have "concat (map ?d t) = f" by (simp add: decode_char_def rev c)
    moreover have "concat (map ?d f) = f" using tf free by (intro kept) auto
    ultimately show ?thesis using \<open>f \<noteq> []\<close> by simp
  qed
  then have "concat (map ?d (encode_name pairs s)) = concat (map ?d s)" by (intro decode_encode) blast
  then show "decode_name (rev pairs) (encode_name pairs s) = s"
    using kept [OF s] by (simp add: decode_name_single [OF single])
  show "decode_name (rev pairs) s = s" using kept [OF s] by (simp add: decode_name_single [OF single])
qed

text \<open>The pairs the codec of a payload chooses while single-character tokens last.\<close>

lemma field_name_pairs_facts:
  fixes payload :: dict
  defines "symbols \<equiv> name_symbols (names_of (PDict payload))"
  assumes "length (field_name_pairs payload) \<le> length symbols"
  shows "map fst (field_name_pairs payload) = map (\<lambda>c. [c]) (take (length (field_name_pairs payload)) symbols)"
    and "\<forall>(t, f) \<in> set (field_name_pairs payload). f \<noteq> [] \<and> set f \<inter> set symbols = {}"
proof -
  define pairs where "pairs = field_name_pairs payload"
  have chosen: "pairs = choose_fragments symbols (name_tokens (names_of (PDict payload)))
      (concat (map (\<lambda>s. names_of (dget payload s)) ENCODED_SECTIONS))"
    by (simp add: pairs_def field_name_pairs_def symbols_def Let_def)
  have "map fst pairs = take (length pairs) (name_tokens (names_of (PDict payload)))"
    unfolding chosen by (rule choose_fragments_tokens)
  also have "\<dots> = map (\<lambda>c. [c]) (take (length pairs) symbols)"
    using assms(2) unfolding pairs_def [symmetric] name_tokens_def symbols_def [symmetric] by (simp add: take_map)
  finally show "map fst (field_name_pairs payload) = map (\<lambda>c. [c]) (take (length (field_name_pairs payload)) symbols)"
    by (simp only: pairs_def)
  show "\<forall>(t, f) \<in> set (field_name_pairs payload). f \<noteq> [] \<and> set f \<inter> set symbols = {}"
    unfolding pairs_def [symmetric] chosen using choose_fragments_mem by blast
qed

lemma encode_names_dict:
  assumes "encode_names pairs (PDict d) = Inr w"
  shows "is_dict w \<and> (\<forall>k \<in> set (keys (dict_of w)). \<exists>k' \<in> set (keys d). k = encode_name pairs k')"
proof -
  have fst: "map fst e = map fst d" if "encode_items pairs d = Inr e" for d e
    using that by (induction d arbitrary: e) (auto simp: ebind_Inr_iff)
  obtain e where e: "encode_items pairs d = Inr e" using assms by (auto simp: ebind_Inr_iff)
  then have "w = PDict (map (\<lambda>(k, v). (encode_name pairs k, v)) (sort_key fst e))"
    using assms by (auto simp: Let_def collision_error_def split: if_splits)
  moreover have "set (map fst e) = set (map fst d)" using fst [OF e] by simp
  ultimately show ?thesis unfolding keys_def by (force simp: image_iff)
qed

lemma names_of_items_mem: "(k, v) \<in> set d \<Longrightarrow> k \<in> set (names_of_items d) \<and> set (names_of v) \<subseteq> set (names_of_items d)"
  by (induction d) auto

text \<open>The encoded sections, put back under the names they had.\<close>

definition reload_section :: "string \<times> pyval \<Rightarrow> pyval" where
  "reload_section p = (if fst p \<in> set ENCODED_SECTIONS then json_reload (snd p) else snd p)"

lemma reload_section_text: "json_text (PDict (map (\<lambda>p. (fst p, reload_section p)) d)) = json_text (PDict d)" if "distinct (keys d)"
proof (rule json_dict_cong)
  show "map_option json_text (map_of (map (\<lambda>p. (fst p, reload_section p)) d) k) = map_option json_text (map_of d k)" for k
    by (induction d) (auto simp: reload_section_def json_reload_text)
qed (use that in \<open>simp_all add: keys_def comp_def\<close>)

definition encoded_section :: "(string \<times> string) list \<Rightarrow> string \<times> pyval \<Rightarrow> pyval" where
  "encoded_section pairs p = (if fst p \<in> set ENCODED_SECTIONS then projr (encode_names pairs (snd p)) else snd p)"

definition encoded_payload :: "(string \<times> string) list \<Rightarrow> dict \<Rightarrow> dict" where
  "encoded_payload pairs payload = map (\<lambda>p. (fst p, encoded_section pairs p)) payload"

definition names_survive :: "(string \<times> string) list \<Rightarrow> (string \<times> string) list \<Rightarrow> string set \<Rightarrow> bool" where
  "names_survive m pairs names \<longleftrightarrow> (\<forall>name \<in> names. decode_name m (encode_name pairs name) = name \<and> decode_name m name = name)"

lemma encoded_section_back:
  assumes wf: "wf_val (PDict payload)" and dec: "names_survive m pairs (set (names_of (PDict payload)))" and p: "p \<in> set payload"
  shows "fst p \<in> set ENCODED_SECTIONS \<Longrightarrow> encode_names pairs (snd p) = Inr (encoded_section pairs p)"
    and "decode_names m (encoded_section pairs p) = Inr (reload_section p)"
proof -
  have sub: "set (names_of (snd p)) \<subseteq> set (names_of (PDict payload))" using names_of_items_mem [of "fst p" "snd p"] p by simp
  have wfp: "wf_val (snd p)" using wf p wf_items_mem [of payload "fst p"] by simp
  have names: "\<forall>name \<in> set (names_of (snd p)). decode_name m (encode_name pairs name) = name"
    "\<forall>name \<in> set (names_of (snd p)). decode_name m name = name"
    using dec sub unfolding names_survive_def by blast+
  obtain w where w: "encode_names pairs (snd p) = Inr w" "decode_names m w = Inr (json_reload (snd p))"
    using encode_decode_names(1) [OF names(1) wfp] by blast
  then show "fst p \<in> set ENCODED_SECTIONS \<Longrightarrow> encode_names pairs (snd p) = Inr (encoded_section pairs p)"
    by (simp add: encoded_section_def)
  show "decode_names m (encoded_section pairs p) = Inr (reload_section p)"
    using w decode_names_id(1) [OF names(2) wfp] by (simp add: encoded_section_def reload_section_def)
qed

lemma encode_sections_total:
  assumes "wf_val (PDict payload)" and "names_survive m pairs (set (names_of (PDict payload)))"
  shows "encode_sections pairs payload = Inr (encoded_payload pairs payload)"
  unfolding encode_sections_def encoded_payload_def
proof (rule emap_total)
  fix p assume p: "p \<in> set payload"
  show "(case p of (k, v) \<Rightarrow> if k \<in> set ENCODED_SECTIONS then ebind (encode_names pairs v) (\<lambda>w. Inr (k, w)) else Inr (k, v))
    = Inr (fst p, encoded_section pairs p)"
  proof (cases "fst p \<in> set ENCODED_SECTIONS")
    case True
    then show ?thesis using encoded_section_back(1) [OF assms p] by (simp add: case_prod_unfold)
  qed (simp add: case_prod_unfold encoded_section_def)
qed

lemma names_of_items_keys: "set (keys d) \<subseteq> set (names_of (PDict d))"
  using names_of_items_mem by (fastforce simp: keys_def)

lemma decode_encoded_payload:
  assumes wf: "wf_val (PDict payload)" and dec: "names_survive m pairs (set (names_of (PDict payload)))"
  shows "decode_names m (PDict (encoded_payload pairs payload)) = Inr (PDict (map (\<lambda>p. (fst p, reload_section p)) payload))"
proof -
  let ?e = "encoded_payload pairs payload"
  let ?g = "\<lambda>p. projr (decode_names m (snd p))"
  have names: "decode_name m (fst p) = fst p" if "p \<in> set payload" for p
    using that dec names_of_items_keys [of payload] unfolding names_survive_def keys_def by force
  have keys: "map (\<lambda>p. decode_name m (fst p)) ?e = keys payload"
    using names by (simp add: encoded_payload_def keys_def comp_def)
  have "decode_items m [] ?e = Inr ([] @ map (\<lambda>p. (decode_name m (fst p), ?g p)) ?e)"
  proof (rule decode_items_total)
    show "distinct (map fst [] @ map (\<lambda>p. decode_name m (fst p)) ?e)" unfolding keys using wf by simp
    show "\<forall>p \<in> set ?e. decode_names m (snd p) = Inr (?g p)"
      using encoded_section_back(2) [OF wf dec] by (auto simp: encoded_payload_def)
  qed
  also have "[] @ map (\<lambda>p. (decode_name m (fst p), ?g p)) ?e = map (\<lambda>p. (fst p, reload_section p)) payload"
    using names encoded_section_back(2) [OF wf dec] by (simp add: encoded_payload_def)
  finally show ?thesis by simp
qed

lemma encoded_market:
  assumes wf: "wf_val (PDict payload)" and dec: "names_survive m pairs (set (names_of (PDict payload)))"
    and market: "dget payload ''market_context'' = PDict market" and fresh: "\<not> dhas market ''key_encoding''"
    and key: "decode_name m ''key_encoding'' = ''key_encoding''"
  shows "\<exists>mk. map_of (encoded_payload pairs payload) ''market_context'' = Some (PDict mk) \<and> \<not> dhas mk ''key_encoding''"
proof -
  have mem: "(''market_context'', PDict market) \<in> set payload" using market by (auto simp: dget_def dest: map_of_SomeD split: option.splits)
  have "encode_names pairs (PDict market) = Inr (encoded_section pairs (''market_context'', PDict market))"
    using encoded_section_back(1) [OF wf dec mem] by (simp add: ENCODED_SECTIONS_def)
  note enc = encode_names_dict [OF this]
  then obtain mk where w: "encoded_section pairs (''market_context'', PDict market) = PDict mk" unfolding is_dict_iff by blast
  have mk: "\<forall>k \<in> set (keys mk). \<exists>k' \<in> set (keys market). k = encode_name pairs k'" using enc unfolding w dict_of.simps by blast
  have "\<not> dhas mk ''key_encoding''"
  proof
    assume "dhas mk ''key_encoding''"
    then have "''key_encoding'' \<in> set (keys mk)" by (simp add: dhas_def keys_def)
    with mk obtain k where k: "k \<in> set (keys market)" "''key_encoding'' = encode_name pairs k" by blast
    have "k \<in> set (names_of (PDict market))" using k(1) names_of_items_keys by blast
    then have "k \<in> set (names_of (PDict payload))" using names_of_items_mem [OF mem] by auto
    then have "k = decode_name m ''key_encoding''" using dec k(2) unfolding names_survive_def by metis
    then show False using key k(1) fresh by (simp add: dhas_def keys_def)
  qed
  moreover have "map_of (encoded_payload pairs payload) ''market_context'' = Some (PDict mk)"
  proof (rule map_of_is_SomeI)
    show "distinct (map fst (encoded_payload pairs payload))" using wf by (simp add: encoded_payload_def keys_def comp_def)
    show "(''market_context'', PDict mk) \<in> set (encoded_payload pairs payload)"
      using mem w unfolding encoded_payload_def by force
  qed
  ultimately show ?thesis by blast
qed

text \<open>C38: A payload none of whose names contains the separator and whose glossary needs single-character
  tokens only comes back from the encoding of its field names: the code's candidate is built without an
  exception, and the reader expands it to an object with the same canonical text.\<close>

theorem field_names_expand_back:
  assumes wf: "wf_val (PDict payload)" and bar: "\<forall>name \<in> set (names_of (PDict payload)). CHR ''|'' \<notin> set name"
    and some: "field_name_pairs payload \<noteq> []"
    and few: "length (field_name_pairs payload) \<le> length (name_symbols (names_of (PDict payload)))"
    and market: "dget payload ''market_context'' = PDict market" and fresh: "\<not> dhas market ''key_encoding''"
  shows "\<exists>c p. field_name_candidate payload = Inr c \<and> expand_names c = Inr p \<and> json_text (PDict p) = json_text (PDict payload)"
proof -
  define pairs where "pairs = field_name_pairs payload"
  define symbols where "symbols = name_symbols (names_of (PDict payload))"
  define key where "key = key_encoding symbols pairs"
  let ?e = "encoded_payload pairs payload" and ?p = "map (\<lambda>p. (fst p, reload_section p)) payload"
  note facts = field_name_pairs_facts [OF few, folded pairs_def symbols_def]
  have gl: "glossary symbols (join ''|'' (map snd pairs)) = rev pairs"
    using facts some few bar_symbol [OF bar] unfolding pairs_def [symmetric] symbols_def [symmetric]
    by (intro glossary_of_pairs) auto
  note dec = single_tokens_decode [OF facts(1) name_symbols_distinct [of "names_of (PDict payload)", folded symbols_def] facts(2)]
  have "set name \<inter> set symbols = {}" if "name \<in> set (names_of (PDict payload))" for name
    using name_symbols_absent that unfolding symbols_def by blast
  then have survive: "names_survive (rev pairs) pairs (set (names_of (PDict payload)))"
    using dec unfolding names_survive_def by blast
  have "decode_name (rev pairs) ''key_encoding'' = ''key_encoding''"
    using key_encoding_free unfolding symbols_def by (intro dec(2) [unfolded symbols_def]) blast
  then obtain mk where mk: "map_of ?e ''market_context'' = Some (PDict mk)" "\<not> dhas mk ''key_encoding''"
    using encoded_market [OF wf survive market fresh] by blast
  define c where "c = dset ''market_context'' (PDict (dset ''key_encoding'' key mk)) ?e"
  have "py_index (PDict ?e) ''market_context'' = Inr (PDict mk)" using mk(1) by simp
  then have cand: "field_name_candidate payload = Inr c"
    unfolding field_name_candidate_def pairs_def [symmetric] symbols_def [symmetric] c_def key_def
    by (simp only: encode_sections_total [OF wf survive] ebind.simps is_dict.simps dict_of.simps if_True not_True_eq_False if_False)
  have at_c: "dget_or c ''market_context'' (PDict []) = PDict (dset ''key_encoding'' key mk)" by (simp add: dget_or_def c_def)
  have plain: "dset ''market_context'' (PDict mk) c = ?e" using mk(1) unfolding c_def dset_def by (simp add: update_triv)
  have "expand_names c = Inr ?p"
    using decode_encoded_payload [OF wf survive] mk(2) gl plain at_c
    unfolding expand_names_def at_c key_def key_encoding_def by (simp add: Let_def dpop_absent del: decode_names.simps)
  moreover have "json_text (PDict ?p) = json_text (PDict payload)" by (rule reload_section_text) (use wf in simp)
  ultimately show ?thesis using cand by blast
qed

definition demo_codec_payload :: dict where
  "demo_codec_payload =
     [(''market_context'', PDict [(''asset'', PStr ''market state'')]),
      (''capital_state'', PDict [(''asset'', PStr ''capital state'')])]"

lemma demo_pairs: "field_name_pairs demo_codec_payload = [(''A'', ''asset'')]"
  by code_simp

lemma field_names_expand_back_witness:
  "\<exists>c p. field_name_candidate demo_codec_payload = Inr c \<and> expand_names c = Inr p
     \<and> json_text (PDict p) = json_text (PDict demo_codec_payload)"
proof (rule field_names_expand_back)
  show "wf_val (PDict demo_codec_payload)" by code_simp
  show "\<forall>name \<in> set (names_of (PDict demo_codec_payload)). CHR ''|'' \<notin> set name" by code_simp
  show "field_name_pairs demo_codec_payload \<noteq> []" by (simp add: demo_pairs)
  have "CHR ''A'' \<in> set (name_symbols (names_of (PDict demo_codec_payload)))" by code_simp
  then show "length (field_name_pairs demo_codec_payload) \<le> length (name_symbols (names_of (PDict demo_codec_payload)))"
    by (cases "name_symbols (names_of (PDict demo_codec_payload))") (simp_all add: demo_pairs)
  show "dget demo_codec_payload ''market_context'' = PDict [(''asset'', PStr ''market state'')]" by code_simp
  show "\<not> dhas [(''asset'', PStr ''market state'')] ''key_encoding''" by code_simp
qed

text \<open>Once the single characters are used up, a token of two characters can meet text that looks like one.\<close>

lemma two_character_tokens_break:
  "decode_name (glossary ''|'' (join ''|'' [''xxxx'', ''yyyyyyy'', ''0bcdefgh'']))
     (encode_name [(''|'', ''xxxx''), (''@0'', ''yyyyyyy''), (''@1'', ''0bcdefgh'')] ''yyyyyyybcdefgh'') \<noteq> ''yyyyyyybcdefgh''"
  by code_simp

section \<open>Authority references are undone by their expansion\<close>

text \<open>Nesting, and the objects without references.\<close>

fun depth :: "pyval \<Rightarrow> nat" and depth_list :: "pyval list \<Rightarrow> nat" and depth_items :: "dict \<Rightarrow> nat" where
  "depth (PDict d) = Suc (depth_items d)"
| "depth (PList xs) = Suc (depth_list xs)"
| "depth _ = 0"
| "depth_list [] = 0"
| "depth_list (x # xs) = max (depth x) (depth_list xs)"
| "depth_items [] = 0"
| "depth_items ((k, v) # d) = max (depth v) (depth_items d)"

lemma depth_mem: "x \<in> set xs \<Longrightarrow> depth x \<le> depth_list xs" "(k, v) \<in> set d \<Longrightarrow> depth v \<le> depth_items d"
  by (induction xs, auto, induction d, auto)

definition reference_free :: "pyval \<Rightarrow> bool" where
  "reference_free v \<longleftrightarrow> ''authority_same_as'' \<notin> set (names_of v) \<and> ''authority_fields'' \<notin> set (names_of v)"

lemma names_of_list_mem: "x \<in> set xs \<Longrightarrow> set (names_of x) \<subseteq> set (names_of_list xs)"
  by (induction xs) auto

lemma reference_free_mem:
  "reference_free (PDict d) \<Longrightarrow> p \<in> set d \<Longrightarrow> reference_free (snd p)"
  "reference_free (PList xs) \<Longrightarrow> x \<in> set xs \<Longrightarrow> reference_free x"
  using names_of_items_mem [of "fst p" "snd p" d] names_of_list_mem [of x xs] by (auto simp: reference_free_def)

lemma reference_free_absent:
  assumes "reference_free (PDict d)"
  shows "\<not> dhas d ''authority_same_as''" "\<not> dhas d ''authority_fields''"
  using assms names_of_items_keys [of d] by (auto simp: reference_free_def dhas_def keys_def)

lemma omap_total: "(\<And>x. x \<in> set xs \<Longrightarrow> f x = Some (Inr (g x))) \<Longrightarrow> omap f xs = Some (Inr (map g xs))"
  by (induction xs) auto

lemma omap_returns: "(\<And>x. x \<in> set xs \<Longrightarrow> f x \<noteq> None) \<Longrightarrow> omap f xs \<noteq> None"
  by (induction xs) (auto split: option.split sum.split)

lemma inherit_fields_absent:
  assumes "\<not> dhas d ''authority_same_as''" and "pairs = [] \<or> \<not> dhas d ''authority_fields''"
  shows "inherit_fields authority pairs d = Inr d"
proof -
  have "dget d ''authority_same_as'' = PNone" using assms(1) by (simp add: dhas_map_of dget_def)
  then show ?thesis using assms(2)
    by (auto simp: inherit_fields_def inherit_mask_def dget_or_def dhas_map_of dpop_absent)
qed

lemma expand_reference_free: "reference_free v \<Longrightarrow> depth v < n \<Longrightarrow> expand_refs authority pairs n v = Some (Inr v)"
proof (induction n arbitrary: v)
  case (Suc n)
  show ?case
  proof (cases v)
    case (PList xs)
    have "expand_refs authority pairs n x = Some (Inr x)" if "x \<in> set xs" for x
      using Suc that depth_mem(1) [of x xs] reference_free_mem(2) [of xs x] by (simp add: PList)
    then have "omap (expand_refs authority pairs n) xs = Some (Inr (map (\<lambda>x. x) xs))" by (rule omap_total)
    then show ?thesis by (simp add: PList)
  next
    case (PDict d)
    have "expand_refs authority pairs n (snd p) = Some (Inr (snd p))" if "p \<in> set d" for p
      using Suc that depth_mem(2) [of "fst p" "snd p" d] reference_free_mem(1) [of d p] by (simp add: PDict)
    then have "omap (\<lambda>p. expand_refs authority pairs n (snd p)) d = Some (Inr (map snd d))" by (rule omap_total)
    moreover have "inherit_fields authority pairs d = Inr d"
      using reference_free_absent Suc.prems(1) by (intro inherit_fields_absent) (simp_all add: PDict)
    ultimately show ?thesis by (simp add: PDict keys_def zip_map_fst_snd)
  qed simp_all
qed simp

text \<open>What an expansion may add to an object: values without references, nested at most \<^verbatim>\<open>D\<close> deep.\<close>

definition plain_value :: "nat \<Rightarrow> pyval \<Rightarrow> bool" where
  "plain_value D v \<longleftrightarrow> reference_free v \<and> depth v \<le> D"

definition plain_sources :: "nat \<Rightarrow> dict \<Rightarrow> pyval list \<Rightarrow> bool" where
  "plain_sources D authority pairs \<longleftrightarrow>
     list_all (\<lambda>p. plain_value D (snd p)) authority
     \<and> list_all (\<lambda>x. case x of PList [_, v] \<Rightarrow> plain_value D v | _ \<Rightarrow> True) pairs"

lemma plain_authority:
  assumes "plain_sources D authority pairs" and "k \<in> set (keys authority)"
  shows "plain_value D (dget authority k)"
proof -
  obtain v where v: "map_of authority k = Some v" using assms(2) by (metis keys_def map_of_eq_None_iff not_None_eq list.set_map)
  then have "(k, v) \<in> set authority" by (rule map_of_SomeD)
  then show ?thesis using assms(1) v by (auto simp: plain_sources_def list_all_iff dget_def)
qed

lemma add_inherited_origin:
  assumes "efold (add_inherited authority bits) iks d = Inr e" and "p \<in> set e"
  shows "p \<in> set d \<or> (\<exists>k \<in> snd ` set iks. snd p = dget authority k)"
  using assms by (induction iks arbitrary: d) (fastforce simp: add_inherited_def ebind_Inr_iff split: if_splits)+

lemma list_item_mem: "list_item xs v = Inr x \<Longrightarrow> x \<in> set xs"
  by (auto simp: list_item_def Let_def split: if_splits)

lemma add_listed_origin:
  assumes "efold (add_listed pairs) js d = Inr e" and "p \<in> set e"
  shows "p \<in> set d \<or> (\<exists>k. PList [PStr k, snd p] \<in> set pairs)"
  using assms
proof (induction js arbitrary: d)
  case (Cons j js)
  then obtain d' where d': "add_listed pairs j d = Inr d'" "efold (add_listed pairs) js d' = Inr e" by (auto simp: ebind_Inr_iff)
  then obtain x where x: "list_item pairs j = Inr x" by (auto simp: add_listed_def ebind_Inr_iff)
  with d'(1) obtain k w where "x = PList [PStr k, w]" "d' = d @ [(k, w)]"
    by (auto simp: add_listed_def split: pyval.splits list.splits if_splits)
  then show ?case using Cons.IH [OF d'(2) Cons.prems(2)] list_item_mem [OF x] by auto
qed simp

lemma inherit_fields_origin:
  assumes "inherit_fields authority pairs d = Inr e" and "p \<in> set e" and plain: "plain_sources D authority pairs"
  shows "p \<in> set d \<or> plain_value D (snd p)"
proof -
  obtain d1 where d1: "inherit_mask authority d = Inr d1"
    and e: "pairs = [] \<and> e = d1 \<or> (\<exists>js. efold (add_listed pairs) js (dpop ''authority_fields'' d1) = Inr e)"
    using assms(1) by (auto simp: inherit_fields_def ebind_Inr_iff split: if_splits)
  have sub: "set (dpop k d) \<subseteq> set d" for k d by (auto simp: dpop_filter)
  have "p \<in> set d1 \<or> plain_value D (snd p)"
  proof (cases "pairs = [] \<and> e = d1")
    case False
    with e obtain js where "efold (add_listed pairs) js (dpop ''authority_fields'' d1) = Inr e" by blast
    from add_listed_origin [OF this assms(2)]
    have "p \<in> set d1 \<or> (\<exists>k. PList [PStr k, snd p] \<in> set pairs)" using subsetD [OF sub] by (elim disj_forward)
    then show ?thesis using plain by (auto simp: plain_sources_def list_all_iff)
  qed (use assms(2) in simp)
  moreover have "p \<in> set d \<or> plain_value D (snd p)" if "p \<in> set d1"
  proof (cases "\<exists>bits. dget d ''authority_same_as'' = PInt bits")
    case True
    then obtain bits where "efold (add_inherited authority bits) (enumerate 0 (sort (keys authority))) (dpop ''authority_same_as'' d) = Inr d1"
      using d1 by (auto simp: inherit_mask_def split: if_splits)
    from add_inherited_origin [OF this that]
    have "p \<in> set d \<or> (\<exists>k \<in> snd ` set (enumerate 0 (sort (keys authority))). snd p = dget authority k)"
      using subsetD [OF sub] by (elim disj_forward)
    moreover have "snd ` set (enumerate 0 (sort (keys authority))) = set (keys authority)"
      by (simp flip: list.set_map)
    ultimately show ?thesis using plain_authority [OF plain] by auto
  next
    case False
    then have "d1 = d" using d1 by (simp add: inherit_mask_def split: pyval.splits)
    then show ?thesis using that by simp
  qed
  ultimately show ?thesis by blast
qed

text \<open>C40: The expansion of authority references returns, with a result or an exception, on every payload
  whose authority values and shared field values hold no references themselves, as soon as the stack holds
  the nesting of the payload and of those values.\<close>

theorem expand_refs_returns:
  assumes "plain_sources D authority pairs" and "depth v + D < n"
  shows "\<exists>r. expand_refs authority pairs n v = Some r"
  using assms(2)
proof (induction n arbitrary: v)
  case (Suc n)
  show ?case
  proof (cases v)
    case (PList xs)
    have "expand_refs authority pairs n x \<noteq> None" if "x \<in> set xs" for x
      using Suc.IH [of x] Suc.prems depth_mem(1) [OF that] by (auto simp: PList)
    then have "omap (expand_refs authority pairs n) xs \<noteq> None" by (rule omap_returns)
    then show ?thesis by (auto simp: PList)
  next
    case (PDict d)
    have "expand_refs authority pairs n (snd p) \<noteq> None" if "inherit_fields authority pairs d = Inr e" "p \<in> set e" for e p
      using inherit_fields_origin [OF that assms(1)]
    proof
      assume "p \<in> set d"
      then show ?thesis using Suc.IH [of "snd p"] Suc.prems depth_mem(2) [of "fst p" "snd p" d] by (auto simp: PDict)
    next
      assume "plain_value D (snd p)"
      then have "expand_refs authority pairs n (snd p) = Some (Inr (snd p))"
        using Suc.prems by (intro expand_reference_free) (simp_all add: plain_value_def PDict)
      then show ?thesis by simp
    qed
    then have "omap (\<lambda>p. expand_refs authority pairs n (snd p)) e \<noteq> None" if "inherit_fields authority pairs d = Inr e" for e
      using that by (intro omap_returns)
    then show ?thesis by (auto simp: PDict split: sum.split)
  qed simp_all
qed simp

lemma expand_refs_returns_witness:
  "\<exists>r. expand_refs [(''mode'', PStr ''NONE'')] [PList [PStr ''lock'', PBool True]] 4
     (PList [PDict [(''authority_same_as'', PInt 1), (''authority_fields'', PList [PInt 0])]]) = Some r"
  by (rule expand_refs_returns [where D = 0]) (simp_all add: plain_sources_def plain_value_def reference_free_def)

text \<open>Without the condition it need not: an authority value that refers to itself exhausts every stack.\<close>

lemma self_reference_never_returns:
  "expand_refs [(''a'', PDict [(''authority_same_as'', PInt 1)])] [] n (PDict [(''authority_same_as'', PInt 1)]) = None"
proof (induction n)
  case (Suc n)
  have "inherit_fields [(''a'', PDict [(''authority_same_as'', PInt 1)])] [] [(''authority_same_as'', PInt 1)]
    = Inr [(''a'', PDict [(''authority_same_as'', PInt 1)])]" by code_simp
  with Suc show ?case by simp
qed simp

text \<open>The mask of the fields with a property, and the fields read back from it.\<close>

definition mask_of :: "(string \<Rightarrow> bool) \<Rightarrow> nat \<Rightarrow> string list \<Rightarrow> int" where
  "mask_of P i ks = sum_list (map (\<lambda>(j, k). if P k then 2 ^ j else 0) (enumerate i ks))"

lemma mask_of_simps:
  "mask_of P i [] = 0" "mask_of P i (k # ks) = (if P k then 2 ^ i else 0) + mask_of P (Suc i) ks"
  "mask_of P (Suc i) ks = 2 * mask_of P i ks"
proof -
  show "mask_of P (Suc i) ks = 2 * mask_of P i ks"
    by (induction ks arbitrary: i) (simp_all add: mask_of_def algebra_simps)
qed (simp_all add: mask_of_def)

lemma mask_of_bounds: "0 \<le> mask_of P 0 ks \<and> mask_of P 0 ks < 2 ^ length ks"
  by (induction ks) (auto simp: mask_of_simps)

lemma bit_mask_of: "bit (mask_of P 0 ks) i \<longleftrightarrow> i < length ks \<and> P (ks ! i)"
proof (induction ks arbitrary: i)
  case (Cons k ks)
  have m: "mask_of P 0 (k # ks) = of_bool (P k) + 2 * mask_of P 0 ks" by (simp add: mask_of_simps)
  show ?case
  proof (cases i)
    case 0
    then show ?thesis unfolding m by (simp add: bit_0)
  next
    case (Suc j)
    then show ?thesis unfolding m using Cons.IH [of j] by (simp add: bit_Suc)
  qed
qed (simp add: mask_of_simps)

lemma inherit_masked:
  assumes "distinct ks" and "\<forall>i < length ks. bit bits (a + i) \<longleftrightarrow> P (ks ! i)" and "\<forall>k \<in> set ks. P k \<longrightarrow> \<not> dhas d k"
  shows "efold (add_inherited authority bits) (enumerate a ks) d = Inr (d @ map (\<lambda>k. (k, dget authority k)) (filter P ks))"
  using assms
proof (induction ks arbitrary: a d)
  case (Cons k ks)
  have bits: "bit bits a \<longleftrightarrow> P k" "\<forall>i < length ks. bit bits (Suc a + i) \<longleftrightarrow> P (ks ! i)"
    using Cons.prems(2) by (force, metis Suc_less_eq add_Suc_shift length_Cons nth_Cons_Suc)
  show ?case
  proof (cases "P k")
    case True
    have rest: "\<forall>k' \<in> set ks. P k' \<longrightarrow> \<not> dhas (d @ [(k, dget authority k)]) k'"
      using Cons.prems(1,3) by (auto simp: dhas_def)
    have "add_inherited authority bits (a, k) d = Inr (d @ [(k, dget authority k)])"
      using True bits(1) Cons.prems(3) by (simp add: add_inherited_def)
    then show ?thesis using Cons.IH [OF _ bits(2) rest] Cons.prems(1) True by simp
  next
    case False
    then have "add_inherited authority bits (a, k) d = Inr d" using bits(1) by (simp add: add_inherited_def)
    then show ?thesis using Cons.IH [OF _ bits(2)] Cons.prems False by simp
  qed
qed simp

text \<open>An authority of strings and truth values, and the fields an object shares with it.\<close>

definition flat_authority :: "dict \<Rightarrow> bool" where
  "flat_authority authority \<longleftrightarrow>
     distinct (keys authority) \<and> \<not> dhas authority ''authority_same_as'' \<and> list_all (\<lambda>p. is_str (snd p) \<or> is_bool (snd p)) authority"

definition shares :: "dict \<Rightarrow> dict \<Rightarrow> string \<Rightarrow> bool" where
  "shares authority d k \<longleftrightarrow> dhas authority k \<and> dhas d k \<and> canonical_hash (dget d k) = canonical_hash (dget authority k)"

lemma inherit_shared:
  assumes "distinct (keys authority)" and "distinct (keys d)" and "\<not> dhas d ''authority_same_as''"
  shows "\<exists>e S. inherit_fields authority [] (share_authority authority d) = Inr e \<and> distinct (keys e) \<and> (\<forall>k \<in> S. shares authority d k)
    \<and> map_of e = (\<lambda>k. if k \<in> S then Some (dget authority k) else map_of d k)"
proof -
  define ks where "ks = sort (keys authority)"
  define sh where "sh = filter (\<lambda>k. dhas d k \<and> canonical_hash (dget d k) = canonical_hash (dget authority k)) ks"
  define kept where "kept = filter (\<lambda>(k, _). k \<notin> set sh) d"
  define bits where "bits = mask_of (\<lambda>k. k \<in> set sh) 0 ks"
  have ks: "distinct ks" "length ks = length authority" "distinct sh" using assms(1) by (simp_all add: ks_def sh_def keys_def)
  have in_sh: "shares authority d k" if "k \<in> set sh" for k using that by (auto simp: shares_def dhas_def keys_def sh_def ks_def)
  show ?thesis
  proof (cases "sum_list (map (\<lambda>k. bridge_size (PDict [(k, dget d k)])) sh) > 70")
    case False
    then have "share_authority authority d = d" by (simp add: share_authority_def Let_def sh_def ks_def)
    then have "inherit_fields authority [] (share_authority authority d) = Inr d" using assms(3) by (simp add: inherit_fields_absent)
    then show ?thesis using assms(2) by (intro exI [of _ d] exI [of _ "{}"]) simp
  next
    case True
    then have sa: "share_authority authority d = dset ''authority_same_as'' (PInt bits) kept"
      by (simp add: share_authority_def Let_def mask_of_def sh_def ks_def kept_def bits_def)
    have absent: "\<not> dhas kept ''authority_same_as''" using assms(3) by (auto simp: dhas_def kept_def)
    have gone: "\<forall>k \<in> set ks. k \<in> set sh \<longrightarrow> \<not> dhas kept k" by (force simp: dhas_def kept_def)
    let ?e = "kept @ map (\<lambda>k. (k, dget authority k)) sh"
    have set_bits: "\<forall>i < length ks. bit bits (0 + i) \<longleftrightarrow> ks ! i \<in> set sh" by (simp add: bits_def bit_mask_of)
    have "filter (\<lambda>k. k \<in> set sh) ks = sh" unfolding sh_def by (rule filter_cong) auto
    then have "efold (add_inherited authority bits) (enumerate 0 ks) kept = Inr ?e"
      using inherit_masked [OF ks(1) set_bits gone] by simp
    then have "inherit_fields authority [] (share_authority authority d) = Inr ?e"
      using mask_of_bounds [of "\<lambda>k. k \<in> set sh" ks] absent ks(2) unfolding sa bits_def [symmetric]
      by (simp add: inherit_fields_def inherit_mask_def dpop_absent ks_def [symmetric])
    moreover have "distinct (keys ?e)"
      using assms(2) ks(3) by (auto simp: keys_def kept_def comp_def distinct_map_filter)
    moreover have "map_of ?e = (\<lambda>k. if k \<in> set sh then Some (dget authority k) else map_of d k)"
      by (auto simp: fun_eq_iff kept_def map_add_def map_of_filter_keys map_of_map_Pair split: option.split)
    ultimately show ?thesis using in_sh by (intro exI [of _ ?e] exI [of _ "set sh"]) blast
  qed
qed

text \<open>Every object of a value, and a shared field on which SHA-256 misleads.\<close>

fun objects_of :: "pyval \<Rightarrow> dict list" and objects_of_list :: "pyval list \<Rightarrow> dict list" and objects_of_items :: "dict \<Rightarrow> dict list" where
  "objects_of (PDict d) = d # objects_of_items d"
| "objects_of (PList xs) = objects_of_list xs"
| "objects_of _ = []"
| "objects_of_list [] = []"
| "objects_of_list (x # xs) = objects_of x @ objects_of_list xs"
| "objects_of_items [] = []"
| "objects_of_items ((k, v) # d) = objects_of v @ objects_of_items d"

definition misled :: "dict \<Rightarrow> dict \<Rightarrow> bool" where
  "misled authority d \<longleftrightarrow>
     (let d' = inherit_items authority d in
      list_ex (\<lambda>k. shares authority d' k \<and> json_text (dget d' k) \<noteq> json_text (dget authority k)) (keys authority))"

definition authority_collision :: "dict \<Rightarrow> pyval \<Rightarrow> bool" where
  "authority_collision authority v \<longleftrightarrow> list_ex (misled authority) (objects_of v)"

lemma inherit_items_map: "inherit_items authority d = map (\<lambda>(k, v). (k, inherit_authority authority v)) d"
  by (induction d) auto

lemma flat_text_kept:
  assumes "is_str a \<or> is_bool a" and "json_text (inherit_authority authority v) = json_text a"
  shows "inherit_authority authority v = v"
  using assms by (cases v; cases a) (auto simp: json_str_def split: if_splits)

lemma dget_mem: "dhas d k \<Longrightarrow> (k, dget d k) \<in> set d"
  by (auto simp: dhas_map_of dget_def dest: map_of_SomeD)

lemma expand_shared_object:
  assumes flat: "flat_authority authority" and dist: "distinct (keys d)" and fresh: "\<not> dhas d ''authority_same_as''"
    and honest: "\<not> misled authority d" and n: "0 < n"
    and IH: "\<forall>p \<in> set d. \<exists>w. expand_refs authority [] n (inherit_authority authority (snd p)) = Some (Inr w) \<and> json_text w = json_text (snd p)"
  shows "\<exists>w. expand_refs authority [] (Suc n) (inherit_authority authority (PDict d)) = Some (Inr w) \<and> json_text w = json_text (PDict d)"
proof -
  let ?d = "inherit_items authority d"
  have at: "map_of ?d k = map_option (inherit_authority authority) (map_of d k)" for k
    by (simp add: inherit_items_map map_of_map_snd)
  have has: "dhas ?d k \<longleftrightarrow> dhas d k" for k by (simp add: dhas_map_of at)
  have "distinct (keys ?d)" using dist by (simp add: inherit_items_map keys_def comp_def case_prod_unfold)
  moreover have "distinct (keys authority)" using flat by (simp add: flat_authority_def)
  ultimately obtain e S where e: "inherit_fields authority [] (share_authority authority ?d) = Inr e" "distinct (keys e)"
    "\<forall>k \<in> S. shares authority ?d k" "map_of e = (\<lambda>k. if k \<in> S then Some (dget authority k) else map_of ?d k)"
    using inherit_shared [of authority ?d] fresh has by auto
  have item: "\<exists>w. expand_refs authority [] n x = Some (Inr w) \<and> json_text w = json_text (dget d k)" if x: "map_of e k = Some x" for k x
  proof (cases "k \<in> S")
    case True
    then have sh: "shares authority ?d k" and xa: "x = dget authority k" using e(3,4) x by auto
    then have "k \<in> set (keys authority)" by (simp add: shares_def dhas_def keys_def)
    then have same: "json_text (dget ?d k) = json_text x" using honest sh unfolding misled_def Let_def list_ex_iff xa by blast
    have "dhas authority k" "dhas d k" using sh has by (simp_all add: shares_def)
    then have flatx: "is_str x \<or> is_bool x" using flat dget_mem [of authority k] unfolding flat_authority_def list_all_iff xa by fastforce
    have "dget ?d k = inherit_authority authority (dget d k)" using at [of k] \<open>dhas d k\<close> by (auto simp: dget_def dhas_map_of)
    then have "json_text x = json_text (dget d k)" using flat_text_kept [OF flatx] same by metis
    moreover have "expand_refs authority [] n x = Some (Inr x)"
      using flatx n by (cases n; cases x) auto
    ultimately show ?thesis by blast
  next
    case False
    then obtain u where "map_of d k = Some u" "x = inherit_authority authority u" using x e(4) at [of k] by auto
    then show ?thesis using IH by (force simp: dget_def dest: map_of_SomeD)
  qed
  have "\<forall>p \<in> set e. \<exists>w. expand_refs authority [] n (snd p) = Some (Inr w) \<and> json_text w = json_text (dget d (fst p))"
  proof
    fix p assume "p \<in> set e"
    then have "map_of e (fst p) = Some (snd p)" using e(2) by (intro map_of_is_SomeI) (simp_all add: keys_def)
    then show "\<exists>w. expand_refs authority [] n (snd p) = Some (Inr w) \<and> json_text w = json_text (dget d (fst p))" by (rule item)
  qed
  then obtain g where g: "\<forall>p \<in> set e. expand_refs authority [] n (snd p) = Some (Inr (g p)) \<and> json_text (g p) = json_text (dget d (fst p))"
    by (meson bchoice)
  then have "omap (\<lambda>p. expand_refs authority [] n (snd p)) e = Some (Inr (map g e))" by (intro omap_total) blast
  then have "expand_refs authority [] (Suc n) (inherit_authority authority (PDict d)) = Some (Inr (PDict (zip (keys e) (map g e))))"
    by (simp add: e(1))
  moreover have "json_text (PDict (zip (keys e) (map g e))) = json_text (PDict d)"
  proof (rule json_dict_cong)
    have z: "map_of (zip (keys e) (map g e)) k = map_option (\<lambda>x. g (k, x)) (map_of e k)" for k
      unfolding keys_def by (induction e) auto
    show "map_option json_text (map_of (zip (keys e) (map g e)) k) = map_option json_text (map_of d k)" for k
    proof (cases "map_of e k")
      case None
      then have "map_of d k = None" using at [of k] e(4) by (auto split: if_splits)
      then show ?thesis by (simp add: z None)
    next
      case (Some x)
      then have "(k, x) \<in> set e" by (rule map_of_SomeD)
      then have "json_text (g (k, x)) = json_text (dget d k)" using g by auto
      moreover have "dhas ?d k" using Some e(3,4) by (cases "k \<in> S") (simp_all add: shares_def dhas_map_of [of ?d])
      then have "dhas d k" by (simp only: has)
      ultimately show ?thesis by (auto simp: z Some dget_def dhas_map_of)
    qed
  qed (use e(2) dist in \<open>simp_all add: keys_def\<close>)
  ultimately show ?thesis by blast
qed

lemma authority_returns:
  assumes flat: "flat_authority authority"
  shows "wf_val v \<Longrightarrow> ''authority_same_as'' \<notin> set (names_of v) \<Longrightarrow> list_ex (misled authority) (objects_of v) = False \<Longrightarrow> depth v < n \<Longrightarrow>
      \<exists>w. expand_refs authority [] n (inherit_authority authority v) = Some (Inr w) \<and> json_text w = json_text v"
    and "wf_list xs \<Longrightarrow> ''authority_same_as'' \<notin> set (names_of_list xs) \<Longrightarrow> list_ex (misled authority) (objects_of_list xs) = False \<Longrightarrow> depth_list xs < n \<Longrightarrow>
      \<exists>ws. omap (expand_refs authority [] n) (inherit_list authority xs) = Some (Inr ws) \<and> json_list ws = json_list xs"
    and "wf_items d \<Longrightarrow> ''authority_same_as'' \<notin> set (names_of_items d) \<Longrightarrow> list_ex (misled authority) (objects_of_items d) = False \<Longrightarrow> depth_items d < n \<Longrightarrow>
      \<forall>p \<in> set d. \<exists>w. expand_refs authority [] n (inherit_authority authority (snd p)) = Some (Inr w) \<and> json_text w = json_text (snd p)"
proof (induction v and xs and d arbitrary: n and n and n rule: names_of_names_of_list_names_of_items.induct)
  case (1 d)
  then obtain m where n: "n = Suc m" "depth_items d < m" by (cases n) auto
  have "\<not> dhas d ''authority_same_as''" using 1(3) names_of_items_keys [of d] by (auto simp: dhas_def keys_def)
  moreover have "\<forall>p \<in> set d. \<exists>w. expand_refs authority [] m (inherit_authority authority (snd p)) = Some (Inr w) \<and> json_text w = json_text (snd p)"
    using 1 n(2) by simp
  ultimately show ?case using 1 n flat unfolding n(1) by (intro expand_shared_object) auto
next
  case (2 xs)
  then obtain m where n: "n = Suc m" "depth_list xs < m" by (cases n) auto
  then show ?case using 2 by fastforce
next
  case (5 x xs)
  then obtain w where "expand_refs authority [] n (inherit_authority authority x) = Some (Inr w)" "json_text w = json_text x" by fastforce
  moreover from 5 obtain ws where "omap (expand_refs authority [] n) (inherit_list authority xs) = Some (Inr ws)" "json_list ws = json_list xs"
    by fastforce
  ultimately show ?case by simp
qed (auto simp: gr0_conv_Suc)

text \<open>C39: The mask references to a flat authority are undone by the expansion: whatever well-formed value
  is rewritten, with enough stack for its nesting the expansion gives back its canonical text, unless
  SHA-256 gives a field and the authority field of the same name one hash for two texts.\<close>

theorem authority_expands_back:
  assumes "flat_authority authority" and "wf_val v" and "''authority_same_as'' \<notin> set (names_of v)"
    and "\<not> authority_collision authority v" and "depth v < n"
  shows "\<exists>w. expand_refs authority [] n (inherit_authority authority v) = Some (Inr w) \<and> json_text w = json_text v"
  using authority_returns(1) [OF assms(1)] assms(2-) unfolding authority_collision_def by blast

definition demo_authority :: dict where
  "demo_authority = [(''capital_decision_authority'', PStr ''USER_ONLY''), (''external_action_authority'', PStr ''NONE''), (''production'', PStr ''NOT_APPROVED'')]"

definition demo_value :: pyval where "demo_value = PList [PDict ((''stage'', PInt 3) # rev demo_authority)]"

text \<open>Here the encoding does replace the three fields.\<close>

lemma demo_value_shortened:
  "inherit_authority demo_authority demo_value = PList [PDict [(''stage'', PInt 3), (''authority_same_as'', PInt 7)]]"
proof -
  have sizes: "bridge_size (PDict [(''capital_decision_authority'', PStr ''USER_ONLY'')]) = 42"
    "bridge_size (PDict [(''external_action_authority'', PStr ''NONE'')]) = 36" by code_simp+
  have "sort (keys demo_authority) = [''capital_decision_authority'', ''external_action_authority'', ''production'']" by code_simp
  then show ?thesis
    by (simp add: demo_value_def share_authority_def Let_def sizes) (simp add: demo_authority_def dget_def dhas_def dset_def sizes)
qed

lemma authority_expands_back_witness:
  "\<exists>w. expand_refs demo_authority [] 3 (inherit_authority demo_authority demo_value) = Some (Inr w) \<and> json_text w = json_text demo_value"
proof (rule authority_expands_back)
  show "flat_authority demo_authority" by code_simp
  show "wf_val demo_value" by (simp add: demo_value_def demo_authority_def keys_def)
  show "''authority_same_as'' \<notin> set (names_of demo_value)" by code_simp
  show "\<not> authority_collision demo_authority demo_value"
    by (simp add: authority_collision_def misled_def demo_value_def demo_authority_def keys_def dget_def)
  show "depth demo_value < 3" by code_simp
qed

end
