(* ===== verification/Spec2Isabelle.thy ===== *)
theory Spec2Isabelle
  imports Commander_Adapter Transport_Boundary Plan_Drift Maturity_Ledger Notification_Boundary Posture_Gate Liquidation_Snapshot Hairpin_Cycle Transport_Worker Reanalysis_Wake Commander_Operator Bridge_Codec
begin

text \<open>
  A verification of the decision-support core of the CRT radar (Python, \<^verbatim>\<open>src/radar/src/crt_radar/\<close>;
  every file named below is there).

  \<^bold>\<open>The program.\<close> The radar watches markets, notices when a capital decision should be thought over
  again and hands that question, once, to an analyst (a language model); it never trades. Its data is
  JSON: every document that crosses a process boundary is sealed with the SHA-256 of its canonical
  text, every document carries fields that deny it any authority to act, and every long-lived file is
  an append-only chain or a record rewritten atomically. Three flows meet:

  \<^item> \<^bold>\<open>Observation.\<close> A Commander Plan (sealed price lines) is validated and armed: one level engine per
    line. Live prices go through a durable journal into the observation bridge and the engines; what the
    engines report becomes observation-only events. The operator runs this in cycles, replays after a
    crash what its checkpoint has not seen, and hands each new event on.
  \<^item> \<^bold>\<open>Wake and handoff.\<close> Commander events, price moves, plan drift, issuer announcements and capital
    readings are fused into one reanalysis wake. The handoff gate records a wake at most once per episode
    in the run ledger, as long as its calls do not overlap, and mirrors its payload into the bridge outbox.
  \<^item> \<^bold>\<open>Delivery.\<close> The transport worker claims an outbox event, sends one request, stores a receipt and a
    notification; the notification boundary shows it to the user, at most once unless a call works on a
    capital recommendation it has read before another call delivered it.

  Beside them stand the read-only broker observation (which bounds a cash budget), the liquidation store
  and its snapshots, the maturity ledger, and two research gates.

  \<^bold>\<open>The theories, from the bottom.\<close>

  \<^item> \<^verbatim>\<open>Py_Float\<close>, \<^verbatim>\<open>Py_Value\<close>, \<^verbatim>\<open>Py_Text\<close>, \<^verbatim>\<open>Py_Decimal\<close> are the prelude: what the code uses of Python.
    A float is the rational it denotes or an infinity or NaN, each operation rounds to nearest even as
    IEEE 754 does; a \<^verbatim>\<open>Decimal\<close> is a rational rounded to 28 digits. A value is a datatype of None, booleans,
    unbounded integers, floats, strings, lists and dictionaries (association lists in insertion order);
    strings are their UTF-8 bytes. An exception is a value of \<^verbatim>\<open>exn\<close> and a function that may raise returns
    a sum; \<^verbatim>\<open>ebind\<close>, \<^verbatim>\<open>emap\<close> and \<^verbatim>\<open>efold\<close> are the sequencing, comprehension and loop that stop at the first
    exception. \<^verbatim>\<open>json_text\<close> is \<^verbatim>\<open>json.dumps\<close> with sorted keys and compact separators, including the shortest
    text of a float; SHA-256 is computed on 32-bit words. No theorem assumes that SHA-256 has no
    collisions: where it matters, the alternative "or two different texts have this digest" is in the
    statement. \<^verbatim>\<open>json_reload\<close> is what a reader gets back from the canonical text. Two interfaces are stated
    here as locales: \<^verbatim>\<open>sealed_record\<close> (a record with a seal field; an edit under an unchanged seal is seen)
    and \<^verbatim>\<open>guarded_machine\<close> (a step that may raise and an invariant it keeps; the invariant holds after every
    run). \<^verbatim>\<open>Run_Ledger\<close> adds \<^verbatim>\<open>hash_chain\<close> (records that name the digest of their predecessor; the head
    digest fixes the whole chain).
  \<^item> \<^verbatim>\<open>Level_Engine\<close> (\<^verbatim>\<open>level_event_state_machine.py\<close>): the record \<^verbatim>\<open>engine\<close> has the fields of
    \<^verbatim>\<open>LevelEventEngine\<close>; \<^verbatim>\<open>on_price\<close>, \<^verbatim>\<open>on_5s_close\<close>, \<^verbatim>\<open>snapshot_state\<close> and \<^verbatim>\<open>restore_state\<close> are its methods.
    Lemmas: a flag invariant, exact checkpoints, counts of events over any run.
  \<^item> \<^verbatim>\<open>Commander_Plan\<close> and \<^verbatim>\<open>Commander_Adapter\<close> (\<^verbatim>\<open>commander_plan_adapter.py\<close>,
    \<^verbatim>\<open>ibkr_commander_observation.py\<close>): \<^verbatim>\<open>validate_commander_plan\<close> against a declarative reading, sealing, arming,
    dispatch to the engines, the events and their authority fields, the checkpoint of all engines.
  \<^item> \<^verbatim>\<open>Observation_Journal\<close> (\<^verbatim>\<open>ibkr_observation_journal.py\<close>) and \<^verbatim>\<open>Commander_Operator\<close>
    (\<^verbatim>\<open>ibkr_commander_operator.py\<close>): the journal as a table, the sink that commits before it forwards, replay;
    one operator cycle with every durable world it passes through. Lemmas: a validated journal is a chain,
    replay is the run that was interrupted, checkpoint and journal stay aligned across crashes.
  \<^item> \<^verbatim>\<open>Reanalysis_Wake\<close> (\<^verbatim>\<open>reanalysis_wake.py\<close>) and \<^verbatim>\<open>Handoff_Gate\<close> (\<^verbatim>\<open>run_gpt_handoff_gate\<close> and what it calls in
    \<^verbatim>\<open>gpt_handoff.py\<close>): wake decisions, the identity of a capital state, the fusion of sources; the checks of
    the gate, the semantic wake key, open and closed episodes, the record written to the ledger; the
    effects of overlapping calls as single steps.
  \<^item> \<^verbatim>\<open>Observation_Store\<close> (\<^verbatim>\<open>observation_store.py\<close>, \<^verbatim>\<open>change_engine.py\<close>): the two SQLite tables and every
    operation on them, and the changes computed from the stored series. Lemmas: recorded facts and research
    events are never altered, and nothing recorded later changes what was computed for an earlier moment.
  \<^item> \<^verbatim>\<open>Bridge_Codec\<close> (\<^verbatim>\<open>_bridge_size\<close> to \<^verbatim>\<open>_inherit_equal_authority\<close> in \<^verbatim>\<open>gpt_handoff.py\<close>): the encodings that shorten
    the bridge payload and the reader's expansion. Lemmas: tranches, field names and authority masks come
    back as they were, and the stack the expansion needs.
  \<^item> \<^verbatim>\<open>Bridge_Outbox\<close>, \<^verbatim>\<open>Transport_Boundary\<close>, \<^verbatim>\<open>Responses_Adapter\<close>, \<^verbatim>\<open>Transport_Worker\<close>, \<^verbatim>\<open>Notification_Boundary\<close>
    (\<^verbatim>\<open>gpt_bridge_outbox.py\<close>, \<^verbatim>\<open>gpt_transport_boundary.py\<close>, \<^verbatim>\<open>openai_responses_adapter_contract.py\<close>,
    \<^verbatim>\<open>gpt_transport_worker.py\<close>, \<^verbatim>\<open>gpt_notification_boundary.py\<close>): the delivery path. The sealed state records
    refine an abstract life cycle; a claim excludes others; a request leaves at most once; a text is shown
    at most once, and how a stale read shows it twice.
  \<^item> \<^verbatim>\<open>Run_Ledger\<close>, \<^verbatim>\<open>Maturity_Ledger\<close>, \<^verbatim>\<open>Hairpin_Cycle\<close> (\<^verbatim>\<open>run_ledger.py\<close>, \<^verbatim>\<open>maturity_tracker.py\<close>,
    \<^verbatim>\<open>dual_hairpin_operational_orchestrator.py\<close>): the chained files; all interpret \<^verbatim>\<open>hash_chain\<close>, as the journal does.
    An append of the run ledger succeeds exactly when the new record may follow; a torn write is a file that
    no longer reads.
  \<^item> \<^verbatim>\<open>Broker_Capital\<close>, \<^verbatim>\<open>Plan_Drift\<close> (\<^verbatim>\<open>broker_capital_observation.py\<close>, \<^verbatim>\<open>plan_drift.py\<close>): what the account allows and
    which conditions of a capital plan still hold.
  \<^item> \<^verbatim>\<open>Liquidation_Store\<close>, \<^verbatim>\<open>Liquidation_Snapshot\<close> (\<^verbatim>\<open>liquidation_aggregator.py\<close>): the tables, each operation as a
    transaction, and the snapshot at a cutoff.
  \<^item> \<^verbatim>\<open>Posture_Gate\<close> (\<^verbatim>\<open>btc_transition_research_eval.py\<close>, \<^verbatim>\<open>deployment_posture_research_gate.py\<close>).

  \<^bold>\<open>State and crashes.\<close> A component's state is a record, its operation a function to the next state or an
  exception; an operation that raises has no successor state unless the code has changed something
  before. Where several durable effects follow one another (worker, handoff gate, operator) the
  operation returns the list of durable worlds after each effect, and the reachable worlds are the
  inductive closure over all of them: every prefix of the effects is a place where a process may die.
  Interleaving of processes is a sequence of such steps; within a lock the steps of one process are
  adjacent, because the code holds the lock. Two places read before they lock, or without a lock: the
  presentation of a notification and the handoff gate. There the read and each later effect are separate
  steps of a relation (\<^verbatim>\<open>presenting\<close>, \<^verbatim>\<open>gate_step\<close>) whose first argument says whether a call may go on with
  what it has read although it is out of date. The properties hold when it may not; two lemmas show runs
  that violate them when it may. The operator calls the gate undisturbed.

  \<^bold>\<open>Parameters.\<close> What is not under \<^verbatim>\<open>src/\<close>, or only produces text for people, is an argument of the
  definitions that use it and unconstrained in the theorems unless a hypothesis says otherwise: clocks,
  UUIDs and random tokens, the model provider, popups, file locks, \<^verbatim>\<open>datetime.fromisoformat\<close>, the JSON reader
  of the provider's answer, market feeds, the notice builder, the builder of the minimized bridge payload
  and the validators of the announcement, ratio and market-health sections.

  \<^bold>\<open>Bounds and fuel.\<close> Python integers are unbounded here as there; SQLite columns are refused beyond 64 bits
  as the binding does; SHA-256 uses words of 32 bits. One recursion carries fuel, \<^verbatim>\<open>expand_refs\<close>: a payload
  may refer to itself, and the fuel is the stack that is left, so \<^verbatim>\<open>None\<close> is \<^verbatim>\<open>RecursionError\<close>; it is enough
  when it exceeds the nesting of the payload and of the values it refers to (\<^verbatim>\<open>expand_refs_returns\<close>). The
  other recursions are structural or have a termination proof (digits of numbers, padding, text search).

  \<^bold>\<open>Not modelled.\<close>
  \<^item> Network, sockets, threads and the third-party broker SDK, downloads, command lines.
  \<^item> Parsers of web pages and filings (regular expressions and HTML parsers over foreign formats) and the
    evidence runners that collect, join and render the documents the modelled components read.
  \<^item> The research overlays on bitcoin seasons, transitions and options: they have no authority over the
    flows above; the evaluation and the gate through which they could reach a posture are modelled.
  \<^item> In modelled files: the presentation of broker data, the sweep of pending notifications, the capital
    and Commander variants of a provider request, the choice of the fields of the bridge payload, the research
    wake on liquidation evidence and the builder of simulation plans.
  \<^item> Of Python: object identity and aliasing (the code copies what it keeps), the sign of zero, non-string
    dictionary keys, lone surrogates in strings, and the wording of exceptions raised by the interpreter.
\<close>

end
